(* ===== verification/Prelude.thy ===== *)
theory Prelude
  imports Main
    "HOL-Library.AList" "HOL-Library.Char_ord" "HOL-Library.List_Lexorder"
    "HOL-Library.Product_Lexorder" "HOL-Library.Multiset" "HOL-Library.Word"
begin

text \<open>
  The vocabulary every other theory shares: the JavaScript values, errors, \<open>Map\<close>s, \<open>Set\<close>s,
  strings and sorts the source uses, and the lemmas about them.

  \<^item> A thrown error is the left summand of a sum, a returned value the right one; a loop whose
    body may throw is \<open>fold_r\<close>.
  \<^item> A \<open>Map\<close> is an association list in insertion order: \<open>Map.set\<close> on a present key keeps its
    place, on a new key appends, which is what \<open>AList.update\<close> does. \<open>Map.get\<close> is \<open>map_of\<close>, with
    \<open>None\<close> for \<open>undefined\<close>.
  \<^item> A \<open>Set\<close> is a list without repetition in insertion order.
  \<^item> A string is a list of UTF-16 code units below 256; \<open><\<close> on strings is the lexicographic
    order of the code units, as in the language.
  \<^item> A number is \<open>JNum\<close> when it is integral, and otherwise \<open>JFlt\<close> with its IEEE bit pattern
    (a fraction, an infinity or NaN). Counters stay below \<open>2\<^sup>5\<^sup>3\<close>, where doubles are exact.
\<close>

section \<open>Collections of facts\<close>

named_theorems js_simps \<open>equations that run the string and number helpers\<close>
named_theorems abs_simps \<open>how each operation acts on the abstraction of its state\<close>
named_theorems wf_intros \<open>each operation keeps the representation invariant\<close>

section \<open>Errors as values\<close>

text \<open>
  One constructor for each \<open>throw\<close> of the modelled code, grouped by the module that throws. An
  argument is the field, the operation type or the identifier that the message names.
\<close>

datatype dot_error = WriterIdEmpty | CounterNotPositive | MissingColon | EmptyWriterId | InvalidCounter

datatype vv_error = ZeroCounter string | BadCounter string

datatype event_error = LamportNotPositive | EventWriterEmpty | PatchShaNotHex | OpIndexNegative

datatype key_error =
    LegacyNoPrefix
  | LegacySegments nat
  | LegacyEmptySegment
  | EdgePropNoPrefix
  | EdgePropSegments

datatype patch_error =
    OpNotTyped
  | FieldNotString string string
  | FieldNotIterable string string
  | DotNotObject string
  | DotWriterNotString string
  | DotCounterNotNumber string
  | UnnormalizedPropSet

datatype receipt_error =
    ReceiptShaEmpty
  | ReceiptWriterEmpty
  | ReceiptLamportNegative
  | ReceiptOpsNotArray
  | ReceiptOpNotObject nat
  | ReceiptOpType nat
  | ReceiptOpTarget nat
  | ReceiptOpResult nat
  | ReceiptOpReason nat

datatype builder_error =
    AlreadyCommitted
  | NotAString string
  | HasNullByte string
  | HasReservedPrefix string
  | NodeHasData string nat nat
  | UnknownNode string
  | UnknownEdge string string string
  | MetadataNotObject
  | MetadataSizeInvalid
  | MetadataSizeMismatch int int
  | MetadataMimeInvalid
  | EmptyPatch
  | CasConflict "string option" "string option"
  | BadPatchMessage

datatype ref_error =
    GraphNameNotString
  | GraphNameEmpty
  | GraphNameTraversal
  | GraphNameSemicolon
  | GraphNameSpace
  | GraphNameNull
  | GraphNameReserved string
  | WriterIdNotString
  | WriterIdIsEmpty
  | WriterIdTooLong nat
  | WriterIdTraversal
  | WriterIdSlash
  | WriterIdNull
  | WriterIdSpace
  | WriterIdChars

datatype store_error =
    OidInvalid
  | RefInvalid
  | MktreeNoTab
  | TreeNotFound string
  | BlobNotFound string
  | CommitNotFound string
  | RefNotFound string
  | CasMismatch string "string option" "string option"

datatype js_error =
    DotErr dot_error
  | VvErr vv_error
  | OrsetInvalidDot
  | EventErr event_error
  | KeyErr key_error
  | PatchErr patch_error
  | ReceiptErr receipt_error
  | BuilderErr builder_error
  | RefErr ref_error
  | StoreErr store_error
  | GcFailed bool
  | TypeErr

type_synonym 'a result = "js_error + 'a"

text \<open>Sequencing, loops and maps of fallible steps, for any type of errors.\<close>

fun bind_r :: "'e + 'a \<Rightarrow> ('a \<Rightarrow> 'e + 'b) \<Rightarrow> 'e + 'b" where
  "bind_r (Inl e) f = Inl e"
| "bind_r (Inr x) f = f x"

fun fold_r :: "('s \<Rightarrow> 'a \<Rightarrow> 'e + 's) \<Rightarrow> 's \<Rightarrow> 'a list \<Rightarrow> 'e + 's" where
  "fold_r f s [] = Inr s"
| "fold_r f s (x # xs) = bind_r (f s x) (\<lambda>s'. fold_r f s' xs)"

fun map_r :: "('a \<Rightarrow> 'e + 'b) \<Rightarrow> 'a list \<Rightarrow> 'e + 'b list" where
  "map_r f [] = Inr []"
| "map_r f (x # xs) = bind_r (f x) (\<lambda>y. bind_r (map_r f xs) (\<lambda>ys. Inr (y # ys)))"

definition is_ok :: "'e + 'a \<Rightarrow> bool" where
  "is_ok r = (case r of Inl _ \<Rightarrow> False | Inr _ \<Rightarrow> True)"

lemma is_ok_simps [simp]: "is_ok (Inr x)" "\<not> is_ok (Inl e)"
  by (simp_all add: is_ok_def)

lemma is_ok_iff: "is_ok r \<longleftrightarrow> (\<exists>x. r = Inr x)"
  by (cases r) (auto simp: is_ok_def)

lemma bind_r_Inr_iff: "bind_r r f = Inr y \<longleftrightarrow> (\<exists>x. r = Inr x \<and> f x = Inr y)"
  by (cases r) auto

lemma bind_r_InrE:
  assumes "bind_r r f = Inr y"
  obtains x where "r = Inr x" "f x = Inr y"
  using assms by (auto simp: bind_r_Inr_iff)

lemma bind_r_Inr_right [simp]: "bind_r r Inr = r"
  by (cases r) auto

lemma bind_r_assoc: "bind_r (bind_r r f) g = bind_r r (\<lambda>x. bind_r (f x) g)"
  by (cases r) auto

lemma fold_r_append: "fold_r f s (xs @ ys) = bind_r (fold_r f s xs) (\<lambda>s'. fold_r f s' ys)"
  by (induction xs arbitrary: s) (auto simp: bind_r_assoc)

lemma fold_r_invariant:
  assumes "fold_r f s xs = Inr t" and "P s"
    and "\<And>s x s'. x \<in> set xs \<Longrightarrow> P s \<Longrightarrow> f s x = Inr s' \<Longrightarrow> P s'"
  shows "P t"
  using assms
proof (induction xs arbitrary: s)
  case Nil
  then show ?case by simp
next
  case (Cons x xs)
  from Cons.prems(1) obtain s' where s': "f s x = Inr s'" and rest: "fold_r f s' xs = Inr t"
    by (auto simp: bind_r_Inr_iff)
  have "P s'"
    using Cons.prems(2,3) s' by (meson list.set_intros(1))
  with rest show ?case
    using Cons.IH Cons.prems(3) by (meson list.set_intros(2))
qed

lemma fold_r_total:
  "(\<And>s x. x \<in> set xs \<Longrightarrow> is_ok (f s x)) \<Longrightarrow> is_ok (fold_r f s xs)"
proof (induction xs arbitrary: s)
  case Nil
  then show ?case by simp
next
  case (Cons x xs)
  obtain s' where "f s x = Inr s'"
    using Cons.prems[of x s] by (auto simp: is_ok_iff)
  with Cons show ?case by simp
qed

lemma map_r_Inr_iff:
  "map_r f xs = Inr ys \<longleftrightarrow> list_all2 (\<lambda>x y. f x = Inr y) xs ys"
proof (induction xs arbitrary: ys)
  case Nil
  then show ?case by auto
next
  case (Cons x xs)
  then show ?case
    by (cases ys) (auto simp: bind_r_Inr_iff)
qed

lemma map_r_ok: "(\<And>x. x \<in> set xs \<Longrightarrow> f x = Inr (g x)) \<Longrightarrow> map_r f xs = Inr (map g xs)"
  by (induction xs) auto

section \<open>Values\<close>

datatype jsval =
    JUndef
  | JNull
  | JBool bool
  | JNum int
  | JFlt "64 word"
  | JStr string
  | JBytes "8 word list"
  | JArr "jsval list"
  | JSet "jsval list"
  | JObj "(string \<times> jsval) list"

text \<open>Reading a property of an object; a missing one, or one of a non-object, is \<open>undefined\<close>.\<close>

fun fld :: "jsval \<Rightarrow> string \<Rightarrow> jsval" where
  "fld (JObj m) k = (case map_of m k of Some v \<Rightarrow> v | None \<Rightarrow> JUndef)"
| "fld _ k = JUndef"

fun js_typeof :: "jsval \<Rightarrow> string" where
  "js_typeof JUndef = ''undefined''"
| "js_typeof (JBool _) = ''boolean''"
| "js_typeof (JNum _) = ''number''"
| "js_typeof (JFlt _) = ''number''"
| "js_typeof (JStr _) = ''string''"
| "js_typeof _ = ''object''"

definition flt_is_nan :: "64 word \<Rightarrow> bool" where
  "flt_is_nan w \<longleftrightarrow>
     and (drop_bit 52 w) 0x7FF = 0x7FF \<and> take_bit 52 w \<noteq> 0"

fun js_truthy :: "jsval \<Rightarrow> bool" where
  "js_truthy JUndef = False"
| "js_truthy JNull = False"
| "js_truthy (JBool b) = b"
| "js_truthy (JNum n) = (n \<noteq> 0)"
| "js_truthy (JFlt w) = (\<not> flt_is_nan w)"
| "js_truthy (JStr s) = (s \<noteq> [])"
| "js_truthy _ = True"

text \<open>
  The elements that \<open>for (x of v)\<close> visits, for the objects that carry \<open>Symbol.iterator\<close>;
  \<open>None\<close> when the value is not an iterable object.
\<close>

fun js_iterate :: "jsval \<Rightarrow> jsval list option" where
  "js_iterate (JArr xs) = Some xs"
| "js_iterate (JSet xs) = Some xs"
| "js_iterate (JBytes bs) = Some (map (\<lambda>b. JNum (uint b)) bs)"
| "js_iterate _ = None"

fun js_is_str :: "jsval \<Rightarrow> bool" where
  "js_is_str (JStr _) = True"
| "js_is_str _ = False"

fun js_str :: "jsval \<Rightarrow> string" where
  "js_str (JStr s) = s"
| "js_str _ = []"

text \<open>\<open>Number.isInteger\<close> and the integer.\<close>

fun js_int :: "jsval \<Rightarrow> int option" where
  "js_int (JNum n) = Some n"
| "js_int _ = None"

text \<open>The strings among the elements that \<open>for (x of v)\<close> visits.\<close>

definition js_strings :: "jsval \<Rightarrow> string list" where
  "js_strings v = map js_str (filter js_is_str (case js_iterate v of None \<Rightarrow> [] | Some xs \<Rightarrow> xs))"

lemma js_strings_arr [simp]: "js_strings (JArr (map JStr xs)) = xs"
  by (induction xs) (auto simp: js_strings_def)

lemma js_is_strE:
  assumes "js_is_str v"
  obtains s where "v = JStr s"
  using assms by (cases v) auto

lemma js_typeof_string [simp]: "js_typeof v = ''string'' \<longleftrightarrow> js_is_str v"
  by (cases v) auto

section \<open>Maps and sets\<close>

type_synonym ('k, 'v) jsmap = "('k \<times> 'v) list"
type_synonym 'a jsset = "'a list"

abbreviation map_set :: "('k, 'v) jsmap \<Rightarrow> 'k \<Rightarrow> 'v \<Rightarrow> ('k, 'v) jsmap" where
  "map_set m k v \<equiv> AList.update k v m"

abbreviation map_delete :: "('k, 'v) jsmap \<Rightarrow> 'k \<Rightarrow> ('k, 'v) jsmap" where
  "map_delete m k \<equiv> AList.delete k m"

abbreviation map_keys :: "('k, 'v) jsmap \<Rightarrow> 'k list" where
  "map_keys m \<equiv> map fst m"

abbreviation map_wf :: "('k, 'v) jsmap \<Rightarrow> bool" where
  "map_wf m \<equiv> distinct (map fst m)"

definition set_add :: "'a jsset \<Rightarrow> 'a \<Rightarrow> 'a jsset" where
  "set_add s x = (if x \<in> set s then s else s @ [x])"

definition set_addAll :: "'a jsset \<Rightarrow> 'a list \<Rightarrow> 'a jsset" where
  "set_addAll s xs = foldl set_add s xs"

definition set_delete :: "'a jsset \<Rightarrow> 'a \<Rightarrow> 'a jsset" where
  "set_delete s x = filter (\<lambda>y. y \<noteq> x) s"

abbreviation set_of :: "'a list \<Rightarrow> 'a jsset" where
  "set_of xs \<equiv> set_addAll [] xs"

declare map_of_eq_Some_iff [simp del]

lemmas map_of_update [simp] = update_conv'
lemmas map_of_delete [simp] = delete_conv'
lemmas map_wf_update [simp, wf_intros] = distinct_update
lemmas map_wf_delete [simp, wf_intros] = distinct_delete

lemma update_absent: "k \<notin> fst ` set m \<Longrightarrow> map_set m k v = m @ [(k, v)]"
  by (induction m) auto

lemma map_set_appends: "map_wf (a @ b) \<Longrightarrow> foldl (\<lambda>m (k, v). map_set m k v) a b = a @ b"
proof (induction b arbitrary: a)
  case Nil
  then show ?case by simp
next
  case (Cons p b)
  obtain k v where p: "p = (k, v)" by force
  have "map_set a k v = a @ [(k, v)]" using Cons.prems p by (auto intro: update_absent)
  then show ?case using Cons.IH [of "a @ [(k, v)]"] Cons.prems p by simp
qed

lemma set_add_set [simp]: "set (set_add s x) = insert x (set s)"
  by (auto simp: set_add_def)

lemma set_add_distinct [simp, wf_intros]: "distinct s \<Longrightarrow> distinct (set_add s x)"
  by (auto simp: set_add_def)

lemma set_addAll_simps [simp]:
  "set_addAll s [] = s"
  "set_addAll s (x # xs) = set_addAll (set_add s x) xs"
  by (simp_all add: set_addAll_def)

lemma set_addAll_set [simp]: "set (set_addAll s xs) = set s \<union> set xs"
  by (induction xs arbitrary: s) auto

lemma set_addAll_distinct [simp, wf_intros]: "distinct s \<Longrightarrow> distinct (set_addAll s xs)"
  by (induction xs arbitrary: s) auto

lemma set_addAll_append: "set_addAll s (xs @ ys) = set_addAll (set_addAll s xs) ys"
  by (induction xs arbitrary: s) auto

lemma set_addAll_distinct_eq:
  "distinct xs \<Longrightarrow> set s \<inter> set xs = {} \<Longrightarrow> set_addAll s xs = s @ xs"
  by (induction xs arbitrary: s) (auto simp: set_add_def)

lemma set_of_distinct: "distinct xs \<Longrightarrow> set_of xs = xs"
  by (simp add: set_addAll_distinct_eq)

lemma set_delete_set [simp]: "set (set_delete s x) = set s - {x}"
  by (auto simp: set_delete_def)

lemma set_delete_distinct [simp, wf_intros]: "distinct s \<Longrightarrow> distinct (set_delete s x)"
  by (simp add: set_delete_def)

lemma map_wf_same_set_eq_length:
  assumes "map_wf a" "map_wf b" "map_of a = map_of b"
  shows "length a = length b"
proof -
  have "fst ` set a = fst ` set b"
    using assms(3) by (metis dom_map_of_conv_image_fst)
  then show ?thesis
    using assms(1,2) by (metis distinct_card length_map set_map)
qed

lemma map_wf_mset_eq:
  assumes "map_wf a" "map_wf b" "map_of a = map_of b"
  shows "mset a = mset b"
proof -
  have "set a = set b"
    using assms by (metis map_of_inject_set)
  moreover have "distinct a" "distinct b"
    using assms(1,2) by (simp_all add: distinct_map)
  ultimately show ?thesis
    by (simp add: set_eq_iff_mset_eq_distinct)
qed

lemma list_all_map_of:
  assumes "map_wf m"
  shows "list_all (\<lambda>(k, v). P k v) m \<longleftrightarrow> (\<forall>k v. map_of m k = Some v \<longrightarrow> P k v)"
  using map_of_eq_Some_iff [OF assms] by (force simp: list_all_iff)

text \<open>
  Storing a primitive under a key of a plain object: \<open>obj['__proto__'] = primitive\<close> reaches the
  accessor that \<open>Object.prototype\<close> defines and changes nothing.
\<close>

definition obj_set_prim :: "(string \<times> 'v) list \<Rightarrow> string \<Rightarrow> 'v \<Rightarrow> (string \<times> 'v) list" where
  "obj_set_prim m k v = (if k = ''__proto__'' then m else AList.update k v m)"

lemma obj_set_prim_wf [simp, wf_intros]: "map_wf m \<Longrightarrow> map_wf (obj_set_prim m k v)"
  by (simp add: obj_set_prim_def)

lemma map_of_obj_set_prim [simp]:
  "map_of (obj_set_prim m k v) = (if k = ''__proto__'' then map_of m else (map_of m)(k \<mapsto> v))"
  by (simp add: obj_set_prim_def)

end
