(* ===== verification/JsStrings.thy ===== *)
theory JsStrings
  imports Prelude
begin

text \<open>
  The string, number and sorting routines of the language that the source calls: \<open>split\<close>,
  \<open>lastIndexOf\<close>, \<open>startsWith\<close>, \<open>includes\<close>, the decimal rendering of an integer in a template
  literal, \<open>parseInt(s, 10)\<close>, and the stable \<open>Array.prototype.sort\<close>.
\<close>

section \<open>Splitting and searching\<close>

fun split_on :: "char \<Rightarrow> string \<Rightarrow> string list" where
  "split_on c [] = [[]]"
| "split_on c (x # xs) =
     (if x = c then [] # split_on c xs
      else (case split_on c xs of [] \<Rightarrow> [[x]] | p # ps \<Rightarrow> (x # p) # ps))"

definition starts_with :: "string \<Rightarrow> string \<Rightarrow> bool" where
  "starts_with s p \<longleftrightarrow> take (length p) s = p"

fun str_includes :: "string \<Rightarrow> string \<Rightarrow> bool" where
  "str_includes [] p = (p = [])"
| "str_includes (x # xs) p = (take (length p) (x # xs) = p \<or> str_includes xs p)"

text \<open>\<open>s.lastIndexOf(c)\<close>, as the part before the last \<open>c\<close> and the part after it.\<close>

fun split_last :: "char \<Rightarrow> string \<Rightarrow> (string \<times> string) option" where
  "split_last c [] = None"
| "split_last c (x # xs) =
     (case split_last c xs of
        Some (a, b) \<Rightarrow> Some (x # a, b)
      | None \<Rightarrow> if x = c then Some ([], xs) else None)"

fun join_with :: "string \<Rightarrow> string list \<Rightarrow> string" where
  "join_with s [] = []"
| "join_with s [x] = x"
| "join_with s (x # y # ys) = x @ s @ join_with s (y # ys)"

lemma split_on_not_Nil [simp]: "split_on c xs \<noteq> []"
  by (induction xs) (auto split: list.splits)

lemma split_on_none [js_simps]: "c \<notin> set xs \<Longrightarrow> split_on c xs = [xs]"
  by (induction xs) auto

lemma split_on_append [js_simps]:
  "c \<notin> set xs \<Longrightarrow> split_on c (xs @ c # ys) = xs # split_on c ys"
  by (induction xs) auto

lemma join_split_on: "join_with [c] (split_on c xs) = xs"
proof (induction xs)
  case Nil
  then show ?case by simp
next
  case (Cons x xs)
  obtain p ps where "split_on c xs = p # ps"
    by (cases "split_on c xs") auto
  with Cons show ?case by (cases ps) auto
qed

lemma split_on_pieces: "p \<in> set (split_on c xs) \<Longrightarrow> c \<notin> set p"
  by (induction xs arbitrary: p) (auto split: list.splits if_splits)

lemma split_on_join: "ps \<noteq> [] \<Longrightarrow> \<forall>p\<in>set ps. c \<notin> set p \<Longrightarrow> split_on c (join_with [c] ps) = ps"
  by (induction "[c]" ps rule: join_with.induct) (auto simp: js_simps)

lemma split_last_absent [js_simps]: "c \<notin> set ys \<Longrightarrow> split_last c ys = None"
  by (induction ys) auto

lemma split_last_append [js_simps]:
  "c \<notin> set ys \<Longrightarrow> split_last c (xs @ c # ys) = Some (xs, ys)"
  by (induction xs) (auto simp: js_simps)

lemma split_last_None: "split_last c s = None \<longleftrightarrow> c \<notin> set s"
  by (induction s) (auto split: option.splits)

lemma split_last_Some:
  "split_last c s = Some (a, b) \<Longrightarrow> s = a @ c # b \<and> c \<notin> set b"
  by (induction s arbitrary: a) (auto split: option.splits if_splits simp: split_last_None)

lemma starts_with_append [simp]: "starts_with (p @ s) p"
  by (simp add: starts_with_def)

lemma starts_with_iff: "starts_with s p \<longleftrightarrow> (\<exists>r. s = p @ r)"
  by (auto simp: starts_with_def) (metis append_take_drop_id)

lemma includes_iff: "str_includes s p \<longleftrightarrow> (\<exists>a b. s = a @ p @ b)"
proof (induction s)
  case Nil
  then show ?case by auto
next
  case (Cons x xs)
  have "take (length p) (x # xs) = p \<longleftrightarrow> (\<exists>b. x # xs = p @ b)"
    using starts_with_iff by (simp add: starts_with_def)
  then show ?case
    using Cons by (auto simp: Cons_eq_append_conv)
qed

lemma includes_char: "str_includes s [c] \<longleftrightarrow> c \<in> set s"
  by (auto simp: includes_iff in_set_conv_decomp)

section \<open>Decimal numbers\<close>

definition digit_char :: "nat \<Rightarrow> char" where
  "digit_char d = char_of (48 + d)"

definition is_digit :: "char \<Rightarrow> bool" where
  "is_digit c \<longleftrightarrow> 48 \<le> (of_char c :: nat) \<and> (of_char c :: nat) \<le> 57"

definition digit_val :: "char \<Rightarrow> nat" where
  "digit_val c = of_char c - 48"

fun show_nat :: "nat \<Rightarrow> string" where
  "show_nat n = (if n < 10 then [digit_char n] else show_nat (n div 10) @ [digit_char (n mod 10)])"

declare show_nat.simps [simp del]

definition show_int :: "int \<Rightarrow> string" where
  "show_int i = (if i < 0 then CHR ''-'' # show_nat (nat (- i)) else show_nat (nat i))"

definition digits_val :: "string \<Rightarrow> nat" where
  "digits_val ds = foldl (\<lambda>a c. 10 * a + digit_val c) 0 ds"

text \<open>White space that \<open>parseInt\<close> skips, among the code units below 256.\<close>

definition js_space :: "char \<Rightarrow> bool" where
  "js_space c \<longleftrightarrow> (of_char c :: nat) \<in> {9, 10, 11, 12, 13, 32, 160}"

definition sign_split :: "string \<Rightarrow> bool \<times> string" where
  "sign_split s =
     (case s of
        [] \<Rightarrow> (False, [])
      | c # r \<Rightarrow> if c = CHR ''-'' then (True, r) else if c = CHR ''+'' then (False, r) else (False, s))"

text \<open>\<open>parseInt(s, 10)\<close>: \<open>None\<close> stands for NaN; what follows the digits is ignored.\<close>

definition parse_int10 :: "string \<Rightarrow> int option" where
  "parse_int10 s =
     (let (neg, u) = sign_split (dropWhile js_space s); ds = takeWhile is_digit u
      in if ds = [] then None
         else Some (if neg then - int (digits_val ds) else int (digits_val ds)))"

lemma of_char_digit: "d < 10 \<Longrightarrow> of_char (digit_char d) = 48 + d"
  by (simp add: digit_char_def)

lemma is_digit_digit_char [simp]: "d < 10 \<Longrightarrow> is_digit (digit_char d)"
  by (simp add: is_digit_def of_char_digit)

lemma digit_val_digit_char [simp]: "d < 10 \<Longrightarrow> digit_val (digit_char d) = d"
  by (simp add: digit_val_def of_char_digit)

lemma show_nat_not_Nil [simp]: "show_nat n \<noteq> []"
  by (subst show_nat.simps) simp

lemma show_nat_digits: "c \<in> set (show_nat n) \<Longrightarrow> is_digit c"
proof (induction n rule: show_nat.induct)
  case (1 n)
  then show ?case
    by (cases "n < 10") (auto simp: show_nat.simps [of n])
qed

lemma digits_val_snoc: "digits_val (ds @ [c]) = 10 * digits_val ds + digit_val c"
  by (simp add: digits_val_def)

lemma digits_val_show_nat [simp]: "digits_val (show_nat n) = n"
proof (induction n rule: show_nat.induct)
  case (1 n)
  show ?case
  proof (cases "n < 10")
    case True
    then show ?thesis by (simp add: show_nat.simps [of n] digits_val_def)
  next
    case False
    then show ?thesis
      using "1.IH" by (simp add: show_nat.simps [of n] digits_val_snoc)
  qed
qed

lemma show_nat_inject [simp]: "show_nat m = show_nat n \<longleftrightarrow> m = n"
  by (metis digits_val_show_nat)

lemma show_int_nonneg: "0 \<le> i \<Longrightarrow> show_int i = show_nat (nat i)"
  by (simp add: show_int_def)

lemma digit_not_special:
  assumes "is_digit c"
  shows "\<not> js_space c" and "c \<noteq> CHR ''-''" and "c \<noteq> CHR ''+''" and "c \<noteq> CHR '':''"
  using assms by (auto simp: is_digit_def js_space_def)

lemma parse_int10_show_nat [js_simps]: "parse_int10 (show_nat n) = Some (int n)"
proof -
  obtain c r where cr: "show_nat n = c # r"
    by (meson neq_Nil_conv show_nat_not_Nil)
  then have "is_digit c"
    using show_nat_digits [of c n] by simp
  note c = digit_not_special [OF this]
  have "takeWhile is_digit (show_nat n) = show_nat n"
    by (simp add: show_nat_digits)
  with c cr show ?thesis
    using digits_val_show_nat [of n] by (simp add: parse_int10_def sign_split_def)
qed

lemma parse_int10_show_int: "0 \<le> i \<Longrightarrow> parse_int10 (show_int i) = Some i"
  by (simp add: show_int_nonneg js_simps)

lemma colon_not_in_show_int: "0 \<le> i \<Longrightarrow> CHR '':'' \<notin> set (show_int i)"
  using digit_not_special(4) show_nat_digits by (fastforce simp: show_int_nonneg)

section \<open>Sorting\<close>

text \<open>
  A comparator returns a negative, zero or positive number. The sort is stable, which fixes its
  result for every consistent comparator; insertion from the right computes it.
\<close>

fun insert_by :: "('a \<Rightarrow> 'a \<Rightarrow> int) \<Rightarrow> 'a \<Rightarrow> 'a list \<Rightarrow> 'a list" where
  "insert_by cmp x [] = [x]"
| "insert_by cmp x (y # ys) = (if cmp x y \<le> 0 then x # y # ys else y # insert_by cmp x ys)"

definition sort_by :: "('a \<Rightarrow> 'a \<Rightarrow> int) \<Rightarrow> 'a list \<Rightarrow> 'a list" where
  "sort_by cmp xs = foldr (insert_by cmp) xs []"

definition str_cmp :: "string \<Rightarrow> string \<Rightarrow> int" where
  "str_cmp a b = (if a < b then -1 else if a > b then 1 else 0)"

lemma insert_by_mset [simp]: "mset (insert_by cmp x ys) = add_mset x (mset ys)"
  by (induction ys) auto

lemma sort_by_Nil [simp]: "sort_by cmp [] = []"
  and sort_by_Cons [simp]: "sort_by cmp (x # xs) = insert_by cmp x (sort_by cmp xs)"
  by (simp_all add: sort_by_def)

lemma sort_by_mset [simp]: "mset (sort_by cmp xs) = mset xs"
  by (induction xs) auto

lemma sort_by_set [simp]: "set (sort_by cmp xs) = set xs"
  by (metis set_mset_mset sort_by_mset)

lemma sort_by_distinct [simp]: "distinct (sort_by cmp xs) \<longleftrightarrow> distinct xs"
  by (metis mset_eq_imp_distinct_iff sort_by_mset)

lemma sort_by_length [simp]: "length (sort_by cmp xs) = length xs"
  by (metis size_mset sort_by_mset)

text \<open>A comparator that compares a key sorts by that key.\<close>

lemma insert_by_key:
  assumes "\<And>y. y \<in> set ys \<Longrightarrow> (cmp x y \<le> 0) = (k x \<le> k y)"
  shows "insert_by cmp x ys = insort_key k x ys"
  using assms by (induction ys) auto

lemma sort_by_key:
  assumes "\<And>x y. x \<in> set xs \<Longrightarrow> y \<in> set xs \<Longrightarrow> (cmp x y \<le> 0) = (k x \<le> k y)"
  shows "sort_by cmp xs = sort_key k xs"
  using assms
proof (induction xs)
  case Nil
  then show ?case by simp
next
  case (Cons x xs)
  then have "sort_by cmp xs = sort_key k xs" by simp
  then show ?case
    using Cons.prems insert_by_key [of "sort_key k xs" cmp x k] by simp
qed

lemma str_cmp_le [simp]: "str_cmp a b \<le> 0 \<longleftrightarrow> a \<le> b"
  by (auto simp: str_cmp_def)

lemma sort_by_str_key: "sort_by (\<lambda>x y. str_cmp (k x) (k y)) xs = sort_key k xs"
  by (rule sort_by_key) simp

text \<open>Sorting by an injective key forgets the order of the input.\<close>

lemma sort_key_perm_eq:
  assumes "mset xs = mset ys" "inj_on k (set xs)"
  shows "sort_key k xs = sort_key k ys"
  using assms by (metis mset_sort sort_key_inj_key_eq sorted_sort_key)

end
