(* ===== verification/KeyCodec.thy ===== *)
theory KeyCodec
  imports JsStrings
begin

text \<open>
  \<open>src/domain/services/KeyCodec.js\<close>: the composite string keys of the state maps. Fields are
  separated by the null character, edge property keys start with the code unit 1. Destructuring
  \<open>[a, b, c] = key.split(sep)\<close> leaves missing parts \<open>undefined\<close> (\<open>None\<close>) and drops extra ones.
\<close>

definition FIELD_SEPARATOR :: char where
  "FIELD_SEPARATOR = CHR 0x00"

definition EDGE_PROP_PREFIX :: char where
  "EDGE_PROP_PREFIX = CHR 0x01"

definition part :: "string list \<Rightarrow> nat \<Rightarrow> string option" where
  "part ps i = (if i < length ps then Some (ps ! i) else None)"

record edge_parts =
  part_from :: "string option"
  part_to :: "string option"
  part_label :: "string option"

definition encodeEdgeKey :: "string \<Rightarrow> string \<Rightarrow> string \<Rightarrow> string" where
  "encodeEdgeKey from_id to_id label = from_id @ FIELD_SEPARATOR # to_id @ FIELD_SEPARATOR # label"

definition decodeEdgeKey :: "string \<Rightarrow> edge_parts" where
  "decodeEdgeKey key =
     (let ps = split_on FIELD_SEPARATOR key
      in \<lparr>part_from = part ps 0, part_to = part ps 1, part_label = part ps 2\<rparr>)"

definition encodePropKey :: "string \<Rightarrow> string \<Rightarrow> string" where
  "encodePropKey nodeId propKey = nodeId @ FIELD_SEPARATOR # propKey"

definition decodePropKey :: "string \<Rightarrow> string option \<times> string option" where
  "decodePropKey key = (let ps = split_on FIELD_SEPARATOR key in (part ps 0, part ps 1))"

definition encodeEdgePropKey :: "string \<Rightarrow> string \<Rightarrow> string \<Rightarrow> string \<Rightarrow> string" where
  "encodeEdgePropKey from_id to_id label propKey =
     EDGE_PROP_PREFIX # from_id @ FIELD_SEPARATOR # to_id @ FIELD_SEPARATOR # label @ FIELD_SEPARATOR # propKey"

definition encodeLegacyEdgePropNode :: "string \<Rightarrow> string \<Rightarrow> string \<Rightarrow> string" where
  "encodeLegacyEdgePropNode from_id to_id label =
     EDGE_PROP_PREFIX # from_id @ FIELD_SEPARATOR # to_id @ FIELD_SEPARATOR # label"

definition isLegacyEdgePropNode :: "jsval \<Rightarrow> bool" where
  "isLegacyEdgePropNode node \<longleftrightarrow>
     (case node of JStr s \<Rightarrow> s \<noteq> [] \<and> hd s = EDGE_PROP_PREFIX | _ \<Rightarrow> False)"

definition decodeLegacyEdgePropNode :: "jsval \<Rightarrow> (string \<times> string \<times> string) result" where
  "decodeLegacyEdgePropNode node =
     (if \<not> isLegacyEdgePropNode node then Inl (KeyErr LegacyNoPrefix)
      else
        let ps = split_on FIELD_SEPARATOR (drop 1 (js_str node))
        in if length ps \<noteq> 3 then Inl (KeyErr (LegacySegments (length ps)))
           else if ps ! 0 = [] \<or> ps ! 1 = [] \<or> ps ! 2 = [] then Inl (KeyErr LegacyEmptySegment)
           else Inr (ps ! 0, ps ! 1, ps ! 2))"

definition isEdgePropKey :: "string \<Rightarrow> bool" where
  "isEdgePropKey key \<longleftrightarrow> (case key of [] \<Rightarrow> False | c # _ \<Rightarrow> c = EDGE_PROP_PREFIX)"

definition decodeEdgePropKey :: "string \<Rightarrow> (string \<times> string \<times> string \<times> string) result" where
  "decodeEdgePropKey encoded =
     (if \<not> isEdgePropKey encoded then Inl (KeyErr EdgePropNoPrefix)
      else
        let ps = split_on FIELD_SEPARATOR (drop 1 encoded)
        in if length ps \<noteq> 4 then Inl (KeyErr EdgePropSegments)
           else Inr (ps ! 0, ps ! 1, ps ! 2, ps ! 3))"

section \<open>Round trips and separation of the key spaces\<close>

abbreviation no_sep :: "string \<Rightarrow> bool" where
  "no_sep s \<equiv> FIELD_SEPARATOR \<notin> set s"

definition no_prefix :: "string \<Rightarrow> bool" where
  "no_prefix s \<longleftrightarrow> (case s of [] \<Rightarrow> True | c # _ \<Rightarrow> c \<noteq> EDGE_PROP_PREFIX)"

lemma separator_not_prefix [simp]:
  "FIELD_SEPARATOR \<noteq> EDGE_PROP_PREFIX" "EDGE_PROP_PREFIX \<noteq> FIELD_SEPARATOR"
  by (simp_all add: FIELD_SEPARATOR_def EDGE_PROP_PREFIX_def)

lemma split_edge_key:
  "no_sep f \<Longrightarrow> no_sep t \<Longrightarrow> no_sep l \<Longrightarrow> split_on FIELD_SEPARATOR (encodeEdgeKey f t l) = [f, t, l]"
  by (simp add: encodeEdgeKey_def js_simps)

lemma decode_encode_edge [simp]:
  "no_sep f \<Longrightarrow> no_sep t \<Longrightarrow> no_sep l \<Longrightarrow>
     decodeEdgeKey (encodeEdgeKey f t l) = \<lparr>part_from = Some f, part_to = Some t, part_label = Some l\<rparr>"
  by (simp add: decodeEdgeKey_def split_edge_key part_def)

lemma encodeEdgeKey_inj:
  assumes "no_sep f" "no_sep t" "no_sep l" "no_sep f'" "no_sep t'" "no_sep l'"
    and "encodeEdgeKey f t l = encodeEdgeKey f' t' l'"
  shows "f = f' \<and> t = t' \<and> l = l'"
proof -
  have "[f, t, l] = split_on FIELD_SEPARATOR (encodeEdgeKey f t l)"
    by (rule split_edge_key [OF assms(1-3), symmetric])
  also have "\<dots> = [f', t', l']"
    unfolding assms(7) by (rule split_edge_key [OF assms(4-6)])
  finally show ?thesis by simp
qed

lemma encode_decode_edge:
  assumes "split_on FIELD_SEPARATOR key = [f, t, l]"
  shows "encodeEdgeKey f t l = key"
  using join_split_on [of FIELD_SEPARATOR key] assms by (simp add: encodeEdgeKey_def)

lemma decode_encode_prop [simp]:
  "no_sep n \<Longrightarrow> no_sep k \<Longrightarrow> decodePropKey (encodePropKey n k) = (Some n, Some k)"
  by (simp add: decodePropKey_def encodePropKey_def part_def js_simps)

lemma encodePropKey_inj:
  assumes "no_sep n" "no_sep n'" "encodePropKey n k = encodePropKey n' k'"
  shows "n = n' \<and> k = k'"
proof -
  have h: "takeWhile (\<lambda>c. c \<noteq> FIELD_SEPARATOR) (m @ FIELD_SEPARATOR # j) = m" if "no_sep m" for m j
    using that by (subst takeWhile_append2) auto
  have "n = n'"
    using h [OF assms(1), of k] h [OF assms(2), of k'] assms(3) by (simp add: encodePropKey_def)
  with assms(3) show ?thesis by (simp add: encodePropKey_def)
qed

lemma decode_encode_edge_prop [simp]:
  "no_sep f \<Longrightarrow> no_sep t \<Longrightarrow> no_sep l \<Longrightarrow> no_sep k \<Longrightarrow>
     decodeEdgePropKey (encodeEdgePropKey f t l k) = Inr (f, t, l, k)"
  by (simp add: decodeEdgePropKey_def encodeEdgePropKey_def isEdgePropKey_def js_simps)

text \<open>A node whose id does not start with the prefix shares no property key with any edge.\<close>

lemma isEdgePropKey_edge [simp]: "isEdgePropKey (encodeEdgePropKey f t l k)"
  by (simp add: isEdgePropKey_def encodeEdgePropKey_def)

lemma isEdgePropKey_node: "isEdgePropKey (encodePropKey n k) \<longleftrightarrow> \<not> no_prefix n"
  by (cases n) (simp_all add: isEdgePropKey_def encodePropKey_def no_prefix_def)

lemma prop_keys_disjoint: "no_prefix n \<Longrightarrow> encodePropKey n j \<noteq> encodeEdgePropKey f t l k"
  by (metis isEdgePropKey_edge isEdgePropKey_node)

text \<open>The collision without that condition: the node \<open>\x01a\<close> and the edge from \<open>a\<close>.\<close>

lemma prop_keys_collide:
  "encodePropKey (EDGE_PROP_PREFIX # f) (t @ FIELD_SEPARATOR # l @ FIELD_SEPARATOR # k) =
     encodeEdgePropKey f t l k"
  by (simp add: encodePropKey_def encodeEdgePropKey_def)

lemma split_legacy:
  "no_sep f \<Longrightarrow> no_sep t \<Longrightarrow> no_sep l \<Longrightarrow>
     split_on FIELD_SEPARATOR (drop 1 (encodeLegacyEdgePropNode f t l)) = [f, t, l]"
  by (simp add: encodeLegacyEdgePropNode_def js_simps)

lemma isLegacy_encode [simp]: "isLegacyEdgePropNode (JStr (encodeLegacyEdgePropNode f t l))"
  by (simp add: isLegacyEdgePropNode_def encodeLegacyEdgePropNode_def)

lemma isLegacy_no_prefix: "isLegacyEdgePropNode (JStr n) \<longleftrightarrow> \<not> no_prefix n"
  by (cases n) (simp_all add: isLegacyEdgePropNode_def no_prefix_def)

text \<open>The legacy form round-trips exactly when no segment is empty.\<close>

lemma legacy_roundtrip:
  assumes "no_sep f" "no_sep t" "no_sep l"
  shows "decodeLegacyEdgePropNode (JStr (encodeLegacyEdgePropNode f t l)) =
    (if f = [] \<or> t = [] \<or> l = [] then Inl (KeyErr LegacyEmptySegment) else Inr (f, t, l))"
  using split_legacy [OF assms] by (simp add: decodeLegacyEdgePropNode_def)

end
