(* ===== verification/Crdt_Spec.thy ===== *)
theory Crdt_Spec
  imports Prelude
begin

text \<open>
  The contracts that replicated data types of the program keep, as locales.

  \<^item> \<open>join_crdt\<close>: a state-based type. \<open>join\<close> is commutative, associative and idempotent on the
    states that satisfy \<open>inv\<close>, up to the abstraction \<open>abs\<close> that a reader can observe. Its lemmas
    say that any two ways of merging the same set of states agree.
  \<^item> \<open>op_crdt\<close> extends it with an operation log: applying an operation has the effect of joining
    the operation's own delta state, and whether an operation is rejected does not depend on the
    state. Its lemmas say that any two deliveries of the same set of operations agree, whatever
    their order and however often an operation is delivered.

  Every replicated type of the program interprets one of the two on its own definitions.
\<close>

section \<open>State-based types\<close>

locale join_crdt =
  fixes inv :: "'s \<Rightarrow> bool"
    and abs :: "'s \<Rightarrow> 'a"
    and join :: "'s \<Rightarrow> 's \<Rightarrow> 's"
  assumes inv_join: "inv a \<Longrightarrow> inv b \<Longrightarrow> inv (join a b)"
    and join_comm: "inv a \<Longrightarrow> inv b \<Longrightarrow> abs (join a b) = abs (join b a)"
    and join_assoc: "inv a \<Longrightarrow> inv b \<Longrightarrow> inv c \<Longrightarrow>
          abs (join (join a b) c) = abs (join a (join b c))"
    and join_idem: "inv a \<Longrightarrow> abs (join a a) = abs a"
    and join_cong: "inv a \<Longrightarrow> inv a' \<Longrightarrow> inv b \<Longrightarrow> inv b' \<Longrightarrow>
          abs a = abs a' \<Longrightarrow> abs b = abs b' \<Longrightarrow> abs (join a b) = abs (join a' b')"
begin

definition below :: "'s \<Rightarrow> 's \<Rightarrow> bool" where
  "below a b \<longleftrightarrow> abs (join a b) = abs b"

lemma below_refl: "inv a \<Longrightarrow> below a a"
  by (simp add: below_def join_idem)

lemma below_antisym: "inv a \<Longrightarrow> inv b \<Longrightarrow> below a b \<Longrightarrow> below b a \<Longrightarrow> abs a = abs b"
  by (metis below_def join_comm)

lemma below_joinD1:
  assumes "inv a" "inv b" "inv z" "below (join a b) z"
  shows "below a z"
proof -
  note i = assms(1-3) inv_join
  have "abs (join a z) = abs (join a (join (join a b) z))"
    using assms(4) by (intro join_cong [OF i(1) i(1) i(3)]) (simp_all add: i below_def)
  also have "\<dots> = abs (join (join a (join a b)) z)"
    by (simp add: i join_assoc)
  also have "\<dots> = abs (join (join a b) z)"
  proof (rule join_cong)
    have "abs (join a (join a b)) = abs (join (join a a) b)"
      by (simp add: i join_assoc)
    also have "\<dots> = abs (join a b)"
      by (rule join_cong) (simp_all add: i join_idem)
    finally show "abs (join a (join a b)) = abs (join a b)" .
  qed (simp_all add: i)
  also have "\<dots> = abs z"
    using assms(4) by (simp add: below_def)
  finally show ?thesis by (simp add: below_def)
qed

lemma below_cong_left:
  assumes "inv a" "inv a'" "inv z" "abs a = abs a'"
  shows "below a z \<longleftrightarrow> below a' z"
  using join_cong [of a a' z z] assms by (simp add: below_def)

lemma below_join_iff:
  assumes "inv a" "inv b" "inv z"
  shows "below (join a b) z \<longleftrightarrow> below a z \<and> below b z"
proof
  assume l: "below (join a b) z"
  then have "below (join b a) z"
    using below_cong_left [of "join a b" "join b a" z] assms by (simp add: inv_join join_comm)
  with l show "below a z \<and> below b z"
    using assms by (blast intro: below_joinD1)
next
  assume r: "below a z \<and> below b z"
  have "abs (join (join a b) z) = abs (join a (join b z))"
    by (simp add: assms join_assoc)
  also have "\<dots> = abs (join a z)"
    using r by (intro join_cong [OF assms(1) assms(1)]) (simp_all add: assms inv_join below_def)
  also have "\<dots> = abs z"
    using r by (simp add: below_def)
  finally show "below (join a b) z" by (simp add: below_def)
qed

lemma inv_merge: "inv s \<Longrightarrow> \<forall>x\<in>set xs. inv x \<Longrightarrow> inv (foldl join s xs)"
  by (induction xs arbitrary: s) (auto simp: inv_join)

lemma below_merge_iff:
  "inv s \<Longrightarrow> \<forall>x\<in>set xs. inv x \<Longrightarrow> inv z \<Longrightarrow>
     below (foldl join s xs) z \<longleftrightarrow> below s z \<and> (\<forall>x\<in>set xs. below x z)"
  by (induction xs arbitrary: s) (auto simp: inv_join below_join_iff)

text \<open>Merging is the least upper bound, so the order and the repetition of the states are lost.\<close>

lemma merge_order_independent:
  assumes "inv s" "\<forall>x\<in>set xs. inv x" "set xs = set ys"
  shows "abs (foldl join s xs) = abs (foldl join s ys)"
proof -
  have ix: "inv (foldl join s xs)" and iy: "inv (foldl join s ys)"
    using assms inv_merge by auto
  have "below (foldl join s xs) z \<longleftrightarrow> below (foldl join s ys) z" if "inv z" for z
    using assms that by (simp add: below_merge_iff)
  then show ?thesis
    using ix iy by (meson below_antisym below_refl)
qed

lemma merge_absorbs:
  assumes "inv s" "\<forall>x\<in>set xs. inv x" "x \<in> set xs"
  shows "abs (join (foldl join s xs) x) = abs (foldl join s xs)"
proof -
  have "abs (foldl join s (xs @ [x])) = abs (foldl join s xs)"
    using assms by (intro merge_order_independent) auto
  then show ?thesis by simp
qed

lemma merge_cong:
  assumes "inv s" "inv s'" "abs s = abs s'" "\<forall>x\<in>set xs. inv x"
  shows "abs (foldl join s xs) = abs (foldl join s' xs)"
  using assms
proof (induction xs arbitrary: s s')
  case Nil
  then show ?case by simp
next
  case (Cons x xs)
  have "abs (join s x) = abs (join s' x)"
    using Cons.prems by (intro join_cong) auto
  with Cons show ?case by (simp add: inv_join)
qed

end

text \<open>A type with an empty replica: what a replica merged can be merged elsewhere in one step.\<close>

locale join_crdt_bot = join_crdt inv abs join
  for inv :: "'s \<Rightarrow> bool" and abs :: "'s \<Rightarrow> 'a" and join :: "'s \<Rightarrow> 's \<Rightarrow> 's" +
  fixes bot :: 's
  assumes inv_bot: "inv bot"
    and join_bot: "inv s \<Longrightarrow> abs (join s bot) = abs s"
begin

lemma merge_shift:
  assumes "inv s" "\<forall>x\<in>set xs. inv x"
  shows "abs (foldl join s xs) = abs (join s (foldl join bot xs))"
  using assms(2)
proof (induction xs rule: rev_induct)
  case Nil
  then show ?case using assms(1) by (simp add: join_bot)
next
  case (snoc x xs)
  then have i: "inv (foldl join s xs)" "inv (foldl join bot xs)" "inv x"
    using assms(1) inv_bot inv_merge by auto
  have "abs (join (foldl join s xs) x) = abs (join (join s (foldl join bot xs)) x)"
    using snoc i assms(1) by (intro join_cong) (auto simp: inv_join)
  also have "\<dots> = abs (join s (join (foldl join bot xs) x))"
    using i assms(1) by (simp add: join_assoc)
  finally show ?case by simp
qed

lemma merge_append:
  assumes "\<forall>x\<in>set xs. inv x" "\<forall>y\<in>set ys. inv y"
  shows "abs (foldl join bot (xs @ ys)) = abs (join (foldl join bot xs) (foldl join bot ys))"
  using assms inv_bot merge_shift [of "foldl join bot xs" ys] by (simp add: inv_merge)

end

section \<open>Operation-based types\<close>

locale op_crdt = join_crdt_bot inv abs join bot
  for inv :: "'s \<Rightarrow> bool" and abs :: "'s \<Rightarrow> 'a" and join :: "'s \<Rightarrow> 's \<Rightarrow> 's" and bot :: 's +
  fixes app :: "'s \<Rightarrow> 'op \<Rightarrow> 's result"
    and admitted :: "'op \<Rightarrow> bool"
    and delta :: "'op \<Rightarrow> 's"
  assumes inv_delta: "admitted p \<Longrightarrow> inv (delta p)"
    and app_admitted: "inv s \<Longrightarrow> admitted p \<Longrightarrow>
          \<exists>t. app s p = Inr t \<and> inv t \<and> abs t = abs (join s (delta p))"
begin

lemma app_is_merge:
  assumes "inv s" "\<forall>p\<in>set ps. admitted p"
  shows "\<exists>t. fold_r app s ps = Inr t \<and> inv t \<and> abs t = abs (foldl join s (map delta ps))"
  using assms
proof (induction ps arbitrary: s)
  case Nil
  then show ?case by simp
next
  case (Cons p ps)
  then obtain s' where s': "app s p = Inr s'" "inv s'" "abs s' = abs (join s (delta p))"
    using app_admitted by force
  then obtain t where t: "fold_r app s' ps = Inr t" "inv t" "abs t = abs (foldl join s' (map delta ps))"
    using Cons by force
  have "abs (foldl join s' (map delta ps)) = abs (foldl join (join s (delta p)) (map delta ps))"
    using Cons.prems s' by (intro merge_cong) (auto simp: inv_join inv_delta)
  with s' t show ?case by simp
qed

text \<open>Strong convergence: delivery order and repeated delivery do not matter.\<close>

lemma deliveries_agree:
  assumes "inv s" "\<forall>p\<in>set ps. admitted p" "set ps = set qs"
  shows "\<exists>t u. fold_r app s ps = Inr t \<and> fold_r app s qs = Inr u \<and> abs t = abs u"
proof -
  obtain t where t: "fold_r app s ps = Inr t" "abs t = abs (foldl join s (map delta ps))"
    using app_is_merge assms(1,2) by blast
  obtain u where u: "fold_r app s qs = Inr u" "abs u = abs (foldl join s (map delta qs))"
    using app_is_merge assms by blast
  have "abs (foldl join s (map delta ps)) = abs (foldl join s (map delta qs))"
    using assms by (intro merge_order_independent) (auto simp: inv_delta)
  with t u show ?thesis by simp
qed

text \<open>Replaying onto a merged state equals merging what the two replicas replayed.\<close>

lemma replay_after_replay:
  assumes "inv s" "\<forall>p\<in>set ps. admitted p" "set qs \<subseteq> set ps"
    and "fold_r app s ps = Inr t"
  shows "\<exists>u. fold_r app t qs = Inr u \<and> abs u = abs t"
proof -
  have e: "set ps = set (ps @ qs)"
    using assms(3) by auto
  obtain t' u where "fold_r app s ps = Inr t'" "fold_r app s (ps @ qs) = Inr u" "abs t' = abs u"
    using deliveries_agree [OF assms(1,2) e] by blast
  with assms(4) show ?thesis by (auto simp: fold_r_append)
qed

text \<open>Two replicas that replayed different logs merge into the replica that replayed both.\<close>

lemma join_of_replays:
  assumes "\<forall>p\<in>set ps. admitted p" "\<forall>p\<in>set qs. admitted p"
    and "fold_r app bot ps = Inr t" "fold_r app bot qs = Inr u"
  shows "\<exists>v. fold_r app bot (ps @ qs) = Inr v \<and> abs v = abs (join t u)"
proof -
  obtain t' where t': "fold_r app bot ps = Inr t'" "inv t'" "abs t' = abs (foldl join bot (map delta ps))"
    using app_is_merge [OF inv_bot assms(1)] by blast
  obtain u' where u': "fold_r app bot qs = Inr u'" "inv u'" "abs u' = abs (foldl join bot (map delta qs))"
    using app_is_merge [OF inv_bot assms(2)] by blast
  have "\<forall>p\<in>set (ps @ qs). admitted p" using assms(1,2) by auto
  then obtain v where v: "fold_r app bot (ps @ qs) = Inr v"
      "abs v = abs (foldl join bot (map delta (ps @ qs)))"
    using app_is_merge [OF inv_bot] by blast
  have d: "\<forall>x\<in>set (map delta ps). inv x" "\<forall>x\<in>set (map delta qs). inv x"
    using assms(1,2) inv_delta by auto
  then have i: "inv (foldl join bot (map delta ps))" "inv (foldl join bot (map delta qs))"
    by (auto intro!: inv_merge [OF inv_bot])
  have "abs v = abs (join (foldl join bot (map delta ps)) (foldl join bot (map delta qs)))"
    using v(2) merge_append [OF d] by simp
  also have "\<dots> = abs (join t' u')"
    using i t' u' by (intro join_cong) auto
  finally show ?thesis using v(1) assms(3,4) t'(1) u'(1) by auto
qed

end

section \<open>Maps merged key by key\<close>

text \<open>
  The loop that the program writes for every map it merges: copy \<open>a\<close>, then for each entry of \<open>b\<close>
  read what the copy holds and store the combination. Its meaning is the pointwise merge.
\<close>

definition map_merge :: "('v option \<Rightarrow> 'v \<Rightarrow> 'v) \<Rightarrow> ('k, 'v) jsmap \<Rightarrow> ('k, 'v) jsmap \<Rightarrow> ('k, 'v) jsmap" where
  "map_merge f a b = foldl (\<lambda>r (k, v). map_set r k (f (map_of r k) v)) a b"

definition pmerge :: "('v \<Rightarrow> 'v \<Rightarrow> 'v) \<Rightarrow> ('k \<Rightarrow> 'v option) \<Rightarrow> ('k \<Rightarrow> 'v option) \<Rightarrow> ('k \<Rightarrow> 'v option)" where
  "pmerge g m n = (\<lambda>k. case m k of None \<Rightarrow> n k
     | Some u \<Rightarrow> (case n k of None \<Rightarrow> Some u | Some v \<Rightarrow> Some (g u v)))"

lemma map_merge_wf [simp, wf_intros]: "map_wf a \<Longrightarrow> map_wf (map_merge f a b)"
  unfolding map_merge_def by (induction b arbitrary: a) auto

lemma map_of_map_merge:
  assumes "map_wf b"
  shows "map_of (map_merge f a b) k =
    (case map_of b k of None \<Rightarrow> map_of a k | Some v \<Rightarrow> Some (f (map_of a k) v))"
  using assms
proof (induction b arbitrary: a)
  case Nil
  then show ?case by (simp add: map_merge_def)
next
  case (Cons kv b)
  obtain k' v where kv: "kv = (k', v)" by force
  have "map_merge f a (kv # b) = map_merge f (map_set a k' (f (map_of a k') v)) b"
    by (simp add: map_merge_def kv)
  moreover have "map_of b k' = None"
    using Cons.prems kv by (simp add: map_of_eq_None_iff)
  ultimately show ?case
    using Cons.IH [of "map_set a k' (f (map_of a k') v)"] Cons.prems kv
    by (cases "k = k'") (simp_all split: option.split)
qed

lemma map_merge_pmerge:
  assumes "map_wf b"
    and "\<And>k v. map_of b k = Some v \<Longrightarrow> f None v = v"
    and "\<And>k u v. map_of a k = Some u \<Longrightarrow> map_of b k = Some v \<Longrightarrow> f (Some u) v = g u v"
  shows "map_of (map_merge f a b) = pmerge g (map_of a) (map_of b)"
  using assms by (auto simp: pmerge_def fun_eq_iff map_of_map_merge split: option.splits)

text \<open>A semilattice on the values a key may hold makes the pointwise merge a semilattice.\<close>

locale value_join =
  fixes C :: "'k \<Rightarrow> 'v \<Rightarrow> bool" and g :: "'v \<Rightarrow> 'v \<Rightarrow> 'v"
  assumes g_closed: "C k u \<Longrightarrow> C k v \<Longrightarrow> C k (g u v)"
    and g_comm: "C k u \<Longrightarrow> C k v \<Longrightarrow> g u v = g v u"
    and g_assoc: "C k u \<Longrightarrow> C k v \<Longrightarrow> C k w \<Longrightarrow> g (g u v) w = g u (g v w)"
    and g_idem: "C k u \<Longrightarrow> g u u = u"
begin

definition carried :: "('k \<Rightarrow> 'v option) \<Rightarrow> bool" where
  "carried m \<longleftrightarrow> (\<forall>k u. m k = Some u \<longrightarrow> C k u)"

sublocale maps: join_crdt carried "\<lambda>m. m" "pmerge g"
proof (unfold_locales, goal_cases)
  case (1 a b)
  then show ?case by (auto simp: carried_def pmerge_def g_closed split: option.splits)
next
  case (2 a b)
  then show ?case by (auto simp: carried_def pmerge_def fun_eq_iff split: option.splits) (metis g_comm)
next
  case (3 a b c)
  then show ?case by (auto simp: carried_def pmerge_def fun_eq_iff split: option.splits) (metis g_assoc)
next
  case (4 a)
  then show ?case by (auto simp: carried_def pmerge_def fun_eq_iff split: option.splits) (metis g_idem)
next
  case (5 a a' b b')
  then show ?case by simp
qed

end

end
