(* ===== verification/EventIds.thy ===== *)
theory EventIds
  imports JsStrings Crdt_Spec
begin

text \<open>
  \<open>src/domain/utils/EventId.js\<close> and \<open>src/domain/crdt/LWW.js\<close>: the total order on operations and
  the last-writer-wins register built on it. The contract of \<open>lwwMax\<close> is a semilattice on the
  registers that agree on what was written under one event id; without that agreement the tie
  rule ("return the first argument") depends on the order of the arguments.
\<close>

section \<open>Event ids\<close>

datatype event_id =
  EventId (ev_lamport: int) (ev_writerId: string) (ev_patchSha: string) (ev_opIndex: int)

definition hex_char :: "char \<Rightarrow> bool" where
  "hex_char c \<longleftrightarrow> is_digit c \<or> (97 \<le> (of_char c :: nat) \<and> (of_char c :: nat) \<le> 102)"

definition hex_oid :: "string \<Rightarrow> bool" where
  "hex_oid s \<longleftrightarrow> 4 \<le> length s \<and> length s \<le> 64 \<and> list_all hex_char s"

definition createEventId :: "jsval \<Rightarrow> jsval \<Rightarrow> jsval \<Rightarrow> jsval \<Rightarrow> event_id result" where
  "createEventId lamport writerId patchSha opIndex =
     (if js_int lamport = None \<or> the (js_int lamport) \<le> 0 then Inl (EventErr LamportNotPositive)
      else if \<not> js_is_str writerId \<or> length (js_str writerId) = 0 then Inl (EventErr EventWriterEmpty)
      else if \<not> js_is_str patchSha \<or> \<not> hex_oid (js_str patchSha) then Inl (EventErr PatchShaNotHex)
      else if js_int opIndex = None \<or> the (js_int opIndex) < 0 then Inl (EventErr OpIndexNegative)
      else Inr (EventId (the (js_int lamport)) (js_str writerId) (js_str patchSha) (the (js_int opIndex))))"

definition compareEventIds :: "event_id \<Rightarrow> event_id \<Rightarrow> int" where
  "compareEventIds a b =
     (if ev_lamport a \<noteq> ev_lamport b then (if ev_lamport a < ev_lamport b then -1 else 1)
      else if ev_writerId a \<noteq> ev_writerId b then (if ev_writerId a < ev_writerId b then -1 else 1)
      else if ev_patchSha a \<noteq> ev_patchSha b then (if ev_patchSha a < ev_patchSha b then -1 else 1)
      else if ev_opIndex a \<noteq> ev_opIndex b then (if ev_opIndex a < ev_opIndex b then -1 else 1)
      else 0)"

definition isGreater :: "event_id \<Rightarrow> event_id \<Rightarrow> bool" where
  "isGreater a b \<longleftrightarrow> compareEventIds a b > 0"

definition event_valid :: "event_id \<Rightarrow> bool" where
  "event_valid e \<longleftrightarrow> 0 < ev_lamport e \<and> ev_writerId e \<noteq> [] \<and> hex_oid (ev_patchSha e) \<and> 0 \<le> ev_opIndex e"

lemma createEventId_ok:
  "createEventId (JNum l) (JStr w) (JStr sha) (JNum i) = Inr e \<longleftrightarrow>
     e = EventId l w sha i \<and> event_valid e"
  by (auto simp: createEventId_def event_valid_def)

lemma createEventId_valid: "createEventId l w s i = Inr e \<Longrightarrow> event_valid e"
  by (auto simp: createEventId_def event_valid_def split: if_splits)

instantiation event_id :: linorder
begin

definition less_eq_event_id :: "event_id \<Rightarrow> event_id \<Rightarrow> bool" where
  "less_eq_event_id a b \<longleftrightarrow> compareEventIds a b \<le> 0"

definition less_event_id :: "event_id \<Rightarrow> event_id \<Rightarrow> bool" where
  "less_event_id a b \<longleftrightarrow> compareEventIds a b < 0"

instance
  by standard
    (auto simp: less_eq_event_id_def less_event_id_def compareEventIds_def event_id.expand split: if_splits)

end

lemma compareEventIds_le [simp]: "compareEventIds a b \<le> 0 \<longleftrightarrow> a \<le> b"
  by (simp add: less_eq_event_id_def)

lemma compareEventIds_less [simp]: "compareEventIds a b < 0 \<longleftrightarrow> a < b"
  by (simp add: less_event_id_def)

lemma compareEventIds_antisym: "compareEventIds b a = - compareEventIds a b"
  by (auto simp: compareEventIds_def)

lemma compareEventIds_ge [simp]: "0 \<le> compareEventIds a b \<longleftrightarrow> b \<le> a"
  using compareEventIds_le [of b a] by (simp add: compareEventIds_antisym [of b a])

lemma compareEventIds_gt [simp]: "0 < compareEventIds a b \<longleftrightarrow> b < a"
  using compareEventIds_less [of b a] by (simp add: compareEventIds_antisym [of b a])

lemma compareEventIds_zero [simp]: "compareEventIds a b = 0 \<longleftrightarrow> a = b"
  by (auto simp: compareEventIds_def event_id.expand)

lemma isGreater_iff: "isGreater a b \<longleftrightarrow> b < a"
  by (simp add: isGreater_def)

section \<open>Registers\<close>

record lww_register =
  reg_eventId :: event_id
  reg_value :: jsval

definition lwwSet :: "event_id \<Rightarrow> jsval \<Rightarrow> lww_register" where
  "lwwSet eventId value = \<lparr>reg_eventId = eventId, reg_value = value\<rparr>"

text \<open>\<open>null\<close> and \<open>undefined\<close> registers are \<open>None\<close>.\<close>

definition lwwMax :: "lww_register option \<Rightarrow> lww_register option \<Rightarrow> lww_register option" where
  "lwwMax a b =
     (case a of
        None \<Rightarrow> b
      | Some ra \<Rightarrow>
          (case b of
             None \<Rightarrow> a
           | Some rb \<Rightarrow>
               let cmp = compareEventIds (reg_eventId ra) (reg_eventId rb)
               in if cmp \<ge> 0 then a else b))"

definition lwwValue :: "lww_register option \<Rightarrow> jsval" where
  "lwwValue reg = (case reg of None \<Rightarrow> JUndef | Some r \<Rightarrow> reg_value r)"

text \<open>The same choice on registers that are present.\<close>

definition lww_pick :: "lww_register \<Rightarrow> lww_register \<Rightarrow> lww_register" where
  "lww_pick a b = (if reg_eventId b \<le> reg_eventId a then a else b)"

lemma lwwMax_Some [simp]: "lwwMax (Some a) (Some b) = Some (lww_pick a b)"
  by (simp add: lwwMax_def lww_pick_def)

lemma lwwMax_None [simp]: "lwwMax None b = b" "lwwMax a None = a"
  by (auto simp: lwwMax_def split: option.splits)

lemma lww_pick_eventId: "reg_eventId (lww_pick a b) = max (reg_eventId a) (reg_eventId b)"
  by (auto simp: lww_pick_def max_def)

text \<open>
  \<open>written wr\<close> holds of the registers whose value is what \<open>wr\<close> says was written under that key by
  that event.
\<close>

definition written :: "(string \<Rightarrow> event_id \<Rightarrow> jsval) \<Rightarrow> string \<Rightarrow> lww_register \<Rightarrow> bool" where
  "written wr key r \<longleftrightarrow> reg_value r = wr key (reg_eventId r)"

lemma written_eqI:
  "written wr k a \<Longrightarrow> written wr k b \<Longrightarrow> reg_eventId a = reg_eventId b \<Longrightarrow> (a :: lww_register) = b"
  by (simp add: written_def)

interpretation regs: value_join "written wr" lww_pick
  for wr :: "string \<Rightarrow> event_id \<Rightarrow> jsval"
proof (unfold_locales, goal_cases)
  case (1 k u v)
  then show ?case by (simp add: lww_pick_def)
next
  case (2 k u v)
  then show ?case
    by (auto simp: lww_pick_def intro: written_eqI [of wr k])
next
  case (3 k u v w)
  then show ?case by (auto simp: lww_pick_def)
next
  case (4 k u)
  then show ?case by (simp add: lww_pick_def)
qed

interpretation births: value_join "\<lambda>(k :: string) (e :: event_id). True" max
  by unfold_locales (auto simp: max_def)

text \<open>Without the agreement the merge is not commutative: the tie rule keeps the first argument.\<close>

lemma lwwMax_tie: "reg_eventId a = reg_eventId b \<Longrightarrow> lwwMax (Some a) (Some b) = Some a"
  by (simp add: lww_pick_def)

end
