(* ===== verification/Dots.thy ===== *)
theory Dots
  imports JsStrings
begin

text \<open>
  \<open>src/domain/crdt/Dot.js\<close>: the identity of an add operation, its validation, its encoding as a
  string key, and the order used for serialisation.
\<close>

datatype dot = Dot (dot_writerId: string) (dot_counter: int)

definition createDot :: "jsval \<Rightarrow> jsval \<Rightarrow> dot result" where
  "createDot writerId counter =
     (case writerId of
        JStr w \<Rightarrow>
          if w = [] then Inl (DotErr WriterIdEmpty)
          else (case counter of
                  JNum n \<Rightarrow>
                    if n \<le> 0 then Inl (DotErr CounterNotPositive)
                    else Inr (Dot w n)
                | _ \<Rightarrow> Inl (DotErr CounterNotPositive))
      | _ \<Rightarrow> Inl (DotErr WriterIdEmpty))"

definition dotsEqual :: "dot \<Rightarrow> dot \<Rightarrow> bool" where
  "dotsEqual a b \<longleftrightarrow> dot_writerId a = dot_writerId b \<and> dot_counter a = dot_counter b"

definition encodeDot :: "dot \<Rightarrow> string" where
  "encodeDot d = dot_writerId d @ CHR '':'' # show_int (dot_counter d)"

definition decodeDot :: "string \<Rightarrow> dot result" where
  "decodeDot encoded =
     (case split_last (CHR '':'') encoded of
        None \<Rightarrow> Inl (DotErr MissingColon)
      | Some (writerId, counterStr) \<Rightarrow>
          (let counter = parse_int10 counterStr
           in if length writerId = 0 then Inl (DotErr EmptyWriterId)
              else (case counter of
                      None \<Rightarrow> Inl (DotErr InvalidCounter)
                    | Some n \<Rightarrow>
                        if n \<le> 0 then Inl (DotErr InvalidCounter)
                        else Inr (Dot writerId n))))"

definition compareDots :: "dot \<Rightarrow> dot \<Rightarrow> int" where
  "compareDots a b =
     (if dot_writerId a \<noteq> dot_writerId b
      then (if dot_writerId a < dot_writerId b then -1 else 1)
      else if dot_counter a \<noteq> dot_counter b
      then (if dot_counter a < dot_counter b then -1 else 1)
      else 0)"

section \<open>Validation and the string encoding\<close>

definition dot_valid :: "dot \<Rightarrow> bool" where
  "dot_valid d \<longleftrightarrow> dot_writerId d \<noteq> [] \<and> 0 < dot_counter d"

lemma createDot_valid: "createDot w c = Inr d \<Longrightarrow> dot_valid d"
  by (auto simp: createDot_def dot_valid_def split: jsval.splits if_splits)

lemma createDot_ok_iff:
  "createDot (JStr w) (JNum n) = Inr d \<longleftrightarrow> d = Dot w n \<and> dot_valid d"
  by (auto simp: createDot_def dot_valid_def)

lemma dotsEqual_iff [simp]: "dotsEqual a b \<longleftrightarrow> a = b"
  by (cases a; cases b) (simp add: dotsEqual_def)

text \<open>Decoding undoes encoding for every valid dot, whatever colons its writer id holds.\<close>

lemma decode_encode_dot: "dot_valid d \<Longrightarrow> decodeDot (encodeDot d) = Inr d"
  by (cases d)
    (simp add: dot_valid_def decodeDot_def encodeDot_def split_last_append
      colon_not_in_show_int parse_int10_show_int)

lemma encodeDot_inj: "dot_valid a \<Longrightarrow> dot_valid b \<Longrightarrow> encodeDot a = encodeDot b \<Longrightarrow> a = b"
  by (metis decode_encode_dot sum.inject(2))

lemma decodeDot_valid: "decodeDot s = Inr d \<Longrightarrow> dot_valid d"
  by (auto simp: decodeDot_def dot_valid_def Let_def split: option.splits if_splits)

lemma decodeDot_prefix: "decodeDot s = Inr d \<Longrightarrow> \<exists>t. s = dot_writerId d @ CHR '':'' # t"
  by (auto simp: decodeDot_def Let_def dest!: split_last_Some split: option.splits if_splits)

section \<open>The serialisation order is total\<close>

instantiation dot :: linorder
begin

definition less_eq_dot :: "dot \<Rightarrow> dot \<Rightarrow> bool" where
  "less_eq_dot a b \<longleftrightarrow> compareDots a b \<le> 0"

definition less_dot :: "dot \<Rightarrow> dot \<Rightarrow> bool" where
  "less_dot a b \<longleftrightarrow> compareDots a b < 0"

instance
  by standard
    (auto simp: less_eq_dot_def less_dot_def compareDots_def dot.expand split: if_splits)

end

lemma compareDots_le [simp]: "compareDots a b \<le> 0 \<longleftrightarrow> a \<le> b"
  by (simp add: less_eq_dot_def)

lemma compareDots_zero [simp]: "compareDots a b = 0 \<longleftrightarrow> a = b"
  by (auto simp: compareDots_def dot.expand)

lemma compareDots_antisym: "compareDots b a = - compareDots a b"
  by (auto simp: compareDots_def)

lemma sort_by_compareDots: "sort_by (\<lambda>x y. compareDots (f x) (f y)) xs = sort_key f xs"
  by (rule sort_by_key) simp

end
