(* ===== verification/VersionVector.thy ===== *)
theory VersionVector
  imports Dots Crdt_Spec
begin

text \<open>
  \<open>src/domain/crdt/VersionVector.js\<close>: the causal context, a map from writer id to the highest
  counter observed. The contract: \<open>vvMerge\<close> is the least upper bound of \<open>vvDescends\<close>, and a dot
  is contained in a merge exactly when one side contains it.
\<close>

type_synonym version_vector = "(string, int) jsmap"

definition createVersionVector :: version_vector where
  "createVersionVector = []"

text \<open>\<open>vv.get(writerId) || 0\<close>\<close>

definition vv_get :: "version_vector \<Rightarrow> string \<Rightarrow> int" where
  "vv_get vv w = (case map_of vv w of None \<Rightarrow> 0 | Some c \<Rightarrow> c)"

text \<open>The vector is updated before the dot is validated, so it changes even when that throws.\<close>

definition vvIncrement :: "version_vector \<Rightarrow> string \<Rightarrow> version_vector \<times> dot result" where
  "vvIncrement vv writerId =
     (let newCounter = vv_get vv writerId + 1
      in (map_set vv writerId newCounter, createDot (JStr writerId) (JNum newCounter)))"

definition vvMerge :: "version_vector \<Rightarrow> version_vector \<Rightarrow> version_vector" where
  "vvMerge a b =
     map_merge (\<lambda>existing counter. max (case existing of None \<Rightarrow> 0 | Some e \<Rightarrow> e) counter) a b"

definition vvDescends :: "version_vector \<Rightarrow> version_vector \<Rightarrow> bool" where
  "vvDescends a b \<longleftrightarrow> list_all (\<lambda>(writerId, counter). \<not> vv_get a writerId < counter) b"

definition vvContains :: "version_vector \<Rightarrow> dot \<Rightarrow> bool" where
  "vvContains vv dot \<longleftrightarrow> dot_counter dot \<le> vv_get vv (dot_writerId dot)"

definition vvSerialize_step :: "version_vector \<Rightarrow> (string \<times> int) list \<Rightarrow> string \<Rightarrow> (string \<times> int) list result" where
  "vvSerialize_step vv obj key =
     (case map_of vv key of
        None \<Rightarrow> Inr obj
      | Some val \<Rightarrow>
          if val = 0 then Inl (VvErr (ZeroCounter key))
          else Inr (obj_set_prim obj key val))"

definition vvSerialize :: "version_vector \<Rightarrow> (string \<times> int) list result" where
  "vvSerialize vv = fold_r (vvSerialize_step vv) [] (sort (map_keys vv))"

definition vvDeserialize_step :: "version_vector \<Rightarrow> string \<times> jsval \<Rightarrow> version_vector result" where
  "vvDeserialize_step vv kv =
     (case snd kv of
        JNum n \<Rightarrow>
          if n < 0 then Inl (VvErr (BadCounter (fst kv)))
          else Inr (if n > 0 then map_set vv (fst kv) n else vv)
      | _ \<Rightarrow> Inl (VvErr (BadCounter (fst kv))))"

definition vvDeserialize :: "(string \<times> jsval) list \<Rightarrow> version_vector result" where
  "vvDeserialize obj = fold_r vvDeserialize_step [] obj"

definition vvClone :: "version_vector \<Rightarrow> version_vector" where
  "vvClone vv = vv"

definition vvEqual :: "version_vector \<Rightarrow> version_vector \<Rightarrow> bool" where
  "vvEqual a b \<longleftrightarrow>
     (if length a \<noteq> length b then False
      else list_all (\<lambda>(writerId, counter). map_of b writerId = Some counter) a)"

section \<open>Well-formed vectors and the merge lattice\<close>

definition vv_wf :: "version_vector \<Rightarrow> bool" where
  "vv_wf vv \<longleftrightarrow> map_wf vv \<and> (\<forall>w c. map_of vv w = Some c \<longrightarrow> 0 \<le> c)"

lemma vv_wfD: "vv_wf vv \<Longrightarrow> map_wf vv"
  by (simp add: vv_wf_def)

lemma vv_get_nonneg: "vv_wf vv \<Longrightarrow> 0 \<le> vv_get vv w"
  by (auto simp: vv_wf_def vv_get_def split: option.splits)

lemma createVersionVector_wf [simp, wf_intros]: "vv_wf createVersionVector"
  by (simp add: vv_wf_def createVersionVector_def)

lemma vv_get_create [simp]: "vv_get createVersionVector w = 0"
  by (simp add: vv_get_def createVersionVector_def)

lemma vv_get_update [simp]: "vv_get (map_set vv w c) v = (if v = w then c else vv_get vv v)"
  by (simp add: vv_get_def)

interpretation counters: value_join "\<lambda>(w :: string) (c :: int). 0 \<le> c" max
  by unfold_locales (auto simp: max_def)

lemma vv_wf_carried: "vv_wf vv \<longleftrightarrow> map_wf vv \<and> counters.carried (map_of vv)"
  by (simp add: vv_wf_def counters.carried_def)

lemma vvMerge_map_of [abs_simps]:
  assumes "vv_wf b"
  shows "map_of (vvMerge a b) = pmerge max (map_of a) (map_of b)"
  unfolding vvMerge_def using assms by (intro map_merge_pmerge) (auto simp: vv_wf_def)

lemma vvMerge_wf [wf_intros]: "vv_wf a \<Longrightarrow> vv_wf b \<Longrightarrow> vv_wf (vvMerge a b)"
  using counters.maps.inv_join [of "map_of a" "map_of b"]
  by (simp add: vv_wf_carried vvMerge_map_of) (simp add: vvMerge_def)

lemma vvMerge_get:
  assumes "vv_wf a" "vv_wf b"
  shows "vv_get (vvMerge a b) w = max (vv_get a w) (vv_get b w)"
  using vv_get_nonneg [OF assms(1), of w] vv_get_nonneg [OF assms(2), of w]
  by (auto simp: vv_get_def vvMerge_map_of [OF assms(2)] pmerge_def max_def split: option.splits)

interpretation vv: join_crdt vv_wf map_of vvMerge
proof (unfold_locales, goal_cases)
  case (1 a b)
  then show ?case by (rule vvMerge_wf)
next
  case (2 a b)
  then show ?case
    by (simp add: vvMerge_map_of) (rule counters.maps.join_comm; simp add: vv_wf_carried)
next
  case (3 a b c)
  then show ?case
    by (simp add: vvMerge_map_of vvMerge_wf) (rule counters.maps.join_assoc; simp add: vv_wf_carried)
next
  case (4 a)
  then show ?case
    by (simp add: vvMerge_map_of) (rule counters.maps.join_idem; simp add: vv_wf_carried)
next
  case (5 a a' b b')
  then show ?case by (simp add: vvMerge_map_of)
qed

section \<open>The causal order\<close>

lemma vvDescends_iff:
  "vv_wf a \<Longrightarrow> vv_wf b \<Longrightarrow> vvDescends a b \<longleftrightarrow> (\<forall>w. vv_get b w \<le> vv_get a w)"
proof -
  assume a: "vv_wf a" and b: "vv_wf b"
  have "(\<forall>c. map_of b w = Some c \<longrightarrow> c \<le> vv_get a w) \<longleftrightarrow> vv_get b w \<le> vv_get a w" for w
    using vv_get_nonneg [OF a, of w] by (auto simp: vv_get_def [of b] split: option.splits)
  then show ?thesis
    using b by (simp add: vvDescends_def list_all_map_of vv_wf_def not_less)
qed

lemma vvContains_merge:
  "vv_wf a \<Longrightarrow> vv_wf b \<Longrightarrow> vvContains (vvMerge a b) d \<longleftrightarrow> vvContains a d \<or> vvContains b d"
  by (simp add: vvContains_def vvMerge_get le_max_iff_disj)

lemma vvMerge_upper:
  assumes "vv_wf a" "vv_wf b"
  shows "vvDescends (vvMerge a b) a" and "vvDescends (vvMerge a b) b"
  using assms by (simp_all add: vvDescends_iff vvMerge_wf vvMerge_get)

lemma vvMerge_least:
  "vv_wf a \<Longrightarrow> vv_wf b \<Longrightarrow> vv_wf c \<Longrightarrow> vvDescends c a \<Longrightarrow> vvDescends c b \<Longrightarrow> vvDescends c (vvMerge a b)"
  by (simp add: vvDescends_iff vvMerge_wf vvMerge_get)

lemma vvDescends_contains:
  "vv_wf a \<Longrightarrow> vv_wf b \<Longrightarrow> vvDescends a b \<Longrightarrow> vvContains b d \<Longrightarrow> vvContains a d"
  by (metis order_trans vvContains_def vvDescends_iff)

lemma vvIncrement_fresh:
  assumes "vv_wf vv" "vvIncrement vv w = (vv', Inr d)"
  shows "vv_wf vv'" "dot_valid d" "\<not> vvContains vv d" "vvContains vv' d" "vvDescends vv' vv"
proof -
  have e: "vv' = map_set vv w (vv_get vv w + 1)" "createDot (JStr w) (JNum (vv_get vv w + 1)) = Inr d"
    using assms(2) by (auto simp: vvIncrement_def Let_def)
  then have d: "d = Dot w (vv_get vv w + 1)" "dot_valid d"
    by (auto simp: createDot_ok_iff)
  show wf: "vv_wf vv'"
    using assms(1) vv_get_nonneg [OF assms(1), of w] by (auto simp: e vv_wf_def)
  show "dot_valid d" "\<not> vvContains vv d" "vvContains vv' d"
    using d e by (simp_all add: vvContains_def)
  show "vvDescends vv' vv"
    using wf assms(1) by (simp add: vvDescends_iff e)
qed

lemma vvEqual_iff:
  assumes "map_wf a" "map_wf b"
  shows "vvEqual a b \<longleftrightarrow> map_of a = map_of b"
proof
  assume l: "vvEqual a b"
  then have len: "length a = length b" and sub: "\<forall>(w, c) \<in> set a. map_of b w = Some c"
    by (auto simp: vvEqual_def list_all_iff split: if_splits)
  from sub have "set a \<subseteq> set b"
    by (auto dest: map_of_SomeD)
  moreover have "card (set a) = card (set b)"
    using len assms by (simp add: distinct_card distinct_map)
  ultimately have "set a = set b"
    by (simp add: card_subset_eq)
  with assms show "map_of a = map_of b"
    using map_of_inject_set by blast
next
  assume e: "map_of a = map_of b"
  then have "length a = length b"
    using assms by (intro map_wf_same_set_eq_length)
  moreover have "map_of b w = Some c" if "(w, c) \<in> set a" for w c
    using map_of_is_SomeI [OF assms(1) that] e by simp
  ultimately show "vvEqual a b"
    by (auto simp: vvEqual_def list_all_iff)
qed

section \<open>Serialisation\<close>

lemma vvSerialize_fold:
  assumes "\<forall>k\<in>set ks. \<exists>c. map_of vv k = Some c \<and> c \<noteq> 0"
  shows "\<exists>obj. fold_r (vvSerialize_step vv) acc ks = Inr obj \<and> (map_wf acc \<longrightarrow> map_wf obj) \<and>
          map_of obj = (\<lambda>k. if k \<in> set ks \<and> k \<noteq> ''__proto__'' then map_of vv k else map_of acc k)"
  using assms
proof (induction ks arbitrary: acc)
  case Nil
  then show ?case by auto
next
  case (Cons k ks)
  then obtain c where c: "map_of vv k = Some c" "c \<noteq> 0" by auto
  from Cons.prems have "\<forall>k\<in>set ks. \<exists>c. map_of vv k = Some c \<and> c \<noteq> 0" by simp
  from Cons.IH [OF this, of "obj_set_prim acc k c"] show ?case
    using c by (auto simp: fun_eq_iff vvSerialize_step_def)
qed

definition vv_positive :: "version_vector \<Rightarrow> bool" where
  "vv_positive vv \<longleftrightarrow> map_wf vv \<and> (\<forall>w c. map_of vv w = Some c \<longrightarrow> 0 < c)"

lemma vv_positive_wf: "vv_positive vv \<Longrightarrow> vv_wf vv"
  by (force simp: vv_positive_def vv_wf_def)

lemma vvSerialize_positive:
  assumes "vv_positive vv"
  shows "\<exists>obj. vvSerialize vv = Inr obj \<and> map_wf obj \<and>
           map_of obj = (\<lambda>k. if k = ''__proto__'' then None else map_of vv k)"
proof -
  have "\<forall>k\<in>set (sort (map_keys vv)). \<exists>c. map_of vv k = Some c \<and> c \<noteq> 0"
    using assms unfolding vv_positive_def
    by (metis less_irrefl list.set_map map_of_eq_None_iff option.exhaust set_sort)
  note run = vvSerialize_fold [OF this, of "[]"]
  have "(\<lambda>k. if k \<in> set (sort (map_keys vv)) \<and> k \<noteq> ''__proto__'' then map_of vv k else map_of [] k) =
        (\<lambda>k. if k = ''__proto__'' then None else map_of vv k)"
    by (rule ext) (metis list.set_map map_of.simps(1) map_of_eq_None_iff set_sort)
  with run show ?thesis
    by (simp add: vvSerialize_def)
qed

lemma vvDeserialize_fold:
  assumes "map_wf obj" "\<forall>w c. map_of obj w = Some c \<longrightarrow> 0 < c"
  shows "\<exists>vv. fold_r vvDeserialize_step acc (map (\<lambda>(k, c). (k, JNum c)) obj) = Inr vv
     \<and> (map_wf acc \<longrightarrow> map_wf vv) \<and> map_of vv = map_of acc ++ map_of obj"
  using assms
proof (induction obj arbitrary: acc)
  case Nil
  then show ?case by simp
next
  case (Cons p obj)
  obtain k c where p: "p = (k, c)" by force
  have k: "map_of obj k = None"
    using Cons.prems(1) p by (simp add: map_of_eq_None_iff)
  have pos: "0 < c"
    using Cons.prems(2) p by (metis fun_upd_same map_of.simps(2) fst_conv snd_conv)
  have rest: "\<forall>w c. map_of obj w = Some c \<longrightarrow> 0 < c"
    using Cons.prems(2) p k by (metis fst_conv fun_upd_other map_of.simps(2) option.distinct(1))
  have step: "vvDeserialize_step acc (k, JNum c) = Inr (map_set acc k c)"
    using pos by (simp add: vvDeserialize_step_def)
  have "map_wf obj"
    using Cons.prems(1) by simp
  from Cons.IH [OF this rest, of "map_set acc k c"] obtain vv where vv:
      "fold_r vvDeserialize_step (map_set acc k c) (map (\<lambda>(k, c). (k, JNum c)) obj) = Inr vv"
      "map_wf acc \<longrightarrow> map_wf vv" "map_of vv = (map_of acc)(k \<mapsto> c) ++ map_of obj"
    by (metis map_of_update map_wf_update)
  have "(map_of acc)(k \<mapsto> c) ++ map_of obj = map_of acc ++ map_of (p # obj)"
    using k p by (auto simp: map_add_def fun_eq_iff split: option.split)
  moreover have "fold_r vvDeserialize_step acc (map (\<lambda>(k, c). (k, JNum c)) (p # obj)) = Inr vv"
    using vv(1) step p by simp
  ultimately show ?case
    using vv(2,3) by metis
qed

text \<open>
  A round trip keeps every entry except one under \<open>__proto__\<close>, which the plain object drops.
\<close>

lemma vv_roundtrip:
  assumes "vv_positive vv"
  shows "\<exists>obj vv'. vvSerialize vv = Inr obj \<and>
           vvDeserialize (map (\<lambda>(k, c). (k, JNum c)) obj) = Inr vv' \<and> map_wf vv' \<and>
           map_of vv' = (\<lambda>k. if k = ''__proto__'' then None else map_of vv k)"
proof -
  obtain obj where obj: "vvSerialize vv = Inr obj" "map_wf obj"
      "map_of obj = (\<lambda>k. if k = ''__proto__'' then None else map_of vv k)"
    using vvSerialize_positive [OF assms] by blast
  have "\<forall>w c. map_of obj w = Some c \<longrightarrow> 0 < c"
    using assms by (auto simp: obj(3) vv_positive_def)
  from vvDeserialize_fold [OF obj(2) this, of "[]"] obj show ?thesis
    by (auto simp: vvDeserialize_def)
qed

end
