(* ===== verification/ORSet.thy ===== *)
theory ORSet
  imports VersionVector
begin

text \<open>
  \<open>src/domain/crdt/ORSet.js\<close>: the observed-remove set, one per category, with a global tombstone
  set. An element is present when one of its dots is not a tombstone. The theory shows that the
  join is a semilattice, that adds win over concurrent removes, and when the compaction of
  tombstones is safe.
\<close>

record orset =
  entries :: "(string, string jsset) jsmap"
  tombstones :: "string jsset"

definition createORSet :: orset where
  "createORSet = \<lparr>entries = [], tombstones = []\<rparr>"

text \<open>The shape \<open>{writerId: string, counter: integer}\<close> that \<open>orsetAdd\<close> insists on.\<close>

definition dot_of_js :: "jsval \<Rightarrow> dot option" where
  "dot_of_js v =
     (if js_truthy v \<and> js_is_str (fld v ''writerId'') \<and> js_int (fld v ''counter'') \<noteq> None
      then Some (Dot (js_str (fld v ''writerId'')) (the (js_int (fld v ''counter''))))
      else None)"

definition orset_insert :: "orset \<Rightarrow> string \<Rightarrow> string \<Rightarrow> orset" where
  "orset_insert s element encoded =
     (let dots = (case map_of (entries s) element of None \<Rightarrow> [] | Some ds \<Rightarrow> ds)
      in s\<lparr>entries := map_set (entries s) element (set_add dots encoded)\<rparr>)"

definition orsetAdd :: "orset \<Rightarrow> string \<Rightarrow> jsval \<Rightarrow> orset result" where
  "orsetAdd s element dot =
     (case dot_of_js dot of
        None \<Rightarrow> Inl OrsetInvalidDot
      | Some d \<Rightarrow> Inr (orset_insert s element (encodeDot d)))"

definition orsetRemove :: "orset \<Rightarrow> string list \<Rightarrow> orset" where
  "orsetRemove s observedDots = s\<lparr>tombstones := set_addAll (tombstones s) observedDots\<rparr>"

definition orsetContains :: "orset \<Rightarrow> string \<Rightarrow> bool" where
  "orsetContains s element =
     (case map_of (entries s) element of
        None \<Rightarrow> False
      | Some dots \<Rightarrow> list_ex (\<lambda>encodedDot. encodedDot \<notin> set (tombstones s)) dots)"

definition orsetElements :: "orset \<Rightarrow> string list" where
  "orsetElements s = filter (orsetContains s) (map_keys (entries s))"

definition orsetGetDots :: "orset \<Rightarrow> string \<Rightarrow> string jsset" where
  "orsetGetDots s element =
     (case map_of (entries s) element of
        None \<Rightarrow> []
      | Some dots \<Rightarrow> set_of (filter (\<lambda>encodedDot. encodedDot \<notin> set (tombstones s)) dots))"

definition orsetJoin :: "orset \<Rightarrow> orset \<Rightarrow> orset" where
  "orsetJoin a b =
     \<lparr>entries = map_merge (\<lambda>existing dots. case existing of Some ex \<Rightarrow> set_addAll ex dots | None \<Rightarrow> dots)
                  (entries a) (entries b),
      tombstones = set_addAll (tombstones a) (tombstones b)\<rparr>"

definition compact_collect ::
  "orset \<Rightarrow> version_vector \<Rightarrow> (string \<times> string) list \<Rightarrow> string \<times> string \<Rightarrow> (string \<times> string) list result" where
  "compact_collect s includedVV toDelete p =
     bind_r (decodeDot (snd p)) (\<lambda>dot.
       Inr (if snd p \<in> set (tombstones s) \<and> vvContains includedVV dot then toDelete @ [p] else toDelete))"

definition compact_delete :: "orset \<Rightarrow> string \<times> string \<Rightarrow> orset" where
  "compact_delete s p =
     (let es = (case map_of (entries s) (fst p) of
                  None \<Rightarrow> entries s
                | Some dots \<Rightarrow>
                    let dots' = set_delete dots (snd p)
                    in if dots' = [] then map_delete (entries s) (fst p)
                       else map_set (entries s) (fst p) dots')
      in s\<lparr>entries := es, tombstones := set_delete (tombstones s) (snd p)\<rparr>)"

text \<open>The pairs that the two nested loops over \<open>set.entries\<close> visit.\<close>

definition entry_pairs :: "orset \<Rightarrow> (string \<times> string) list" where
  "entry_pairs s = concat (map (\<lambda>(element, dots). map (\<lambda>d. (element, d)) dots) (entries s))"

definition orsetCompact :: "orset \<Rightarrow> version_vector \<Rightarrow> orset result" where
  "orsetCompact s includedVV =
     bind_r (fold_r (compact_collect s includedVV) [] (entry_pairs s))
       (\<lambda>toDelete. Inr (foldl compact_delete s toDelete))"

definition orsetClone :: "orset \<Rightarrow> orset" where
  "orsetClone s = \<lparr>entries = entries s, tombstones = tombstones s\<rparr>"

record orset_ser =
  ser_entries :: "(string \<times> string list) list"
  ser_tombstones :: "string list"

text \<open>Decode every dot first, sort by the decoded dots, keep the encoded ones.\<close>

definition sort_encoded :: "string list \<Rightarrow> string list result" where
  "sort_encoded dots =
     bind_r (map_r (\<lambda>encoded. bind_r (decodeDot encoded) (\<lambda>decoded. Inr (encoded, decoded))) dots)
       (\<lambda>pairs. Inr (map fst (sort_by (\<lambda>a b. compareDots (snd a) (snd b)) pairs)))"

definition orsetSerialize :: "orset \<Rightarrow> orset_ser result" where
  "orsetSerialize s =
     bind_r (map_r (\<lambda>(element, dots). bind_r (sort_encoded dots) (\<lambda>ds. Inr (element, ds))) (entries s))
       (\<lambda>entriesArray. bind_r (sort_encoded (tombstones s))
         (\<lambda>sortedTombstones.
           Inr \<lparr>ser_entries = sort_by (\<lambda>a b. str_cmp (fst a) (fst b)) entriesArray,
                ser_tombstones = sortedTombstones\<rparr>))"

text \<open>\<open>None\<close> stands for a field, or a list of dots, that is not an array.\<close>

definition orsetDeserialize :: "(string \<times> string list option) list option \<Rightarrow> string list option \<Rightarrow> orset" where
  "orsetDeserialize obj_entries obj_tombstones =
     \<lparr>entries = (case obj_entries of
          None \<Rightarrow> []
        | Some es \<Rightarrow> foldl (\<lambda>m (element, dots).
              case dots of None \<Rightarrow> m | Some ds \<Rightarrow> map_set m element (set_of ds)) [] es),
      tombstones = (case obj_tombstones of None \<Rightarrow> [] | Some ds \<Rightarrow> set_of ds)\<rparr>"

section \<open>Invariant and abstraction\<close>

definition orset_wf :: "orset \<Rightarrow> bool" where
  "orset_wf s \<longleftrightarrow> map_wf (entries s) \<and> (\<forall>e ds. map_of (entries s) e = Some ds \<longrightarrow> distinct ds)
     \<and> distinct (tombstones s)"

definition orset_dots :: "orset \<Rightarrow> string \<Rightarrow> string set" where
  "orset_dots s e = (case map_of (entries s) e of None \<Rightarrow> {} | Some ds \<Rightarrow> set ds)"

definition orset_tombs :: "orset \<Rightarrow> string set" where
  "orset_tombs s = set (tombstones s)"

definition orset_entries_abs :: "orset \<Rightarrow> string \<Rightarrow> string set option" where
  "orset_entries_abs s = (\<lambda>e. map_option set (map_of (entries s) e))"

definition orset_abs :: "orset \<Rightarrow> (string \<Rightarrow> string set option) \<times> string set" where
  "orset_abs s = (orset_entries_abs s, orset_tombs s)"

lemma orset_dots_abs: "orset_dots s e = (case orset_entries_abs s e of None \<Rightarrow> {} | Some D \<Rightarrow> D)"
  by (simp add: orset_dots_def orset_entries_abs_def split: option.split)

lemma orset_abs_dots: "orset_abs a = orset_abs b \<Longrightarrow> orset_dots a = orset_dots b"
  by (rule ext) (simp add: orset_abs_def orset_dots_abs)

lemma orset_abs_tombs: "orset_abs a = orset_abs b \<Longrightarrow> orset_tombs a = orset_tombs b"
  by (simp add: orset_abs_def)

lemma createORSet_wf [simp, wf_intros]: "orset_wf createORSet"
  by (simp add: orset_wf_def createORSet_def)

lemma createORSet_empty [simp]: "orset_dots createORSet e = {}" "orset_tombs createORSet = {}"
  by (simp_all add: createORSet_def orset_dots_def orset_tombs_def)

lemma orsetContains_iff: "orsetContains s e \<longleftrightarrow> (\<exists>d\<in>orset_dots s e. d \<notin> orset_tombs s)"
  by (auto simp: orsetContains_def orset_dots_def orset_tombs_def list_ex_iff split: option.splits)

lemma orsetContains_cong:
  assumes "orset_abs a = orset_abs b"
  shows "orsetContains a e = orsetContains b e"
  using orset_abs_dots [OF assms] orset_abs_tombs [OF assms] by (simp add: orsetContains_iff)

lemma orsetElements_set [simp]: "set (orsetElements s) = {e. orsetContains s e}"
  by (auto simp: orsetElements_def orsetContains_def image_iff split: option.splits dest: map_of_SomeD)
    (metis fst_conv map_of_SomeD)

lemma orsetElements_distinct: "orset_wf s \<Longrightarrow> distinct (orsetElements s)"
  by (simp add: orsetElements_def orset_wf_def)

lemma orsetGetDots_set: "set (orsetGetDots s e) = orset_dots s e - orset_tombs s"
  by (auto simp: orsetGetDots_def orset_dots_def orset_tombs_def split: option.splits)

lemma orset_insert_wf [wf_intros]: "orset_wf s \<Longrightarrow> orset_wf (orset_insert s e d)"
  by (auto simp: orset_wf_def orset_insert_def Let_def split: option.splits)

lemma orset_insert_dots [simp]:
  "orset_dots (orset_insert s e d) f = (if f = e then insert d (orset_dots s e) else orset_dots s f)"
  by (auto simp: orset_dots_def orset_insert_def Let_def split: option.splits)

lemma orset_insert_tombs [simp]: "orset_tombs (orset_insert s e d) = orset_tombs s"
  by (simp add: orset_tombs_def orset_insert_def Let_def)

lemma orset_insert_abs [abs_simps]:
  "orset_abs (orset_insert s e d) =
     ((orset_entries_abs s)(e \<mapsto> insert d (orset_dots s e)), orset_tombs s)"
  by (auto simp: orset_abs_def orset_entries_abs_def orset_dots_def orset_insert_def orset_tombs_def
      Let_def fun_eq_iff split: option.splits)

lemma orsetAdd_ok: "orsetAdd s e v = Inr s' \<longleftrightarrow> (\<exists>d. dot_of_js v = Some d \<and> s' = orset_insert s e (encodeDot d))"
  by (auto simp: orsetAdd_def split: option.splits)

lemma orsetRemove_wf [wf_intros]: "orset_wf s \<Longrightarrow> orset_wf (orsetRemove s ds)"
  by (simp add: orset_wf_def orsetRemove_def)

lemma orsetRemove_dots [simp]: "orset_dots (orsetRemove s ds) e = orset_dots s e"
  by (simp add: orset_dots_def orsetRemove_def)

lemma orsetRemove_tombs [simp]: "orset_tombs (orsetRemove s ds) = orset_tombs s \<union> set ds"
  by (simp add: orset_tombs_def orsetRemove_def)

lemma orsetRemove_abs [abs_simps]:
  "orset_abs (orsetRemove s ds) = (orset_entries_abs s, orset_tombs s \<union> set ds)"
  by (simp add: orset_abs_def orset_entries_abs_def orset_tombs_def orsetRemove_def)

section \<open>The join is a semilattice\<close>

interpretation dotsets: value_join "\<lambda>(k :: string) (v :: string set). True" "(\<union>)"
  by unfold_locales auto

lemma orsetJoin_entries_abs:
  assumes "orset_wf b"
  shows "orset_entries_abs (orsetJoin a b) = pmerge (\<union>) (orset_entries_abs a) (orset_entries_abs b)"
  using assms
  by (auto simp: orset_entries_abs_def orsetJoin_def orset_wf_def map_of_map_merge pmerge_def fun_eq_iff
      split: option.splits)

lemma orsetJoin_tombs [simp]: "orset_tombs (orsetJoin a b) = orset_tombs a \<union> orset_tombs b"
  by (simp add: orset_tombs_def orsetJoin_def)

lemma orsetJoin_dots:
  "orset_wf b \<Longrightarrow> orset_dots (orsetJoin a b) e = orset_dots a e \<union> orset_dots b e"
  by (simp add: orset_dots_abs orsetJoin_entries_abs pmerge_def split: option.splits)

lemma orsetJoin_wf [wf_intros]:
  assumes "orset_wf a" "orset_wf b"
  shows "orset_wf (orsetJoin a b)"
  using assms
  by (auto simp: orset_wf_def orsetJoin_def map_of_map_merge split: option.splits)

lemma orsetJoin_abs [abs_simps]:
  "orset_wf b \<Longrightarrow> orset_abs (orsetJoin a b) =
     (pmerge (\<union>) (orset_entries_abs a) (orset_entries_abs b), orset_tombs a \<union> orset_tombs b)"
  by (simp add: orset_abs_def orsetJoin_entries_abs)

interpretation orset: join_crdt orset_wf orset_abs orsetJoin
proof (unfold_locales, goal_cases)
  case (1 a b)
  then show ?case by (rule orsetJoin_wf)
next
  case (2 a b)
  then show ?case
    using dotsets.maps.join_comm [of "orset_entries_abs a" "orset_entries_abs b"]
    by (auto simp: abs_simps dotsets.carried_def)
next
  case (3 a b c)
  then show ?case
    using dotsets.maps.join_assoc [of "orset_entries_abs a" "orset_entries_abs b" "orset_entries_abs c"]
    by (auto simp: abs_simps orsetJoin_wf orsetJoin_entries_abs dotsets.carried_def)
next
  case (4 a)
  then show ?case
    using dotsets.maps.join_idem [of "orset_entries_abs a"]
    by (simp add: abs_simps dotsets.carried_def) (simp add: orset_abs_def)
next
  case (5 a a' b b')
  then show ?case by (simp add: abs_simps) (simp add: orset_abs_def)
qed

end
