(* ===== verification/Ops.thy ===== *)
theory Ops
  imports KeyCodec EventIds ORSet
begin

text \<open>
  \<open>src/domain/types/WarpTypesV2.js\<close> (the constructors of operations and patches) and
  \<open>src/domain/services/OpNormalizer.js\<close> (raw, persisted operations against canonical ones). An
  operation is a plain object, since it may come off the wire: \<open>fld\<close> reads its fields.
\<close>

section \<open>Operations and patches\<close>

definition js_dot :: "dot \<Rightarrow> jsval" where
  "js_dot d = JObj [(''writerId'', JStr (dot_writerId d)), (''counter'', JNum (dot_counter d))]"

definition js_str_array :: "string list \<Rightarrow> jsval" where
  "js_str_array xs = JArr (map JStr xs)"

definition createNodeAddV2 :: "string \<Rightarrow> dot \<Rightarrow> jsval" where
  "createNodeAddV2 node dot =
     JObj [(''type'', JStr ''NodeAdd''), (''node'', JStr node), (''dot'', js_dot dot)]"

definition createNodeRemoveV2 :: "string \<Rightarrow> string list \<Rightarrow> jsval" where
  "createNodeRemoveV2 node observedDots =
     JObj [(''type'', JStr ''NodeRemove''), (''node'', JStr node),
           (''observedDots'', js_str_array observedDots)]"

definition createEdgeAddV2 :: "string \<Rightarrow> string \<Rightarrow> string \<Rightarrow> dot \<Rightarrow> jsval" where
  "createEdgeAddV2 from_id to_id label dot =
     JObj [(''type'', JStr ''EdgeAdd''), (''from'', JStr from_id), (''to'', JStr to_id),
           (''label'', JStr label), (''dot'', js_dot dot)]"

text \<open>The endpoints of a removal may come from a key that was split, so they may be \<open>undefined\<close>.\<close>

definition createEdgeRemoveV2 :: "jsval \<Rightarrow> jsval \<Rightarrow> jsval \<Rightarrow> string list \<Rightarrow> jsval" where
  "createEdgeRemoveV2 from_id to_id label observedDots =
     JObj [(''type'', JStr ''EdgeRemove''), (''from'', from_id), (''to'', to_id),
           (''label'', label), (''observedDots'', js_str_array observedDots)]"

definition createPropSetV2 :: "jsval \<Rightarrow> jsval \<Rightarrow> jsval \<Rightarrow> jsval" where
  "createPropSetV2 node key value =
     JObj [(''type'', JStr ''PropSet''), (''node'', node), (''key'', key), (''value'', value)]"

definition createNodePropSetV2 :: "jsval \<Rightarrow> jsval \<Rightarrow> jsval \<Rightarrow> jsval" where
  "createNodePropSetV2 node key value =
     JObj [(''type'', JStr ''NodePropSet''), (''node'', node), (''key'', key), (''value'', value)]"

definition createEdgePropSetV2 :: "string \<Rightarrow> string \<Rightarrow> string \<Rightarrow> jsval \<Rightarrow> jsval \<Rightarrow> jsval" where
  "createEdgePropSetV2 from_id to_id label key value =
     JObj [(''type'', JStr ''EdgePropSet''), (''from'', JStr from_id), (''to'', JStr to_id),
           (''label'', JStr label), (''key'', key), (''value'', value)]"

text \<open>A patch's causal context is a \<open>Map\<close> in memory and a plain object after decoding.\<close>

datatype patch_context = CtxMap version_vector | CtxObj "(string \<times> jsval) list"

record patch =
  patch_schema :: nat
  patch_writer :: string
  patch_lamport :: int
  patch_context :: patch_context
  patch_ops :: "jsval list"
  patch_reads :: "string list option"
  patch_writes :: "string list option"

definition createPatchV2 ::
  "nat \<Rightarrow> string \<Rightarrow> int \<Rightarrow> patch_context \<Rightarrow> jsval list \<Rightarrow> string list \<Rightarrow> string list \<Rightarrow> patch" where
  "createPatchV2 schema writer lamport context ops reads writes =
     \<lparr>patch_schema = schema, patch_writer = writer, patch_lamport = lamport,
      patch_context = context, patch_ops = ops,
      patch_reads = (if length reads > 0 then Some reads else None),
      patch_writes = (if length writes > 0 then Some writes else None)\<rparr>"

section \<open>Raw and canonical forms\<close>

definition normalizeRawOp :: "jsval \<Rightarrow> jsval result" where
  "normalizeRawOp rawOp =
     (if \<not> js_truthy rawOp \<or> js_typeof rawOp \<noteq> ''object'' \<or> js_typeof (fld rawOp ''type'') \<noteq> ''string''
      then Inr rawOp
      else if fld rawOp ''type'' \<noteq> JStr ''PropSet'' then Inr rawOp
      else if isLegacyEdgePropNode (fld rawOp ''node'') then
        bind_r (decodeLegacyEdgePropNode (fld rawOp ''node'')) (\<lambda>(from_id, to_id, label).
          Inr (createEdgePropSetV2 from_id to_id label (fld rawOp ''key'') (fld rawOp ''value'')))
      else Inr (createNodePropSetV2 (fld rawOp ''node'') (fld rawOp ''key'') (fld rawOp ''value'')))"

definition lowerCanonicalOp :: "jsval \<Rightarrow> jsval" where
  "lowerCanonicalOp canonicalOp =
     (if fld canonicalOp ''type'' = JStr ''NodePropSet'' then
        createPropSetV2 (fld canonicalOp ''node'') (fld canonicalOp ''key'') (fld canonicalOp ''value'')
      else if fld canonicalOp ''type'' = JStr ''EdgePropSet'' then
        createPropSetV2
          (JStr (encodeLegacyEdgePropNode (js_str (fld canonicalOp ''from''))
             (js_str (fld canonicalOp ''to'')) (js_str (fld canonicalOp ''label''))))
          (fld canonicalOp ''key'') (fld canonicalOp ''value'')
      else canonicalOp)"

lemmas op_creators =
  createNodeAddV2_def createNodeRemoveV2_def createEdgeAddV2_def createEdgeRemoveV2_def
  createPropSetV2_def createNodePropSetV2_def createEdgePropSetV2_def

lemma dot_of_js_dot [simp]: "dot_of_js (js_dot d) = Some d"
  by (cases d) (simp add: dot_of_js_def js_dot_def)

lemma js_strings_str_array [simp]: "js_strings (js_str_array xs) = xs"
  by (simp add: js_str_array_def)

text \<open>Lowering and normalising are inverse on what the patch builder lowers.\<close>

lemma lower_node_prop:
  "no_prefix n \<Longrightarrow>
     normalizeRawOp (lowerCanonicalOp (createNodePropSetV2 (JStr n) k v)) = Inr (createNodePropSetV2 (JStr n) k v)"
  by (simp add: lowerCanonicalOp_def normalizeRawOp_def op_creators isLegacy_no_prefix)

lemma lower_edge_prop:
  assumes "no_sep f" "no_sep t" "no_sep l"
  shows "normalizeRawOp (lowerCanonicalOp (createEdgePropSetV2 f t l k v)) =
    (if f = [] \<or> t = [] \<or> l = [] then Inl (KeyErr LegacyEmptySegment)
     else Inr (createEdgePropSetV2 f t l k v))"
  by (simp add: lowerCanonicalOp_def normalizeRawOp_def op_creators legacy_roundtrip assms)

text \<open>The operations that are not property writes pass through both functions unchanged.\<close>

lemma lower_other [simp]:
  "lowerCanonicalOp (createNodeAddV2 n d) = createNodeAddV2 n d"
  "lowerCanonicalOp (createNodeRemoveV2 n ds) = createNodeRemoveV2 n ds"
  "lowerCanonicalOp (createEdgeAddV2 f t l d) = createEdgeAddV2 f t l d"
  "lowerCanonicalOp (createEdgeRemoveV2 u v w ds) = createEdgeRemoveV2 u v w ds"
  by (simp_all add: lowerCanonicalOp_def op_creators)

lemma normalize_other [simp]:
  "normalizeRawOp (createNodeAddV2 n d) = Inr (createNodeAddV2 n d)"
  "normalizeRawOp (createNodeRemoveV2 n ds) = Inr (createNodeRemoveV2 n ds)"
  "normalizeRawOp (createEdgeAddV2 f t l d) = Inr (createEdgeAddV2 f t l d)"
  "normalizeRawOp (createEdgeRemoveV2 u v w ds) = Inr (createEdgeRemoveV2 u v w ds)"
  by (simp_all add: normalizeRawOp_def op_creators)

end
