(* ===== verification/ORSetLaws.thy ===== *)
theory ORSetLaws
  imports ORSet
begin

text \<open>
  What the observed-remove set promises its callers: the contract \<open>observed_remove\<close> with add-wins
  and observed-remove, the exact effect and the safety condition of \<open>orsetCompact\<close>, and the
  serialisation, which is a canonical form of the abstract set.
\<close>

section \<open>The contract of an observed-remove set\<close>

locale observed_remove =
  fixes inv :: "'s \<Rightarrow> bool"
    and dots :: "'s \<Rightarrow> string \<Rightarrow> string set"
    and tombs :: "'s \<Rightarrow> string set"
    and insert_dot :: "'s \<Rightarrow> string \<Rightarrow> string \<Rightarrow> 's"
    and remove_dots :: "'s \<Rightarrow> string list \<Rightarrow> 's"
    and join :: "'s \<Rightarrow> 's \<Rightarrow> 's"
    and contains :: "'s \<Rightarrow> string \<Rightarrow> bool"
  assumes contains_iff: "contains s e \<longleftrightarrow> (\<exists>d\<in>dots s e. d \<notin> tombs s)"
    and dots_insert: "dots (insert_dot s e d) f = (if f = e then insert d (dots s e) else dots s f)"
    and tombs_insert: "tombs (insert_dot s e d) = tombs s"
    and dots_remove: "dots (remove_dots s ds) f = dots s f"
    and tombs_remove: "tombs (remove_dots s ds) = tombs s \<union> set ds"
    and dots_join: "inv b \<Longrightarrow> dots (join a b) f = dots a f \<union> dots b f"
    and tombs_join: "tombs (join a b) = tombs a \<union> tombs b"
    and inv_remove: "inv s \<Longrightarrow> inv (remove_dots s ds)"
begin

lemma add_makes_present: "d \<notin> tombs s \<Longrightarrow> contains (insert_dot s e d) e"
  by (auto simp: contains_iff dots_insert tombs_insert)

lemma add_keeps_others: "f \<noteq> e \<Longrightarrow> contains (insert_dot s e d) f = contains s f"
  by (simp add: contains_iff dots_insert tombs_insert)

lemma observed_remove_absent: "dots s e - tombs s \<subseteq> set ds \<Longrightarrow> \<not> contains (remove_dots s ds) e"
  by (auto simp: contains_iff dots_remove tombs_remove)

text \<open>
  A replica that adds with a dot no remove has observed keeps the element through any merge with
  replicas that removed it concurrently.
\<close>

lemma concurrent_add_wins:
  assumes "inv b" "d \<notin> tombs a" "d \<notin> tombs b" "d \<notin> set ds"
  shows "contains (join (insert_dot a e d) (remove_dots b ds)) e"
  using assms by (auto simp: contains_iff dots_insert tombs_insert dots_remove tombs_remove
      dots_join tombs_join inv_remove)

lemma observed_remove_wins:
  assumes "inv b" "dots a e \<subseteq> tombs a \<union> set ds" "dots b e \<subseteq> tombs b \<union> set ds"
  shows "\<not> contains (join a (remove_dots b ds)) e"
  using assms by (auto simp: contains_iff dots_remove tombs_remove dots_join tombs_join inv_remove)

end

interpretation rset: observed_remove orset_wf orset_dots orset_tombs orset_insert orsetRemove
    orsetJoin orsetContains
  by unfold_locales (simp_all add: orsetContains_iff orsetJoin_dots orsetRemove_wf)

section \<open>Compaction\<close>

definition compactable :: "orset \<Rightarrow> version_vector \<Rightarrow> string \<Rightarrow> bool" where
  "compactable s vv d \<longleftrightarrow> d \<in> orset_tombs s \<and>
     (case decodeDot d of Inl _ \<Rightarrow> False | Inr dot \<Rightarrow> vvContains vv dot)"

text \<open>The dots that a compaction forgets.\<close>

definition orset_forgotten :: "orset \<Rightarrow> version_vector \<Rightarrow> string set" where
  "orset_forgotten s vv = {d. compactable s vv d \<and> (\<exists>e. d \<in> orset_dots s e)}"

lemma entry_pairs_set: "orset_wf s \<Longrightarrow> set (entry_pairs s) = {(e, d). d \<in> orset_dots s e}"
proof -
  assume "orset_wf s"
  then have wf: "map_wf (entries s)"
    by (simp add: orset_wf_def)
  have "set (entry_pairs s) = {(e, d). \<exists>ds. (e, ds) \<in> set (entries s) \<and> d \<in> set ds}"
    by (auto simp: entry_pairs_def)
  also have "\<dots> = {(e, d). d \<in> orset_dots s e}"
    unfolding map_of_eq_Some_iff [OF wf, symmetric] by (auto simp: orset_dots_def split: option.splits)
  finally show ?thesis .
qed

lemma compact_collect_step:
  "decodeDot (snd p) = Inr dot \<Longrightarrow>
     compact_collect s vv acc p = Inr (acc @ filter (compactable s vv \<circ> snd) [p])"
  by (simp add: compact_collect_def compactable_def orset_tombs_def)

lemma compact_collect_filter:
  "fold_r (compact_collect s vv) acc ps = Inr td \<Longrightarrow> td = acc @ filter (compactable s vv \<circ> snd) ps"
proof (induction ps arbitrary: acc)
  case Nil
  then show ?case by simp
next
  case (Cons p ps)
  from Cons.prems obtain dot where d: "decodeDot (snd p) = Inr dot"
    by (auto simp: compact_collect_def bind_r_assoc bind_r_Inr_iff)
  then have "fold_r (compact_collect s vv) (acc @ filter (compactable s vv \<circ> snd) [p]) ps = Inr td"
    using Cons.prems by (simp add: compact_collect_step)
  from Cons.IH [OF this] show ?case by simp
qed

lemma compact_collect_ok:
  "is_ok (fold_r (compact_collect s vv) acc ps) \<longleftrightarrow> (\<forall>p\<in>set ps. is_ok (decodeDot (snd p)))"
proof (induction ps arbitrary: acc)
  case Nil
  then show ?case by simp
next
  case (Cons p ps)
  then show ?case
    by (cases "decodeDot (snd p)") (simp_all add: compact_collect_def)
qed

lemma compact_delete_wf: "orset_wf s \<Longrightarrow> orset_wf (compact_delete s p)"
  by (auto simp: orset_wf_def compact_delete_def Let_def split: option.splits if_splits)

lemma compact_delete_dots:
  "orset_dots (compact_delete s p) e = (if e = fst p then orset_dots s e - {snd p} else orset_dots s e)"
proof -
  have "set_delete ds x = [] \<Longrightarrow> set ds - {x} = {}" for ds and x :: string
    by (metis empty_set set_delete_set)
  then show ?thesis
    by (auto simp: orset_dots_def compact_delete_def Let_def split: option.splits if_splits)
qed

lemma compact_delete_tombs: "orset_tombs (compact_delete s p) = orset_tombs s - {snd p}"
  by (simp add: orset_tombs_def compact_delete_def Let_def)

lemma compact_deletes:
  "orset_dots (foldl compact_delete s td) e = orset_dots s e - {d. (e, d) \<in> set td} \<and>
   orset_tombs (foldl compact_delete s td) = orset_tombs s - snd ` set td \<and>
   (orset_wf s \<longrightarrow> orset_wf (foldl compact_delete s td))"
  by (induction td arbitrary: s)
    (auto simp: compact_delete_dots compact_delete_tombs compact_delete_wf)

lemma orsetCompact_effect:
  assumes "orset_wf s" "orsetCompact s vv = Inr s'"
  shows "orset_wf s'"
    and "orset_dots s' e = orset_dots s e - orset_forgotten s vv"
    and "orset_tombs s' = orset_tombs s - orset_forgotten s vv"
proof -
  let ?td = "filter (compactable s vv \<circ> snd) (entry_pairs s)"
  have s': "s' = foldl compact_delete s ?td"
    using assms(2) by (auto simp: orsetCompact_def bind_r_Inr_iff dest!: compact_collect_filter)
  have td: "set ?td = {(e, d). d \<in> orset_dots s e \<and> compactable s vv d}"
    by (auto simp: entry_pairs_set [OF assms(1)])
  show "orset_wf s'"
    using compact_deletes [of s ?td] assms(1) by (simp add: s')
  show "orset_dots s' e = orset_dots s e - orset_forgotten s vv"
    using conjunct1 [OF compact_deletes [of s ?td e]] unfolding s' td
    by (auto simp: orset_forgotten_def)
  have "snd ` set ?td = orset_forgotten s vv"
    unfolding td orset_forgotten_def by force
  then show "orset_tombs s' = orset_tombs s - orset_forgotten s vv"
    using compact_deletes [of s ?td] by (simp add: s')
qed

lemma orsetCompact_ok_iff:
  "orset_wf s \<Longrightarrow> is_ok (orsetCompact s vv) \<longleftrightarrow> (\<forall>e. \<forall>d\<in>orset_dots s e. is_ok (decodeDot d))"
proof -
  assume wf: "orset_wf s"
  have "is_ok (orsetCompact s vv) \<longleftrightarrow> is_ok (fold_r (compact_collect s vv) [] (entry_pairs s))"
    by (cases "fold_r (compact_collect s vv) [] (entry_pairs s)") (simp_all add: orsetCompact_def)
  then show ?thesis
    using compact_collect_ok [of s vv "[]" "entry_pairs s"] entry_pairs_set [OF wf] by auto
qed

lemma forgotten_tombs: "orset_forgotten s vv \<subseteq> orset_tombs s"
  by (auto simp: orset_forgotten_def compactable_def)

text \<open>Compaction never changes what a reader sees.\<close>

lemma orsetCompact_contains:
  assumes "orset_wf s" "orsetCompact s vv = Inr s'"
  shows "orsetContains s' e = orsetContains s e"
  using forgotten_tombs [of s vv]
  by (auto simp: orsetContains_iff orsetCompact_effect [OF assms])

text \<open>
  It is invisible to a later merge as long as the other replica holds no forgotten dot without
  its tombstone; otherwise the merge brings the removed element back.
\<close>

lemma orsetCompact_merge_safe:
  assumes "orset_wf s" "orset_wf b" "orsetCompact s vv = Inr s'"
    and "\<forall>d\<in>orset_forgotten s vv. \<forall>e. d \<in> orset_dots b e \<longrightarrow> d \<in> orset_tombs b"
  shows "orsetContains (orsetJoin s' b) e = orsetContains (orsetJoin s b) e"
proof -
  note eff = orsetCompact_effect [OF assms(1,3)]
  show ?thesis
    using assms(4) forgotten_tombs [of s vv]
    by (auto simp: orsetContains_iff orsetJoin_dots [OF assms(2)] eff(2,3))
qed

lemma orsetCompact_resurrects:
  assumes "orset_wf s" "orset_wf b" "orsetCompact s vv = Inr s'"
    and "d \<in> orset_forgotten s vv" "d \<in> orset_dots b e" "d \<notin> orset_tombs b"
  shows "orsetContains (orsetJoin s' b) e"
proof -
  note eff = orsetCompact_effect [OF assms(1,3)]
  show ?thesis
    using assms(4-6) by (auto simp: orsetContains_iff orsetJoin_dots [OF assms(2)] eff(2,3))
qed

section \<open>Serialisation\<close>

definition dot_encoded :: "string \<Rightarrow> bool" where
  "dot_encoded e \<longleftrightarrow> (\<exists>d. dot_valid d \<and> e = encodeDot d)"

definition dots_encoded :: "orset \<Rightarrow> bool" where
  "dots_encoded s \<longleftrightarrow> (\<forall>e. \<forall>d\<in>orset_dots s e. dot_encoded d) \<and> (\<forall>d\<in>orset_tombs s. dot_encoded d)"

definition decoded :: "string \<Rightarrow> dot" where
  "decoded e = (case decodeDot e of Inr d \<Rightarrow> d | Inl _ \<Rightarrow> Dot [] 0)"

lemma sort_key_pairs:
  "sort_key snd (map (\<lambda>e. (e, f e)) xs) = map (\<lambda>e. (e, f e)) (sort_key f xs)"
proof (induction xs)
  case Nil
  then show ?case by simp
next
  case (Cons x xs)
  have "insort_key snd (x, f x) (map (\<lambda>e. (e, f e)) ys) = map (\<lambda>e. (e, f e)) (insort_key f x ys)" for ys
    by (induction ys) auto
  with Cons show ?case by simp
qed

lemma encode_decoded: "dot_encoded e \<Longrightarrow> encodeDot (decoded e) = e"
  by (auto simp: dot_encoded_def decoded_def decode_encode_dot)

lemma decoded_inj: "\<forall>d\<in>A. dot_encoded d \<Longrightarrow> inj_on decoded A"
  by (metis encode_decoded inj_onI)

lemma sort_encoded_eq:
  assumes "\<forall>d\<in>set ds. dot_encoded d"
  shows "sort_encoded ds = Inr (sort_key decoded ds)"
proof -
  have "map_r (\<lambda>e. bind_r (decodeDot e) (\<lambda>d. Inr (e, d))) ds = Inr (map (\<lambda>e. (e, decoded e)) ds)"
    using assms by (intro map_r_ok) (auto simp: dot_encoded_def decoded_def decode_encode_dot)
  moreover have "sort_by (\<lambda>a b. compareDots (snd a) (snd b)) (map (\<lambda>e. (e, decoded e)) ds)
      = map (\<lambda>e. (e, decoded e)) (sort_key decoded ds)"
    by (simp add: sort_by_compareDots sort_key_pairs)
  ultimately show ?thesis
    by (simp add: sort_encoded_def comp_def)
qed

text \<open>The canonical form: entries by element, dots by decoded dot.\<close>

lemma orsetSerialize_eq:
  assumes "orset_wf s" "dots_encoded s"
  shows "orsetSerialize s =
    Inr \<lparr>ser_entries = sort_key fst (map (\<lambda>(e, ds). (e, sort_key decoded ds)) (entries s)),
         ser_tombstones = sort_key decoded (tombstones s)\<rparr>"
proof -
  have "dot_encoded d" if "(e, ds) \<in> set (entries s)" "d \<in> set ds" for e ds d
  proof -
    have "map_wf (entries s)"
      using assms(1) by (simp add: orset_wf_def)
    then have "map_of (entries s) e = Some ds"
      using that(1) by (rule map_of_is_SomeI)
    then have "d \<in> orset_dots s e"
      using that(2) by (simp add: orset_dots_def)
    then show ?thesis
      using assms(2) by (simp add: dots_encoded_def)
  qed
  then have "map_r (\<lambda>(element, dots). bind_r (sort_encoded dots) (\<lambda>ds. Inr (element, ds))) (entries s)
      = Inr (map (\<lambda>(e, ds). (e, sort_key decoded ds)) (entries s))"
    by (intro map_r_ok) (auto simp: sort_encoded_eq)
  moreover have "sort_encoded (tombstones s) = Inr (sort_key decoded (tombstones s))"
    using assms(2) by (intro sort_encoded_eq) (simp add: dots_encoded_def orset_tombs_def)
  ultimately show ?thesis
    by (simp add: orsetSerialize_def sort_by_str_key)
qed

text \<open>Equal abstract sets have equal serialisations, whatever order the operations came in.\<close>

lemma orsetSerialize_canonical:
  assumes wf: "orset_wf a" "orset_wf b" and enc: "dots_encoded a" "dots_encoded b"
    and eq: "orset_abs a = orset_abs b"
  shows "orsetSerialize a = orsetSerialize b"
proof -
  let ?f = "\<lambda>(e :: string, ds). (e, sort_key decoded ds)"
  have perm: "sort_key decoded xs = sort_key decoded ys"
    if "distinct xs" "distinct ys" "set xs = set ys" "\<forall>d\<in>set xs. dot_encoded d" for xs ys
    using that by (intro sort_key_perm_eq decoded_inj) (auto simp: set_eq_iff_mset_eq_distinct)
  have keys: "map_wf (map ?f (entries s))" if "orset_wf s" for s
    using that by (simp add: orset_wf_def comp_def case_prod_unfold)
  have look: "map_of (map ?f m) e = map_option (sort_key decoded) (map_of m e)" for m e
    by (simp add: map_of_map)
  have "map_option (sort_key decoded) (map_of (entries a) e)
      = map_option (sort_key decoded) (map_of (entries b) e)" for e
  proof (cases "map_of (entries a) e")
    case None
    then show ?thesis
      using eq by (auto simp: orset_abs_def orset_entries_abs_def dest!: fun_cong [of _ _ e])
  next
    case (Some xs)
    obtain ys where ys: "map_of (entries b) e = Some ys" "set xs = set ys"
      using eq Some by (cases "map_of (entries b) e")
        (auto simp: orset_abs_def orset_entries_abs_def dest!: fun_cong [of _ _ e])
    have "orset_dots a e = set xs"
      using Some by (simp add: orset_dots_def)
    then have "\<forall>d\<in>set xs. dot_encoded d"
      using enc(1) by (auto simp: dots_encoded_def)
    moreover have "distinct xs" "distinct ys"
      using wf Some ys(1) unfolding orset_wf_def by blast+
    ultimately show ?thesis
      using Some ys perm [of xs ys] by simp
  qed
  then have "map_of (map ?f (entries a)) = map_of (map ?f (entries b))"
    by (simp add: look fun_eq_iff)
  then have ms: "mset (map ?f (entries a)) = mset (map ?f (entries b))"
    using keys wf by (intro map_wf_mset_eq)
  have "inj_on fst (set (map ?f (entries a)))"
    using keys [OF wf(1)] unfolding distinct_map [of fst] by (rule conjunct2)
  with ms have "sort_key fst (map ?f (entries a)) = sort_key fst (map ?f (entries b))"
    by (rule sort_key_perm_eq)
  moreover have "sort_key decoded (tombstones a) = sort_key decoded (tombstones b)"
    using wf enc(1) eq unfolding orset_wf_def orset_abs_def orset_tombs_def dots_encoded_def
    by (intro perm) simp_all
  ultimately show ?thesis
    using orsetSerialize_eq wf enc by simp
qed

text \<open>Reading a serialisation back gives the same abstract set.\<close>

definition read_ser :: "orset_ser \<Rightarrow> orset" where
  "read_ser j = orsetDeserialize (Some (map (\<lambda>(e, ds). (e, Some ds)) (ser_entries j))) (Some (ser_tombstones j))"

lemma read_entries:
  "foldl (\<lambda>m (element, dots). case dots of None \<Rightarrow> m | Some ds \<Rightarrow> map_set m element (set_of ds)) m0
     (map (\<lambda>(e, ds). (e, Some ds)) es) = map_merge (\<lambda>_ ds. set_of ds) m0 es"
  by (induction es arbitrary: m0) (auto simp: map_merge_def)

lemma orset_roundtrip:
  assumes "orset_wf s" "dots_encoded s" "orsetSerialize s = Inr j"
  shows "orset_abs (read_ser j) = orset_abs s" and "orset_wf (read_ser j)"
proof -
  let ?es = "map (\<lambda>(e, ds). (e, sort_key decoded ds)) (entries s)"
  have j: "j = \<lparr>ser_entries = sort_key fst ?es, ser_tombstones = sort_key decoded (tombstones s)\<rparr>"
    using orsetSerialize_eq [OF assms(1,2)] assms(3) by simp
  have wf: "map_wf ?es"
    using assms(1) by (simp add: orset_wf_def comp_def case_prod_unfold)
  have ms: "mset (map fst (sort_key fst ?es)) = mset (map fst ?es)"
    by (simp only: mset_map mset_sort)
  have wf': "map_wf (sort_key fst ?es)"
    using mset_eq_imp_distinct_iff [OF ms] wf by blast
  have "map_of (sort_key fst ?es) e = map_of ?es e" for e
    using map_of_inject_set [OF wf' wf] by simp
  moreover have "map_of ?es e = map_option (sort_key decoded) (map_of (entries s) e)" for e
    by (simp add: map_of_map)
  ultimately have look: "map_of (sort_key fst ?es) e = map_option (sort_key decoded) (map_of (entries s) e)" for e
    by simp
  have r: "read_ser j = \<lparr>entries = map_merge (\<lambda>_ ds. set_of ds) [] (sort_key fst ?es),
      tombstones = set_of (sort_key decoded (tombstones s))\<rparr>"
    by (simp add: read_ser_def orsetDeserialize_def read_entries j)
  show "orset_abs (read_ser j) = orset_abs s"
    by (auto simp: r orset_abs_def orset_entries_abs_def orset_tombs_def map_of_map_merge [OF wf'] look
        fun_eq_iff split: option.splits)
  show "orset_wf (read_ser j)"
    by (auto simp: r orset_wf_def map_of_map_merge [OF wf'] split: option.splits)
qed

end
