(* ===== verification/JoinReducer.thy ===== *)
theory JoinReducer
  imports Ops ORSetLaws
begin

text \<open>
  \<open>src/domain/services/JoinReducer.js\<close>, first part: the replicated state, the validation and the
  application of one operation, of one patch, and the merge of two states. A throw is an
  \<open>Inl\<close>; the partly updated state is then lost, as it is for the callers, which reduce into a
  clone.
\<close>

record warp_state =
  nodeAlive :: orset
  edgeAlive :: orset
  propMap :: "(string, lww_register) jsmap"
  observedFrontier :: version_vector
  edgeBirthEvent :: "(string, event_id) jsmap"

definition createEmptyStateV5 :: warp_state where
  "createEmptyStateV5 =
     \<lparr>nodeAlive = createORSet, edgeAlive = createORSet, propMap = [],
      observedFrontier = createVersionVector, edgeBirthEvent = []\<rparr>"

section \<open>Known operation types and validation\<close>

definition RAW_KNOWN_OPS :: "string list" where
  "RAW_KNOWN_OPS =
     [''NodeAdd'', ''NodeRemove'', ''EdgeAdd'', ''EdgeRemove'', ''PropSet'', ''BlobValue'']"

definition CANONICAL_KNOWN_OPS :: "string list" where
  "CANONICAL_KNOWN_OPS =
     [''NodeAdd'', ''NodeRemove'', ''EdgeAdd'', ''EdgeRemove'',
      ''PropSet'', ''NodePropSet'', ''EdgePropSet'', ''BlobValue'']"

definition isKnownRawOp :: "jsval \<Rightarrow> bool" where
  "isKnownRawOp op \<longleftrightarrow>
     js_truthy op \<and> js_is_str (fld op ''type'') \<and> js_str (fld op ''type'') \<in> set RAW_KNOWN_OPS"

definition isKnownCanonicalOp :: "jsval \<Rightarrow> bool" where
  "isKnownCanonicalOp op \<longleftrightarrow>
     js_truthy op \<and> js_is_str (fld op ''type'') \<and> js_str (fld op ''type'') \<in> set CANONICAL_KNOWN_OPS"

definition isKnownOp :: "jsval \<Rightarrow> bool" where
  "isKnownOp op = isKnownRawOp op"

definition requireString :: "jsval \<Rightarrow> string \<Rightarrow> unit result" where
  "requireString op field =
     (if js_typeof (fld op field) \<noteq> ''string''
      then Inl (PatchErr (FieldNotString (js_str (fld op ''type'')) field)) else Inr ())"

definition requireIterable :: "jsval \<Rightarrow> string \<Rightarrow> unit result" where
  "requireIterable op field =
     (if js_iterate (fld op field) = None
      then Inl (PatchErr (FieldNotIterable (js_str (fld op ''type'')) field)) else Inr ())"

definition requireDot :: "jsval \<Rightarrow> unit result" where
  "requireDot op =
     (let dot = fld op ''dot''; t = js_str (fld op ''type'')
      in if \<not> js_truthy dot \<or> js_typeof dot \<noteq> ''object'' then Inl (PatchErr (DotNotObject t))
         else if js_typeof (fld dot ''writerId'') \<noteq> ''string'' then Inl (PatchErr (DotWriterNotString t))
         else if js_typeof (fld dot ''counter'') \<noteq> ''number'' then Inl (PatchErr (DotCounterNotNumber t))
         else Inr ())"

fun in_order :: "unit result list \<Rightarrow> unit result" where
  "in_order [] = Inr ()"
| "in_order (c # cs) = bind_r c (\<lambda>_. in_order cs)"

definition validateOp :: "jsval \<Rightarrow> unit result" where
  "validateOp op =
     (if \<not> js_truthy op \<or> js_typeof (fld op ''type'') \<noteq> ''string'' then Inl (PatchErr OpNotTyped)
      else
        let t = js_str (fld op ''type'')
        in if t = ''NodeAdd'' then in_order [requireString op ''node'', requireDot op]
           else if t = ''NodeRemove'' then requireIterable op ''observedDots''
           else if t = ''EdgeAdd'' then
             in_order [requireString op ''from'', requireString op ''to'',
                       requireString op ''label'', requireDot op]
           else if t = ''EdgeRemove'' then requireIterable op ''observedDots''
           else if t = ''PropSet'' then in_order [requireString op ''node'', requireString op ''key'']
           else if t = ''NodePropSet'' then in_order [requireString op ''node'', requireString op ''key'']
           else if t = ''EdgePropSet'' then
             in_order [requireString op ''from'', requireString op ''to'',
                       requireString op ''label'', requireString op ''key'']
           else Inr ())"

section \<open>Applying one operation\<close>

definition setProp :: "warp_state \<Rightarrow> string \<Rightarrow> event_id \<Rightarrow> jsval \<Rightarrow> warp_state" where
  "setProp st key eventId value =
     (case lwwMax (map_of (propMap st) key) (Some (lwwSet eventId value)) of
        None \<Rightarrow> st
      | Some r \<Rightarrow> st\<lparr>propMap := map_set (propMap st) key r\<rparr>)"

definition trackBirth :: "(string, event_id) jsmap \<Rightarrow> string \<Rightarrow> event_id \<Rightarrow> (string, event_id) jsmap" where
  "trackBirth births edgeKey eventId =
     (case map_of births edgeKey of
        None \<Rightarrow> map_set births edgeKey eventId
      | Some prev \<Rightarrow> if compareEventIds eventId prev > 0 then map_set births edgeKey eventId else births)"

definition edge_key_of :: "jsval \<Rightarrow> string" where
  "edge_key_of op = encodeEdgeKey (js_str (fld op ''from'')) (js_str (fld op ''to'')) (js_str (fld op ''label''))"

definition node_prop_key :: "jsval \<Rightarrow> string" where
  "node_prop_key op = encodePropKey (js_str (fld op ''node'')) (js_str (fld op ''key''))"

definition edge_prop_key :: "jsval \<Rightarrow> string" where
  "edge_prop_key op = encodeEdgePropKey (js_str (fld op ''from'')) (js_str (fld op ''to''))
     (js_str (fld op ''label'')) (js_str (fld op ''key''))"

definition applyOpV2 :: "warp_state \<Rightarrow> jsval \<Rightarrow> event_id \<Rightarrow> warp_state result" where
  "applyOpV2 st op eventId =
     bind_r (validateOp op) (\<lambda>_.
       let t = js_str (fld op ''type'')
       in if t = ''NodeAdd'' then
            bind_r (orsetAdd (nodeAlive st) (js_str (fld op ''node'')) (fld op ''dot''))
              (\<lambda>s. Inr (st\<lparr>nodeAlive := s\<rparr>))
          else if t = ''NodeRemove'' then
            Inr (st\<lparr>nodeAlive := orsetRemove (nodeAlive st) (js_strings (fld op ''observedDots''))\<rparr>)
          else if t = ''EdgeAdd'' then
            let edgeKey = edge_key_of op
            in bind_r (orsetAdd (edgeAlive st) edgeKey (fld op ''dot''))
                 (\<lambda>s. Inr (st\<lparr>edgeAlive := s,
                              edgeBirthEvent := trackBirth (edgeBirthEvent st) edgeKey eventId\<rparr>))
          else if t = ''EdgeRemove'' then
            Inr (st\<lparr>edgeAlive := orsetRemove (edgeAlive st) (js_strings (fld op ''observedDots''))\<rparr>)
          else if t = ''NodePropSet'' then
            Inr (setProp st (node_prop_key op) eventId (fld op ''value''))
          else if t = ''EdgePropSet'' then
            Inr (setProp st (edge_prop_key op) eventId (fld op ''value''))
          else if t = ''PropSet'' then
            (if isLegacyEdgePropNode (fld op ''node'') then Inl (PatchErr UnnormalizedPropSet)
             else Inr (setProp st (node_prop_key op) eventId (fld op ''value'')))
          else Inr st)"

section \<open>Applying a patch\<close>

definition foldPatchDot :: "version_vector \<Rightarrow> string \<Rightarrow> int \<Rightarrow> version_vector" where
  "foldPatchDot frontier writer lamport =
     (let current = vv_get frontier writer
      in if lamport > current then map_set frontier writer lamport else frontier)"

definition contextVV :: "patch_context \<Rightarrow> version_vector result" where
  "contextVV c = (case c of CtxMap vv \<Rightarrow> Inr vv | CtxObj obj \<Rightarrow> vvDeserialize obj)"

definition updateFrontierFromPatch :: "warp_state \<Rightarrow> patch \<Rightarrow> warp_state result" where
  "updateFrontierFromPatch st p =
     bind_r (contextVV (patch_context p)) (\<lambda>cvv.
       Inr (st\<lparr>observedFrontier :=
         foldPatchDot (vvMerge (observedFrontier st) cvv) (patch_writer p) (patch_lamport p)\<rparr>))"

definition op_event :: "patch \<Rightarrow> string \<Rightarrow> nat \<Rightarrow> event_id result" where
  "op_event p sha i =
     createEventId (JNum (patch_lamport p)) (JStr (patch_writer p)) (JStr sha) (JNum (int i))"

definition applyFast_op :: "patch \<Rightarrow> string \<Rightarrow> warp_state \<Rightarrow> nat \<times> jsval \<Rightarrow> warp_state result" where
  "applyFast_op p sha st iop =
     bind_r (op_event p sha (fst iop)) (\<lambda>eventId.
       bind_r (normalizeRawOp (snd iop)) (\<lambda>op. applyOpV2 st op eventId))"

definition applyFast :: "warp_state \<Rightarrow> patch \<Rightarrow> string \<Rightarrow> warp_state result" where
  "applyFast st p patchSha =
     bind_r (fold_r (applyFast_op p patchSha) st (List.enumerate 0 (patch_ops p)))
       (\<lambda>st'. updateFrontierFromPatch st' p)"

section \<open>Merging two states\<close>

definition mergeProps ::
  "(string, lww_register) jsmap \<Rightarrow> (string, lww_register) jsmap \<Rightarrow> (string, lww_register) jsmap" where
  "mergeProps a b = map_merge (\<lambda>regA regB. the (lwwMax regA (Some regB))) a b"

definition mergeEdgeBirthEvent ::
  "(string, event_id) jsmap \<Rightarrow> (string, event_id) jsmap \<Rightarrow> (string, event_id) jsmap" where
  "mergeEdgeBirthEvent a b = foldl (\<lambda>r (key, eventId). trackBirth r key eventId) a b"

definition joinStates :: "warp_state \<Rightarrow> warp_state \<Rightarrow> warp_state" where
  "joinStates a b =
     \<lparr>nodeAlive = orsetJoin (nodeAlive a) (nodeAlive b),
      edgeAlive = orsetJoin (edgeAlive a) (edgeAlive b),
      propMap = mergeProps (propMap a) (propMap b),
      observedFrontier = vvMerge (observedFrontier a) (observedFrontier b),
      edgeBirthEvent = mergeEdgeBirthEvent (edgeBirthEvent a) (edgeBirthEvent b)\<rparr>"

definition cloneStateV5 :: "warp_state \<Rightarrow> warp_state" where
  "cloneStateV5 st =
     \<lparr>nodeAlive = orsetClone (nodeAlive st), edgeAlive = orsetClone (edgeAlive st),
      propMap = propMap st, observedFrontier = vvClone (observedFrontier st),
      edgeBirthEvent = edgeBirthEvent st\<rparr>"

lemma cloneStateV5_id [simp]: "cloneStateV5 st = st"
  by (simp add: cloneStateV5_def orsetClone_def vvClone_def)

section \<open>The effect of an operation\<close>

text \<open>
  What a valid operation does, with its fields read and its dot encoded. Validation depends on the
  operation only; the effect is a total function of the state.
\<close>

datatype op_effect =
    AddNode string string
  | TombNodes "string list"
  | AddEdge string string
  | TombEdges "string list"
  | WriteProp string jsval
  | NoEffect

definition dotted :: "jsval \<Rightarrow> (string \<Rightarrow> op_effect) \<Rightarrow> op_effect result" where
  "dotted dot f = (case dot_of_js dot of None \<Rightarrow> Inl OrsetInvalidDot | Some d \<Rightarrow> Inr (f (encodeDot d)))"

definition effect_of :: "jsval \<Rightarrow> op_effect result" where
  "effect_of op =
     bind_r (validateOp op) (\<lambda>_.
       let t = js_str (fld op ''type'')
       in if t = ''NodeAdd'' then dotted (fld op ''dot'') (AddNode (js_str (fld op ''node'')))
          else if t = ''NodeRemove'' then Inr (TombNodes (js_strings (fld op ''observedDots'')))
          else if t = ''EdgeAdd'' then dotted (fld op ''dot'') (AddEdge (edge_key_of op))
          else if t = ''EdgeRemove'' then Inr (TombEdges (js_strings (fld op ''observedDots'')))
          else if t = ''NodePropSet'' then Inr (WriteProp (node_prop_key op) (fld op ''value''))
          else if t = ''EdgePropSet'' then Inr (WriteProp (edge_prop_key op) (fld op ''value''))
          else if t = ''PropSet'' then
            (if isLegacyEdgePropNode (fld op ''node'') then Inl (PatchErr UnnormalizedPropSet)
             else Inr (WriteProp (node_prop_key op) (fld op ''value'')))
          else Inr NoEffect)"

fun run_effect :: "event_id \<Rightarrow> warp_state \<Rightarrow> op_effect \<Rightarrow> warp_state" where
  "run_effect e st (AddNode n d) = st\<lparr>nodeAlive := orset_insert (nodeAlive st) n d\<rparr>"
| "run_effect e st (TombNodes ds) = st\<lparr>nodeAlive := orsetRemove (nodeAlive st) ds\<rparr>"
| "run_effect e st (AddEdge k d) =
     st\<lparr>edgeAlive := orset_insert (edgeAlive st) k d,
        edgeBirthEvent := trackBirth (edgeBirthEvent st) k e\<rparr>"
| "run_effect e st (TombEdges ds) = st\<lparr>edgeAlive := orsetRemove (edgeAlive st) ds\<rparr>"
| "run_effect e st (WriteProp k v) = setProp st k e v"
| "run_effect e st NoEffect = st"

lemma applyOpV2_effect:
  "applyOpV2 st op e = bind_r (effect_of op) (\<lambda>eff. Inr (run_effect e st eff))"
proof (cases "validateOp op")
  case (Inl err)
  then show ?thesis by (simp add: applyOpV2_def effect_of_def)
next
  case (Inr u)
  then show ?thesis
    by (simp add: applyOpV2_def effect_of_def Let_def dotted_def orsetAdd_def split: option.split)
qed

text \<open>Validity of a raw operation, and the effect it has after normalisation.\<close>

definition raw_effect :: "jsval \<Rightarrow> op_effect result" where
  "raw_effect op = bind_r (normalizeRawOp op) effect_of"

lemma applyFast_op_effect:
  "applyFast_op p sha st iop =
     bind_r (op_event p sha (fst iop)) (\<lambda>e. bind_r (raw_effect (snd iop)) (\<lambda>eff. Inr (run_effect e st eff)))"
  by (cases "op_event p sha (fst iop)"; cases "normalizeRawOp (snd iop)")
    (simp_all add: applyFast_op_def raw_effect_def applyOpV2_effect)

end
