(* ===== verification/Convergence.thy ===== *)
theory Convergence
  imports JoinReducer
begin

text \<open>
  Strong eventual consistency of the reducer of \<open>src/domain/services/JoinReducer.js\<close>.

  \<^item> \<open>state_abs\<close> is what a reader of a state can observe, \<open>state_from wr\<close> its invariant: the
    registers hold what \<open>wr\<close> says their event wrote.
  \<^item> \<open>joinStates\<close> is a semilattice with \<open>createEmptyStateV5\<close> at the bottom (interpretation
    \<open>states\<close>); applying one effect (\<open>effects\<close>) or one patch (\<open>patches\<close>) is joining a delta, so the
    order, the grouping and the repetition of deliveries do not matter.
  \<^item> the last section reads the reduced state off the set of the events of a log: which elements
    are alive, which write won, which counter was seen.
\<close>

section \<open>Invariant and observation\<close>

definition state_wf :: "warp_state \<Rightarrow> bool" where
  "state_wf st \<longleftrightarrow> orset_wf (nodeAlive st) \<and> orset_wf (edgeAlive st) \<and> map_wf (propMap st) \<and>
     vv_wf (observedFrontier st) \<and> map_wf (edgeBirthEvent st)"

type_synonym state_view =
  "((string \<Rightarrow> string set option) \<times> string set) \<times> ((string \<Rightarrow> string set option) \<times> string set) \<times>
   (string \<Rightarrow> lww_register option) \<times> (string \<Rightarrow> int option) \<times> (string \<Rightarrow> event_id option)"

definition state_abs :: "warp_state \<Rightarrow> state_view" where
  "state_abs st = (orset_abs (nodeAlive st), orset_abs (edgeAlive st), map_of (propMap st),
     map_of (observedFrontier st), map_of (edgeBirthEvent st))"

definition state_from :: "(string \<Rightarrow> event_id \<Rightarrow> jsval) \<Rightarrow> warp_state \<Rightarrow> bool" where
  "state_from wr st \<longleftrightarrow> state_wf st \<and> regs.carried wr (map_of (propMap st))"

lemma createEmptyStateV5_wf [simp, wf_intros]: "state_wf createEmptyStateV5"
  by (simp add: state_wf_def createEmptyStateV5_def)

lemma createEmptyStateV5_from [simp]: "state_from wr createEmptyStateV5"
  by (simp add: state_from_def regs.carried_def) (simp add: createEmptyStateV5_def)

lemma createEmptyStateV5_sel [simp]:
  "nodeAlive createEmptyStateV5 = createORSet" "edgeAlive createEmptyStateV5 = createORSet"
  "propMap createEmptyStateV5 = []" "observedFrontier createEmptyStateV5 = createVersionVector"
  "edgeBirthEvent createEmptyStateV5 = []"
  by (simp_all add: createEmptyStateV5_def)

section \<open>States form a semilattice\<close>

lemma mergeProps_map_of [abs_simps]:
  "map_wf b \<Longrightarrow> map_of (mergeProps a b) = pmerge lww_pick (map_of a) (map_of b)"
  unfolding mergeProps_def by (rule map_merge_pmerge) auto

lemma mergeProps_wf [simp, wf_intros]: "map_wf a \<Longrightarrow> map_wf (mergeProps a b)"
  by (simp add: mergeProps_def)

lemma trackBirth_map_of:
  "map_of (trackBirth m k e) =
     (map_of m)(k \<mapsto> (case map_of m k of None \<Rightarrow> e | Some p \<Rightarrow> max p e))"
  by (auto simp: trackBirth_def max_def fun_eq_iff split: option.splits)

lemma trackBirth_wf [simp, wf_intros]: "map_wf m \<Longrightarrow> map_wf (trackBirth m k e)"
  by (simp add: trackBirth_def split: option.splits)

lemma mergeEdgeBirthEvent_map_of [abs_simps]:
  "map_wf b \<Longrightarrow> map_of (mergeEdgeBirthEvent a b) = pmerge max (map_of a) (map_of b)"
proof (induction b arbitrary: a)
  case Nil
  then show ?case by (simp add: mergeEdgeBirthEvent_def pmerge_def fun_eq_iff split: option.split)
next
  case (Cons kv b)
  obtain k e where kv: "kv = (k, e)" by force
  have k: "map_of b k = None"
    using Cons.prems kv by (simp add: map_of_eq_None_iff)
  have "map_of (mergeEdgeBirthEvent (trackBirth a k e) b) =
      pmerge max (map_of (trackBirth a k e)) (map_of b)"
    using Cons by simp
  moreover have "mergeEdgeBirthEvent a (kv # b) = mergeEdgeBirthEvent (trackBirth a k e) b"
    by (simp add: mergeEdgeBirthEvent_def kv)
  ultimately show ?case
    using k kv by (auto simp: pmerge_def fun_eq_iff trackBirth_map_of split: option.splits)
qed

lemma mergeEdgeBirthEvent_wf [simp, wf_intros]: "map_wf a \<Longrightarrow> map_wf (mergeEdgeBirthEvent a b)"
  unfolding mergeEdgeBirthEvent_def by (induction b arbitrary: a) auto

lemma joinStates_sel [simp]:
  "nodeAlive (joinStates a b) = orsetJoin (nodeAlive a) (nodeAlive b)"
  "edgeAlive (joinStates a b) = orsetJoin (edgeAlive a) (edgeAlive b)"
  "propMap (joinStates a b) = mergeProps (propMap a) (propMap b)"
  "observedFrontier (joinStates a b) = vvMerge (observedFrontier a) (observedFrontier b)"
  "edgeBirthEvent (joinStates a b) = mergeEdgeBirthEvent (edgeBirthEvent a) (edgeBirthEvent b)"
  by (simp_all add: joinStates_def)

lemma joinStates_wf [wf_intros]: "state_wf a \<Longrightarrow> state_wf b \<Longrightarrow> state_wf (joinStates a b)"
  by (simp add: state_wf_def orsetJoin_wf vvMerge_wf)

lemma joinStates_from:
  assumes "state_from wr a" "state_from wr b"
  shows "state_from wr (joinStates a b)"
  using assms regs.maps.inv_join [of wr "map_of (propMap a)" "map_of (propMap b)"]
  by (simp add: state_from_def joinStates_wf) (simp add: state_wf_def abs_simps)

lemma state_abs_eq_iff:
  "state_abs a = state_abs b \<longleftrightarrow>
     orset_abs (nodeAlive a) = orset_abs (nodeAlive b) \<and> orset_abs (edgeAlive a) = orset_abs (edgeAlive b) \<and>
     map_of (propMap a) = map_of (propMap b) \<and> map_of (observedFrontier a) = map_of (observedFrontier b) \<and>
     map_of (edgeBirthEvent a) = map_of (edgeBirthEvent b)"
  by (simp add: state_abs_def)

lemma pmerge_empty [simp]: "pmerge g m Map.empty = m" "pmerge g Map.empty m = m"
  by (auto simp: pmerge_def fun_eq_iff split: option.split)

lemma orset_entries_abs_create [simp]: "orset_entries_abs createORSet = Map.empty"
  by (simp add: orset_entries_abs_def createORSet_def fun_eq_iff)

lemma createVersionVector_map_of [simp]: "map_of createVersionVector = Map.empty"
  by (simp add: createVersionVector_def)

interpretation states: join_crdt_bot "state_from wr" state_abs joinStates createEmptyStateV5
  for wr :: "string \<Rightarrow> event_id \<Rightarrow> jsval"
proof (unfold_locales, goal_cases)
  case (1 a b)
  then show ?case by (rule joinStates_from)
next
  case (2 a b)
  then show ?case
    using orset.join_comm [of "nodeAlive a" "nodeAlive b"] orset.join_comm [of "edgeAlive a" "edgeAlive b"]
      vv.join_comm [of "observedFrontier a" "observedFrontier b"]
      regs.maps.join_comm [of wr "map_of (propMap a)" "map_of (propMap b)"]
      births.maps.join_comm [of "map_of (edgeBirthEvent a)" "map_of (edgeBirthEvent b)"]
    by (simp add: state_abs_eq_iff state_from_def state_wf_def births.carried_def
        mergeProps_map_of mergeEdgeBirthEvent_map_of)
next
  case (3 a b c)
  then show ?case
    using orset.join_assoc [of "nodeAlive a" "nodeAlive b" "nodeAlive c"]
      orset.join_assoc [of "edgeAlive a" "edgeAlive b" "edgeAlive c"]
      vv.join_assoc [of "observedFrontier a" "observedFrontier b" "observedFrontier c"]
      regs.maps.join_assoc [of wr "map_of (propMap a)" "map_of (propMap b)" "map_of (propMap c)"]
      births.maps.join_assoc
        [of "map_of (edgeBirthEvent a)" "map_of (edgeBirthEvent b)" "map_of (edgeBirthEvent c)"]
    by (simp add: state_abs_eq_iff state_from_def state_wf_def births.carried_def
        mergeProps_map_of mergeEdgeBirthEvent_map_of)
next
  case (4 a)
  then show ?case
    using orset.join_idem [of "nodeAlive a"] orset.join_idem [of "edgeAlive a"]
      vv.join_idem [of "observedFrontier a"] regs.maps.join_idem [of wr "map_of (propMap a)"]
      births.maps.join_idem [of "map_of (edgeBirthEvent a)"]
    by (simp add: state_abs_eq_iff state_from_def state_wf_def births.carried_def
        mergeProps_map_of mergeEdgeBirthEvent_map_of)
next
  case (5 a a' b b')
  then show ?case
    using orset.join_cong [of "nodeAlive a" "nodeAlive a'" "nodeAlive b" "nodeAlive b'"]
      orset.join_cong [of "edgeAlive a" "edgeAlive a'" "edgeAlive b" "edgeAlive b'"]
      vv.join_cong [of "observedFrontier a" "observedFrontier a'" "observedFrontier b" "observedFrontier b'"]
    by (simp add: state_abs_eq_iff state_from_def state_wf_def mergeProps_map_of mergeEdgeBirthEvent_map_of)
next
  case 6
  then show ?case by simp
next
  case (7 s)
  then show ?case
    by (simp add: state_abs_eq_iff state_from_def state_wf_def orset_abs_def orsetJoin_entries_abs
        vvMerge_map_of mergeProps_map_of mergeEdgeBirthEvent_map_of)
qed

section \<open>An operation joins its delta\<close>

text \<open>The effect writes what \<open>wr\<close> records, if it writes a property.\<close>

definition writes_as :: "(string \<Rightarrow> event_id \<Rightarrow> jsval) \<Rightarrow> event_id \<times> op_effect \<Rightarrow> bool" where
  "writes_as wr ee \<longleftrightarrow> (case snd ee of WriteProp k v \<Rightarrow> wr k (fst ee) = v | _ \<Rightarrow> True)"

definition run :: "warp_state \<Rightarrow> event_id \<times> op_effect \<Rightarrow> warp_state result" where
  "run st ee = Inr (run_effect (fst ee) st (snd ee))"

definition effect_delta :: "event_id \<times> op_effect \<Rightarrow> warp_state" where
  "effect_delta ee = run_effect (fst ee) createEmptyStateV5 (snd ee)"

lemma setProp_eq:
  "setProp st k e v = st\<lparr>propMap := map_set (propMap st) k
     (case map_of (propMap st) k of None \<Rightarrow> lwwSet e v | Some r \<Rightarrow> lww_pick r (lwwSet e v))\<rparr>"
  by (simp add: setProp_def split: option.split)

lemma lwwSet_eventId [simp]: "reg_eventId (lwwSet e v) = e" "reg_value (lwwSet e v) = v"
  by (simp_all add: lwwSet_def)

lemma run_effect_wf [wf_intros]: "state_wf st \<Longrightarrow> state_wf (run_effect e st eff)"
  by (cases eff) (simp_all add: state_wf_def setProp_eq orset_insert_wf orsetRemove_wf)

lemma run_effect_from:
  "state_from wr st \<Longrightarrow> writes_as wr (e, eff) \<Longrightarrow> state_from wr (run_effect e st eff)"
  using run_effect_wf [of st e eff]
  by (cases eff)
    (auto simp: state_from_def regs.carried_def writes_as_def setProp_eq written_def lww_pick_def
      split: option.splits)

lemma orset_insert_entries_abs:
  "orset_entries_abs (orset_insert s e d) = (orset_entries_abs s)(e \<mapsto> insert d (orset_dots s e))"
  using orset_insert_abs [of s e d] by (simp add: orset_abs_def)

lemma orset_insert_is_join:
  "orset_wf s \<Longrightarrow> orset_abs (orset_insert s e d) = orset_abs (orsetJoin s (orset_insert createORSet e d))"
  by (simp add: orset_abs_def orsetJoin_entries_abs orset_insert_wf orset_insert_entries_abs)
    (auto simp: pmerge_def fun_eq_iff orset_dots_abs split: option.split)

lemma orsetRemove_is_join:
  "orset_wf s \<Longrightarrow> orset_abs (orsetRemove s ds) = orset_abs (orsetJoin s (orsetRemove createORSet ds))"
  by (simp add: orset_abs_def orsetJoin_entries_abs orsetRemove_wf)
    (simp add: orset_entries_abs_def orsetRemove_def createORSet_def)

lemma orset_join_empty [simp]: "orset_wf s \<Longrightarrow> orset_abs (orsetJoin s createORSet) = orset_abs s"
  by (simp add: orset_abs_def orsetJoin_entries_abs)

lemma run_effect_is_join:
  assumes "state_wf st"
  shows "state_abs (run_effect e st eff) = state_abs (joinStates st (run_effect e createEmptyStateV5 eff))"
  using assms
  by (cases eff)
    (auto simp: state_abs_eq_iff state_wf_def orset_insert_is_join orsetRemove_is_join setProp_eq
      mergeProps_map_of mergeEdgeBirthEvent_map_of vvMerge_map_of pmerge_def trackBirth_map_of fun_eq_iff
      split: option.split)

interpretation effects: op_crdt "state_from wr" state_abs joinStates createEmptyStateV5 run
    "writes_as wr" effect_delta
  for wr :: "string \<Rightarrow> event_id \<Rightarrow> jsval"
proof (unfold_locales, goal_cases)
  case (1 p)
  then show ?case by (cases p) (simp add: effect_delta_def run_effect_from)
next
  case (2 s p)
  then have "state_wf s" by (simp add: state_from_def)
  with 2 show ?case
    by (cases p) (simp add: run_def run_effect_from effect_delta_def run_effect_is_join)
qed

section \<open>A patch is the log of its effects\<close>

text \<open>
  What a patch does does not depend on the state it meets: its operations are stamped, normalised and
  validated to a log of effects, or it is rejected.
\<close>

definition op_entry :: "patch \<Rightarrow> string \<Rightarrow> nat \<times> jsval \<Rightarrow> (event_id \<times> op_effect) result" where
  "op_entry p sha iop =
     bind_r (op_event p sha (fst iop)) (\<lambda>e. bind_r (raw_effect (snd iop)) (\<lambda>eff. Inr (e, eff)))"

definition patch_log :: "patch \<Rightarrow> string \<Rightarrow> (event_id \<times> op_effect) list result" where
  "patch_log p sha = map_r (op_entry p sha) (List.enumerate 0 (patch_ops p))"

definition run_all :: "warp_state \<Rightarrow> (event_id \<times> op_effect) list \<Rightarrow> warp_state" where
  "run_all st log = foldl (\<lambda>s ee. run_effect (fst ee) s (snd ee)) st log"

definition observe :: "version_vector \<Rightarrow> patch \<Rightarrow> version_vector \<Rightarrow> version_vector" where
  "observe cvv p f = foldPatchDot (vvMerge f cvv) (patch_writer p) (patch_lamport p)"

lemma run_all_simps [simp]:
  "run_all st [] = st" "run_all st (ee # log) = run_all (run_effect (fst ee) st (snd ee)) log"
  by (simp_all add: run_all_def)

lemma run_all_append: "run_all st (log @ log') = run_all (run_all st log) log'"
  by (simp add: run_all_def)

lemma run_all_fold_r: "fold_r run st log = Inr (run_all st log)"
  by (induction log arbitrary: st) (simp_all add: run_def)

lemma applyFast_op_entry:
  "applyFast_op p sha st iop = bind_r (op_entry p sha iop) (run st)"
  by (cases "op_event p sha (fst iop)"; cases "raw_effect (snd iop)")
    (simp_all add: applyFast_op_effect op_entry_def run_def)

lemma fold_applyFast_op:
  "fold_r (applyFast_op p sha) st iops = bind_r (map_r (op_entry p sha) iops) (\<lambda>log. Inr (run_all st log))"
proof (induction iops arbitrary: st)
  case Nil
  then show ?case by simp
next
  case (Cons iop iops)
  then show ?case
    by (cases "op_entry p sha iop"; cases "map_r (op_entry p sha) iops")
      (simp_all add: applyFast_op_entry run_def)
qed

lemma run_effect_frontier [simp]: "observedFrontier (run_effect e st eff) = observedFrontier st"
  by (cases eff) (simp_all add: setProp_eq)

lemma run_all_frontier [simp]: "observedFrontier (run_all st log) = observedFrontier st"
  by (induction log arbitrary: st) simp_all

lemma applyFast_log:
  "applyFast st p sha =
     bind_r (patch_log p sha) (\<lambda>log. bind_r (contextVV (patch_context p)) (\<lambda>cvv.
       Inr ((run_all st log)\<lparr>observedFrontier := observe cvv p (observedFrontier st)\<rparr>)))"
  by (cases "patch_log p sha")
    (simp_all add: applyFast_def fold_applyFast_op patch_log_def updateFrontierFromPatch_def observe_def)

lemma applyFast_ok_iff:
  "is_ok (applyFast st p sha) \<longleftrightarrow> is_ok (patch_log p sha) \<and> is_ok (contextVV (patch_context p))"
  by (cases "patch_log p sha"; cases "contextVV (patch_context p)") (simp_all add: applyFast_log)

section \<open>The causal context as a join\<close>

definition context_wf :: "patch \<Rightarrow> bool" where
  "context_wf p \<longleftrightarrow> (case patch_context p of CtxMap vv \<Rightarrow> vv_wf vv | CtxObj _ \<Rightarrow> True)"

lemma vvDeserialize_wf: "vvDeserialize obj = Inr vv \<Longrightarrow> vv_wf vv"
  unfolding vvDeserialize_def
  by (erule fold_r_invariant [where P = vv_wf])
    (auto simp: vv_wf_def vvDeserialize_step_def split: jsval.splits if_splits)

lemma contextVV_wf: "context_wf p \<Longrightarrow> contextVV (patch_context p) = Inr cvv \<Longrightarrow> vv_wf cvv"
  by (auto simp: context_wf_def contextVV_def vvDeserialize_wf split: patch_context.splits)

lemma foldPatchDot_wf [wf_intros]: "vv_wf f \<Longrightarrow> vv_wf (foldPatchDot f w l)"
  using vv_get_nonneg [of f w] by (auto simp: foldPatchDot_def Let_def vv_wf_def)

lemma foldPatchDot_get: "vv_get (foldPatchDot f w l) v = (if v = w then max (vv_get f w) l else vv_get f v)"
  by (simp add: foldPatchDot_def Let_def)

lemma observe_wf [wf_intros]: "vv_wf f \<Longrightarrow> vv_wf cvv \<Longrightarrow> vv_wf (observe cvv p f)"
  by (simp add: observe_def foldPatchDot_wf vvMerge_wf)

lemma observe_is_join:
  assumes "vv_wf f" "vv_wf cvv"
  shows "map_of (observe cvv p f) = map_of (vvMerge f (observe cvv p createVersionVector))"
proof -
  note w = assms observe_wf [OF createVersionVector_wf assms(2)] createVersionVector_wf
  have n: "0 \<le> c" if "map_of f k = Some c \<or> map_of cvv k = Some c" for k c
    using that assms by (auto simp: vv_wf_def)
  show ?thesis
    using n [where k = "patch_writer p"]
    by (simp add: vvMerge_map_of w)
      (fastforce simp: observe_def foldPatchDot_def Let_def vv_get_def vvMerge_map_of w pmerge_def
        fun_eq_iff max_def split: option.splits)
qed

section \<open>A patch joins its delta\<close>

definition admitted :: "(string \<Rightarrow> event_id \<Rightarrow> jsval) \<Rightarrow> patch \<times> string \<Rightarrow> bool" where
  "admitted wr ps \<longleftrightarrow> context_wf (fst ps) \<and> is_ok (applyFast createEmptyStateV5 (fst ps) (snd ps)) \<and>
     (\<forall>log. patch_log (fst ps) (snd ps) = Inr log \<longrightarrow> list_all (writes_as wr) log)"

definition apply_entry :: "warp_state \<Rightarrow> patch \<times> string \<Rightarrow> warp_state result" where
  "apply_entry st ps = applyFast st (fst ps) (snd ps)"

definition patch_delta :: "patch \<times> string \<Rightarrow> warp_state" where
  "patch_delta ps = (case apply_entry createEmptyStateV5 ps of Inr t \<Rightarrow> t | Inl _ \<Rightarrow> createEmptyStateV5)"

lemma admittedE:
  assumes "admitted wr ps"
  obtains log cvv where "patch_log (fst ps) (snd ps) = Inr log" "contextVV (patch_context (fst ps)) = Inr cvv"
    "vv_wf cvv" "\<forall>ee\<in>set log. writes_as wr ee"
    "\<And>st. apply_entry st ps =
       Inr ((run_all st log)\<lparr>observedFrontier := observe cvv (fst ps) (observedFrontier st)\<rparr>)"
proof -
  obtain log cvv where l: "patch_log (fst ps) (snd ps) = Inr log"
      "contextVV (patch_context (fst ps)) = Inr cvv"
    using assms unfolding admitted_def applyFast_ok_iff by (auto simp: is_ok_iff)
  moreover have "vv_wf cvv" "\<forall>ee\<in>set log. writes_as wr ee"
    using assms l by (auto simp: admitted_def list_all_iff intro: contextVV_wf)
  ultimately show ?thesis
    using that by (simp add: apply_entry_def applyFast_log)
qed

lemma run_all_from:
  "state_from wr st \<Longrightarrow> \<forall>ee\<in>set log. writes_as wr ee \<Longrightarrow> state_from wr (run_all st log)"
  by (induction log arbitrary: st) (auto simp: run_effect_from)

lemma run_all_is_join:
  assumes "state_from wr st" "\<forall>ee\<in>set log. writes_as wr ee"
  shows "state_abs (run_all st log) = state_abs (joinStates st (run_all createEmptyStateV5 log))"
proof -
  let ?d = "foldl joinStates createEmptyStateV5 (map effect_delta log)"
  have d: "\<forall>x\<in>set (map effect_delta log). state_from wr x"
    using assms(2) effects.inv_delta by auto
  have a: "state_abs (run_all st log) = state_abs (foldl joinStates st (map effect_delta log))"
    using effects.app_is_merge [OF assms] by (simp add: run_all_fold_r)
  have b: "state_abs (run_all createEmptyStateV5 log) = state_abs ?d"
    using effects.app_is_merge [OF createEmptyStateV5_from assms(2)] by (simp add: run_all_fold_r)
  have "state_abs (foldl joinStates st (map effect_delta log)) = state_abs (joinStates st ?d)"
    by (rule states.merge_shift [OF assms(1) d])
  also have "\<dots> = state_abs (joinStates st (run_all createEmptyStateV5 log))"
    using states.inv_merge [OF createEmptyStateV5_from d] assms b
    by (intro states.join_cong [of wr]) (auto intro: run_all_from)
  finally show ?thesis using a by simp
qed

lemma observedFrontier_from:
  "state_from wr st \<Longrightarrow> vv_wf f \<Longrightarrow> state_from wr (st\<lparr>observedFrontier := f\<rparr>)"
  by (simp add: state_from_def state_wf_def)

lemma state_from_frontier: "state_from wr st \<Longrightarrow> vv_wf (observedFrontier st)"
  by (simp add: state_from_def state_wf_def)

interpretation patches: op_crdt "state_from wr" state_abs joinStates createEmptyStateV5 apply_entry
    "admitted wr" patch_delta
  for wr :: "string \<Rightarrow> event_id \<Rightarrow> jsval"
proof (unfold_locales, goal_cases)
  case (1 p)
  then show ?case
    by (elim admittedE)
      (auto simp: patch_delta_def intro!: observedFrontier_from run_all_from observe_wf)
next
  case (2 s p)
  from 2(2) obtain log cvv where p: "vv_wf cvv" "\<forall>ee\<in>set log. writes_as wr ee"
    and app: "\<And>st. apply_entry st p =
       Inr ((run_all st log)\<lparr>observedFrontier := observe cvv (fst p) (observedFrontier st)\<rparr>)"
    by (elim admittedE) blast
  note f = state_from_frontier [OF 2(1)]
  show ?case
    using run_all_is_join [OF 2(1) p(2)] observe_is_join [OF f p(1), of "fst p"]
    by (auto simp: app patch_delta_def state_abs_eq_iff
        intro!: observedFrontier_from run_all_from observe_wf 2(1) p f)
qed

end
