(* ===== verification/Visibility.thy ===== *)
theory Visibility
  imports Convergence
begin

text \<open>
  \<open>src/domain/services/StateSerializerV5.js\<close>: what of a state is visible, and the canonical form
  of the visible projection that is hashed. The CBOR codec and the hash are parameters.
\<close>

section \<open>Predicates\<close>

definition nodeVisibleV5 :: "warp_state \<Rightarrow> string option \<Rightarrow> bool" where
  "nodeVisibleV5 st nodeId = (case nodeId of None \<Rightarrow> False | Some n \<Rightarrow> orsetContains (nodeAlive st) n)"

definition edgeVisibleV5 :: "warp_state \<Rightarrow> string \<Rightarrow> bool" where
  "edgeVisibleV5 st edgeKey =
     (if \<not> orsetContains (edgeAlive st) edgeKey then False
      else let e = decodeEdgeKey edgeKey
           in nodeVisibleV5 st (part_from e) \<and> nodeVisibleV5 st (part_to e))"

definition propVisibleV5 :: "warp_state \<Rightarrow> string \<Rightarrow> bool" where
  "propVisibleV5 st propKey =
     (if \<not> nodeVisibleV5 st (fst (decodePropKey propKey)) then False
      else map_of (propMap st) propKey \<noteq> None)"

section \<open>The visible projection\<close>

text \<open>\<open>a < b\<close> on strings that may be \<open>undefined\<close>.\<close>

definition opt_less :: "string option \<Rightarrow> string option \<Rightarrow> bool" where
  "opt_less a b = (case (a, b) of (Some x, Some y) \<Rightarrow> x < y | _ \<Rightarrow> False)"

definition cmp_edges :: "edge_parts \<Rightarrow> edge_parts \<Rightarrow> int" where
  "cmp_edges a b =
     (if part_from a \<noteq> part_from b then (if opt_less (part_from a) (part_from b) then -1 else 1)
      else if part_to a \<noteq> part_to b then (if opt_less (part_to a) (part_to b) then -1 else 1)
      else if opt_less (part_label a) (part_label b) then -1
      else if opt_less (part_label b) (part_label a) then 1 else 0)"

record visible_prop =
  vp_node :: "string option"
  vp_key :: "string option"
  vp_value :: jsval

definition cmp_props :: "visible_prop \<Rightarrow> visible_prop \<Rightarrow> int" where
  "cmp_props a b =
     (if vp_node a \<noteq> vp_node b then (if opt_less (vp_node a) (vp_node b) then -1 else 1)
      else if opt_less (vp_key a) (vp_key b) then -1
      else if opt_less (vp_key b) (vp_key a) then 1 else 0)"

record projection =
  proj_nodes :: "string list"
  proj_edges :: "edge_parts list"
  proj_props :: "visible_prop list"

definition visible_props :: "warp_state \<Rightarrow> visible_prop list" where
  "visible_props st =
     concat (map (\<lambda>(propKey, register).
       let nk = decodePropKey propKey
       in if nodeVisibleV5 st (fst nk)
          then [\<lparr>vp_node = fst nk, vp_key = snd nk, vp_value = reg_value register\<rparr>] else []) (propMap st))"

definition visible_projection :: "warp_state \<Rightarrow> projection" where
  "visible_projection st =
     \<lparr>proj_nodes = sort (orsetElements (nodeAlive st)),
      proj_edges = sort_by cmp_edges
        (map decodeEdgeKey (filter (edgeVisibleV5 st) (orsetElements (edgeAlive st)))),
      proj_props = sort_by cmp_props (visible_props st)\<rparr>"

definition serializeStateV5 :: "(projection \<Rightarrow> 'bytes) \<Rightarrow> warp_state \<Rightarrow> 'bytes" where
  "serializeStateV5 encode st = encode (visible_projection st)"

definition computeStateHashV5 :: "('bytes \<Rightarrow> string) \<Rightarrow> (projection \<Rightarrow> 'bytes) \<Rightarrow> warp_state \<Rightarrow> string" where
  "computeStateHashV5 sha256 encode st = sha256 (serializeStateV5 encode st)"

definition deserializeStateV5 :: "('bytes \<Rightarrow> projection) \<Rightarrow> 'bytes \<Rightarrow> projection" where
  "deserializeStateV5 decode buffer = decode buffer"

section \<open>Visibility depends on what can be observed only\<close>

lemma state_abs_contains:
  assumes "state_abs a = state_abs b"
  shows "orsetContains (nodeAlive a) = orsetContains (nodeAlive b)"
    and "orsetContains (edgeAlive a) = orsetContains (edgeAlive b)"
proof -
  have n: "orset_abs (nodeAlive a) = orset_abs (nodeAlive b)"
    and e: "orset_abs (edgeAlive a) = orset_abs (edgeAlive b)"
    using assms by (simp_all only: state_abs_eq_iff)
  show "orsetContains (nodeAlive a) = orsetContains (nodeAlive b)"
    by (rule ext) (rule orsetContains_cong [OF n])
  show "orsetContains (edgeAlive a) = orsetContains (edgeAlive b)"
    by (rule ext) (rule orsetContains_cong [OF e])
qed

lemma nodeVisibleV5_cong:
  assumes "state_abs a = state_abs b"
  shows "nodeVisibleV5 a = nodeVisibleV5 b"
  unfolding nodeVisibleV5_def state_abs_contains [OF assms] ..

lemma edgeVisibleV5_cong:
  assumes "state_abs a = state_abs b"
  shows "edgeVisibleV5 a = edgeVisibleV5 b"
  unfolding edgeVisibleV5_def state_abs_contains [OF assms] nodeVisibleV5_cong [OF assms] ..

lemma state_abs_props: "state_abs a = state_abs b \<Longrightarrow> map_of (propMap a) = map_of (propMap b)"
  by (simp only: state_abs_eq_iff)

lemma propVisibleV5_cong:
  assumes "state_abs a = state_abs b"
  shows "propVisibleV5 a = propVisibleV5 b"
  unfolding propVisibleV5_def nodeVisibleV5_cong [OF assms] state_abs_props [OF assms] ..

section \<open>The projection is canonical\<close>

text \<open>
  Keys as the reducer writes them: an edge key has three segments, a property key has two unless it
  is an edge property key, and no alive node starts with the edge property prefix.
\<close>

definition wellkeyed :: "warp_state \<Rightarrow> bool" where
  "wellkeyed st \<longleftrightarrow>
     (\<forall>k. orsetContains (edgeAlive st) k \<longrightarrow> length (split_on FIELD_SEPARATOR k) = 3) \<and>
     (\<forall>k r. map_of (propMap st) k = Some r \<longrightarrow> isEdgePropKey k \<or> length (split_on FIELD_SEPARATOR k) = 2) \<and>
     (\<forall>n. orsetContains (nodeAlive st) n \<longrightarrow> no_prefix n)"

lemma wellkeyed_cong:
  assumes "state_abs a = state_abs b"
  shows "wellkeyed a \<longleftrightarrow> wellkeyed b"
  unfolding wellkeyed_def state_abs_contains [OF assms] state_abs_props [OF assms] ..

definition edge_sort_key :: "edge_parts \<Rightarrow> string \<times> string \<times> string" where
  "edge_sort_key e = (the (part_from e), the (part_to e), the (part_label e))"

definition edge_total :: "edge_parts \<Rightarrow> bool" where
  "edge_total e \<longleftrightarrow> part_from e \<noteq> None \<and> part_to e \<noteq> None \<and> part_label e \<noteq> None"

lemma cmp_edges_le: "edge_total a \<Longrightarrow> edge_total b \<Longrightarrow> cmp_edges a b \<le> 0 \<longleftrightarrow> edge_sort_key a \<le> edge_sort_key b"
  by (auto simp: edge_total_def cmp_edges_def opt_less_def edge_sort_key_def less_eq_prod_def)

lemma edge_sort_key_inj: "inj_on edge_sort_key {e. edge_total e}"
  by (rule inj_onI) (auto simp: edge_sort_key_def edge_total_def)

lemma decodeEdgeKey_total: "length (split_on FIELD_SEPARATOR k) = 3 \<Longrightarrow> edge_total (decodeEdgeKey k)"
  by (simp add: edge_total_def decodeEdgeKey_def part_def Let_def)

lemma split_length3:
  assumes "length (split_on c k) = 3"
  obtains f t l where "split_on c k = [f, t, l]"
  using assms that by (auto simp: length_Suc_conv numeral_3_eq_3)

lemma decodeEdgeKey_inj:
  assumes "length (split_on FIELD_SEPARATOR k) = 3" "length (split_on FIELD_SEPARATOR k') = 3"
    and "decodeEdgeKey k = decodeEdgeKey k'"
  shows "k = k'"
proof -
  obtain f t l where a: "split_on FIELD_SEPARATOR k = [f, t, l]"
    using assms(1) by (rule split_length3)
  obtain f' t' l' where b: "split_on FIELD_SEPARATOR k' = [f', t', l']"
    using assms(2) by (rule split_length3)
  have "[f, t, l] = [f', t', l']"
    using assms(3) by (simp add: decodeEdgeKey_def a b part_def)
  then show ?thesis
    using encode_decode_edge [OF a] encode_decode_edge [OF b] by simp
qed

definition prop_sort_key :: "visible_prop \<Rightarrow> string \<times> string" where
  "prop_sort_key p = (the (vp_node p), the (vp_key p))"

definition prop_total :: "visible_prop \<Rightarrow> bool" where
  "prop_total p \<longleftrightarrow> vp_node p \<noteq> None \<and> vp_key p \<noteq> None"

lemma cmp_props_le: "prop_total a \<Longrightarrow> prop_total b \<Longrightarrow> cmp_props a b \<le> 0 \<longleftrightarrow> prop_sort_key a \<le> prop_sort_key b"
  by (auto simp: prop_total_def cmp_props_def opt_less_def prop_sort_key_def less_eq_prod_def)

text \<open>A property key that survives the visibility filter is a node property with two segments.\<close>

lemma visible_key_shape:
  assumes "wellkeyed st" "map_of (propMap st) k = Some r" "nodeVisibleV5 st (fst (decodePropKey k))"
  obtains n p where "split_on FIELD_SEPARATOR k = [n, p]"
proof -
  obtain n rest where s: "split_on FIELD_SEPARATOR k = n # rest"
    by (cases "split_on FIELD_SEPARATOR k") auto
  have "orsetContains (nodeAlive st) n"
    using assms(3) s by (simp add: nodeVisibleV5_def decodePropKey_def part_def)
  then have np: "no_prefix n" using assms(1) by (simp add: wellkeyed_def)
  have "\<not> isEdgePropKey k"
  proof
    assume "isEdgePropKey k"
    then obtain k' where "k = EDGE_PROP_PREFIX # k'"
      by (cases k) (auto simp: isEdgePropKey_def)
    then show False
      using s np by (auto simp: no_prefix_def split: list.splits)
  qed
  then have "length (split_on FIELD_SEPARATOR k) = 2"
    using assms(1,2) by (auto simp: wellkeyed_def)
  then show ?thesis using that s by (cases rest) auto
qed

lemma same_elements_mset:
  assumes "orset_wf a" "orset_wf b" "orsetContains a = orsetContains b"
  shows "mset (orsetElements a) = mset (orsetElements b)"
proof -
  have "set (orsetElements a) = set (orsetElements b)"
    by (simp add: assms(3))
  with orsetElements_distinct [OF assms(1)] orsetElements_distinct [OF assms(2)] show ?thesis
    by (simp only: set_eq_iff_mset_eq_distinct)
qed

definition prop_row :: "string \<times> lww_register \<Rightarrow> visible_prop" where
  "prop_row kr = \<lparr>vp_node = fst (decodePropKey (fst kr)), vp_key = snd (decodePropKey (fst kr)),
     vp_value = reg_value (snd kr)\<rparr>"

lemma visible_props_eq:
  "visible_props st = map prop_row (filter (\<lambda>kr. nodeVisibleV5 st (fst (decodePropKey (fst kr)))) (propMap st))"
proof -
  have "concat (map (\<lambda>kr. if P kr then [f kr] else []) xs) = map f (filter P xs)" for P f and xs :: "(string \<times> lww_register) list"
    by (induction xs) auto
  note flat = this
  have "visible_props st = concat (map (\<lambda>kr. if nodeVisibleV5 st (fst (decodePropKey (fst kr)))
      then [prop_row kr] else []) (propMap st))"
    unfolding visible_props_def prop_row_def Let_def case_prod_unfold ..
  then show ?thesis by (simp only: flat)
qed

lemma visible_props_rows:
  assumes "state_wf st" "wellkeyed st" "x \<in> set (visible_props st)"
  obtains n p r where "map_of (propMap st) (encodePropKey n p) = Some r" "prop_total x"
    "x = \<lparr>vp_node = Some n, vp_key = Some p, vp_value = reg_value r\<rparr>"
proof -
  from assms(3) obtain k r where kr: "(k, r) \<in> set (propMap st)" "x = prop_row (k, r)"
      "nodeVisibleV5 st (fst (decodePropKey k))"
    by (auto simp: visible_props_eq)
  have m: "map_of (propMap st) k = Some r"
    using kr(1) assms(1) by (simp add: state_wf_def)
  obtain n p where s: "split_on FIELD_SEPARATOR k = [n, p]"
    using visible_key_shape [OF assms(2) m kr(3)] by blast
  have "k = encodePropKey n p"
    using join_split_on [of FIELD_SEPARATOR k] s by (simp add: encodePropKey_def)
  then show ?thesis
    using that [of n p r] m kr(2) s by (simp add: prop_row_def decodePropKey_def part_def prop_total_def)
qed

lemma prop_sort_key_inj:
  assumes "state_wf st" "wellkeyed st"
  shows "inj_on prop_sort_key (set (visible_props st))"
proof (rule inj_onI)
  fix x y assume x: "x \<in> set (visible_props st)" and y: "y \<in> set (visible_props st)"
    and e: "prop_sort_key x = prop_sort_key y"
  obtain n p r where X: "map_of (propMap st) (encodePropKey n p) = Some r"
      "x = \<lparr>vp_node = Some n, vp_key = Some p, vp_value = reg_value r\<rparr>"
    by (rule visible_props_rows [OF assms x])
  obtain n' p' r' where Y: "map_of (propMap st) (encodePropKey n' p') = Some r'"
      "y = \<lparr>vp_node = Some n', vp_key = Some p', vp_value = reg_value r'\<rparr>"
    by (rule visible_props_rows [OF assms y])
  have "n = n'" "p = p'"
    using e by (simp_all add: X(2) Y(2) prop_sort_key_def)
  then show "x = y" using X Y by simp
qed

lemma visible_edges_total:
  assumes "wellkeyed st" "e \<in> set (map decodeEdgeKey (filter (edgeVisibleV5 st) (orsetElements (edgeAlive st))))"
  shows "edge_total e"
  using assms by (auto simp: wellkeyed_def intro: decodeEdgeKey_total)

lemma sort_edges_eq:
  "\<forall>e\<in>set xs. edge_total e \<Longrightarrow> sort_by cmp_edges xs = sort_key edge_sort_key xs"
  by (rule sort_by_key) (simp add: cmp_edges_le)

lemma sort_props_eq:
  "\<forall>e\<in>set xs. prop_total e \<Longrightarrow> sort_by cmp_props xs = sort_key prop_sort_key xs"
  by (rule sort_by_key) (simp add: cmp_props_le)

lemma visible_projection_sorted:
  assumes "state_wf st" "wellkeyed st"
  shows "visible_projection st =
    \<lparr>proj_nodes = sort (orsetElements (nodeAlive st)),
     proj_edges = sort_key edge_sort_key (map decodeEdgeKey (filter (edgeVisibleV5 st) (orsetElements (edgeAlive st)))),
     proj_props = sort_key prop_sort_key (visible_props st)\<rparr>"
proof -
  have "prop_total x" if "x \<in> set (visible_props st)" for x
    using visible_props_rows [OF assms that] by blast
  then show ?thesis
    using visible_edges_total [OF assms(2)] unfolding visible_projection_def
    by (subst sort_edges_eq, blast, subst sort_props_eq, blast) (rule refl)
qed

lemma visible_projection_canonical:
  assumes "state_wf a" "state_wf b" "state_abs a = state_abs b" "wellkeyed a"
  shows "visible_projection a = visible_projection b"
proof -
  have wkb: "wellkeyed b"
    using assms(4) wellkeyed_cong [OF assms(3)] by blast
  have nodes: "mset (orsetElements (nodeAlive a)) = mset (orsetElements (nodeAlive b))"
    and edges: "mset (orsetElements (edgeAlive a)) = mset (orsetElements (edgeAlive b))"
    using assms(1,2) state_abs_contains [OF assms(3)] by (auto simp: state_wf_def intro!: same_elements_mset)
  let ?E = "\<lambda>st. map decodeEdgeKey (filter (edgeVisibleV5 st) (orsetElements (edgeAlive st)))"
  have n: "sort (orsetElements (nodeAlive a)) = sort (orsetElements (nodeAlive b))"
    using nodes by (rule sort_key_perm_eq) simp
  have e: "sort_key edge_sort_key (?E a) = sort_key edge_sort_key (?E b)"
  proof (rule sort_key_perm_eq)
    show "mset (?E a) = mset (?E b)"
      by (simp add: edges edgeVisibleV5_cong [OF assms(3)])
    show "inj_on edge_sort_key (set (?E a))"
      using visible_edges_total [OF assms(4)] by (auto intro: inj_on_subset [OF edge_sort_key_inj])
  qed
  have "mset (propMap a) = mset (propMap b)"
    using assms(1,2) state_abs_props [OF assms(3)] by (intro map_wf_mset_eq) (auto simp: state_wf_def)
  then have "mset (visible_props a) = mset (visible_props b)"
    by (simp add: visible_props_eq nodeVisibleV5_cong [OF assms(3)])
  then have p: "sort_key prop_sort_key (visible_props a) = sort_key prop_sort_key (visible_props b)"
    using prop_sort_key_inj [OF assms(1,4)] by (rule sort_key_perm_eq)
  show ?thesis
    unfolding visible_projection_sorted [OF assms(1,4)] visible_projection_sorted [OF assms(2) wkb] n e p ..
qed

text \<open>What the projection holds.\<close>

lemma projection_nodes [simp]: "set (proj_nodes (visible_projection st)) = {n. nodeVisibleV5 st (Some n)}"
  by (simp add: visible_projection_def nodeVisibleV5_def)

lemma projection_edges:
  "set (proj_edges (visible_projection st)) = decodeEdgeKey ` {k. edgeVisibleV5 st k}"
  by (auto simp: visible_projection_def edgeVisibleV5_def)

lemma projection_props:
  assumes "state_wf st"
  shows "set (proj_props (visible_projection st)) =
    {prop_row (k, r) | k r. map_of (propMap st) k = Some r \<and> propVisibleV5 st k}"
proof -
  have wf: "map_wf (propMap st)" using assms by (simp add: state_wf_def)
  have "set (proj_props (visible_projection st)) =
      {prop_row (k, r) | k r. (k, r) \<in> set (propMap st) \<and> nodeVisibleV5 st (fst (decodePropKey k))}"
    by (auto simp: visible_projection_def visible_props_eq) blast
  also have "\<dots> = {prop_row (k, r) | k r. map_of (propMap st) k = Some r \<and> nodeVisibleV5 st (fst (decodePropKey k))}"
    by (simp only: map_of_eq_Some_iff [OF wf])
  also have "\<dots> = {prop_row (k, r) | k r. map_of (propMap st) k = Some r \<and> propVisibleV5 st k}"
    by (auto simp: propVisibleV5_def)
  finally show ?thesis .
qed

text \<open>No property of an edge is part of the projection.\<close>

lemma edge_props_invisible:
  assumes "wellkeyed st"
  shows "\<not> propVisibleV5 st (encodeEdgePropKey f t l k)"
proof
  assume v: "propVisibleV5 st (encodeEdgePropKey f t l k)"
  obtain n rest where s: "split_on FIELD_SEPARATOR (encodeEdgePropKey f t l k) = n # rest"
    by (cases "split_on FIELD_SEPARATOR (encodeEdgePropKey f t l k)") auto
  have "orsetContains (nodeAlive st) n"
    using v s by (simp add: propVisibleV5_def nodeVisibleV5_def decodePropKey_def part_def split: if_splits)
  then have "no_prefix n" using assms by (simp add: wellkeyed_def)
  moreover have "\<exists>m. n = EDGE_PROP_PREFIX # m"
    using s by (auto simp: encodeEdgePropKey_def split: list.splits)
  ultimately show False by (auto simp: no_prefix_def)
qed

end
