(* ===== verification/StateDiffs.thy ===== *)
theory StateDiffs
  imports Visibility
begin

text \<open>
  \<open>src/domain/services/StateDiff.js\<close>: the deterministic difference of two states that
  subscriptions are notified with. The theory shows that the difference is exact: the added and the
  removed lists are the set differences of what is visible, and a diff is empty exactly when nothing
  that it watches differs.
\<close>

section \<open>Deep equality of property values\<close>

text \<open>
  Values have no identity here, so \<open>===\<close> on two objects is decided by their contents; the two
  differ only on an object that contains NaN and is compared with itself.
\<close>

definition js_own :: "jsval \<Rightarrow> (string \<times> jsval) list" where
  "js_own v = (case v of
     JObj m \<Rightarrow> m
   | JBytes bs \<Rightarrow> map (\<lambda>(i, b). (show_nat i, JNum (uint b))) (List.enumerate 0 bs)
   | _ \<Rightarrow> [])"

text \<open>Objects that are neither \<open>null\<close> nor arrays.\<close>

definition js_plain :: "jsval \<Rightarrow> bool" where
  "js_plain v = (case v of JObj _ \<Rightarrow> True | JBytes _ \<Rightarrow> True | JSet _ \<Rightarrow> True | _ \<Rightarrow> False)"

fun deepEqual :: "jsval \<Rightarrow> jsval \<Rightarrow> bool"
  and arraysEqual :: "jsval list \<Rightarrow> jsval list \<Rightarrow> bool"
  and objectsEqual :: "(string \<times> jsval) list \<Rightarrow> (string \<times> jsval) list \<Rightarrow> bool" where
  "deepEqual (JArr xs) b = (case b of JArr ys \<Rightarrow> arraysEqual xs ys | _ \<Rightarrow> False)"
| "deepEqual (JObj m) b = (js_plain b \<and> length m = length (js_own b) \<and> objectsEqual m (js_own b))"
| "deepEqual (JBytes bs) b =
     (js_plain b \<and> length bs = length (js_own b) \<and>
      list_all (\<lambda>(k, v). map_of (js_own b) k = Some v) (js_own (JBytes bs)))"
| "deepEqual (JSet xs) b = (js_plain b \<and> js_own b = [])"
| "deepEqual (JFlt w) b = (b = JFlt w \<and> \<not> flt_is_nan w)"
| "deepEqual JUndef b = (b = JUndef)"
| "deepEqual JNull b = (b = JNull)"
| "deepEqual (JBool p) b = (b = JBool p)"
| "deepEqual (JNum n) b = (b = JNum n)"
| "deepEqual (JStr s) b = (b = JStr s)"
| "arraysEqual [] ys = (ys = [])"
| "arraysEqual (x # xs) ys = (case ys of [] \<Rightarrow> False | y # ys' \<Rightarrow> deepEqual x y \<and> arraysEqual xs ys')"
| "objectsEqual [] n = True"
| "objectsEqual (p # m) n =
     (case map_of n (fst p) of None \<Rightarrow> False | Some w \<Rightarrow> deepEqual (snd p) w \<and> objectsEqual m n)"

text \<open>
  Values that contain no NaN and whose objects have distinct keys, as JavaScript objects do, equal
  themselves.
\<close>

fun regular :: "jsval \<Rightarrow> bool" where
  "regular (JArr xs) = list_all regular xs"
| "regular (JObj m) = (map_wf m \<and> list_all (\<lambda>p. regular (snd p)) m)"
| "regular (JFlt w) = (\<not> flt_is_nan w)"
| "regular _ = True"

lemma js_own_bytes_wf: "map_wf (js_own (JBytes bs))"
proof -
  have "map fst (js_own (JBytes bs)) = map show_nat [0..<length bs]"
    by (simp add: js_own_def comp_def case_prod_unfold enumerate_eq_zip map_fst_zip
        flip: map_map [of show_nat fst, unfolded comp_def])
  then show ?thesis by (simp add: distinct_map inj_on_def)
qed

lemma arraysEqual_refl: "(\<And>x. x \<in> set xs \<Longrightarrow> deepEqual x x) \<Longrightarrow> arraysEqual xs xs"
  by (induction xs) auto

lemma objectsEqual_sub:
  assumes "map_wf n" "set m \<subseteq> set n" "\<And>p. p \<in> set m \<Longrightarrow> deepEqual (snd p) (snd p)"
  shows "objectsEqual m n"
  using assms(2,3)
proof (induction m)
  case Nil
  then show ?case by simp
next
  case (Cons p m)
  have "map_of n (fst p) = Some (snd p)"
    using Cons.prems(1) assms(1) by (intro map_of_is_SomeI) auto
  then show ?case using Cons by simp
qed

lemma bytes_equal_refl:
  "list_all (\<lambda>(k, v). map_of (js_own (JBytes bs)) k = Some v) (js_own (JBytes bs))"
  using map_of_is_SomeI [OF js_own_bytes_wf] by (auto simp: list_all_iff)

lemma deepEqual_refl: "regular a \<Longrightarrow> deepEqual a a"
proof (induction a)
  case (JArr xs)
  then show ?case by (auto simp: list_all_iff intro: arraysEqual_refl)
next
  case (JObj m)
  have "objectsEqual m m"
  proof (rule objectsEqual_sub)
    show "map_wf m" using JObj.prems by simp
    show "deepEqual (snd p) (snd p)" if "p \<in> set m" for p
      using JObj.IH [OF that, of "snd p"] JObj.prems that by (cases p) (auto simp: list_all_iff)
  qed simp
  then show ?case by (simp add: js_plain_def js_own_def)
next
  case (JBytes bs)
  have "length (js_own (JBytes bs)) = length bs" by (simp add: js_own_def)
  then show ?case using bytes_equal_refl [of bs] by (simp add: js_plain_def)
next
  case (JSet xs)
  then show ?case by (simp add: js_plain_def js_own_def)
qed simp_all

section \<open>The difference of two states\<close>

record prop_set =
  set_key :: string
  set_nodeId :: "string option"
  set_propKey :: "string option"
  set_oldValue :: jsval
  set_newValue :: jsval

record prop_removed =
  rem_key :: string
  rem_nodeId :: "string option"
  rem_propKey :: "string option"
  rem_oldValue :: jsval

record state_diff =
  diff_nodesAdded :: "string list"
  diff_nodesRemoved :: "string list"
  diff_edgesAdded :: "edge_parts list"
  diff_edgesRemoved :: "edge_parts list"
  diff_propsSet :: "prop_set list"
  diff_propsRemoved :: "prop_removed list"

definition compareEdges :: "edge_parts \<Rightarrow> edge_parts \<Rightarrow> int" where
  "compareEdges a b =
     (if part_from a \<noteq> part_from b then (if opt_less (part_from a) (part_from b) then -1 else 1)
      else if part_to a \<noteq> part_to b then (if opt_less (part_to a) (part_to b) then -1 else 1)
      else if part_label a \<noteq> part_label b then (if opt_less (part_label a) (part_label b) then -1 else 1)
      else 0)"

definition compareProps :: "string \<Rightarrow> string \<Rightarrow> int" where
  "compareProps a b = (if a < b then -1 else if a > b then 1 else 0)"

definition setAdded :: "'a jsset \<Rightarrow> 'a jsset \<Rightarrow> 'a list" where
  "setAdded before after = filter (\<lambda>item. item \<notin> set before) after"

definition opt_member :: "string option \<Rightarrow> string jsset \<Rightarrow> bool" where
  "opt_member x s = (case x of None \<Rightarrow> False | Some n \<Rightarrow> n \<in> set s)"

definition endpoints_in :: "string jsset \<Rightarrow> string \<Rightarrow> bool" where
  "endpoints_in nodes edgeKey =
     (let e = decodeEdgeKey edgeKey in opt_member (part_from e) nodes \<and> opt_member (part_to e) nodes)"

definition visible_sets :: "warp_state option \<Rightarrow> string jsset \<times> string jsset" where
  "visible_sets st =
     (case st of
        None \<Rightarrow> ([], [])
      | Some s \<Rightarrow>
          let nodes = set_of (orsetElements (nodeAlive s))
          in (nodes, set_of (filter (endpoints_in nodes) (orsetElements (edgeAlive s)))))"

definition diffNodesAndEdges ::
  "warp_state option \<Rightarrow> warp_state \<Rightarrow> (string list \<times> string list) \<times> (edge_parts list \<times> edge_parts list)" where
  "diffNodesAndEdges before after =
     (let (beforeNodes, beforeEdges) = visible_sets before;
          (afterNodes, afterEdges) = visible_sets (Some after)
      in ((setAdded beforeNodes afterNodes, setAdded afterNodes beforeNodes),
          (map decodeEdgeKey (setAdded beforeEdges afterEdges),
           map decodeEdgeKey (setAdded afterEdges beforeEdges))))"

definition diffProps_step ::
  "(string, lww_register) jsmap \<Rightarrow> (string, lww_register) jsmap \<Rightarrow> prop_set list \<times> prop_removed list \<Rightarrow>
     string \<Rightarrow> prop_set list \<times> prop_removed list" where
  "diffProps_step beforeProps afterProps acc key =
     (if isEdgePropKey key then acc
      else
        let beforeReg = map_of beforeProps key; afterReg = map_of afterProps key;
            beforeValue = lwwValue beforeReg; afterValue = lwwValue afterReg;
            nk = decodePropKey key
        in if afterReg \<noteq> None \<and> beforeReg = None then
             (fst acc @ [\<lparr>set_key = key, set_nodeId = fst nk, set_propKey = snd nk,
                          set_oldValue = JUndef, set_newValue = afterValue\<rparr>], snd acc)
           else if afterReg = None \<and> beforeReg \<noteq> None then
             (fst acc, snd acc @ [\<lparr>rem_key = key, rem_nodeId = fst nk, rem_propKey = snd nk,
                                   rem_oldValue = beforeValue\<rparr>])
           else if afterReg \<noteq> None \<and> \<not> deepEqual beforeValue afterValue then
             (fst acc @ [\<lparr>set_key = key, set_nodeId = fst nk, set_propKey = snd nk,
                          set_oldValue = beforeValue, set_newValue = afterValue\<rparr>], snd acc)
           else acc)"

definition diffProps :: "warp_state option \<Rightarrow> warp_state \<Rightarrow> prop_set list \<times> prop_removed list" where
  "diffProps before after =
     (let beforeProps = (case before of None \<Rightarrow> [] | Some s \<Rightarrow> propMap s);
          allPropKeys = set_of (map_keys beforeProps @ map_keys (propMap after))
      in foldl (diffProps_step beforeProps (propMap after)) ([], []) allPropKeys)"

definition diffStates :: "warp_state option \<Rightarrow> warp_state \<Rightarrow> state_diff" where
  "diffStates before after =
     (let ((na, nr), (ea, er)) = diffNodesAndEdges before after;
          (ps, pr) = diffProps before after
      in \<lparr>diff_nodesAdded = sort na, diff_nodesRemoved = sort nr,
          diff_edgesAdded = sort_by compareEdges ea, diff_edgesRemoved = sort_by compareEdges er,
          diff_propsSet = sort_by (\<lambda>a b. compareProps (set_key a) (set_key b)) ps,
          diff_propsRemoved = sort_by (\<lambda>a b. compareProps (rem_key a) (rem_key b)) pr\<rparr>)"

definition isEmptyDiff :: "state_diff \<Rightarrow> bool" where
  "isEmptyDiff d \<longleftrightarrow>
     length (diff_nodesAdded d) = 0 \<and> length (diff_nodesRemoved d) = 0 \<and>
     length (diff_edgesAdded d) = 0 \<and> length (diff_edgesRemoved d) = 0 \<and>
     length (diff_propsSet d) = 0 \<and> length (diff_propsRemoved d) = 0"

definition createEmptyStateDiff :: state_diff where
  "createEmptyStateDiff =
     \<lparr>diff_nodesAdded = [], diff_nodesRemoved = [], diff_edgesAdded = [], diff_edgesRemoved = [],
      diff_propsSet = [], diff_propsRemoved = []\<rparr>"

section \<open>Exactness\<close>

definition nodes_of :: "warp_state option \<Rightarrow> string set" where
  "nodes_of st = (case st of None \<Rightarrow> {} | Some s \<Rightarrow> {n. nodeVisibleV5 s (Some n)})"

definition edges_of :: "warp_state option \<Rightarrow> string set" where
  "edges_of st = (case st of None \<Rightarrow> {} | Some s \<Rightarrow> {k. edgeVisibleV5 s k})"

lemma visible_sets_eq:
  "set (fst (visible_sets st)) = nodes_of st" "set (snd (visible_sets st)) = edges_of st"
  by (auto simp: visible_sets_def nodes_of_def edges_of_def nodeVisibleV5_def edgeVisibleV5_def
      endpoints_in_def opt_member_def Let_def split: option.splits)

lemma visible_sets_distinct:
  "distinct (fst (visible_sets st))" "distinct (snd (visible_sets st))"
  by (simp_all add: visible_sets_def Let_def split: option.split)

lemma diffStates_nodes:
  "set (diff_nodesAdded (diffStates before after)) = nodes_of (Some after) - nodes_of before"
  "set (diff_nodesRemoved (diffStates before after)) = nodes_of before - nodes_of (Some after)"
  "sorted (diff_nodesAdded (diffStates before after))" "distinct (diff_nodesAdded (diffStates before after))"
  "sorted (diff_nodesRemoved (diffStates before after))" "distinct (diff_nodesRemoved (diffStates before after))"
  using visible_sets_eq [of before] visible_sets_eq [of "Some after"]
    visible_sets_distinct [of before] visible_sets_distinct [of "Some after"]
  by (auto simp: diffStates_def diffNodesAndEdges_def setAdded_def Let_def case_prod_unfold)

lemma diffStates_edges:
  "set (diff_edgesAdded (diffStates before after)) = decodeEdgeKey ` (edges_of (Some after) - edges_of before)"
  "set (diff_edgesRemoved (diffStates before after)) = decodeEdgeKey ` (edges_of before - edges_of (Some after))"
  using visible_sets_eq [of before] visible_sets_eq [of "Some after"]
  by (auto simp: diffStates_def diffNodesAndEdges_def setAdded_def Let_def case_prod_unfold)

text \<open>The keys that the property loop reports.\<close>

definition prop_reg :: "warp_state option \<Rightarrow> string \<Rightarrow> lww_register option" where
  "prop_reg st k = (case st of None \<Rightarrow> None | Some s \<Rightarrow> map_of (propMap s) k)"

definition prop_is_set :: "warp_state option \<Rightarrow> warp_state \<Rightarrow> string \<Rightarrow> bool" where
  "prop_is_set before after k \<longleftrightarrow> \<not> isEdgePropKey k \<and> map_of (propMap after) k \<noteq> None \<and>
     (prop_reg before k = None \<or> \<not> deepEqual (lwwValue (prop_reg before k)) (lwwValue (map_of (propMap after) k)))"

definition prop_is_removed :: "warp_state option \<Rightarrow> warp_state \<Rightarrow> string \<Rightarrow> bool" where
  "prop_is_removed before after k \<longleftrightarrow>
     \<not> isEdgePropKey k \<and> map_of (propMap after) k = None \<and> prop_reg before k \<noteq> None"

definition prop_set_row :: "warp_state option \<Rightarrow> warp_state \<Rightarrow> string \<Rightarrow> prop_set" where
  "prop_set_row before after k =
     \<lparr>set_key = k, set_nodeId = fst (decodePropKey k), set_propKey = snd (decodePropKey k),
      set_oldValue = lwwValue (prop_reg before k), set_newValue = lwwValue (map_of (propMap after) k)\<rparr>"

definition prop_removed_row :: "warp_state option \<Rightarrow> string \<Rightarrow> prop_removed" where
  "prop_removed_row before k =
     \<lparr>rem_key = k, rem_nodeId = fst (decodePropKey k), rem_propKey = snd (decodePropKey k),
      rem_oldValue = lwwValue (prop_reg before k)\<rparr>"

lemma before_props: "map_of (case before of None \<Rightarrow> [] | Some s \<Rightarrow> propMap s) k = prop_reg before k"
  by (simp add: prop_reg_def split: option.split)

lemma diffProps_fold:
  "foldl (diffProps_step (case before of None \<Rightarrow> [] | Some s \<Rightarrow> propMap s) (propMap after)) acc ks =
     (fst acc @ map (prop_set_row before after) (filter (prop_is_set before after) ks),
      snd acc @ map (prop_removed_row before) (filter (prop_is_removed before after) ks))"
proof (induction ks arbitrary: acc)
  case Nil
  then show ?case by simp
next
  case (Cons k ks)
  have "diffProps_step (case before of None \<Rightarrow> [] | Some s \<Rightarrow> propMap s) (propMap after) acc k =
     (fst acc @ map (prop_set_row before after) (filter (prop_is_set before after) [k]),
      snd acc @ map (prop_removed_row before) (filter (prop_is_removed before after) [k]))"
    by (auto simp: diffProps_step_def Let_def before_props prop_is_set_def prop_is_removed_def
        prop_set_row_def prop_removed_row_def lwwValue_def)
  then show ?case by (simp add: Cons)
qed

lemma all_keys: "set (map_keys (case before of None \<Rightarrow> [] | Some s \<Rightarrow> propMap s)) = {k. prop_reg before k \<noteq> None}"
proof -
  have "set (map_keys m) = {k. map_of m k \<noteq> None}" for m :: "(string, lww_register) jsmap"
    using dom_map_of_conv_image_fst [of m] by (simp add: dom_def)
  then show ?thesis by (cases before) (simp_all add: prop_reg_def)
qed

lemma diffStates_props:
  "set (diff_propsSet (diffStates before after)) = prop_set_row before after ` {k. prop_is_set before after k}"
  "set (diff_propsRemoved (diffStates before after)) = prop_removed_row before ` {k. prop_is_removed before after k}"
proof -
  let ?ks = "set_of (map_keys (case before of None \<Rightarrow> [] | Some s \<Rightarrow> propMap s) @ map_keys (propMap after))"
  have ks: "set ?ks = {k. prop_reg before k \<noteq> None} \<union> {k. map_of (propMap after) k \<noteq> None}"
    using all_keys [of before] by (auto simp: map_of_eq_None_iff)
  have d: "diffProps before after =
      (map (prop_set_row before after) (filter (prop_is_set before after) ?ks),
       map (prop_removed_row before) (filter (prop_is_removed before after) ?ks))"
    unfolding diffProps_def Let_def diffProps_fold by simp
  show "set (diff_propsSet (diffStates before after)) = prop_set_row before after ` {k. prop_is_set before after k}"
    using ks by (auto simp: diffStates_def d Let_def case_prod_unfold prop_is_set_def)
  show "set (diff_propsRemoved (diffStates before after)) = prop_removed_row before ` {k. prop_is_removed before after k}"
    using ks by (auto simp: diffStates_def d Let_def case_prod_unfold prop_is_removed_def)
qed

lemma isEmptyDiff_iff:
  "isEmptyDiff (diffStates before after) \<longleftrightarrow>
     nodes_of before = nodes_of (Some after) \<and> edges_of before = edges_of (Some after) \<and>
     (\<forall>k. \<not> prop_is_set before after k \<and> \<not> prop_is_removed before after k)"
proof -
  have e: "length xs = 0 \<longleftrightarrow> set xs = {}" for xs :: "'a list" by simp
  show ?thesis
    unfolding isEmptyDiff_def e diffStates_nodes diffStates_edges diffStates_props by blast
qed

end
