(* ===== verification/Compaction.thy ===== *)
theory Compaction
  imports Convergence
begin

text \<open>
  \<open>src/domain/services/GCMetrics.js\<close> and \<open>src/domain/services/GCPolicy.js\<close>: the metrics of a
  state, the decision to compact it, and the compaction. The ratio is a floating-point division;
  the operations of the language on doubles are parameters (\<open>fdiv\<close>, \<open>zero\<close>, and the order of
  the type \<open>'r\<close>), and the clock is left out.
\<close>

definition countEntries :: "orset \<Rightarrow> nat" where
  "countEntries s = foldl (\<lambda>count (_, dots). count + length dots) 0 (entries s)"

definition countLiveDots :: "orset \<Rightarrow> nat" where
  "countLiveDots s =
     foldl (\<lambda>count (_, dots). foldl (\<lambda>c dot. if dot \<notin> set (tombstones s) then c + 1 else c) count dots)
       0 (entries s)"

definition countTombstones :: "orset \<Rightarrow> nat" where
  "countTombstones s =
     foldl (\<lambda>count (_, dots). foldl (\<lambda>c dot. if dot \<in> set (tombstones s) then c + 1 else c) count dots)
       0 (entries s)"

record 'r gc_metrics =
  nodeEntries :: nat
  edgeEntries :: nat
  totalEntries :: nat
  nodeTombstones :: nat
  edgeTombstones :: nat
  totalTombstones :: nat
  nodeLiveDots :: nat
  edgeLiveDots :: nat
  totalLiveDots :: nat
  tombstoneRatio :: 'r

definition collectGCMetrics :: "(nat \<Rightarrow> nat \<Rightarrow> 'r) \<Rightarrow> 'r \<Rightarrow> warp_state \<Rightarrow> 'r gc_metrics" where
  "collectGCMetrics fdiv zero st =
     (let nE = countEntries (nodeAlive st); eE = countEntries (edgeAlive st);
          nL = countLiveDots (nodeAlive st); eL = countLiveDots (edgeAlive st);
          nT = countTombstones (nodeAlive st); eT = countTombstones (edgeAlive st);
          denominator = (nT + eT) + (nL + eL)
      in \<lparr>nodeEntries = nE, edgeEntries = eE, totalEntries = nE + eE,
          nodeTombstones = nT, edgeTombstones = eT, totalTombstones = nT + eT,
          nodeLiveDots = nL, edgeLiveDots = eL, totalLiveDots = nL + eL,
          tombstoneRatio = (if denominator > 0 then fdiv (nT + eT) denominator else zero)\<rparr>)"

section \<open>The decision\<close>

record 'r gc_policy =
  policy_enabled :: bool
  tombstoneRatioThreshold :: 'r
  entryCountThreshold :: int
  minPatchesSinceCompaction :: int
  maxTimeSinceCompaction :: int
  compactOnCheckpoint :: bool

text \<open>\<open>ratio\<close> is the literal \<open>0.3\<close>.\<close>

definition DEFAULT_GC_POLICY :: "'r \<Rightarrow> 'r gc_policy" where
  "DEFAULT_GC_POLICY ratio =
     \<lparr>policy_enabled = False, tombstoneRatioThreshold = ratio, entryCountThreshold = 50000,
      minPatchesSinceCompaction = 1000, maxTimeSinceCompaction = 86400000, compactOnCheckpoint = True\<rparr>"

record 'r gc_input =
  in_tombstoneRatio :: 'r
  in_totalEntries :: int
  in_patchesSinceCompaction :: int
  in_timeSinceCompaction :: int

text \<open>The message of a reason, with the two numbers it prints.\<close>

datatype 'r gc_reason =
    RatioExceeds 'r 'r
  | EntriesExceed int int
  | PatchesExceed int int
  | TimeExceeds int int

definition shouldRunGC :: "('r :: linorder) gc_input \<Rightarrow> 'r gc_policy \<Rightarrow> bool \<times> 'r gc_reason list" where
  "shouldRunGC metrics policy =
     (let reasons =
        (if in_tombstoneRatio metrics > tombstoneRatioThreshold policy
         then [RatioExceeds (in_tombstoneRatio metrics) (tombstoneRatioThreshold policy)] else []) @
        (if in_totalEntries metrics > entryCountThreshold policy
         then [EntriesExceed (in_totalEntries metrics) (entryCountThreshold policy)] else []) @
        (if in_patchesSinceCompaction metrics > minPatchesSinceCompaction policy
         then [PatchesExceed (in_patchesSinceCompaction metrics) (minPatchesSinceCompaction policy)] else []) @
        (if in_timeSinceCompaction metrics > maxTimeSinceCompaction policy
         then [TimeExceeds (in_timeSinceCompaction metrics) (maxTimeSinceCompaction policy)] else [])
      in (length reasons > 0, reasons))"

section \<open>The compaction\<close>

record gc_result =
  nodesCompacted :: int
  edgesCompacted :: int
  tombstonesRemoved :: int

text \<open>
  \<open>GcFailed nodesDone\<close> is the error of a phase; the caller's state is then partly compacted, and it
  is discarded because callers compact a clone. The ratio of the metrics is not read.
\<close>

definition executeGC :: "warp_state \<Rightarrow> version_vector \<Rightarrow> (warp_state \<times> gc_result) result" where
  "executeGC st appliedVV =
     (let beforeMetrics = collectGCMetrics (\<lambda>_ _. ()) () st
      in case orsetCompact (nodeAlive st) appliedVV of
           Inl _ \<Rightarrow> Inl (GcFailed False)
         | Inr nodes \<Rightarrow>
             (case orsetCompact (edgeAlive st) appliedVV of
                Inl _ \<Rightarrow> Inl (GcFailed True)
              | Inr edges \<Rightarrow>
                  let st' = st\<lparr>nodeAlive := nodes, edgeAlive := edges\<rparr>;
                      afterMetrics = collectGCMetrics (\<lambda>_ _. ()) () st'
                  in Inr (st',
                       \<lparr>nodesCompacted = int (nodeEntries beforeMetrics) - int (nodeEntries afterMetrics),
                        edgesCompacted = int (edgeEntries beforeMetrics) - int (edgeEntries afterMetrics),
                        tombstonesRemoved =
                          int (totalTombstones beforeMetrics) - int (totalTombstones afterMetrics)\<rparr>)))"

section \<open>Counting\<close>

definition dot_pairs :: "orset \<Rightarrow> (string \<times> string) set" where
  "dot_pairs s = {(e, d). d \<in> orset_dots s e}"

definition dead_pairs :: "orset \<Rightarrow> (string \<times> string) set" where
  "dead_pairs s = {(e, d). d \<in> orset_dots s e \<and> d \<in> orset_tombs s}"

lemma count_fold:
  "foldl (\<lambda>c x. if P x then c + 1 else c) n xs = n + length (filter P xs)"
  by (induction xs arbitrary: n) auto

lemma count_folds:
  "foldl (\<lambda>count (_, dots). foldl (\<lambda>c dot. if P dot then c + 1 else c) count dots) n es =
     n + length (filter (P \<circ> snd) (concat (map (\<lambda>(e, ds). map (Pair e) ds) es)))"
  by (induction es arbitrary: n) (auto simp: count_fold comp_def filter_map)

lemma count_entries_fold:
  "foldl (\<lambda>count (_, dots). count + length dots) n es =
     n + length (concat (map (\<lambda>(e, ds). map (Pair e) ds) es))"
  by (induction es arbitrary: n) auto

lemma entry_pairs_are_distinct: "orset_wf s \<Longrightarrow> distinct (entry_pairs s)"
proof -
  assume wf: "orset_wf s"
  have gen: "distinct (concat (map (\<lambda>(e, ds). map (Pair e) ds) es))"
    if "distinct (map fst es)" "\<And>e ds. (e, ds) \<in> set es \<Longrightarrow> distinct ds" for es :: "(string \<times> string list) list"
    using that
  proof (induction es)
    case Nil
    then show ?case by simp
  next
    case (Cons p es)
    obtain e ds where p: "p = (e, ds)" by force
    have "distinct (concat (map (\<lambda>(e, ds). map (Pair e) ds) es))"
    proof (rule Cons.IH)
      show "distinct (map fst es)" using Cons.prems(1) by simp
      show "distinct ds'" if "(f, ds') \<in> set es" for f ds'
        using Cons.prems(2) [of f ds'] that by simp
    qed
    moreover have "distinct ds" using Cons.prems(2) [of e ds] p by simp
    moreover have "e \<notin> fst ` set es" using Cons.prems(1) p by simp
    ultimately show ?case
      by (force simp: p distinct_map inj_on_def)
  qed
  have "distinct ds" if "(e, ds) \<in> set (entries s)" for e ds
    using wf map_of_is_SomeI [of "entries s" e ds] that unfolding orset_wf_def by blast
  then show ?thesis
    using gen [of "entries s"] wf by (simp add: entry_pairs_def orset_wf_def)
qed

lemma countEntries_card: "orset_wf s \<Longrightarrow> countEntries s = card (dot_pairs s)"
proof -
  assume wf: "orset_wf s"
  have "countEntries s = length (entry_pairs s)"
    by (simp add: countEntries_def count_entries_fold entry_pairs_def)
  also have "\<dots> = card (dot_pairs s)"
    using distinct_card [OF entry_pairs_are_distinct [OF wf]] entry_pairs_set [OF wf]
    by (simp add: dot_pairs_def)
  finally show ?thesis .
qed

lemma countTombstones_card: "orset_wf s \<Longrightarrow> countTombstones s = card (dead_pairs s)"
proof -
  assume wf: "orset_wf s"
  have "countTombstones s = length (filter ((\<lambda>d. d \<in> set (tombstones s)) \<circ> snd) (entry_pairs s))"
    by (simp add: countTombstones_def count_folds entry_pairs_def)
  also have "\<dots> = card (set (filter ((\<lambda>d. d \<in> set (tombstones s)) \<circ> snd) (entry_pairs s)))"
    by (rule distinct_card [symmetric]) (simp add: entry_pairs_are_distinct [OF wf])
  also have "set (filter ((\<lambda>d. d \<in> set (tombstones s)) \<circ> snd) (entry_pairs s)) = dead_pairs s"
    using entry_pairs_set [OF wf] by (auto simp: dead_pairs_def orset_tombs_def)
  finally show ?thesis .
qed

lemma dot_pairs_finite: "orset_wf s \<Longrightarrow> finite (dot_pairs s)"
  using entry_pairs_set [of s] by (metis List.finite_set dot_pairs_def)

lemma countLive_partition: "countEntries s = countLiveDots s + countTombstones s"
  using sum_length_filter_compl [of "\<lambda>p. snd p \<in> set (tombstones s)" "entry_pairs s"]
  by (simp add: countEntries_def countLiveDots_def countTombstones_def count_folds count_entries_fold
      entry_pairs_def comp_def)

text \<open>A compaction forgets dead pairs only, and as many dots as tombstoned pairs.\<close>

lemma compact_counts:
  assumes "orset_wf s" "orsetCompact s vv = Inr s'"
  shows "int (countEntries s) - int (countEntries s') = int (countTombstones s) - int (countTombstones s')"
    and "countLiveDots s' = countLiveDots s"
proof -
  note eff = orsetCompact_effect [OF assms]
  let ?F = "{(e, d). d \<in> orset_dots s e \<and> d \<in> orset_forgotten s vv}"
  have F: "?F \<subseteq> dead_pairs s" "?F \<subseteq> dot_pairs s" "dead_pairs s \<subseteq> dot_pairs s"
    using forgotten_tombs [of s vv] by (auto simp: dead_pairs_def dot_pairs_def)
  have fin: "finite (dot_pairs s)" by (rule dot_pairs_finite [OF assms(1)])
  have p: "dot_pairs s' = dot_pairs s - ?F"
    by (auto simp: dot_pairs_def eff(2))
  have t: "dead_pairs s' = dead_pairs s - ?F"
    by (auto simp: dead_pairs_def eff(2,3))
  have finF: "finite ?F" and finD: "finite (dead_pairs s)"
    using fin F finite_subset by blast+
  have cp: "card (dot_pairs s') = card (dot_pairs s) - card ?F" "card ?F \<le> card (dot_pairs s)"
    unfolding p using finF F(2) fin by (simp_all add: card_Diff_subset card_mono)
  have ct: "card (dead_pairs s') = card (dead_pairs s) - card ?F" "card ?F \<le> card (dead_pairs s)"
    unfolding t using finF F(1) finD by (simp_all add: card_Diff_subset card_mono)
  note cards = countEntries_card [OF assms(1)] countEntries_card [OF eff(1)]
    countTombstones_card [OF assms(1)] countTombstones_card [OF eff(1)]
  show c: "int (countEntries s) - int (countEntries s') = int (countTombstones s) - int (countTombstones s')"
    using cards cp ct by simp
  show "countLiveDots s' = countLiveDots s"
    using c countLive_partition [of s] countLive_partition [of s'] by simp
qed

lemma executeGC_cases:
  assumes "executeGC st vv = Inr (st', r)"
  obtains nodes edges where "orsetCompact (nodeAlive st) vv = Inr nodes" "orsetCompact (edgeAlive st) vv = Inr edges"
    "st' = st\<lparr>nodeAlive := nodes, edgeAlive := edges\<rparr>"
    "nodesCompacted r = int (countEntries (nodeAlive st)) - int (countEntries nodes)"
    "edgesCompacted r = int (countEntries (edgeAlive st)) - int (countEntries edges)"
    "tombstonesRemoved r = int (countTombstones (nodeAlive st)) + int (countTombstones (edgeAlive st))
       - int (countTombstones nodes) - int (countTombstones edges)"
  using assms that
  by (auto simp: executeGC_def collectGCMetrics_def Let_def split: sum.splits)

end
