(* ===== verification/JsonText.thy ===== *)
theory JsonText
  imports JsStrings
begin

text \<open>
  \<open>JSON.stringify\<close> on strings, pairs of strings and arrays of them, as the fingerprints of the
  source use it: the escapes of the language for code units below 256, and the proof that the text
  determines the value.
\<close>

definition hex_digit :: "nat \<Rightarrow> char" where
  "hex_digit n = char_of (if n < 10 then 48 + n else 87 + n)"

definition hex_value :: "char \<Rightarrow> nat" where
  "hex_value c = (let n = of_char c :: nat in if n < 58 then n - 48 else n - 87)"

definition QUOTE :: char where "QUOTE = CHR 0x22"
definition BACKSLASH :: char where "BACKSLASH = CHR 0x5C"

definition short_escape :: "char \<Rightarrow> char option" where
  "short_escape c =
     map_of [(CHR 0x22, CHR 0x22), (CHR 0x5C, CHR 0x5C), (CHR 0x08, CHR ''b''), (CHR 0x0C, CHR ''f''),
             (CHR 0x0A, CHR ''n''), (CHR 0x0D, CHR ''r''), (CHR 0x09, CHR ''t'')] c"

definition json_escape :: "char \<Rightarrow> string" where
  "json_escape c =
     (case short_escape c of
        Some e \<Rightarrow> [BACKSLASH, e]
      | None \<Rightarrow>
          let n = of_char c :: nat
          in if n < 32 then [BACKSLASH, CHR ''u'', CHR ''0'', CHR ''0'', hex_digit (n div 16), hex_digit (n mod 16)]
             else [c])"

definition json_quote :: "string \<Rightarrow> string" where
  "json_quote s = [QUOTE] @ concat (map json_escape s) @ [QUOTE]"

definition json_pair :: "string \<times> string \<Rightarrow> string" where
  "json_pair p = ''['' @ json_quote (fst p) @ '','' @ json_quote (snd p) @ '']''"

definition json_pairs :: "(string \<times> string) list \<Rightarrow> string" where
  "json_pairs ps = ''['' @ join_with '','' (map json_pair ps) @ '']''"

section \<open>The text determines the value\<close>

definition short_unescape :: "char \<Rightarrow> char option" where
  "short_unescape e =
     map_of [(CHR 0x22, CHR 0x22), (CHR 0x5C, CHR 0x5C), (CHR ''b'', CHR 0x08), (CHR ''f'', CHR 0x0C),
             (CHR ''n'', CHR 0x0A), (CHR ''r'', CHR 0x0D), (CHR ''t'', CHR 0x09)] e"

definition read_char :: "string \<Rightarrow> char \<times> string" where
  "read_char s =
     (if hd s \<noteq> BACKSLASH then (hd s, tl s)
      else case short_unescape (s ! 1) of
             Some c \<Rightarrow> (c, drop 2 s)
           | None \<Rightarrow> (char_of (16 * hex_value (s ! 4) + hex_value (s ! 5)), drop 6 s))"

lemma short_unescape_escape: "short_escape c = Some e \<Longrightarrow> short_unescape e = Some c"
  by (auto simp: short_escape_def short_unescape_def split: if_splits)

lemma hex_value_digit: "n < 16 \<Longrightarrow> hex_value (hex_digit n) = n"
  by (auto simp: hex_value_def hex_digit_def Let_def)

lemma read_json_escape: "read_char (json_escape c @ rest) = (c, rest)"
proof (cases "short_escape c")
  case (Some e)
  then show ?thesis
    by (simp add: json_escape_def read_char_def short_unescape_escape)
next
  case None
  let ?n = "of_char c :: nat"
  have d: "16 * (?n div 16) + ?n mod 16 = ?n" by simp
  have nb: "c \<noteq> BACKSLASH"
    using None by (auto simp: short_escape_def BACKSLASH_def split: if_splits)
  show ?thesis
  proof (cases "?n < 32")
    case True
    then have "?n div 16 < 16" "?n mod 16 < 16" by auto
    then have "16 * hex_value (hex_digit (?n div 16)) + hex_value (hex_digit (?n mod 16)) = ?n"
      by (simp only: hex_value_digit d)
    then show ?thesis
      using None True by (simp add: json_escape_def read_char_def short_unescape_def Let_def)
  next
    case False
    then show ?thesis
      using None nb by (simp add: json_escape_def read_char_def Let_def)
  qed
qed

lemma json_escape_head: "\<exists>r. json_escape c = (if short_escape c = None \<and> 32 \<le> (of_char c :: nat) then c else BACKSLASH) # r"
  by (auto simp: json_escape_def Let_def split: option.split)

lemma json_escape_not_quote: "hd (json_escape c @ r) \<noteq> QUOTE"
proof -
  have "c \<noteq> QUOTE" if "short_escape c = None"
    using that by (auto simp: short_escape_def QUOTE_def split: if_splits)
  moreover have "BACKSLASH \<noteq> QUOTE" by (simp add: BACKSLASH_def QUOTE_def)
  ultimately show ?thesis using json_escape_head [of c] by (auto split: if_splits)
qed

lemma json_body_inj:
  "concat (map json_escape s) @ QUOTE # a = concat (map json_escape t) @ QUOTE # b \<Longrightarrow> s = t \<and> a = b"
proof (induction s arbitrary: t)
  case Nil
  then show ?case
  proof (cases t)
    case (Cons d t')
    then have "QUOTE = hd (json_escape d @ concat (map json_escape t') @ QUOTE # b)"
      using Nil by (metis append.assoc append_Nil concat.simps list.map list.sel(1))
    then show ?thesis using json_escape_not_quote by metis
  qed simp
next
  case (Cons c s)
  show ?case
  proof (cases t)
    case Nil
    then have "QUOTE = hd (json_escape c @ concat (map json_escape s) @ QUOTE # a)"
      using Cons.prems by simp
    then show ?thesis using json_escape_not_quote by metis
  next
    case t: (Cons d t')
    have "read_char (json_escape c @ concat (map json_escape s) @ QUOTE # a) =
          read_char (json_escape d @ concat (map json_escape t') @ QUOTE # b)"
      using Cons.prems t by simp
    then have "c = d" and r: "concat (map json_escape s) @ QUOTE # a = concat (map json_escape t') @ QUOTE # b"
      by (simp_all only: read_json_escape prod.inject)
    from Cons.IH [OF r] \<open>c = d\<close> t show ?thesis by simp
  qed
qed

lemma json_quote_inj: "json_quote s @ a = json_quote t @ b \<Longrightarrow> s = t \<and> a = b"
  using json_body_inj [of s a t b] by (simp add: json_quote_def)

lemma json_pair_inj: "json_pair p @ a = json_pair q @ b \<Longrightarrow> p = q \<and> a = b"
proof -
  assume "json_pair p @ a = json_pair q @ b"
  then have e: "json_quote (fst p) @ '','' @ json_quote (snd p) @ '']'' @ a =
      json_quote (fst q) @ '','' @ json_quote (snd q) @ '']'' @ b"
    by (simp add: json_pair_def)
  from json_quote_inj [OF e] have f: "fst p = fst q"
    and r: "json_quote (snd p) @ '']'' @ a = json_quote (snd q) @ '']'' @ b" by simp_all
  from json_quote_inj [OF r] f show ?thesis by (simp add: prod_eq_iff)
qed

lemma json_pairs_body_inj:
  "join_with '','' (map json_pair ps) @ '']'' = join_with '','' (map json_pair qs) @ '']'' \<Longrightarrow> ps = qs"
proof (induction ps arbitrary: qs rule: induct_list012)
  case 1
  then show ?case
  proof (cases qs)
    case (Cons q qs')
    then show ?thesis using 1 by (cases qs') (simp_all add: json_pair_def)
  qed simp
next
  case (2 p)
  show ?case
  proof (cases qs)
    case Nil
    then show ?thesis using 2 by (simp add: json_pair_def)
  next
    case (Cons q qs')
    show ?thesis
    proof (cases qs')
      case Nil
      then show ?thesis using 2 Cons json_pair_inj [of p "'']''" q "'']''"] by simp
    next
      case (Cons q' qs'')
      then show ?thesis
        using 2 \<open>qs = q # qs'\<close> json_pair_inj [of p "'']''" q "'','' @ join_with '','' (map json_pair qs') @ '']''"]
        by simp
    qed
  qed
next
  case (3 p p' ps)
  show ?case
  proof (cases qs)
    case Nil
    then show ?thesis using 3(3) by (simp add: json_pair_def)
  next
    case (Cons q qs')
    show ?thesis
    proof (cases qs')
      case Nil
      then show ?thesis
        using 3(3) Cons json_pair_inj [of p "'','' @ join_with '','' (map json_pair (p' # ps)) @ '']''" q "'']''"]
        by simp
    next
      case (Cons q' qs'')
      have "p = q \<and> '','' @ join_with '','' (map json_pair (p' # ps)) @ '']'' =
          '','' @ join_with '','' (map json_pair qs') @ '']''"
        using 3(3) Cons \<open>qs = q # qs'\<close>
        by (intro json_pair_inj) simp
      then show ?thesis using 3(2) [of qs'] \<open>qs = q # qs'\<close> by simp
    qed
  qed
qed

lemma json_pairs_inj: "json_pairs ps = json_pairs qs \<Longrightarrow> ps = qs"
  by (intro json_pairs_body_inj) (simp add: json_pairs_def)

end
