(* ===== verification/Frontier.thy ===== *)
theory Frontier
  imports JsonText
begin

text \<open>
  \<open>src/domain/services/Frontier.js\<close>: the map from writer id to the last patch SHA seen. The CBOR
  codec is the parameter \<open>encode\<close>/\<open>decode\<close> of the two functions that take it.
\<close>

type_synonym frontier = "(string, string) jsmap"

definition createFrontier :: frontier where
  "createFrontier = []"

definition updateFrontier :: "frontier \<Rightarrow> string \<Rightarrow> string \<Rightarrow> frontier" where
  "updateFrontier fr writerId patchSha = map_set fr writerId patchSha"

definition getFrontierEntry :: "frontier \<Rightarrow> string \<Rightarrow> string option" where
  "getFrontierEntry fr writerId = map_of fr writerId"

definition getWriters :: "frontier \<Rightarrow> string list" where
  "getWriters fr = sort (map_keys fr)"

definition frontier_object :: "frontier \<Rightarrow> (string \<times> string) list" where
  "frontier_object fr = foldl (\<lambda>obj key. obj_set_prim obj key (the (map_of fr key))) [] (sort (map_keys fr))"

definition serializeFrontier :: "((string \<times> string) list \<Rightarrow> 'bytes) \<Rightarrow> frontier \<Rightarrow> 'bytes" where
  "serializeFrontier encode fr = encode (frontier_object fr)"

definition deserializeFrontier :: "('bytes \<Rightarrow> (string \<times> string) list) \<Rightarrow> 'bytes \<Rightarrow> frontier" where
  "deserializeFrontier decode buffer = foldl (\<lambda>fr (w, sha). map_set fr w sha) [] (decode buffer)"

definition cloneFrontier :: "frontier \<Rightarrow> frontier" where
  "cloneFrontier fr = fr"

definition frontierFingerprint :: "frontier \<Rightarrow> string" where
  "frontierFingerprint fr = json_pairs (sort_by (\<lambda>a b. str_cmp (fst a) (fst b)) fr)"

definition mergeFrontiers :: "frontier \<Rightarrow> frontier \<Rightarrow> frontier" where
  "mergeFrontiers a b = foldl (\<lambda>merged (writerId, patchSha). map_set merged writerId patchSha) a b"

section \<open>Laws\<close>

lemma map_set_all:
  "map_wf b \<Longrightarrow> map_of (foldl (\<lambda>m (k, v). map_set m k v) a b) = map_of a ++ map_of b"
proof (induction b arbitrary: a)
  case Nil
  then show ?case by simp
next
  case (Cons p b)
  obtain k v where p: "p = (k, v)" by force
  have "map_of b k = None"
    using Cons.prems p by (simp add: map_of_eq_None_iff)
  then show ?case
    using Cons p by (auto simp: map_add_def fun_eq_iff split: option.split)
qed

lemma map_set_all_wf: "map_wf a \<Longrightarrow> map_wf (foldl (\<lambda>m (k, v). map_set m k v) a b)"
  by (induction b arbitrary: a) auto

lemma mergeFrontiers_entry:
  "map_wf b \<Longrightarrow> getFrontierEntry (mergeFrontiers a b) w =
     (case getFrontierEntry b w of Some sha \<Rightarrow> Some sha | None \<Rightarrow> getFrontierEntry a w)"
  unfolding getFrontierEntry_def mergeFrontiers_def by (simp add: map_set_all map_add_def)

lemma frontier_object_fold:
  "map_of (foldl (\<lambda>obj key. obj_set_prim obj key (f key)) acc ks) =
     (\<lambda>k. if k \<in> set ks \<and> k \<noteq> ''__proto__'' then Some (f k) else map_of acc k)"
  by (induction ks arbitrary: acc) (auto simp: fun_eq_iff)

lemma frontier_object_wf: "map_wf (frontier_object fr)"
proof -
  have "map_wf (foldl (\<lambda>obj key. obj_set_prim obj key (f key)) acc ks)"
    if "map_wf acc" for f :: "string \<Rightarrow> string" and acc ks
    using that by (induction ks arbitrary: acc) auto
  then show ?thesis by (simp add: frontier_object_def)
qed

lemma frontier_object_map_of:
  "map_of (frontier_object fr) = (\<lambda>k. if k = ''__proto__'' then None else map_of fr k)"
proof
  fix k
  have "k \<in> set (map_keys fr) \<longleftrightarrow> map_of fr k \<noteq> None"
    by (metis list.set_map map_of_eq_None_iff)
  then show "map_of (frontier_object fr) k = (if k = ''__proto__'' then None else map_of fr k)"
    by (auto simp: frontier_object_def frontier_object_fold)
qed

lemma frontierFingerprint_iff:
  assumes "map_wf a" "map_wf b"
  shows "frontierFingerprint a = frontierFingerprint b \<longleftrightarrow> map_of a = map_of b"
proof
  assume "frontierFingerprint a = frontierFingerprint b"
  then have "sort_key fst a = sort_key fst b"
    by (intro json_pairs_inj) (simp add: frontierFingerprint_def sort_by_str_key)
  then have "set a = set b"
    by (metis set_sort)
  then show "map_of a = map_of b"
    using assms map_of_inject_set by blast
next
  assume e: "map_of a = map_of b"
  have "sort_key fst a = sort_key fst b"
    using map_wf_mset_eq [OF assms e] assms(1) by (intro sort_key_perm_eq) (auto simp: distinct_map)
  then show "frontierFingerprint a = frontierFingerprint b"
    by (simp add: frontierFingerprint_def sort_by_str_key)
qed

end
