(* ===== verification/LruCache.thy ===== *)
theory LruCache
  imports Prelude
begin

text \<open>
  \<open>src/domain/utils/LRUCache.js\<close>: the bounded cache whose \<open>Map\<close> holds the entries in the order of
  their last use. It refines the list of everything ever touched, cut to its last \<open>maxSize\<close> keys.
\<close>

section \<open>The cache\<close>

record ('k, 'v) lru_cache =
  maxSize :: nat
  cached :: "('k, 'v) jsmap"

datatype lru_error = MaxSizeNotPositive

definition newLRUCache :: "jsval \<Rightarrow> lru_error + ('k, 'v) lru_cache" where
  "newLRUCache limit =
     (case js_int limit of
        None \<Rightarrow> Inl MaxSizeNotPositive
      | Some n \<Rightarrow> if n < 1 then Inl MaxSizeNotPositive else Inr \<lparr>maxSize = nat n, cached = []\<rparr>)"

definition lru_get :: "('k, 'v) lru_cache \<Rightarrow> 'k \<Rightarrow> 'v option \<times> ('k, 'v) lru_cache" where
  "lru_get c key =
     (case map_of (cached c) key of
        None \<Rightarrow> (None, c)
      | Some value \<Rightarrow> (Some value, c\<lparr>cached := map_set (map_delete (cached c) key) key value\<rparr>))"

definition lru_set :: "('k, 'v) lru_cache \<Rightarrow> 'k \<Rightarrow> 'v \<Rightarrow> ('k, 'v) lru_cache" where
  "lru_set c key value =
     (let m = (if map_of (cached c) key \<noteq> None then map_delete (cached c) key else cached c);
          m' = map_set m key value
      in c\<lparr>cached := (if length m' > maxSize c then map_delete m' (hd (map_keys m')) else m')\<rparr>)"

definition lru_has :: "('k, 'v) lru_cache \<Rightarrow> 'k \<Rightarrow> bool" where
  "lru_has c key \<longleftrightarrow> map_of (cached c) key \<noteq> None"

definition lru_delete :: "('k, 'v) lru_cache \<Rightarrow> 'k \<Rightarrow> bool \<times> ('k, 'v) lru_cache" where
  "lru_delete c key = (map_of (cached c) key \<noteq> None, c\<lparr>cached := map_delete (cached c) key\<rparr>)"

definition lru_clear :: "('k, 'v) lru_cache \<Rightarrow> ('k, 'v) lru_cache" where
  "lru_clear c = c\<lparr>cached := []\<rparr>"

definition lru_size :: "('k, 'v) lru_cache \<Rightarrow> nat" where
  "lru_size c = length (cached c)"

section \<open>The invariant\<close>

definition lru_inv :: "('k, 'v) lru_cache \<Rightarrow> bool" where
  "lru_inv c \<longleftrightarrow> map_wf (cached c) \<and> length (cached c) \<le> maxSize c \<and> 1 \<le> maxSize c"

lemma delete_filter: "map_delete m k = filter (\<lambda>e. fst e \<noteq> k) m"
  by (auto simp: AList.delete_eq intro: filter_cong)

lemma update_deleted [simp]: "map_set (map_delete m k) k v = map_delete m k @ [(k, v)]"
  by (rule update_absent) (auto simp: delete_filter)

lemma delete_absent: "k \<notin> fst ` set m \<Longrightarrow> map_delete m k = m"
  by (auto simp: delete_filter filter_id_conv)

lemma delete_first: "map_wf m \<Longrightarrow> m \<noteq> [] \<Longrightarrow> map_delete m (hd (map_keys m)) = tl m"
  using delete_absent [of "fst (hd m)" "tl m"] by (cases m) auto

lemma length_delete: "map_wf m \<Longrightarrow> k \<in> fst ` set m \<Longrightarrow> Suc (length (map_delete m k)) = length m"
  by (induction m) (auto simp: delete_absent)

text \<open>What setting a key does to the entries: it moves to the end, and the oldest key may go.\<close>

lemma lru_set_cached:
  assumes "lru_inv c"
  shows "cached (lru_set c k v) =
    (let m = map_delete (cached c) k @ [(k, v)] in if length m > maxSize c then tl m else m)"
proof -
  have wf: "map_wf (map_delete (cached c) k @ [(k, v)])"
    using assms by (auto simp: lru_inv_def delete_filter distinct_map_filter)
  have m: "map_set (if map_of (cached c) k \<noteq> None then map_delete (cached c) k else cached c) k v =
      map_delete (cached c) k @ [(k, v)]"
    by (auto simp: map_of_eq_None_iff update_absent delete_absent)
  show ?thesis unfolding lru_set_def Let_def m using delete_first [OF wf] by simp
qed

lemma lru_get_cached:
  "lru_get c k = (case map_of (cached c) k of None \<Rightarrow> (None, c)
     | Some v \<Rightarrow> (Some v, c\<lparr>cached := map_delete (cached c) k @ [(k, v)]\<rparr>))"
  by (simp add: lru_get_def split: option.split)

lemma newLRUCache_inv: "newLRUCache limit = Inr c \<Longrightarrow> lru_inv c"
  by (auto simp: newLRUCache_def lru_inv_def split: option.splits if_splits)

lemma maxSize_simps [simp]:
  "maxSize (lru_set c k v) = maxSize c" "maxSize (snd (lru_get c k)) = maxSize c"
  "maxSize (snd (lru_delete c k)) = maxSize c" "maxSize (lru_clear c) = maxSize c"
  by (simp_all add: lru_set_def lru_get_def lru_delete_def lru_clear_def Let_def split: option.split)

lemma lru_set_inv: "lru_inv c \<Longrightarrow> lru_inv (lru_set c k v)"
proof -
  assume c: "lru_inv c"
  have "map_wf (map_delete (cached c) k @ [(k, v)])"
    using c by (auto simp: lru_inv_def delete_filter distinct_map_filter)
  moreover have "length (map_delete (cached c) k) \<le> length (cached c)" by (simp add: delete_filter)
  ultimately show ?thesis
    using c unfolding lru_inv_def lru_set_cached [OF c] by (auto simp: Let_def map_tl distinct_tl)
qed

lemma lru_get_inv: "lru_inv c \<Longrightarrow> lru_inv (snd (lru_get c k))"
proof -
  assume c: "lru_inv c"
  show ?thesis
  proof (cases "map_of (cached c) k")
    case None
    with c show ?thesis by (simp add: lru_get_cached)
  next
    case (Some v)
    then have "k \<in> fst ` set (cached c)" by (metis domI dom_map_of_conv_image_fst)
    with c Some show ?thesis
      using length_delete [of "cached c" k] by (auto simp: lru_inv_def lru_get_cached delete_filter distinct_map_filter)
  qed
qed

lemma lru_delete_inv: "lru_inv c \<Longrightarrow> lru_inv (snd (lru_delete c k))" "lru_inv c \<Longrightarrow> lru_inv (lru_clear c)"
  by (auto simp: lru_inv_def lru_delete_def lru_clear_def delete_filter distinct_map_filter
      intro: order_trans [OF length_filter_le])

section \<open>Reading and writing\<close>

lemma map_of_tl:
  assumes "map_wf m" "map_of (tl m) k = Some v"
  shows "map_of m k = Some v"
  using assms by (cases m) (auto dest: map_of_SomeD simp: rev_image_eqI)

lemma lru_set_get: "lru_inv c \<Longrightarrow> fst (lru_get (lru_set c k v) k) = Some v"
proof -
  assume c: "lru_inv c"
  let ?m = "map_delete (cached c) k @ [(k, v)]"
  have "map_of (cached (lru_set c k v)) k = Some v"
  proof (cases "length ?m > maxSize c")
    case True
    then have "map_delete (cached c) k \<noteq> []" using c by (auto simp: lru_inv_def)
    moreover have "k \<notin> fst ` set (map_delete (cached c) k)" by (auto simp: delete_filter)
    then have "k \<notin> fst ` set (tl (map_delete (cached c) k))"
      by (cases "map_delete (cached c) k") auto
    ultimately show ?thesis
      using True by (simp add: lru_set_cached [OF c] Let_def tl_append2 map_of_eq_None_iff [THEN iffD2] map_add_def)
  next
    case False
    then show ?thesis by (simp add: lru_set_cached [OF c] Let_def map_add_def)
  qed
  then show ?thesis by (simp add: lru_get_cached)
qed

text \<open>A cache never invents: what it returns for a key was there before, or is what was just set.\<close>

lemma lru_set_other:
  assumes "lru_inv c" "map_of (cached (lru_set c k v)) k' = Some w"
  shows "k' = k \<and> w = v \<or> k' \<noteq> k \<and> map_of (cached c) k' = Some w"
proof -
  let ?m = "map_delete (cached c) k @ [(k, v)]"
  have wf: "map_wf ?m" using assms(1) by (auto simp: lru_inv_def delete_filter distinct_map_filter)
  have "map_of ?m k' = Some w"
    using assms(2) map_of_tl [OF wf] by (auto simp: lru_set_cached [OF assms(1)] Let_def split: if_splits)
  then show ?thesis by (auto simp: map_add_Some_iff split: if_splits)
qed

lemma lru_get_lookup: "fst (lru_get c k) = map_of (cached c) k"
  by (simp add: lru_get_def split: option.split)

lemma lru_get_same: "map_of (cached (snd (lru_get c k))) = map_of (cached c)"
  by (auto simp: lru_get_def fun_eq_iff map_add_def split: option.split)

section \<open>Least recently used\<close>

text \<open>The specification: everything ever touched, the last touch last, cut to its last \<open>n\<close> keys.\<close>

definition touch :: "'k list \<Rightarrow> 'k \<Rightarrow> 'k list" where
  "touch ks k = removeAll k ks @ [k]"

definition last_n :: "nat \<Rightarrow> 'a list \<Rightarrow> 'a list" where
  "last_n n xs = drop (length xs - n) xs"

lemma keys_delete: "map_keys (map_delete m k) = removeAll k (map_keys m)"
  by (induction m) (auto simp: delete_filter)

lemma distinct_touch: "distinct ks \<Longrightarrow> distinct (touch ks k)"
  by (simp add: touch_def distinct_removeAll)

lemma length_removeAll_distinct: "distinct ks \<Longrightarrow> k \<in> set ks \<Longrightarrow> Suc (length (removeAll k ks)) = length ks"
  by (induction ks) (auto simp: removeAll_id)

lemma last_n_removeAll:
  assumes "distinct ks" "k \<in> set (last_n n ks)" "0 < n"
  shows "last_n n (touch ks k) = touch (last_n n ks) k"
proof -
  let ?d = "length ks - n"
  have split: "ks = take ?d ks @ drop ?d ks" by simp
  have k: "k \<in> set (drop ?d ks)" using assms(2) by (simp add: last_n_def)
  then have "k \<notin> set (take ?d ks)"
    using assms(1) by (metis append_take_drop_id distinct_append disjoint_iff)
  then have r: "removeAll k ks = take ?d ks @ removeAll k (drop ?d ks)"
    by (metis removeAll_append removeAll_id split)
  have "k \<in> set ks" using k by (rule in_set_dropD)
  then have "length (removeAll k ks) = length ks - 1"
    using length_removeAll_distinct [OF assms(1)] by fastforce
  then have "length (touch ks k) = length ks"
    using \<open>k \<in> set ks\<close> by (cases ks) (auto simp: touch_def)
  then show ?thesis by (simp add: last_n_def touch_def r min_def)
qed

lemma last_n_new:
  assumes "distinct ks" "k \<notin> set (last_n n ks)" "0 < n"
  shows "last_n n (touch ks k) = last_n n (last_n n ks @ [k])"
proof -
  let ?d = "length ks - n"
  have k: "k \<notin> set (drop ?d ks)" using assms(2) by (simp add: last_n_def)
  have r: "removeAll k ks = removeAll k (take ?d ks) @ drop ?d ks"
    using k by (metis append_take_drop_id removeAll_append removeAll_id)
  show ?thesis
  proof (cases "length ks \<le> n")
    case True
    then show ?thesis using k by (simp add: last_n_def touch_def removeAll_id)
  next
    case False
    then show ?thesis by (simp add: last_n_def touch_def r Suc_diff_le)
  qed
qed

lemma lru_set_keys:
  assumes c: "lru_inv c" and keys: "map_keys (cached c) = last_n (maxSize c) ks" and d: "distinct ks"
  shows "map_keys (cached (lru_set c k v)) = last_n (maxSize c) (touch ks k)"
proof -
  let ?n = "maxSize c" and ?m = "map_delete (cached c) k @ [(k, v)]"
  have n: "0 < ?n" "length (cached c) \<le> ?n" using c by (auto simp: lru_inv_def)
  have km: "map_keys ?m = touch (last_n ?n ks) k" by (simp add: keys_delete touch_def keys)
  have s: "map_keys (cached (lru_set c k v)) =
      (if length ?m > ?n then tl (touch (last_n ?n ks) k) else touch (last_n ?n ks) k)"
    by (simp add: lru_set_cached [OF c] Let_def map_tl km [symmetric] del: map_append)
  show ?thesis
  proof (cases "k \<in> set (last_n ?n ks)")
    case True
    then have "Suc (length (map_delete (cached c) k)) = length (cached c)"
      using c keys by (intro length_delete) (auto simp: lru_inv_def simp flip: set_map)
    then have "\<not> length ?m > ?n" using n by simp
    then show ?thesis using last_n_removeAll [OF d True n(1)] s by simp
  next
    case False
    then have t: "touch (last_n ?n ks) k = last_n ?n ks @ [k]" by (simp add: touch_def removeAll_id)
    have "length ?m = length (last_n ?n ks) + 1" using arg_cong [OF km, of length] by (simp add: t)
    moreover have "length (last_n ?n ks) \<le> ?n" by (simp add: last_n_def)
    moreover have "last_n ?n (l @ [k]) = (if length l + 1 > ?n then tl (l @ [k]) else l @ [k])" if "length l \<le> ?n" for l
      using that n(1) by (cases "length l = ?n"; cases l) (auto simp: last_n_def drop_Suc)
    ultimately show ?thesis unfolding s last_n_new [OF d False n(1)] t by simp
  qed
qed

lemma lru_get_keys:
  assumes keys: "map_keys (cached c) = last_n (maxSize c) ks" and d: "distinct ks" and n: "0 < maxSize c"
  shows "map_keys (cached (snd (lru_get c k))) =
    last_n (maxSize c) (if lru_has c k then touch ks k else ks)"
proof (cases "map_of (cached c) k")
  case None
  then show ?thesis by (simp add: lru_get_cached lru_has_def keys)
next
  case (Some v)
  then have "k \<in> set (last_n (maxSize c) ks)"
    unfolding keys [symmetric] by (metis domI dom_map_of_conv_image_fst set_map)
  then show ?thesis
    using Some last_n_removeAll [OF d _ n] by (simp add: lru_get_cached lru_has_def keys_delete keys touch_def)
qed

end
