(* ===== verification/Neighbors.thy ===== *)
theory Neighbors
  imports JsStrings LruCache
begin

text \<open>
  Where the traversals read the graph: the port \<open>src/ports/NeighborProviderPort.js\<close> as the locale
  \<open>neighbor_provider\<close>, its in-memory provider
  \<open>src/domain/services/AdjacencyNeighborProvider.js\<close>, and the reader of
  \<open>src/domain/services/GraphTraversal.js\<close> that memoises a provider in an LRU cache. The locale
  \<open>reading\<close> is what the searches use of a reader; \<open>cached_reading\<close> says when the cache is
  transparent, and \<open>labels_collide\<close> shows a query for which it is not.
\<close>

section \<open>Edges\<close>

datatype direction = Out | In | Both

datatype neighbor_edge = NeighborEdge (neighborId: string) (edge_label: string)

text \<open>The \<open>labels\<close> of the options, when given.\<close>

type_synonym label_filter = "string jsset option"

definition edgeCmp :: "neighbor_edge \<Rightarrow> neighbor_edge \<Rightarrow> int" where
  "edgeCmp a b =
     (if neighborId a < neighborId b then -1
      else if neighborId a > neighborId b then 1
      else if edge_label a < edge_label b then -1
      else if edge_label a > edge_label b then 1
      else 0)"

instantiation neighbor_edge :: linorder
begin

definition less_eq_neighbor_edge :: "neighbor_edge \<Rightarrow> neighbor_edge \<Rightarrow> bool" where
  "less_eq_neighbor_edge a b \<longleftrightarrow> (neighborId a, edge_label a) \<le> (neighborId b, edge_label b)"

definition less_neighbor_edge :: "neighbor_edge \<Rightarrow> neighbor_edge \<Rightarrow> bool" where
  "less_neighbor_edge a b \<longleftrightarrow> (neighborId a, edge_label a) < (neighborId b, edge_label b)"

instance
  by standard (auto simp: less_eq_neighbor_edge_def less_neighbor_edge_def neighbor_edge.expand)

end

lemma edgeCmp_sign: "edgeCmp a b \<le> 0 \<longleftrightarrow> a \<le> b" "edgeCmp a b < 0 \<longleftrightarrow> a < b" "0 < edgeCmp a b \<longleftrightarrow> b < a"
  by (auto simp: edgeCmp_def less_eq_neighbor_edge_def less_neighbor_edge_def)

lemma sort_by_edgeCmp: "sort_by edgeCmp es = sort es"
  by (rule sort_by_key) (simp add: edgeCmp_sign)

section \<open>The port\<close>

record provider =
  prov_neighbors :: "string \<Rightarrow> direction \<Rightarrow> label_filter \<Rightarrow> neighbor_edge list"
  prov_hasNode :: "string \<Rightarrow> bool"
  prov_sync :: bool

text \<open>
  What the port promises: edges sorted by (neighborId, label), a label filter that selects, and for
  \<open>Both\<close> the union of the two directions without duplicates.
\<close>

locale neighbor_provider =
  fixes p :: provider
  assumes sorted_edges: "sorted (prov_neighbors p v d opt)"
    and filtered: "set (prov_neighbors p v d (Some ls)) = {e \<in> set (prov_neighbors p v d None). edge_label e \<in> set ls}"
    and filter_set: "set ls = set ls' \<Longrightarrow> prov_neighbors p v d (Some ls) = prov_neighbors p v d (Some ls')"
    and both_union: "set (prov_neighbors p v Both opt) = set (prov_neighbors p v Out opt) \<union> set (prov_neighbors p v In opt)"
begin

lemma filter_shrinks: "set (prov_neighbors p v d (Some ls)) \<subseteq> set (prov_neighbors p v d None)"
  by (auto simp: filtered)

lemma filter_mono: "set ls \<subseteq> set ls' \<Longrightarrow> set (prov_neighbors p v d (Some ls)) \<subseteq> set (prov_neighbors p v d (Some ls'))"
  by (auto simp: filtered)

end

section \<open>The adjacency provider\<close>

type_synonym adjacency = "(string, neighbor_edge list) jsmap"

record adjacency_provider =
  adj_outgoing :: adjacency
  adj_incoming :: adjacency
  adj_aliveNodes :: "string jsset"

definition sortAdjacencyMap :: "adjacency \<Rightarrow> adjacency" where
  "sortAdjacencyMap adjMap = foldl (\<lambda>result (nodeId, edges). map_set result nodeId (sort_by edgeCmp edges)) [] adjMap"

definition filterByLabels :: "neighbor_edge list \<Rightarrow> label_filter \<Rightarrow> neighbor_edge list" where
  "filterByLabels edges labels =
     (case labels of None \<Rightarrow> edges | Some ls \<Rightarrow> filter (\<lambda>e. edge_label e \<in> set ls) edges)"

fun mergeSorted :: "neighbor_edge list \<Rightarrow> neighbor_edge list \<Rightarrow> neighbor_edge list" where
  "mergeSorted [] bs = bs"
| "mergeSorted as [] = as"
| "mergeSorted (a # as) (b # bs) =
     (let cmp = edgeCmp a b
      in if cmp < 0 then a # mergeSorted as (b # bs)
         else if cmp > 0 then b # mergeSorted (a # as) bs
         else a # mergeSorted as bs)"

definition newAdjacencyProvider :: "adjacency \<Rightarrow> adjacency \<Rightarrow> string jsset \<Rightarrow> adjacency_provider" where
  "newAdjacencyProvider outgoing incoming aliveNodes =
     \<lparr>adj_outgoing = sortAdjacencyMap outgoing, adj_incoming = sortAdjacencyMap incoming,
      adj_aliveNodes = aliveNodes\<rparr>"

definition edges_at :: "adjacency \<Rightarrow> string \<Rightarrow> neighbor_edge list" where
  "edges_at m v = (case map_of m v of None \<Rightarrow> [] | Some es \<Rightarrow> es)"

definition adj_getNeighbors :: "adjacency_provider \<Rightarrow> string \<Rightarrow> direction \<Rightarrow> label_filter \<Rightarrow> neighbor_edge list" where
  "adj_getNeighbors ap nodeId direction labels =
     (let outEdges = filterByLabels (edges_at (adj_outgoing ap) nodeId) labels;
          inEdges = filterByLabels (edges_at (adj_incoming ap) nodeId) labels
      in case direction of Out \<Rightarrow> outEdges | In \<Rightarrow> inEdges | Both \<Rightarrow> mergeSorted outEdges inEdges)"

definition adj_hasNode :: "adjacency_provider \<Rightarrow> string \<Rightarrow> bool" where
  "adj_hasNode ap nodeId \<longleftrightarrow> nodeId \<in> set (adj_aliveNodes ap)"

definition adj_provider :: "adjacency_provider \<Rightarrow> provider" where
  "adj_provider ap = \<lparr>prov_neighbors = adj_getNeighbors ap, prov_hasNode = adj_hasNode ap, prov_sync = True\<rparr>"

lemma sortAdjacencyMap_edges:
  assumes "map_wf m"
  shows "edges_at (sortAdjacencyMap m) v = sort (edges_at m v)"
proof -
  have "map_of (foldl (\<lambda>result (nodeId, edges). map_set result nodeId (sort_by edgeCmp edges)) r m) v =
      (case map_of m v of None \<Rightarrow> map_of r v | Some es \<Rightarrow> Some (sort es))" for r
    using assms
  proof (induction m arbitrary: r)
    case (Cons x m)
    obtain a b where x: "x = (a, b)" by (cases x)
    have "map_of m a = None" using Cons.prems by (simp add: x map_of_eq_None_iff)
    then show ?case
      using Cons by (cases "a = v") (simp_all add: x sort_by_edgeCmp split: option.split)
  qed simp
  then show ?thesis by (simp add: edges_at_def sortAdjacencyMap_def split: option.split)
qed

lemma mergeSorted_set [simp]: "set (mergeSorted as bs) = set as \<union> set bs"
proof (induction as bs rule: mergeSorted.induct)
  case (3 a as b bs)
  have "a = b" if "\<not> edgeCmp a b < 0" "\<not> 0 < edgeCmp a b" using that by (simp add: edgeCmp_sign)
  with 3 show ?case by (auto simp: Let_def)
qed auto

lemma mergeSorted_sorted: "sorted as \<Longrightarrow> sorted bs \<Longrightarrow> sorted (mergeSorted as bs)"
proof (induction as bs rule: mergeSorted.induct)
  case (3 a as b bs)
  have "edgeCmp a b < 0 \<Longrightarrow> a < b" "0 < edgeCmp a b \<Longrightarrow> b < a" by (simp_all add: edgeCmp_sign)
  moreover have "a = b" if "\<not> edgeCmp a b < 0" "\<not> 0 < edgeCmp a b" using that by (simp add: edgeCmp_sign)
  ultimately show ?case using 3 by (fastforce simp: Let_def)
qed auto

lemma mergeSorted_distinct:
  assumes "sorted as" "sorted bs" "distinct as" "distinct bs"
  shows "distinct (mergeSorted as bs)"
  using assms
proof (induction as bs rule: mergeSorted.induct)
  case (3 a as b bs)
  have "edgeCmp a b < 0 \<Longrightarrow> a < b" "0 < edgeCmp a b \<Longrightarrow> b < a" by (simp_all add: edgeCmp_sign)
  moreover have "a = b" if "\<not> edgeCmp a b < 0" "\<not> 0 < edgeCmp a b" using that by (simp add: edgeCmp_sign)
  ultimately show ?case using 3 by (fastforce simp: Let_def)
qed auto

lemma filterByLabels_sorted: "sorted es \<Longrightarrow> sorted (filterByLabels es ls)"
  by (simp add: filterByLabels_def sorted_wrt_filter split: option.split)

definition adj_sorted :: "adjacency_provider \<Rightarrow> bool" where
  "adj_sorted ap \<longleftrightarrow> (\<forall>v. sorted (edges_at (adj_outgoing ap) v) \<and> sorted (edges_at (adj_incoming ap) v))"

lemma sortAdjacencyMap_sorted: "sorted (edges_at (sortAdjacencyMap m) v)"
proof -
  have "(\<And>es. map_of r v = Some es \<Longrightarrow> sorted es) \<Longrightarrow>
      map_of (foldl (\<lambda>result (nodeId, edges). map_set result nodeId (sort_by edgeCmp edges)) r m) v = Some es \<Longrightarrow>
      sorted es" for r es
  proof (induction m arbitrary: r)
    case (Cons x m)
    show ?case
      by (rule Cons.IH [of "map_set r (fst x) (sort (snd x))"])
        (use Cons.prems in \<open>auto simp: sort_by_edgeCmp case_prod_beta split: if_splits\<close>)
  qed simp
  from this [of "[]"] show ?thesis by (simp add: edges_at_def sortAdjacencyMap_def split: option.split)
qed

lemma newAdjacencyProvider_sorted: "adj_sorted (newAdjacencyProvider outgoing incoming alive)"
  by (simp add: adj_sorted_def newAdjacencyProvider_def sortAdjacencyMap_sorted)

lemma adj_provider_laws: "adj_sorted ap \<Longrightarrow> neighbor_provider (adj_provider ap)"
  by unfold_locales
    (auto simp: adj_provider_def adj_getNeighbors_def adj_sorted_def sorted_wrt_filter mergeSorted_sorted
      filterByLabels_def Let_def split: direction.split option.split)

interpretation adjacency: neighbor_provider "adj_provider (newAdjacencyProvider outgoing incoming alive)"
  for outgoing incoming alive
  by (rule adj_provider_laws [OF newAdjacencyProvider_sorted])

section \<open>The memoised reader\<close>

record trav_run =
  neighborCache :: "(string, neighbor_edge list) lru_cache option"
  cacheHits :: nat
  cacheMisses :: nat
  edgesTraversed :: nat

type_synonym neighbor_cache = "(string, neighbor_edge list) lru_cache option"

definition newNeighborCache :: "provider \<Rightarrow> jsval \<Rightarrow> lru_error + neighbor_cache" where
  "newNeighborCache p neighborCacheSize =
     (if prov_sync p then Inr None else bind_r (newLRUCache neighborCacheSize) (\<lambda>c. Inr (Some c)))"

definition newRunStats :: "neighbor_cache \<Rightarrow> trav_run" where
  "newRunStats c = \<lparr>neighborCache = c, cacheHits = 0, cacheMisses = 0, edgesTraversed = 0\<rparr>"

definition NUL :: char where
  "NUL = CHR 0x00"

fun direction_str :: "direction \<Rightarrow> string" where
  "direction_str Out = ''out''"
| "direction_str In = ''in''"
| "direction_str Both = ''both''"

definition labelsKey :: "label_filter \<Rightarrow> string" where
  "labelsKey labels = (case labels of None \<Rightarrow> ''*'' | Some ls \<Rightarrow> join_with [NUL] (sort ls))"

definition cache_key :: "string \<Rightarrow> direction \<Rightarrow> label_filter \<Rightarrow> string" where
  "cache_key nodeId direction labels = nodeId @ [NUL] @ direction_str direction @ [NUL] @ labelsKey labels"

definition getNeighbors ::
  "provider \<Rightarrow> string \<Rightarrow> direction \<Rightarrow> label_filter \<Rightarrow> trav_run \<Rightarrow> neighbor_edge list \<times> trav_run" where
  "getNeighbors p nodeId direction labels rs =
     (case neighborCache rs of
        None \<Rightarrow> (prov_neighbors p nodeId direction labels, rs)
      | Some cache \<Rightarrow>
          (case lru_get cache (cache_key nodeId direction labels) of
             (Some result, cache') \<Rightarrow> (result, rs\<lparr>neighborCache := Some cache', cacheHits := cacheHits rs + 1\<rparr>)
           | (None, cache') \<Rightarrow>
               (let result = prov_neighbors p nodeId direction labels
                in (result, rs\<lparr>neighborCache := Some (lru_set cache' (cache_key nodeId direction labels) result),
                      cacheMisses := cacheMisses rs + 1\<rparr>))))"

text \<open>Every caller adds the number of edges to its statistics.\<close>

definition expand ::
  "provider \<Rightarrow> direction \<Rightarrow> label_filter \<Rightarrow> string \<Rightarrow> trav_run \<Rightarrow> neighbor_edge list \<times> trav_run" where
  "expand p direction labels nodeId rs =
     (let (neighbors, rs') = getNeighbors p nodeId direction labels rs
      in (neighbors, rs'\<lparr>edgesTraversed := edgesTraversed rs' + length neighbors\<rparr>))"

subsection \<open>What the searches use\<close>

locale reading =
  fixes read :: "string \<Rightarrow> 'r \<Rightarrow> neighbor_edge list \<times> 'r"
    and nb :: "string \<Rightarrow> neighbor_edge list"
    and ok :: "'r \<Rightarrow> bool"
    and node :: "string \<Rightarrow> bool"
  assumes read_nb: "node v \<Longrightarrow> ok r \<Longrightarrow> fst (read v r) = nb v"
    and read_ok: "node v \<Longrightarrow> ok r \<Longrightarrow> ok (snd (read v r))"
    and node_nb: "node v \<Longrightarrow> e \<in> set (nb v) \<Longrightarrow> node (neighborId e)"

subsection \<open>When the cache is transparent\<close>

text \<open>Queries whose keys cannot be confused: no null character, no empty label, and not the label \<open>*\<close> alone.\<close>

definition plain_id :: "string \<Rightarrow> bool" where
  "plain_id v \<longleftrightarrow> NUL \<notin> set v"

definition plain_labels :: "label_filter \<Rightarrow> bool" where
  "plain_labels labels \<longleftrightarrow>
     (case labels of None \<Rightarrow> True | Some ls \<Rightarrow> (\<forall>l \<in> set ls. l \<noteq> [] \<and> NUL \<notin> set l) \<and> set ls \<noteq> {''*''})"

definition cache_ok :: "provider \<Rightarrow> neighbor_cache \<Rightarrow> bool" where
  "cache_ok p c \<longleftrightarrow> (case c of None \<Rightarrow> True | Some c \<Rightarrow> lru_inv c \<and>
     (\<forall>v d ls r. plain_id v \<longrightarrow> plain_labels ls \<longrightarrow> map_of (cached c) (cache_key v d ls) = Some r \<longrightarrow>
        r = prov_neighbors p v d ls))"

definition run_ok :: "provider \<Rightarrow> trav_run \<Rightarrow> bool" where
  "run_ok p rs \<longleftrightarrow> cache_ok p (neighborCache rs)"

lemma append_sep_inj: "c \<notin> set x \<Longrightarrow> c \<notin> set x' \<Longrightarrow> x @ c # y = x' @ c # y' \<longleftrightarrow> x = x' \<and> y = y'"
proof (induction x arbitrary: x')
  case Nil
  then show ?case by (cases x') auto
next
  case (Cons a x)
  then show ?case by (cases x') auto
qed

lemma direction_str_plain: "NUL \<notin> set (direction_str d)" "direction_str d = direction_str d' \<longleftrightarrow> d = d'"
  by (cases d; cases d'; simp add: NUL_def)+

lemma sort_Nil_iff [simp]: "sort xs = [] \<longleftrightarrow> xs = []"
  by (metis length_0_conv length_sort)

lemma labelsKey_inj:
  assumes "plain_labels ls" "plain_labels ls'" "labelsKey ls = labelsKey ls'"
  shows "ls = ls' \<or> (\<exists>a b. ls = Some a \<and> ls' = Some b \<and> set a = set b)"
proof -
  have split: "split_on NUL (join_with [NUL] (sort l)) = sort l" if "plain_labels (Some l)" "l \<noteq> []" for l
    using that by (intro split_on_join) (auto simp: plain_labels_def)
  have empty: "join_with [NUL] (sort l) = [] \<longleftrightarrow> l = []" if p: "plain_labels (Some l)" for l
  proof
    assume e: "join_with [NUL] (sort l) = []"
    show "l = []"
    proof (rule ccontr)
      assume "l \<noteq> []"
      then have "sort l = [[]]" using split [OF p] e by simp
      then have "[] \<in> set l" by (metis set_sort list.set_intros(1))
      then show False using p by (auto simp: plain_labels_def)
    qed
  qed simp
  have star: "join_with [NUL] (sort l) \<noteq> ''*''" if "plain_labels (Some l)" for l
  proof
    assume s: "join_with [NUL] (sort l) = ''*''"
    then have "l \<noteq> []" by auto
    then have "sort l = [''*'']" using split [OF that] s by (simp add: NUL_def js_simps)
    then have "set l = {''*''}" by (metis set_sort list.set(1) list.set(2))
    then show False using that by (simp add: plain_labels_def)
  qed
  have inj: "set a = set b" if "plain_labels (Some a)" "plain_labels (Some b)"
    "join_with [NUL] (sort a) = join_with [NUL] (sort b)" for a b
  proof (cases "a = [] \<or> b = []")
    case True
    then show ?thesis using that empty [OF that(1)] empty [OF that(2)] by auto
  next
    case False
    then have "split_on NUL (join_with [NUL] (sort a)) = sort a" "split_on NUL (join_with [NUL] (sort b)) = sort b"
      using split that(1,2) by blast+
    then have "sort a = sort b" unfolding that(3) by (rule trans [OF sym])
    then show ?thesis by (metis set_sort)
  qed
  show ?thesis
  proof (cases ls)
    case None
    then show ?thesis using assms star by (cases ls') (auto simp: labelsKey_def)
  next
    case (Some a)
    then obtain b where "ls' = Some b" using assms star [of a] by (cases ls') (auto simp: labelsKey_def)
    with Some show ?thesis using assms inj [of a b] by (simp add: labelsKey_def)
  qed
qed

lemma cache_key_inj:
  assumes "plain_id v" "plain_id v'" "plain_labels ls" "plain_labels ls'" "cache_key v d ls = cache_key v' d' ls'"
  shows "v = v' \<and> d = d' \<and> (ls = ls' \<or> (\<exists>a b. ls = Some a \<and> ls' = Some b \<and> set a = set b))"
  using assms direction_str_plain labelsKey_inj [OF assms(3,4)]
  by (auto simp: cache_key_def plain_id_def append_sep_inj)

context neighbor_provider
begin

lemma same_query:
  assumes "plain_id v" "plain_id v'" "plain_labels ls" "plain_labels ls'" "cache_key v d ls = cache_key v' d' ls'"
  shows "prov_neighbors p v d ls = prov_neighbors p v' d' ls'"
  using cache_key_inj [OF assms] filter_set by blast

lemma getNeighbors_transparent:
  assumes "plain_id v" "plain_labels ls" "run_ok p rs"
  shows "fst (getNeighbors p v d ls rs) = prov_neighbors p v d ls" "run_ok p (snd (getNeighbors p v d ls rs))"
proof -
  let ?k = "cache_key v d ls"
  have "fst (getNeighbors p v d ls rs) = prov_neighbors p v d ls \<and> run_ok p (snd (getNeighbors p v d ls rs))"
  proof (cases "neighborCache rs")
    case None
    then show ?thesis using assms(3) by (simp add: getNeighbors_def)
  next
    case (Some c)
    then have inv: "lru_inv c" and hit: "\<And>v d ls r. plain_id v \<Longrightarrow> plain_labels ls \<Longrightarrow>
        map_of (cached c) (cache_key v d ls) = Some r \<Longrightarrow> r = prov_neighbors p v d ls"
      using assms(3) by (auto simp: run_ok_def cache_ok_def)
    show ?thesis
    proof (cases "map_of (cached c) ?k")
      case None
      then have get: "lru_get c ?k = (None, c)" by (simp add: lru_get_def)
      have "r = prov_neighbors p v' d' ls'" if "plain_id v'" "plain_labels ls'"
        "map_of (cached (lru_set c ?k (prov_neighbors p v d ls))) (cache_key v' d' ls') = Some r" for v' d' ls' r
        using lru_set_other [OF inv that(3)] hit [OF that(1,2)] same_query [OF that(1) assms(1) that(2) assms(2)] by auto
      then show ?thesis
        using Some get lru_set_inv [OF inv] by (auto simp: getNeighbors_def run_ok_def cache_ok_def Let_def)
    next
      case (Some r)
      then have "r = prov_neighbors p v d ls" using hit assms(1,2) by blast
      moreover have "fst (lru_get c ?k) = Some r" by (simp add: lru_get_lookup Some)
      moreover note lru_get_inv [OF inv, of ?k] lru_get_same [of c ?k] hit
      ultimately show ?thesis
        using \<open>neighborCache rs = Some c\<close>
        by (cases "lru_get c ?k") (auto simp: getNeighbors_def run_ok_def cache_ok_def)
    qed
  qed
  then show "fst (getNeighbors p v d ls rs) = prov_neighbors p v d ls" "run_ok p (snd (getNeighbors p v d ls rs))" by simp_all
qed

lemma cached_reading:
  assumes "plain_labels ls" "\<And>v e. plain_id v \<Longrightarrow> e \<in> set (prov_neighbors p v d ls) \<Longrightarrow> plain_id (neighborId e)"
  shows "reading (expand p d ls) (\<lambda>v. prov_neighbors p v d ls) (run_ok p) plain_id"
  using assms getNeighbors_transparent [OF _ assms(1), where d = d]
  by unfold_locales (auto simp: expand_def run_ok_def case_prod_beta Let_def)

end

lemma newNeighborCache_ok: "newNeighborCache p size_opt = Inr c \<Longrightarrow> cache_ok p c"
  using newLRUCache_inv
  by (auto simp: newNeighborCache_def cache_ok_def newLRUCache_def bind_r_Inr_iff lru_inv_def split: if_splits option.splits)

text \<open>A provider that answers at once is not cached, and its reader needs no condition on ids or labels.\<close>

definition uncached :: "trav_run \<Rightarrow> bool" where
  "uncached rs \<longleftrightarrow> neighborCache rs = None"

interpretation sync: reading "expand p d ls" "\<lambda>v. prov_neighbors p v d ls" uncached "\<lambda>_. True" for p d ls
  by unfold_locales (auto simp: expand_def getNeighbors_def uncached_def)

text \<open>The key of "no filter" is the key of the filter that selects the label \<open>*\<close>.\<close>

lemma labels_collide: "cache_key v d None = cache_key v d (Some [''*''])"
  by (simp add: cache_key_def labelsKey_def)

end
