(* ===== verification/Search.thy ===== *)
theory Search
  imports Neighbors
begin

text \<open>
  The unweighted searches of \<open>src/domain/services/GraphTraversal.js\<close>: \<open>bfs\<close>, \<open>dfs\<close>,
  \<open>shortestPath\<close>, \<open>isReachable\<close>, \<open>connectedComponent\<close>, \<open>commonAncestors\<close> and \<open>rootAncestors\<close>. A
  search takes the cache of the engine and returns it with its result; hooks and abort signals are
  absent. The limits \<open>maxNodes\<close> and \<open>maxDepth\<close> are natural numbers, and bound every loop here.
\<close>

datatype trav_error =
    InvalidStart string
  | NoPath string string
  | WeightFnConflict
  | GraphHasCycles nat "(string \<times> string) option"
  | MaxEdgesExceeded nat

record trav_stats =
  stat_nodesVisited :: nat
  stat_edgesTraversed :: nat
  stat_cacheHits :: nat
  stat_cacheMisses :: nat

definition stats :: "nat \<Rightarrow> trav_run \<Rightarrow> trav_stats" where
  "stats nodesVisited rs =
     \<lparr>stat_nodesVisited = nodesVisited, stat_edgesTraversed = edgesTraversed rs,
      stat_cacheHits = cacheHits rs, stat_cacheMisses = cacheMisses rs\<rparr>"

definition DEFAULT_MAX_NODES :: nat where
  "DEFAULT_MAX_NODES = 100000"

definition DEFAULT_MAX_DEPTH :: nat where
  "DEFAULT_MAX_DEPTH = 1000"

definition validateStart :: "provider \<Rightarrow> string \<Rightarrow> trav_error + unit" where
  "validateStart p nodeId = (if prov_hasNode p nodeId then Inr () else Inl (InvalidStart nodeId))"

section \<open>Breadth-first search\<close>

record 'r bfs_state =
  bfs_visited :: "string jsset"
  bfs_result :: "string list"
  bfs_next :: "(string \<times> nat) list"
  bfs_queued :: "string jsset"
  bfs_run :: 'r

definition bfs_enqueue :: "nat \<Rightarrow> 'r bfs_state \<Rightarrow> neighbor_edge \<Rightarrow> 'r bfs_state" where
  "bfs_enqueue depth st e =
     (if neighborId e \<notin> set (bfs_visited st) \<and> neighborId e \<notin> set (bfs_queued st)
      then st\<lparr>bfs_queued := set_add (bfs_queued st) (neighborId e),
              bfs_next := bfs_next st @ [(neighborId e, depth + 1)]\<rparr>
      else st)"

text \<open>Once the limit is reached it stays reached: skipping the rest of the level is leaving the loop.\<close>

definition bfs_step ::
  "(string \<Rightarrow> 'r \<Rightarrow> neighbor_edge list \<times> 'r) \<Rightarrow> nat \<Rightarrow> nat \<Rightarrow> 'r bfs_state \<Rightarrow> string \<times> nat \<Rightarrow> 'r bfs_state" where
  "bfs_step read maxNodes maxDepth st item =
     (let (nodeId, depth) = item
      in if length (bfs_visited st) \<ge> maxNodes then st
         else if nodeId \<in> set (bfs_visited st) then st
         else if depth > maxDepth then st
         else
           (let st = st\<lparr>bfs_visited := set_add (bfs_visited st) nodeId, bfs_result := bfs_result st @ [nodeId]\<rparr>
            in if depth < maxDepth then
                 (let (neighbors, rs) = read nodeId (bfs_run st)
                  in foldl (bfs_enqueue depth) (st\<lparr>bfs_run := rs\<rparr>) neighbors)
               else st))"

definition bfs_level ::
  "(string \<Rightarrow> 'r \<Rightarrow> neighbor_edge list \<times> 'r) \<Rightarrow> nat \<Rightarrow> nat \<Rightarrow> string jsset \<Rightarrow> string list \<Rightarrow> 'r \<Rightarrow>
   (string \<times> nat) list \<Rightarrow> 'r bfs_state" where
  "bfs_level read maxNodes maxDepth visited result rs level =
     foldl (bfs_step read maxNodes maxDepth)
       \<lparr>bfs_visited = visited, bfs_result = result, bfs_next = [], bfs_queued = [], bfs_run = rs\<rparr>
       (sort_by (\<lambda>a b. str_cmp (fst a) (fst b)) level)"

lemma bfs_enqueue_visited [simp]:
  "bfs_visited (foldl (bfs_enqueue d) st es) = bfs_visited st"
  "bfs_result (foldl (bfs_enqueue d) st es) = bfs_result st"
  "bfs_run (foldl (bfs_enqueue d) st es) = bfs_run st"
  by (induction es arbitrary: st) (auto simp: bfs_enqueue_def)

lemma bfs_step_grows:
  "length (bfs_visited st) \<le> length (bfs_visited (bfs_step read n m st x)) \<and>
   (bfs_next (bfs_step read n m st x) = bfs_next st \<or> length (bfs_visited st) < length (bfs_visited (bfs_step read n m st x)))"
  by (auto simp: bfs_step_def Let_def set_add_def split: prod.split)

lemma bfs_steps_grow:
  "length (bfs_visited st) \<le> length (bfs_visited (foldl (bfs_step read n m) st xs)) \<and>
   (bfs_next (foldl (bfs_step read n m) st xs) = bfs_next st \<or>
    length (bfs_visited st) < length (bfs_visited (foldl (bfs_step read n m) st xs)))"
proof (induction xs arbitrary: st)
  case (Cons x xs)
  show ?case using Cons.IH [of "bfs_step read n m st x"] bfs_step_grows [of st read n m x] by auto
qed simp

function bfs_loop ::
  "(string \<Rightarrow> 'r \<Rightarrow> neighbor_edge list \<times> 'r) \<Rightarrow> nat \<Rightarrow> nat \<Rightarrow> string jsset \<Rightarrow> string list \<Rightarrow> 'r \<Rightarrow>
   (string \<times> nat) list \<Rightarrow> string jsset \<times> string list \<times> 'r" where
  "bfs_loop read maxNodes maxDepth visited result rs level =
     (if level \<noteq> [] \<and> length visited < maxNodes then
        (let st = bfs_level read maxNodes maxDepth visited result rs level
         in bfs_loop read maxNodes maxDepth (bfs_visited st) (bfs_result st) (bfs_run st) (bfs_next st))
      else (visited, result, rs))"
  by pat_completeness auto

termination
proof (relation "measure (\<lambda>(read, n, m, visited, result, rs, level). 2 * (n - length visited) + (if level = [] then 0 else 1))")
  fix read :: "string \<Rightarrow> 'r \<Rightarrow> neighbor_edge list \<times> 'r" and n m visited result rs level x
  assume c: "level \<noteq> [] \<and> length visited < n" and x: "x = bfs_level read n m visited result rs level"
  have "length visited \<le> length (bfs_visited x) \<and> (bfs_next x = [] \<or> length visited < length (bfs_visited x))"
    using bfs_steps_grow [of "\<lparr>bfs_visited = visited, bfs_result = result, bfs_next = [], bfs_queued = [], bfs_run = rs\<rparr>" read n m]
    by (simp add: x bfs_level_def)
  with c show "((read, n, m, bfs_visited x, bfs_result x, bfs_run x, bfs_next x), read, n, m, visited, result, rs, level)
      \<in> measure (\<lambda>(read, n, m, visited, result, rs, level). 2 * (n - length visited) + (if level = [] then 0 else 1))"
    by auto
qed simp

declare bfs_loop.simps [simp del]

record nodes_found =
  found_nodes :: "string list"
  found_stats :: trav_stats

definition bfs ::
  "provider \<Rightarrow> string \<Rightarrow> direction \<Rightarrow> label_filter \<Rightarrow> nat \<Rightarrow> nat \<Rightarrow> neighbor_cache \<Rightarrow>
   neighbor_cache \<times> (trav_error + nodes_found)" where
  "bfs p start direction labels maxNodes maxDepth cache =
     (case validateStart p start of
        Inl e \<Rightarrow> (cache, Inl e)
      | Inr _ \<Rightarrow>
          (let (visited, result, rs) =
             bfs_loop (expand p direction labels) maxNodes maxDepth [] [] (newRunStats cache) [(start, 0)]
           in (neighborCache rs, Inr \<lparr>found_nodes = result, found_stats = stats (length visited) rs\<rparr>)))"

definition connectedComponent ::
  "provider \<Rightarrow> string \<Rightarrow> label_filter \<Rightarrow> nat \<Rightarrow> nat \<Rightarrow> neighbor_cache \<Rightarrow> neighbor_cache \<times> (trav_error + nodes_found)" where
  "connectedComponent p start labels maxNodes maxDepth cache = bfs p start Both labels maxNodes maxDepth cache"

section \<open>Depth-first search\<close>

function dfs_loop ::
  "(string \<Rightarrow> 'r \<Rightarrow> neighbor_edge list \<times> 'r) \<Rightarrow> nat \<Rightarrow> nat \<Rightarrow> string jsset \<Rightarrow> string list \<Rightarrow> 'r \<Rightarrow>
   (string \<times> nat) list \<Rightarrow> string jsset \<times> string list \<times> 'r" where
  "dfs_loop read maxNodes maxDepth visited result rs stack =
     (if stack \<noteq> [] \<and> length visited < maxNodes then
        (let (nodeId, depth) = last stack; stack = butlast stack
         in if nodeId \<in> set visited then dfs_loop read maxNodes maxDepth visited result rs stack
            else if depth > maxDepth then dfs_loop read maxNodes maxDepth visited result rs stack
            else
              (let visited = set_add visited nodeId; result = result @ [nodeId]
               in if depth < maxDepth then
                    (let (neighbors, rs) = read nodeId rs;
                         stack = foldl (\<lambda>stack e. if neighborId e \<notin> set visited then stack @ [(neighborId e, depth + 1)] else stack)
                           stack (rev neighbors)
                     in dfs_loop read maxNodes maxDepth visited result rs stack)
                  else dfs_loop read maxNodes maxDepth visited result rs stack))
      else (visited, result, rs))"
  by pat_completeness auto

termination
  by (relation "(\<lambda>(read, n, m, visited, result, rs, stack). n - length visited) <*mlex*>
        measure (\<lambda>(read, n, m, visited, result, rs, stack). length stack)")
    (auto simp: wf_mlex mlex_iff set_add_def)

declare dfs_loop.simps [simp del]

definition dfs ::
  "provider \<Rightarrow> string \<Rightarrow> direction \<Rightarrow> label_filter \<Rightarrow> nat \<Rightarrow> nat \<Rightarrow> neighbor_cache \<Rightarrow>
   neighbor_cache \<times> (trav_error + nodes_found)" where
  "dfs p start direction labels maxNodes maxDepth cache =
     (case validateStart p start of
        Inl e \<Rightarrow> (cache, Inl e)
      | Inr _ \<Rightarrow>
          (let (visited, result, rs) =
             dfs_loop (expand p direction labels) maxNodes maxDepth [] [] (newRunStats cache) [(start, 0)]
           in (neighborCache rs, Inr \<lparr>found_nodes = result, found_stats = stats (length visited) rs\<rparr>)))"

section \<open>Paths\<close>

text \<open>Following predecessors may not end on an arbitrary map: \<open>None\<close> is a walk that never returns.\<close>

partial_function (option) walk_back ::
  "(string, string) jsmap \<Rightarrow> string \<Rightarrow> string \<Rightarrow> string list \<Rightarrow> string list option" where
  "walk_back predMap start current path =
     (if current \<noteq> start then
        (case map_of predMap current of
           None \<Rightarrow> Some path
         | Some pred \<Rightarrow> walk_back predMap start pred (path @ [pred]))
      else Some path)"

declare walk_back.simps [code]

definition reconstructPath :: "(string, string) jsmap \<Rightarrow> string \<Rightarrow> string \<Rightarrow> string list option" where
  "reconstructPath predMap start goal = map_option rev (walk_back predMap start goal [goal])"

record 'r sp_state =
  sp_visited :: "string jsset"
  sp_parent :: "(string, string) jsmap"
  sp_next :: "(string \<times> nat) list"
  sp_run :: 'r
  sp_found :: bool

text \<open>The return inside the loops: once the goal is found, nothing else happens.\<close>

definition sp_edge :: "string \<Rightarrow> string \<Rightarrow> nat \<Rightarrow> 'r sp_state \<Rightarrow> neighbor_edge \<Rightarrow> 'r sp_state" where
  "sp_edge goal nodeId depth st e =
     (if sp_found st then st
      else if neighborId e \<in> set (sp_visited st) then st
      else
        (let st = st\<lparr>sp_visited := set_add (sp_visited st) (neighborId e),
                     sp_parent := map_set (sp_parent st) (neighborId e) nodeId\<rparr>
         in if neighborId e = goal then st\<lparr>sp_found := True\<rparr>
            else st\<lparr>sp_next := sp_next st @ [(neighborId e, depth + 1)]\<rparr>))"

definition sp_step ::
  "(string \<Rightarrow> 'r \<Rightarrow> neighbor_edge list \<times> 'r) \<Rightarrow> string \<Rightarrow> nat \<Rightarrow> 'r sp_state \<Rightarrow> string \<times> nat \<Rightarrow> 'r sp_state" where
  "sp_step read goal maxDepth st item =
     (let (nodeId, depth) = item
      in if sp_found st then st
         else if depth \<ge> maxDepth then st
         else (let (neighbors, rs) = read nodeId (sp_run st)
               in foldl (sp_edge goal nodeId depth) (st\<lparr>sp_run := rs\<rparr>) neighbors))"

definition sp_level ::
  "(string \<Rightarrow> 'r \<Rightarrow> neighbor_edge list \<times> 'r) \<Rightarrow> string \<Rightarrow> nat \<Rightarrow> 'r sp_state \<Rightarrow> 'r sp_state" where
  "sp_level read goal maxDepth st =
     foldl (sp_step read goal maxDepth) (st\<lparr>sp_next := []\<rparr>)
       (sort_by (\<lambda>a b. str_cmp (fst a) (fst b)) (sp_next st))"

lemma sp_edge_grows:
  "length (sp_visited st) \<le> length (sp_visited (sp_edge g v d st e)) \<and>
   (sp_next (sp_edge g v d st e) = sp_next st \<or> length (sp_visited st) < length (sp_visited (sp_edge g v d st e)))"
  by (auto simp: sp_edge_def Let_def set_add_def)

lemma sp_edges_grow:
  "length (sp_visited st) \<le> length (sp_visited (foldl (sp_edge g v d) st es)) \<and>
   (sp_next (foldl (sp_edge g v d) st es) = sp_next st \<or>
    length (sp_visited st) < length (sp_visited (foldl (sp_edge g v d) st es)))"
proof (induction es arbitrary: st)
  case (Cons e es)
  show ?case using Cons.IH [of "sp_edge g v d st e"] sp_edge_grows [of st g v d e] by auto
qed simp

lemma sp_steps_grow:
  "length (sp_visited st) \<le> length (sp_visited (foldl (sp_step read g m) st xs)) \<and>
   (sp_next (foldl (sp_step read g m) st xs) = sp_next st \<or>
    length (sp_visited st) < length (sp_visited (foldl (sp_step read g m) st xs)))"
proof (induction xs arbitrary: st)
  case (Cons x xs)
  obtain v d where x: "x = (v, d)" by (cases x)
  have "length (sp_visited st) \<le> length (sp_visited (sp_step read g m st x)) \<and>
     (sp_next (sp_step read g m st x) = sp_next st \<or> length (sp_visited st) < length (sp_visited (sp_step read g m st x)))"
    using sp_edges_grow [of "st\<lparr>sp_run := snd (read v (sp_run st))\<rparr>" g v d "fst (read v (sp_run st))"]
    by (auto simp: sp_step_def x split: prod.split)
  then show ?case using Cons.IH [of "sp_step read g m st x"] by auto
qed simp

function sp_loop ::
  "(string \<Rightarrow> 'r \<Rightarrow> neighbor_edge list \<times> 'r) \<Rightarrow> string \<Rightarrow> nat \<Rightarrow> nat \<Rightarrow> 'r sp_state \<Rightarrow> 'r sp_state" where
  "sp_loop read goal maxNodes maxDepth st =
     (if \<not> sp_found st \<and> sp_next st \<noteq> [] \<and> length (sp_visited st) < maxNodes
      then sp_loop read goal maxNodes maxDepth (sp_level read goal maxDepth st)
      else st)"
  by pat_completeness auto

termination
proof (relation "measure (\<lambda>(read, g, n, m, st). 2 * (n - length (sp_visited st)) + (if sp_next st = [] then 0 else 1))")
  fix read :: "string \<Rightarrow> 'r \<Rightarrow> neighbor_edge list \<times> 'r" and g n m and st :: "'r sp_state"
  assume c: "\<not> sp_found st \<and> sp_next st \<noteq> [] \<and> length (sp_visited st) < n"
  have "length (sp_visited st) \<le> length (sp_visited (sp_level read g m st)) \<and>
     (sp_next (sp_level read g m st) = [] \<or> length (sp_visited st) < length (sp_visited (sp_level read g m st)))"
    using sp_steps_grow [of "st\<lparr>sp_next := []\<rparr>" read g m] by (simp add: sp_level_def)
  with c show "((read, g, n, m, sp_level read g m st), read, g, n, m, st)
      \<in> measure (\<lambda>(read, g, n, m, st). 2 * (n - length (sp_visited st)) + (if sp_next st = [] then 0 else 1))"
    by auto
qed simp

declare sp_loop.simps [simp del]

record path_result =
  path_found :: bool
  path_nodes :: "string list"
  path_length :: int
  path_stats :: trav_stats

definition shortestPath ::
  "provider \<Rightarrow> string \<Rightarrow> string \<Rightarrow> direction \<Rightarrow> label_filter \<Rightarrow> nat \<Rightarrow> nat \<Rightarrow> neighbor_cache \<Rightarrow>
   (neighbor_cache \<times> (trav_error + path_result)) option" where
  "shortestPath p start goal direction labels maxNodes maxDepth cache =
     (case validateStart p start of
        Inl e \<Rightarrow> Some (cache, Inl e)
      | Inr _ \<Rightarrow>
          if start = goal then
            Some (cache, Inr \<lparr>path_found = True, path_nodes = [start], path_length = 0,
              path_stats = stats 1 (newRunStats cache)\<rparr>)
          else
            (let st = sp_loop (expand p direction labels) goal maxNodes maxDepth
                   \<lparr>sp_visited = [start], sp_parent = [], sp_next = [(start, 0)], sp_run = newRunStats cache, sp_found = False\<rparr>;
                 st_stats = stats (length (sp_visited st)) (sp_run st)
             in if sp_found st then
                  map_option (\<lambda>path. (neighborCache (sp_run st), Inr \<lparr>path_found = True, path_nodes = path,
                      path_length = int (length path) - 1, path_stats = st_stats\<rparr>))
                    (reconstructPath (sp_parent st) start goal)
                else Some (neighborCache (sp_run st),
                  Inr \<lparr>path_found = False, path_nodes = [], path_length = -1, path_stats = st_stats\<rparr>)))"

section \<open>Reachability\<close>

record 'r reach_state =
  re_visited :: "string jsset"
  re_next :: "string list"
  re_run :: 'r
  re_found :: bool

definition reach_edge :: "string \<Rightarrow> 'r reach_state \<Rightarrow> neighbor_edge \<Rightarrow> 'r reach_state" where
  "reach_edge goal st e =
     (if re_found st then st
      else if neighborId e = goal then st\<lparr>re_found := True\<rparr>
      else if neighborId e \<notin> set (re_visited st) then
        st\<lparr>re_visited := set_add (re_visited st) (neighborId e), re_next := re_next st @ [neighborId e]\<rparr>
      else st)"

definition reach_step ::
  "(string \<Rightarrow> 'r \<Rightarrow> neighbor_edge list \<times> 'r) \<Rightarrow> string \<Rightarrow> 'r reach_state \<Rightarrow> string \<Rightarrow> 'r reach_state" where
  "reach_step read goal st nodeId =
     (if re_found st then st
      else (let (neighbors, rs) = read nodeId (re_run st)
            in foldl (reach_edge goal) (st\<lparr>re_run := rs\<rparr>) neighbors))"

function reach_loop ::
  "(string \<Rightarrow> 'r \<Rightarrow> neighbor_edge list \<times> 'r) \<Rightarrow> string \<Rightarrow> nat \<Rightarrow> nat \<Rightarrow> nat \<Rightarrow> 'r reach_state \<Rightarrow> 'r reach_state" where
  "reach_loop read goal maxNodes maxDepth depth st =
     (if \<not> re_found st \<and> re_next st \<noteq> [] \<and> depth < maxDepth \<and> length (re_visited st) < maxNodes
      then reach_loop read goal maxNodes maxDepth (depth + 1)
             (foldl (reach_step read goal) (st\<lparr>re_next := []\<rparr>) (re_next st))
      else st)"
  by pat_completeness auto

termination
  by (relation "measure (\<lambda>(read, g, n, m, depth, st). m - depth)") auto

declare reach_loop.simps [simp del]

definition isReachable ::
  "provider \<Rightarrow> string \<Rightarrow> string \<Rightarrow> direction \<Rightarrow> label_filter \<Rightarrow> nat \<Rightarrow> nat \<Rightarrow> neighbor_cache \<Rightarrow>
   neighbor_cache \<times> bool \<times> trav_stats" where
  "isReachable p start goal direction labels maxNodes maxDepth cache =
     (if start = goal then (cache, True, stats 1 (newRunStats cache))
      else
        (let st = reach_loop (expand p direction labels) goal maxNodes maxDepth 0
               \<lparr>re_visited = [start], re_next = [start], re_run = newRunStats cache, re_found = False\<rparr>
         in (neighborCache (re_run st), re_found st, stats (length (re_visited st)) (re_run st))))"

section \<open>Ancestors\<close>

definition add_stats :: "trav_stats \<Rightarrow> trav_stats \<Rightarrow> trav_stats" where
  "add_stats a b =
     \<lparr>stat_nodesVisited = stat_nodesVisited a + stat_nodesVisited b,
      stat_edgesTraversed = stat_edgesTraversed a + stat_edgesTraversed b,
      stat_cacheHits = stat_cacheHits a + stat_cacheHits b,
      stat_cacheMisses = stat_cacheMisses a + stat_cacheMisses b\<rparr>"

definition count_node :: "(string, nat) jsmap \<Rightarrow> string \<Rightarrow> (string, nat) jsmap" where
  "count_node counts a = map_set counts a ((case map_of counts a of None \<Rightarrow> 0 | Some n \<Rightarrow> n) + 1)"

fun ancestor_counts ::
  "provider \<Rightarrow> label_filter \<Rightarrow> nat \<Rightarrow> string list \<Rightarrow> (string, nat) jsmap \<Rightarrow> trav_stats \<Rightarrow> neighbor_cache \<Rightarrow>
   neighbor_cache \<times> (trav_error + (string, nat) jsmap \<times> trav_stats)" where
  "ancestor_counts p labels maxDepth [] counts sofar cache = (cache, Inr (counts, sofar))"
| "ancestor_counts p labels maxDepth (nodeId # nodes) counts sofar cache =
     (case bfs p nodeId In labels DEFAULT_MAX_NODES maxDepth cache of
        (cache, Inl e) \<Rightarrow> (cache, Inl e)
      | (cache, Inr r) \<Rightarrow>
          ancestor_counts p labels maxDepth nodes (foldl count_node counts (found_nodes r))
            (add_stats sofar (found_stats r)) cache)"

text \<open>The limit is tested after the push, so one ancestor is returned even for the limit zero.\<close>

fun take_results :: "nat \<Rightarrow> string list \<Rightarrow> string list \<Rightarrow> string list" where
  "take_results maxResults common [] = common"
| "take_results maxResults common (a # as) =
     (let common = common @ [a] in if length common \<ge> maxResults then common else take_results maxResults common as)"

definition commonAncestors ::
  "provider \<Rightarrow> string list \<Rightarrow> label_filter \<Rightarrow> nat \<Rightarrow> nat \<Rightarrow> neighbor_cache \<Rightarrow>
   neighbor_cache \<times> (trav_error + nodes_found)" where
  "commonAncestors p nodes labels maxDepth maxResults cache =
     (if length nodes = 0 then (cache, Inr \<lparr>found_nodes = [], found_stats = stats 0 (newRunStats None)\<rparr>)
      else
        (case ancestor_counts p labels maxDepth nodes [] (stats 0 (newRunStats None)) cache of
           (cache, Inl e) \<Rightarrow> (cache, Inl e)
         | (cache, Inr (counts, sofar)) \<Rightarrow>
             (cache, Inr \<lparr>found_nodes = take_results maxResults []
                 (map fst (sort_by (\<lambda>a b. str_cmp (fst a) (fst b)) (filter (\<lambda>e. snd e = length nodes) counts))),
               found_stats = sofar\<rparr>)))"

definition root_step ::
  "provider \<Rightarrow> label_filter \<Rightarrow> string list \<times> trav_run \<Rightarrow> string \<Rightarrow> string list \<times> trav_run" where
  "root_step p labels acc nodeId =
     (let (roots, rs) = acc; (inNeighbors, rs) = expand p In labels nodeId rs
      in (if length inNeighbors = 0 then roots @ [nodeId] else roots, rs))"

definition rootAncestors ::
  "provider \<Rightarrow> string \<Rightarrow> label_filter \<Rightarrow> nat \<Rightarrow> nat \<Rightarrow> neighbor_cache \<Rightarrow>
   neighbor_cache \<times> (trav_error + nodes_found)" where
  "rootAncestors p start labels maxNodes maxDepth cache =
     (case bfs p start In labels maxNodes maxDepth cache of
        (cache, Inl e) \<Rightarrow> (cache, Inl e)
      | (cache, Inr r) \<Rightarrow>
          (let (roots, rs) = foldl (root_step p labels) ([], newRunStats cache) (found_nodes r)
           in (neighborCache rs, Inr \<lparr>found_nodes = sort_by str_cmp roots,
                 found_stats = (add_stats (found_stats r) (stats 0 rs))
                   \<lparr>stat_nodesVisited := stat_nodesVisited (found_stats r)\<rparr>\<rparr>)))"

end
