(* ===== verification/MinHeap.thy ===== *)
theory MinHeap
  imports JsStrings
begin

text \<open>
  \<open>src/domain/utils/MinHeap.js\<close>: the binary heap in an array that the searches use as a priority
  queue. What they rely on is the contract \<open>priority_queue\<close>; the heap interprets it for every
  consistent tie breaker.
\<close>

section \<open>The contract\<close>

locale priority_queue =
  fixes put :: "'q \<Rightarrow> 'a \<Rightarrow> 'p::linorder \<Rightarrow> 'q"
    and take_min :: "'q \<Rightarrow> 'a option \<times> 'q"
    and inv :: "'q \<Rightarrow> bool"
    and content :: "'q \<Rightarrow> ('a \<times> 'p) multiset"
    and before :: "'a \<times> 'p \<Rightarrow> 'a \<times> 'p \<Rightarrow> bool"
  assumes put_inv: "inv q \<Longrightarrow> inv (put q x p)"
    and put_content: "inv q \<Longrightarrow> content (put q x p) = add_mset (x, p) (content q)"
    and take_none: "inv q \<Longrightarrow> content q = {#} \<Longrightarrow> take_min q = (None, q)"
    and take_some: "inv q \<Longrightarrow> content q \<noteq> {#} \<Longrightarrow> \<exists>x p q'. take_min q = (Some x, q') \<and> inv q' \<and>
      content q = add_mset (x, p) (content q') \<and> (\<forall>e \<in># content q. before (x, p) e)"
    and before_priority: "before (x, p) (y, r) \<Longrightarrow> p \<le> r"
begin

lemma take_minE:
  assumes "inv q" "take_min q = (Some x, q')"
  obtains p where "inv q'" "content q = add_mset (x, p) (content q')"
    "\<And>y r. (y, r) \<in># content q \<Longrightarrow> before (x, p) (y, r)" "\<And>y r. (y, r) \<in># content q \<Longrightarrow> p \<le> r"
proof -
  have "content q \<noteq> {#}" using assms take_none by fastforce
  then obtain p where "inv q'" "content q = add_mset (x, p) (content q')" "\<forall>e \<in># content q. before (x, p) e"
    using take_some [OF assms(1)] assms(2) by auto
  then show thesis using that before_priority by blast
qed

lemma take_min_shrinks:
  assumes "inv q" "take_min q = (Some x, q')"
  shows "size (content q') < size (content q)" "set_mset (content q') \<subseteq> set_mset (content q)"
  using take_minE [OF assms] by (metis size_add_mset lessI, metis set_mset_add_mset_insert subset_insertI)

end

section \<open>The heap\<close>

record ('a, 'p) min_heap =
  heap_array :: "('a \<times> 'p) list"
  tieBreaker :: "('a \<Rightarrow> 'a \<Rightarrow> int) option"

definition newMinHeap :: "('a \<Rightarrow> 'a \<Rightarrow> int) option \<Rightarrow> ('a, 'p) min_heap" where
  "newMinHeap tb = \<lparr>heap_array = [], tieBreaker = tb\<rparr>"

text \<open>Only the sign of \<open>a.priority - b.priority\<close> is used.\<close>

definition heap_compare :: "('a \<Rightarrow> 'a \<Rightarrow> int) option \<Rightarrow> 'a \<times> 'p::linorder \<Rightarrow> 'a \<times> 'p \<Rightarrow> int" where
  "heap_compare tb a b =
     (if snd a \<noteq> snd b then (if snd a < snd b then -1 else 1)
      else (case tb of Some t \<Rightarrow> t (fst a) (fst b) | None \<Rightarrow> 0))"

definition swap :: "'x list \<Rightarrow> nat \<Rightarrow> nat \<Rightarrow> 'x list" where
  "swap xs i j = xs[i := xs ! j, j := xs ! i]"

fun bubbleUp :: "('a \<Rightarrow> 'a \<Rightarrow> int) option \<Rightarrow> ('a \<times> 'p::linorder) list \<Rightarrow> nat \<Rightarrow> ('a \<times> 'p) list" where
  "bubbleUp tb heap current =
     (if current > 0 then
        (let parentIndex = (current - 1) div 2
         in if heap_compare tb (heap ! parentIndex) (heap ! current) \<le> 0 then heap
            else bubbleUp tb (swap heap parentIndex current) parentIndex)
      else heap)"

definition smallest_of :: "('a \<Rightarrow> 'a \<Rightarrow> int) option \<Rightarrow> ('a \<times> 'p::linorder) list \<Rightarrow> nat \<Rightarrow> nat" where
  "smallest_of tb heap current =
     (let leftChild = 2 * current + 1; rightChild = 2 * current + 2;
          smallest = (if leftChild < length heap \<and> heap_compare tb (heap ! leftChild) (heap ! current) < 0
                      then leftChild else current)
      in if rightChild < length heap \<and> heap_compare tb (heap ! rightChild) (heap ! smallest) < 0
         then rightChild else smallest)"

lemma smallest_of_cases:
  "smallest_of tb heap current \<noteq> current \<Longrightarrow> current < smallest_of tb heap current \<and> smallest_of tb heap current < length heap"
  by (auto simp: smallest_of_def Let_def split: if_splits)

lemma length_swap [simp]: "length (swap xs i j) = length xs"
  by (simp add: swap_def)

function bubbleDown :: "('a \<Rightarrow> 'a \<Rightarrow> int) option \<Rightarrow> ('a \<times> 'p::linorder) list \<Rightarrow> nat \<Rightarrow> ('a \<times> 'p) list" where
  "bubbleDown tb heap current =
     (let smallest = smallest_of tb heap current
      in if smallest = current then heap else bubbleDown tb (swap heap current smallest) smallest)"
  by pat_completeness auto

termination
proof (relation "measure (\<lambda>(tb, heap, current). length heap - current)")
  fix tb :: "('a \<Rightarrow> 'a \<Rightarrow> int) option" and heap :: "('a \<times> 'p::linorder) list" and current x
  assume "x = smallest_of tb heap current" "x \<noteq> current"
  then show "((tb, swap heap current x, x), (tb, heap, current)) \<in> measure (\<lambda>(tb, heap, current). length heap - current)"
    using smallest_of_cases [of tb heap current] by auto
qed simp

declare bubbleUp.simps [simp del] bubbleDown.simps [simp del]

definition heap_insert :: "('a, 'p::linorder) min_heap \<Rightarrow> 'a \<Rightarrow> 'p \<Rightarrow> ('a, 'p) min_heap" where
  "heap_insert h item priority =
     (let heap = heap_array h @ [(item, priority)]
      in h\<lparr>heap_array := bubbleUp (tieBreaker h) heap (length heap - 1)\<rparr>)"

definition extractMin :: "('a, 'p::linorder) min_heap \<Rightarrow> 'a option \<times> ('a, 'p) min_heap" where
  "extractMin h =
     (let heap = heap_array h
      in if length heap = 0 then (None, h)
         else if length heap = 1 then (Some (fst (last heap)), h\<lparr>heap_array := butlast heap\<rparr>)
         else (let min = heap ! 0; heap' = (butlast heap)[0 := last heap]
               in (Some (fst min), h\<lparr>heap_array := bubbleDown (tieBreaker h) heap' 0\<rparr>)))"

definition heap_isEmpty :: "('a, 'p) min_heap \<Rightarrow> bool" where
  "heap_isEmpty h \<longleftrightarrow> length (heap_array h) = 0"

definition heap_size :: "('a, 'p) min_heap \<Rightarrow> nat" where
  "heap_size h = length (heap_array h)"

text \<open>\<open>None\<close> is \<open>Infinity\<close>.\<close>

definition peekPriority :: "('a, 'p) min_heap \<Rightarrow> 'p option" where
  "peekPriority h = (if length (heap_array h) > 0 then Some (snd (heap_array h ! 0)) else None)"

section \<open>The heap property\<close>

text \<open>A comparator is consistent when its sign is antisymmetric and transitive.\<close>

definition comparator_ok :: "('x \<Rightarrow> 'x \<Rightarrow> int) \<Rightarrow> bool" where
  "comparator_ok c \<longleftrightarrow> (\<forall>a b. c a b < 0 \<longleftrightarrow> 0 < c b a) \<and> (\<forall>a b d. c a b \<le> 0 \<longrightarrow> c b d \<le> 0 \<longrightarrow> c a d \<le> 0)"

definition tie_ok :: "('a \<Rightarrow> 'a \<Rightarrow> int) option \<Rightarrow> bool" where
  "tie_ok tb \<longleftrightarrow> (case tb of None \<Rightarrow> True | Some t \<Rightarrow> comparator_ok t)"

lemma comparator_okD:
  assumes "comparator_ok c"
  shows "c a b < 0 \<longleftrightarrow> 0 < c b a" "c a b \<le> 0 \<Longrightarrow> c b d \<le> 0 \<Longrightarrow> c a d \<le> 0" "c a a = 0" "c a b \<le> 0 \<or> c b a \<le> 0"
    "\<not> c a b \<le> 0 \<Longrightarrow> c b a \<le> 0" "\<not> c a b < 0 \<longleftrightarrow> c b a \<le> 0"
proof -
  have s: "c a b < 0 \<longleftrightarrow> 0 < c b a" for a b using assms by (simp add: comparator_ok_def)
  show "c a b < 0 \<longleftrightarrow> 0 < c b a" "c a a = 0" "c a b \<le> 0 \<or> c b a \<le> 0" "\<not> c a b \<le> 0 \<Longrightarrow> c b a \<le> 0"
    "\<not> c a b < 0 \<longleftrightarrow> c b a \<le> 0"
    using s [of a b] s [of a a] s [of b a] by arith+
  show "c a b \<le> 0 \<Longrightarrow> c b d \<le> 0 \<Longrightarrow> c a d \<le> 0" using assms unfolding comparator_ok_def by blast
qed

lemma heap_compare_ok:
  assumes "tie_ok tb"
  shows "comparator_ok (heap_compare tb :: 'a \<times> 'p::linorder \<Rightarrow> 'a \<times> 'p \<Rightarrow> int)"
proof (cases tb)
  case None
  then show ?thesis by (auto simp: comparator_ok_def heap_compare_def split: if_splits)
next
  case (Some t)
  then have t: "comparator_ok t" using assms by (simp add: tie_ok_def)
  show ?thesis unfolding comparator_ok_def
  proof (intro conjI allI impI)
    fix a b d :: "'a \<times> 'p"
    show "(heap_compare tb a b < 0) = (0 < heap_compare tb b a)"
      using comparator_okD(1) [OF t, of "fst a" "fst b"] by (auto simp: heap_compare_def Some)
    assume "heap_compare tb a b \<le> 0" "heap_compare tb b d \<le> 0"
    then show "heap_compare tb a d \<le> 0"
      using comparator_okD(2) [OF t, of "fst a" "fst b" "fst d"] by (auto simp: heap_compare_def Some split: if_splits)
  qed
qed

lemma str_cmp_ok: "comparator_ok str_cmp"
  unfolding comparator_ok_def str_cmp_le by (auto simp: str_cmp_def)

definition ordered_heap :: "('x \<Rightarrow> 'x \<Rightarrow> int) \<Rightarrow> 'x list \<Rightarrow> bool" where
  "ordered_heap c xs \<longleftrightarrow> (\<forall>i. 0 < i \<longrightarrow> i < length xs \<longrightarrow> c (xs ! ((i - 1) div 2)) (xs ! i) \<le> 0)"

text \<open>The heap property with one index \<open>i\<close> that may be too small for its place, or too large.\<close>

definition heap_but_up :: "('x \<Rightarrow> 'x \<Rightarrow> int) \<Rightarrow> 'x list \<Rightarrow> nat \<Rightarrow> bool" where
  "heap_but_up c xs i \<longleftrightarrow>
     (\<forall>k. 0 < k \<longrightarrow> k < length xs \<longrightarrow> k \<noteq> i \<longrightarrow> c (xs ! ((k - 1) div 2)) (xs ! k) \<le> 0) \<and>
     (\<forall>k. 0 < k \<longrightarrow> k < length xs \<longrightarrow> (k - 1) div 2 = i \<longrightarrow> 0 < i \<longrightarrow> c (xs ! ((i - 1) div 2)) (xs ! k) \<le> 0)"

definition heap_but_down :: "('x \<Rightarrow> 'x \<Rightarrow> int) \<Rightarrow> 'x list \<Rightarrow> nat \<Rightarrow> bool" where
  "heap_but_down c xs i \<longleftrightarrow>
     (\<forall>k. 0 < k \<longrightarrow> k < length xs \<longrightarrow> (k - 1) div 2 \<noteq> i \<longrightarrow> c (xs ! ((k - 1) div 2)) (xs ! k) \<le> 0) \<and>
     (\<forall>k. 0 < k \<longrightarrow> k < length xs \<longrightarrow> (k - 1) div 2 = i \<longrightarrow> 0 < i \<longrightarrow> c (xs ! ((i - 1) div 2)) (xs ! k) \<le> 0)"

lemma swap_nth:
  "i < length xs \<Longrightarrow> j < length xs \<Longrightarrow> swap xs i j ! k = (if k = j then xs ! i else if k = i then xs ! j else xs ! k)"
  by (simp add: swap_def nth_list_update)

lemma swap_mset [simp]: "i < length xs \<Longrightarrow> j < length xs \<Longrightarrow> mset (swap xs i j) = mset xs"
  unfolding swap_def by (rule mset_swap)

lemma bubbleUp_mset: "current < length heap \<Longrightarrow> mset (bubbleUp tb heap current) = mset heap"
proof (induction tb heap current rule: bubbleUp.induct)
  case (1 tb heap current)
  then show ?case by (subst bubbleUp.simps) (auto simp: Let_def)
qed

lemma bubbleDown_mset: "current < length heap \<Longrightarrow> mset (bubbleDown tb heap current) = mset heap"
proof (induction tb heap current rule: bubbleDown.induct)
  case (1 tb heap current)
  then show ?case
    using smallest_of_cases [of tb heap current] by (subst bubbleDown.simps) (auto simp: Let_def)
qed

lemma children: "0 < k \<Longrightarrow> (k - 1) div 2 = i \<longleftrightarrow> k = 2 * i + 1 \<or> k = 2 * i + (2::nat)"
  by arith

lemma heap_but_up_swap:
  assumes c: "comparator_ok c" and h: "heap_but_up c xs i" and i: "0 < i" "i < length xs"
    and gt: "\<not> c (xs ! ((i - 1) div 2)) (xs ! i) \<le> 0"
  shows "heap_but_up c (swap xs ((i - 1) div 2) i) ((i - 1) div 2)"
proof -
  let ?p = "(i - 1) div 2"
  have p: "?p < i" "?p < length xs" using i by arith+
  have h1: "c (xs ! ((k - 1) div 2)) (xs ! k) \<le> 0" if "0 < k" "k < length xs" "k \<noteq> i" for k
    using h that by (simp add: heap_but_up_def)
  have h2: "c (xs ! ?p) (xs ! k) \<le> 0" if "0 < k" "k < length xs" "(k - 1) div 2 = i" for k
    using h that i unfolding heap_but_up_def by blast
  have ip: "c (xs ! i) (xs ! ?p) \<le> 0" using comparator_okD(5) [OF c gt] .
  note nth = swap_nth [OF p(2) i(2)]
  show ?thesis unfolding heap_but_up_def nth length_swap
  proof (intro conjI allI impI)
    fix k assume k: "0 < k" "k < length xs" "k \<noteq> ?p"
    have "(k - 1) div 2 \<noteq> k" using k by arith
    then show "c (if (k - 1) div 2 = i then xs ! ?p else if (k - 1) div 2 = ?p then xs ! i else xs ! ((k - 1) div 2))
        (if k = i then xs ! ?p else if k = ?p then xs ! i else xs ! k) \<le> 0"
      using k p ip h1 [OF k(1,2)] h2 [OF k(1,2)] comparator_okD(2) [OF c ip, of "xs ! k"] by auto
  next
    fix k assume k: "0 < k" "k < length xs" "(k - 1) div 2 = ?p" "0 < ?p"
    let ?g = "(?p - 1) div 2"
    have g: "?g < ?p" using k(4) by arith
    have gp: "c (xs ! ?g) (xs ! ?p) \<le> 0" using h1 [of ?p] k(4) p by simp
    have ne: "k \<noteq> ?p" "?g \<noteq> i" "?g \<noteq> ?p" using k g p by arith+
    have "c (xs ! ?g) (xs ! k) \<le> 0" if "k \<noteq> i"
      using h1 [OF k(1,2) that] k(3) comparator_okD(2) [OF c gp] by simp
    with gp ne show "c (if ?g = i then xs ! ?p else if ?g = ?p then xs ! i else xs ! ?g)
        (if k = i then xs ! ?p else if k = ?p then xs ! i else xs ! k) \<le> 0" by auto
  qed
qed

lemma bubbleUp_ordered:
  assumes "tie_ok tb" "heap_but_up (heap_compare tb) heap current" "current < length heap"
  shows "ordered_heap (heap_compare tb) (bubbleUp tb heap current)"
  using assms
proof (induction tb heap current rule: bubbleUp.induct)
  case (1 tb heap current)
  let ?p = "(current - 1) div 2"
  note c = heap_compare_ok [OF 1(2), where 'p = 'b]
  consider "current = 0" | "0 < current" "heap_compare tb (heap ! ?p) (heap ! current) \<le> 0"
    | "0 < current" "\<not> heap_compare tb (heap ! ?p) (heap ! current) \<le> 0" by auto
  then show ?case
  proof cases
    case 1
    with "1.prems" show ?thesis
      by (subst bubbleUp.simps) (auto simp: heap_but_up_def ordered_heap_def)
  next
    case 2
    with "1.prems" show ?thesis
      by (subst bubbleUp.simps) (auto simp: heap_but_up_def ordered_heap_def Let_def)
  next
    case 3
    have "ordered_heap (heap_compare tb) (bubbleUp tb (swap heap ?p current) ?p)"
      using 3 "1.prems" by (intro "1.IH" heap_but_up_swap c refl) auto
    with 3 show ?thesis by (subst bubbleUp.simps) (simp add: Let_def)
  qed
qed

lemma heap_but_down_swap:
  assumes c: "comparator_ok c" and h: "heap_but_down c xs i" and i: "i < length xs"
    and j: "j < length xs" "j = 2 * i + 1 \<or> j = 2 * i + 2" and ji: "c (xs ! j) (xs ! i) \<le> 0"
    and min: "\<And>k. k < length xs \<Longrightarrow> k = 2 * i + 1 \<or> k = 2 * i + 2 \<Longrightarrow> c (xs ! j) (xs ! k) \<le> 0"
  shows "heap_but_down c (swap xs i j) j"
proof -
  have h1: "c (xs ! ((k - 1) div 2)) (xs ! k) \<le> 0" if "0 < k" "k < length xs" "(k - 1) div 2 \<noteq> i" for k
    using h that by (simp add: heap_but_down_def)
  have h2: "c (xs ! ((i - 1) div 2)) (xs ! k) \<le> 0" if "0 < k" "k < length xs" "(k - 1) div 2 = i" "0 < i" for k
    using h that unfolding heap_but_down_def by blast
  note nth = swap_nth [OF i j(1)]
  have pj: "0 < j" "(j - 1) div 2 = i" "i \<noteq> j" using j(2) by arith+
  show ?thesis unfolding heap_but_down_def nth length_swap
  proof (intro conjI allI impI)
    fix k assume k: "0 < k" "k < length xs" "(k - 1) div 2 \<noteq> j"
    show "c (if (k - 1) div 2 = j then xs ! i else if (k - 1) div 2 = i then xs ! j else xs ! ((k - 1) div 2))
        (if k = j then xs ! i else if k = i then xs ! j else xs ! k) \<le> 0"
    proof (cases "(k - 1) div 2 = i")
      case True
      have "k \<noteq> i" using True k(1) by arith
      then show ?thesis using True k pj ji min [of k] children [OF k(1), of i] by auto
    next
      case False
      have "k \<noteq> j" using False pj by auto
      have "c (xs ! ((i - 1) div 2)) (xs ! j) \<le> 0" if "k = i" using h2 [of j] that k(1) pj j(1) by simp
      then show ?thesis using False k \<open>k \<noteq> j\<close> h1 [OF k(1,2) False] by auto
    qed
  next
    fix k assume k: "0 < k" "k < length xs" "(k - 1) div 2 = j" "0 < j"
    have ne: "k \<noteq> j" "k \<noteq> i" "j \<noteq> i" using k pj by arith+
    have "c (xs ! j) (xs ! k) \<le> 0" using h1 [OF k(1,2)] k(3) ne(3) by simp
    then show "c (if (j - 1) div 2 = j then xs ! i else if (j - 1) div 2 = i then xs ! j else xs ! ((j - 1) div 2))
        (if k = j then xs ! i else if k = i then xs ! j else xs ! k) \<le> 0"
      using ne pj by auto
  qed
qed

lemma smallest_of_min:
  assumes c: "comparator_ok (heap_compare tb :: 'a \<times> 'p::linorder \<Rightarrow> _)" and i: "i < length xs"
  defines "j \<equiv> smallest_of tb (xs :: ('a \<times> 'p) list) i"
  shows "j = i \<or> j = 2 * i + 1 \<or> j = 2 * i + 2" "j < length xs" "heap_compare tb (xs ! j) (xs ! i) \<le> 0"
    "k < length xs \<Longrightarrow> k = 2 * i + 1 \<or> k = 2 * i + 2 \<Longrightarrow> heap_compare tb (xs ! j) (xs ! k) \<le> 0"
proof -
  let ?c = "heap_compare tb" and ?l = "2 * i + 1" and ?r = "2 * i + 2"
  note [simp] = comparator_okD(3) [OF c] and less = comparator_okD(6) [OF c] and trans = comparator_okD(2) [OF c]
  have less': "?c a b \<le> 0" if "?c a b < 0" for a b using that by simp
  define s where "s = (if ?l < length xs \<and> ?c (xs ! ?l) (xs ! i) < 0 then ?l else i)"
  have j: "j = (if ?r < length xs \<and> ?c (xs ! ?r) (xs ! s) < 0 then ?r else s)"
    by (simp add: j_def smallest_of_def s_def Let_def)
  have s: "s < length xs" "?c (xs ! s) (xs ! i) \<le> 0" "?l < length xs \<Longrightarrow> ?c (xs ! s) (xs ! ?l) \<le> 0"
    using i less [of "xs ! ?l" "xs ! i"] by (auto simp: s_def)
  have js: "?c (xs ! j) (xs ! s) \<le> 0" by (simp add: j)
  show "j = i \<or> j = ?l \<or> j = ?r" "j < length xs" using s(1) by (auto simp: j s_def)
  show "?c (xs ! j) (xs ! i) \<le> 0" by (rule trans [OF js s(2)])
  assume k: "k < length xs" "k = ?l \<or> k = ?r"
  have "?c (xs ! j) (xs ! ?r) \<le> 0" if "?r < length xs"
    using that less [of "xs ! ?r" "xs ! s"] by (auto simp: j)
  moreover have "?c (xs ! j) (xs ! ?l) \<le> 0" if "?l < length xs"
    using trans [OF js s(3)] that .
  ultimately show "?c (xs ! j) (xs ! k) \<le> 0" using k by auto
qed

lemma bubbleDown_ordered:
  assumes "tie_ok tb" "heap_but_down (heap_compare tb) heap current" "current < length heap"
  shows "ordered_heap (heap_compare tb) (bubbleDown tb heap current)"
  using assms
proof (induction tb heap current rule: bubbleDown.induct)
  case (1 tb heap current)
  let ?s = "smallest_of tb heap current"
  note c = heap_compare_ok [OF "1.prems"(1), where 'p = 'b]
  note s = smallest_of_min [OF c "1.prems"(3)]
  show ?case
  proof (cases "?s = current")
    case True
    have "ordered_heap (heap_compare tb) heap" unfolding ordered_heap_def
    proof (intro allI impI)
      fix k assume k: "0 < k" "k < length heap"
      show "heap_compare tb (heap ! ((k - 1) div 2)) (heap ! k) \<le> 0"
        using "1.prems"(2) k s(4) [OF k(2)] children [OF k(1), of current] True
        by (cases "(k - 1) div 2 = current") (auto simp: heap_but_down_def)
    qed
    with True show ?thesis by (subst bubbleDown.simps) simp
  next
    case False
    have "ordered_heap (heap_compare tb) (bubbleDown tb (swap heap current ?s) ?s)"
      using False "1.prems" s by (intro "1.IH" heap_but_down_swap c refl) auto
    with False show ?thesis by (subst bubbleDown.simps) (simp add: Let_def)
  qed
qed

section \<open>The heap keeps the contract\<close>

definition heap_inv :: "('a, 'p::linorder) min_heap \<Rightarrow> bool" where
  "heap_inv h \<longleftrightarrow> tie_ok (tieBreaker h) \<and> ordered_heap (heap_compare (tieBreaker h)) (heap_array h)"

definition heap_content :: "('a, 'p) min_heap \<Rightarrow> ('a \<times> 'p) multiset" where
  "heap_content h = mset (heap_array h)"

lemma ordered_heap_root:
  assumes c: "comparator_ok c" and h: "ordered_heap c xs" and "i < length xs"
  shows "c (xs ! 0) (xs ! i) \<le> 0"
  using assms(3)
proof (induction i rule: less_induct)
  case (less i)
  show ?case
  proof (cases "i = 0")
    case True
    then show ?thesis using comparator_okD(3) [OF c] by simp
  next
    case False
    then have "(i - 1) div 2 < i" by arith
    then have "c (xs ! 0) (xs ! ((i - 1) div 2)) \<le> 0" using less by simp
    moreover have "c (xs ! ((i - 1) div 2)) (xs ! i) \<le> 0"
      using h False less.prems by (simp add: ordered_heap_def)
    ultimately show ?thesis by (rule comparator_okD(2) [OF c])
  qed
qed

lemma newMinHeap_inv [simp]: "tie_ok tb \<Longrightarrow> heap_inv (newMinHeap tb)" "heap_content (newMinHeap tb) = {#}"
    "tieBreaker (newMinHeap tb) = tb"
  by (simp_all add: heap_inv_def heap_content_def newMinHeap_def ordered_heap_def)

lemma heap_insert_props:
  "heap_inv h \<Longrightarrow> heap_inv (heap_insert h x p)"
  "heap_content (heap_insert h x p) = add_mset (x, p) (heap_content h)"
  "tieBreaker (heap_insert h x p) = tieBreaker h"
proof -
  show "heap_content (heap_insert h x p) = add_mset (x, p) (heap_content h)"
    by (simp add: heap_insert_def heap_content_def bubbleUp_mset)
  show "tieBreaker (heap_insert h x p) = tieBreaker h" by (simp add: heap_insert_def Let_def)
  assume h: "heap_inv h"
  let ?xs = "heap_array h @ [(x, p)]"
  have "heap_but_up (heap_compare (tieBreaker h)) ?xs (length (heap_array h))"
    unfolding heap_but_up_def
  proof (intro conjI allI impI)
    fix k assume k: "0 < k" "k < length ?xs" "k \<noteq> length (heap_array h)"
    then have "k < length (heap_array h)" "(k - 1) div 2 < length (heap_array h)" by auto
    then show "heap_compare (tieBreaker h) (?xs ! ((k - 1) div 2)) (?xs ! k) \<le> 0"
      using h k(1) by (simp add: heap_inv_def ordered_heap_def nth_append)
  qed auto
  with h show "heap_inv (heap_insert h x p)"
    by (simp add: heap_inv_def heap_insert_def Let_def bubbleUp_ordered)
qed

lemma extractMin_empty: "heap_content h = {#} \<Longrightarrow> extractMin h = (None, h)"
  by (simp add: heap_content_def extractMin_def Let_def)

lemma extractMin_some:
  assumes "heap_inv h" "heap_content h \<noteq> {#}"
  shows "\<exists>x p h'. extractMin h = (Some x, h') \<and> heap_inv h' \<and> tieBreaker h' = tieBreaker h \<and>
    heap_content h = add_mset (x, p) (heap_content h') \<and>
    (\<forall>e \<in># heap_content h. heap_compare (tieBreaker h) (x, p) e \<le> 0)"
proof -
  let ?c = "heap_compare (tieBreaker h)"
  from assms have tie: "tie_ok (tieBreaker h)" and o: "ordered_heap ?c (heap_array h)" and ne: "heap_array h \<noteq> []"
    by (auto simp: heap_inv_def heap_content_def)
  note c = heap_compare_ok [OF tie, where 'p = 'b]
  have min: "\<forall>e \<in># heap_content h. ?c (heap_array h ! 0) e \<le> 0"
    using ordered_heap_root [OF c o] unfolding heap_content_def set_mset_mset
    by (metis in_set_conv_nth)
  show ?thesis
  proof (cases "length (heap_array h) = 1")
    case True
    then obtain e where e: "heap_array h = [e]" by (auto simp: length_Suc_conv)
    with min tie show ?thesis
      by (intro exI [of _ "fst e"] exI [of _ "snd e"] exI [of _ "h\<lparr>heap_array := []\<rparr>"])
        (simp add: extractMin_def heap_content_def heap_inv_def ordered_heap_def)
  next
    case False
    let ?ys = "(butlast (heap_array h))[0 := last (heap_array h)]"
    obtain e l m where split: "heap_array h = e # m @ [l]"
      using ne False by (metis append_butlast_last_id butlast.simps(2) length_Cons list.exhaust list.size(3) One_nat_def)
    have ys: "?ys = l # m" by (simp add: split)
    have old: "heap_array h ! k = (if k = 0 then e else ?ys ! k)" if "k < length ?ys" for k
      using that by (cases k) (auto simp: split nth_append)
    have "heap_but_down ?c ?ys 0" unfolding heap_but_down_def
    proof (intro conjI allI impI)
      fix k assume k: "0 < k" "k < length ?ys" "(k - 1) div 2 \<noteq> 0"
      have "?c (heap_array h ! ((k - 1) div 2)) (heap_array h ! k) \<le> 0"
        using o k(1,2) by (simp add: ordered_heap_def split)
      with k show "?c (?ys ! ((k - 1) div 2)) (?ys ! k) \<le> 0"
        using old [of k] old [of "(k - 1) div 2"] by auto
    qed simp
    then have "ordered_heap ?c (bubbleDown (tieBreaker h) ?ys 0)"
      by (rule bubbleDown_ordered [OF tie]) (simp add: ys)
    moreover have "mset (bubbleDown (tieBreaker h) ?ys 0) = add_mset l (mset m)"
      using bubbleDown_mset [of 0 ?ys "tieBreaker h"] by (simp add: ys)
    moreover have "extractMin h = (Some (fst e), h\<lparr>heap_array := bubbleDown (tieBreaker h) ?ys 0\<rparr>)"
      using False ne by (simp add: extractMin_def Let_def split)
    ultimately show ?thesis using min tie
      by (intro exI [of _ "fst e"] exI [of _ "snd e"] exI [of _ "h\<lparr>heap_array := bubbleDown (tieBreaker h) ?ys 0\<rparr>"])
        (simp add: heap_content_def heap_inv_def split)
  qed
qed

definition heap_inv_with :: "('a \<Rightarrow> 'a \<Rightarrow> int) option \<Rightarrow> ('a, 'p::linorder) min_heap \<Rightarrow> bool" where
  "heap_inv_with tb h \<longleftrightarrow> tieBreaker h = tb \<and> heap_inv h"

interpretation heap: priority_queue heap_insert extractMin "heap_inv_with tb" heap_content
  "\<lambda>a b. heap_compare tb a b \<le> 0" for tb :: "('a \<Rightarrow> 'a \<Rightarrow> int) option"
proof unfold_locales
  fix q :: "('a, 'b::linorder) min_heap"
  assume "heap_inv_with tb q" "heap_content q \<noteq> {#}"
  then show "\<exists>x p q'. extractMin q = (Some x, q') \<and> heap_inv_with tb q' \<and>
      heap_content q = add_mset (x, p) (heap_content q') \<and> (\<forall>e \<in># heap_content q. heap_compare tb (x, p) e \<le> 0)"
    using extractMin_some [of q] by (auto simp: heap_inv_with_def)
qed (auto simp: heap_inv_with_def heap_insert_props extractMin_empty heap_compare_def split: if_splits)

lemma heap_isEmpty_iff [simp]: "heap_isEmpty h \<longleftrightarrow> heap_content h = {#}" "heap_size h = size (heap_content h)"
  by (simp_all add: heap_isEmpty_def heap_size_def heap_content_def)

lemma peekPriority_min:
  assumes "heap_inv h" "(x, p) \<in># heap_content h"
  shows "\<exists>r. peekPriority h = Some r \<and> r \<le> p"
proof -
  note c = heap_compare_ok [of "tieBreaker h", where 'p = 'b]
  from assms obtain i where i: "i < length (heap_array h)" "heap_array h ! i = (x, p)"
    by (auto simp: heap_content_def in_set_conv_nth)
  have "heap_compare (tieBreaker h) (heap_array h ! 0) (x, p) \<le> 0"
    using ordered_heap_root [OF c, of "heap_array h" i] assms(1) i by (simp add: heap_inv_def)
  moreover have "0 < length (heap_array h)" using i(1) by linarith
  ultimately show ?thesis by (auto simp: peekPriority_def heap_compare_def simp del: length_greater_0_conv split: if_splits)
qed

lemma peekPriority_None [simp]: "peekPriority h = None \<longleftrightarrow> heap_content h = {#}"
  by (simp add: peekPriority_def heap_content_def)

end
