(* ===== verification/WeightedSearch.thy ===== *)
theory WeightedSearch
  imports Search MinHeap
begin

text \<open>
  The weighted searches of \<open>src/domain/services/GraphTraversal.js\<close>: \<open>weightedShortestPath\<close>,
  \<open>aStarSearch\<close> and \<open>bidirectionalAStar\<close>. Numbers are of any ordered integral domain, so that the
  sums are exact; \<open>None\<close> stands for \<open>Infinity\<close>. The first two searches differ only in the priority
  under which a node enters the heap, and share their loop.
\<close>

section \<open>Weights\<close>

type_synonym 'w edge_weight = "string \<Rightarrow> string \<Rightarrow> string \<Rightarrow> 'w"

definition DEFAULT_WEIGHT_FN :: "'w::linordered_idom edge_weight" where
  "DEFAULT_WEIGHT_FN from to label = 1"

text \<open>The weight of a node is the cost to enter it; remembering the values of a pure function changes nothing.\<close>

definition buildNodeWeightResolver :: "(string \<Rightarrow> 'w) \<Rightarrow> 'w edge_weight" where
  "buildNodeWeightResolver nodeWeightFn from to label = nodeWeightFn to"

definition resolveWeightFn ::
  "'w::linordered_idom edge_weight option \<Rightarrow> (string \<Rightarrow> 'w) option \<Rightarrow> trav_error + 'w edge_weight" where
  "resolveWeightFn weightFn nodeWeightFn =
     (if weightFn \<noteq> None \<and> nodeWeightFn \<noteq> None then Inl WeightFnConflict
      else (case nodeWeightFn of
              Some f \<Rightarrow> Inr (buildNodeWeightResolver f)
            | None \<Rightarrow> Inr (case weightFn of Some w \<Rightarrow> w | None \<Rightarrow> DEFAULT_WEIGHT_FN)))"

definition lexTieBreaker :: "string \<Rightarrow> string \<Rightarrow> int" where
  "lexTieBreaker a b = (if a < b then -1 else if a > b then 1 else 0)"

definition shouldUpdatePredecessor :: "(string, string) jsmap \<Rightarrow> string \<Rightarrow> string \<Rightarrow> bool" where
  "shouldUpdatePredecessor predMap nodeId candidatePred =
     (case map_of predMap nodeId of None \<Rightarrow> True | Some current \<Rightarrow> candidatePred < current)"

section \<open>Dijkstra and A*\<close>

record ('w, 'r) wsearch =
  ws_dist :: "(string, 'w) jsmap"
  ws_prev :: "(string, string) jsmap"
  ws_visited :: "string jsset"
  ws_pq :: "(string, 'w) min_heap"
  ws_run :: 'r

text \<open>The test whether a distance improves on the best one, with the tie break of the predecessors.\<close>

definition improves ::
  "(string, 'w::linordered_idom) jsmap \<Rightarrow> (string, string) jsmap \<Rightarrow> string \<Rightarrow> string \<Rightarrow> 'w \<Rightarrow> bool" where
  "improves dist prev v current alt =
     (case map_of dist v of
        None \<Rightarrow> True
      | Some best \<Rightarrow> alt < best \<or> (alt = best \<and> shouldUpdatePredecessor prev v current))"

definition ws_edge ::
  "'w::linordered_idom edge_weight \<Rightarrow> (string \<Rightarrow> 'w \<Rightarrow> 'w) \<Rightarrow> string \<Rightarrow> ('w, 'r) wsearch \<Rightarrow> neighbor_edge \<Rightarrow> ('w, 'r) wsearch" where
  "ws_edge weight priority current st e =
     (let v = neighborId e
      in if v \<in> set (ws_visited st) then st
         else
           (let w = weight current v (edge_label e);
                alt = the (map_of (ws_dist st) current) + w
            in if improves (ws_dist st) (ws_prev st) v current alt then
                 st\<lparr>ws_dist := map_set (ws_dist st) v alt,
                    ws_prev := map_set (ws_prev st) v current,
                    ws_pq := heap_insert (ws_pq st) v (priority v alt)\<rparr>
               else st))"

lemma length_bubbleDown: "current < length heap \<Longrightarrow> length (bubbleDown tb heap current) = length heap"
  using bubbleDown_mset [of current heap tb] by (metis size_mset)

lemma extractMin_length:
  "extractMin h = (Some x, h') \<Longrightarrow> length (heap_array h') < length (heap_array h)"
proof -
  assume e: "extractMin h = (Some x, h')"
  consider "length (heap_array h) = 0" | "length (heap_array h) = 1" | "1 < length (heap_array h)" by linarith
  then show ?thesis
  proof cases
    case 3
    then have "length (bubbleDown (tieBreaker h) ((butlast (heap_array h))[0 := last (heap_array h)]) 0) =
        length (heap_array h) - 1"
      by (subst length_bubbleDown) simp_all
    with 3 e show ?thesis by (auto simp: extractMin_def Let_def split: if_splits)
  next
    case 2
    then obtain a where "heap_array h = [a]" by (auto simp: length_Suc_conv)
    with e show ?thesis by (auto simp: extractMin_def Let_def)
  qed (use e in \<open>simp add: extractMin_def Let_def\<close>)
qed

lemma ws_edges_visited [simp]: "ws_visited (foldl (ws_edge weight priority current) st es) = ws_visited st"
  by (induction es arbitrary: st) (auto simp: ws_edge_def Let_def)

function ws_loop ::
  "(string \<Rightarrow> 'r \<Rightarrow> neighbor_edge list \<times> 'r) \<Rightarrow> 'w::linordered_idom edge_weight \<Rightarrow> (string \<Rightarrow> 'w \<Rightarrow> 'w) \<Rightarrow> string \<Rightarrow> nat \<Rightarrow>
   ('w, 'r) wsearch \<Rightarrow> bool \<times> ('w, 'r) wsearch" where
  "ws_loop read weight priority goal maxNodes st =
     (if \<not> heap_isEmpty (ws_pq st) \<and> length (ws_visited st) < maxNodes then
        (case extractMin (ws_pq st) of
           (None, pq) \<Rightarrow> (False, st)
         | (Some current, pq) \<Rightarrow>
             (let st = st\<lparr>ws_pq := pq\<rparr>
              in if current \<in> set (ws_visited st) then ws_loop read weight priority goal maxNodes st
                 else
                   (let st = st\<lparr>ws_visited := set_add (ws_visited st) current\<rparr>
                    in if current = goal then (True, st)
                       else
                         (let (neighbors, rs) = read current (ws_run st)
                          in ws_loop read weight priority goal maxNodes
                               (foldl (ws_edge weight priority current) (st\<lparr>ws_run := rs\<rparr>) neighbors)))))
      else (False, st))"
  by pat_completeness auto

termination
  by (relation "(\<lambda>(read, weight, priority, goal, n, st). n - length (ws_visited st)) <*mlex*>
        measure (\<lambda>(read, weight, priority, goal, n, st). length (heap_array (ws_pq st)))")
    (auto simp: wf_mlex mlex_iff set_add_def dest: extractMin_length [OF sym])

declare ws_loop.simps [simp del]

record 'w cost_path =
  cp_path :: "string list"
  cp_totalCost :: 'w
  cp_nodesExplored :: nat
  cp_stats :: trav_stats

definition weighted_search ::
  "provider \<Rightarrow> string \<Rightarrow> string \<Rightarrow> direction \<Rightarrow> label_filter \<Rightarrow> 'w::linordered_idom edge_weight option \<Rightarrow> (string \<Rightarrow> 'w) option \<Rightarrow>
   (string \<Rightarrow> 'w \<Rightarrow> 'w) \<Rightarrow> nat \<Rightarrow> neighbor_cache \<Rightarrow> (neighbor_cache \<times> (trav_error + 'w cost_path)) option" where
  "weighted_search p start goal direction labels weightFn nodeWeightFn priority maxNodes cache =
     (case resolveWeightFn weightFn nodeWeightFn of
        Inl e \<Rightarrow> Some (cache, Inl e)
      | Inr weight \<Rightarrow>
          (case validateStart p start of
             Inl e \<Rightarrow> Some (cache, Inl e)
           | Inr _ \<Rightarrow>
               (let (found, st) = ws_loop (expand p direction labels) weight priority goal maxNodes
                      \<lparr>ws_dist = [(start, 0)], ws_prev = [], ws_visited = [],
                       ws_pq = heap_insert (newMinHeap (Some lexTieBreaker)) start (priority start 0),
                       ws_run = newRunStats cache\<rparr>
                in if found then
                     map_option (\<lambda>path. (neighborCache (ws_run st),
                         Inr \<lparr>cp_path = path, cp_totalCost = the (map_of (ws_dist st) goal),
                              cp_nodesExplored = length (ws_visited st),
                              cp_stats = stats (length (ws_visited st)) (ws_run st)\<rparr>))
                       (reconstructPath (ws_prev st) start goal)
                   else Some (neighborCache (ws_run st), Inl (NoPath start goal)))))"

definition weightedShortestPath ::
  "provider \<Rightarrow> string \<Rightarrow> string \<Rightarrow> direction \<Rightarrow> label_filter \<Rightarrow> 'w::linordered_idom edge_weight option \<Rightarrow> (string \<Rightarrow> 'w) option \<Rightarrow>
   nat \<Rightarrow> neighbor_cache \<Rightarrow> (neighbor_cache \<times> (trav_error + 'w cost_path)) option" where
  "weightedShortestPath p start goal direction labels weightFn nodeWeightFn maxNodes cache =
     weighted_search p start goal direction labels weightFn nodeWeightFn (\<lambda>_ alt. alt) maxNodes cache"

definition aStarSearch ::
  "provider \<Rightarrow> string \<Rightarrow> string \<Rightarrow> direction \<Rightarrow> label_filter \<Rightarrow> 'w::linordered_idom edge_weight option \<Rightarrow> (string \<Rightarrow> 'w) option \<Rightarrow>
   (string \<Rightarrow> string \<Rightarrow> 'w) \<Rightarrow> nat \<Rightarrow> neighbor_cache \<Rightarrow> (neighbor_cache \<times> (trav_error + 'w cost_path)) option" where
  "aStarSearch p start goal direction labels weightFn nodeWeightFn heuristicFn maxNodes cache =
     weighted_search p start goal direction labels weightFn nodeWeightFn (\<lambda>v g. g + heuristicFn v goal) maxNodes cache"

section \<open>Bidirectional A*\<close>

record 'w bi_side =
  bs_heap :: "(string, 'w) min_heap"
  bs_visited :: "string jsset"
  bs_g :: "(string, 'w) jsmap"
  bs_pred :: "(string, string) jsmap"

record 'w bi_best =
  bb_mu :: "'w option"
  bb_meeting :: "string option"

text \<open>A candidate total replaces the best one when it is smaller, or equal with a smaller meeting point.\<close>

definition meet :: "'w::linordered_idom bi_best \<Rightarrow> string \<Rightarrow> 'w \<Rightarrow> 'w bi_best" where
  "meet b v cost =
     (if (case bb_mu b of None \<Rightarrow> True | Some mu \<Rightarrow> cost < mu) \<or>
         (bb_mu b = Some cost \<and> (case bb_meeting b of None \<Rightarrow> True | Some m \<Rightarrow> v < m))
      then \<lparr>bb_mu = Some cost, bb_meeting = Some v\<rparr> else b)"

definition bi_edge ::
  "'w::linordered_idom edge_weight \<Rightarrow> (string \<Rightarrow> string \<Rightarrow> 'w) \<Rightarrow> string \<Rightarrow> direction \<Rightarrow> (string, 'w) jsmap \<Rightarrow> string \<Rightarrow>
   'w bi_side \<times> 'w bi_best \<Rightarrow> neighbor_edge \<Rightarrow> 'w bi_side \<times> 'w bi_best" where
  "bi_edge weight heuristic target dir otherG current acc e =
     (let (side, best) = acc; v = neighborId e
      in if v \<in> set (bs_visited side) then acc
         else
           (let w = (if dir = In then weight v current (edge_label e) else weight current v (edge_label e));
                tentG = the (map_of (bs_g side) current) + w
            in if improves (bs_g side) (bs_pred side) v current tentG then
                 (side\<lparr>bs_g := map_set (bs_g side) v tentG,
                       bs_pred := map_set (bs_pred side) v current,
                       bs_heap := heap_insert (bs_heap side) v (tentG + heuristic v target)\<rparr>,
                  (case map_of otherG v of None \<Rightarrow> best | Some g \<Rightarrow> meet best v (tentG + g)))
               else acc))"

definition biAStarExpand ::
  "(string \<Rightarrow> 'r \<Rightarrow> neighbor_edge list \<times> 'r) \<Rightarrow> 'w::linordered_idom edge_weight \<Rightarrow> (string \<Rightarrow> string \<Rightarrow> 'w) \<Rightarrow> string \<Rightarrow>
   direction \<Rightarrow> 'w bi_side \<Rightarrow> 'w bi_side \<Rightarrow> 'w bi_best \<Rightarrow> 'r \<Rightarrow> nat \<times> 'w bi_side \<times> 'w bi_best \<times> 'r" where
  "biAStarExpand read weight heuristic target dir side other best rs =
     (case extractMin (bs_heap side) of
        (None, heap) \<Rightarrow> (0, side\<lparr>bs_heap := heap\<rparr>, best, rs)
      | (Some current, heap) \<Rightarrow>
          (let side = side\<lparr>bs_heap := heap\<rparr>
           in if current \<in> set (bs_visited side) then (0, side, best, rs)
              else
                (let side = side\<lparr>bs_visited := set_add (bs_visited side) current\<rparr>;
                     best = (if current \<in> set (bs_visited other)
                             then meet best current (the (map_of (bs_g side) current) + the (map_of (bs_g other) current))
                             else best);
                     (neighbors, rs) = read current rs;
                     (side, best) = foldl (bi_edge weight heuristic target dir (bs_g other) current) (side, best) neighbors
                 in (1, side, best, rs))))"

text \<open>\<open>Infinity\<close> is \<open>None\<close>: comparisons of priorities and of the best total.\<close>

fun inf_le :: "'w::linorder option \<Rightarrow> 'w option \<Rightarrow> bool" where
  "inf_le _ None = True"
| "inf_le None (Some _) = False"
| "inf_le (Some a) (Some b) = (a \<le> b)"

definition inf_min :: "'w::linorder option \<Rightarrow> 'w option \<Rightarrow> 'w option" where
  "inf_min a b = (if inf_le a b then a else b)"

lemma biAStarExpand_shrinks:
  assumes "biAStarExpand read weight heuristic target dir side other best rs = (n, side', best', rs')"
    "\<not> heap_isEmpty (bs_heap side)"
  shows "n = 1 \<or> n = 0 \<and> length (heap_array (bs_heap side')) < length (heap_array (bs_heap side))"
proof -
  have "fst (extractMin (bs_heap side)) \<noteq> None"
    using assms(2) by (auto simp: extractMin_def Let_def heap_content_def)
  then obtain current heap where "extractMin (bs_heap side) = (Some current, heap)" by (cases "extractMin (bs_heap side)") auto
  with assms(1) extractMin_length [OF this] show ?thesis
    by (auto simp: biAStarExpand_def Let_def split: if_splits prod.splits)
qed

function bi_loop ::
  "(direction \<Rightarrow> string \<Rightarrow> 'r \<Rightarrow> neighbor_edge list \<times> 'r) \<Rightarrow> 'w::linordered_idom edge_weight \<Rightarrow>
   (string \<Rightarrow> string \<Rightarrow> 'w) \<Rightarrow> (string \<Rightarrow> string \<Rightarrow> 'w) \<Rightarrow> string \<Rightarrow> string \<Rightarrow> nat \<Rightarrow>
   nat \<Rightarrow> 'w bi_side \<Rightarrow> 'w bi_side \<Rightarrow> 'w bi_best \<Rightarrow> 'r \<Rightarrow> nat \<times> 'w bi_side \<times> 'w bi_side \<times> 'w bi_best \<times> 'r" where
  "bi_loop read weight fh bh start goal maxNodes explored fwd bwd best rs =
     (let fwdF = peekPriority (bs_heap fwd); bwdF = peekPriority (bs_heap bwd)
      in if \<not> ((\<not> heap_isEmpty (bs_heap fwd) \<or> \<not> heap_isEmpty (bs_heap bwd)) \<and> explored < maxNodes)
         then (explored, fwd, bwd, best, rs)
         else if inf_le (bb_mu best) (inf_min fwdF bwdF) then (explored, fwd, bwd, best, rs)
         else if inf_le fwdF bwdF then
           (let (n, fwd, best, rs) = biAStarExpand (read Out) weight fh goal Out fwd bwd best rs
            in bi_loop read weight fh bh start goal maxNodes (explored + n) fwd bwd best rs)
         else
           (let (n, bwd, best, rs) = biAStarExpand (read In) weight bh start In bwd fwd best rs
            in bi_loop read weight fh bh start goal maxNodes (explored + n) fwd bwd best rs))"
  by pat_completeness auto

termination
proof (relation "(\<lambda>(read, weight, fh, bh, start, goal, n, explored, fwd, bwd, best, rs). n - explored) <*mlex*>
    measure (\<lambda>(read, weight, fh, bh, start, goal, n, explored, fwd, bwd, best, rs).
      length (heap_array (bs_heap fwd)) + length (heap_array (bs_heap bwd)))", goal_cases)
  case 1
  show ?case by (simp add: wf_mlex)
next
  case (2 read weight fh bh start goal maxNodes explored fwd bwd best rs fwdF bwdF x n xa fwd' xb best' rs')
  have "\<not> heap_isEmpty (bs_heap fwd)"
  proof
    assume "heap_isEmpty (bs_heap fwd)"
    with 2(1-5) have "bwdF \<noteq> None" "fwdF = None" by auto
    with 2(5) show False by (cases bwdF) auto
  qed
  then show ?case using biAStarExpand_shrinks [of "read Out" weight fh goal Out fwd bwd best rs n fwd' best' rs'] 2
    by (auto simp: mlex_iff)
next
  case (3 read weight fh bh start goal maxNodes explored fwd bwd best rs fwdF bwdF x n xa bwd' xb best' rs')
  have "\<not> heap_isEmpty (bs_heap bwd)"
  proof
    assume "heap_isEmpty (bs_heap bwd)"
    with 3(2) have "bwdF = None" by simp
    with 3(5) show False by simp
  qed
  then show ?case using biAStarExpand_shrinks [of "read In" weight bh start In bwd fwd best rs n bwd' best' rs'] 3
    by (auto simp: mlex_iff)
qed

declare bi_loop.simps [simp del]

text \<open>The two halves of the path, each following its map until the end or a missing entry.\<close>

partial_function (option) walk_map ::
  "(string, string) jsmap \<Rightarrow> string \<Rightarrow> string \<Rightarrow> string list \<Rightarrow> string list option" where
  "walk_map m stop cur path =
     (if cur \<noteq> stop \<and> map_of m cur \<noteq> None
      then walk_map m stop (the (map_of m cur)) (path @ [the (map_of m cur)])
      else Some path)"

declare walk_map.simps [code]

definition reconstructBiPath ::
  "(string, string) jsmap \<Rightarrow> (string, string) jsmap \<Rightarrow> string \<Rightarrow> string \<Rightarrow> string \<Rightarrow> string list option" where
  "reconstructBiPath fwdPrev bwdNext start goal meeting =
     Option.bind (walk_map fwdPrev start meeting [meeting])
       (\<lambda>fwdHalf. walk_map bwdNext goal meeting (rev fwdHalf))"

definition bi_side_at :: "string \<Rightarrow> 'w::linordered_idom \<Rightarrow> 'w bi_side" where
  "bi_side_at v priority =
     \<lparr>bs_heap = heap_insert (newMinHeap (Some lexTieBreaker)) v priority,
      bs_visited = [], bs_g = [(v, 0)], bs_pred = []\<rparr>"

definition bidirectionalAStar ::
  "provider \<Rightarrow> string \<Rightarrow> string \<Rightarrow> label_filter \<Rightarrow> 'w::linordered_idom edge_weight option \<Rightarrow> (string \<Rightarrow> 'w) option \<Rightarrow>
   (string \<Rightarrow> string \<Rightarrow> 'w) \<Rightarrow> (string \<Rightarrow> string \<Rightarrow> 'w) \<Rightarrow> nat \<Rightarrow> neighbor_cache \<Rightarrow>
   (neighbor_cache \<times> (trav_error + 'w cost_path)) option" where
  "bidirectionalAStar p start goal labels weightFn nodeWeightFn fh bh maxNodes cache =
     (case resolveWeightFn weightFn nodeWeightFn of
        Inl e \<Rightarrow> Some (cache, Inl e)
      | Inr weight \<Rightarrow>
          (case validateStart p start of
             Inl e \<Rightarrow> Some (cache, Inl e)
           | Inr _ \<Rightarrow>
               if start = goal then
                 Some (cache, Inr \<lparr>cp_path = [start], cp_totalCost = 0, cp_nodesExplored = 1,
                   cp_stats = stats 1 (newRunStats cache)\<rparr>)
               else
                 (let (explored, fwd, bwd, best, rs) =
                    bi_loop (\<lambda>dir. expand p dir labels) weight fh bh start goal maxNodes 0
                      (bi_side_at start (fh start goal)) (bi_side_at goal (bh goal start))
                      \<lparr>bb_mu = None, bb_meeting = None\<rparr> (newRunStats cache)
                  in (case bb_meeting best of
                        None \<Rightarrow> Some (neighborCache rs, Inl (NoPath start goal))
                      | Some meeting \<Rightarrow>
                          map_option (\<lambda>path. (neighborCache rs,
                              Inr \<lparr>cp_path = path, cp_totalCost = the (bb_mu best), cp_nodesExplored = explored,
                                   cp_stats = stats explored rs\<rparr>))
                            (reconstructBiPath (bs_pred fwd) (bs_pred bwd) start goal meeting)))))"

end
