(* ===== verification/Topology.thy ===== *)
theory Topology
  imports WeightedSearch
begin

text \<open>
  The part of \<open>src/domain/services/GraphTraversal.js\<close> that works on whole reachable subgraphs:
  \<open>topologicalSort\<close>, \<open>weightedLongestPath\<close>, \<open>levels\<close>, \<open>transitiveReduction\<close> and
  \<open>transitiveClosure\<close>. The discovery loop of the sort and the searches of the reduction have no limit
  in the code: they are \<open>partial_function (option)\<close>s, and \<open>None\<close> is a run that never returns.
\<close>

section \<open>Discovery\<close>

text \<open>\<open>topo_queue\<close> is the queue from \<open>qHead\<close> on; \<open>adjList\<close> is \<open>None\<close> in the lightweight mode.\<close>

record 'r topo_state =
  topo_queue :: "string list"
  topo_discovered :: "string jsset"
  topo_inDegree :: "(string, int) jsmap"
  topo_adjList :: "(string, string list) jsmap option"
  topo_edgeMap :: "(string, neighbor_edge list) jsmap"
  topo_run :: 'r

definition topo_edge :: "'r topo_state \<Rightarrow> neighbor_edge \<Rightarrow> 'r topo_state" where
  "topo_edge st e =
     (let v = neighborId e;
          st = st\<lparr>topo_inDegree := map_set (topo_inDegree st) v
                   ((case map_of (topo_inDegree st) v of None \<Rightarrow> 0 | Some d \<Rightarrow> d) + 1)\<rparr>
      in if v \<notin> set (topo_discovered st)
         then st\<lparr>topo_discovered := set_add (topo_discovered st) v, topo_queue := topo_queue st @ [v]\<rparr>
         else st)"

definition topo_visit ::
  "(string \<Rightarrow> 'r \<Rightarrow> neighbor_edge list \<times> 'r) \<Rightarrow> bool \<Rightarrow> string \<Rightarrow> 'r topo_state \<Rightarrow> 'r topo_state" where
  "topo_visit read returnAdjList nodeId st =
     (let (neighbors, rs) = read nodeId (topo_run st);
          st = foldl topo_edge (st\<lparr>topo_run := rs\<rparr>) neighbors;
          st = st\<lparr>topo_adjList := map_option (\<lambda>m. map_set m nodeId (map neighborId neighbors)) (topo_adjList st)\<rparr>
      in if returnAdjList then st\<lparr>topo_edgeMap := map_set (topo_edgeMap st) nodeId neighbors\<rparr> else st)"

partial_function (option) topo_discover ::
  "(string \<Rightarrow> 'r \<Rightarrow> neighbor_edge list \<times> 'r) \<Rightarrow> bool \<Rightarrow> 'r topo_state \<Rightarrow> 'r topo_state option" where
  "topo_discover read returnAdjList st =
     (case topo_queue st of
        [] \<Rightarrow> Some st
      | nodeId # rest \<Rightarrow> topo_discover read returnAdjList (topo_visit read returnAdjList nodeId (st\<lparr>topo_queue := rest\<rparr>)))"

declare topo_discover.simps [code]

text \<open>Every start has an in-degree entry.\<close>

definition topo_start :: "(string, int) jsmap \<Rightarrow> string \<Rightarrow> (string, int) jsmap" where
  "topo_start inDegree s = (if map_of inDegree s = None then map_set inDegree s 0 else inDegree)"

section \<open>Kahn's algorithm\<close>

text \<open>The two readers of neighbour ids: the stored adjacency, or a second read.\<close>

definition createTopoNeighborIdReader ::
  "(string \<Rightarrow> 'r \<Rightarrow> neighbor_edge list \<times> 'r) \<Rightarrow> (string, string list) jsmap option \<Rightarrow> string \<Rightarrow> 'r \<Rightarrow> string list \<times> 'r" where
  "createTopoNeighborIdReader read adjList nodeId rs =
     (case adjList of
        Some m \<Rightarrow> ((case map_of m nodeId of None \<Rightarrow> [] | Some ids \<Rightarrow> ids), rs)
      | None \<Rightarrow> (let (neighbors, rs) = read nodeId rs in (map neighborId neighbors, rs)))"

definition kahn_edge ::
  "(string, int) jsmap \<times> (string, int) min_heap \<Rightarrow> string \<Rightarrow> (string, int) jsmap \<times> (string, int) min_heap" where
  "kahn_edge acc v =
     (let (inDegree, ready) = acc;
          deg = the (map_of inDegree v) - 1
      in (map_set inDegree v deg, if deg = 0 then heap_insert ready v 0 else ready))"

function kahn ::
  "(string \<Rightarrow> 'r \<Rightarrow> string list \<times> 'r) \<Rightarrow> nat \<Rightarrow> (string, int) jsmap \<Rightarrow> (string, int) min_heap \<Rightarrow> string list \<Rightarrow> 'r \<Rightarrow>
   (string, int) min_heap \<times> string list \<times> 'r" where
  "kahn getNeighborIds maxNodes inDegree ready order rs =
     (if \<not> heap_isEmpty ready \<and> length order < maxNodes then
        (case extractMin ready of
           (None, ready) \<Rightarrow> (ready, order, rs)
         | (Some nodeId, ready) \<Rightarrow>
             (let (neighbors, rs) = getNeighborIds nodeId rs;
                  (inDegree, ready) = foldl kahn_edge (inDegree, ready) neighbors
              in kahn getNeighborIds maxNodes inDegree ready (order @ [nodeId]) rs))
      else (ready, order, rs))"
  by pat_completeness auto

termination
  by (relation "measure (\<lambda>(read, n, d, q, order, rs). n - length order)") auto

declare kahn.simps [simp del]

definition computeTopoHasCycle :: "nat \<Rightarrow> nat \<Rightarrow> nat \<Rightarrow> bool \<Rightarrow> bool" where
  "computeTopoHasCycle sortedLength discoveredSize maxNodes readyRemaining =
     (let stoppedByLimit = sortedLength \<ge> maxNodes \<and> readyRemaining
      in \<not> stoppedByLimit \<and> sortedLength < discoveredSize)"

text \<open>The first edge between two nodes that were not sorted.\<close>

fun findTopoCycleWitness ::
  "(string \<Rightarrow> 'r \<Rightarrow> string list \<times> 'r) \<Rightarrow> string list \<Rightarrow> string list \<Rightarrow> 'r \<Rightarrow> (string \<times> string) option \<times> 'r" where
  "findTopoCycleWitness getNeighborIds order [] rs = (None, rs)"
| "findTopoCycleWitness getNeighborIds order (nodeId # rest) rs =
     (if nodeId \<in> set order then findTopoCycleWitness getNeighborIds order rest rs
      else
        (let (neighbors, rs) = getNeighborIds nodeId rs
         in case filter (\<lambda>v. v \<notin> set order) neighbors of
              v # _ \<Rightarrow> (Some (nodeId, v), rs)
            | [] \<Rightarrow> findTopoCycleWitness getNeighborIds order rest rs))"

record topo_result =
  topo_sorted :: "string list"
  topo_hasCycle :: bool
  topo_stats :: trav_stats
  topo_neighborEdgeMap :: "(string, neighbor_edge list) jsmap option"

fun validateStarts :: "provider \<Rightarrow> string list \<Rightarrow> trav_error + unit" where
  "validateStarts p [] = Inr ()"
| "validateStarts p (s # ss) = bind_r (validateStart p s) (\<lambda>_. validateStarts p ss)"

definition topologicalSort ::
  "provider \<Rightarrow> string list \<Rightarrow> direction \<Rightarrow> label_filter \<Rightarrow> nat \<Rightarrow> bool \<Rightarrow> bool \<Rightarrow> bool option \<Rightarrow> neighbor_cache \<Rightarrow>
   (neighbor_cache \<times> (trav_error + topo_result)) option" where
  "topologicalSort p start direction labels maxNodes throwOnCycle returnAdjList lightweightOpt cache =
     (let starts = set_of start;
          read = expand p direction labels
      in case validateStarts p starts of
           Inl e \<Rightarrow> Some (cache, Inl e)
         | Inr _ \<Rightarrow>
             (let lightweight = (case lightweightOpt of None \<Rightarrow> \<not> returnAdjList | Some b \<Rightarrow> b) \<and> \<not> returnAdjList
              in Option.bind
                (topo_discover read returnAdjList
                   \<lparr>topo_queue = starts, topo_discovered = starts, topo_inDegree = [],
                    topo_adjList = (if lightweight then None else Some []), topo_edgeMap = [], topo_run = newRunStats cache\<rparr>)
                (\<lambda>st.
                   (let inDegree = foldl topo_start (topo_inDegree st) starts;
                        getNeighborIds = createTopoNeighborIdReader read (topo_adjList st);
                        ready = foldl (\<lambda>q nodeId.
                            if (case map_of inDegree nodeId of None \<Rightarrow> 0 | Some d \<Rightarrow> d) = 0 then heap_insert q nodeId 0 else q)
                          (newMinHeap (Some lexTieBreaker)) (topo_discovered st);
                        (ready, order, rs) = kahn getNeighborIds maxNodes inDegree ready [] (topo_run st);
                        hasCycle = computeTopoHasCycle (length order) (length (topo_discovered st)) maxNodes (\<not> heap_isEmpty ready)
                    in if hasCycle \<and> throwOnCycle then
                         (let (witness, rs) = findTopoCycleWitness getNeighborIds order (topo_discovered st) rs
                          in Some (neighborCache rs, Inl (GraphHasCycles (length (topo_discovered st) - length order)
                               (case witness of Some (from, to) \<Rightarrow> if from \<noteq> [] then witness else None | None \<Rightarrow> None))))
                       else
                         Some (neighborCache rs, Inr \<lparr>topo_sorted = order, topo_hasCycle = hasCycle,
                           topo_stats = stats (length order) rs,
                           topo_neighborEdgeMap = (if returnAdjList then Some (topo_edgeMap st) else None)\<rparr>)))))"

section \<open>The longest path\<close>

definition lp_edge ::
  "'w::linordered_idom edge_weight \<Rightarrow> string \<Rightarrow> (string, 'w) jsmap \<times> (string, string) jsmap \<Rightarrow> neighbor_edge \<Rightarrow>
   (string, 'w) jsmap \<times> (string, string) jsmap" where
  "lp_edge weight nodeId acc e =
     (let (dist, prev) = acc; v = neighborId e;
          alt = the (map_of dist nodeId) + weight nodeId v (edge_label e)
      in if (case map_of dist v of
               None \<Rightarrow> True
             | Some best \<Rightarrow> alt > best \<or> (alt = best \<and> shouldUpdatePredecessor prev v nodeId))
         then (map_set dist v alt, map_set prev v nodeId) else acc)"

definition lp_node ::
  "'w::linordered_idom edge_weight \<Rightarrow> (string, neighbor_edge list) jsmap \<Rightarrow>
   (string, 'w) jsmap \<times> (string, string) jsmap \<times> nat \<Rightarrow> string \<Rightarrow> (string, 'w) jsmap \<times> (string, string) jsmap \<times> nat" where
  "lp_node weight edgeMap acc nodeId =
     (let (dist, prev, traversed) = acc
      in if map_of dist nodeId = None then acc
         else
           (let neighbors = (case map_of edgeMap nodeId of None \<Rightarrow> [] | Some es \<Rightarrow> es);
                (dist, prev) = foldl (lp_edge weight nodeId) (dist, prev) neighbors
            in (dist, prev, traversed + length neighbors)))"

definition weightedLongestPath ::
  "provider \<Rightarrow> string \<Rightarrow> string \<Rightarrow> direction \<Rightarrow> label_filter \<Rightarrow> 'w::linordered_idom edge_weight option \<Rightarrow> (string \<Rightarrow> 'w) option \<Rightarrow>
   nat \<Rightarrow> neighbor_cache \<Rightarrow> (neighbor_cache \<times> (trav_error + 'w cost_path)) option" where
  "weightedLongestPath p start goal direction labels weightFn nodeWeightFn maxNodes cache =
     (case resolveWeightFn weightFn nodeWeightFn of
        Inl e \<Rightarrow> Some (cache, Inl e)
      | Inr weight \<Rightarrow>
          (case validateStart p start of
             Inl e \<Rightarrow> Some (cache, Inl e)
           | Inr _ \<Rightarrow>
               Option.bind (topologicalSort p [start] direction labels maxNodes True True None cache)
                 (\<lambda>(cache, r). case r of
                    Inl e \<Rightarrow> Some (cache, Inl e)
                  | Inr t \<Rightarrow>
                      (let edgeMap = (case topo_neighborEdgeMap t of None \<Rightarrow> [] | Some m \<Rightarrow> m);
                           (dist, prev, traversed) = foldl (lp_node weight edgeMap) ([(start, 0)], [], 0) (topo_sorted t)
                       in case map_of dist goal of
                            None \<Rightarrow> Some (cache, Inl (NoPath start goal))
                          | Some cost \<Rightarrow>
                              map_option (\<lambda>path. (cache, Inr \<lparr>cp_path = path, cp_totalCost = cost,
                                  cp_nodesExplored = length (topo_sorted t),
                                  cp_stats = stats (length (topo_sorted t)) ((newRunStats cache)\<lparr>edgesTraversed := traversed\<rparr>)\<rparr>))
                                (reconstructPath prev start goal)))))"

section \<open>Levels\<close>

definition level_edge :: "nat \<Rightarrow> (string, nat) jsmap \<times> nat \<Rightarrow> neighbor_edge \<Rightarrow> (string, nat) jsmap \<times> nat" where
  "level_edge currentLevel acc e =
     (let (levelMap, maxLevel) = acc; v = neighborId e;
          neighborLevel = (case map_of levelMap v of None \<Rightarrow> 0 | Some l \<Rightarrow> l);
          candidate = currentLevel + 1
      in if candidate > neighborLevel then (map_set levelMap v candidate, max maxLevel candidate) else acc)"

definition level_node ::
  "(string \<Rightarrow> 'r \<Rightarrow> neighbor_edge list \<times> 'r) \<Rightarrow> (string, nat) jsmap \<times> nat \<times> 'r \<Rightarrow> string \<Rightarrow> (string, nat) jsmap \<times> nat \<times> 'r" where
  "level_node read acc nodeId =
     (let (levelMap, maxLevel, rs) = acc;
          (neighbors, rs) = read nodeId rs;
          (levelMap, maxLevel) = foldl (level_edge (the (map_of levelMap nodeId))) (levelMap, maxLevel) neighbors
      in (levelMap, maxLevel, rs))"

record levels_result =
  level_map :: "(string, nat) jsmap"
  level_max :: nat
  level_stats :: trav_stats

definition levels ::
  "provider \<Rightarrow> string list \<Rightarrow> direction \<Rightarrow> label_filter \<Rightarrow> nat \<Rightarrow> neighbor_cache \<Rightarrow>
   (neighbor_cache \<times> (trav_error + levels_result)) option" where
  "levels p start direction labels maxNodes cache =
     Option.bind (topologicalSort p start direction labels maxNodes True False None cache)
       (\<lambda>(cache, r). case r of
          Inl e \<Rightarrow> Some (cache, Inl e)
        | Inr t \<Rightarrow>
            (let levelMap = foldl (\<lambda>m v. if map_of m v = None then map_set m v 0 else m) [] (topo_sorted t);
                 (levelMap, maxLevel, rs) =
                   foldl (level_node (expand p direction labels)) (levelMap, 0, newRunStats cache) (topo_sorted t)
             in Some (neighborCache rs, Inr \<lparr>level_map = levelMap, level_max = maxLevel,
                  level_stats = stats (length (topo_sorted t)) rs\<rparr>)))"

end
