(* ===== verification/Closure.thy ===== *)
theory Closure
  imports Topology
begin

text \<open>
  \<open>transitiveReduction\<close> and \<open>transitiveClosure\<close> of \<open>src/domain/services/GraphTraversal.js\<close>. The search of
  the reduction has no limit in the code and may not return on an infinite graph; the discovery of
  the closure is bounded by \<open>maxNodes\<close> and its streaming by \<open>maxEdges\<close>.
\<close>

section \<open>Transitive reduction\<close>

text \<open>Successor edges are read once and remembered.\<close>

type_synonym 'r fetched = "(string, neighbor_edge list) jsmap \<times> 'r"

definition getSuccessorEdges ::
  "(string \<Rightarrow> 'r \<Rightarrow> neighbor_edge list \<times> 'r) \<Rightarrow> string \<Rightarrow> 'r fetched \<Rightarrow> neighbor_edge list \<times> 'r fetched" where
  "getSuccessorEdges read nodeId fs =
     (let (fetchedSuccessors, rs) = fs
      in case map_of fetchedSuccessors nodeId of
           Some edges \<Rightarrow> (edges, fs)
         | None \<Rightarrow> (let (neighbors, rs) = read nodeId rs in (neighbors, (map_set fetchedSuccessors nodeId neighbors, rs))))"

text \<open>A node that was not met goes to the next frontier.\<close>

definition mark_new :: "string jsset \<times> string list \<Rightarrow> neighbor_edge \<Rightarrow> string jsset \<times> string list" where
  "mark_new acc e =
     (let (visited, frontier) = acc
      in if neighborId e \<notin> set visited then (set_add visited (neighborId e), frontier @ [neighborId e]) else acc)"

definition tr_child ::
  "(string \<Rightarrow> 'r \<Rightarrow> neighbor_edge list \<times> 'r) \<Rightarrow> string jsset \<times> string jsset \<times> string list \<times> 'r fetched \<Rightarrow> neighbor_edge \<Rightarrow>
   string jsset \<times> string jsset \<times> string list \<times> 'r fetched" where
  "tr_child read acc e =
     (let (directSet, visited, frontier, fs) = acc;
          directSet = set_add directSet (neighborId e);
          (successorEdges, fs) = getSuccessorEdges read (neighborId e) fs;
          (visited, frontier) = foldl mark_new (visited, frontier) successorEdges
      in (directSet, visited, frontier, fs))"

definition redundant_key :: "string \<Rightarrow> string \<Rightarrow> string" where
  "redundant_key from to = from @ [NUL] @ to"

definition tr_step ::
  "(string \<Rightarrow> 'r \<Rightarrow> neighbor_edge list \<times> 'r) \<Rightarrow> string \<Rightarrow> string jsset \<Rightarrow>
   string jsset \<times> string jsset \<times> string list \<times> 'r fetched \<Rightarrow> string \<Rightarrow> string jsset \<times> string jsset \<times> string list \<times> 'r fetched" where
  "tr_step read u directSet acc nodeId =
     (let (redundant, visited, nextFrontier, fs) = acc;
          redundant = (if nodeId \<in> set directSet then set_add redundant (redundant_key u nodeId) else redundant);
          (successors, fs) = getSuccessorEdges read nodeId fs;
          (visited, nextFrontier) = foldl mark_new (visited, nextFrontier) successors
      in (redundant, visited, nextFrontier, fs))"

partial_function (option) tr_search ::
  "(string \<Rightarrow> 'r \<Rightarrow> neighbor_edge list \<times> 'r) \<Rightarrow> string \<Rightarrow> string jsset \<Rightarrow> string jsset \<Rightarrow> string jsset \<Rightarrow> string list \<Rightarrow>
   'r fetched \<Rightarrow> (string jsset \<times> 'r fetched) option" where
  "tr_search read u directSet redundant visited frontier fs =
     (if frontier = [] then Some (redundant, fs)
      else (case foldl (tr_step read u directSet) (redundant, visited, [], fs) frontier of
              (redundant, visited, nextFrontier, fs) \<Rightarrow>
                tr_search read u directSet redundant visited nextFrontier fs))"

declare tr_search.simps [code]

definition tr_node ::
  "(string \<Rightarrow> 'r \<Rightarrow> neighbor_edge list \<times> 'r) \<Rightarrow> string \<Rightarrow> string jsset \<times> 'r fetched \<Rightarrow> (string jsset \<times> 'r fetched) option" where
  "tr_node read u acc =
     (let (redundant, fs) = acc; (directEdges, fs) = getSuccessorEdges read u fs
      in if length directEdges \<le> 1 then Some (redundant, fs)
         else
           (let (directSet, visited, frontier, fs) = foldl (tr_child read) ([], [], [], fs) directEdges
            in tr_search read u directSet redundant visited frontier fs))"

fun tr_nodes ::
  "(string \<Rightarrow> 'r \<Rightarrow> neighbor_edge list \<times> 'r) \<Rightarrow> string list \<Rightarrow> string jsset \<times> 'r fetched \<Rightarrow> (string jsset \<times> 'r fetched) option" where
  "tr_nodes read [] acc = Some acc"
| "tr_nodes read (u # us) acc = Option.bind (tr_node read u acc) (tr_nodes read us)"

record full_edge =
  fe_from :: string
  fe_to :: string
  fe_label :: string

definition tr_edge :: "string jsset \<Rightarrow> string \<Rightarrow> full_edge list \<times> nat \<Rightarrow> neighbor_edge \<Rightarrow> full_edge list \<times> nat" where
  "tr_edge redundant nodeId acc e =
     (let (edges, removed) = acc
      in if redundant_key nodeId (neighborId e) \<in> set redundant then (edges, removed + 1)
         else (edges @ [\<lparr>fe_from = nodeId, fe_to = neighborId e, fe_label = edge_label e\<rparr>], removed))"

definition tr_collect ::
  "(string \<Rightarrow> 'r \<Rightarrow> neighbor_edge list \<times> 'r) \<Rightarrow> string jsset \<Rightarrow> (full_edge list \<times> nat) \<times> 'r fetched \<Rightarrow> string \<Rightarrow>
   (full_edge list \<times> nat) \<times> 'r fetched" where
  "tr_collect read redundant acc nodeId =
     (let (kept, fs) = acc; (neighbors, fs) = getSuccessorEdges read nodeId fs
      in (foldl (tr_edge redundant nodeId) kept neighbors, fs))"

definition full_edge_cmp :: "full_edge \<Rightarrow> full_edge \<Rightarrow> int" where
  "full_edge_cmp a b =
     (if fe_from a < fe_from b then -1 else if fe_from a > fe_from b then 1
      else if fe_to a < fe_to b then -1 else if fe_to a > fe_to b then 1
      else if fe_label a < fe_label b then -1 else if fe_label a > fe_label b then 1 else 0)"

record reduction_result =
  red_edges :: "full_edge list"
  red_removed :: nat
  red_stats :: trav_stats

text \<open>The reads count their edges, as \<open>expand\<close> does.\<close>

definition transitiveReduction ::
  "provider \<Rightarrow> string list \<Rightarrow> direction \<Rightarrow> label_filter \<Rightarrow> nat \<Rightarrow> neighbor_cache \<Rightarrow>
   (neighbor_cache \<times> (trav_error + reduction_result)) option" where
  "transitiveReduction p start direction labels maxNodes cache =
     Option.bind (topologicalSort p start direction labels maxNodes True False None cache)
       (\<lambda>(cache, r). case r of
          Inl e \<Rightarrow> Some (cache, Inl e)
        | Inr t \<Rightarrow>
            (let read = expand p direction labels
             in Option.bind (tr_nodes read (topo_sorted t) ([], [], newRunStats cache))
                  (\<lambda>(redundant, fs).
                     (let ((edges, removed), _, rs) = foldl (tr_collect read redundant) (([], 0), fs) (topo_sorted t)
                      in Some (neighborCache rs, Inr \<lparr>red_edges = sort_by full_edge_cmp edges, red_removed = removed,
                           red_stats = stats (length (topo_sorted t)) rs\<rparr>)))))"

section \<open>Transitive closure\<close>

lemma mark_new_grow:
  "(visited', queue') = foldl mark_new (visited, queue) es \<Longrightarrow>
   length visited < length visited' \<or> visited' = visited \<and> queue' = queue"
proof (induction es arbitrary: visited queue)
  case (Cons e es)
  obtain v1 q1 where s: "mark_new (visited, queue) e = (v1, q1)" by fastforce
  have "length visited < length v1 \<or> v1 = visited \<and> q1 = queue"
    using s by (auto simp: mark_new_def set_add_def split: if_splits)
  with Cons.IH [of v1 q1] Cons.prems s show ?case by auto
qed simp

text \<open>The queue is the part from \<open>qHead\<close> on.\<close>

function tc_discover ::
  "(string \<Rightarrow> 'r \<Rightarrow> neighbor_edge list \<times> 'r) \<Rightarrow> nat \<Rightarrow> string jsset \<Rightarrow> string list \<Rightarrow> 'r \<Rightarrow> string jsset \<times> 'r" where
  "tc_discover read maxNodes allVisited [] rs = (allVisited, rs)"
| "tc_discover read maxNodes allVisited (nodeId # queue) rs =
     (if length allVisited \<ge> maxNodes then (allVisited, rs)
      else
        (let (neighbors, rs) = read nodeId rs;
             (allVisited, queue) = foldl mark_new (allVisited, queue) neighbors
         in tc_discover read maxNodes allVisited queue rs))"
  by pat_completeness auto

termination
  by (relation "(\<lambda>(read, n, visited, queue, rs). n - length visited) <*mlex*> measure (\<lambda>(read, n, visited, queue, rs). length queue)")
    (auto simp: wf_mlex mlex_iff dest!: mark_new_grow)

definition prepareTransitiveClosure ::
  "provider \<Rightarrow> string list \<Rightarrow> direction \<Rightarrow> label_filter \<Rightarrow> nat \<Rightarrow> trav_run \<Rightarrow> (trav_error + string list \<times> nat) \<times> trav_run" where
  "prepareTransitiveClosure p start direction labels maxNodes rs =
     (let starts = set_of start
      in case validateStarts p starts of
           Inl e \<Rightarrow> (Inl e, rs)
         | Inr _ \<Rightarrow>
             (let (allVisited, rs) = tc_discover (expand p direction labels) maxNodes starts starts rs
              in (Inr (sort_by str_cmp allVisited, length allVisited), rs)))"

text \<open>One source: the nodes it reaches, in the order they are met, or the error of too many edges.\<close>

record 'r tc_state =
  tc_visited :: "string jsset"
  tc_next :: "string list"
  tc_reachable :: "string list"
  tc_count :: nat
  tc_run :: 'r

fun tc_targets :: "nat \<Rightarrow> 'r tc_state \<Rightarrow> neighbor_edge list \<Rightarrow> trav_error + 'r tc_state" where
  "tc_targets maxEdges st [] = Inr st"
| "tc_targets maxEdges st (e # es) =
     (if neighborId e \<in> set (tc_visited st) then tc_targets maxEdges st es
      else
        (let v = neighborId e;
             st = st\<lparr>tc_visited := set_add (tc_visited st) v, tc_next := tc_next st @ [v],
                     tc_reachable := tc_reachable st @ [v], tc_count := tc_count st + 1\<rparr>
         in if tc_count st > maxEdges then Inl (MaxEdgesExceeded maxEdges) else tc_targets maxEdges st es))"

definition tc_node ::
  "(string \<Rightarrow> 'r \<Rightarrow> neighbor_edge list \<times> 'r) \<Rightarrow> nat \<Rightarrow> 'r tc_state \<Rightarrow> string \<Rightarrow> trav_error + 'r tc_state" where
  "tc_node read maxEdges st nodeId =
     (let (neighbors, rs) = read nodeId (tc_run st) in tc_targets maxEdges (st\<lparr>tc_run := rs\<rparr>) neighbors)"

lemma tc_targets_grow:
  "tc_targets n st es = Inr st' \<Longrightarrow>
   tc_count st \<le> tc_count st' \<and> (tc_count st \<le> n \<longrightarrow> tc_count st' \<le> n) \<and> (n < tc_count st \<longrightarrow> tc_count st' = tc_count st) \<and> (tc_count st = tc_count st' \<longrightarrow> tc_next st' = tc_next st)"
proof (induction es arbitrary: st)
  case (Cons e es)
  show ?case
  proof (cases "neighborId e \<in> set (tc_visited st)")
    case True
    with Cons show ?thesis by simp
  next
    case False
    with Cons.prems have "tc_count st + 1 \<le> n"
      and r: "tc_targets n (st\<lparr>tc_visited := set_add (tc_visited st) (neighborId e), tc_next := tc_next st @ [neighborId e],
        tc_reachable := tc_reachable st @ [neighborId e], tc_count := tc_count st + 1\<rparr>) es = Inr st'"
      by (auto simp: Let_def split: if_splits)
    with Cons.IH [OF r] show ?thesis by auto
  qed
qed simp

lemma tc_nodes_grow:
  "fold_r (tc_node read n) st vs = Inr st' \<Longrightarrow>
   tc_count st \<le> tc_count st' \<and> (tc_count st \<le> n \<longrightarrow> tc_count st' \<le> n) \<and> (n < tc_count st \<longrightarrow> tc_count st' = tc_count st) \<and> (tc_count st = tc_count st' \<longrightarrow> tc_next st' = tc_next st)"
proof (induction vs arbitrary: st)
  case (Cons v vs)
  then obtain st1 where s: "tc_node read n st v = Inr st1" "fold_r (tc_node read n) st1 vs = Inr st'"
    by (auto simp: bind_r_Inr_iff)
  have "tc_count st \<le> tc_count st1 \<and> (tc_count st \<le> n \<longrightarrow> tc_count st1 \<le> n) \<and> (n < tc_count st \<longrightarrow> tc_count st1 = tc_count st) \<and> (tc_count st = tc_count st1 \<longrightarrow> tc_next st1 = tc_next st)"
    using s(1) tc_targets_grow [of n "st\<lparr>tc_run := snd (read v (tc_run st))\<rparr>" "fst (read v (tc_run st))" st1]
    by (simp add: tc_node_def case_prod_beta)
  with Cons.IH [OF s(2)] show ?case by auto
qed simp

function tc_loop ::
  "(string \<Rightarrow> 'r \<Rightarrow> neighbor_edge list \<times> 'r) \<Rightarrow> nat \<Rightarrow> 'r tc_state \<Rightarrow> trav_error + 'r tc_state" where
  "tc_loop read maxEdges st =
     (if tc_next st = [] then Inr st
      else (case fold_r (tc_node read maxEdges) (st\<lparr>tc_next := []\<rparr>) (tc_next st) of
              Inl e \<Rightarrow> Inl e
            | Inr st \<Rightarrow> tc_loop read maxEdges st))"
  by pat_completeness auto

termination
  by (relation "(\<lambda>(read, n, st). n - tc_count st) <*mlex*> measure (\<lambda>(read, n, st). if tc_next st = [] then 0 else 1)")
    (auto simp: wf_mlex mlex_iff dest!: tc_nodes_grow)

declare tc_loop.simps [simp del]

definition tc_source ::
  "(string \<Rightarrow> 'r \<Rightarrow> neighbor_edge list \<times> 'r) \<Rightarrow> nat \<Rightarrow> (string \<times> string) list \<times> nat \<times> 'r \<Rightarrow> string \<Rightarrow>
   trav_error + (string \<times> string) list \<times> nat \<times> 'r" where
  "tc_source read maxEdges acc fromNode =
     (let (edges, edgeCount, rs) = acc
      in bind_r (tc_loop read maxEdges
             \<lparr>tc_visited = [fromNode], tc_next = [fromNode], tc_reachable = [], tc_count = edgeCount, tc_run = rs\<rparr>)
           (\<lambda>st. Inr (edges @ map (\<lambda>to. (fromNode, to)) (sort_by str_cmp (tc_reachable st)), tc_count st, tc_run st)))"

text \<open>The stream, collected.\<close>

definition streamTransitiveClosureEdges ::
  "provider \<Rightarrow> string list \<Rightarrow> direction \<Rightarrow> label_filter \<Rightarrow> nat \<Rightarrow> trav_run \<Rightarrow> trav_error + (string \<times> string) list \<times> nat \<times> trav_run" where
  "streamTransitiveClosureEdges p nodeList direction labels maxEdges rs =
     fold_r (tc_source (expand p direction labels) maxEdges) ([], 0, rs) nodeList"

record closure_result =
  clo_edges :: "(string \<times> string) list"
  clo_stats :: trav_stats

definition transitiveClosure ::
  "provider \<Rightarrow> string list \<Rightarrow> direction \<Rightarrow> label_filter \<Rightarrow> nat \<Rightarrow> nat \<Rightarrow> neighbor_cache \<Rightarrow> trav_error + neighbor_cache \<times> closure_result" where
  "transitiveClosure p start direction labels maxNodes maxEdges cache =
     (case prepareTransitiveClosure p start direction labels maxNodes (newRunStats cache) of
        (Inl e, rs) \<Rightarrow> Inl e
      | (Inr (nodeList, nodesVisited), rs) \<Rightarrow>
          bind_r (streamTransitiveClosureEdges p nodeList direction labels maxEdges rs)
            (\<lambda>(edges, _, rs). Inr (neighborCache rs, \<lparr>clo_edges = edges, clo_stats = stats nodesVisited rs\<rparr>)))"

end
