(* ===== verification/SearchLaws.thy ===== *)
theory SearchLaws
  imports Search
begin

text \<open>
  What the unweighted searches of \<open>src/domain/services/GraphTraversal.js\<close> find, over any reader: the
  distance layers of the graph are the specification; \<open>bfs\<close> lists them layer by layer, each in
  lexicographic order, cut to \<open>maxNodes\<close>; a shortest path is one; and depth-first search visits what
  is reachable when neither of its limits is met.
\<close>

section \<open>Distance\<close>

definition succs :: "(string \<Rightarrow> neighbor_edge list) \<Rightarrow> (string \<times> string) set" where
  "succs nb = {(u, v). v \<in> neighborId ` set (nb u)}"

text \<open>The nodes at distance less than \<open>k\<close>, and those at distance \<open>k\<close>.\<close>

primrec nearer :: "(string \<Rightarrow> neighbor_edge list) \<Rightarrow> string \<Rightarrow> nat \<Rightarrow> string set" where
  "nearer nb s 0 = {}"
| "nearer nb s (Suc k) = insert s (succs nb `` nearer nb s k)"

definition dist_layer :: "(string \<Rightarrow> neighbor_edge list) \<Rightarrow> string \<Rightarrow> nat \<Rightarrow> string set" where
  "dist_layer nb s k = nearer nb s (Suc k) - nearer nb s k"

primrec bfs_order :: "(string \<Rightarrow> neighbor_edge list) \<Rightarrow> string \<Rightarrow> nat \<Rightarrow> string list" where
  "bfs_order nb s 0 = []"
| "bfs_order nb s (Suc k) = bfs_order nb s k @ sorted_list_of_set (dist_layer nb s k)"

lemma succs_image: "succs nb `` A = (\<Union>u\<in>A. neighborId ` set (nb u))"
  by (auto simp: succs_def)

lemma before_mono_Suc: "nearer nb s k \<subseteq> nearer nb s (Suc k)"
  by (induction k) auto

lemma before_mono: "j \<le> k \<Longrightarrow> nearer nb s j \<subseteq> nearer nb s k"
  by (rule lift_Suc_mono_le [of "nearer nb s"]) (rule before_mono_Suc)

lemma succs_finite [simp]: "finite A \<Longrightarrow> finite (succs nb `` A)"
  by (simp only: succs_image) blast

lemma before_finite [simp]: "finite (nearer nb s k)"
  by (induction k) simp_all

lemma dist_layer_finite [simp]: "finite (dist_layer nb s k)"
  by (simp add: dist_layer_def)

lemma before_steps: "v \<in> nearer nb s k \<longleftrightarrow> (\<exists>j<k. (s, v) \<in> succs nb ^^ j)"
proof (induction k arbitrary: v)
  case (Suc k)
  have "(\<exists>j<Suc k. (s, v) \<in> succs nb ^^ j) \<longleftrightarrow> v = s \<or> (\<exists>j<k. (s, v) \<in> succs nb ^^ Suc j)"
    by (subst Ex_less_Suc2) auto
  also have "\<dots> \<longleftrightarrow> v = s \<or> (\<exists>u \<in> nearer nb s k. (u, v) \<in> succs nb)"
    unfolding Suc.IH Bex_def relpow.simps relcomp_unfold by blast
  finally show ?case by auto
qed simp

lemma dist_layer_steps: "v \<in> dist_layer nb s k \<longleftrightarrow> (s, v) \<in> succs nb ^^ k \<and> (\<forall>j<k. (s, v) \<notin> succs nb ^^ j)"
  unfolding dist_layer_def Diff_iff before_steps by (auto simp: less_Suc_eq)

lemma reachable_before: "(s, v) \<in> (succs nb)\<^sup>* \<longleftrightarrow> (\<exists>k. v \<in> nearer nb s k)"
  unfolding before_steps rtrancl_is_UN_relpow by (auto intro: lessI)

lemma empty_layer_Suc: "dist_layer nb s k = {} \<Longrightarrow> dist_layer nb s (Suc k) = {}"
proof -
  assume "dist_layer nb s k = {}"
  then have "nearer nb s (Suc k) = nearer nb s k" using before_mono_Suc [of nb s k] by (auto simp: dist_layer_def)
  then have "nearer nb s (Suc (Suc k)) = nearer nb s (Suc k)" by (metis nearer.simps(2))
  then show ?thesis by (simp add: dist_layer_def)
qed

lemma empty_layer_after: "dist_layer nb s k = {} \<Longrightarrow> k \<le> j \<Longrightarrow> dist_layer nb s j = {}"
  by (induction j) (auto simp: le_Suc_eq empty_layer_Suc)

lemma bfs_order_set [simp]: "set (bfs_order nb s k) = nearer nb s k"
proof (induction k)
  case (Suc k)
  then show ?case using before_mono_Suc [of nb s k] by (auto simp: dist_layer_def)
qed simp

lemma bfs_order_distinct [simp]: "distinct (bfs_order nb s k)"
proof (induction k)
  case (Suc k)
  moreover have "nearer nb s k \<inter> dist_layer nb s k = {}" by (auto simp: dist_layer_def)
  ultimately show ?case by simp
qed simp

lemma bfs_order_prefix: "j \<le> k \<Longrightarrow> \<exists>r. bfs_order nb s k = bfs_order nb s j @ r"
  by (induction k) (auto simp: le_Suc_eq)

lemma bfs_order_stops: "dist_layer nb s j = {} \<Longrightarrow> j \<le> k \<Longrightarrow> bfs_order nb s k = bfs_order nb s j"
  by (induction k) (auto simp: le_Suc_eq empty_layer_after)

lemma take_bfs_order: "j \<le> k \<Longrightarrow> n \<le> length (bfs_order nb s j) \<Longrightarrow> take n (bfs_order nb s k) = take n (bfs_order nb s j)"
  using bfs_order_prefix [of j k nb s] by auto

section \<open>Breadth-first search\<close>

lemma take_short: "ys = take n xs \<Longrightarrow> length ys < n \<Longrightarrow> ys = xs"
  by auto

lemma sorted_distinct_unique: "sorted xs \<Longrightarrow> distinct xs \<Longrightarrow> set xs = A \<Longrightarrow> xs = sorted_list_of_set (A :: string set)"
  using sorted_list_of_set.idem_if_sorted_distinct [of xs] by simp

context reading
begin

lemma node_before: "node s \<Longrightarrow> v \<in> nearer nb s k \<Longrightarrow> node v"
  by (induction k arbitrary: v) (auto simp: succs_def intro: node_nb)

text \<open>The state inside one level: \<open>us\<close> are the nodes of the level met so far that are not nearer.\<close>

definition level_inv :: "string \<Rightarrow> nat \<Rightarrow> nat \<Rightarrow> nat \<Rightarrow> string list \<Rightarrow> 'r bfs_state \<Rightarrow> bool" where
  "level_inv s d n m us st \<longleftrightarrow>
     ok (bfs_run st) \<and> bfs_result st = bfs_visited st \<and> bfs_visited st = take n (bfs_order nb s d @ us) \<and>
     bfs_queued st = map fst (bfs_next st) \<and> distinct (map fst (bfs_next st)) \<and>
     (\<forall>x \<in> set (bfs_next st). snd x = Suc d \<and> fst x \<in> nearer nb s (Suc (Suc d))) \<and>
     (d = m \<longrightarrow> bfs_next st = []) \<and>
     (d < m \<longrightarrow> succs nb `` (set (bfs_visited st) - nearer nb s d) \<subseteq> set (bfs_visited st) \<union> fst ` set (bfs_next st))"

lemma level_inv_us:
  "level_inv s d n m us st \<Longrightarrow> take n (bfs_order nb s d @ us') = take n (bfs_order nb s d @ us) \<Longrightarrow> level_inv s d n m us' st"
proof -
  assume inv: "level_inv s d n m us st" and e: "take n (bfs_order nb s d @ us') = take n (bfs_order nb s d @ us)"
  have "level_inv s d n m us' st = level_inv s d n m us st" by (simp only: level_inv_def e)
  with inv show ?thesis by blast
qed

lemma enqueue_all:
  fixes d :: nat
  assumes "bfs_queued st = map fst (bfs_next st)" "distinct (map fst (bfs_next st))"
    "\<forall>x \<in> set (bfs_next st). snd x = Suc d \<and> P (fst x)" "\<forall>e \<in> set es. P (neighborId e)"
  defines "st' \<equiv> foldl (bfs_enqueue d) st es"
  shows "bfs_queued st' = map fst (bfs_next st') \<and> distinct (map fst (bfs_next st')) \<and>
    (\<forall>x \<in> set (bfs_next st'). snd x = Suc d \<and> P (fst x)) \<and>
    fst ` set (bfs_next st) \<subseteq> fst ` set (bfs_next st') \<and>
    neighborId ` set es \<subseteq> set (bfs_visited st) \<union> fst ` set (bfs_next st')"
  using assms(1-4) unfolding st'_def
proof (induction es arbitrary: st)
  case (Cons e es)
  let ?st = "bfs_enqueue d st e"
  have q: "bfs_queued ?st = map fst (bfs_next ?st)" "distinct (map fst (bfs_next ?st))"
      "\<forall>x \<in> set (bfs_next ?st). snd x = Suc d \<and> P (fst x)"
    using Cons.prems by (simp_all add: bfs_enqueue_def set_add_def)
  have sub: "fst ` set (bfs_next st) \<subseteq> fst ` set (bfs_next ?st)" "bfs_visited ?st = bfs_visited st"
      "neighborId e \<in> set (bfs_visited st) \<union> fst ` set (bfs_next ?st)"
    using Cons.prems(1) by (auto simp: bfs_enqueue_def simp flip: set_map)
  have "\<forall>e \<in> set es. P (neighborId e)" using Cons.prems(4) by simp
  note ih = Cons.IH [OF q this]
  let ?fin = "foldl (bfs_enqueue d) ?st es"
  have "fst ` set (bfs_next ?st) \<subseteq> fst ` set (bfs_next ?fin)"
      "neighborId ` set es \<subseteq> set (bfs_visited st) \<union> fst ` set (bfs_next ?fin)"
    using ih sub(2) by simp_all
  then have "fst ` set (bfs_next st) \<subseteq> fst ` set (bfs_next ?fin)"
      "neighborId ` set (e # es) \<subseteq> set (bfs_visited st) \<union> fst ` set (bfs_next ?fin)"
    using sub(1,3) by auto
  with ih show ?case unfolding foldl_Cons by (intro conjI) simp_all
qed auto

lemma bfs_step_inv:
  assumes inv: "level_inv s d n m us st" and d: "d \<le> m" and s: "node s"
    and u: "u \<in> nearer nb s (Suc d)" "u \<notin> set us"
  shows "level_inv s d n m (if u \<in> nearer nb s d then us else us @ [u]) (bfs_step read n m st (u, d))"
proof -
  have visited: "bfs_visited st = take n (bfs_order nb s d @ us)" using inv by (simp add: level_inv_def)
  consider "n \<le> length (bfs_visited st)" | "length (bfs_visited st) < n" "u \<in> set (bfs_visited st)"
    | "length (bfs_visited st) < n" "u \<notin> set (bfs_visited st)" by linarith
  then show ?thesis
  proof cases
    case 1
    then have "take n (bfs_order nb s d @ us @ [u]) = take n (bfs_order nb s d @ us)" by (simp add: visited)
    with 1 level_inv_us [OF inv] inv show ?thesis by (simp add: bfs_step_def del: take_append)
  next
    case 2
    then have "bfs_visited st = bfs_order nb s d @ us" using take_short [OF visited] by simp
    then have "u \<in> nearer nb s d" using 2 u by auto
    with 2 inv show ?thesis by (simp add: bfs_step_def)
  next
    case 3
    then have all: "bfs_visited st = bfs_order nb s d @ us" using take_short [OF visited] by simp
    then have new: "u \<notin> nearer nb s d" using 3 by auto
    have v: "set_add (bfs_visited st) u = take n (bfs_order nb s d @ us @ [u])"
      using 3 all by (simp add: set_add_def)
    let ?st = "st\<lparr>bfs_visited := set_add (bfs_visited st) u, bfs_result := bfs_result st @ [u]\<rparr>"
    show ?thesis
    proof (cases "d < m")
      case False
      then show ?thesis using 3 inv d new v by (simp add: bfs_step_def level_inv_def Let_def set_add_def)
    next
      case True
      obtain rs where read: "read u (bfs_run st) = (nb u, rs)" and "ok rs"
        using read_nb [of u "bfs_run st"] read_ok [of u "bfs_run st"] node_before [OF s u(1)] inv
        by (metis level_inv_def prod.collapse)
      have nbu: "\<forall>e \<in> set (nb u). neighborId e \<in> nearer nb s (Suc (Suc d))"
        using u(1) by (auto simp: succs_def)
      note q = enqueue_all [where st = "?st\<lparr>bfs_run := rs\<rparr>" and es = "nb u" and d = d
          and P = "\<lambda>v. v \<in> nearer nb s (Suc (Suc d))"]
      let ?st' = "foldl (bfs_enqueue d) (?st\<lparr>bfs_run := rs\<rparr>) (nb u)"
      have step: "bfs_step read n m st (u, d) = ?st'"
        using 3 True d by (simp add: bfs_step_def Let_def read)
      have q': "bfs_queued ?st' = map fst (bfs_next ?st') \<and> distinct (map fst (bfs_next ?st')) \<and>
        (\<forall>x \<in> set (bfs_next ?st'). snd x = Suc d \<and> fst x \<in> nearer nb s (Suc (Suc d))) \<and>
        fst ` set (bfs_next st) \<subseteq> fst ` set (bfs_next ?st') \<and>
        neighborId ` set (nb u) \<subseteq> set (set_add (bfs_visited st) u) \<union> fst ` set (bfs_next ?st')"
        using q inv nbu by (simp add: level_inv_def)
      have "succs nb `` (set (set_add (bfs_visited st) u) - nearer nb s d) \<subseteq>
          set (set_add (bfs_visited st) u) \<union> fst ` set (bfs_next ?st')"
      proof -
        have "succs nb `` (set (bfs_visited st) - nearer nb s d) \<subseteq> set (bfs_visited st) \<union> fst ` set (bfs_next st)"
          using inv True unfolding level_inv_def by blast
        moreover have "succs nb `` {u} = neighborId ` set (nb u)" by (simp add: succs_image)
        moreover have "set (set_add (bfs_visited st) u) - nearer nb s d = insert u (set (bfs_visited st) - nearer nb s d)"
          using new by auto
        moreover have "succs nb `` insert u (set (bfs_visited st) - nearer nb s d) =
            succs nb `` {u} \<union> succs nb `` (set (bfs_visited st) - nearer nb s d)" by blast
        ultimately have "succs nb `` (set (set_add (bfs_visited st) u) - nearer nb s d) \<subseteq>
            neighborId ` set (nb u) \<union> (set (bfs_visited st) \<union> fst ` set (bfs_next st))"
          by (metis Un_mono order_refl)
        also have "\<dots> \<subseteq> set (set_add (bfs_visited st) u) \<union> fst ` set (bfs_next ?st')"
        proof (intro Un_least)
          show "neighborId ` set (nb u) \<subseteq> set (set_add (bfs_visited st) u) \<union> fst ` set (bfs_next ?st')"
            "fst ` set (bfs_next st) \<subseteq> set (set_add (bfs_visited st) u) \<union> fst ` set (bfs_next ?st')"
            using q' by (auto simp del: nearer.simps)
        qed auto
        finally show ?thesis .
      qed
      moreover have "bfs_result st @ [u] = set_add (bfs_visited st) u"
        using 3 inv by (simp add: set_add_def level_inv_def)
      moreover have "bfs_visited ?st' = set_add (bfs_visited st) u" "bfs_result ?st' = bfs_result st @ [u]" "bfs_run ?st' = rs"
        by simp_all
      ultimately show ?thesis unfolding step level_inv_def if_not_P [OF new]
        using q' True \<open>ok rs\<close> v by (simp del: nearer.simps take_append bfs_enqueue_visited)
    qed
  qed
qed

lemma bfs_steps_inv:
  assumes "level_inv s d n m us st" "d \<le> m" "node s" "distinct (us @ map fst xs)"
    "\<forall>x \<in> set xs. snd x = d \<and> fst x \<in> nearer nb s (Suc d)"
  shows "level_inv s d n m (us @ filter (\<lambda>v. v \<notin> nearer nb s d) (map fst xs)) (foldl (bfs_step read n m) st xs)"
  using assms
proof (induction xs arbitrary: us st)
  case (Cons x xs)
  obtain u where x: "x = (u, d)" using Cons.prems(5) by (cases x) auto
  have "level_inv s d n m (if u \<in> nearer nb s d then us else us @ [u]) (bfs_step read n m st x)"
    unfolding x using Cons.prems x by (intro bfs_step_inv) auto
  from Cons.IH [OF this] show ?case using Cons.prems x by (auto split: if_splits)
qed simp

text \<open>The state at the head of the loop, with the entries of level \<open>d\<close>.\<close>

definition loop_inv :: "string \<Rightarrow> nat \<Rightarrow> string list \<Rightarrow> string list \<Rightarrow> 'r \<Rightarrow> (string \<times> nat) list \<Rightarrow> bool" where
  "loop_inv s d visited result rs level \<longleftrightarrow>
     ok rs \<and> result = visited \<and> visited = bfs_order nb s d \<and> distinct (map fst level) \<and>
     (\<forall>x \<in> set level. snd x = d \<and> fst x \<in> nearer nb s (Suc d)) \<and> dist_layer nb s d \<subseteq> fst ` set level"

lemma bfs_level_done:
  assumes "loop_inv s d visited result rs level" "d \<le> m" "node s" "length visited < n"
  defines "st \<equiv> bfs_level read n m visited result rs level"
  shows "level_inv s d n m (sorted_list_of_set (dist_layer nb s d)) st"
proof -
  let ?xs = "sort_by (\<lambda>a b. str_cmp (fst a) (fst b)) level"
  let ?us = "filter (\<lambda>v. v \<notin> nearer nb s d) (map fst ?xs)"
  have xs: "?xs = sort_key fst level" by (rule sort_by_str_key)
  have "mset (map fst ?xs) = mset (map fst level)" by simp
  then have d: "distinct (map fst ?xs)" using assms(1) unfolding loop_inv_def by (metis mset_eq_imp_distinct_iff)
  have inv: "level_inv s d n m []
      \<lparr>bfs_visited = visited, bfs_result = result, bfs_next = [], bfs_queued = [], bfs_run = rs\<rparr>"
    using assms(1,4) by (auto simp: level_inv_def loop_inv_def)
  have "level_inv s d n m ([] @ ?us) st" unfolding st_def bfs_level_def
  proof (rule bfs_steps_inv [OF inv assms(2,3)])
    show "distinct ([] @ map fst ?xs)" using d by simp
    show "\<forall>x \<in> set ?xs. snd x = d \<and> fst x \<in> nearer nb s (Suc d)" using assms(1) by (simp add: loop_inv_def)
  qed
  moreover have "?us = sorted_list_of_set (dist_layer nb s d)"
  proof (rule sorted_distinct_unique)
    show "sorted ?us" unfolding xs by (intro sorted_wrt_filter) (simp add: sorted_sort_key)
    show "distinct ?us" by (rule distinct_filter [OF d])
    show "set ?us = dist_layer nb s d" using assms(1) by (auto simp: loop_inv_def dist_layer_def)
  qed
  ultimately show ?thesis by simp
qed

lemma next_level:
  assumes "level_inv s d n m (sorted_list_of_set (dist_layer nb s d)) st" "d < m" "length (bfs_visited st) < n"
  shows "loop_inv s (Suc d) (bfs_visited st) (bfs_result st) (bfs_run st) (bfs_next st)"
proof -
  have v: "bfs_visited st = bfs_order nb s (Suc d)"
    using assms(1,3) take_short [of "bfs_visited st" n "bfs_order nb s (Suc d)"] by (simp add: level_inv_def)
  have sub: "succs nb `` (nearer nb s (Suc d) - nearer nb s d) \<subseteq> nearer nb s (Suc d) \<union> fst ` set (bfs_next st)"
    using assms(1,2) unfolding level_inv_def by (simp only: v bfs_order_set)
  have "dist_layer nb s (Suc d) \<subseteq> fst ` set (bfs_next st)"
  proof
    fix v assume "v \<in> dist_layer nb s (Suc d)"
    then have new: "v \<notin> nearer nb s (Suc d)" and "v \<in> nearer nb s (Suc (Suc d))" by (auto simp: dist_layer_def)
    then obtain u where u: "u \<in> nearer nb s (Suc d)" "(u, v) \<in> succs nb" by auto
    then have "u \<notin> nearer nb s d" using new by auto
    with u sub new show "v \<in> fst ` set (bfs_next st)" by blast
  qed
  with assms(1) v show ?thesis by (simp add: loop_inv_def level_inv_def)
qed

lemma bfs_loop_order:
  assumes "loop_inv s d visited result rs level" "d \<le> m" "node s"
  shows "\<exists>rs'. bfs_loop read n m visited result rs level =
      (take n (bfs_order nb s (Suc m)), take n (bfs_order nb s (Suc m)), rs') \<and> ok rs'
    \<or> n < length visited"
  using assms
proof (induction "m - d" arbitrary: d visited result rs level rule: less_induct)
  case less
  note inv = less.prems(1)
  have v: "visited = bfs_order nb s d" "result = visited" "ok rs" using inv by (auto simp: loop_inv_def)
  show ?case
  proof (cases "level \<noteq> [] \<and> length visited < n")
    case False
    then consider "level = []" "length visited \<le> n" | "length visited = n" | "n < length visited" by linarith
    then show ?thesis
    proof cases
      case 1
      then have "dist_layer nb s d = {}" using inv by (auto simp: loop_inv_def)
      then have "bfs_order nb s (Suc m) = visited" using bfs_order_stops [of nb s d "Suc m"] less.prems(2) v by simp
      with 1 v show ?thesis by (subst bfs_loop.simps) simp
    next
      case 2
      then have "take n (bfs_order nb s (Suc m)) = visited" using take_bfs_order [of d "Suc m" n nb s] less.prems(2) v by simp
      with 2 v show ?thesis by (subst bfs_loop.simps) simp
    qed simp
  next
    case True
    define st where "st = bfs_level read n m visited result rs level"
    have fin: "level_inv s d n m (sorted_list_of_set (dist_layer nb s d)) st"
      unfolding st_def using bfs_level_done [OF inv less.prems(2,3)] True by blast
    then have st: "bfs_visited st = take n (bfs_order nb s (Suc d))" "bfs_result st = bfs_visited st" "ok (bfs_run st)"
      by (simp_all add: level_inv_def)
    have loop: "bfs_loop read n m visited result rs level =
        bfs_loop read n m (bfs_visited st) (bfs_result st) (bfs_run st) (bfs_next st)"
      using True by (subst bfs_loop.simps) (simp add: st_def Let_def)
    have stop: "bfs_loop read n m (bfs_visited st) (bfs_result st) (bfs_run st) (bfs_next st) =
        (bfs_visited st, bfs_visited st, bfs_run st)" if "bfs_next st = [] \<or> n \<le> length (bfs_visited st)"
      using that st(2) by (subst bfs_loop.simps) auto
    consider "n \<le> length (bfs_visited st)" | "d = m" | "d < m" "length (bfs_visited st) < n"
      using less.prems(2) by linarith
    then show ?thesis
    proof cases
      case 1
      then have "take n (bfs_order nb s (Suc m)) = bfs_visited st"
        using take_bfs_order [of "Suc d" "Suc m" n nb s] less.prems(2) st by simp
      then show ?thesis unfolding loop stop [OF disjI2 [OF 1]] using st(3) by (intro disjI1 exI conjI) simp_all
    next
      case 2
      then have "bfs_next st = []" using fin by (simp add: level_inv_def)
      then show ?thesis unfolding loop stop [OF disjI1 [OF \<open>bfs_next st = []\<close>]]
        using st 2 by (intro disjI1 exI conjI) simp_all
    next
      case 3
      have "m - Suc d < m - d" using 3 by simp
      from less.hyps [OF this next_level [OF fin 3]] show ?thesis
        using 3 less.prems(3) unfolding loop by simp
    qed
  qed
qed

lemma bfs_loop_finds:
  assumes "node s" "ok rs"
  obtains rs' where "bfs_loop read n m [] [] rs [(s, 0)] = (take n (bfs_order nb s (Suc m)), take n (bfs_order nb s (Suc m)), rs')"
    "ok rs'"
proof -
  have "loop_inv s 0 [] [] rs [(s, 0)]" using assms(2) by (auto simp: loop_inv_def dist_layer_def)
  from bfs_loop_order [OF this _ assms(1), of m n] that show thesis by auto
qed

end

end
