(* ===== verification/PathLaws.thy ===== *)
theory PathLaws
  imports SearchLaws
begin

text \<open>
  Depth-first search, shortest paths and reachability of \<open>src/domain/services/GraphTraversal.js\<close>, over
  any reader, against the distance layers of \<open>SearchLaws\<close>.
\<close>

section \<open>Depth-first search\<close>

context reading
begin

definition dfs_inv :: "string \<Rightarrow> nat \<Rightarrow> nat \<Rightarrow> string list \<Rightarrow> string list \<Rightarrow> 'r \<Rightarrow> (string \<times> nat) list \<Rightarrow> bool" where
  "dfs_inv s n m visited result rs stack \<longleftrightarrow>
     ok rs \<and> result = visited \<and> distinct visited \<and> set visited \<subseteq> nearer nb s (Suc m) \<and> length visited \<le> n \<and>
     (\<forall>x \<in> set stack. fst x \<in> nearer nb s (Suc (snd x)) \<and> snd x \<le> length visited) \<and>
     (s \<in> set visited \<or> stack = [(s, 0)]) \<and>
     (length visited \<le> m \<longrightarrow> succs nb `` set visited \<subseteq> set visited \<union> fst ` set stack)"

definition dfs_final :: "string \<Rightarrow> nat \<Rightarrow> nat \<Rightarrow> string list \<times> string list \<times> 'r \<Rightarrow> bool" where
  "dfs_final s n m r \<longleftrightarrow> (case r of (visited, result, rs) \<Rightarrow>
     ok rs \<and> result = visited \<and> distinct visited \<and> set visited \<subseteq> nearer nb s (Suc m) \<and> length visited \<le> n \<and>
     (length visited < n \<longrightarrow> length visited \<le> m \<longrightarrow> set visited = {v. (s, v) \<in> (succs nb)\<^sup>*}))"

lemma closed_is_reachable:
  assumes "s \<in> A" "succs nb `` A \<subseteq> A" "A \<subseteq> nearer nb s k"
  shows "A = {v. (s, v) \<in> (succs nb)\<^sup>*}"
proof
  show "A \<subseteq> {v. (s, v) \<in> (succs nb)\<^sup>*}" using assms(3) reachable_before by blast
  have "v \<in> A" if "(s, v) \<in> (succs nb)\<^sup>*" for v
    using that by (induction rule: rtrancl_induct) (use assms in blast)+
  then show "{v. (s, v) \<in> (succs nb)\<^sup>*} \<subseteq> A" by blast
qed

lemma dfs_inv_stop:
  assumes "dfs_inv s n m visited result rs stack" "\<not> (stack \<noteq> [] \<and> length visited < n)"
  shows "dfs_final s n m (visited, result, rs)"
proof -
  have "set visited = {v. (s, v) \<in> (succs nb)\<^sup>*}" if l: "length visited < n" "length visited \<le> m"
  proof -
    have "stack = []" using assms(2) l by blast
    with assms(1) l show ?thesis by (intro closed_is_reachable [where k = "Suc m"]) (auto simp: dfs_inv_def simp del: nearer.simps)
  qed
  with assms(1) show ?thesis by (simp add: dfs_inv_def dfs_final_def)
qed

lemma dfs_inv_pop:
  assumes "dfs_inv s n m visited result rs (stack @ [(u, depth)])" "u \<in> set visited \<or> m < depth"
  shows "dfs_inv s n m visited result rs stack"
proof -
  have d: "depth \<le> length visited" using assms(1) by (simp add: dfs_inv_def)
  have "u \<in> set visited" if "length visited \<le> m" using assms(2) d that by linarith
  moreover have "s \<in> set visited" using assms by (cases stack) (auto simp: dfs_inv_def)
  ultimately show ?thesis using assms(1) unfolding dfs_inv_def by auto
qed

lemma dfs_inv_visit:
  assumes inv: "dfs_inv s n m visited result rs (stack @ [(u, depth)])" and u: "u \<notin> set visited" "depth \<le> m"
    and n: "length visited < n" and "ok rs'" and stack': "set stack \<subseteq> set stack'"
    and new: "\<forall>x \<in> set stack' - set stack. snd x = Suc depth \<and> fst x \<in> neighborId ` set (nb u)"
    and all: "depth < m \<Longrightarrow> neighborId ` set (nb u) \<subseteq> insert u (set visited) \<union> fst ` set stack'"
  shows "dfs_inv s n m (set_add visited u) (result @ [u]) rs' stack'"
proof -
  have ub: "u \<in> nearer nb s (Suc depth)" and d: "depth \<le> length visited"
    using inv by (simp_all add: dfs_inv_def del: nearer.simps)
  have "u \<in> nearer nb s (Suc m)" using ub u(2) before_mono [of "Suc depth" "Suc m" nb s] by auto
  moreover have "fst x \<in> nearer nb s (Suc (snd x)) \<and> snd x \<le> Suc (length visited)" if "x \<in> set stack'" for x
  proof (cases "x \<in> set stack")
    case True
    then show ?thesis using inv by (auto simp: dfs_inv_def simp del: nearer.simps)
  next
    case False
    then have "snd x = Suc depth" "(u, fst x) \<in> succs nb" using new that by (auto simp: succs_def)
    then show ?thesis using ub d by auto
  qed
  moreover have "s \<in> insert u (set visited)" using inv by (cases stack) (auto simp: dfs_inv_def)
  moreover have "succs nb `` insert u (set visited) \<subseteq> insert u (set visited) \<union> fst ` set stack'" if "Suc (length visited) \<le> m"
  proof -
    have "neighborId ` set (nb u) \<subseteq> insert u (set visited) \<union> fst ` set stack'" using all d that by simp
    moreover have "succs nb `` set visited \<subseteq> insert u (set visited) \<union> fst ` set stack'"
    proof (rule subset_trans)
      show "succs nb `` set visited \<subseteq> set visited \<union> fst ` set (stack @ [(u, depth)])"
        using inv that by (simp add: dfs_inv_def)
    qed (use image_mono [OF stack', of fst] in auto)
    moreover have "succs nb `` insert u (set visited) = neighborId ` set (nb u) \<union> succs nb `` set visited"
      by (auto simp: succs_def)
    ultimately show ?thesis by (metis Un_least)
  qed
  ultimately show ?thesis
    using inv u(1) n \<open>ok rs'\<close> by (simp add: dfs_inv_def set_add_def del: nearer.simps)
qed

lemma push_neighbors:
  "foldl (\<lambda>stack e. if neighborId e \<notin> A then stack @ [(neighborId e, k)] else stack) stack es =
     stack @ map (\<lambda>e. (neighborId e, k)) (filter (\<lambda>e. neighborId e \<notin> A) es)"
  by (induction es arbitrary: stack) auto

lemma dfs_loop_final:
  "r = read \<Longrightarrow> dfs_inv s n m visited result rs stack \<Longrightarrow> node s \<Longrightarrow>
    dfs_final s n m (dfs_loop r n m visited result rs stack)"
proof (induction r n m visited result rs stack rule: dfs_loop.induct)
  case (1 r n m visited result rs stack)
  show ?case
  proof (cases "stack \<noteq> [] \<and> length visited < n")
    case False
    then have "dfs_loop r n m visited result rs stack = (visited, result, rs)"
      by (subst dfs_loop.simps) (simp only: if_False)
    then show ?thesis using dfs_inv_stop [OF "1.prems"(2) False] by simp
  next
    case True
    obtain u depth where u: "last stack = (u, depth)" by fastforce
    let ?stack = "butlast stack"
    have st: "stack = ?stack @ [(u, depth)]" using True u by (metis append_butlast_last_id)
    have inv: "dfs_inv s n m visited result rs (?stack @ [(u, depth)])" using "1.prems"(2) st by simp
    note IH = "1.IH" [OF True u [symmetric] refl refl]
    show ?thesis
    proof (cases "u \<in> set visited \<or> m < depth")
      case skip: True
      have "dfs_final s n m (dfs_loop r n m visited result rs ?stack)"
        using IH(1,2) skip "1.prems"(1,3) dfs_inv_pop [OF inv skip] by blast
      then show ?thesis using True u skip by (subst dfs_loop.simps) (auto simp: Let_def)
    next
      case visit: False
      have "node u" using inv node_before [OF "1.prems"(3)] by (auto simp: dfs_inv_def simp del: nearer.simps)
      moreover have "ok rs" using inv by (simp add: dfs_inv_def)
      ultimately obtain rs' where read: "r u rs = (nb u, rs')" "ok rs'"
        using read_nb read_ok "1.prems"(1) by (metis prod.collapse)
      let ?new = "map (\<lambda>e. (neighborId e, depth + 1)) (filter (\<lambda>e. neighborId e \<notin> set (set_add visited u)) (rev (nb u)))"
      have "dfs_final s n m (dfs_loop r n m (set_add visited u) (result @ [u]) (if depth < m then rs' else rs)
          (if depth < m then ?stack @ ?new else ?stack))"
      proof (cases "depth < m")
        case d: True
        have "dfs_inv s n m (set_add visited u) (result @ [u]) rs' (?stack @ ?new)"
        proof (rule dfs_inv_visit [OF inv])
          have "fst ` set ?new = neighborId ` {e \<in> set (nb u). neighborId e \<notin> set (set_add visited u)}"
            by (simp add: image_image)
          then show "neighborId ` set (nb u) \<subseteq> insert u (set visited) \<union> fst ` set (?stack @ ?new)"
            unfolding set_append image_Un by auto
        qed (use visit True read(2) in auto)
        with IH(3) [OF _ _ refl refl d read(1) [symmetric] refl, unfolded push_neighbors] visit "1.prems"(1,3) d show ?thesis
          by simp
      next
        case d: False
        have "dfs_inv s n m (set_add visited u) (result @ [u]) rs ?stack"
          using visit True \<open>ok rs\<close> d by (intro dfs_inv_visit [OF inv]) auto
        with IH(4) [OF _ _ refl refl d] visit "1.prems"(1,3) d show ?thesis by simp
      qed
      then show ?thesis using True u visit read(1)
        by (subst dfs_loop.simps) (auto simp: Let_def push_neighbors simp del: set_add_set split: if_splits)
    qed
  qed
qed

lemma dfs_loop_finds:
  assumes "node s" "ok rs"
  shows "dfs_final s n m (dfs_loop read n m [] [] rs [(s, 0)])"
proof -
  have "dfs_inv s n m [] [] rs [(s, 0)]" using assms(2) by (simp add: dfs_inv_def)
  from dfs_loop_final [OF refl this assms(1)] show ?thesis .
qed

end

section \<open>Predecessors and paths\<close>

text \<open>A map of predecessors is a tree of shortest paths when every step goes back one layer.\<close>

definition is_path :: "(string \<Rightarrow> neighbor_edge list) \<Rightarrow> string list \<Rightarrow> bool" where
  "is_path nb path \<longleftrightarrow> successively (\<lambda>u v. (u, v) \<in> succs nb) path"

definition pred_tree :: "(string \<Rightarrow> neighbor_edge list) \<Rightarrow> string \<Rightarrow> string set \<Rightarrow> (string, string) jsmap \<Rightarrow> bool" where
  "pred_tree nb s A parent \<longleftrightarrow> (\<forall>v \<in> A. v = s \<or> (\<exists>u k. map_of parent v = Some u \<and> u \<in> A \<and>
     (u, v) \<in> succs nb \<and> u \<in> dist_layer nb s k \<and> v \<in> dist_layer nb s (Suc k)))"

lemma dist_layer_unique: "v \<in> dist_layer nb s j \<Longrightarrow> v \<in> dist_layer nb s k \<Longrightarrow> j = k"
  unfolding dist_layer_steps by (meson linorder_neqE_nat)

lemma dist_layer_0 [simp]: "dist_layer nb s 0 = {s}"
  by (simp add: dist_layer_def)

lemma walk_back_tree:
  assumes "pred_tree nb s A parent" "v \<in> A" "v \<in> dist_layer nb s k"
  shows "\<exists>xs. walk_back parent s v path = Some (path @ xs) \<and> length xs = k \<and>
    is_path nb (rev (v # xs)) \<and> last (v # xs) = s"
  using assms(2,3)
proof (induction k arbitrary: v path)
  case 0
  then show ?case by (subst walk_back.simps) (simp add: is_path_def)
next
  case (Suc k)
  have "v \<noteq> s" using Suc.prems(2) dist_layer_unique [of s nb s 0 "Suc k"] by auto
  then obtain u j where u: "map_of parent v = Some u" "u \<in> A" "(u, v) \<in> succs nb"
    and "u \<in> dist_layer nb s j" "v \<in> dist_layer nb s (Suc j)"
    using assms(1) Suc.prems(1) unfolding pred_tree_def by blast
  then have "u \<in> dist_layer nb s k" using dist_layer_unique Suc.prems(2) by blast
  from Suc.IH [OF u(2) this, of "path @ [u]"] obtain xs where
    xs: "walk_back parent s u (path @ [u]) = Some ((path @ [u]) @ xs)" "length xs = k" "is_path nb (rev (u # xs))" "last (u # xs) = s"
    by blast
  have "is_path nb (rev (v # u # xs))" using xs(3) u(3) by (simp add: is_path_def successively_append_iff)
  with xs u(1) \<open>v \<noteq> s\<close> show ?case
    by (intro exI [of _ "u # xs"]) (simp add: walk_back.simps [of parent s v])
qed

lemma reconstructPath_shortest:
  assumes "pred_tree nb s A parent" "goal \<in> A" "goal \<in> dist_layer nb s k"
  shows "\<exists>path. reconstructPath parent s goal = Some path \<and> is_path nb path \<and> hd path = s \<and> last path = goal \<and>
    length path = Suc k"
proof -
  from walk_back_tree [OF assms, of "[goal]"] obtain xs where "walk_back parent s goal [goal] = Some ([goal] @ xs)"
    "length xs = k" "is_path nb (rev (goal # xs))" "last (goal # xs) = s" by blast
  then show ?thesis
    by (intro exI [of _ "rev (goal # xs)"]) (simp add: reconstructPath_def hd_append hd_rev split: if_splits)
qed

section \<open>Shortest paths\<close>

context reading
begin

text \<open>\<open>A\<close> are the successors of the current level, at distance \<open>d\<close>, that have been looked at.\<close>

definition sp_inv :: "string \<Rightarrow> string \<Rightarrow> nat \<Rightarrow> string set \<Rightarrow> 'r sp_state \<Rightarrow> bool" where
  "sp_inv s goal d A st \<longleftrightarrow>
     ok (sp_run st) \<and> distinct (sp_visited st) \<and> s \<in> set (sp_visited st) \<and>
     pred_tree nb s (set (sp_visited st)) (sp_parent st) \<and>
     (if sp_found st then goal \<in> set (sp_visited st) \<and> goal \<in> dist_layer nb s (Suc d)
      else set (sp_visited st) = nearer nb s (Suc d) \<union> A \<and> goal \<notin> set (sp_visited st) \<and>
        fst ` set (sp_next st) = A - nearer nb s (Suc d) \<and> (\<forall>x \<in> set (sp_next st). snd x = Suc d))"

lemma before_step: "nearer nb s (Suc d) \<union> succs nb `` dist_layer nb s d = nearer nb s (Suc (Suc d))"
proof -
  have "nearer nb s (Suc d) = nearer nb s d \<union> dist_layer nb s d"
    using before_mono_Suc [of nb s d] by (auto simp: dist_layer_def)
  then have "succs nb `` nearer nb s (Suc d) = succs nb `` nearer nb s d \<union> succs nb `` dist_layer nb s d" by blast
  then show ?thesis by (simp only: nearer.simps(2) [of nb s "Suc d"]) (simp add: Un_assoc)
qed

lemma pred_tree_add:
  assumes "pred_tree nb s B parent" "u \<in> B" "(u, v) \<in> succs nb" "u \<in> dist_layer nb s k" "v \<in> dist_layer nb s (Suc k)" "v \<notin> B"
  shows "pred_tree nb s (insert v B) (map_set parent v u)"
  using assms unfolding pred_tree_def by (auto simp: update_conv')

lemma layer_succ:
  assumes "u \<in> dist_layer nb s d" "(u, v) \<in> succs nb" "v \<notin> nearer nb s (Suc d)"
  shows "v \<in> dist_layer nb s (Suc d)"
  using assms by (auto simp: dist_layer_def)

lemma sp_edge_inv:
  assumes inv: "sp_inv s goal d A st" and u: "u \<in> dist_layer nb s d" "e \<in> set (nb u)"
  shows "sp_inv s goal d (insert (neighborId e) A) (sp_edge goal u d st e)"
proof -
  let ?v = "neighborId e"
  have uv: "(u, ?v) \<in> succs nb" using u(2) by (auto simp: succs_def)
  consider "sp_found st" | "\<not> sp_found st" "?v \<in> set (sp_visited st)" | "\<not> sp_found st" "?v \<notin> set (sp_visited st)" by blast
  then show ?thesis
  proof cases
    case 1
    with inv show ?thesis by (simp add: sp_edge_def sp_inv_def)
  next
    case 2
    then have "insert ?v (nearer nb s (Suc d) \<union> A) = nearer nb s (Suc d) \<union> A" using inv by (auto simp: sp_inv_def)
    moreover have "A - nearer nb s (Suc d) = insert ?v A - nearer nb s (Suc d)"
      using 2 inv by (auto simp: sp_inv_def)
    ultimately show ?thesis using 2 inv by (auto simp: sp_edge_def sp_inv_def simp del: nearer.simps)
  next
    case 3
    have vis: "set (sp_visited st) = nearer nb s (Suc d) \<union> A" using 3 inv by (simp add: sp_inv_def)
    then have new: "?v \<notin> nearer nb s (Suc d)" "?v \<notin> A" using 3 by auto
    note layer = layer_succ [OF u(1) uv new(1)]
    have "u \<in> nearer nb s (Suc d)" using u(1) by (simp add: dist_layer_def)
    then have "u \<in> set (sp_visited st)" using vis by blast
    from pred_tree_add [OF _ this uv u(1) layer 3(2)]
    have tree: "pred_tree nb s (insert ?v (set (sp_visited st))) (map_set (sp_parent st) ?v u)"
      using inv by (simp add: sp_inv_def)
    have next': "insert ?v A - nearer nb s (Suc d) = insert ?v (A - nearer nb s (Suc d))" using new by auto
    show ?thesis
      using 3 inv tree layer next' vis
      by (cases "?v = goal") (auto simp: sp_edge_def sp_inv_def Let_def set_add_def simp del: nearer.simps)
  qed
qed

lemma sp_edges_inv:
  assumes "sp_inv s goal d A st" "u \<in> dist_layer nb s d" "set es \<subseteq> set (nb u)"
  shows "sp_inv s goal d (A \<union> neighborId ` set es) (foldl (sp_edge goal u d) st es)"
  using assms
proof (induction es arbitrary: A st)
  case (Cons e es)
  have "sp_inv s goal d (insert (neighborId e) A) (sp_edge goal u d st e)" using Cons.prems by (intro sp_edge_inv) auto
  from Cons.IH [OF this] Cons.prems show ?case by simp
qed simp

lemma sp_steps_inv:
  assumes "sp_inv s goal d A st" "d < m" "node s" "\<forall>x \<in> set xs. snd x = d \<and> fst x \<in> dist_layer nb s d"
  shows "sp_inv s goal d (A \<union> succs nb `` (fst ` set xs)) (foldl (sp_step read goal m) st xs)"
  using assms
proof (induction xs arbitrary: A st)
  case (Cons x xs)
  obtain u where x: "x = (u, d)" and u: "u \<in> dist_layer nb s d" using Cons.prems(4) by (cases x) auto
  have "sp_inv s goal d (A \<union> neighborId ` set (nb u)) (sp_step read goal m st x)"
  proof (cases "sp_found st")
    case True
    with Cons.prems(1) show ?thesis by (simp add: sp_step_def x sp_inv_def)
  next
    case False
    have "node u" using u node_before [OF Cons.prems(3), of u "Suc d"] by (simp add: dist_layer_def)
    then obtain rs where r: "read u (sp_run st) = (nb u, rs)" "ok rs"
      using read_nb [of u "sp_run st"] read_ok [of u "sp_run st"] Cons.prems(1) by (metis prod.collapse sp_inv_def)
    have "sp_inv s goal d A (st\<lparr>sp_run := rs\<rparr>)"
      using Cons.prems(1) r(2) False by (auto simp: sp_inv_def simp del: nearer.simps)
    from sp_edges_inv [OF this u order_refl] show ?thesis using False Cons.prems(2) by (simp add: sp_step_def x r)
  qed
  from Cons.IH [OF this Cons.prems(2,3)] Cons.prems(4) show ?case
    by (simp add: x succs_image Un_assoc)
qed simp

definition sp_head :: "string \<Rightarrow> string \<Rightarrow> nat \<Rightarrow> 'r sp_state \<Rightarrow> bool" where
  "sp_head s goal d st \<longleftrightarrow> ok (sp_run st) \<and> distinct (sp_visited st) \<and> \<not> sp_found st \<and>
     set (sp_visited st) = nearer nb s (Suc d) \<and> goal \<notin> nearer nb s (Suc d) \<and>
     pred_tree nb s (set (sp_visited st)) (sp_parent st) \<and>
     fst ` set (sp_next st) = dist_layer nb s d \<and> (\<forall>x \<in> set (sp_next st). snd x = d)"

definition sp_final :: "string \<Rightarrow> string \<Rightarrow> nat \<Rightarrow> nat \<Rightarrow> 'r sp_state \<Rightarrow> bool" where
  "sp_final s goal n m st \<longleftrightarrow> ok (sp_run st) \<and> pred_tree nb s (set (sp_visited st)) (sp_parent st) \<and>
     (if sp_found st then goal \<in> set (sp_visited st) \<and> (\<exists>k < m. goal \<in> dist_layer nb s (Suc k))
      else goal \<notin> nearer nb s (Suc m) \<or> n \<le> card (nearer nb s (Suc m)))"

lemma sp_level_done:
  assumes "sp_head s goal d st" "d < m" "node s"
  shows "sp_inv s goal d (succs nb `` dist_layer nb s d) (sp_level read goal m st)"
proof -
  let ?xs = "sort_by (\<lambda>a b. str_cmp (fst a) (fst b)) (sp_next st)"
  have "s \<in> nearer nb s (Suc d)" by simp
  then have "sp_inv s goal d {} (st\<lparr>sp_next := []\<rparr>)" using assms(1) by (auto simp: sp_head_def sp_inv_def simp del: nearer.simps)
  from sp_steps_inv [OF this assms(2,3), of ?xs] show ?thesis
    using assms(1) by (auto simp: sp_head_def sp_level_def)
qed

lemma sp_level_next:
  assumes "sp_inv s goal d (succs nb `` dist_layer nb s d) st" "\<not> sp_found st"
  shows "sp_head s goal (Suc d) st"
proof -
  note b = before_step [of s d]
  have "succs nb `` dist_layer nb s d - nearer nb s (Suc d) = dist_layer nb s (Suc d)"
    using b unfolding dist_layer_def [of nb s "Suc d"] by blast
  with assms b show ?thesis by (auto simp: sp_inv_def sp_head_def simp del: nearer.simps)
qed

lemma sp_limits:
  assumes "d < m" "set visited = nearer nb s (Suc d)" "distinct visited" "goal \<notin> nearer nb s (Suc d)"
    "dist_layer nb s d = {} \<or> n \<le> length visited"
  shows "goal \<notin> nearer nb s (Suc m) \<or> n \<le> card (nearer nb s (Suc m))"
proof (cases "dist_layer nb s d = {}")
  case True
  then have "bfs_order nb s (Suc m) = bfs_order nb s (Suc d)"
    using bfs_order_stops [of nb s d "Suc m"] bfs_order_stops [of nb s d "Suc d"] assms(1) by simp
  then have "nearer nb s (Suc m) = nearer nb s (Suc d)" by (metis bfs_order_set)
  with assms(4) show ?thesis by simp
next
  case False
  then have "n \<le> card (nearer nb s (Suc d))" using assms by (metis distinct_card)
  also have "\<dots> \<le> card (nearer nb s (Suc m))" using assms(1) by (intro card_mono before_mono) auto
  finally show ?thesis by blast
qed

lemma sp_loop_final:
  "r = read \<Longrightarrow> sp_head s goal d st \<Longrightarrow> d \<le> m \<Longrightarrow> node s \<Longrightarrow> sp_final s goal n m (sp_loop r goal n m st)"
proof (induction "m - d" arbitrary: d st)
  case 0
  let ?st = "sp_level r goal m st"
  have d: "d = m" using 0 by simp
  have "foldl (sp_step r goal m) st' xs = st'" if "\<forall>x \<in> set xs. snd x = m" for st' :: "'r sp_state" and xs
    using that by (induction xs) (auto simp: sp_step_def)
  then have "?st = st\<lparr>sp_next := []\<rparr>" using 0(3) by (simp add: sp_level_def sp_head_def d)
  then have "sp_final s goal n m (sp_loop r goal n m ?st)" "sp_final s goal n m st"
    using 0(3) by (auto simp: sp_loop.simps sp_head_def sp_final_def d simp del: nearer.simps)
  then show ?case by (subst sp_loop.simps) simp
next
  case (Suc k)
  let ?st = "sp_level r goal m st"
  have dm: "d < m" using Suc.hyps(2) by simp
  show ?case
  proof (cases "sp_next st \<noteq> [] \<and> length (sp_visited st) < n")
    case False
    have head: "set (sp_visited st) = nearer nb s (Suc d)" "distinct (sp_visited st)" "goal \<notin> nearer nb s (Suc d)"
      using Suc.prems(2) by (simp_all add: sp_head_def del: nearer.simps)
    have "dist_layer nb s d = {} \<or> n \<le> length (sp_visited st)"
      using Suc.prems(2) False by (auto simp: sp_head_def)
    note limits = sp_limits [OF dm head(1,2,3) this]
    then have "sp_final s goal n m st" using Suc.prems(2) by (auto simp: sp_final_def sp_head_def simp del: nearer.simps)
    then show ?thesis using False by (subst sp_loop.simps) auto
  next
    case True
    note fin = sp_level_done [OF Suc.prems(2) dm Suc.prems(4)]
    have loop: "sp_loop r goal n m st = sp_loop r goal n m ?st"
      using True Suc.prems(2) by (subst sp_loop.simps) (simp add: sp_head_def)
    show ?thesis
    proof (cases "sp_found ?st")
      case found: True
      then have "sp_final s goal n m ?st"
        using fin dm Suc.prems(1) by (auto simp: sp_inv_def sp_final_def simp del: nearer.simps)
      moreover have "sp_loop r goal n m ?st = ?st" using found by (subst sp_loop.simps) simp
      ultimately show ?thesis unfolding loop by simp
    next
      case False
      then have "sp_head s goal (Suc d) ?st" using sp_level_next [OF fin] Suc.prems(1) by simp
      from Suc.hyps(1) [OF _ Suc.prems(1) this] Suc.hyps(2) dm Suc.prems(4) show ?thesis unfolding loop by simp
    qed
  qed
qed

lemma sp_loop_finds:
  assumes "node s" "ok rs" "s \<noteq> goal"
  shows "sp_final s goal n m (sp_loop read goal n m
    \<lparr>sp_visited = [s], sp_parent = [], sp_next = [(s, 0)], sp_run = rs, sp_found = False\<rparr>)"
  using assms by (intro sp_loop_final [where d = 0] refl) (simp_all add: sp_head_def pred_tree_def)

section \<open>Reachability\<close>

definition reach_inv :: "string \<Rightarrow> string \<Rightarrow> nat \<Rightarrow> string set \<Rightarrow> 'r reach_state \<Rightarrow> bool" where
  "reach_inv s goal d A st \<longleftrightarrow> ok (re_run st) \<and> distinct (re_visited st) \<and>
     (if re_found st then goal \<in> nearer nb s (Suc (Suc d))
      else set (re_visited st) = nearer nb s (Suc d) \<union> A \<and> goal \<notin> set (re_visited st) \<and>
        set (re_next st) = A - nearer nb s (Suc d))"

lemma reach_edges_inv:
  assumes "reach_inv s goal d A st" "u \<in> nearer nb s (Suc d)" "set es \<subseteq> set (nb u)"
  shows "reach_inv s goal d (A \<union> neighborId ` set es) (foldl (reach_edge goal) st es)"
  using assms
proof (induction es arbitrary: A st)
  case (Cons e es)
  have "(u, neighborId e) \<in> succs nb" using Cons.prems(3) by (auto simp: succs_def)
  then have b: "neighborId e \<in> nearer nb s (Suc (Suc d))" using Cons.prems(2) by (subst nearer.simps) blast
  have "reach_inv s goal d (insert (neighborId e) A) (reach_edge goal st e)"
    using Cons.prems(1) b by (auto simp: reach_inv_def reach_edge_def set_add_def simp del: nearer.simps)
  from Cons.IH [OF this Cons.prems(2)] Cons.prems(3) show ?case by simp
qed simp

lemma reach_steps_inv:
  assumes "reach_inv s goal d A st" "node s" "set xs \<subseteq> dist_layer nb s d"
  shows "reach_inv s goal d (A \<union> succs nb `` set xs) (foldl (reach_step read goal) st xs)"
  using assms
proof (induction xs arbitrary: A st)
  case (Cons u xs)
  have u: "u \<in> nearer nb s (Suc d)" using Cons.prems(3) by (simp add: dist_layer_def)
  have "reach_inv s goal d (A \<union> neighborId ` set (nb u)) (reach_step read goal st u)"
  proof (cases "re_found st")
    case True
    with Cons.prems(1) show ?thesis by (simp add: reach_step_def reach_inv_def)
  next
    case False
    have "node u" using node_before [OF Cons.prems(2) u] .
    then obtain rs where r: "read u (re_run st) = (nb u, rs)" "ok rs"
      using read_nb [of u "re_run st"] read_ok [of u "re_run st"] Cons.prems(1) by (metis prod.collapse reach_inv_def)
    have "reach_inv s goal d A (st\<lparr>re_run := rs\<rparr>)"
      using Cons.prems(1) r(2) False by (auto simp: reach_inv_def simp del: nearer.simps)
    from reach_edges_inv [OF this u order_refl] show ?thesis using False by (simp add: reach_step_def r)
  qed
  from Cons.IH [OF this Cons.prems(2)] Cons.prems(3) show ?case
    by (simp add: succs_image Un_assoc)
qed simp

definition reach_head :: "string \<Rightarrow> string \<Rightarrow> nat \<Rightarrow> 'r reach_state \<Rightarrow> bool" where
  "reach_head s goal d st \<longleftrightarrow> ok (re_run st) \<and> distinct (re_visited st) \<and> \<not> re_found st \<and>
     set (re_visited st) = nearer nb s (Suc d) \<and> goal \<notin> nearer nb s (Suc d) \<and> set (re_next st) = dist_layer nb s d"

definition reach_final :: "string \<Rightarrow> string \<Rightarrow> nat \<Rightarrow> nat \<Rightarrow> 'r reach_state \<Rightarrow> bool" where
  "reach_final s goal n m st \<longleftrightarrow> ok (re_run st) \<and>
     (if re_found st then goal \<in> nearer nb s (Suc m) else goal \<notin> nearer nb s (Suc m) \<or> n \<le> card (nearer nb s (Suc m)))"

lemma reach_level_next:
  assumes "reach_inv s goal d (succs nb `` dist_layer nb s d) st" "\<not> re_found st"
  shows "reach_head s goal (Suc d) st"
proof -
  have "succs nb `` dist_layer nb s d - nearer nb s (Suc d) = dist_layer nb s (Suc d)"
    using before_step [of s d] unfolding dist_layer_def [of nb s "Suc d"] by blast
  with assms before_step [of s d] show ?thesis by (auto simp: reach_inv_def reach_head_def simp del: nearer.simps)
qed

lemma reach_loop_final:
  "r = read \<Longrightarrow> reach_head s goal d st \<Longrightarrow> d \<le> m \<Longrightarrow> node s \<Longrightarrow> reach_final s goal n m (reach_loop r goal n m d st)"
proof (induction "m - d" arbitrary: d st)
  case 0
  then have "reach_final s goal n m st" by (auto simp: reach_head_def reach_final_def simp del: nearer.simps)
  then show ?case using 0 by (subst reach_loop.simps) simp
next
  case (Suc k)
  let ?st = "foldl (reach_step r goal) (st\<lparr>re_next := []\<rparr>) (re_next st)"
  have dm: "d < m" using Suc.hyps(2) by simp
  have head: "set (re_visited st) = nearer nb s (Suc d)" "distinct (re_visited st)" "goal \<notin> nearer nb s (Suc d)"
      "\<not> re_found st" "ok (re_run st)" "set (re_next st) = dist_layer nb s d"
    using Suc.prems(2) by (simp_all add: reach_head_def del: nearer.simps)
  show ?case
  proof (cases "re_next st \<noteq> [] \<and> length (re_visited st) < n")
    case False
    have "dist_layer nb s d = {} \<or> n \<le> length (re_visited st)" using head(6) False by auto
    note limits = sp_limits [OF dm head(1,2,3) this]
    then have "reach_final s goal n m st" using head limits by (auto simp: reach_final_def simp del: nearer.simps)
    then show ?thesis using False by (subst reach_loop.simps) auto
  next
    case True
    have "reach_inv s goal d {} (st\<lparr>re_next := []\<rparr>)" using head by (auto simp: reach_inv_def simp del: nearer.simps)
    from reach_steps_inv [OF this Suc.prems(4), of "re_next st"]
    have fin: "reach_inv s goal d (succs nb `` dist_layer nb s d) ?st" using head(6) Suc.prems(1) by simp
    have loop: "reach_loop r goal n m d st = reach_loop r goal n m (d + 1) ?st"
      using True dm head(4) by (subst reach_loop.simps) simp
    show ?thesis
    proof (cases "re_found ?st")
      case found: True
      then have "goal \<in> nearer nb s (Suc m)"
        using fin before_mono [of "Suc (Suc d)" "Suc m" nb s] dm by (auto simp: reach_inv_def simp del: nearer.simps)
      then have "reach_final s goal n m ?st" using fin found by (auto simp: reach_inv_def reach_final_def simp del: nearer.simps)
      moreover have "reach_loop r goal n m (d + 1) ?st = ?st" using found by (subst reach_loop.simps) simp
      ultimately show ?thesis unfolding loop by simp
    next
      case False
      then have "reach_head s goal (Suc d) ?st" by (rule reach_level_next [OF fin])
      from Suc.hyps(1) [OF _ Suc.prems(1) this] Suc.hyps(2) dm Suc.prems(4) show ?thesis unfolding loop by simp
    qed
  qed
qed

lemma reach_loop_finds:
  assumes "node s" "ok rs" "s \<noteq> goal"
  shows "reach_final s goal n m (reach_loop read goal n m 0
    \<lparr>re_visited = [s], re_next = [s], re_run = rs, re_found = False\<rparr>)"
  using assms by (intro reach_loop_final refl) (simp_all add: reach_head_def)

end

end
