(* ===== verification/WeightLaws.thy ===== *)
theory WeightLaws
  imports WeightedSearch PathLaws
begin

text \<open>
  Optimality of the weighted searches of \<open>src/domain/services/GraphTraversal.js\<close>. A heuristic is
  consistent when no edge makes it drop by more than the weight of the edge; the zero heuristic of
  Dijkstra's algorithm is consistent exactly when no weight is negative. For a consistent heuristic
  a node leaves the heap with the cost of a cheapest walk to it.
\<close>

section \<open>Walks and their costs\<close>

inductive wwalk :: "(string \<Rightarrow> neighbor_edge list) \<Rightarrow> 'w::linordered_idom edge_weight \<Rightarrow> string \<Rightarrow> string list \<Rightarrow> 'w \<Rightarrow> bool"
  for nb weight s where
  wwalk_start: "wwalk nb weight s [s] 0"
| wwalk_step: "wwalk nb weight s p c \<Longrightarrow> e \<in> set (nb (last p)) \<Longrightarrow>
    wwalk nb weight s (p @ [neighborId e]) (c + weight (last p) (neighborId e) (edge_label e))"

definition wcost :: "(string \<Rightarrow> neighbor_edge list) \<Rightarrow> 'w::linordered_idom edge_weight \<Rightarrow> string \<Rightarrow> string \<Rightarrow> 'w \<Rightarrow> bool" where
  "wcost nb weight s v c \<longleftrightarrow> (\<exists>p. wwalk nb weight s p c \<and> last p = v)"

definition least_cost :: "(string \<Rightarrow> neighbor_edge list) \<Rightarrow> 'w::linordered_idom edge_weight \<Rightarrow> string \<Rightarrow> string \<Rightarrow> 'w \<Rightarrow> bool" where
  "least_cost nb weight s v c \<longleftrightarrow> wcost nb weight s v c \<and> (\<forall>c'. wcost nb weight s v c' \<longrightarrow> c \<le> c')"

lemma wwalk_ends: "wwalk nb weight s p c \<Longrightarrow> p \<noteq> [] \<and> hd p = s \<and> is_path nb p \<and> (s, last p) \<in> (succs nb)\<^sup>*"
proof (induction rule: wwalk.induct)
  case (wwalk_step p c e)
  then have "(last p, neighborId e) \<in> succs nb" by (auto simp: succs_def)
  with wwalk_step show ?case by (auto simp: is_path_def successively_append_iff intro: rtrancl_into_rtrancl)
qed (simp add: is_path_def)

lemma wcost_start: "wcost nb weight s s 0"
  unfolding wcost_def by (rule exI [of _ "[s]"]) (simp add: wwalk_start)

lemma wcost_step:
  "wcost nb weight s u c \<Longrightarrow> e \<in> set (nb u) \<Longrightarrow> wcost nb weight s (neighborId e) (c + weight u (neighborId e) (edge_label e))"
  unfolding wcost_def using wwalk_step by fastforce

lemma wcost_reachable: "(\<exists>c. wcost nb weight s v c) \<longleftrightarrow> (s, v) \<in> (succs nb)\<^sup>*"
proof
  show "\<exists>c. wcost nb weight s v c \<Longrightarrow> (s, v) \<in> (succs nb)\<^sup>*"
    unfolding wcost_def by (elim exE conjE) (use wwalk_ends in fastforce)
  show "(s, v) \<in> (succs nb)\<^sup>* \<Longrightarrow> \<exists>c. wcost nb weight s v c"
  proof (induction rule: rtrancl_induct)
    case (step y z)
    then obtain e where "e \<in> set (nb y)" "neighborId e = z" by (auto simp: succs_def)
    with step.IH show ?case using wcost_step by blast
  qed (use wcost_start in blast)
qed

section \<open>Trees of predecessors\<close>

lemma lexTieBreaker_str_cmp: "lexTieBreaker = str_cmp"
  by (simp add: lexTieBreaker_def str_cmp_def fun_eq_iff)

lemma lex_tie_ok [simp]: "tie_ok (Some lexTieBreaker)"
  by (simp add: tie_ok_def lexTieBreaker_str_cmp str_cmp_ok)

abbreviation lex_heap :: "(string, 'w::linorder) min_heap \<Rightarrow> bool" where
  "lex_heap \<equiv> heap_inv_with (Some lexTieBreaker)"

locale cost_tree =
  fixes nb :: "string \<Rightarrow> neighbor_edge list" and weight :: "'w::linordered_idom edge_weight" and s :: string
begin

abbreviation ecost :: "string \<Rightarrow> neighbor_edge \<Rightarrow> 'w" where
  "ecost u e \<equiv> weight u (neighborId e) (edge_label e)"

text \<open>
  A node that is settled or waiting has a predecessor that was settled before it and that accounts
  for its distance.
\<close>

definition explained :: "(string, 'w) jsmap \<Rightarrow> (string, string) jsmap \<Rightarrow> string set \<Rightarrow> string \<Rightarrow> bool" where
  "explained dist prev A v \<longleftrightarrow> v = s \<and> map_of dist s = Some 0 \<or>
     (v \<noteq> s \<and> (\<exists>u e. map_of prev v = Some u \<and> u \<in> A \<and> e \<in> set (nb u) \<and> neighborId e = v \<and>
        map_of dist v = Some (the (map_of dist u) + ecost u e)))"

fun settled_order :: "(string, 'w) jsmap \<Rightarrow> (string, string) jsmap \<Rightarrow> string list \<Rightarrow> bool" where
  "settled_order dist prev [] = True"
| "settled_order dist prev (v # rest) = (explained dist prev (set rest) v \<and> settled_order dist prev rest)"

text \<open>The tree of predecessors: walking back gives a walk of the recorded cost.\<close>

lemma explained_walk:
  assumes "explained dist prev A v" "map_of dist v = Some c"
    and tree: "\<And>u c path. u \<in> A \<Longrightarrow> map_of dist u = Some c \<Longrightarrow>
      \<exists>xs. walk_back prev s u path = Some (path @ xs) \<and> wwalk nb weight s (rev (u # xs)) c"
    and known: "\<And>u. u \<in> A \<Longrightarrow> map_of dist u \<noteq> None"
  shows "\<exists>xs. walk_back prev s v path = Some (path @ xs) \<and> wwalk nb weight s (rev (v # xs)) c"
proof (cases "v = s")
  case True
  with assms(1,2) show ?thesis by (subst walk_back.simps) (auto simp: explained_def wwalk_start)
next
  case False
  then obtain u e where u: "map_of prev v = Some u" "u \<in> A" "e \<in> set (nb u)" "neighborId e = v"
    "map_of dist v = Some (the (map_of dist u) + ecost u e)"
    using assms(1) by (auto simp: explained_def)
  obtain cu where cu: "map_of dist u = Some cu" using known [OF u(2)] by blast
  from tree [OF u(2) cu, of "path @ [u]"] obtain xs where
    xs: "walk_back prev s u (path @ [u]) = Some ((path @ [u]) @ xs)" "wwalk nb weight s (rev (u # xs)) cu" by blast
  from wwalk_step [OF xs(2), of e] u(3,4) have "wwalk nb weight s (rev (v # u # xs)) (cu + ecost u e)" by simp
  moreover have "c = cu + ecost u e" using u(5) cu assms(2) by simp
  ultimately show ?thesis using False u(1) xs(1)
    by (intro exI [of _ "u # xs"]) (simp add: walk_back.simps [of prev s v])
qed

lemma settled_walk:
  assumes "settled_order dist prev vs" "v \<in> set vs" "map_of dist v = Some c" "\<And>u. u \<in> set vs \<Longrightarrow> map_of dist u \<noteq> None"
  shows "\<exists>xs. walk_back prev s v path = Some (path @ xs) \<and> wwalk nb weight s (rev (v # xs)) c"
  using assms
proof (induction vs arbitrary: v c path)
  case (Cons x vs)
  show ?case
  proof (cases "v \<in> set vs")
    case True
    then show ?thesis using Cons by auto
  next
    case False
    then have "explained dist prev (set vs) v" using Cons.prems by auto
    then show ?thesis
    proof (rule explained_walk [OF _ Cons.prems(3)])
      fix u c path assume "u \<in> set vs" "map_of dist u = Some c"
      then show "\<exists>xs. walk_back prev s u path = Some (path @ xs) \<and> wwalk nb weight s (rev (u # xs)) c"
        using Cons.IH Cons.prems(1,4) by auto
    qed (use Cons.prems(4) in auto)
  qed
qed simp

lemma explained_update:
  assumes "explained dist prev A x" "v \<noteq> s" "v \<notin> A" "x \<noteq> v"
  shows "explained (map_set dist v alt) (map_set prev v current) A x"
proof (cases "x = s")
  case True
  with assms(1,2) show ?thesis by (auto simp: explained_def)
next
  case False
  then obtain u e where u: "map_of prev x = Some u" "u \<in> A" "e \<in> set (nb u)" "neighborId e = x"
    "map_of dist x = Some (the (map_of dist u) + ecost u e)"
    using assms(1) by (auto simp: explained_def)
  then have "u \<noteq> v" using assms(3) by blast
  with u False assms(4) show ?thesis unfolding explained_def
    by (intro disjI2 conjI exI [of _ u] exI [of _ e]) simp_all
qed

lemma settled_order_update:
  "settled_order dist prev vs \<Longrightarrow> v \<noteq> s \<Longrightarrow> v \<notin> set vs \<Longrightarrow> settled_order (map_set dist v alt) (map_set prev v current) vs"
  by (induction vs) (auto intro: explained_update)

end

interpretation unit_cost: cost_tree "\<lambda>v. prov_neighbors p v d ls" DEFAULT_WEIGHT_FN s for p d ls s .

section \<open>The invariant\<close>

locale weighted = reading read nb ok node + cost_tree nb weight s
  for read :: "string \<Rightarrow> 'r \<Rightarrow> neighbor_edge list \<times> 'r" and nb ok node
    and weight :: "'w::linordered_idom edge_weight" and s :: string +
  fixes h :: "string \<Rightarrow> 'w"
  assumes start_node: "node s"
    and consistent: "node u \<Longrightarrow> e \<in> set (nb u) \<Longrightarrow> h u \<le> weight u (neighborId e) (edge_label e) + h (neighborId e)"
begin

text \<open>\<open>X u\<close> are the edges of the settled node \<open>u\<close> that have been relaxed.\<close>

definition dj_inv ::
  "(string \<Rightarrow> neighbor_edge set) \<Rightarrow> (string, 'w) jsmap \<Rightarrow> (string, string) jsmap \<Rightarrow> string list \<Rightarrow>
   (string, 'w) min_heap \<Rightarrow> bool" where
  "dj_inv X dist prev visited pq \<longleftrightarrow>
     lex_heap pq \<and> distinct visited \<and> map_of dist s = Some 0 \<and>
     (if visited = [] then dist = [(s, 0)] else s \<in> set visited) \<and>
     settled_order dist prev (rev visited) \<and>
     (\<forall>v c. map_of dist v = Some c \<longrightarrow> explained dist prev (set visited) v) \<and>
     (\<forall>u \<in> set visited. \<exists>c. map_of dist u = Some c \<and> least_cost nb weight s u c) \<and>
     (\<forall>u \<in> set visited. \<forall>e \<in> X u. \<exists>c. map_of dist (neighborId e) = Some c \<and> c \<le> the (map_of dist u) + ecost u e) \<and>
     (\<forall>v c. map_of dist v = Some c \<longrightarrow> v \<notin> set visited \<longrightarrow> (v, c + h v) \<in># heap_content pq) \<and>
     (\<forall>v p. (v, p) \<in># heap_content pq \<longrightarrow> v \<notin> set visited \<longrightarrow> (\<exists>c. map_of dist v = Some c \<and> c + h v \<le> p))"

lemma dj_invD:
  assumes "dj_inv X dist prev visited pq"
  shows "lex_heap pq" "distinct visited" "map_of dist s = Some 0"
    "if visited = [] then dist = [(s, 0)] else s \<in> set visited"
    "settled_order dist prev (rev visited)"
    "\<And>v c. map_of dist v = Some c \<Longrightarrow> explained dist prev (set visited) v"
    "\<And>u. u \<in> set visited \<Longrightarrow> \<exists>c. map_of dist u = Some c \<and> least_cost nb weight s u c"
    "\<And>u e. u \<in> set visited \<Longrightarrow> e \<in> X u \<Longrightarrow> \<exists>c. map_of dist (neighborId e) = Some c \<and> c \<le> the (map_of dist u) + ecost u e"
    "\<And>v c. map_of dist v = Some c \<Longrightarrow> v \<notin> set visited \<Longrightarrow> (v, c + h v) \<in># heap_content pq"
    "\<And>v p. (v, p) \<in># heap_content pq \<Longrightarrow> v \<notin> set visited \<Longrightarrow> \<exists>c. map_of dist v = Some c \<and> c + h v \<le> p"
  using assms unfolding dj_inv_def by blast+

lemma dist_walk:
  assumes "dj_inv X dist prev visited pq" "map_of dist v = Some c"
  shows "\<exists>xs. walk_back prev s v path = Some (path @ xs) \<and> wwalk nb weight s (rev (v # xs)) c"
proof (rule explained_walk [OF dj_invD(6) [OF assms] assms(2)])
  have known: "map_of dist u \<noteq> None" if "u \<in> set visited" for u
    using dj_invD(7) [OF assms(1) that] by auto
  then show "\<And>u. u \<in> set visited \<Longrightarrow> map_of dist u \<noteq> None" .
  fix u c path assume "u \<in> set visited" "map_of dist u = Some c"
  then show "\<exists>xs. walk_back prev s u path = Some (path @ xs) \<and> wwalk nb weight s (rev (u # xs)) c"
    using settled_walk [OF dj_invD(5) [OF assms(1)]] known by simp
qed

lemma dist_wcost: "dj_inv X dist prev visited pq \<Longrightarrow> map_of dist v = Some c \<Longrightarrow> wcost nb weight s v c"
  using dist_walk [of X dist prev visited pq v c "[]"] unfolding wcost_def by (metis last_rev list.sel(1) rev_is_Nil_conv)

lemma wwalk_node: "wwalk nb weight s p c \<Longrightarrow> node (last p)"
  by (induction rule: wwalk.induct) (auto simp: start_node node_nb)

text \<open>Every walk that leaves the settled nodes passes a waiting node that is at most as far.\<close>

lemma wwalk_estimate: "wwalk nb weight s p c \<Longrightarrow> h s \<le> c + h (last p)"
proof (induction rule: wwalk.induct)
  case (wwalk_step p c e)
  have "h (last p) \<le> ecost (last p) e + h (neighborId e)"
    by (rule consistent [OF wwalk_node [OF wwalk_step.hyps(1)] wwalk_step.hyps(2)])
  then have "c + h (last p) \<le> c + (ecost (last p) e + h (neighborId e))" by (rule add_left_mono)
  with wwalk_step.IH show ?case by (simp add: add.assoc)
qed simp

lemma frontier:
  assumes "wwalk nb weight s p c" "dj_inv (\<lambda>u. set (nb u)) dist prev visited pq" "last p \<notin> set visited"
  shows "\<exists>y cy. y \<notin> set visited \<and> map_of dist y = Some cy \<and> cy + h y \<le> c + h (last p)"
  using assms
proof (induction rule: wwalk.induct)
  case wwalk_start
  then show ?case using dj_invD(3) by fastforce
next
  case (wwalk_step p c e)
  let ?u = "last p"
  show ?case
  proof (cases "?u \<in> set visited")
    case False
    with wwalk_step obtain y cy where y: "y \<notin> set visited" "map_of dist y = Some cy" "cy + h y \<le> c + h ?u" by blast
    have "h ?u \<le> ecost ?u e + h (neighborId e)"
      using consistent [OF wwalk_node [OF wwalk_step.hyps(1)] wwalk_step.hyps(2)] .
    then have "cy + h y \<le> c + ecost ?u e + h (neighborId e)" using y(3) by linarith
    with y show ?thesis by (intro exI [of _ y] exI [of _ cy]) simp
  next
    case True
    obtain cu where cu: "map_of dist ?u = Some cu" "least_cost nb weight s ?u cu"
      using dj_invD(7) [OF wwalk_step.prems(1) True] by blast
    then have "cu \<le> c" using wwalk_step.hyps(1) by (auto simp: least_cost_def wcost_def)
    moreover obtain cx where "map_of dist (neighborId e) = Some cx" "cx \<le> cu + ecost ?u e"
      using dj_invD(8) [OF wwalk_step.prems(1) True wwalk_step.hyps(2)] cu(1) by auto
    moreover from this have "cx + h (neighborId e) \<le> c + ecost ?u e + h (neighborId e)" using \<open>cu \<le> c\<close> by linarith
    ultimately show ?thesis using wwalk_step.prems(2) by (intro exI [of _ "neighborId e"] exI [of _ cx]) simp
  qed
qed

lemma settles:
  assumes inv: "dj_inv (\<lambda>u. set (nb u)) dist prev visited pq" and take: "extractMin pq = (Some v, pq')" and v: "v \<notin> set visited"
  shows "\<exists>c. map_of dist v = Some c \<and> least_cost nb weight s v c"
proof -
  obtain p where p: "heap_content pq = add_mset (v, p) (heap_content pq')"
    and min: "\<And>y r. (y, r) \<in># heap_content pq \<Longrightarrow> p \<le> r"
    by (rule heap.take_minE [OF dj_invD(1) [OF inv] take]) (rule that)
  obtain c where c: "map_of dist v = Some c" "c + h v \<le> p" using dj_invD(10) [OF inv _ v, of p] p by auto
  have "c \<le> c'" if w: "wcost nb weight s v c'" for c'
  proof -
    obtain path where "wwalk nb weight s path c'" "last path = v" using w by (auto simp: wcost_def)
    then obtain y cy where y: "y \<notin> set visited" "map_of dist y = Some cy" "cy + h y \<le> c' + h v"
      using frontier [OF _ inv] v by blast
    have "p \<le> cy + h y" using min dj_invD(9) [OF inv y(2,1)] by blast
    with c y show ?thesis by simp
  qed
  with c dist_wcost [OF inv c(1)] show ?thesis by (auto simp: least_cost_def)
qed

text \<open>Relaxing one edge of the settled node \<open>current\<close>.\<close>

lemma relax_inv:
  assumes inv: "dj_inv X dist prev visited pq" and cur: "current \<in> set visited" "e \<in> set (nb current)"
  defines "v \<equiv> neighborId e"
  defines "alt \<equiv> the (map_of dist current) + weight current v (edge_label e)"
  defines "X' \<equiv> X(current := insert e (X current))"
  shows "v \<in> set visited \<or> \<not> improves dist prev v current alt \<Longrightarrow> dj_inv X' dist prev visited pq"
    "v \<notin> set visited \<Longrightarrow> improves dist prev v current alt \<Longrightarrow>
      dj_inv X' (map_set dist v alt) (map_set prev v current) visited (heap_insert pq v (alt + h v))"
proof -
  note D = dj_invD [OF inv]
  obtain cc where cc: "map_of dist current = Some cc" using D(7) [OF cur(1)] by blast
  have ne: "visited \<noteq> []" "s \<in> set visited" using cur(1) D(4) by (auto split: if_splits)
  have alt: "alt = cc + ecost current e" by (simp add: alt_def cc v_def)
  {
    assume a: "v \<in> set visited \<or> \<not> improves dist prev v current alt"
    have "\<exists>c. map_of dist v = Some c \<and> c \<le> alt"
    proof (cases "v \<in> set visited")
      case True
      then obtain c where "map_of dist v = Some c" "least_cost nb weight s v c" using D(7) by blast
      moreover have "wcost nb weight s v alt"
        unfolding alt v_def by (rule wcost_step [OF dist_wcost [OF inv cc] cur(2)])
      ultimately show ?thesis by (auto simp: least_cost_def)
    next
      case False
      with a show ?thesis by (auto simp: improves_def split: option.splits)
    qed
    then have "\<exists>c. map_of dist (neighborId f) = Some c \<and> c \<le> the (map_of dist u) + ecost u f"
      if "u \<in> set visited" "f \<in> X' u" for u f
      using D(8) [OF that(1)] that cc alt by (auto simp: X'_def v_def split: if_splits)
    with D show "dj_inv X' dist prev visited pq" unfolding dj_inv_def by (intro conjI ballI allI impI) blast+
  }
  assume v: "v \<notin> set visited" and imp: "improves dist prev v current alt"
  let ?dist = "map_set dist v alt" and ?prev = "map_set prev v current"
  have vs: "v \<noteq> s" using v ne(2) by blast
  have le: "alt \<le> c" if "map_of dist v = Some c" for c using imp that by (auto simp: improves_def)
  have same: "map_of ?dist u = map_of dist u" if "u \<in> set visited" for u using that v by auto
  show "dj_inv X' ?dist ?prev visited (heap_insert pq v (alt + h v))" unfolding dj_inv_def
  proof (intro conjI ballI allI impI)
    show "lex_heap (heap_insert pq v (alt + h v))" by (rule heap.put_inv [OF D(1)])
    show "distinct visited" by (rule D(2))
    show "map_of ?dist s = Some 0" using vs D(3) by simp
    show "if visited = [] then ?dist = [(s, 0)] else s \<in> set visited" using ne by simp
    show "settled_order ?dist ?prev (rev visited)" using D(5) vs v by (intro settled_order_update) auto
  next
    fix x c assume x: "map_of ?dist x = Some c"
    show "explained ?dist ?prev (set visited) x"
    proof (cases "x = v")
      case True
      have "explained ?dist ?prev (set visited) v" unfolding explained_def
        using vs cur same [OF cur(1)] by (auto simp: alt v_def cc intro!: exI [of _ e])
      with True show ?thesis by simp
    next
      case False
      with x show ?thesis using D(6) [of x] vs v by (auto intro: explained_update)
    qed
  next
    fix u assume "u \<in> set visited"
    then show "\<exists>c. map_of ?dist u = Some c \<and> least_cost nb weight s u c" unfolding same [OF \<open>u \<in> set visited\<close>] by (rule D(7))
  next
    fix u f assume u: "u \<in> set visited" "f \<in> X' u"
    show "\<exists>c. map_of ?dist (neighborId f) = Some c \<and> c \<le> the (map_of ?dist u) + ecost u f"
    proof (cases "u = current \<and> f = e")
      case True
      then show ?thesis using same [OF cur(1)] by (simp add: alt cc v_def)
    next
      case False
      then have "f \<in> X u" using u(2) by (auto simp: X'_def split: if_splits)
      then obtain c where c: "map_of dist (neighborId f) = Some c" "c \<le> the (map_of dist u) + ecost u f"
        using D(8) [OF u(1)] by blast
      have "\<exists>c'. map_of ?dist (neighborId f) = Some c' \<and> c' \<le> c" using c(1) le by (cases "neighborId f = v") auto
      with c(2) same [OF u(1)] show ?thesis by (metis order_trans)
    qed
  next
    fix x c assume "map_of ?dist x = Some c" "x \<notin> set visited"
    then show "(x, c + h x) \<in># heap_content (heap_insert pq v (alt + h v))"
      using D(9) [of x c] heap.put_content [OF D(1)] by (auto split: if_splits)
  next
    fix x p assume x: "(x, p) \<in># heap_content (heap_insert pq v (alt + h v))" "x \<notin> set visited"
    show "\<exists>c. map_of ?dist x = Some c \<and> c + h x \<le> p"
    proof (cases "x = v \<and> p = alt + h v")
      case False
      then have "(x, p) \<in># heap_content pq" using x(1) heap.put_content [OF D(1)] by auto
      then obtain c where "map_of dist x = Some c" "c + h x \<le> p" using D(10) x(2) by blast
      with le show ?thesis by (cases "x = v") (auto intro: order_trans [OF add_right_mono])
    qed simp
  qed
qed

lemma ws_edges_inv:
  assumes "dj_inv X (ws_dist st) (ws_prev st) (ws_visited st) (ws_pq st)" "current \<in> set (ws_visited st)"
    "set es \<subseteq> set (nb current)"
  shows "let st' = foldl (ws_edge weight (\<lambda>v c. c + h v) current) st es in
    dj_inv (X(current := X current \<union> set es)) (ws_dist st') (ws_prev st') (ws_visited st') (ws_pq st') \<and>
    ws_run st' = ws_run st"
  using assms
proof (induction es arbitrary: st X)
  case (Cons e es)
  let ?st = "ws_edge weight (\<lambda>v c. c + h v) current st e" and ?X = "X(current := insert e (X current))"
  have e: "e \<in> set (nb current)" using Cons.prems(3) by simp
  note relax = relax_inv [OF Cons.prems(1,2) e]
  have A: "dj_inv ?X (ws_dist ?st) (ws_prev ?st) (ws_visited ?st) (ws_pq ?st) \<and> ws_visited ?st = ws_visited st \<and> ws_run ?st = ws_run st"
    using relax by (auto simp: ws_edge_def Let_def)
  have "let st' = foldl (ws_edge weight (\<lambda>v c. c + h v) current) ?st es in
      dj_inv (?X(current := ?X current \<union> set es)) (ws_dist st') (ws_prev st') (ws_visited st') (ws_pq st') \<and> ws_run st' = ws_run ?st"
  proof (rule Cons.IH)
    show "dj_inv ?X (ws_dist ?st) (ws_prev ?st) (ws_visited ?st) (ws_pq ?st)" using A by blast
    show "current \<in> set (ws_visited ?st)" "set es \<subseteq> set (nb current)" using A Cons.prems by simp_all
  qed
  moreover have "?X(current := ?X current \<union> set es) = X(current := X current \<union> set (e # es))" by auto
  ultimately show ?case using A by (simp only: Let_def foldl_Cons)
qed (simp add: Let_def)

text \<open>Taking a node from the heap.\<close>

lemma pop_seen:
  assumes "dj_inv X dist prev visited pq" "extractMin pq = (Some v, pq')" "v \<in> set visited"
  shows "dj_inv X dist prev visited pq'"
proof -
  note D = dj_invD [OF assms(1)]
  obtain p where p: "lex_heap pq'" "heap_content pq = add_mset (v, p) (heap_content pq')"
    by (rule heap.take_minE [OF D(1) assms(2)]) (rule that)
  have "(x, q) \<in># heap_content pq' \<longleftrightarrow> (x, q) \<in># heap_content pq" if "x \<notin> set visited" for x q
    using that assms(3) p(2) by auto
  with D p(1) show ?thesis unfolding dj_inv_def by (intro conjI ballI allI impI) blast+
qed

lemma pop_settle:
  assumes inv: "dj_inv (\<lambda>u. set (nb u)) dist prev visited pq" and take: "extractMin pq = (Some v, pq')" and v: "v \<notin> set visited"
  shows "dj_inv ((\<lambda>u. set (nb u))(v := {})) dist prev (visited @ [v]) pq'"
proof -
  note D = dj_invD [OF inv]
  obtain p where p: "lex_heap pq'" "heap_content pq = add_mset (v, p) (heap_content pq')"
    by (rule heap.take_minE [OF D(1) take]) (rule that)
  obtain c where c: "map_of dist v = Some c" "least_cost nb weight s v c" using settles [OF assms] by blast
  have content: "(x, q) \<in># heap_content pq' \<longleftrightarrow> (x, q) \<in># heap_content pq" if "x \<noteq> v" for x q
    using that p(2) by auto
  show ?thesis unfolding dj_inv_def
  proof (intro conjI ballI allI impI)
    show "lex_heap pq'" by (rule p(1))
    show "distinct (visited @ [v])" using D(2) v by simp
    show "map_of dist s = Some 0" by (rule D(3))
    show "if visited @ [v] = [] then dist = [(s, 0)] else s \<in> set (visited @ [v])"
      using D(4) c(1) by (auto split: if_splits)
    show "settled_order dist prev (rev (visited @ [v]))" using D(5) D(6) [OF c(1)] by simp
    show "explained dist prev (set (visited @ [v])) x" if "map_of dist x = Some d" for x d
      using D(6) [OF that] by (auto simp: explained_def)
    show "\<exists>c. map_of dist u = Some c \<and> least_cost nb weight s u c" if "u \<in> set (visited @ [v])" for u
      using that c D(7) by auto
    show "\<exists>c. map_of dist (neighborId e) = Some c \<and> c \<le> the (map_of dist u) + ecost u e"
      if "u \<in> set (visited @ [v])" "e \<in> ((\<lambda>u. set (nb u))(v := {})) u" for u e
      using that D(8) [of u e] by (auto split: if_splits)
    show "(x, d + h x) \<in># heap_content pq'" if "map_of dist x = Some d" "x \<notin> set (visited @ [v])" for x d
      using that D(9) [of x d] content by auto
    show "\<exists>c. map_of dist x = Some c \<and> c + h x \<le> q" if "(x, q) \<in># heap_content pq'" "x \<notin> set (visited @ [v])" for x q
      using that D(10) [of x q] content by auto
  qed
qed

text \<open>What the loop ends with.\<close>

definition ws_final :: "string \<Rightarrow> nat \<Rightarrow> bool \<times> ('w, 'r) wsearch \<Rightarrow> bool" where
  "ws_final goal n res \<longleftrightarrow> (case res of (found, st) \<Rightarrow>
     ok (ws_run st) \<and>
     (if found then \<exists>c xs. map_of (ws_dist st) goal = Some c \<and> least_cost nb weight s goal c \<and>
        walk_back (ws_prev st) s goal [goal] = Some (goal # xs) \<and> wwalk nb weight s (rev (goal # xs)) c
      else distinct (ws_visited st) \<and> set (ws_visited st) \<subseteq> (succs nb)\<^sup>* `` {s} \<and>
        (length (ws_visited st) < n \<longrightarrow> (s, goal) \<notin> (succs nb)\<^sup>*)))"

lemma all_settled:
  assumes inv: "dj_inv (\<lambda>u. set (nb u)) dist prev visited pq" and empty: "heap_content pq = {#}"
  shows "(s, v) \<in> (succs nb)\<^sup>* \<Longrightarrow> v \<in> set visited"
proof -
  assume "(s, v) \<in> (succs nb)\<^sup>*"
  then obtain c p where w: "wwalk nb weight s p c" "last p = v"
    using wcost_reachable [of nb weight s v] by (auto simp: wcost_def)
  show "v \<in> set visited"
  proof (rule ccontr)
    assume "v \<notin> set visited"
    then obtain y cy where "y \<notin> set visited" "map_of dist y = Some cy"
      using frontier [OF w(1) inv] w(2) by blast
    then show False using dj_invD(9) [OF inv] empty by fastforce
  qed
qed

lemma settled_reachable: "dj_inv X dist prev visited pq \<Longrightarrow> set visited \<subseteq> (succs nb)\<^sup>* `` {s}"
proof
  fix v assume "dj_inv X dist prev visited pq" "v \<in> set visited"
  then obtain c where "least_cost nb weight s v c" using dj_invD(7) by blast
  then show "v \<in> (succs nb)\<^sup>* `` {s}" using wcost_reachable [of nb weight s v] by (auto simp: least_cost_def)
qed

lemma ws_loop_final:
  assumes "r = read" "w = weight" "priority = (\<lambda>v c. c + h v)"
    "dj_inv (\<lambda>u. set (nb u)) (ws_dist st) (ws_prev st) (ws_visited st) (ws_pq st)" "goal \<notin> set (ws_visited st)" "ok (ws_run st)"
  shows "ws_final goal n (ws_loop r w priority goal n st)"
  using assms
proof (induction r w priority goal n st rule: ws_loop.induct)
  case (1 r w priority goal n st)
  note inv = "1.prems"(4)
  show ?case
  proof (cases "\<not> heap_isEmpty (ws_pq st) \<and> length (ws_visited st) < n")
    case False
    then have "ws_loop r w priority goal n st = (False, st)" by (subst ws_loop.simps) (simp only: if_False)
    moreover have "(s, goal) \<notin> (succs nb)\<^sup>*" if "length (ws_visited st) < n"
      using all_settled [OF inv, of goal] "1.prems"(5) False that by auto
    ultimately show ?thesis using "1.prems"(6) dj_invD(2) [OF inv] settled_reachable [OF inv] by (simp add: ws_final_def)
  next
    case True
    have "heap_content (ws_pq st) \<noteq> {#}" using True by simp
    from heap.take_some [OF dj_invD(1) [OF inv] this]
    obtain v pq where take: "extractMin (ws_pq st) = (Some v, pq)" by blast
    note IH = "1.IH" [OF True take [symmetric] refl refl]
    show ?thesis
    proof (cases "v \<in> set (ws_visited st)")
      case seen: True
      have "ws_loop r w priority goal n st = ws_loop r w priority goal n (st\<lparr>ws_pq := pq\<rparr>)"
        using True take seen by (subst ws_loop.simps) simp
      moreover have "ws_final goal n (ws_loop r w priority goal n (st\<lparr>ws_pq := pq\<rparr>))"
        using IH(1) seen "1.prems" pop_seen [OF inv take seen] by simp
      ultimately show ?thesis by simp
    next
      case new: False
      let ?st = "st\<lparr>ws_pq := pq, ws_visited := set_add (ws_visited st) v\<rparr>"
      have vis: "set_add (ws_visited st) v = ws_visited st @ [v]" using new by (simp add: set_add_def)
      note settled = pop_settle [OF inv take new]
      obtain c where c: "map_of (ws_dist st) v = Some c" "least_cost nb weight s v c" using settles [OF inv take new] by blast
      have "\<exists>p. wwalk nb weight s p c \<and> last p = v" using c(2) by (simp add: least_cost_def wcost_def)
      then have "node v" using wwalk_node by blast
      show ?thesis
      proof (cases "v = goal")
        case goal: True
        have "ws_loop r w priority goal n st = (True, ?st)"
          using True take new goal by (subst ws_loop.simps) simp
        moreover obtain xs where "walk_back (ws_prev st) s goal [goal] = Some ([goal] @ xs)" "wwalk nb weight s (rev (goal # xs)) c"
          using dist_walk [OF inv, of goal c "[goal]"] c(1) goal by blast
        ultimately show ?thesis using c goal "1.prems"(6) by (auto simp: ws_final_def)
      next
        case other: False
        obtain rs where rd: "read v (ws_run st) = (nb v, rs)" "ok rs"
          using read_nb [OF \<open>node v\<close> "1.prems"(6)] read_ok [OF \<open>node v\<close> "1.prems"(6)]
          by (cases "read v (ws_run st)") simp
        let ?st = "st\<lparr>ws_pq := pq, ws_visited := set_add (ws_visited (st\<lparr>ws_pq := pq\<rparr>)) v\<rparr>"
        have new1: "v \<notin> set (ws_visited (st\<lparr>ws_pq := pq\<rparr>))" using new by simp
        have rd1: "r v (ws_run ?st) = (nb v, rs)" using rd(1) "1.prems"(1) by simp
        let ?st' = "foldl (ws_edge w priority v) (?st\<lparr>ws_run := rs\<rparr>) (nb v)"
        have "ws_loop r w priority goal n st = ws_loop r w priority goal n ?st'"
          using True take new other rd1 by (subst ws_loop.simps) simp
        moreover have "ws_final goal n (ws_loop r w priority goal n ?st')"
        proof (rule IH(2) [OF new1 refl other refl rd1 [symmetric] "1.prems"(1-3)])
          have "dj_inv ((\<lambda>u. set (nb u))(v := {})) (ws_dist (?st\<lparr>ws_run := rs\<rparr>)) (ws_prev (?st\<lparr>ws_run := rs\<rparr>))
              (ws_visited (?st\<lparr>ws_run := rs\<rparr>)) (ws_pq (?st\<lparr>ws_run := rs\<rparr>))"
            using settled by (simp add: vis)
          from ws_edges_inv [OF this, of v "nb v"] have e:
            "dj_inv ((\<lambda>u. set (nb u))(v := set (nb v))) (ws_dist ?st') (ws_prev ?st') (ws_visited ?st') (ws_pq ?st')"
            "ws_run ?st' = rs"
            using "1.prems"(2,3) by (simp_all add: Let_def vis)
          have "(\<lambda>u. set (nb u))(v := set (nb v)) = (\<lambda>u. set (nb u))" by auto
          with e show "dj_inv (\<lambda>u. set (nb u)) (ws_dist ?st') (ws_prev ?st') (ws_visited ?st') (ws_pq ?st')" by simp
          show "goal \<notin> set (ws_visited ?st')" using "1.prems"(5) other by simp
          show "ok (ws_run ?st')" using e(2) rd(2) by simp
        qed
        ultimately show ?thesis by simp
      qed
    qed
  qed
qed

lemma start_inv: "dj_inv (\<lambda>u. set (nb u)) [(s, 0)] [] [] (heap_insert (newMinHeap (Some lexTieBreaker)) s (h s))"
proof -
  have "lex_heap (newMinHeap (Some lexTieBreaker) :: (string, 'w) min_heap)" by (simp add: heap_inv_with_def)
  from heap.put_inv [OF this, of s "h s"] heap.put_content [OF this, of s "h s"]
  show ?thesis unfolding dj_inv_def by (auto simp: explained_def)
qed

lemma ws_loop_finds:
  assumes "ok rs"
  shows "ws_final goal n (ws_loop read weight (\<lambda>v c. c + h v) goal n
    \<lparr>ws_dist = [(s, 0)], ws_prev = [], ws_visited = [],
     ws_pq = heap_insert (newMinHeap (Some lexTieBreaker)) s (0 + h s), ws_run = rs\<rparr>)"
  by (rule ws_loop_final [OF refl refl refl]) (use assms start_inv in simp_all)

end

end
