(* ===== verification/TopologyLaws.thy ===== *)
theory TopologyLaws
  imports Topology WeightLaws
begin

text \<open>
  What \<open>topologicalSort\<close> of \<open>src/domain/services/GraphTraversal.js\<close> returns, over any reader: when the
  starts reach finitely many nodes its discovery ends and has found exactly those, with their
  in-degrees; Kahn's loop then sorts them when the reachable graph has no cycle, and reports a cycle
  when it has one, unless the limit on the nodes stopped it.
\<close>

section \<open>Topological orders\<close>

definition topological_order :: "(string \<times> string) set \<Rightarrow> string set \<Rightarrow> string list \<Rightarrow> bool" where
  "topological_order R D order \<longleftrightarrow> distinct order \<and> set order = D \<and>
     (\<forall>i < length order. \<forall>j < length order. (order ! i, order ! j) \<in> R \<longrightarrow> i < j)"

text \<open>Every edge into a listed node comes from a node listed before it.\<close>

definition forward :: "(string \<times> string) set \<Rightarrow> string set \<Rightarrow> string list \<Rightarrow> bool" where
  "forward R D order \<longleftrightarrow> (\<forall>i < length order. \<forall>u \<in> D. (u, order ! i) \<in> R \<longrightarrow> u \<in> set (take i order))"

lemma forward_snoc:
  "forward R D (order @ [v]) \<longleftrightarrow> forward R D order \<and> (\<forall>u \<in> D. (u, v) \<in> R \<longrightarrow> u \<in> set order)"
  by (auto simp: forward_def nth_append less_Suc_eq)

lemma forward_topological:
  assumes "forward R D order" "distinct order" "set order = D"
  shows "topological_order R D order"
  unfolding topological_order_def
proof (intro conjI allI impI)
  fix i j assume ij: "i < length order" "j < length order" "(order ! i, order ! j) \<in> R"
  then have "order ! i \<in> set (take j order)" using assms(1,3) by (auto simp: forward_def)
  then obtain k where "k < j" "k < length order" "order ! k = order ! i" by (auto simp: in_set_conv_nth)
  then show "i < j" using assms(2) ij by (simp add: nth_eq_iff_index_eq)
qed (use assms in auto)

lemma topological_acyclic:
  assumes "topological_order R D order"
  shows "acyclic (R \<inter> D \<times> D)"
proof (rule wf_acyclic, rule wf_subset)
  let ?pos = "\<lambda>v. length (takeWhile ((\<noteq>) v) order)"
  show "wf (measure ?pos)" by simp
  have pos: "?pos v < length order \<and> order ! ?pos v = v" if "v \<in> D" for v
  proof -
    have "v \<in> set order" using that assms by (simp add: topological_order_def)
    then obtain a b where "order = a @ v # b" "v \<notin> set a" by (meson split_list_first)
    moreover from this have "takeWhile ((\<noteq>) v) order = a @ takeWhile ((\<noteq>) v) (v # b)"
      by (simp only:) (rule takeWhile_append2, auto)
    ultimately show ?thesis by simp
  qed
  show "R \<inter> D \<times> D \<subseteq> measure ?pos"
    using assms pos by (force simp: topological_order_def)
qed

lemma stuck_cycle:
  assumes "finite A" "A \<noteq> {}" "\<And>v. v \<in> A \<Longrightarrow> \<exists>u \<in> A. (u, v) \<in> R"
  shows "\<not> acyclic (R \<inter> A \<times> A)"
proof
  assume "acyclic (R \<inter> A \<times> A)"
  then have "wf (R \<inter> A \<times> A)" using assms(1) by (intro finite_acyclic_wf) auto
  then obtain z where "z \<in> A" "\<And>y. (y, z) \<in> R \<inter> A \<times> A \<Longrightarrow> y \<notin> A" using assms(2) by (metis ex_in_conv wfE_min)
  with assms(3) show False by blast
qed

section \<open>Discovery\<close>

definition edge_count :: "(string \<Rightarrow> neighbor_edge list) \<Rightarrow> string \<Rightarrow> string \<Rightarrow> int" where
  "edge_count nb u v = int (count_list (map neighborId (nb u)) v)"

lemma edge_count_pos: "0 \<le> edge_count nb u v" "0 < edge_count nb u v \<longleftrightarrow> (u, v) \<in> succs nb"
  "edge_count nb u v = 0 \<longleftrightarrow> (u, v) \<notin> succs nb"
proof -
  show z: "edge_count nb u v = 0 \<longleftrightarrow> (u, v) \<notin> succs nb"
    by (auto simp: edge_count_def succs_def count_list_0_iff)
  show "0 \<le> edge_count nb u v" by (simp add: edge_count_def)
  with z show "0 < edge_count nb u v \<longleftrightarrow> (u, v) \<in> succs nb" by linarith
qed

definition deg :: "(string, int) jsmap \<Rightarrow> string \<Rightarrow> int" where
  "deg m v = (case map_of m v of None \<Rightarrow> 0 | Some d \<Rightarrow> d)"

lemma topo_edges:
  assumes "st' = foldl topo_edge st es" "distinct (topo_discovered st)"
  shows "\<exists>new. topo_discovered st' = topo_discovered st @ new \<and> topo_queue st' = topo_queue st @ new \<and>
      distinct (topo_discovered st') \<and> set (topo_discovered st') = set (topo_discovered st) \<union> neighborId ` set es"
    and "deg (topo_inDegree st') v = deg (topo_inDegree st) v + int (count_list (map neighborId es) v)"
    and "map_of (topo_inDegree st') v = None \<longleftrightarrow> map_of (topo_inDegree st) v = None \<and> v \<notin> neighborId ` set es"
    and "topo_adjList st' = topo_adjList st" "topo_edgeMap st' = topo_edgeMap st" "topo_run st' = topo_run st"
proof -
  have "(\<exists>new. topo_discovered st' = topo_discovered st @ new \<and> topo_queue st' = topo_queue st @ new \<and>
      distinct (topo_discovered st') \<and> set (topo_discovered st') = set (topo_discovered st) \<union> neighborId ` set es) \<and>
    deg (topo_inDegree st') v = deg (topo_inDegree st) v + int (count_list (map neighborId es) v) \<and>
    (map_of (topo_inDegree st') v = None \<longleftrightarrow> map_of (topo_inDegree st) v = None \<and> v \<notin> neighborId ` set es) \<and>
    topo_adjList st' = topo_adjList st \<and> topo_edgeMap st' = topo_edgeMap st \<and> topo_run st' = topo_run st"
    using assms
  proof (induction es arbitrary: st)
    case (Cons e es)
    let ?st = "topo_edge st e"
    have new: "\<exists>new. topo_discovered ?st = topo_discovered st @ new \<and> topo_queue ?st = topo_queue st @ new \<and>
        distinct (topo_discovered ?st) \<and> set (topo_discovered ?st) = insert (neighborId e) (set (topo_discovered st))"
      using Cons.prems(2) by (auto simp: topo_edge_def Let_def set_add_def)
    have d: "deg (topo_inDegree ?st) v = deg (topo_inDegree st) v + (if neighborId e = v then 1 else 0)"
      "map_of (topo_inDegree ?st) v = None \<longleftrightarrow> map_of (topo_inDegree st) v = None \<and> v \<noteq> neighborId e"
      "topo_adjList ?st = topo_adjList st" "topo_edgeMap ?st = topo_edgeMap st" "topo_run ?st = topo_run st"
      by (auto simp: topo_edge_def Let_def deg_def)
    have "st' = foldl topo_edge ?st es" using Cons.prems(1) by simp
    from Cons.IH [OF this] new d show ?case by fastforce
  qed auto
  then show "\<exists>new. topo_discovered st' = topo_discovered st @ new \<and> topo_queue st' = topo_queue st @ new \<and>
      distinct (topo_discovered st') \<and> set (topo_discovered st') = set (topo_discovered st) \<union> neighborId ` set es"
    "deg (topo_inDegree st') v = deg (topo_inDegree st) v + int (count_list (map neighborId es) v)"
    "map_of (topo_inDegree st') v = None \<longleftrightarrow> map_of (topo_inDegree st) v = None \<and> v \<notin> neighborId ` set es"
    "topo_adjList st' = topo_adjList st" "topo_edgeMap st' = topo_edgeMap st" "topo_run st' = topo_run st"
    by blast+
qed

context reading
begin

definition disc_inv :: "bool \<Rightarrow> string list \<Rightarrow> string list \<Rightarrow> 'r topo_state \<Rightarrow> bool" where
  "disc_inv ret starts seen st \<longleftrightarrow>
     topo_discovered st = seen @ topo_queue st \<and> distinct (topo_discovered st) \<and> ok (topo_run st) \<and>
     set starts \<subseteq> set (topo_discovered st) \<and> set (topo_discovered st) \<subseteq> (succs nb)\<^sup>* `` set starts \<and>
     succs nb `` set seen \<subseteq> set (topo_discovered st) \<and>
     (\<forall>v. deg (topo_inDegree st) v = (\<Sum>u \<in> set seen. edge_count nb u v)) \<and>
     (\<forall>v \<in> set (topo_discovered st). map_of (topo_inDegree st) v = None \<longrightarrow> v \<in> set starts) \<and>
     (\<forall>m. topo_adjList st = Some m \<longrightarrow> (\<forall>u \<in> set seen. map_of m u = Some (map neighborId (nb u)))) \<and>
     (ret \<longrightarrow> (\<forall>u \<in> set seen. map_of (topo_edgeMap st) u = Some (nb u)))"

lemma node_reachable: "set starts \<subseteq> Collect node \<Longrightarrow> v \<in> (succs nb)\<^sup>* `` set starts \<Longrightarrow> node v"
proof -
  assume s: "set starts \<subseteq> Collect node" and "v \<in> (succs nb)\<^sup>* `` set starts"
  then obtain x where "x \<in> set starts" "(x, v) \<in> (succs nb)\<^sup>*" by blast
  from this(2,1) show "node v"
    by (induction rule: rtrancl_induct) (use s node_nb in \<open>auto simp: succs_def\<close>)
qed

lemma disc_step:
  assumes inv: "disc_inv ret starts seen st" and q: "topo_queue st = v # rest" and starts: "set starts \<subseteq> Collect node"
  shows "disc_inv ret starts (seen @ [v]) (topo_visit read ret v (st\<lparr>topo_queue := rest\<rparr>))"
proof -
  let ?D = "(succs nb)\<^sup>* `` set starts"
  have v: "v \<in> set (topo_discovered st)" "v \<notin> set seen" "v \<in> ?D" using inv q by (auto simp: disc_inv_def)
  then have "node v" using node_reachable [OF starts] by blast
  moreover have "ok (topo_run st)" using inv by (simp add: disc_inv_def)
  ultimately obtain rs where rd: "read v (topo_run st) = (nb v, rs)" "ok rs"
    using read_nb [of v "topo_run st"] read_ok [of v "topo_run st"] by (metis prod.collapse)
  define st1 where "st1 = foldl topo_edge (st\<lparr>topo_queue := rest, topo_run := rs\<rparr>) (nb v)"
  have "distinct (topo_discovered st)" using inv unfolding disc_inv_def by blast
  then have dist: "distinct (topo_discovered (st\<lparr>topo_queue := rest, topo_run := rs\<rparr>))" by simp
  note E = topo_edges [OF st1_def dist, simplified]
  let ?st = "topo_visit read ret v (st\<lparr>topo_queue := rest\<rparr>)"
  have st: "topo_queue ?st = topo_queue st1" "topo_discovered ?st = topo_discovered st1" "topo_inDegree ?st = topo_inDegree st1"
    "topo_run ?st = rs" "topo_adjList ?st = map_option (\<lambda>m. map_set m v (map neighborId (nb v))) (topo_adjList st)"
    "topo_edgeMap ?st = (if ret then map_set (topo_edgeMap st) v (nb v) else topo_edgeMap st)"
    using rd(1) E(4-6) by (simp_all add: topo_visit_def st1_def Let_def)
  obtain new where new: "topo_discovered st1 = topo_discovered st @ new" "topo_queue st1 = rest @ new"
    "distinct (topo_discovered st1)" "set (topo_discovered st1) = set (topo_discovered st) \<union> neighborId ` set (nb v)"
    using E(1) by blast
  have succ: "succs nb `` {v} = neighborId ` set (nb v)" by (auto simp: succs_def)
  show ?thesis unfolding disc_inv_def
  proof (intro conjI allI impI ballI)
    show "topo_discovered ?st = (seen @ [v]) @ topo_queue ?st" using inv q new st by (simp add: disc_inv_def)
    show "distinct (topo_discovered ?st)" using new st by simp
    show "ok (topo_run ?st)" using st rd by simp
    show "set starts \<subseteq> set (topo_discovered ?st)" using inv new(4) st(2) by (auto simp: disc_inv_def)
    have "neighborId ` set (nb v) \<subseteq> ?D"
    proof -
      obtain x where "x \<in> set starts" "(x, v) \<in> (succs nb)\<^sup>*" using v(3) by blast
      then show ?thesis unfolding succ [symmetric] by (auto intro: rtrancl_into_rtrancl)
    qed
    then show "set (topo_discovered ?st) \<subseteq> ?D" using inv new(4) st(2) by (auto simp: disc_inv_def)
    have "succs nb `` set (seen @ [v]) = succs nb `` set seen \<union> neighborId ` set (nb v)" using succ by auto
    then show "succs nb `` set (seen @ [v]) \<subseteq> set (topo_discovered ?st)"
      using inv new(4) st(2) by (auto simp: disc_inv_def)
    show "deg (topo_inDegree ?st) x = (\<Sum>u \<in> set (seen @ [v]). edge_count nb u x)" for x
      using inv E(2) [of x] v(2) st(3) by (simp add: disc_inv_def edge_count_def)
    show "x \<in> set starts" if "x \<in> set (topo_discovered ?st)" "map_of (topo_inDegree ?st) x = None" for x
      using that inv E(3) [of x] new(4) st by (auto simp: disc_inv_def)
    show "map_of m u = Some (map neighborId (nb u))" if "topo_adjList ?st = Some m" "u \<in> set (seen @ [v])" for m u
      using that inv st(5) by (auto simp: disc_inv_def)
    show "map_of (topo_edgeMap ?st) u = Some (nb u)" if ret "u \<in> set (seen @ [v])" for u
      using that inv st(6) by (auto simp: disc_inv_def)
  qed
qed

lemma discover_ends:
  assumes "disc_inv ret starts seen st" "set starts \<subseteq> Collect node" "finite ((succs nb)\<^sup>* `` set starts)"
  shows "\<exists>seen' st'. topo_discover read ret st = Some st' \<and> disc_inv ret starts seen' st' \<and> topo_queue st' = []"
  using assms(1)
proof (induction "card ((succs nb)\<^sup>* `` set starts) - length seen" arbitrary: seen st rule: less_induct)
  case less
  let ?D = "(succs nb)\<^sup>* `` set starts"
  show ?case
  proof (cases "topo_queue st")
    case Nil
    then show ?thesis using less.prems by (subst topo_discover.simps) auto
  next
    case (Cons v rest)
    have "set (seen @ v # rest) \<subseteq> ?D" "distinct (seen @ v # rest)" using less.prems Cons by (auto simp: disc_inv_def)
    then have "length (seen @ v # rest) \<le> card ?D" using assms(3) by (metis card_mono distinct_card)
    then have "card ?D - length (seen @ [v]) < card ?D - length seen" by simp
    from less.hyps [OF this disc_step [OF less.prems Cons assms(2)]] show ?thesis
      by (subst topo_discover.simps) (simp add: Cons)
  qed
qed

lemma disc_closed:
  assumes "disc_inv ret starts seen st" "topo_queue st = []"
  shows "topo_discovered st = seen" "set seen = (succs nb)\<^sup>* `` set starts"
proof -
  show seen: "topo_discovered st = seen" using assms by (simp add: disc_inv_def)
  have "(succs nb)\<^sup>* `` set starts \<subseteq> set seen"
  proof
    fix v assume "v \<in> (succs nb)\<^sup>* `` set starts"
    then obtain x where "x \<in> set starts" "(x, v) \<in> (succs nb)\<^sup>*" by blast
    from this(2,1) show "v \<in> set seen"
      by (induction rule: rtrancl_induct) (use assms seen in \<open>auto simp: disc_inv_def\<close>)
  qed
  then show "set seen = (succs nb)\<^sup>* `` set starts" using assms seen by (auto simp: disc_inv_def)
qed

end

section \<open>Kahn's loop\<close>

definition zero_items :: "string set \<Rightarrow> (string \<times> int) multiset" where
  "zero_items A = image_mset (\<lambda>v. (v, 0)) (mset_set A)"

lemma zero_items_empty: "finite A \<Longrightarrow> zero_items A = {#} \<longleftrightarrow> A = {}"
  by (simp add: zero_items_def mset_set_empty_iff)

lemma kahn_edges:
  assumes "\<And>v. v \<in> set ids \<Longrightarrow> \<exists>d. map_of m v = Some d \<and> int (count_list ids v) \<le> d" "lex_heap q"
    and res: "foldl kahn_edge (m, q) ids = (m', q')"
  shows "lex_heap q' \<and> (\<forall>v. map_of m' v = map_option (\<lambda>d. d - int (count_list ids v)) (map_of m v)) \<and>
    heap_content q' = heap_content q + zero_items {v \<in> set ids. deg m v = int (count_list ids v)}"
  using assms
proof (induction ids arbitrary: m q)
  case Nil
  then show ?case by (simp add: zero_items_def option.map_ident)
next
  case (Cons x ids)
  obtain d where d: "map_of m x = Some d" "int (count_list (x # ids) x) \<le> d" using Cons.prems(1) [of x] by auto
  let ?m = "map_set m x (d - 1)" and ?q = "if d = 1 then heap_insert q x 0 else q"
  have "kahn_edge (m, q) x = (?m, ?q)" using d(1) by (simp add: kahn_edge_def)
  with Cons.prems(3) have step: "foldl kahn_edge (?m, ?q) ids = (m', q')" by (simp only: foldl_Cons)
  have q: "lex_heap ?q" using heap.put_inv [OF Cons.prems(2), of x 0] Cons.prems(2) by simp
  have pre: "\<exists>d. map_of ?m v = Some d \<and> int (count_list ids v) \<le> d" if "v \<in> set ids" for v
    using Cons.prems(1) [of v] that d by auto
  note IH = Cons.IH [OF pre q step]
  have "map_of m' v = map_option (\<lambda>d. d - int (count_list (x # ids) v)) (map_of m v)" for v
    using IH d(1) by (cases "v = x") (auto simp: option.map_comp comp_def)
  moreover have "{v \<in> set (x # ids). deg m v = int (count_list (x # ids) v)} =
      {v \<in> set ids. deg ?m v = int (count_list ids v)} \<union> (if d = 1 then {x} else {})"
    using d by (auto simp: deg_def count_list_0_iff split: if_splits)
  moreover have "x \<notin> {v \<in> set ids. deg ?m v = int (count_list ids v)}" if "d = 1"
    using that d by (auto simp: deg_def count_list_0_iff)
  ultimately show ?case
    using IH heap.put_content [OF Cons.prems(2)] by (auto simp: zero_items_def)
qed

context reading
begin

definition kahn_inv :: "string set \<Rightarrow> (string, int) jsmap \<Rightarrow> (string, int) min_heap \<Rightarrow> string list \<Rightarrow> 'r \<Rightarrow> bool" where
  "kahn_inv D m q order rs \<longleftrightarrow>
     distinct order \<and> set order \<subseteq> D \<and> ok rs \<and> lex_heap q \<and> forward (succs nb) D order \<and>
     (\<forall>v \<in> D. map_of m v = Some (\<Sum>u \<in> D - set order. edge_count nb u v)) \<and>
     heap_content q = zero_items {v \<in> D - set order. deg m v = 0}"

lemma kahn_step:
  assumes inv: "kahn_inv D m q order rs" and D: "finite D" "succs nb `` D \<subseteq> D"
    and take: "extractMin q = (Some v, q1)" and ids: "ids v rs = (map neighborId (nb v), rs1)" "ok rs1"
    and fold: "foldl kahn_edge (m, q1) (map neighborId (nb v)) = (m', q')"
  shows "kahn_inv D m' q' (order @ [v]) rs1 \<and> v \<in> D - set order"
proof -
  let ?ids = "map neighborId (nb v)"
  have q: "lex_heap q" "heap_content q = zero_items {v \<in> D - set order. deg m v = 0}" using inv by (auto simp: kahn_inv_def)
  obtain p where p: "lex_heap q1" "heap_content q = add_mset (v, p) (heap_content q1)"
    by (rule heap.take_minE [OF q(1) take]) (rule that)
  have Z: "finite {v \<in> D - set order. deg m v = 0}" using D(1) by simp
  have "(v, p) \<in># zero_items {v \<in> D - set order. deg m v = 0}" using p(2) q(2) by simp
  then have v: "v \<in> D" "v \<notin> set order" "deg m v = 0" "p = 0" using Z by (auto simp: zero_items_def)
  have q1: "heap_content q1 = zero_items ({v \<in> D - set order. deg m v = 0} - {v})"
  proof -
    have "zero_items {v \<in> D - set order. deg m v = 0} = add_mset (v, 0) (zero_items ({v \<in> D - set order. deg m v = 0} - {v}))"
      using v Z by (simp add: zero_items_def mset_set.remove [of _ v])
    with p(2) q(2) v(4) show ?thesis by simp
  qed
  have deg: "deg m x = (\<Sum>u \<in> D - set order. edge_count nb u x)" "map_of m x = Some (deg m x)" if "x \<in> D" for x
    using inv that by (auto simp: kahn_inv_def deg_def)
  have split: "(\<Sum>u \<in> D - set order. edge_count nb u x) = edge_count nb v x + (\<Sum>u \<in> D - set (order @ [v]). edge_count nb u x)" for x
  proof -
    have "D - set (order @ [v]) = (D - set order) - {v}" by auto
    then show ?thesis using D(1) v by (simp add: sum.remove [of "D - set order" v])
  qed
  have sub: "x \<in> D" if "x \<in> set ?ids" for x using that D(2) v(1) by (auto simp: succs_def)
  have "int (count_list ?ids x) \<le> deg m x" if "x \<in> D" for x
    using deg(1) [OF that] split [of x] sum_nonneg [of "D - set (order @ [v])" "\<lambda>u. edge_count nb u x"]
    by (simp add: edge_count_pos edge_count_def)
  then have pre: "\<exists>d. map_of m x = Some d \<and> int (count_list ?ids x) \<le> d" if "x \<in> set ?ids" for x
    using sub [OF that] deg(2) by blast
  note E = kahn_edges [OF pre p(1) fold]
  have m': "map_of m' x = Some (\<Sum>u \<in> D - set (order @ [v]). edge_count nb u x)" if "x \<in> D" for x
    using E deg [OF that] split [of x] by (simp add: edge_count_def)
  have noself: "x \<noteq> v" if "x \<in> set ?ids" for x
  proof
    assume "x = v"
    then have "0 < edge_count nb v v" using that by (auto simp: edge_count_pos succs_def)
    moreover have "0 \<le> (\<Sum>u \<in> D - set (order @ [v]). edge_count nb u v)" by (rule sum_nonneg) (rule edge_count_pos)
    ultimately show False using deg(1) [OF v(1)] split [of v] v(3) by linarith
  qed
  have fwd: "u \<in> set order" if "u \<in> D" "(u, v) \<in> succs nb" for u
  proof (rule ccontr)
    assume "u \<notin> set order"
    then have "0 < (\<Sum>u \<in> D - set order. edge_count nb u v)"
      using that D(1) by (intro sum_pos2 [of _ u]) (auto simp: edge_count_pos)
    with deg(1) [OF v(1)] v(3) show False by simp
  qed
  have settled: "x \<notin> set order" if "x \<in> set ?ids" for x
  proof
    assume "x \<in> set order"
    then obtain i where i: "i < length order" "order ! i = x" by (auto simp: in_set_conv_nth)
    have "(v, order ! i) \<in> succs nb" using that i by (auto simp: succs_def)
    then have "v \<in> set (take i order)" using inv i v(1) by (auto simp: kahn_inv_def forward_def)
    then show False using v(2) set_take_subset [of i order] by blast
  qed
  have "{x \<in> D - set (order @ [v]). deg m' x = 0} =
      ({x \<in> D - set order. deg m x = 0} - {v}) \<union> {x \<in> set ?ids. deg m x = int (count_list ?ids x)}"
  proof -
    have less: "deg m' x = deg m x - int (count_list ?ids x)" if "x \<in> D" for x
      using E deg(2) [OF that] by (cases "map_of m x") (simp_all add: deg_def)
    have pos: "deg m x \<noteq> 0" if "x \<in> set ?ids" for x
    proof -
      have "0 < edge_count nb v x" using that by (auto simp: edge_count_pos succs_def)
      then show ?thesis using pre [OF that] deg(2) [OF sub [OF that]] by (auto simp: edge_count_def)
    qed
    show ?thesis
    proof (rule set_eqI)
      fix x
      show "x \<in> {x \<in> D - set (order @ [v]). deg m' x = 0} \<longleftrightarrow>
          x \<in> ({x \<in> D - set order. deg m x = 0} - {v}) \<union> {x \<in> set ?ids. deg m x = int (count_list ?ids x)}"
      proof (cases "x \<in> set ?ids")
        case True
        from sub [OF True] noself [OF True] settled [OF True] pos [OF True] less [OF sub [OF True]] True
        show ?thesis by (simp only: Un_iff mem_Collect_eq Diff_iff) auto
      next
        case False
        then have "count_list ?ids x = 0" by (simp only: count_list_0_iff not_False_eq_True)
        with False less [of x] show ?thesis
          by (simp only: Un_iff mem_Collect_eq Diff_iff set_append list.set) (cases "x \<in> D"; auto)
      qed
    qed
  qed
  moreover have "({x \<in> D - set order. deg m x = 0} - {v}) \<inter> {x \<in> set ?ids. deg m x = int (count_list ?ids x)} = {}"
    by (auto simp: count_list_0_iff)
  ultimately have "zero_items {x \<in> D - set (order @ [v]). deg m' x = 0} = heap_content q'"
    using E q1 Z by (simp add: zero_items_def mset_set_Union)
  with inv v m' E ids(2) fwd show ?thesis by (simp add: kahn_inv_def forward_snoc)
qed

definition kahn_final :: "string set \<Rightarrow> nat \<Rightarrow> (string, int) min_heap \<times> string list \<times> 'r \<Rightarrow> bool" where
  "kahn_final D n res \<longleftrightarrow> (case res of (q, order, rs) \<Rightarrow>
     distinct order \<and> set order \<subseteq> D \<and> ok rs \<and> length order \<le> n \<and> forward (succs nb) D order \<and>
     (heap_isEmpty q \<or> length order = n) \<and>
     (heap_isEmpty q \<longrightarrow> (\<forall>v \<in> D - set order. \<exists>u \<in> D - set order. (u, v) \<in> succs nb)))"

lemma kahn_inv_final:
  assumes "kahn_inv D m q order rs" "finite D" "heap_isEmpty q \<or> length order = n" "length order \<le> n"
  shows "kahn_final D n (q, order, rs)"
proof -
  have "\<exists>u \<in> D - set order. (u, v) \<in> succs nb" if "heap_isEmpty q" "v \<in> D - set order" for v
  proof (rule ccontr)
    assume "\<not> ?thesis"
    then have "(\<Sum>u \<in> D - set order. edge_count nb u v) = 0"
      by (intro sum.neutral) (auto simp: edge_count_pos)
    then have "deg m v = 0" using assms(1) that(2) by (auto simp: kahn_inv_def deg_def)
    moreover have "zero_items {v \<in> D - set order. deg m v = 0} = {#}" using assms(1) that(1) by (simp add: kahn_inv_def)
    ultimately show False using that(2) assms(2) by (auto simp: zero_items_empty)
  qed
  with assms show ?thesis by (auto simp: kahn_final_def kahn_inv_def)
qed

lemma kahn_ends:
  assumes "g = ids" "kahn_inv D m q order rs" "length order \<le> n"
    and D: "finite D" "succs nb `` D \<subseteq> D"
    and ids: "\<And>v rs. v \<in> D \<Longrightarrow> ok rs \<Longrightarrow> \<exists>rs'. ids v rs = (map neighborId (nb v), rs') \<and> ok rs'"
  shows "kahn_final D n (kahn g n m q order rs)"
  using assms(1-3)
proof (induction g n m q order rs rule: kahn.induct)
  case (1 g n m q order rs)
  note inv = "1.prems"(2)
  show ?case
  proof (cases "\<not> heap_isEmpty q \<and> length order < n")
    case False
    then have "kahn g n m q order rs = (q, order, rs)" by (subst kahn.simps) (simp only: if_False)
    then show ?thesis using kahn_inv_final [OF inv D(1), of n] False "1.prems"(3) by auto
  next
    case True
    have q: "lex_heap q" "heap_content q \<noteq> {#}" using inv True by (simp_all add: kahn_inv_def)
    from heap.take_some [OF q] obtain v q1 where take: "extractMin q = (Some v, q1)" by blast
    have "v \<in> D"
    proof -
      obtain p where "heap_content q = add_mset (v, p) (heap_content q1)"
        by (rule heap.take_minE [OF q(1) take]) (rule that)
      then have "(v, p) \<in># heap_content q" by simp
      moreover have "heap_content q = zero_items {v \<in> D - set order. deg m v = 0}" using inv unfolding kahn_inv_def by blast
      ultimately show ?thesis using D(1) by (auto simp: zero_items_def)
    qed
    moreover have "ok rs" using inv by (simp add: kahn_inv_def)
    ultimately obtain rs1 where rd: "ids v rs = (map neighborId (nb v), rs1)" "ok rs1" using ids by blast
    obtain m' q' where f: "foldl kahn_edge (m, q1) (map neighborId (nb v)) = (m', q')" by fastforce
    note step = kahn_step [where ids = ids, OF inv D take rd f]
    have "kahn g n m q order rs = kahn g n m' q' (order @ [v]) rs1"
      using True take rd(1) f "1.prems"(1) by (subst kahn.simps) simp
    moreover have "kahn_final D n (kahn g n m' q' (order @ [v]) rs1)"
      using "1.IH" [OF True take [symmetric] refl _ _ f [symmetric]] rd(1) "1.prems"(1) step True by simp
    ultimately show ?thesis by simp
  qed
qed

text \<open>Both readers of neighbour ids give what was discovered.\<close>

lemma reader_ids:
  assumes "disc_inv ret starts seen st" "v \<in> set seen" "node v" "ok rs"
  shows "\<exists>rs'. createTopoNeighborIdReader read (topo_adjList st) v rs = (map neighborId (nb v), rs') \<and> ok rs'"
proof (cases "topo_adjList st")
  case None
  then show ?thesis using read_nb [OF assms(3,4)] read_ok [OF assms(3,4)]
    by (cases "read v rs") (simp add: createTopoNeighborIdReader_def)
next
  case (Some m)
  then have "map_of m v = Some (map neighborId (nb v))" using assms(1,2) by (simp add: disc_inv_def)
  with Some assms(4) show ?thesis by (simp add: createTopoNeighborIdReader_def)
qed

lemma witness_edge:
  assumes "findTopoCycleWitness g order vs rs = (w, rs')" "set vs \<subseteq> D" "ok rs"
    and ids: "\<And>v rs. v \<in> D \<Longrightarrow> ok rs \<Longrightarrow> \<exists>rs'. g v rs = (map neighborId (nb v), rs') \<and> ok rs'"
  shows "ok rs' \<and> (\<forall>u v. w = Some (u, v) \<longrightarrow> (u, v) \<in> succs nb \<and> u \<in> set vs - set order \<and> v \<notin> set order)"
  using assms(1-3)
proof (induction vs arbitrary: rs)
  case (Cons x vs)
  show ?case
  proof (cases "x \<in> set order")
    case True
    with Cons show ?thesis by auto
  next
    case False
    obtain rs1 where rd: "g x rs = (map neighborId (nb x), rs1)" "ok rs1" using ids Cons.prems by fastforce
    show ?thesis
    proof (cases "filter (\<lambda>v. v \<notin> set order) (map neighborId (nb x))")
      case Nil
      then have "findTopoCycleWitness g order vs rs1 = (w, rs')"
        using Cons.prems(1) rd False by simp
      with Cons.IH rd(2) Cons.prems(2) show ?thesis by auto
    next
      case (Cons y ys)
      then have "y \<in> set (filter (\<lambda>v. v \<notin> set order) (map neighborId (nb x)))" by simp
      moreover have "w = Some (x, y)" "rs' = rs1" using Cons.prems(1) rd False Cons by simp_all
      ultimately show ?thesis using False rd(2) by (auto simp: succs_def)
    qed
  qed
qed simp

end

lemma topo_starts: "map_of (foldl topo_start m ss) v = (if map_of m v = None \<and> v \<in> set ss then Some 0 else map_of m v)"
  by (induction ss arbitrary: m) (auto simp: topo_start_def)

lemma ready_items:
  fixes m :: "(string, int) jsmap"
  assumes "lex_heap q" "distinct vs"
  defines "q' \<equiv> foldl (\<lambda>q v. if (case map_of m v of None \<Rightarrow> 0 | Some d \<Rightarrow> d) = 0 then heap_insert q v 0 else q) q vs"
  shows "lex_heap q' \<and> heap_content q' = heap_content q + zero_items {v \<in> set vs. deg m v = 0}"
  unfolding q'_def using assms(1,2)
proof (induction vs arbitrary: q)
  case (Cons v vs)
  let ?q = "if deg m v = 0 then heap_insert q v 0 else q"
  have q: "lex_heap ?q" using heap.put_inv [OF Cons.prems(1), of v 0] Cons.prems(1) by simp
  have "zero_items {x \<in> set (v # vs). deg m x = 0} = (if deg m v = 0 then {#(v, 0)#} else {#}) + zero_items {x \<in> set vs. deg m x = 0}"
  proof (cases "deg m v = 0")
    case True
    then have "{x \<in> set (v # vs). deg m x = 0} = insert v {x \<in> set vs. deg m x = 0}" by auto
    with True Cons.prems(2) show ?thesis by (simp add: zero_items_def)
  next
    case False
    then have "{x \<in> set (v # vs). deg m x = 0} = {x \<in> set vs. deg m x = 0}" by auto
    with False show ?thesis by simp
  qed
  with Cons.IH [OF q] Cons.prems heap.put_content [OF Cons.prems(1), of v 0] show ?case by (simp add: deg_def)
qed (simp add: zero_items_def)

section \<open>The sort\<close>

definition topo_correct ::
  "(string \<Rightarrow> neighbor_edge list) \<Rightarrow> string set \<Rightarrow> nat \<Rightarrow> bool \<Rightarrow> trav_error + topo_result \<Rightarrow> bool" where
  "topo_correct nb D maxNodes throwOnCycle r \<longleftrightarrow>
     (case r of
        Inl e \<Rightarrow> throwOnCycle \<and> \<not> acyclic (succs nb \<inter> D \<times> D) \<and>
          (\<exists>k w. e = GraphHasCycles k w \<and> 0 < k \<and> (\<forall>u v. w = Some (u, v) \<longrightarrow> u \<in> D \<and> (u, v) \<in> succs nb))
      | Inr t \<Rightarrow> distinct (topo_sorted t) \<and> set (topo_sorted t) \<subseteq> D \<and> forward (succs nb) D (topo_sorted t) \<and>
          length (topo_sorted t) \<le> maxNodes \<and>
          (topo_hasCycle t \<longrightarrow> \<not> throwOnCycle \<and> \<not> acyclic (succs nb \<inter> D \<times> D)) \<and>
          (card D \<le> maxNodes \<longrightarrow> \<not> topo_hasCycle t \<longrightarrow> topological_order (succs nb) D (topo_sorted t)))"

lemma validateStarts_ok: "validateStarts p ss = Inr () \<longleftrightarrow> (\<forall>s \<in> set ss. prov_hasNode p s)"
  by (induction ss) (auto simp: validateStart_def)

lemma validateStarts_cases: "validateStarts p ss = Inr () \<or> (\<exists>s \<in> set ss. validateStarts p ss = Inl (InvalidStart s) \<and> \<not> prov_hasNode p s)"
  by (induction ss) (auto simp: validateStart_def)

text \<open>What Kahn's loop says about cycles.\<close>

lemma forward_cycle:
  assumes D: "finite D" and order: "distinct order" "set order \<subseteq> D" "forward R D order"
    and stuck: "\<forall>v \<in> D - set order. \<exists>u \<in> D - set order. (u, v) \<in> R"
  shows "length order < card D \<longleftrightarrow> \<not> acyclic (R \<inter> D \<times> D)"
proof
  assume "length order < card D"
  then have "D - set order \<noteq> {}" using D order(1) by (metis Diff_eq_empty_iff card_mono distinct_card finite_set leD)
  from stuck_cycle [OF _ this, of R] stuck D
  have "\<not> acyclic (R \<inter> (D - set order) \<times> (D - set order))" by blast
  then show "\<not> acyclic (R \<inter> D \<times> D)" by (rule contrapos_nn) (erule acyclic_subset, blast)
next
  assume "\<not> acyclic (R \<inter> D \<times> D)"
  then have "set order \<noteq> D" using topological_acyclic forward_topological [OF order(3,1)] by blast
  then show "length order < card D" using D order(1,2) by (metis distinct_card psubsetI psubset_card_mono)
qed

lemma topologicalSort_correct:
  fixes p d ls
  assumes rd: "reading (expand p d ls) nb ok node"
    and starts: "\<And>s. s \<in> set start \<Longrightarrow> node s" "\<And>s. s \<in> set start \<Longrightarrow> prov_hasNode p s"
    and fin: "finite ((succs nb)\<^sup>* `` set start)" and rs: "ok (newRunStats cache)"
  defines "D \<equiv> (succs nb)\<^sup>* `` set start"
  shows "\<exists>cache' r. topologicalSort p start d ls n throw ret lw cache = Some (cache', r) \<and>
    (\<exists>rs'. ok rs' \<and> cache' = neighborCache rs') \<and> topo_correct nb D n throw r \<and>
    (\<forall>t. r = Inr t \<longrightarrow> ret \<longrightarrow> (\<exists>m. topo_neighborEdgeMap t = Some m \<and> (\<forall>u \<in> D. map_of m u = Some (nb u))))"
proof -
  let ?read = "expand p d ls" and ?ss = "set_of start"
  note L = reading.disc_inv_def [OF rd] reading.kahn_inv_def [OF rd] reading.kahn_final_def [OF rd]
  have ss: "set ?ss = set start" "distinct ?ss" by simp_all
  have nodes: "set ?ss \<subseteq> Collect node" using starts(1) ss by auto
  let ?light = "(case lw of None \<Rightarrow> \<not> ret | Some b \<Rightarrow> b) \<and> \<not> ret"
  let ?init = "\<lparr>topo_queue = ?ss, topo_discovered = ?ss, topo_inDegree = [],
    topo_adjList = (if ?light then None else Some []), topo_edgeMap = [], topo_run = newRunStats cache\<rparr>"
  have "reading.disc_inv nb ok ret ?ss [] ?init"
    using rs ss by (auto simp: L deg_def)
  from reading.discover_ends [OF rd this nodes] fin obtain seen st where
    st: "topo_discover ?read ret ?init = Some st" "reading.disc_inv nb ok ret ?ss seen st" "topo_queue st = []"
    by (auto simp: ss)
  have seen: "topo_discovered st = seen" "set seen = D" using reading.disc_closed [OF rd st(2,3)] by (simp_all add: D_def ss)
  have finD: "finite D" using fin by (simp add: D_def)
  have closed: "succs nb `` D \<subseteq> D" unfolding D_def by (auto intro: rtrancl_into_rtrancl)
  have nodeD: "node v" if "v \<in> D" for v using reading.node_reachable [OF rd nodes, of v] that by (simp add: D_def ss)
  let ?deg = "foldl topo_start (topo_inDegree st) ?ss"
  let ?ids = "createTopoNeighborIdReader ?read (topo_adjList st)"
  define q :: "(string, int) min_heap" where "q = foldl (\<lambda>q nodeId. if (case map_of ?deg nodeId of None \<Rightarrow> 0 | Some d \<Rightarrow> d) = 0 then heap_insert q nodeId 0 else q)
    (newMinHeap (Some lexTieBreaker)) seen"
  have ids: "\<exists>rs'. ?ids v rs = (map neighborId (nb v), rs') \<and> ok rs'" if "v \<in> D" "ok rs" for v rs
    using reading.reader_ids [OF rd st(2)] that nodeD seen(2) by blast
  have degs: "map_of ?deg v = Some (\<Sum>u \<in> D. edge_count nb u v)" if "v \<in> D" for v
  proof -
    have "deg (topo_inDegree st) v = (\<Sum>u \<in> D. edge_count nb u v)"
      "map_of (topo_inDegree st) v = None \<Longrightarrow> v \<in> set ?ss"
      using st(2) seen that by (auto simp: L)
    then show ?thesis by (cases "map_of (topo_inDegree st) v") (auto simp: topo_starts deg_def)
  qed
  have q: "lex_heap q \<and> heap_content q = zero_items {v \<in> D. deg ?deg v = 0}"
  proof -
    have "lex_heap (newMinHeap (Some lexTieBreaker) :: (string, int) min_heap)" by (simp add: heap_inv_with_def)
    moreover have "distinct seen" using st(2) seen(1) by (simp add: L)
    ultimately show ?thesis using ready_items [of "newMinHeap (Some lexTieBreaker)" seen ?deg] seen(2)
      by (simp add: q_def)
  qed
  have "reading.kahn_inv nb ok D ?deg q [] (topo_run st)"
    using q degs st(2) by (simp add: L forward_def)
  from reading.kahn_ends [where ids = ?ids and n = n, OF rd refl this _ finD closed ids]
  have fin: "reading.kahn_final nb ok D n (kahn ?ids n ?deg q [] (topo_run st))" by simp
  obtain q' order rs' where k: "kahn ?ids n ?deg q [] (topo_run st) = (q', order, rs')" by (metis prod_cases3)
  from fin k have K: "distinct order" "set order \<subseteq> D" "ok rs'" "length order \<le> n" "forward (succs nb) D order"
    "heap_isEmpty q' \<or> length order = n" "heap_isEmpty q' \<Longrightarrow> \<forall>v \<in> D - set order. \<exists>u \<in> D - set order. (u, v) \<in> succs nb"
    by (simp_all add: L)
  have card: "length seen = card D" using st(2) seen by (simp add: L flip: distinct_card)
  define c where "c = computeTopoHasCycle (length order) (length seen) n (\<not> heap_isEmpty q')"
  have cyc: "\<not> acyclic (succs nb \<inter> D \<times> D)" "length order < length seen" if c
  proof -
    have e: "heap_isEmpty q'" "length order < card D" using that K(6) card by (auto simp: c_def computeTopoHasCycle_def)
    then show "length order < length seen" using card by simp
    show "\<not> acyclic (succs nb \<inter> D \<times> D)" using forward_cycle [OF finD K(1,2,5) K(7) [OF e(1)]] e(2) by blast
  qed
  have top: "topological_order (succs nb) D order" if "\<not> c" "card D \<le> n"
  proof (rule forward_topological [OF K(5,1)])
    have "card D \<le> length order" using that card K(4) by (auto simp: c_def computeTopoHasCycle_def)
    then show "set order = D" using card_seteq [OF finD K(2)] K(1) by (simp add: distinct_card)
  qed
  have valid: "validateStarts p ?ss = Inr ()" using starts(2) by (simp add: validateStarts_ok)
  show ?thesis
  proof (cases "c \<and> throw")
    case True
    obtain w rs2 where w: "findTopoCycleWitness ?ids order seen rs' = (w, rs2)" by fastforce
    from reading.witness_edge [OF rd w _ K(3) ids, of D] seen(2) have
      W: "ok rs2" "\<And>u v. w = Some (u, v) \<Longrightarrow> u \<in> D \<and> (u, v) \<in> succs nb" by auto
    let ?w = "case w of Some (from, to) \<Rightarrow> if from \<noteq> [] then w else None | None \<Rightarrow> None"
    have "topologicalSort p start d ls n throw ret lw cache =
        Some (neighborCache rs2, Inl (GraphHasCycles (length seen - length order) ?w))"
      using valid st(1) seen(1) k w True by (simp add: topologicalSort_def Let_def q_def c_def [symmetric] del: heap_isEmpty_iff)
    moreover have "\<forall>u v. ?w = Some (u, v) \<longrightarrow> u \<in> D \<and> (u, v) \<in> succs nb"
      using W(2) by (auto split: option.splits if_splits)
    ultimately show ?thesis using True cyc W(1) by (auto simp: topo_correct_def)
  next
    case False
    then have no: "(c \<and> throw) = False" by blast
    have "topologicalSort p start d ls n throw ret lw cache = Some (neighborCache rs',
        Inr \<lparr>topo_sorted = order, topo_hasCycle = c, topo_stats = stats (length order) rs',
          topo_neighborEdgeMap = (if ret then Some (topo_edgeMap st) else None)\<rparr>)"
      using valid st(1) seen(1) k no by (cases c; cases throw) (simp_all add: topologicalSort_def Let_def q_def c_def [symmetric] del: heap_isEmpty_iff)
    moreover have "\<forall>u \<in> D. map_of (topo_edgeMap st) u = Some (nb u)" if ret using st(2) seen(2) that by (simp add: L)
    ultimately show ?thesis using False K cyc top by (auto simp: topo_correct_def)
  qed
qed

end
