(* ===== verification/DagLaws.thy ===== *)
theory DagLaws
  imports TopologyLaws
begin

text \<open>
  The dynamic programs of \<open>src/domain/services/GraphTraversal.js\<close> over a topological order:
  \<open>weightedLongestPath\<close> finds a walk of greatest cost, and \<open>levels\<close> gives every node the length of the
  longest path to it.
\<close>

section \<open>Walking a topological order\<close>

lemma topological_later:
  assumes "topological_order R D (S @ u # T)" "(u, v) \<in> R" "v \<in> D"
  shows "v \<in> set T" "v \<noteq> u" "v \<notin> set S"
proof -
  have "v \<in> set (S @ u # T)" using assms(1,3) by (simp add: topological_order_def)
  then obtain j where j: "j < length (S @ u # T)" "(S @ u # T) ! j = v" by (metis in_set_conv_nth)
  have u: "(S @ u # T) ! length S = u" "length S < length (S @ u # T)" by simp_all
  have "length S < j" using assms(1,2) j u unfolding topological_order_def by metis
  then have "v = T ! (j - Suc (length S))" "j - Suc (length S) < length T" using j by (auto simp: nth_append)
  then show "v \<in> set T" by simp
  moreover have "distinct (S @ u # T)" using assms(1) by (simp add: topological_order_def)
  ultimately show "v \<noteq> u" "v \<notin> set S" by auto
qed

lemma topological_earlier:
  assumes "topological_order R D (S @ u # T)" "(x, u) \<in> R" "x \<in> D"
  shows "x \<in> set S"
proof (rule ccontr)
  assume "x \<notin> set S"
  then have "x \<in> set (u # T)" using assms(1,3) by (auto simp: topological_order_def)
  then obtain A B where s: "u # T = A @ x # B" by (meson split_list)
  then have o: "topological_order R D ((S @ A) @ x # B)" using assms(1) by simp
  have "u \<in> D" using assms(1) by (auto simp: topological_order_def)
  from topological_later [OF o assms(2) this] have "u \<in> set B" "u \<noteq> x" by auto
  then show False using s o by (cases A) (auto simp: topological_order_def)
qed

section \<open>The longest path\<close>

definition greatest_cost :: "(string \<Rightarrow> neighbor_edge list) \<Rightarrow> 'w::linordered_idom edge_weight \<Rightarrow> string \<Rightarrow> string \<Rightarrow> 'w \<Rightarrow> bool" where
  "greatest_cost nb weight s v c \<longleftrightarrow> wcost nb weight s v c \<and> (\<forall>c'. wcost nb weight s v c' \<longrightarrow> c' \<le> c)"

context cost_tree
begin

lemma explained_mono: "explained dist prev A v \<Longrightarrow> A \<subseteq> B \<Longrightarrow> explained dist prev B v"
  unfolding explained_def by blast

definition lp_inv :: "(string \<Rightarrow> neighbor_edge set) \<Rightarrow> string list \<Rightarrow> (string, 'w) jsmap \<Rightarrow> (string, string) jsmap \<Rightarrow> bool" where
  "lp_inv X S dist prev \<longleftrightarrow>
     map_of dist s = Some 0 \<and> settled_order dist prev (rev S) \<and>
     (\<forall>v c. map_of dist v = Some c \<longrightarrow> explained dist prev (set S) v) \<and>
     (\<forall>u \<in> set S. map_of dist u \<noteq> None) \<and>
     (\<forall>u \<in> set S. \<forall>e \<in> X u. \<exists>c. map_of dist (neighborId e) = Some c \<and> the (map_of dist u) + ecost u e \<le> c)"

lemma lp_edge_inv:
  assumes inv: "lp_inv X S dist prev" and u: "u \<in> set S" "e \<in> set (nb u)" and v: "neighborId e \<notin> set S" "neighborId e \<noteq> s"
    and res: "lp_edge weight u (dist, prev) e = (dist', prev')"
  shows "lp_inv (X(u := insert e (X u))) S dist' prev'"
proof -
  let ?v = "neighborId e" and ?alt = "the (map_of dist u) + ecost u e"
  have du: "map_of dist u \<noteq> None" and "u \<noteq> ?v" using inv u v by (auto simp: lp_inv_def)
  show ?thesis
  proof (cases "case map_of dist ?v of None \<Rightarrow> True | Some best \<Rightarrow> ?alt > best \<or> (?alt = best \<and> shouldUpdatePredecessor prev ?v u)")
    case False
    then obtain best where "map_of dist ?v = Some best" "?alt \<le> best" by (auto split: option.splits)
    moreover have "dist' = dist" "prev' = prev" using res False by (auto simp: lp_edge_def Let_def)
    ultimately show ?thesis using inv by (auto simp: lp_inv_def)
  next
    case True
    then have d: "dist' = map_set dist ?v ?alt" "prev' = map_set prev ?v u" using res by (auto simp: lp_edge_def Let_def)
    have le: "c \<le> ?alt" if "map_of dist ?v = Some c" for c using True that by auto
    have same: "map_of dist' x = map_of dist x" if "x \<in> set S" for x using that v d by auto
    show ?thesis unfolding lp_inv_def
    proof (intro conjI allI impI ballI)
      show "map_of dist' s = Some 0" using inv v d by (auto simp: lp_inv_def)
      show "settled_order dist' prev' (rev S)"
        using inv v unfolding d by (intro settled_order_update) (auto simp: lp_inv_def)
      show "explained dist' prev' (set S) x" if x: "map_of dist' x = Some c" for x c
      proof (cases "x = ?v")
        case True
        have "map_of dist' u = map_of dist u" using \<open>u \<noteq> ?v\<close> d by auto
        then show ?thesis using True u v d unfolding explained_def by (intro disjI2 conjI exI [of _ u] exI [of _ e]) auto
      next
        case False
        then have "map_of dist x = Some c" using x d by auto
        then show ?thesis using inv explained_update [of dist prev "set S" x ?v ?alt u] v False unfolding d by (auto simp: lp_inv_def)
      qed
      show "map_of dist' x \<noteq> None" if "x \<in> set S" for x using inv same [OF that] that by (auto simp: lp_inv_def)
      show "\<exists>c. map_of dist' (neighborId f) = Some c \<and> the (map_of dist' x) + ecost x f \<le> c"
        if x: "x \<in> set S" "f \<in> (X(u := insert e (X u))) x" for x f
      proof (cases "x = u \<and> f = e")
        case True
        then show ?thesis using same [OF u(1)] d by auto
      next
        case False
        then have "f \<in> X x" using x(2) by (auto split: if_splits)
        then obtain c where c: "map_of dist (neighborId f) = Some c" "the (map_of dist x) + ecost x f \<le> c"
          using inv x(1) unfolding lp_inv_def by blast
        then show ?thesis using same [OF x(1)] le d by (cases "neighborId f = ?v") (auto intro: order_trans)
      qed
    qed
  qed
qed

lemma lp_edges_inv:
  assumes "lp_inv X S dist prev" "u \<in> set S" "set es \<subseteq> set (nb u)"
    and "\<And>e. e \<in> set es \<Longrightarrow> neighborId e \<notin> set S \<and> neighborId e \<noteq> s"
  shows "case foldl (lp_edge weight u) (dist, prev) es of (dist', prev') \<Rightarrow> lp_inv (X(u := X u \<union> set es)) S dist' prev'"
  using assms
proof (induction es arbitrary: X dist prev)
  case (Cons e es)
  obtain d1 p1 where s1: "lp_edge weight u (dist, prev) e = (d1, p1)" by fastforce
  have "lp_inv (X(u := insert e (X u))) S d1 p1"
    using lp_edge_inv [OF Cons.prems(1,2) _ _ _ s1] Cons.prems(3,4) by simp
  have "case foldl (lp_edge weight u) (d1, p1) es of (dist', prev') \<Rightarrow>
      lp_inv ((X(u := insert e (X u)))(u := (X(u := insert e (X u))) u \<union> set es)) S dist' prev'"
    by (rule Cons.IH [OF \<open>lp_inv (X(u := insert e (X u))) S d1 p1\<close> Cons.prems(2)]) (use Cons.prems(3,4) in auto)
  moreover have "(X(u := insert e (X u)))(u := (X(u := insert e (X u))) u \<union> set es) = X(u := X u \<union> set (e # es))" by auto
  ultimately show ?case by (simp only: foldl_Cons s1)
qed simp

lemma lp_nodes_inv:
  assumes order: "topological_order (succs nb) D order" and D: "D = (succs nb)\<^sup>* `` {s}"
    and edges: "\<And>u. u \<in> D \<Longrightarrow> map_of edgeMap u = Some (nb u)"
  shows "order = S @ T \<Longrightarrow> lp_inv (\<lambda>u. set (nb u)) S dist prev \<Longrightarrow>
    \<exists>dist' prev' n'. foldl (lp_node weight edgeMap) (dist, prev, n) T = (dist', prev', n') \<and>
      lp_inv (\<lambda>u. set (nb u)) order dist' prev'"
proof (induction T arbitrary: S dist prev n)
  case (Cons u T)
  have o: "topological_order (succs nb) D (S @ u # T)" using order Cons.prems(1) by simp
  have u: "u \<in> D" "u \<notin> set S" using o by (auto simp: topological_order_def)
  have later: "neighborId e \<notin> set (S @ [u]) \<and> neighborId e \<noteq> s" if "e \<in> set (nb u)" for e
  proof -
    have su: "(u, neighborId e) \<in> succs nb" using that by (auto simp: succs_def)
    moreover have "neighborId e \<in> D" using su u(1) D by (auto intro: rtrancl_into_rtrancl)
    ultimately have l: "neighborId e \<in> set T" "neighborId e \<noteq> u" "neighborId e \<notin> set S"
      using topological_later [OF o] by blast+
    have "neighborId e \<noteq> s"
    proof
      assume s: "neighborId e = s"
      then have "(s, s) \<in> (succs nb)\<^sup>+" using su u(1) D by (auto intro: rtrancl_into_trancl1)
      then have "(s, s) \<in> (succs nb \<inter> D \<times> D)\<^sup>+"
      proof -
        have step: "(a, b) \<in> (succs nb \<inter> D \<times> D)\<^sup>+" if "(a, b) \<in> (succs nb)\<^sup>+" "a \<in> D" for a b
          using that
        proof (induction rule: trancl_induct)
          case (base y)
          then have "y \<in> D" using D by (auto intro: rtrancl_into_rtrancl)
          with base show ?case by auto
        next
          case (step y z)
          then have "y \<in> D" using D by (auto intro: rtrancl_trans trancl_into_rtrancl)
          moreover from this have "z \<in> D" using step.hyps(2) D by (auto intro: rtrancl_into_rtrancl)
          ultimately show ?case using step by (auto intro: trancl_into_trancl)
        qed
        show ?thesis using step \<open>(s, s) \<in> (succs nb)\<^sup>+\<close> D by blast
      qed
      then show False using topological_acyclic [OF order] by (auto simp: acyclic_def)
    qed
    with l show ?thesis by simp
  qed
  have known: "\<exists>c. map_of dist u = Some c"
  proof (cases "u = s")
    case True
    then show ?thesis using Cons.prems(2) by (simp add: lp_inv_def)
  next
    case False
    then have "(s, u) \<in> (succs nb)\<^sup>*" using u(1) D by simp
    then obtain x where x: "(s, x) \<in> (succs nb)\<^sup>*" "(x, u) \<in> succs nb" using False by (metis rtranclE)
    then have "x \<in> set S" using topological_earlier [OF o x(2)] D by auto
    moreover obtain e where "e \<in> set (nb x)" "neighborId e = u" using x(2) by (auto simp: succs_def)
    ultimately show ?thesis using Cons.prems(2) unfolding lp_inv_def by blast
  qed
  then obtain c where c: "map_of dist u = Some c" by blast
  have "lp_inv ((\<lambda>u. set (nb u))(u := {})) (S @ [u]) dist prev"
    using Cons.prems(2) c u(2) explained_mono [of dist prev "set S" _ "set (S @ [u])"] by (auto simp: lp_inv_def)
  from lp_edges_inv [OF this, of u "nb u"] later
  obtain d1 p1 where f: "foldl (lp_edge weight u) (dist, prev) (nb u) = (d1, p1)"
    "lp_inv (((\<lambda>u. set (nb u))(u := {}))(u := set (nb u))) (S @ [u]) d1 p1"
    by (cases "foldl (lp_edge weight u) (dist, prev) (nb u)") auto
  have "((\<lambda>u. set (nb u))(u := {}))(u := set (nb u)) = (\<lambda>u. set (nb u))" by auto
  then have "lp_inv (\<lambda>u. set (nb u)) (S @ [u]) d1 p1" using f(2) by simp
  from Cons.IH [OF _ this, of "n + length (nb u)"] Cons.prems(1)
  show ?case using c edges [OF u(1)] f(1) by (simp add: lp_node_def)
qed simp

lemma lp_final:
  assumes "lp_inv (\<lambda>u. set (nb u)) order dist prev" "set order = (succs nb)\<^sup>* `` {s}"
  shows "map_of dist goal = Some c \<Longrightarrow> greatest_cost nb weight s goal c \<and>
      (\<exists>xs. walk_back prev s goal [goal] = Some (goal # xs) \<and> wwalk nb weight s (rev (goal # xs)) c)"
    and "map_of dist goal = None \<Longrightarrow> (s, goal) \<notin> (succs nb)\<^sup>*"
proof -
  have great: "\<exists>c'. map_of dist (last p) = Some c' \<and> c \<le> c'" if "wwalk nb weight s p c" for p c
    using that
  proof (induction rule: wwalk.induct)
    case (wwalk_step p c e)
    then obtain c' where c': "map_of dist (last p) = Some c'" "c \<le> c'" by blast
    have "last p \<in> set order" using wwalk_ends [OF wwalk_step.hyps(1)] assms(2) by blast
    then obtain c'' where "map_of dist (neighborId e) = Some c''" "c' + ecost (last p) e \<le> c''"
      using assms(1) wwalk_step.hyps(2) c'(1) by (force simp: lp_inv_def)
    with c'(2) show ?case by (intro exI [of _ c'']) (simp add: add_mono order_trans [OF add_right_mono])
  qed (use assms(1) in \<open>simp add: lp_inv_def\<close>)
  have known: "\<And>u. u \<in> set order \<Longrightarrow> map_of dist u \<noteq> None" and settled: "settled_order dist prev (rev order)"
    using assms(1) by (auto simp: lp_inv_def)
  show "map_of dist goal = None \<Longrightarrow> (s, goal) \<notin> (succs nb)\<^sup>*" using known assms(2) by blast
  assume c: "map_of dist goal = Some c"
  then have "explained dist prev (set order) goal" using assms(1) by (auto simp: lp_inv_def)
  from explained_walk [OF this c, of "[goal]"] settled_walk [OF settled] known
  obtain xs where xs: "walk_back prev s goal [goal] = Some ([goal] @ xs)" "wwalk nb weight s (rev (goal # xs)) c" by fastforce
  have "wcost nb weight s goal c" unfolding wcost_def using xs(2) by (intro exI [of _ "rev (goal # xs)"]) simp
  moreover have "c' \<le> c" if "wcost nb weight s goal c'" for c' using that great c by (fastforce simp: wcost_def)
  ultimately show "greatest_cost nb weight s goal c \<and>
      (\<exists>xs. walk_back prev s goal [goal] = Some (goal # xs) \<and> wwalk nb weight s (rev (goal # xs)) c)"
    using xs by (auto simp: greatest_cost_def)
qed

end

lemma longestPath_correct:
  fixes p d ls and weight :: "'w::linordered_idom edge_weight"
  assumes rd: "reading (expand p d ls) nb ok node" and start: "node start" "prov_hasNode p start"
    and fin: "finite ((succs nb)\<^sup>* `` {start})" "card ((succs nb)\<^sup>* `` {start}) \<le> n"
    and rs: "ok (newRunStats cache)" and w: "resolveWeightFn weightFn nodeWeightFn = Inr weight"
  shows "\<exists>cache' r. weightedLongestPath p start goal d ls weightFn nodeWeightFn n cache = Some (cache', r) \<and>
    (case r of
       Inl e \<Rightarrow> (\<exists>k w. e = GraphHasCycles k w) \<and>
           \<not> acyclic (succs nb \<inter> ((succs nb)\<^sup>* `` {start}) \<times> ((succs nb)\<^sup>* `` {start})) \<or>
         e = NoPath start goal \<and> (start, goal) \<notin> (succs nb)\<^sup>*
     | Inr t \<Rightarrow> greatest_cost nb weight start goal (cp_totalCost t) \<and> wwalk nb weight start (cp_path t) (cp_totalCost t) \<and>
         last (cp_path t) = goal)"
proof -
  let ?D = "(succs nb)\<^sup>* `` {start}"
  obtain cache' r where sort: "topologicalSort p [start] d ls n True True None cache = Some (cache', r)"
    and correct: "topo_correct nb ?D n True r"
    and edges: "\<And>t. r = Inr t \<Longrightarrow> \<exists>m. topo_neighborEdgeMap t = Some m \<and> (\<forall>u \<in> ?D. map_of m u = Some (nb u))"
    using topologicalSort_correct [OF rd, of "[start]" cache n True True None] start fin rs by auto
  have valid: "validateStart p start = Inr ()" using start(2) by (simp add: validateStart_def)
  show ?thesis
  proof (cases r)
    case (Inl e)
    then show ?thesis using sort correct w valid by (auto simp: weightedLongestPath_def topo_correct_def)
  next
    case (Inr t)
    obtain m where m: "topo_neighborEdgeMap t = Some m" "\<And>u. u \<in> ?D \<Longrightarrow> map_of m u = Some (nb u)" using edges [OF Inr] by blast
    have order: "topological_order (succs nb) ?D (topo_sorted t)" using correct Inr fin(2) by (auto simp: topo_correct_def)
    have "cost_tree.lp_inv nb weight start (\<lambda>u. set (nb u)) [] [(start, 0)] []"
      by (simp add: cost_tree.lp_inv_def cost_tree.explained_def cost_tree.settled_order.simps)
    from cost_tree.lp_nodes_inv [OF order refl m(2) _ this, of "topo_sorted t" 0]
    obtain dist prev k where f: "foldl (lp_node weight m) ([(start, 0)], [], 0) (topo_sorted t) = (dist, prev, k)"
      and inv: "cost_tree.lp_inv nb weight start (\<lambda>u. set (nb u)) (topo_sorted t) dist prev" by auto
    have set: "set (topo_sorted t) = ?D" using order by (simp add: topological_order_def)
    note final = cost_tree.lp_final [OF inv set, of goal]
    show ?thesis
    proof (cases "map_of dist goal")
      case None
      then show ?thesis using sort Inr w valid m(1) f final(2) by (simp add: weightedLongestPath_def)
    next
      case (Some c)
      from final(1) [OF this] obtain xs where xs: "greatest_cost nb weight start goal c"
        "walk_back prev start goal [goal] = Some (goal # xs)" "wwalk nb weight start (rev (goal # xs)) c" by blast
      then show ?thesis using Some sort Inr w valid m(1) f by (simp add: weightedLongestPath_def reconstructPath_def)
    qed
  qed
qed

section \<open>Levels\<close>

text \<open>A path of \<open>k\<close> edges ends in \<open>v\<close>, and no longer one does.\<close>

definition longest_level :: "(string \<Rightarrow> neighbor_edge list) \<Rightarrow> string set \<Rightarrow> string \<Rightarrow> nat \<Rightarrow> bool" where
  "longest_level nb D v k \<longleftrightarrow> (\<exists>u \<in> D. (u, v) \<in> succs nb ^^ k) \<and> (\<forall>u \<in> D. \<forall>j. (u, v) \<in> succs nb ^^ j \<longrightarrow> j \<le> k)"

context reading
begin

text \<open>\<open>X\<close> are the edges that were relaxed; the greatest level is the second component.\<close>

definition lev_inv :: "string set \<Rightarrow> (string \<times> string) set \<Rightarrow> (string, nat) jsmap \<Rightarrow> nat \<Rightarrow> bool" where
  "lev_inv D X m k \<longleftrightarrow>
     dom (map_of m) = D \<and>
     (\<forall>v l. map_of m v = Some l \<longrightarrow> l \<le> k \<and> (\<exists>u \<in> D. (u, v) \<in> succs nb ^^ l)) \<and>
     (D \<noteq> {} \<longrightarrow> k \<in> ran (map_of m) \<or> k = 0) \<and>
     (\<forall>(u, v) \<in> X. the (map_of m u) < the (map_of m v))"

lemma lev_invD:
  assumes "lev_inv D X m k"
  shows "dom (map_of m) = D" "map_of m v = Some l \<Longrightarrow> l \<le> k \<and> (\<exists>u \<in> D. (u, v) \<in> succs nb ^^ l)"
    "D \<noteq> {} \<Longrightarrow> k \<in> ran (map_of m) \<or> k = 0" "(u, v) \<in> X \<Longrightarrow> the (map_of m u) < the (map_of m v)"
    "v \<in> D \<Longrightarrow> \<exists>l. map_of m v = Some l"
proof -
  show d: "dom (map_of m) = D" using assms by (simp only: lev_inv_def)
  show "\<exists>l. map_of m v = Some l" if "v \<in> D"
  proof -
    have "v \<in> dom (map_of m)" using that d by (simp only:)
    then show ?thesis by (rule domD)
  qed
  show "map_of m v = Some l \<Longrightarrow> l \<le> k \<and> (\<exists>u \<in> D. (u, v) \<in> succs nb ^^ l)"
    "D \<noteq> {} \<Longrightarrow> k \<in> ran (map_of m) \<or> k = 0" "(u, v) \<in> X \<Longrightarrow> the (map_of m u) < the (map_of m v)"
    using assms unfolding lev_inv_def by blast+
qed

lemma level_edge_inv:
  assumes inv: "lev_inv D X m k" and u: "map_of m u = Some cl" "e \<in> set (nb u)"
    and v: "neighborId e \<in> D" "neighborId e \<noteq> u" "\<forall>(a, b) \<in> X. a \<noteq> neighborId e"
    and res: "level_edge cl (m, k) e = (m', k')"
  shows "lev_inv D (insert (u, neighborId e) X) m' k' \<and> map_of m' u = Some cl"
proof -
  let ?v = "neighborId e"
  note I = lev_invD [OF inv]
  obtain lv where lv: "map_of m ?v = Some lv" using I(5) v(1) by blast
  show ?thesis
  proof (cases "lv < cl + 1")
    case False
    then have "m' = m" "k' = k" using res lv by (simp_all add: level_edge_def)
    with False inv u(1) lv show ?thesis by (auto simp: lev_inv_def)
  next
    case True
    then have r: "m' = map_set m ?v (Suc cl)" "k' = max k (Suc cl)" using res lv by (auto simp: level_edge_def)
    obtain x where x: "x \<in> D" "(x, u) \<in> succs nb ^^ cl" using I(2) [OF u(1)] by blast
    have "(u, ?v) \<in> succs nb" using u(2) by (auto simp: succs_def)
    then have path: "(x, ?v) \<in> succs nb ^^ Suc cl" using x(2) by auto
    have same: "map_of m' a = map_of m a" if "a \<noteq> ?v" for a using that r by auto
    have new: "map_of m' ?v = Some (Suc cl)" using r by simp
    have "lev_inv D (insert (u, ?v) X) m' k'" unfolding lev_inv_def
    proof (intro conjI allI impI)
      show "dom (map_of m') = D" using I(1) v(1) r by auto
      show "l \<le> k'" if "map_of m' a = Some l" for a l
      proof (cases "a = ?v")
        case True
        then show ?thesis using that new r by simp
      next
        case False
        then have "map_of m a = Some l" using that same by simp
        then have "l \<le> k" using I(2) by blast
        then show ?thesis using r by simp
      qed
      show "\<exists>y \<in> D. (y, a) \<in> succs nb ^^ l" if "map_of m' a = Some l" for a l
      proof (cases "a = ?v")
        case True
        then show ?thesis using that new x(1) path by auto
      next
        case False
        then have "map_of m a = Some l" using that same by simp
        then show ?thesis using I(2) by blast
      qed
      have "k \<in> ran (map_of m')" if kr: "k \<in> ran (map_of m)" "Suc cl < k" for k
      proof -
        obtain a where a: "map_of m a = Some k" using kr(1) by (auto simp: ran_def)
        then have "a \<noteq> ?v" using kr(2) lv True by auto
        then show ?thesis using same a by (metis ranI)
      qed
      moreover have "Suc cl \<in> ran (map_of m')" using new by (rule ranI)
      moreover have "D \<noteq> {}" using v(1) by blast
      from I(3) [OF this] have "k \<in> ran (map_of m) \<or> k = 0" .
      ultimately show "k' \<in> ran (map_of m') \<or> k' = 0" using r(2) by (cases "Suc cl < k") (auto simp: max_def)
      show "\<forall>(a, b) \<in> insert (u, ?v) X. the (map_of m' a) < the (map_of m' b)"
      proof (rule ballI, clarify)
        fix a b assume ab: "(a, b) \<in> insert (u, ?v) X"
        show "the (map_of m' a) < the (map_of m' b)"
        proof (cases "(a, b) = (u, ?v)")
          case True
          then show ?thesis using new same v(2) u(1) by auto
        next
          case False
          then have x: "(a, b) \<in> X" using ab by blast
          then have lt: "the (map_of m a) < the (map_of m b)" by (rule I(4))
          have "a \<noteq> ?v" using x v(3) by blast
          then have a: "map_of m' a = map_of m a" by (rule same)
          show ?thesis
          proof (cases "b = ?v")
            case True
            then show ?thesis using lt a new lv \<open>lv < cl + 1\<close> by simp
          qed (use lt a same in simp)
        qed
      qed
    qed
    then show ?thesis using same v(2) u(1) by auto
  qed
qed

lemma level_edges_inv:
  assumes "lev_inv D X m k" "map_of m u = Some cl" "set es \<subseteq> set (nb u)"
    and "\<And>e. e \<in> set es \<Longrightarrow> neighborId e \<in> D \<and> neighborId e \<noteq> u \<and> (\<forall>(a, b) \<in> X. a \<noteq> neighborId e)"
  shows "case foldl (level_edge cl) (m, k) es of (m', k') \<Rightarrow> lev_inv D ((\<lambda>e. (u, neighborId e)) ` set es \<union> X) m' k'"
  using assms
proof (induction es arbitrary: X m k)
  case (Cons e es)
  obtain m1 k1 where s: "level_edge cl (m, k) e = (m1, k1)" by fastforce
  have step: "lev_inv D (insert (u, neighborId e) X) m1 k1 \<and> map_of m1 u = Some cl"
    by (rule level_edge_inv [OF Cons.prems(1,2) _ _ _ _ s]) (use Cons.prems(3,4) in auto)
  have "case foldl (level_edge cl) (m1, k1) es of (m', k') \<Rightarrow>
      lev_inv D ((\<lambda>e. (u, neighborId e)) ` set es \<union> insert (u, neighborId e) X) m' k'"
  proof (rule Cons.IH)
    show "lev_inv D (insert (u, neighborId e) X) m1 k1" "map_of m1 u = Some cl" using step by simp_all
    show "set es \<subseteq> set (nb u)" using Cons.prems(3) by simp
    fix f assume "f \<in> set es"
    then have "neighborId f \<in> D \<and> neighborId f \<noteq> u \<and> (\<forall>(a, b) \<in> X. a \<noteq> neighborId f)" using Cons.prems(4) by simp
    then show "neighborId f \<in> D \<and> neighborId f \<noteq> u \<and> (\<forall>(a, b) \<in> insert (u, neighborId e) X. a \<noteq> neighborId f)" by auto
  qed
  then show ?case by (simp add: s)
qed simp

lemma level_nodes_inv:
  assumes order: "topological_order (succs nb) D order" and D: "succs nb `` D \<subseteq> D" "\<And>v. v \<in> D \<Longrightarrow> node v"
  shows "order = S @ T \<Longrightarrow> lev_inv D {(u, v) \<in> succs nb. u \<in> set S} m k \<Longrightarrow> ok rs \<Longrightarrow>
    \<exists>m' k' rs'. foldl (level_node read) (m, k, rs) T = (m', k', rs') \<and> ok rs' \<and> lev_inv D {(u, v) \<in> succs nb. u \<in> D} m' k'"
proof (induction T arbitrary: S m k rs)
  case Nil
  then have "set S = D" using order by (simp add: topological_order_def)
  with Nil show ?case by simp
next
  case (Cons u T)
  have o: "topological_order (succs nb) D (S @ u # T)" using order Cons.prems(1) by simp
  have u: "u \<in> D" using o by (auto simp: topological_order_def)
  obtain rs1 where rd: "read u rs = (nb u, rs1)" "ok rs1"
    using read_nb [OF D(2) [OF u] Cons.prems(3)] read_ok [OF D(2) [OF u] Cons.prems(3)] by (metis prod.collapse)
  obtain cl where cl: "map_of m u = Some cl" using lev_invD(5) [OF Cons.prems(2) u] by blast
  have e: "neighborId e \<in> D \<and> neighborId e \<noteq> u \<and> (\<forall>(a, b) \<in> {(u, v) \<in> succs nb. u \<in> set S}. a \<noteq> neighborId e)"
    if "e \<in> set (nb u)" for e
  proof -
    have su: "(u, neighborId e) \<in> succs nb" using that by (auto simp: succs_def)
    then have "neighborId e \<in> D" using D(1) u by blast
    with topological_later [OF o su] show ?thesis by auto
  qed
  obtain m1 k1 where f: "foldl (level_edge cl) (m, k) (nb u) = (m1, k1)" by fastforce
  have X: "(\<lambda>e. (u, neighborId e)) ` set (nb u) \<union> {(u, v) \<in> succs nb. u \<in> set S} = {(a, b) \<in> succs nb. a \<in> set (S @ [u])}"
    by (auto simp: succs_def)
  have "lev_inv D {(a, b) \<in> succs nb. a \<in> set (S @ [u])} m1 k1"
    using level_edges_inv [OF Cons.prems(2) cl order_refl e] f X by simp
  from Cons.IH [OF _ this rd(2)] Cons.prems(1) show ?case using rd(1) cl f by (simp add: level_node_def)
qed

lemma levels_final:
  assumes "lev_inv D {(u, v) \<in> succs nb. u \<in> D} m k" "succs nb `` D \<subseteq> D"
  shows "v \<in> D \<Longrightarrow> \<exists>l. map_of m v = Some l \<and> l \<le> k \<and> longest_level nb D v l"
    and "D \<noteq> {} \<Longrightarrow> \<exists>v \<in> D. map_of m v = Some k"
proof -
  note I = lev_invD [OF assms(1)]
  have path: "v \<in> D \<and> j \<le> the (map_of m v)" if "u \<in> D" "(u, v) \<in> succs nb ^^ j" for u v j
    using that(2)
  proof (induction j arbitrary: v)
    case 0
    then show ?case using that(1) by simp
  next
    case (Suc j)
    then obtain y where y: "(u, y) \<in> succs nb ^^ j" "(y, v) \<in> succs nb" by (elim relpow_Suc_E)
    from Suc.IH [OF y(1)] have "y \<in> D" "j \<le> the (map_of m y)" by simp_all
    moreover have "the (map_of m y) < the (map_of m v)" using I(4) [of y v] y(2) \<open>y \<in> D\<close> by blast
    ultimately show ?case using y(2) assms(2) by auto
  qed
  show "\<exists>l. map_of m v = Some l \<and> l \<le> k \<and> longest_level nb D v l" if v: "v \<in> D" for v
  proof -
    obtain l where l: "map_of m v = Some l" using I(5) v by blast
    moreover have "l \<le> k \<and> (\<exists>u \<in> D. (u, v) \<in> succs nb ^^ l)" by (rule I(2) [OF l])
    moreover have "j \<le> l" if "u \<in> D" "(u, v) \<in> succs nb ^^ j" for u j
      using path [OF that] l by simp
    ultimately show ?thesis unfolding longest_level_def by blast
  qed
  assume "D \<noteq> {}"
  then obtain x where x: "x \<in> D" by blast
  show "\<exists>v \<in> D. map_of m v = Some k"
  proof (cases "k \<in> ran (map_of m)")
    case True
    then obtain v where v: "map_of m v = Some k" by (auto simp: ran_def)
    then have "v \<in> D" using I(1) by (metis domI)
    with v show ?thesis by blast
  next
    case False
    then have "k = 0" using I(3) x by blast
    moreover obtain l where "map_of m x = Some l" using I(5) x by blast
    moreover from this have "l \<le> k" using I(2) by blast
    ultimately show ?thesis using x by auto
  qed
qed

end

lemma zero_levels: "map_of (foldl (\<lambda>m v. if map_of m v = None then map_set m v 0 else m) m vs) v =
  (if map_of m v = None \<and> v \<in> set vs then Some (0::nat) else map_of m v)"
  by (induction vs arbitrary: m) auto

lemma levels_correct:
  fixes p d ls
  assumes rd: "reading (expand p d ls) nb ok node"
    and starts: "\<And>s. s \<in> set start \<Longrightarrow> node s" "\<And>s. s \<in> set start \<Longrightarrow> prov_hasNode p s"
    and fin: "finite ((succs nb)\<^sup>* `` set start)" and rs: "ok (newRunStats cache)"
    and again: "\<And>rs. ok rs \<Longrightarrow> ok (newRunStats (neighborCache rs))"
    and limit: "card ((succs nb)\<^sup>* `` set start) \<le> n"
  defines "D \<equiv> (succs nb)\<^sup>* `` set start"
  shows "\<exists>cache' r. levels p start d ls n cache = Some (cache', r) \<and>
    (case r of
       Inl e \<Rightarrow> (\<exists>k w. e = GraphHasCycles k w) \<and> \<not> acyclic (succs nb \<inter> D \<times> D)
     | Inr t \<Rightarrow> (\<forall>v \<in> D. \<exists>l. map_of (level_map t) v = Some l \<and> l \<le> level_max t \<and> longest_level nb D v l) \<and>
         (D \<noteq> {} \<longrightarrow> (\<exists>v \<in> D. map_of (level_map t) v = Some (level_max t))))"
proof -
  obtain cache' r rs1 where sort: "topologicalSort p start d ls n True False None cache = Some (cache', r)"
    and correct: "topo_correct nb D n True r" and c': "ok rs1" "cache' = neighborCache rs1"
    using topologicalSort_correct [OF rd starts fin rs, of n True False None] unfolding D_def by auto
  show ?thesis
  proof (cases r)
    case (Inl e)
    then show ?thesis using sort correct by (auto simp: levels_def topo_correct_def)
  next
    case (Inr t)
    have order: "topological_order (succs nb) D (topo_sorted t)"
      using correct Inr limit by (auto simp: topo_correct_def D_def)
    have closed: "succs nb `` D \<subseteq> D" unfolding D_def by (auto intro: rtrancl_into_rtrancl)
    have nodes: "node v" if "v \<in> D" for v
      using reading.node_reachable [OF rd, of start v] starts(1) that by (auto simp: D_def)
    let ?m = "foldl (\<lambda>m v. if map_of m v = None then map_set m v (0::nat) else m) [] (topo_sorted t)"
    have set: "set (topo_sorted t) = D" using order by (simp add: topological_order_def)
    have m: "map_of ?m v = (if v \<in> D then Some 0 else None)" for v using zero_levels [of "[]" "topo_sorted t" v] set by simp
    have "reading.lev_inv nb D {(u, v) \<in> succs nb. u \<in> set []} ?m 0"
      unfolding reading.lev_inv_def [OF rd] dom_def m by auto
    from reading.level_nodes_inv [OF rd order closed nodes _ this again [OF c'(1)], of "topo_sorted t"]
    obtain m' k' rs' where f: "foldl (level_node (expand p d ls)) (?m, 0, newRunStats cache') (topo_sorted t) = (m', k', rs')"
      "reading.lev_inv nb D {(u, v) \<in> succs nb. u \<in> D} m' k'" using c'(2) by auto
    note final = reading.levels_final [OF rd f(2) closed]
    have "levels p start d ls n cache = Some (neighborCache rs', Inr \<lparr>level_map = m', level_max = k',
        level_stats = stats (length (topo_sorted t)) rs'\<rparr>)"
      using sort Inr f(1) by (simp add: levels_def)
    with final show ?thesis by simp
  qed
qed

end
