(* ===== verification/ClosureLaws.thy ===== *)
theory ClosureLaws
  imports Closure DagLaws
begin

text \<open>
  What \<open>transitiveReduction\<close> and \<open>transitiveClosure\<close> of \<open>src/domain/services/GraphTraversal.js\<close> return:
  the reduction of an acyclic graph keeps exactly the edges that no longer path implies, and still
  reaches the same nodes; the closure lists the reachable pairs of distinct nodes, and refuses
  exactly when there are too many of them.
\<close>

section \<open>Marking neighbours\<close>

lemma mark_new_fold:
  "foldl mark_new (visited, queue) es = (visited', queue') \<Longrightarrow>
   set visited' = set visited \<union> neighborId ` set es \<and> set queue' = set queue \<union> (neighborId ` set es - set visited) \<and>
   (distinct visited \<longrightarrow> distinct visited')"
proof (induction es arbitrary: visited queue)
  case (Cons e es)
  obtain v1 q1 where s: "mark_new (visited, queue) e = (v1, q1)" by fastforce
  then have "set v1 = insert (neighborId e) (set visited)" "set q1 = set queue \<union> ({neighborId e} - set visited)"
    "distinct visited \<longrightarrow> distinct v1"
    by (auto simp: mark_new_def set_add_def split: if_splits)
  moreover have "foldl mark_new (v1, q1) es = (visited', queue')" using Cons.prems s by simp
  ultimately show ?case using Cons.IH [of v1 q1] by auto
qed simp

lemma succs_sing: "succs nb `` {v} = neighborId ` set (nb v)"
  by (auto simp: succs_def)

lemma rtrancl_step_image: "R\<^sup>* `` (A \<union> R `` B) = R\<^sup>* `` A" if "B \<subseteq> A"
  using that by (auto intro: converse_rtrancl_into_rtrancl)

lemma reach_twice: "v \<in> R\<^sup>* `` (R `` (R `` {u})) \<longleftrightarrow> (\<exists>w. (u, w) \<in> R \<and> (w, v) \<in> R\<^sup>+)"
  unfolding trancl_unfold_left by blast

lemma reach_within: "R `` D \<subseteq> D \<Longrightarrow> (u, v) \<in> R\<^sup>+ \<Longrightarrow> u \<in> D \<Longrightarrow> (u, v) \<in> (R \<inter> D \<times> D)\<^sup>+ \<and> v \<in> D"
proof -
  assume D: "R `` D \<subseteq> D" and "(u, v) \<in> R\<^sup>+" "u \<in> D"
  from this(2,3) show ?thesis
  proof (induction rule: trancl_induct)
    case (step y z)
    then have "(y, z) \<in> R \<inter> D \<times> D" using D by blast
    with step show ?case by (auto intro: trancl_into_trancl)
  qed (use D in auto)
qed

section \<open>The memoised successors\<close>

context reading
begin

definition fetched_ok :: "'r fetched \<Rightarrow> bool" where
  "fetched_ok fs \<longleftrightarrow> ok (snd fs) \<and> (\<forall>v es. map_of (fst fs) v = Some es \<longrightarrow> es = nb v)"

lemma successors:
  assumes "node v" "fetched_ok fs"
  shows "\<exists>fs'. getSuccessorEdges read v fs = (nb v, fs') \<and> fetched_ok fs'"
proof -
  obtain m rs where fs: "fs = (m, rs)" by (cases fs)
  have "ok rs" using assms(2) fs by (simp add: fetched_ok_def)
  then obtain rs1 where rd: "read v rs = (nb v, rs1)" "ok rs1"
    using read_nb [OF assms(1)] read_ok [OF assms(1)] by (metis prod.collapse)
  show ?thesis using assms(2) rd fs
    by (cases "map_of m v") (auto simp: getSuccessorEdges_def fetched_ok_def)
qed

text \<open>The search from the grandchildren of a node \<open>u\<close>.\<close>

lemma tr_children:
  assumes "foldl (tr_child read) (direct, vis, frontier, fs) es = (direct', vis', frontier', fs')"
    "fetched_ok fs" "\<And>e. e \<in> set es \<Longrightarrow> node (neighborId e)"
  shows "set direct' = set direct \<union> neighborId ` set es \<and> set vis' = set vis \<union> succs nb `` (neighborId ` set es) \<and>
    (set frontier = set vis \<longrightarrow> set frontier' = set vis') \<and> fetched_ok fs'"
  using assms
proof (induction es arbitrary: direct vis frontier fs)
  case (Cons e es)
  have kid: "node (neighborId e)" using Cons.prems(3) by simp
  obtain fs1 where s: "getSuccessorEdges read (neighborId e) fs = (nb (neighborId e), fs1)" "fetched_ok fs1"
    using successors [OF kid Cons.prems(2)] by blast
  obtain v1 f1 where m: "foldl mark_new (vis, frontier) (nb (neighborId e)) = (v1, f1)" by fastforce
  note M = mark_new_fold [OF m]
  have "tr_child read (direct, vis, frontier, fs) e = (set_add direct (neighborId e), v1, f1, fs1)"
    using s(1) m by (simp add: tr_child_def)
  with Cons.prems(1) have "foldl (tr_child read) (set_add direct (neighborId e), v1, f1, fs1) es = (direct', vis', frontier', fs')"
    by (simp only: foldl_Cons)
  from Cons.IH [OF this s(2)] Cons.prems(3) M succs_sing [of nb "neighborId e"] show ?case
    by (auto simp: set_add_def)
qed auto

lemma tr_steps:
  assumes "foldl (tr_step read u direct) (red, vis, next', fs) xs = (red', vis', next'', fs')"
    "fetched_ok fs" "set xs \<subseteq> Collect node"
  shows "set red' = set red \<union> redundant_key u ` (set xs \<inter> set direct) \<and> set vis' = set vis \<union> succs nb `` set xs \<and>
    set next'' = set next' \<union> (succs nb `` set xs - set vis) \<and> fetched_ok fs'"
  using assms
proof (induction xs arbitrary: red vis next' fs)
  case (Cons x xs)
  obtain fs1 where s: "getSuccessorEdges read x fs = (nb x, fs1)" "fetched_ok fs1"
    using successors [OF _ Cons.prems(2), of x] Cons.prems(3) by auto
  obtain v1 n1 where m: "foldl mark_new (vis, next') (nb x) = (v1, n1)" by fastforce
  note M = mark_new_fold [OF m]
  let ?red = "if x \<in> set direct then set_add red (redundant_key u x) else red"
  have "tr_step read u direct (red, vis, next', fs) x = (?red, v1, n1, fs1)" using s(1) m by (simp add: tr_step_def)
  with Cons.prems(1) have "foldl (tr_step read u direct) (?red, v1, n1, fs1) xs = (red', vis', next'', fs')"
    by (simp only: foldl_Cons)
  from Cons.IH [OF this s(2)] Cons.prems(3) have I: "set red' = set ?red \<union> redundant_key u ` (set xs \<inter> set direct)"
    "set vis' = set v1 \<union> succs nb `` set xs" "set next'' = set n1 \<union> (succs nb `` set xs - set v1)" "fetched_ok fs'" by auto
  have "succs nb `` set (x # xs) = neighborId ` set (nb x) \<union> succs nb `` set xs" using succs_sing [of nb x] by auto
  then show ?case using I M by (auto simp: set_add_def)
qed auto

lemma tr_search_finds:
  assumes "finite D" "D \<subseteq> Collect node" "succs nb `` D \<subseteq> D"
    and "set vis = P \<union> set frontier" "set vis \<subseteq> D" "succs nb `` P \<subseteq> set vis" "fetched_ok fs"
    and "set red = red0 \<union> redundant_key u ` (P \<inter> set direct)"
  shows "\<exists>red' fs'. tr_search read u direct red vis frontier fs = Some (red', fs') \<and> fetched_ok fs' \<and>
    set red' = red0 \<union> redundant_key u ` ((succs nb)\<^sup>* `` set vis \<inter> set direct)"
  using assms(4-8)
proof (induction "2 * (card D - card (set vis)) + (if frontier = [] then 0 else 1)" arbitrary: vis P frontier fs red rule: less_induct)
  case less
  show ?case
  proof (cases "frontier = []")
    case True
    then have closed: "succs nb `` set vis \<subseteq> set vis" "P = set vis" using less.prems by auto
    have "(succs nb)\<^sup>* `` set vis = set vis" using closed(1) by (rule Image_closed_trancl)
    moreover have "set red = red0 \<union> redundant_key u ` (set vis \<inter> set direct)" using less.prems(5) unfolding closed(2) .
    moreover have "tr_search read u direct red vis frontier fs = Some (red, fs)" using True by (subst tr_search.simps) simp
    ultimately show ?thesis using less.prems(4) by simp
  next
    case False
    obtain red1 vis1 next1 fs1 where f: "foldl (tr_step read u direct) (red, vis, [], fs) frontier = (red1, vis1, next1, fs1)"
      by (metis prod_cases4)
    have fr: "set frontier \<subseteq> D" using less.prems(1,2) by auto
    then have "set frontier \<subseteq> Collect node" using assms(2) by blast
    note S = tr_steps [OF f less.prems(4) this]
    have new: "set vis1 = set vis \<union> succs nb `` set frontier" "set next1 = succs nb `` set frontier - set vis" "fetched_ok fs1"
      "set red1 = set red \<union> redundant_key u ` (set frontier \<inter> set direct)" using S by auto
    have sub: "set vis1 \<subseteq> D" using new(1) less.prems(2) fr assms(3) by blast
    have less_measure: "2 * (card D - card (set vis1)) + (if next1 = [] then 0 else 1) <
        2 * (card D - card (set vis)) + (if frontier = [] then 0 else 1)"
    proof (cases "next1 = []")
      case True
      then have "succs nb `` set frontier \<subseteq> set vis" using new(2) by simp
      then have "set vis1 = set vis" unfolding new(1) by blast
      with True False show ?thesis by simp
    next
      case nonempty: False
      then obtain y where "y \<in> set next1" by (cases next1) auto
      then have "y \<in> succs nb `` set frontier" "y \<notin> set vis" using new(2) by simp_all
      then have "set vis \<subset> set vis1" unfolding new(1) by blast
      then have "card (set vis) < card (set vis1)" by (simp add: psubset_card_mono)
      moreover have "card (set vis1) \<le> card D" using sub assms(1) by (rule card_mono [rotated])
      ultimately show ?thesis using False by auto
    qed
    have "\<exists>red' fs'. tr_search read u direct red1 vis1 next1 fs1 = Some (red', fs') \<and> fetched_ok fs' \<and>
        set red' = red0 \<union> redundant_key u ` ((succs nb)\<^sup>* `` set vis1 \<inter> set direct)"
    proof (rule less.hyps [OF less_measure])
      show "set vis1 = set vis \<union> set next1" unfolding new(1,2) by blast
      show "set vis1 \<subseteq> D" by (rule sub)
      show "succs nb `` set vis \<subseteq> set vis1" unfolding new(1) using less.prems(1,3) by blast
      show "fetched_ok fs1" by (rule new(3))
      show "set red1 = red0 \<union> redundant_key u ` (set vis \<inter> set direct)"
        unfolding new(4) less.prems(5) less.prems(1) by blast
    qed
    moreover have "(succs nb)\<^sup>* `` set vis1 = (succs nb)\<^sup>* `` set vis"
      unfolding new(1) by (rule rtrancl_step_image) (use less.prems(1) in blast)
    moreover have "tr_search read u direct red vis frontier fs = tr_search read u direct red1 vis1 next1 fs1"
      using False f by (subst tr_search.simps) simp
    ultimately show ?thesis by simp
  qed
qed

text \<open>The edges that a longer path implies.\<close>

definition implied :: "(string \<times> string) set \<Rightarrow> string \<Rightarrow> string \<Rightarrow> bool" where
  "implied R u v \<longleftrightarrow> (u, v) \<in> R \<and> (\<exists>w. (u, w) \<in> R \<and> (w, v) \<in> R\<^sup>+)"

lemma tr_node_finds:
  assumes D: "finite D" "D \<subseteq> Collect node" "succs nb `` D \<subseteq> D" "acyclic (succs nb \<inter> D \<times> D)" and u: "u \<in> D"
    and fs: "fetched_ok fs"
  shows "\<exists>red' fs'. tr_node read u (red, fs) = Some (red', fs') \<and> fetched_ok fs' \<and>
    set red' = set red \<union> redundant_key u ` {v. implied (succs nb) u v}"
proof -
  let ?R = "succs nb"
  have "node u" using D(2) u by blast
  then obtain fs1 where s: "getSuccessorEdges read u fs = (nb u, fs1)" "fetched_ok fs1" using successors fs by blast
  have children: "neighborId ` set (nb u) = ?R `` {u}" by (simp add: succs_sing)
  show ?thesis
  proof (cases "length (nb u) \<le> 1")
    case True
    have "\<not> implied ?R u v" for v
    proof
      assume "implied ?R u v"
      then obtain w where w: "(u, v) \<in> ?R" "(u, w) \<in> ?R" "(w, v) \<in> ?R\<^sup>+" by (auto simp: implied_def)
      have "w = v" using w(1,2) True by (cases "nb u"; cases "tl (nb u)") (auto simp: succs_def)
      then have "(v, v) \<in> ?R\<^sup>+" "v \<in> D" using w D(3) u by auto
      then show False using reach_within [OF D(3)] D(4) by (auto simp: acyclic_def)
    qed
    then show ?thesis using True s by (simp add: tr_node_def)
  next
    case False
    obtain direct vis frontier fs2 where c: "foldl (tr_child read) ([], [], [], fs1) (nb u) = (direct, vis, frontier, fs2)"
      by (metis prod_cases4)
    have kids: "node (neighborId e)" if "e \<in> set (nb u)" for e by (rule node_nb [OF \<open>node u\<close> that])
    note C = tr_children [OF c s(2) kids]
    have sets: "set direct = ?R `` {u}" "set vis = ?R `` (?R `` {u})" "set frontier = set vis" "fetched_ok fs2"
      using C children by auto
    have "set vis \<subseteq> D" using sets(2) D(3) u by blast
    then obtain red' fs' where r: "tr_search read u direct red vis frontier fs2 = Some (red', fs')" "fetched_ok fs'"
      "set red' = set red \<union> redundant_key u ` (?R\<^sup>* `` set vis \<inter> set direct)"
      using tr_search_finds [OF D(1-3), of vis "{}" frontier fs2 red "set red" u direct] sets by auto
    have "?R\<^sup>* `` set vis \<inter> set direct = {v. implied ?R u v}"
      unfolding sets implied_def by (auto simp: reach_twice)
    then show ?thesis using r False s c by (simp add: tr_node_def)
  qed
qed

lemma tr_nodes_find:
  assumes D: "finite D" "D \<subseteq> Collect node" "succs nb `` D \<subseteq> D" "acyclic (succs nb \<inter> D \<times> D)"
  shows "set us \<subseteq> D \<Longrightarrow> fetched_ok fs \<Longrightarrow>
    \<exists>red' fs'. tr_nodes read us (red, fs) = Some (red', fs') \<and> fetched_ok fs' \<and>
      set red' = set red \<union> {redundant_key u v |u v. u \<in> set us \<and> implied (succs nb) u v}"
proof (induction us arbitrary: red fs)
  case (Cons u us)
  have "u \<in> D" using Cons.prems(1) by simp
  from tr_node_finds [OF D this Cons.prems(2), of red] obtain red1 fs1 where
    n: "tr_node read u (red, fs) = Some (red1, fs1)" "fetched_ok fs1"
      "set red1 = set red \<union> redundant_key u ` {v. implied (succs nb) u v}" by blast
  have "set us \<subseteq> D" using Cons.prems(1) by simp
  from Cons.IH [OF this n(2), of red1] obtain red' fs' where
    r: "tr_nodes read us (red1, fs1) = Some (red', fs')" "fetched_ok fs'"
      "set red' = set red1 \<union> {redundant_key u v |u v. u \<in> set us \<and> implied (succs nb) u v}" by blast
  have "set red' = set red \<union> {redundant_key w v |w v. w \<in> set (u # us) \<and> implied (succs nb) w v}"
    unfolding r(3) n(3) by auto
  with n(1) r(1,2) show ?case by simp
qed simp

lemma tr_collect_edges:
  assumes "foldl (tr_collect read red) ((edges, k), fs) us = ((edges', k'), fs')" "fetched_ok fs" "set us \<subseteq> Collect node"
  shows "set edges' = set edges \<union> {\<lparr>fe_from = u, fe_to = neighborId e, fe_label = edge_label e\<rparr> |u e.
      u \<in> set us \<and> e \<in> set (nb u) \<and> redundant_key u (neighborId e) \<notin> set red}"
  using assms
proof (induction us arbitrary: edges k fs)
  case (Cons u us)
  have "node u" using Cons.prems(3) by simp
  from successors [OF this Cons.prems(2)] obtain fs1 where
    s: "getSuccessorEdges read u fs = (nb u, fs1)" "fetched_ok fs1" by blast
  obtain e1 k1 where f: "foldl (tr_edge red u) (edges, k) (nb u) = (e1, k1)" by fastforce
  have fold: "set (fst (foldl (tr_edge red u) acc es)) = set (fst acc) \<union>
      {\<lparr>fe_from = u, fe_to = neighborId e, fe_label = edge_label e\<rparr> |e. e \<in> set es \<and> redundant_key u (neighborId e) \<notin> set red}"
    for acc and es :: "neighbor_edge list"
    by (induction es arbitrary: acc) (auto simp: tr_edge_def split: prod.splits if_splits)
  have e1: "set e1 = set edges \<union> {\<lparr>fe_from = u, fe_to = neighborId e, fe_label = edge_label e\<rparr> |e. e \<in> set (nb u) \<and> redundant_key u (neighborId e) \<notin> set red}"
    using fold [of "(edges, k)" "nb u"] f by simp
  have "tr_collect read red ((edges, k), fs) u = ((e1, k1), fs1)" using s(1) f by (simp add: tr_collect_def)
  with Cons.prems(1) have "foldl (tr_collect read red) ((e1, k1), fs1) us = ((edges', k'), fs')" by (simp only: foldl_Cons)
  from Cons.IH [OF this s(2)] Cons.prems(3) show ?case unfolding e1 by auto
qed simp

end

section \<open>The reduction reaches the same nodes\<close>

definition reduced :: "(string \<times> string) set \<Rightarrow> string set \<Rightarrow> (string \<times> string) set" where
  "reduced R D = {(u, v) \<in> R. u \<in> D \<and> \<not> (\<exists>w. (u, w) \<in> R \<and> (w, v) \<in> R\<^sup>+)}"

lemma reduced_reaches:
  assumes "topological_order R D order" "R `` D \<subseteq> D"
  shows "(reduced R D)\<^sup>+ = (R \<inter> D \<times> D)\<^sup>+"
proof
  have "reduced R D \<subseteq> R \<inter> D \<times> D" using assms(2) by (auto simp: reduced_def)
  then show "(reduced R D)\<^sup>+ \<subseteq> (R \<inter> D \<times> D)\<^sup>+" by (rule trancl_mono_subset)
  define pos where "pos v = (SOME i. i < length order \<and> order ! i = v)" for v
  have pos: "pos v < length order \<and> order ! pos v = v" if "v \<in> D" for v
  proof -
    have "\<exists>i. i < length order \<and> order ! i = v" using assms(1) that by (metis in_set_conv_nth topological_order_def)
    then show ?thesis unfolding pos_def by (rule someI_ex)
  qed
  have up: "pos u < pos v" if "(u, v) \<in> R \<inter> D \<times> D" for u v
    using that pos [of u] pos [of v] assms(1) by (auto simp: topological_order_def)
  have ups: "pos u < pos v" if "(u, v) \<in> (R \<inter> D \<times> D)\<^sup>+" for u v
    using that
  proof (induction rule: trancl_induct)
    case (base y)
    then show ?case by (rule up)
  next
    case (step y z)
    then show ?case using up [OF step.hyps(2)] by simp
  qed
  have edge: "(u, v) \<in> (reduced R D)\<^sup>+" if "(u, v) \<in> R \<inter> D \<times> D" for u v
    using that
  proof (induction "pos v - pos u" arbitrary: u v rule: less_induct)
    case less
    show ?case
    proof (cases "\<exists>w. (u, w) \<in> R \<and> (w, v) \<in> R\<^sup>+")
      case False
      then show ?thesis using less.prems by (auto simp: reduced_def)
    next
      case True
      then obtain w where w: "(u, w) \<in> R" "(w, v) \<in> R\<^sup>+" by blast
      have "w \<in> D" using w(1) less.prems assms(2) by blast
      have uw: "(u, w) \<in> R \<inter> D \<times> D" using w(1) less.prems \<open>w \<in> D\<close> by blast
      have wv: "(w, v) \<in> (R \<inter> D \<times> D)\<^sup>+" using reach_within [OF assms(2) w(2) \<open>w \<in> D\<close>] by blast
      have first: "(u, w) \<in> (reduced R D)\<^sup>+"
        by (rule less.hyps [OF _ uw]) (use up [OF uw] ups [OF wv] in simp)
      have "(w, v) \<in> (reduced R D)\<^sup>+"
      proof -
        have "(w, y) \<in> (reduced R D)\<^sup>+" if "(w, y) \<in> (R \<inter> D \<times> D)\<^sup>+" "pos y \<le> pos v" for y
          using that
        proof (induction rule: trancl_induct)
          case (base y)
          then show ?case using less.hyps [OF _ base(1)] up [OF uw] up [OF base(1)] by simp
        next
          case (step y z)
          have "pos w < pos y" by (rule ups [OF step.hyps(1)])
          have "pos y < pos z" by (rule up [OF step.hyps(2)])
          have "(w, y) \<in> (reduced R D)\<^sup>+" using step.IH \<open>pos y < pos z\<close> step.prems by simp
          moreover have "(y, z) \<in> (reduced R D)\<^sup>+"
            by (rule less.hyps [OF _ step.hyps(2)])
              (use up [OF uw] \<open>pos w < pos y\<close> \<open>pos y < pos z\<close> step.prems in simp)
          ultimately show ?case by (rule trancl_trans)
        qed
        from this [OF wv] show ?thesis by simp
      qed
      with first show ?thesis by (rule trancl_trans)
    qed
  qed
  show "(R \<inter> D \<times> D)\<^sup>+ \<subseteq> (reduced R D)\<^sup>+"
  proof
    fix x assume "x \<in> (R \<inter> D \<times> D)\<^sup>+"
    then obtain u v where "x = (u, v)" "(u, v) \<in> (R \<inter> D \<times> D)\<^sup>+" by (cases x) auto
    from this(2) have "(u, v) \<in> (reduced R D)\<^sup>+"
    proof (induction rule: trancl_induct)
      case (base y)
      then show ?case by (rule edge)
    next
      case (step y z)
      then show ?case using edge [OF step.hyps(2)] by (meson trancl_trans)
    qed
    then show "x \<in> (reduced R D)\<^sup>+" using \<open>x = (u, v)\<close> by simp
  qed
qed

lemma redundant_key_inj: "plain_id u \<Longrightarrow> plain_id u' \<Longrightarrow> redundant_key u v = redundant_key u' v' \<longleftrightarrow> u = u' \<and> v = v'"
  by (simp add: redundant_key_def plain_id_def append_sep_inj)

lemma reduction_correct:
  fixes p d ls
  assumes rd: "reading (expand p d ls) nb ok node"
    and starts: "\<And>s. s \<in> set start \<Longrightarrow> node s" "\<And>s. s \<in> set start \<Longrightarrow> prov_hasNode p s"
    and fin: "finite ((succs nb)\<^sup>* `` set start)" and rs: "ok (newRunStats cache)"
    and again: "\<And>rs. ok rs \<Longrightarrow> ok (newRunStats (neighborCache rs))"
    and limit: "card ((succs nb)\<^sup>* `` set start) \<le> n"
    and plain: "\<And>v. v \<in> (succs nb)\<^sup>* `` set start \<Longrightarrow> plain_id v"
  defines "D \<equiv> (succs nb)\<^sup>* `` set start"
  shows "\<exists>cache' r. transitiveReduction p start d ls n cache = Some (cache', r) \<and>
    (case r of
       Inl e \<Rightarrow> (\<exists>k w. e = GraphHasCycles k w) \<and> \<not> acyclic (succs nb \<inter> D \<times> D)
     | Inr t \<Rightarrow> set (red_edges t) = {\<lparr>fe_from = u, fe_to = neighborId e, fe_label = edge_label e\<rparr> |u e.
           u \<in> D \<and> e \<in> set (nb u) \<and> (u, neighborId e) \<in> reduced (succs nb) D} \<and>
         (reduced (succs nb) D)\<^sup>+ = (succs nb \<inter> D \<times> D)\<^sup>+)"
proof -
  obtain cache' r rs1 where sort: "topologicalSort p start d ls n True False None cache = Some (cache', r)"
    and correct: "topo_correct nb D n True r" and c': "ok rs1" "cache' = neighborCache rs1"
    using topologicalSort_correct [OF rd starts fin rs, of n True False None] unfolding D_def by auto
  show ?thesis
  proof (cases r)
    case (Inl e)
    then show ?thesis using sort correct by (auto simp: transitiveReduction_def topo_correct_def)
  next
    case (Inr t)
    have order: "topological_order (succs nb) D (topo_sorted t)"
      using correct Inr limit by (auto simp: topo_correct_def D_def)
    then have set: "set (topo_sorted t) = D" by (simp add: topological_order_def)
    have closed: "succs nb `` D \<subseteq> D" unfolding D_def by (auto intro: rtrancl_into_rtrancl)
    have nodes: "D \<subseteq> Collect node" using reading.node_reachable [OF rd, of start] starts(1) by (auto simp: D_def)
    have finD: "finite D" using fin by (simp add: D_def)
    have fs: "reading.fetched_ok nb ok ([], newRunStats cache')"
      using again [OF c'(1)] c'(2) by (simp add: reading.fetched_ok_def [OF rd])
    from reading.tr_nodes_find [OF rd finD nodes closed topological_acyclic [OF order] _ fs, of "topo_sorted t" "[]"] set
    obtain red fs' where n: "tr_nodes (expand p d ls) (topo_sorted t) ([], [], newRunStats cache') = Some (red, fs')"
      "reading.fetched_ok nb ok fs'"
      "set red = {redundant_key u v |u v. u \<in> D \<and> reading.implied (succs nb) u v}" by auto
    obtain edges k fs2 where c: "foldl (tr_collect (expand p d ls) red) (([], 0), fs') (topo_sorted t) = ((edges, k), fs2)"
      by (metis prod.exhaust)
    have key: "redundant_key u v \<in> set red \<longleftrightarrow> reading.implied (succs nb) u v" if "u \<in> D" for u v
    proof
      assume "redundant_key u v \<in> set red"
      then obtain u' v' where k: "redundant_key u v = redundant_key u' v'" "u' \<in> D" "reading.implied (succs nb) u' v'"
        unfolding n(3) by blast
      have "plain_id u" "plain_id u'" using that k(2) plain by (simp_all add: D_def)
      with k show "reading.implied (succs nb) u v" by (simp add: redundant_key_inj)
    qed (use that in \<open>auto simp: n(3)\<close>)
    have edge: "redundant_key u (neighborId e) \<notin> set red \<longleftrightarrow> (u, neighborId e) \<in> reduced (succs nb) D" if "u \<in> D" "e \<in> set (nb u)" for u e
      using that by (auto simp: key [OF that(1)] reading.implied_def [OF rd] reduced_def succs_def)
    have "set edges = {\<lparr>fe_from = u, fe_to = neighborId e, fe_label = edge_label e\<rparr> |u e.
           u \<in> D \<and> e \<in> set (nb u) \<and> (u, neighborId e) \<in> reduced (succs nb) D}"
    proof -
      have "set edges = {\<lparr>fe_from = u, fe_to = neighborId e, fe_label = edge_label e\<rparr> |u e.
          u \<in> D \<and> e \<in> set (nb u) \<and> redundant_key u (neighborId e) \<notin> set red}"
        using reading.tr_collect_edges [OF rd c n(2)] nodes set by simp
      also have "\<dots> = {\<lparr>fe_from = u, fe_to = neighborId e, fe_label = edge_label e\<rparr> |u e.
          u \<in> D \<and> e \<in> set (nb u) \<and> (u, neighborId e) \<in> reduced (succs nb) D}"
        using edge by blast
      finally show ?thesis .
    qed
    moreover obtain m rs2 where "fs2 = (m, rs2)" by (cases fs2)
    then have "transitiveReduction p start d ls n cache = Some (neighborCache rs2,
        Inr \<lparr>red_edges = sort_by full_edge_cmp edges, red_removed = k, red_stats = stats (length (topo_sorted t)) rs2\<rparr>)"
      using sort Inr n(1) c by (simp add: transitiveReduction_def)
    ultimately show ?thesis using reduced_reaches [OF order closed] by simp
  qed
qed

section \<open>The closure\<close>

context reading
begin

lemma tc_discover_finds:
  assumes "r = read" "finite D" "D \<subseteq> Collect node" "succs nb `` D \<subseteq> D"
    and "set vis = P \<union> set queue" "set vis \<subseteq> D" "succs nb `` P \<subseteq> set vis" "distinct vis" "ok rs" "D \<subseteq> (succs nb)\<^sup>* `` set vis"
  shows "case tc_discover r n vis queue rs of (vis', rs') \<Rightarrow>
    distinct vis' \<and> set vis' \<subseteq> D \<and> ok rs' \<and> (card D \<le> n \<longrightarrow> set vis' = D)"
  using assms
proof (induction r n vis queue rs arbitrary: P rule: tc_discover.induct)
  case (1 r n vis rs)
  have "P = set vis" using "1.prems"(5) by simp
  then have "succs nb `` set vis \<subseteq> set vis" using "1.prems"(7) by simp
  then have "(succs nb)\<^sup>* `` set vis = set vis" by (rule Image_closed_trancl)
  then have "set vis = D" using "1.prems"(6,10) by blast
  then show ?case using "1.prems"(8,9) by simp
next
  case (2 r n vis v queue rs)
  show ?case
  proof (cases "length vis \<ge> n")
    case True
    have "set vis = D" if "card D \<le> n"
      using card_seteq [OF "2.prems"(2,6)] True that "2.prems"(8) by (simp add: distinct_card)
    then show ?thesis using True "2.prems"(6,8,9) by simp
  next
    case False
    have v: "v \<in> D" using "2.prems"(5,6) by auto
    then have "node v" using "2.prems"(3) by blast
    then obtain rs1 where rd: "read v rs = (nb v, rs1)" "ok rs1"
      using read_nb [OF _ "2.prems"(9)] read_ok [OF _ "2.prems"(9)] by (metis prod.collapse)
    obtain vis1 queue1 where m: "foldl mark_new (vis, queue) (nb v) = (vis1, queue1)" by fastforce
    note M = mark_new_fold [OF m]
    have sets: "set vis1 = set vis \<union> succs nb `` {v}" "set queue1 = set queue \<union> (succs nb `` {v} - set vis)" "distinct vis1"
      using M "2.prems"(8) by (simp_all add: succs_sing)
    have "case tc_discover r n vis1 queue1 rs1 of (vis', rs') \<Rightarrow>
        distinct vis' \<and> set vis' \<subseteq> D \<and> ok rs' \<and> (card D \<le> n \<longrightarrow> set vis' = D)"
    proof (rule "2.IH" [OF False _ refl _ refl "2.prems"(1-4), where P = "insert v P"])
      show "(nb v, rs1) = r v rs" using rd(1) "2.prems"(1) by simp
      show "(vis1, queue1) = foldl mark_new (vis, queue) (nb v)" using m by simp
      show "set vis1 = insert v P \<union> set queue1" unfolding sets(1,2) "2.prems"(5) by auto
      have "succs nb `` {v} \<subseteq> D" using v "2.prems"(4) by blast
      then show "set vis1 \<subseteq> D" unfolding sets(1) using "2.prems"(6) by blast
      show "succs nb `` insert v P \<subseteq> set vis1" unfolding sets(1) using "2.prems"(7) by blast
      show "distinct vis1" "ok rs1" by (rule sets(3)) (rule rd(2))
      have "(succs nb)\<^sup>* `` set vis \<subseteq> (succs nb)\<^sup>* `` set vis1" unfolding sets(1) by blast
      then show "D \<subseteq> (succs nb)\<^sup>* `` set vis1" using "2.prems"(10) by blast
    qed
    then show ?thesis using False rd(1) m "2.prems"(1) by simp
  qed
qed

lemma tc_targets_find:
  "case tc_targets n st es of
     Inr st' \<Rightarrow> \<exists>new. distinct new \<and> set new = neighborId ` set es - set (tc_visited st) \<and>
       set (tc_visited st') = set (tc_visited st) \<union> neighborId ` set es \<and> tc_next st' = tc_next st @ new \<and>
       tc_reachable st' = tc_reachable st @ new \<and> tc_count st' = tc_count st + length new \<and> tc_run st' = tc_run st
   | Inl e \<Rightarrow> e = MaxEdgesExceeded n \<and> (\<exists>new. distinct new \<and> set new \<subseteq> neighborId ` set es - set (tc_visited st) \<and>
       n < tc_count st + length new)"
proof (induction es arbitrary: st)
  case (Cons e es)
  let ?v = "neighborId e"
  show ?case
  proof (cases "?v \<in> set (tc_visited st)")
    case True
    then have "neighborId ` set (e # es) - set (tc_visited st) = neighborId ` set es - set (tc_visited st)"
      "set (tc_visited st) \<union> neighborId ` set (e # es) = set (tc_visited st) \<union> neighborId ` set es" by auto
    with Cons [of st] True show ?thesis by (simp only: tc_targets.simps if_True)
  next
    case False
    let ?st = "st\<lparr>tc_visited := set_add (tc_visited st) ?v, tc_next := tc_next st @ [?v],
      tc_reachable := tc_reachable st @ [?v], tc_count := tc_count st + 1\<rparr>"
    have vis: "set (tc_visited ?st) = insert ?v (set (tc_visited st))" by (simp add: set_add_def insert_absorb)
    show ?thesis
    proof (cases "tc_count ?st > n")
      case True
      have "distinct [?v] \<and> set [?v] \<subseteq> neighborId ` set (e # es) - set (tc_visited st) \<and> n < tc_count st + length [?v]"
        using False True by simp
      then have "\<exists>new. distinct new \<and> set new \<subseteq> neighborId ` set (e # es) - set (tc_visited st) \<and> n < tc_count st + length new" by blast
      then show ?thesis using False True by (simp add: Let_def)
    next
      case small: False
      have r: "tc_targets n st (e # es) = tc_targets n ?st es" using False small by (simp add: Let_def)
      show ?thesis
      proof (cases "tc_targets n ?st es")
        case (Inl x)
        with Cons [of ?st] obtain new where new: "x = MaxEdgesExceeded n" "distinct new"
          "set new \<subseteq> neighborId ` set es - set (tc_visited ?st)" "n < tc_count ?st + length new" by auto
        then have "distinct (?v # new) \<and> set (?v # new) \<subseteq> neighborId ` set (e # es) - set (tc_visited st) \<and>
            n < tc_count st + length (?v # new)" using False vis by auto
        then have "\<exists>new. distinct new \<and> set new \<subseteq> neighborId ` set (e # es) - set (tc_visited st) \<and> n < tc_count st + length new" by blast
        then show ?thesis unfolding r Inl using new(1) by simp
      next
        case (Inr st')
        with Cons [of ?st] obtain new where new: "distinct new" "set new = neighborId ` set es - set (tc_visited ?st)"
          "set (tc_visited st') = set (tc_visited ?st) \<union> neighborId ` set es" "tc_next st' = tc_next ?st @ new"
          "tc_reachable st' = tc_reachable ?st @ new" "tc_count st' = tc_count ?st + length new" "tc_run st' = tc_run ?st" by auto
        have "distinct (?v # new) \<and> set (?v # new) = neighborId ` set (e # es) - set (tc_visited st) \<and>
            set (tc_visited st') = set (tc_visited st) \<union> neighborId ` set (e # es) \<and> tc_next st' = tc_next st @ (?v # new) \<and>
            tc_reachable st' = tc_reachable st @ (?v # new) \<and> tc_count st' = tc_count st + length (?v # new) \<and> tc_run st' = tc_run st"
          using new False vis by auto
        then show ?thesis unfolding r Inr by auto
      qed
    qed
  qed
qed simp

text \<open>The search from one source \<open>u\<close>: \<open>P\<close> are the nodes that were expanded, \<open>c\<close> the edges before it.\<close>

definition tc_inv :: "string set \<Rightarrow> string \<Rightarrow> nat \<Rightarrow> string set \<Rightarrow> 'r tc_state \<Rightarrow> bool" where
  "tc_inv D u c P st \<longleftrightarrow>
     u \<in> D \<and> set (tc_visited st) = insert u (set (tc_reachable st)) \<and> u \<notin> set (tc_reachable st) \<and> distinct (tc_reachable st) \<and>
     set (tc_reachable st) \<subseteq> (succs nb)\<^sup>* `` {u} \<and> succs nb `` P \<subseteq> set (tc_visited st) \<and>
     tc_count st = c + length (tc_reachable st) \<and> ok (tc_run st)"

lemma tc_inv_next [simp]: "tc_inv D u c P (st\<lparr>tc_next := vs\<rparr>) \<longleftrightarrow> tc_inv D u c P st"
  by (simp add: tc_inv_def)

definition reach_pairs :: "string \<Rightarrow> string set" where
  "reach_pairs u = (succs nb)\<^sup>* `` {u} - {u}"

lemma tc_too_many:
  assumes "tc_inv D u c P st" "finite D" "succs nb `` D \<subseteq> D" "v \<in> set (tc_visited st)"
    and new: "distinct new" "set new \<subseteq> succs nb `` {v} - set (tc_visited st)" "n < tc_count st + length new"
  shows "n < c + card (reach_pairs u)"
proof -
  have I: "u \<in> D" "set (tc_visited st) = insert u (set (tc_reachable st))" "u \<notin> set (tc_reachable st)" "distinct (tc_reachable st)"
    "set (tc_reachable st) \<subseteq> (succs nb)\<^sup>* `` {u}" "tc_count st = c + length (tc_reachable st)"
    using assms(1) by (simp_all add: tc_inv_def)
  have "(succs nb)\<^sup>* `` {u} \<subseteq> D"
    using I(1) assms(3) by (metis Image_closed_trancl Image_mono empty_subsetI insert_subset order_refl)
  then have fin: "finite (reach_pairs u)" unfolding reach_pairs_def using assms(2) finite_subset by blast
  have "(u, v) \<in> (succs nb)\<^sup>*" using assms(4) I(2,5) by auto
  then have "set new \<subseteq> (succs nb)\<^sup>* `` {u}" using new(2) by (auto intro: rtrancl_into_rtrancl)
  then have "set (tc_reachable st @ new) \<subseteq> reach_pairs u" using I(2,3,5) new(2) by (auto simp: reach_pairs_def)
  moreover have "distinct (tc_reachable st @ new)" using I(2,4) new(1,2) by auto
  ultimately have "length (tc_reachable st @ new) \<le> card (reach_pairs u)" using fin by (metis card_mono distinct_card)
  then show ?thesis using new(3) I(6) by simp
qed

lemma tc_node_step:
  assumes inv: "tc_inv D u c P st" and D: "finite D" "D \<subseteq> Collect node" "succs nb `` D \<subseteq> D" and v: "v \<in> set (tc_visited st)"
  shows "case tc_node read n st v of
      Inl e \<Rightarrow> e = MaxEdgesExceeded n \<and> n < c + card (reach_pairs u)
    | Inr st' \<Rightarrow> tc_inv D u c (insert v P) st' \<and>
        (\<exists>new. tc_next st' = tc_next st @ new \<and> set (tc_visited st') = set (tc_visited st) \<union> set new)"
proof -
  have I: "u \<in> D" "set (tc_visited st) = insert u (set (tc_reachable st))" "u \<notin> set (tc_reachable st)" "distinct (tc_reachable st)"
    "set (tc_reachable st) \<subseteq> (succs nb)\<^sup>* `` {u}" "succs nb `` P \<subseteq> set (tc_visited st)" "tc_count st = c + length (tc_reachable st)"
    "ok (tc_run st)" using inv unfolding tc_inv_def by blast+
  have uv: "(u, v) \<in> (succs nb)\<^sup>*" using v I(2,5) by auto
  have "(succs nb)\<^sup>* `` {u} \<subseteq> D"
    using I(1) D(3) by (metis Image_closed_trancl Image_mono empty_subsetI insert_subset order_refl)
  then have "node v" using uv D(2) by blast
  then obtain rs where rd: "read v (tc_run st) = (nb v, rs)" "ok rs"
    using read_nb [OF _ I(8)] read_ok [OF _ I(8)] by (metis prod.collapse)
  let ?st = "st\<lparr>tc_run := rs\<rparr>"
  have r: "tc_node read n st v = tc_targets n ?st (nb v)" using rd(1) by (simp add: tc_node_def)
  have kids: "neighborId ` set (nb v) = succs nb `` {v}" by (simp add: succs_sing)
  show ?thesis
  proof (cases "tc_targets n ?st (nb v)")
    case (Inl e)
    with tc_targets_find [where n = n and st = ?st and es = "nb v"] obtain new where "e = MaxEdgesExceeded n" "distinct new"
      "set new \<subseteq> succs nb `` {v} - set (tc_visited st)" "n < tc_count st + length new" by (auto simp: kids)
    with tc_too_many [OF inv D(1,3) v this(2-4)] show ?thesis unfolding r Inl by simp
  next
    case (Inr st')
    with tc_targets_find [where n = n and st = ?st and es = "nb v"] obtain new where new: "distinct new" "set new = succs nb `` {v} - set (tc_visited st)"
      "set (tc_visited st') = set (tc_visited st) \<union> succs nb `` {v}" "tc_next st' = tc_next st @ new"
      "tc_reachable st' = tc_reachable st @ new" "tc_count st' = tc_count st + length new" "tc_run st' = rs" by (auto simp: kids)
    have vis: "set (tc_visited st') = set (tc_visited st) \<union> set new" using new(2,3) by blast
    have "set new \<subseteq> (succs nb)\<^sup>* `` {u}" using new(2) uv by (auto intro: rtrancl_into_rtrancl)
    then have "tc_inv D u c (insert v P) st'" unfolding tc_inv_def
      using I new rd(2) vis by auto
    then show ?thesis unfolding r Inr using new(4) vis by auto
  qed
qed

lemma tc_nodes_step:
  assumes D: "finite D" "D \<subseteq> Collect node" "succs nb `` D \<subseteq> D"
  shows "tc_inv D u c P st \<Longrightarrow> set vs \<subseteq> set (tc_visited st) \<Longrightarrow>
    (case fold_r (tc_node read n) st vs of
       Inl e \<Rightarrow> e = MaxEdgesExceeded n \<and> n < c + card (reach_pairs u)
     | Inr st' \<Rightarrow> tc_inv D u c (P \<union> set vs) st' \<and>
         (\<exists>new. tc_next st' = tc_next st @ new \<and> set (tc_visited st') = set (tc_visited st) \<union> set new))"
proof (induction vs arbitrary: st P)
  case (Cons v vs)
  have v: "v \<in> set (tc_visited st)" using Cons.prems(2) by simp
  note step = tc_node_step [OF Cons.prems(1) D v, of n]
  show ?case
  proof (cases "tc_node read n st v")
    case (Inl e)
    with step show ?thesis by simp
  next
    case (Inr st1)
    with step obtain new1 where s1: "tc_inv D u c (insert v P) st1" "tc_next st1 = tc_next st @ new1"
      "set (tc_visited st1) = set (tc_visited st) \<union> set new1" by auto
    have "set vs \<subseteq> set (tc_visited st1)" using Cons.prems(2) s1(3) by auto
    note ih = Cons.IH [OF s1(1) this]
    show ?thesis
    proof (cases "fold_r (tc_node read n) st1 vs")
      case (Inl e)
      with ih Inr show ?thesis by simp
    next
      case r: (Inr st2)
      with ih obtain new2 where s2: "tc_inv D u c (insert v P \<union> set vs) st2" "tc_next st2 = tc_next st1 @ new2"
        "set (tc_visited st2) = set (tc_visited st1) \<union> set new2" by auto
      have "insert v P \<union> set vs = P \<union> set (v # vs)" by auto
      then have "tc_inv D u c (P \<union> set (v # vs)) st2" using s2(1) by simp
      moreover have "tc_next st2 = tc_next st @ (new1 @ new2)" "set (tc_visited st2) = set (tc_visited st) \<union> set (new1 @ new2)"
        using s1(2,3) s2(2,3) by auto
      ultimately show ?thesis using Inr r by auto
    qed
  qed
qed simp

lemma tc_loop_finds:
  assumes "r = read" and D: "finite D" "D \<subseteq> Collect node" "succs nb `` D \<subseteq> D"
    and "tc_inv D u c P st" "set (tc_visited st) = P \<union> set (tc_next st)"
  shows "case tc_loop r n st of
      Inl e \<Rightarrow> e = MaxEdgesExceeded n \<and> n < c + card (reach_pairs u)
    | Inr st' \<Rightarrow> set (tc_reachable st') = reach_pairs u \<and> distinct (tc_reachable st') \<and>
        tc_count st' = c + card (reach_pairs u) \<and> ok (tc_run st')"
  using assms(1,5,6)
proof (induction r n st arbitrary: P rule: tc_loop.induct)
  case (1 r n st)
  show ?case
  proof (cases "tc_next st = []")
    case True
    have I: "set (tc_visited st) = insert u (set (tc_reachable st))" "u \<notin> set (tc_reachable st)" "distinct (tc_reachable st)"
      "set (tc_reachable st) \<subseteq> (succs nb)\<^sup>* `` {u}" "succs nb `` P \<subseteq> set (tc_visited st)" "tc_count st = c + length (tc_reachable st)"
      "ok (tc_run st)" using "1.prems"(2) unfolding tc_inv_def by blast+
    have "P = set (tc_visited st)" using "1.prems"(3) True by simp
    then have "succs nb `` set (tc_visited st) \<subseteq> set (tc_visited st)" using I(5) by simp
    then have "(succs nb)\<^sup>* `` set (tc_visited st) = set (tc_visited st)" by (rule Image_closed_trancl)
    then have "(succs nb)\<^sup>* `` {u} \<subseteq> set (tc_visited st)" using I(1) by blast
    then have eq: "set (tc_reachable st) = reach_pairs u" using I(1,2,4) by (auto simp: reach_pairs_def)
    moreover have "length (tc_reachable st) = card (reach_pairs u)" using I(3) unfolding eq [symmetric] by (simp add: distinct_card)
    ultimately show ?thesis using True I by (subst tc_loop.simps) simp
  next
    case False
    let ?st = "st\<lparr>tc_next := []\<rparr>"
    have "tc_inv D u c P ?st" using "1.prems"(2) by simp
    moreover have "set (tc_next st) \<subseteq> set (tc_visited ?st)" using "1.prems"(3) by simp
    ultimately have S: "case fold_r (tc_node read n) ?st (tc_next st) of
       Inl e \<Rightarrow> e = MaxEdgesExceeded n \<and> n < c + card (reach_pairs u)
     | Inr st' \<Rightarrow> tc_inv D u c (P \<union> set (tc_next st)) st' \<and>
         (\<exists>new. tc_next st' = tc_next ?st @ new \<and> set (tc_visited st') = set (tc_visited ?st) \<union> set new)"
      by (rule tc_nodes_step [OF D])
    show ?thesis
    proof (cases "fold_r (tc_node read n) ?st (tc_next st)")
      case (Inl e)
      with S False "1.prems"(1) show ?thesis by (subst tc_loop.simps) simp
    next
      case (Inr st1)
      with S have s1: "tc_inv D u c (P \<union> set (tc_next st)) st1" "set (tc_visited st1) = set (tc_visited st) \<union> set (tc_next st1)"
        by auto
      have "set (tc_visited st1) = (P \<union> set (tc_next st)) \<union> set (tc_next st1)" using s1(2) "1.prems"(3) by simp
      from "1.IH" [OF False _ "1.prems"(1) s1(1) this] Inr "1.prems"(1)
      have "case tc_loop r n st1 of
          Inl e \<Rightarrow> e = MaxEdgesExceeded n \<and> n < c + card (reach_pairs u)
        | Inr st' \<Rightarrow> set (tc_reachable st') = reach_pairs u \<and> distinct (tc_reachable st') \<and>
            tc_count st' = c + card (reach_pairs u) \<and> ok (tc_run st')" by simp
      moreover have "tc_loop r n st = tc_loop r n st1" using False Inr "1.prems"(1) by (subst tc_loop.simps) simp
      ultimately show ?thesis by simp
    qed
  qed
qed

lemma tc_sources_find:
  assumes D: "finite D" "D \<subseteq> Collect node" "succs nb `` D \<subseteq> D"
  shows "set us \<subseteq> D \<Longrightarrow> ok rs \<Longrightarrow>
    (case fold_r (tc_source read n) (edges, c, rs) us of
       Inl e \<Rightarrow> e = MaxEdgesExceeded n \<and> n < c + sum_list (map (\<lambda>u. card (reach_pairs u)) us)
     | Inr (edges', c', rs') \<Rightarrow> set edges' = set edges \<union> {(u, v). u \<in> set us \<and> v \<in> reach_pairs u} \<and>
         c' = c + sum_list (map (\<lambda>u. card (reach_pairs u)) us) \<and> ok rs')"
proof (induction us arbitrary: edges c rs)
  case (Cons u us)
  let ?st = "\<lparr>tc_visited = [u], tc_next = [u], tc_reachable = [], tc_count = c, tc_run = rs\<rparr>"
  have "tc_inv D u c {} ?st" using Cons.prems by (simp add: tc_inv_def)
  from tc_loop_finds [OF refl D this, of n] have L: "case tc_loop read n ?st of
      Inl e \<Rightarrow> e = MaxEdgesExceeded n \<and> n < c + card (reach_pairs u)
    | Inr st' \<Rightarrow> set (tc_reachable st') = reach_pairs u \<and> distinct (tc_reachable st') \<and>
        tc_count st' = c + card (reach_pairs u) \<and> ok (tc_run st')" by simp
  show ?case
  proof (cases "tc_loop read n ?st")
    case (Inl e)
    with L show ?thesis by (simp add: tc_source_def)
  next
    case (Inr st')
    let ?edges = "edges @ map (\<lambda>to. (u, to)) (sort_by str_cmp (tc_reachable st'))"
    have s: "tc_source read n (edges, c, rs) u = Inr (?edges, tc_count st', tc_run st')" using Inr by (simp add: tc_source_def)
    have st': "set (tc_reachable st') = reach_pairs u" "tc_count st' = c + card (reach_pairs u)" "ok (tc_run st')"
      using L Inr by simp_all
    have "set us \<subseteq> D" using Cons.prems(1) by simp
    note ih = Cons.IH [OF this st'(3), where edges = ?edges and c = "tc_count st'"]
    have "set ?edges \<union> {(u, v). u \<in> set us \<and> v \<in> reach_pairs u} = set edges \<union> {(w, v). w \<in> set (u # us) \<and> v \<in> reach_pairs w}"
      using st'(1) by auto
    with ih s st'(2) show ?thesis by (simp split: sum.splits prod.splits)
  qed
qed auto

end

lemma closure_correct:
  fixes p d ls
  assumes rd: "reading (expand p d ls) nb ok node"
    and starts: "\<And>s. s \<in> set start \<Longrightarrow> node s" "\<And>s. s \<in> set start \<Longrightarrow> prov_hasNode p s"
    and fin: "finite ((succs nb)\<^sup>* `` set start)" and rs: "ok (newRunStats cache)"
    and limit: "card ((succs nb)\<^sup>* `` set start) \<le> n"
  defines "D \<equiv> (succs nb)\<^sup>* `` set start"
  defines "pairs \<equiv> {(u, v). u \<in> D \<and> (u, v) \<in> (succs nb)\<^sup>* \<and> u \<noteq> v}"
  shows "case transitiveClosure p start d ls n maxEdges cache of
      Inl e \<Rightarrow> e = MaxEdgesExceeded maxEdges \<and> maxEdges < card pairs
    | Inr (cache', t) \<Rightarrow> set (clo_edges t) = pairs"
proof -
  have closed: "succs nb `` D \<subseteq> D" unfolding D_def by (auto intro: rtrancl_into_rtrancl)
  have nodes: "D \<subseteq> Collect node" using reading.node_reachable [OF rd, of start] starts(1) by (auto simp: D_def)
  have finD: "finite D" using fin by (simp add: D_def)
  have valid: "validateStarts p (set_of start) = Inr ()" using starts(2) by (simp add: validateStarts_ok)
  have init: "set (set_of start) = {} \<union> set (set_of start)" "set (set_of start) \<subseteq> D" "succs nb `` {} \<subseteq> set (set_of start)"
    "distinct (set_of start)" "D \<subseteq> (succs nb)\<^sup>* `` set (set_of start)" by (auto simp: D_def)
  obtain vis rs1 where d: "tc_discover (expand p d ls) n (set_of start) (set_of start) (newRunStats cache) = (vis, rs1)" by fastforce
  have vis: "distinct vis" "set vis = D" "ok rs1"
    using reading.tc_discover_finds [OF rd refl finD nodes closed init(1-4) rs init(5), of n] d limit by (auto simp: D_def)
  let ?list = "sort_by str_cmp vis"
  have prep: "prepareTransitiveClosure p start d ls n (newRunStats cache) = (Inr (?list, length vis), rs1)"
    using valid d by (simp add: prepareTransitiveClosure_def)
  have sub: "set ?list \<subseteq> D" using vis(2) by simp
  have pairs: "pairs = {(u, v). u \<in> set ?list \<and> v \<in> reading.reach_pairs nb u}"
    using vis(2) by (auto simp: pairs_def reading.reach_pairs_def [OF rd])
  have finr: "finite (reading.reach_pairs nb u)" if "u \<in> D" for u
  proof -
    have "(succs nb)\<^sup>* `` {u} \<subseteq> D" using that closed by (metis Image_closed_trancl Image_mono empty_subsetI insert_subset order_refl)
    then show ?thesis using finD finite_subset unfolding reading.reach_pairs_def [OF rd] by blast
  qed
  have "card pairs = (\<Sum>u \<in> D. card (reading.reach_pairs nb u))"
  proof -
    have "pairs = (SIGMA u:D. reading.reach_pairs nb u)" using pairs vis(2) by auto
    then show ?thesis using finD finr by simp
  qed
  also have "\<dots> = sum_list (map (\<lambda>u. card (reading.reach_pairs nb u)) ?list)"
    using vis(1,2) by (simp add: sum_list_distinct_conv_sum_set)
  finally have card: "card pairs = sum_list (map (\<lambda>u. card (reading.reach_pairs nb u)) ?list)" .
  note S = reading.tc_sources_find [OF rd finD nodes closed sub vis(3), where n = maxEdges and edges = "[]" and c = 0]
  show ?thesis
  proof (cases "fold_r (tc_source (expand p d ls) maxEdges) ([], 0, rs1) ?list")
    case (Inl e)
    with S prep card show ?thesis by (simp add: transitiveClosure_def streamTransitiveClosureEdges_def)
  next
    case (Inr r)
    obtain edges c rs2 where r: "r = (edges, c, rs2)" by (metis prod_cases3)
    have "set edges = pairs" using S Inr r pairs by simp
    then show ?thesis using prep Inr r by (simp add: transitiveClosure_def streamTransitiveClosureEdges_def)
  qed
qed

end
