(* ===== verification/BidirectionalLaws.thy ===== *)
theory BidirectionalLaws
  imports WeightLaws
begin

text \<open>
  Optimality of \<open>bidirectionalAStar\<close> of \<open>src/domain/services/GraphTraversal.js\<close>. Each side keeps the
  invariant of a one-sided search, the backward side on the reversed graph; the loop stops when
  every waiting node of both sides is at least as far as the best total, so the best total is the
  least cost. The forward heuristic must not be positive at the goal.
\<close>

section \<open>Reversed walks\<close>

lemma reversed_walk:
  assumes "wwalk nbi (\<lambda>u v l. weight v u l) goal q b"
    and conv: "\<And>u v l. NeighborEdge v l \<in> set (nbi u) \<Longrightarrow> NeighborEdge u l \<in> set (nbo v)"
    and "wwalk nbo weight s p a" "last p = last q"
  shows "wwalk nbo weight s (p @ tl (rev q)) (a + b)"
  using assms(1,3,4)
proof (induction arbitrary: p a rule: wwalk.induct)
  case wwalk_start
  then show ?case by simp
next
  case (wwalk_step q b e)
  let ?u = "last q"
  obtain v l where e: "e = NeighborEdge v l" by (cases e)
  have q: "q \<noteq> []" using wwalk_ends [OF wwalk_step.hyps(1)] by blast
  have "NeighborEdge ?u l \<in> set (nbo v)" using conv wwalk_step.hyps(2) e by simp
  then have "wwalk nbo weight s (p @ [?u]) (a + weight v ?u l)"
    using wwalk.wwalk_step [OF wwalk_step.prems(1), of "NeighborEdge ?u l"] wwalk_step.prems(2) e by simp
  from wwalk_step.IH [OF this] have "wwalk nbo weight s ((p @ [?u]) @ tl (rev q)) (a + weight v ?u l + b)" by simp
  moreover have "rev q = ?u # tl (rev q)" using q by (metis hd_Cons_tl hd_rev rev_is_Nil_conv)
  ultimately show ?case by (simp add: e algebra_simps)
qed

lemma walk_map_eq: "walk_back m s v path = Some r \<Longrightarrow> walk_map m s v path = Some r"
proof (erule walk_back.raw_induct [where P = "\<lambda>m s v path r. walk_map m s v path = Some r", rotated])
  fix f m s v path r
  assume "\<And>m s v path r. f m s v path = Some r \<Longrightarrow> walk_map m s v path = Some r"
    "(if v \<noteq> s then case map_of m v of None \<Rightarrow> Some path | Some pred \<Rightarrow> f m s pred (path @ [pred]) else Some path) = Some r"
  then show "walk_map m s v path = Some r"
    by (subst walk_map.simps) (auto split: if_splits option.splits)
qed

section \<open>The two sides and the best total\<close>

definition best_inv :: "(string, 'w::linordered_idom) jsmap \<Rightarrow> (string, 'w) jsmap \<Rightarrow> 'w bi_best \<Rightarrow> bool" where
  "best_inv g g' best \<longleftrightarrow>
     (\<forall>v a b. map_of g v = Some a \<longrightarrow> map_of g' v = Some b \<longrightarrow> (\<exists>mu. bb_mu best = Some mu \<and> mu \<le> a + b)) \<and>
     (case bb_meeting best of
        None \<Rightarrow> bb_mu best = None
      | Some m \<Rightarrow> \<exists>a b. map_of g m = Some a \<and> map_of g' m = Some b \<and> bb_mu best = Some (a + b))"

lemma best_inv_sym: "best_inv g g' best \<Longrightarrow> best_inv g' g best"
  unfolding best_inv_def by (fastforce simp: add.commute split: option.splits)

lemma meet_le: "\<exists>mu. bb_mu (meet b v c) = Some mu \<and> mu \<le> c" "bb_mu b = Some mu \<Longrightarrow> \<exists>mu'. bb_mu (meet b v c) = Some mu' \<and> mu' \<le> mu"
  by (auto simp: meet_def split: option.splits)

lemma meet_cases: "meet b v c = b \<or> bb_meeting (meet b v c) = Some v \<and> bb_mu (meet b v c) = Some c"
  by (simp add: meet_def)

lemma meet_again:
  assumes "best_inv g g' best" "map_of g v = Some a" "map_of g' v = Some b"
  shows "best_inv g g' (meet best v (a + b))"
proof -
  have "\<exists>mu. bb_mu (meet best v (a + b)) = Some mu \<and> mu \<le> a' + b'" if "map_of g x = Some a'" "map_of g' x = Some b'" for x a' b'
    using assms(1) that meet_le(2) [of best _ v "a + b"] unfolding best_inv_def by (meson order_trans)
  moreover have "case bb_meeting (meet best v (a + b)) of None \<Rightarrow> bb_mu (meet best v (a + b)) = None
      | Some m \<Rightarrow> \<exists>a' b'. map_of g m = Some a' \<and> map_of g' m = Some b' \<and> bb_mu (meet best v (a + b)) = Some (a' + b')"
    using meet_cases [of best v "a + b"] assms by (auto simp: best_inv_def split: option.splits)
  ultimately show ?thesis unfolding best_inv_def by blast
qed

lemma meet_update:
  assumes inv: "best_inv g g' best" and le: "\<And>c. map_of g v = Some c \<Longrightarrow> alt \<le> c"
  shows "best_inv (map_set g v alt) g' (case map_of g' v of None \<Rightarrow> best | Some b \<Rightarrow> meet best v (alt + b))"
proof (cases "map_of g' v")
  case None
  with inv show ?thesis unfolding best_inv_def by (auto split: option.splits if_splits)
next
  case (Some b)
  let ?best = "meet best v (alt + b)"
  have "\<exists>mu. bb_mu ?best = Some mu \<and> mu \<le> a' + b'" if xy: "map_of (map_set g v alt) x = Some a'" "map_of g' x = Some b'" for x a' b'
  proof (cases "x = v")
    case True
    with xy Some meet_le(1) [of best v "alt + b"] show ?thesis by simp
  next
    case False
    then have "map_of g x = Some a'" using xy(1) by simp
    with xy(2) inv obtain mu where "bb_mu best = Some mu" "mu \<le> a' + b'" unfolding best_inv_def by blast
    with meet_le(2) [of best mu v "alt + b"] show ?thesis by (meson order_trans)
  qed
  moreover have "case bb_meeting ?best of None \<Rightarrow> bb_mu ?best = None
      | Some m \<Rightarrow> \<exists>a' b'. map_of (map_set g v alt) m = Some a' \<and> map_of g' m = Some b' \<and> bb_mu ?best = Some (a' + b')"
  proof (cases "bb_meeting ?best = Some v \<and> bb_mu ?best = Some (alt + b)")
    case True
    with Some show ?thesis by simp
  next
    case False
    then have same: "?best = best" using meet_cases by blast
    show ?thesis
    proof (cases "bb_meeting best")
      case None
      with inv same show ?thesis by (simp add: best_inv_def)
    next
      case m: (Some m)
      with inv have "\<exists>a b. map_of g m = Some a \<and> map_of g' m = Some b \<and> bb_mu best = Some (a + b)"
        by (simp add: best_inv_def)
      then obtain a' b' where ab: "map_of g m = Some a'" "map_of g' m = Some b'" "bb_mu best = Some (a' + b')" by blast
      have "alt = a'" if "m = v"
        using le [of a'] meet_le(1) [of best v "alt + b"] ab Some that unfolding same by auto
      with ab m same show ?thesis by auto
    qed
  qed
  ultimately have "best_inv (map_set g v alt) g' ?best" unfolding best_inv_def by blast
  then show ?thesis by (simp add: Some)
qed

context weighted
begin

lemma bi_edge_inv:
  assumes inv: "dj_inv X (bs_g side) (bs_pred side) (bs_visited side) (bs_heap side)" "best_inv (bs_g side) og best"
    and cur: "current \<in> set (bs_visited side)" "e \<in> set (nb current)"
    and hh: "(\<lambda>v. hh v t) = h" "(\<lambda>u v l. if dir = In then w v u l else w u v l) = weight"
  shows "case bi_edge w hh t dir og current (side, best) e of (side', best') \<Rightarrow>
    dj_inv (X(current := insert e (X current))) (bs_g side') (bs_pred side') (bs_visited side') (bs_heap side') \<and>
    best_inv (bs_g side') og best' \<and> bs_visited side' = bs_visited side"
proof -
  let ?v = "neighborId e" and ?alt = "the (map_of (bs_g side) current) + ecost current e"
  have w: "(if dir = In then w ?v current l else w current ?v l) = weight current ?v l" for l
    using hh(2) by meson
  have h: "hh v t = h v" for v using hh(1) by meson
  note relax = relax_inv [OF inv(1) cur]
  show ?thesis
  proof (cases "?v \<in> set (bs_visited side) \<or> \<not> improves (bs_g side) (bs_pred side) ?v current ?alt")
    case True
    then have "bi_edge w hh t dir og current (side, best) e = (side, best)"
      by (auto simp: bi_edge_def Let_def w)
    with relax(1) [OF True] inv(2) show ?thesis by simp
  next
    case False
    then have "?alt \<le> c" if "map_of (bs_g side) ?v = Some c" for c using that by (auto simp: improves_def)
    from meet_update [OF inv(2), of ?v ?alt] this
    have "best_inv (map_set (bs_g side) ?v ?alt) og (case map_of og ?v of None \<Rightarrow> best | Some b \<Rightarrow> meet best ?v (?alt + b))"
      by blast
    with relax(2) False show ?thesis by (simp add: bi_edge_def Let_def w h)
  qed
qed

lemma bi_edges_inv:
  assumes "dj_inv X (bs_g side) (bs_pred side) (bs_visited side) (bs_heap side)" "best_inv (bs_g side) og best"
    and "current \<in> set (bs_visited side)" "set es \<subseteq> set (nb current)"
    and hh: "(\<lambda>v. hh v t) = h" "(\<lambda>u v l. if dir = In then w v u l else w u v l) = weight"
  shows "case foldl (bi_edge w hh t dir og current) (side, best) es of (side', best') \<Rightarrow>
    dj_inv (X(current := X current \<union> set es)) (bs_g side') (bs_pred side') (bs_visited side') (bs_heap side') \<and>
    best_inv (bs_g side') og best'"
  using assms(1-4)
proof (induction es arbitrary: X side best)
  case (Cons e es)
  have e: "e \<in> set (nb current)" using Cons.prems(4) by simp
  obtain side' best' where s': "bi_edge w hh t dir og current (side, best) e = (side', best')" by fastforce
  let ?X = "X(current := insert e (X current))"
  have inv: "dj_inv ?X (bs_g side') (bs_pred side') (bs_visited side') (bs_heap side')" "best_inv (bs_g side') og best'"
    "bs_visited side' = bs_visited side"
    using bi_edge_inv [OF Cons.prems(1-3) e, of hh t dir w] hh s' by auto
  have "current \<in> set (bs_visited side')" "set es \<subseteq> set (nb current)" using inv(3) Cons.prems(3,4) by simp_all
  note ih = Cons.IH [OF inv(1,2) this]
  have "?X(current := ?X current \<union> set es) = X(current := X current \<union> set (e # es))" by auto
  with ih show ?case by (simp only: foldl_Cons s')
qed simp

abbreviation side_inv :: "'w bi_side \<Rightarrow> bool" where
  "side_inv side \<equiv> dj_inv (\<lambda>u. set (nb u)) (bs_g side) (bs_pred side) (bs_visited side) (bs_heap side)"

lemma side_start: "side_inv (bi_side_at s (h s))"
  using start_inv by (simp add: bi_side_at_def)

lemma expand_inv:
  assumes side: "side_inv side" and best: "best_inv (bs_g side) (bs_g other) best"
    and other: "\<And>u. u \<in> set (bs_visited other) \<Longrightarrow> map_of (bs_g other) u \<noteq> None"
    and rs: "ok rs" and ne: "heap_content (bs_heap side) \<noteq> {#}"
    and hh: "(\<lambda>v. hh v t) = h" "(\<lambda>u v l. if dir = In then w v u l else w u v l) = weight"
    and res: "biAStarExpand read w hh t dir side other best rs = (n, side', best', rs')"
  shows "side_inv side' \<and> best_inv (bs_g side') (bs_g other) best' \<and> ok rs'"
proof -
  from heap.take_some [OF dj_invD(1) [OF side] ne]
  obtain v pq where take: "extractMin (bs_heap side) = (Some v, pq)" by blast
  show ?thesis
  proof (cases "v \<in> set (bs_visited side)")
    case True
    with res take have "side' = side\<lparr>bs_heap := pq\<rparr>" "best' = best" "rs' = rs" by (auto simp: biAStarExpand_def)
    with pop_seen [OF side take True] best rs show ?thesis by simp
  next
    case False
    obtain c where c: "map_of (bs_g side) v = Some c" "least_cost nb weight s v c" using settles [OF side take False] by blast
    then have "node v" using wwalk_node by (auto simp: least_cost_def wcost_def)
    then obtain rs2 where rd: "read v rs = (nb v, rs2)" "ok rs2"
      using read_nb [OF _ rs, of v] read_ok [OF _ rs, of v] by (metis prod.collapse)
    let ?side = "side\<lparr>bs_heap := pq, bs_visited := bs_visited side @ [v]\<rparr>"
    define best2 where "best2 = (if v \<in> set (bs_visited other)
        then meet best v (the (map_of (bs_g side) v) + the (map_of (bs_g other) v)) else best)"
    have b2: "best_inv (bs_g ?side) (bs_g other) best2"
      using best other [of v] meet_again [OF best c(1)] c(1) by (auto simp: best2_def)
    have "dj_inv ((\<lambda>u. set (nb u))(v := {})) (bs_g ?side) (bs_pred ?side) (bs_visited ?side) (bs_heap ?side)"
      using pop_settle [OF side take False] by simp
    from bi_edges_inv [where current = v and hh = hh and t = t and dir = dir and w = w, OF this b2 _ order_refl hh]
    have "case foldl (bi_edge w hh t dir (bs_g other) v) (?side, best2) (nb v) of (side', best') \<Rightarrow>
        dj_inv ((\<lambda>u. set (nb u))(v := set (nb v))) (bs_g side') (bs_pred side') (bs_visited side') (bs_heap side') \<and>
        best_inv (bs_g side') (bs_g other) best'" by simp
    moreover have "(\<lambda>u. set (nb u))(v := set (nb v)) = (\<lambda>u. set (nb u))" by auto
    moreover have "foldl (bi_edge w hh t dir (bs_g other) v) (?side, best2) (nb v) = (side', best')" "rs' = rs2"
      using res take False rd(1) by (auto simp: biAStarExpand_def Let_def set_add_def best2_def split: prod.splits)
    ultimately show ?thesis using rd(2) by simp
  qed
qed

end

section \<open>The loop\<close>

lemma bi_edges_visited [simp]:
  "bs_visited (fst (foldl (bi_edge w heuristic target dir g current) acc es)) = bs_visited (fst acc)"
proof (induction es arbitrary: acc)
  case (Cons e es)
  have "bs_visited (fst (bi_edge w heuristic target dir g current acc e)) = bs_visited (fst acc)"
    by (auto simp: bi_edge_def Let_def split: prod.splits)
  with Cons show ?case by simp
qed simp

lemma expand_counts:
  assumes "biAStarExpand read w heuristic target dir side other best rs = (m, side', best', rs')"
  shows "length (bs_visited side') = length (bs_visited side) + m"
proof -
  let ?edges = "\<lambda>current g acc es. foldl (bi_edge w heuristic target dir g current) acc es"
  have "bs_visited s' = bs_visited (fst acc)" if "?edges current g acc es = (s', b')" for current g acc es s' b'
    using bi_edges_visited [of w heuristic target dir g current acc es] that by simp
  from this assms show ?thesis
    by (auto simp: biAStarExpand_def Let_def set_add_def split: prod.splits option.splits if_splits)
qed

lemma inf_le_min: "inf_le a (inf_min x y) \<Longrightarrow> inf_le a x"
  by (cases a; cases x; cases y) (auto simp: inf_min_def split: if_splits)

lemma inf_le_total: "\<not> inf_le a b \<Longrightarrow> inf_le b a"
  by (cases a; cases b) auto

lemma waiting_side:
  assumes "\<not> heap_isEmpty h \<or> \<not> heap_isEmpty k" "inf_le (peekPriority h) (peekPriority k)"
  shows "heap_content h \<noteq> {#}"
proof
  assume "heap_content h = {#}"
  then have "peekPriority h = None" by simp
  with assms(2) have "peekPriority k = None" by (cases "peekPriority k") (auto simp del: peekPriority_None)
  with assms(1) \<open>heap_content h = {#}\<close> show False by simp
qed

locale bidirectional =
  fwd: weighted "rd Out" nbo ok node weight s "\<lambda>v. fh v goal" +
  bwd: weighted "rd In" nbi ok node "\<lambda>u v l. weight v u l" goal "\<lambda>v. bh v s"
  for rd :: "direction \<Rightarrow> string \<Rightarrow> 'r \<Rightarrow> neighbor_edge list \<times> 'r" and nbo nbi ok node
    and weight :: "'w::linordered_idom edge_weight" and fh bh :: "string \<Rightarrow> string \<Rightarrow> 'w" and s goal :: string +
  assumes reversed: "NeighborEdge v l \<in> set (nbi u) \<Longrightarrow> NeighborEdge u l \<in> set (nbo v)"
    and fh_goal: "fh goal goal \<le> 0"
begin

definition bi_final :: "nat \<Rightarrow> nat \<times> 'w bi_side \<times> 'w bi_side \<times> 'w bi_best \<times> 'r \<Rightarrow> bool" where
  "bi_final n res \<longleftrightarrow> (case res of (explored, fwd, bwd, best, rs) \<Rightarrow>
     ok rs \<and> fwd.side_inv fwd \<and> bwd.side_inv bwd \<and> best_inv (bs_g fwd) (bs_g bwd) best \<and>
     explored = length (bs_visited fwd) + length (bs_visited bwd) \<and>
     (explored < n \<longrightarrow> (\<forall>c. wcost nbo weight s goal c \<longrightarrow> (\<exists>mu. bb_mu best = Some mu \<and> mu \<le> c))))"

lemma stopped:
  assumes F: "fwd.side_inv fwd" and B: "bwd.side_inv bwd" and best: "best_inv (bs_g fwd) (bs_g bwd) best"
    and stop: "heap_isEmpty (bs_heap fwd) \<or> inf_le (bb_mu best) (peekPriority (bs_heap fwd))"
    and c: "wcost nbo weight s goal c"
  shows "\<exists>mu. bb_mu best = Some mu \<and> mu \<le> c"
proof (cases "goal \<in> set (bs_visited fwd)")
  case True
  then obtain a where a: "map_of (bs_g fwd) goal = Some a" "least_cost nbo weight s goal a"
    using fwd.dj_invD(7) [OF F] by blast
  have "a \<le> c" using a(2) c by (simp add: least_cost_def)
  moreover have "map_of (bs_g bwd) goal = Some 0" by (rule bwd.dj_invD(3) [OF B])
  then obtain mu where "bb_mu best = Some mu" "mu \<le> a + 0" using best a(1) unfolding best_inv_def by blast
  ultimately show ?thesis by auto
next
  case False
  obtain p where p: "wwalk nbo weight s p c" "last p = goal" using c by (auto simp: wcost_def)
  then obtain y cy where y: "y \<notin> set (bs_visited fwd)" "map_of (bs_g fwd) y = Some cy" "cy + fh y goal \<le> c + fh goal goal"
    using fwd.frontier [OF p(1) F] False by auto
  have q: "(y, cy + fh y goal) \<in># heap_content (bs_heap fwd)" by (rule fwd.dj_invD(9) [OF F y(2,1)])
  have "heap_inv (bs_heap fwd)" using fwd.dj_invD(1) [OF F] by (simp add: heap_inv_with_def)
  from peekPriority_min [OF this q] obtain r where r: "peekPriority (bs_heap fwd) = Some r" "r \<le> cy + fh y goal" by blast
  have "inf_le (bb_mu best) (Some r)" using stop q r(1) by auto
  then obtain mu where "bb_mu best = Some mu" "mu \<le> r" by (cases "bb_mu best") auto
  with r(2) y(3) fh_goal show ?thesis by (intro exI [of _ mu]) (simp add: add_increasing2)
qed

lemma bi_loop_final:
  assumes "r = rd" "w = weight" "f = fh" "b = bh" "x = s" "y = goal"
    "fwd.side_inv fwd" "bwd.side_inv bwd" "best_inv (bs_g fwd) (bs_g bwd) best" "ok rs"
    "explored = length (bs_visited fwd) + length (bs_visited bwd)"
  shows "bi_final n (bi_loop r w f b x y n explored fwd bwd best rs)"
  using assms
proof (induction r w f b x y n explored fwd bwd best rs rule: bi_loop.induct)
  case (1 r w f b x y n explored fwd bwd best rs)
  note inv = "1.prems"(7-11)
  let ?F = "peekPriority (bs_heap fwd)" and ?B = "peekPriority (bs_heap bwd)"
  let ?go = "(\<not> heap_isEmpty (bs_heap fwd) \<or> \<not> heap_isEmpty (bs_heap bwd)) \<and> explored < n"
  consider (limit) "\<not> ?go" | (best) "?go" "inf_le (bb_mu best) (inf_min ?F ?B)"
    | (fwd) "?go" "\<not> inf_le (bb_mu best) (inf_min ?F ?B)" "inf_le ?F ?B"
    | (bwd) "?go" "\<not> inf_le (bb_mu best) (inf_min ?F ?B)" "\<not> inf_le ?F ?B" by blast
  then show ?case
  proof cases
    case limit
    then have "bi_loop r w f b x y n explored fwd bwd best rs = (explored, fwd, bwd, best, rs)"
      by (subst bi_loop.simps) (auto simp: Let_def)
    moreover have "heap_isEmpty (bs_heap fwd)" if "explored < n" using limit that by blast
    ultimately show ?thesis using inv stopped [OF inv(1-3)] by (auto simp: bi_final_def)
  next
    case best
    then have "bi_loop r w f b x y n explored fwd bwd best rs = (explored, fwd, bwd, best, rs)"
      by (subst bi_loop.simps) (auto simp: Let_def)
    moreover have "inf_le (bb_mu best) ?F" by (rule inf_le_min [OF best(2)])
    ultimately show ?thesis using inv stopped [OF inv(1-3)] by (auto simp: bi_final_def)
  next
    case fwd
    obtain m fwd' best' rs' where e: "biAStarExpand (rd Out) weight fh goal Out fwd bwd best rs = (m, fwd', best', rs')"
      by (metis prod_cases4)
    have "heap_content (bs_heap fwd) \<noteq> {#}" by (rule waiting_side) (use fwd in auto)
    moreover have "map_of (bs_g bwd) u \<noteq> None" if "u \<in> set (bs_visited bwd)" for u
      using bwd.dj_invD(7) [OF inv(2) that] by auto
    ultimately have "fwd.side_inv fwd' \<and> best_inv (bs_g fwd') (bs_g bwd) best' \<and> ok rs'"
      by (intro fwd.expand_inv [OF inv(1,3) _ inv(4) _ _ _ e]) auto
    moreover have "bi_loop r w f b x y n explored fwd bwd best rs = bi_loop r w f b x y n (explored + m) fwd' bwd best' rs'"
      using fwd e "1.prems"(1-6) by (subst bi_loop.simps) (simp add: Let_def)
    ultimately show ?thesis using "1.IH"(1) [OF refl refl _ fwd(2,3)] fwd(1) "1.prems" e expand_counts [OF e] by simp
  next
    case bwd
    obtain m bwd' best' rs' where e: "biAStarExpand (rd In) weight bh s In bwd fwd best rs = (m, bwd', best', rs')"
      by (metis prod_cases4)
    have "heap_content (bs_heap bwd) \<noteq> {#}" by (rule waiting_side) (use bwd inf_le_total in auto)
    moreover have "map_of (bs_g fwd) u \<noteq> None" if "u \<in> set (bs_visited fwd)" for u
      using fwd.dj_invD(7) [OF inv(1) that] by auto
    ultimately have "bwd.side_inv bwd' \<and> best_inv (bs_g bwd') (bs_g fwd) best' \<and> ok rs'"
      by (intro bwd.expand_inv [OF inv(2) best_inv_sym [OF inv(3)] _ inv(4) _ _ _ e]) auto
    moreover have "bi_loop r w f b x y n explored fwd bwd best rs = bi_loop r w f b x y n (explored + m) fwd bwd' best' rs'"
      using bwd e "1.prems"(1-6) by (subst bi_loop.simps) (simp add: Let_def)
    moreover have "best_inv (bs_g fwd) (bs_g bwd') best'" using calculation(1) best_inv_sym by blast
    ultimately show ?thesis using "1.IH"(2) [OF refl refl _ bwd(2,3)] bwd(1) "1.prems" e expand_counts [OF e] by simp
  qed
qed

lemma bi_final_count:
  assumes "bi_final n (explored, sf, sb, best, rs)" "finite ((succs nbo)\<^sup>* `` {s})" "finite ((succs nbi)\<^sup>* `` {goal})"
  shows "explored \<le> card ((succs nbo)\<^sup>* `` {s}) + card ((succs nbi)\<^sup>* `` {goal})"
proof -
  have inv: "fwd.side_inv sf" "bwd.side_inv sb" "explored = length (bs_visited sf) + length (bs_visited sb)"
    using assms(1) by (simp_all add: bi_final_def)
  have "length (bs_visited sf) \<le> card ((succs nbo)\<^sup>* `` {s})"
    using card_mono [OF assms(2) fwd.settled_reachable [OF inv(1)]] distinct_card [OF fwd.dj_invD(2) [OF inv(1)]] by simp
  moreover have "length (bs_visited sb) \<le> card ((succs nbi)\<^sup>* `` {goal})"
    using card_mono [OF assms(3) bwd.settled_reachable [OF inv(2)]] distinct_card [OF bwd.dj_invD(2) [OF inv(2)]] by simp
  ultimately show ?thesis using inv(3) by simp
qed

text \<open>The loop from its initial state, and the path read off its final one.\<close>

lemma bi_loop_finds:
  assumes "ok rs" "s \<noteq> goal"
  shows "bi_final n (bi_loop rd weight fh bh s goal n 0 (bi_side_at s (fh s goal)) (bi_side_at goal (bh goal s))
    \<lparr>bb_mu = None, bb_meeting = None\<rparr> rs)"
proof (rule bi_loop_final [OF refl refl refl refl refl refl])
  show "fwd.side_inv (bi_side_at s (fh s goal))" by (rule fwd.side_start)
  show "bwd.side_inv (bi_side_at goal (bh goal s))" by (rule bwd.side_start)
qed (use assms in \<open>simp_all add: best_inv_def bi_side_at_def\<close>)

lemma bi_result:
  assumes "bi_final n (explored, fwd, bwd, best, rs)"
  shows "case bb_meeting best of
      None \<Rightarrow> explored < n \<longrightarrow> (s, goal) \<notin> (succs nbo)\<^sup>*
    | Some m \<Rightarrow> \<exists>path mu. reconstructBiPath (bs_pred fwd) (bs_pred bwd) s goal m = Some path \<and> bb_mu best = Some mu \<and>
        wwalk nbo weight s path mu \<and> last path = goal \<and> (explored < n \<longrightarrow> least_cost nbo weight s goal mu)"
proof (cases "bb_meeting best")
  case None
  then have "bb_mu best = None" using assms by (auto simp: bi_final_def best_inv_def)
  then show ?thesis using assms None wcost_reachable [of nbo weight s goal] by (auto simp: bi_final_def)
next
  case (Some m)
  have inv: "fwd.side_inv fwd" "bwd.side_inv bwd" "best_inv (bs_g fwd) (bs_g bwd) best" using assms by (auto simp: bi_final_def)
  obtain a b where ab: "map_of (bs_g fwd) m = Some a" "map_of (bs_g bwd) m = Some b" "bb_mu best = Some (a + b)"
    using inv(3) Some by (auto simp: best_inv_def)
  obtain xs where xs: "walk_back (bs_pred fwd) s m [m] = Some ([m] @ xs)" "wwalk nbo weight s (rev (m # xs)) a"
    using fwd.dist_walk [OF inv(1) ab(1)] by blast
  obtain ys where ys: "walk_back (bs_pred bwd) goal m (rev (m # xs)) = Some (rev (m # xs) @ ys)"
    "wwalk nbi (\<lambda>u v l. weight v u l) goal (rev (m # ys)) b"
    using bwd.dist_walk [OF inv(2) ab(2)] by blast
  let ?path = "rev (m # xs) @ ys"
  have w: "wwalk nbo weight s ?path (a + b)"
    using reversed_walk [OF ys(2) reversed xs(2)] by simp
  have "reconstructBiPath (bs_pred fwd) (bs_pred bwd) s goal m = Some ?path"
    using walk_map_eq [OF xs(1)] walk_map_eq [OF ys(1)] by (simp add: reconstructBiPath_def)
  moreover have goal: "last ?path = goal" using wwalk_ends [OF ys(2)] by (cases ys rule: rev_cases) simp_all
  moreover have "least_cost nbo weight s goal (a + b)" if "explored < n"
  proof -
    have "wcost nbo weight s goal (a + b)" using w goal by (auto simp: wcost_def)
    moreover have "a + b \<le> c" if "wcost nbo weight s goal c" for c
      using assms \<open>explored < n\<close> that ab(3) by (auto simp: bi_final_def)
    ultimately show ?thesis by (simp add: least_cost_def)
  qed
  ultimately show ?thesis using Some ab(3) w by auto
qed

end

end
