(* ===== verification/StateGraph.thy ===== *)
theory StateGraph
  imports Visibility ClosureLaws BidirectionalLaws
begin

text \<open>
  The graph that the traversals see: \<open>_buildAdjacency\<close> of
  \<open>src/domain/warp/materializeAdvanced.methods.js\<close>, which turns the OR-sets of a materialised state
  into sorted adjacency lists, and the provider that \<open>src/domain/services/LogicalTraversal.js\<close> makes of
  them. Its edges are the visible edges of the state, in both directions, and it is the instance at
  which the laws of the searches hold.
\<close>

section \<open>The adjacency of a state\<close>

definition push_neighbor :: "adjacency \<Rightarrow> string \<Rightarrow> neighbor_edge \<Rightarrow> adjacency" where
  "push_neighbor m v e = map_set m v (edges_at m v @ [e])"

text \<open>
  A label is a string here: for an edge key with fewer than three segments, which no operation
  writes, the code would push the label \<open>undefined\<close>, and the model has no value (\<open>None\<close>).
\<close>

definition adjacency_step :: "warp_state \<Rightarrow> (adjacency \<times> adjacency) option \<Rightarrow> string \<Rightarrow> (adjacency \<times> adjacency) option" where
  "adjacency_step st acc edgeKey =
     Option.bind acc (\<lambda>(outgoing, incoming).
       let e = decodeEdgeKey edgeKey
       in case (part_from e, part_to e) of
            (Some from, Some to) \<Rightarrow>
              if \<not> orsetContains (nodeAlive st) from \<or> \<not> orsetContains (nodeAlive st) to then Some (outgoing, incoming)
              else (case part_label e of
                      None \<Rightarrow> None
                    | Some label \<Rightarrow> Some (push_neighbor outgoing from (NeighborEdge to label),
                        push_neighbor incoming to (NeighborEdge from label)))
          | _ \<Rightarrow> Some (outgoing, incoming))"

lemma adjacency_step_None [simp]: "adjacency_step st None k = None"
  by (simp add: adjacency_step_def)

definition neighbor_cmp :: "neighbor_edge \<Rightarrow> neighbor_edge \<Rightarrow> int" where
  "neighbor_cmp a b =
     (if neighborId a \<noteq> neighborId b then (if neighborId a < neighborId b then -1 else 1)
      else if edge_label a < edge_label b then -1 else if edge_label a > edge_label b then 1 else 0)"

definition sortNeighbors :: "adjacency \<Rightarrow> adjacency" where
  "sortNeighbors m = map (\<lambda>(v, es). (v, sort_by neighbor_cmp es)) m"

definition buildAdjacency :: "warp_state \<Rightarrow> (adjacency \<times> adjacency) option" where
  "buildAdjacency st =
     map_option (\<lambda>(outgoing, incoming). (sortNeighbors outgoing, sortNeighbors incoming))
       (foldl (adjacency_step st) (Some ([], [])) (orsetElements (edgeAlive st)))"

text \<open>The provider over the adjacency; a state outside the model gets the empty graph.\<close>

definition state_provider :: "warp_state \<Rightarrow> provider" where
  "state_provider st =
     adj_provider (case buildAdjacency st of
         None \<Rightarrow> newAdjacencyProvider [] [] []
       | Some (outgoing, incoming) \<Rightarrow> newAdjacencyProvider outgoing incoming (set_of (orsetElements (nodeAlive st))))"

section \<open>Its edges are the visible edges\<close>

definition visible_edge :: "warp_state \<Rightarrow> string \<Rightarrow> string \<Rightarrow> string \<Rightarrow> bool" where
  "visible_edge st f t l \<longleftrightarrow> (\<exists>k. edgeVisibleV5 st k \<and> decodeEdgeKey k = \<lparr>part_from = Some f, part_to = Some t, part_label = Some l\<rparr>)"

lemma edges_at_push [simp]:
  "set (edges_at (push_neighbor m v e) w) = set (edges_at m w) \<union> (if w = v then {e} else {})"
  by (auto simp: edges_at_def push_neighbor_def split: option.splits)

lemma edges_at_sort [simp]: "set (edges_at (sortNeighbors m) v) = set (edges_at m v)"
  by (induction m) (auto simp: edges_at_def sortNeighbors_def split: option.splits)

definition seen_edge :: "warp_state \<Rightarrow> string list \<Rightarrow> string \<Rightarrow> string \<Rightarrow> string \<Rightarrow> bool" where
  "seen_edge st ks f t l \<longleftrightarrow> (\<exists>k \<in> set ks. decodeEdgeKey k = \<lparr>part_from = Some f, part_to = Some t, part_label = Some l\<rparr> \<and>
     orsetContains (nodeAlive st) f \<and> orsetContains (nodeAlive st) t)"

lemma adjacency_fold:
  assumes "\<And>k. k \<in> set ks \<Longrightarrow> length (split_on FIELD_SEPARATOR k) = 3"
  shows "\<exists>out inc. foldl (adjacency_step st) (Some ([], [])) ks = Some (out, inc) \<and> map_wf out \<and> map_wf inc \<and>
    (\<forall>f t l. (NeighborEdge t l \<in> set (edges_at out f) \<longleftrightarrow> seen_edge st ks f t l) \<and>
             (NeighborEdge f l \<in> set (edges_at inc t) \<longleftrightarrow> seen_edge st ks f t l))"
  using assms
proof (induction ks rule: rev_induct)
  case Nil
  then show ?case by (simp add: edges_at_def seen_edge_def)
next
  case (snoc k ks)
  then obtain out inc where ih: "foldl (adjacency_step st) (Some ([], [])) ks = Some (out, inc)" "map_wf out" "map_wf inc"
    "\<And>f t l. NeighborEdge t l \<in> set (edges_at out f) \<longleftrightarrow> seen_edge st ks f t l"
    "\<And>f t l. NeighborEdge f l \<in> set (edges_at inc t) \<longleftrightarrow> seen_edge st ks f t l" by auto
  have "length (split_on FIELD_SEPARATOR k) = 3" using snoc.prems by simp
  then obtain a b c where "split_on FIELD_SEPARATOR k = [a, b, c]" by (auto simp: numeral_3_eq_3 length_Suc_conv)
  then have k: "decodeEdgeKey k = \<lparr>part_from = Some a, part_to = Some b, part_label = Some c\<rparr>"
    by (simp add: decodeEdgeKey_def part_def)
  show ?case
  proof (cases "orsetContains (nodeAlive st) a \<and> orsetContains (nodeAlive st) b")
    case True
    have "foldl (adjacency_step st) (Some ([], [])) (ks @ [k]) =
        Some (push_neighbor out a (NeighborEdge b c), push_neighbor inc b (NeighborEdge a c))"
      using ih(1) k True by (simp add: adjacency_step_def)
    moreover have "map_wf (push_neighbor out a (NeighborEdge b c))" "map_wf (push_neighbor inc b (NeighborEdge a c))"
      using ih(2,3) by (simp_all add: push_neighbor_def)
    ultimately show ?thesis using ih(4,5) k True by (auto simp: seen_edge_def)
  next
    case False
    then have "foldl (adjacency_step st) (Some ([], [])) (ks @ [k]) = Some (out, inc)"
      using ih(1) k by (simp add: adjacency_step_def)
    then show ?thesis using ih(2-5) k False by (auto simp: seen_edge_def)
  qed
qed

lemma seen_visible: "seen_edge st (orsetElements (edgeAlive st)) f t l \<longleftrightarrow> visible_edge st f t l"
  by (auto simp: seen_edge_def visible_edge_def edgeVisibleV5_def nodeVisibleV5_def)

lemma sortNeighbors_wf [simp]: "map_wf (sortNeighbors m) = map_wf m"
  by (simp add: sortNeighbors_def comp_def case_prod_beta)

lemma state_provider_edges:
  assumes "wellkeyed st"
  shows "buildAdjacency st \<noteq> None"
    and "NeighborEdge t l \<in> set (prov_neighbors (state_provider st) f Out None) \<longleftrightarrow> visible_edge st f t l"
    and "NeighborEdge f l \<in> set (prov_neighbors (state_provider st) t In None) \<longleftrightarrow> visible_edge st f t l"
    and "prov_hasNode (state_provider st) v \<longleftrightarrow> nodeVisibleV5 st (Some v)"
proof -
  have keys: "length (split_on FIELD_SEPARATOR k) = 3" if "k \<in> set (orsetElements (edgeAlive st))" for k
    using assms that by (simp add: wellkeyed_def)
  from adjacency_fold [where st = st and ks = "orsetElements (edgeAlive st)", OF keys] obtain out inc where
    f: "foldl (adjacency_step st) (Some ([], [])) (orsetElements (edgeAlive st)) = Some (out, inc)" "map_wf out" "map_wf inc"
    "\<And>f t l. NeighborEdge t l \<in> set (edges_at out f) \<longleftrightarrow> visible_edge st f t l"
    "\<And>f t l. NeighborEdge f l \<in> set (edges_at inc t) \<longleftrightarrow> visible_edge st f t l"
    by (auto simp: seen_visible)
  then have b: "buildAdjacency st = Some (sortNeighbors out, sortNeighbors inc)" by (simp add: buildAdjacency_def)
  then show "buildAdjacency st \<noteq> None" by simp
  show "NeighborEdge t l \<in> set (prov_neighbors (state_provider st) f Out None) \<longleftrightarrow> visible_edge st f t l"
    "NeighborEdge f l \<in> set (prov_neighbors (state_provider st) t In None) \<longleftrightarrow> visible_edge st f t l"
    using f(2-5) b
    by (simp_all add: state_provider_def adj_provider_def adj_getNeighbors_def newAdjacencyProvider_def filterByLabels_def
        sortAdjacencyMap_edges)
  show "prov_hasNode (state_provider st) v \<longleftrightarrow> nodeVisibleV5 st (Some v)"
    using b by (simp add: state_provider_def adj_provider_def adj_hasNode_def newAdjacencyProvider_def nodeVisibleV5_def)
qed

interpretation graph: neighbor_provider "state_provider st" for st
  unfolding state_provider_def by (auto intro: adj_provider_laws newAdjacencyProvider_sorted split: option.split prod.split)

section \<open>The two directions are converse\<close>

lemma adjacency_step_cases:
  assumes "adjacency_step st (Some (o1, i1)) k = Some (out, inc)"
  shows "out = o1 \<and> inc = i1 \<or> (\<exists>f t l. orsetContains (nodeAlive st) f \<and> orsetContains (nodeAlive st) t \<and>
    out = push_neighbor o1 f (NeighborEdge t l) \<and> inc = push_neighbor i1 t (NeighborEdge f l))"
  using assms by (auto simp: adjacency_step_def Let_def split: option.splits if_splits)

lemma adjacency_converse:
  "foldl (adjacency_step st) (Some ([], [])) ks = Some (out, inc) \<Longrightarrow>
   map_wf out \<and> map_wf inc \<and> (\<forall>f t l. NeighborEdge t l \<in> set (edges_at out f) \<longleftrightarrow> NeighborEdge f l \<in> set (edges_at inc t)) \<and>
   (\<forall>f t l. NeighborEdge t l \<in> set (edges_at out f) \<longrightarrow> orsetContains (nodeAlive st) f \<and> orsetContains (nodeAlive st) t)"
proof (induction ks arbitrary: out inc rule: rev_induct)
  case Nil
  then show ?case by (simp add: edges_at_def)
next
  case (snoc k ks)
  then obtain o1 i1 where prev: "foldl (adjacency_step st) (Some ([], [])) ks = Some (o1, i1)"
    and step: "adjacency_step st (Some (o1, i1)) k = Some (out, inc)"
  proof (cases "foldl (adjacency_step st) (Some ([], [])) ks")
    case None
    with snoc.prems show ?thesis by simp
  next
    case (Some oi)
    with snoc.prems show ?thesis by (cases oi) (simp add: that)
  qed
  from adjacency_step_cases [OF step] show ?case
  proof
    assume "out = o1 \<and> inc = i1"
    with snoc.IH [OF prev] show ?case by blast
  next
    assume "\<exists>f t l. orsetContains (nodeAlive st) f \<and> orsetContains (nodeAlive st) t \<and>
      out = push_neighbor o1 f (NeighborEdge t l) \<and> inc = push_neighbor i1 t (NeighborEdge f l)"
    then obtain a b c where n: "orsetContains (nodeAlive st) a" "orsetContains (nodeAlive st) b"
      "out = push_neighbor o1 a (NeighborEdge b c)" "inc = push_neighbor i1 b (NeighborEdge a c)" by blast
    have wf: "map_wf out" "map_wf inc" using snoc.IH [OF prev] n(3,4) by (simp_all add: push_neighbor_def)
    have out: "NeighborEdge t l \<in> set (edges_at out f) \<longleftrightarrow> NeighborEdge t l \<in> set (edges_at o1 f) \<or> f = a \<and> t = b \<and> l = c" for f t l
      unfolding n(3) by auto
    have inc: "NeighborEdge f l \<in> set (edges_at inc t) \<longleftrightarrow> NeighborEdge f l \<in> set (edges_at i1 t) \<or> f = a \<and> t = b \<and> l = c" for f t l
      unfolding n(4) by auto
    show ?case unfolding out inc using wf n(1,2) snoc.IH [OF prev] by blast
  qed
qed

lemma state_adjacency:
  "\<exists>out inc. prov_neighbors (state_provider st) = adj_getNeighbors (newAdjacencyProvider out inc alive) \<and>
    map_wf out \<and> map_wf inc \<and> (\<forall>f t l. NeighborEdge t l \<in> set (edges_at out f) \<longleftrightarrow> NeighborEdge f l \<in> set (edges_at inc t)) \<and>
    (\<forall>f t l. NeighborEdge t l \<in> set (edges_at out f) \<longrightarrow> orsetContains (nodeAlive st) f \<and> orsetContains (nodeAlive st) t)"
proof (cases "buildAdjacency st")
  case None
  have "prov_neighbors (state_provider st) = adj_getNeighbors (newAdjacencyProvider [] [] alive)"
    unfolding state_provider_def None by (simp add: adj_provider_def adj_getNeighbors_def newAdjacencyProvider_def fun_eq_iff)
  then show ?thesis by (intro exI [of _ "[]"]) (simp add: edges_at_def)
next
  case (Some oi)
  then obtain o1 i1 where f: "foldl (adjacency_step st) (Some ([], [])) (orsetElements (edgeAlive st)) = Some (o1, i1)"
    and oi: "oi = (sortNeighbors o1, sortNeighbors i1)" by (auto simp: buildAdjacency_def)
  have "prov_neighbors (state_provider st) = adj_getNeighbors (newAdjacencyProvider (sortNeighbors o1) (sortNeighbors i1) alive)"
    unfolding state_provider_def Some oi by (simp add: adj_provider_def adj_getNeighbors_def newAdjacencyProvider_def fun_eq_iff)
  with adjacency_converse [OF f] show ?thesis
    by (intro exI [of _ "sortNeighbors o1"] exI [of _ "sortNeighbors i1"]) simp
qed

lemma state_provider_sets:
  "set (prov_neighbors (state_provider st) v Both ls) =
     set (prov_neighbors (state_provider st) v Out ls) \<union> set (prov_neighbors (state_provider st) v In ls)"
  by (rule graph.both_union)

lemma state_provider_converse:
  "NeighborEdge t l \<in> set (prov_neighbors (state_provider st) f Out ls) \<longleftrightarrow>
   NeighborEdge f l \<in> set (prov_neighbors (state_provider st) t In ls)"
proof -
  obtain out inc where "prov_neighbors (state_provider st) = adj_getNeighbors (newAdjacencyProvider out inc [])"
    "map_wf out" "map_wf inc" "\<And>f t l. NeighborEdge t l \<in> set (edges_at out f) \<longleftrightarrow> NeighborEdge f l \<in> set (edges_at inc t)"
    using state_adjacency [of st "[]"] by blast
  then show ?thesis
    by (auto simp: adj_getNeighbors_def newAdjacencyProvider_def filterByLabels_def sortAdjacencyMap_edges split: option.splits)
qed

lemma state_provider_alive:
  assumes "e \<in> set (prov_neighbors (state_provider st) v d ls)"
  shows "orsetContains (nodeAlive st) v \<and> orsetContains (nodeAlive st) (neighborId e)"
proof -
  obtain out inc where p: "prov_neighbors (state_provider st) = adj_getNeighbors (newAdjacencyProvider out inc [])"
    "map_wf out" "map_wf inc" "\<And>f t l. NeighborEdge t l \<in> set (edges_at out f) \<longleftrightarrow> NeighborEdge f l \<in> set (edges_at inc t)"
    and a: "\<And>f t l. NeighborEdge t l \<in> set (edges_at out f) \<Longrightarrow> orsetContains (nodeAlive st) f \<and> orsetContains (nodeAlive st) t"
    using state_adjacency [of st "[]"] by blast
  obtain w l where e: "e = NeighborEdge w l" by (cases e)
  have "e \<in> set (edges_at out v) \<or> e \<in> set (edges_at inc v)"
    using assms p(1-3) by (cases d)
      (auto simp: adj_getNeighbors_def newAdjacencyProvider_def filterByLabels_def sortAdjacencyMap_edges Let_def split: option.splits)
  then show ?thesis using a p(4) e by auto
qed

lemma state_reachable_finite:
  "finite ((succs (\<lambda>v. prov_neighbors (state_provider st) v d ls))\<^sup>* `` A)" if "finite A"
proof -
  let ?nb = "\<lambda>v. prov_neighbors (state_provider st) v d ls"
  have "(succs ?nb)\<^sup>* `` A \<subseteq> A \<union> set (orsetElements (nodeAlive st))"
  proof
    fix v assume "v \<in> (succs ?nb)\<^sup>* `` A"
    then obtain s where "s \<in> A" "(s, v) \<in> (succs ?nb)\<^sup>*" by blast
    from this(2,1) show "v \<in> A \<union> set (orsetElements (nodeAlive st))"
      by (cases rule: rtranclE) (auto simp: succs_def dest: state_provider_alive)
  qed
  then show ?thesis by (rule finite_subset) (rule finite_UnI [OF that List.finite_set])
qed

section \<open>The searches on it\<close>

interpretation unit_search: weighted "expand p d ls" "\<lambda>v. prov_neighbors p v d ls" uncached "\<lambda>_. True" DEFAULT_WEIGHT_FN s "\<lambda>_. 0"
  for p d ls s
  by unfold_locales (simp_all add: DEFAULT_WEIGHT_FN_def)

interpretation both_ways: bidirectional "\<lambda>dir. expand (state_provider st) dir ls"
    "\<lambda>v. prov_neighbors (state_provider st) v Out ls" "\<lambda>v. prov_neighbors (state_provider st) v In ls" uncached "\<lambda>_. True"
    DEFAULT_WEIGHT_FN "\<lambda>_ _. 0" "\<lambda>_ _. 0" s goal
  for st ls s goal
  by unfold_locales (simp_all add: DEFAULT_WEIGHT_FN_def state_provider_converse)

end
