(* ===== verification/LogicalTraversal.thy ===== *)
theory LogicalTraversal
  imports StateGraph
begin

text \<open>
  \<open>src/domain/services/LogicalTraversal.js\<close>: the traversals of a materialised graph. Each method
  prepares an engine over the adjacency of the state, checks its start nodes, and runs the engine
  with the limit \<open>Infinity\<close> on the nodes. Here that limit is \<open>unbounded\<close>, which is more than any search
  of the state can meet; the engine needs no cache, since its provider answers at once.
\<close>

section \<open>Options\<close>

datatype logical_error =
    NodeNotFound string
  | InvalidDirection jsval
  | InvalidLabelFilter string
  | Traversal trav_error
  | LabelUndefined

record traverse_options =
  opt_dir :: jsval
  opt_labelFilter :: jsval
  opt_maxDepth :: "nat option"

definition assertDirection :: "jsval \<Rightarrow> logical_error + direction" where
  "assertDirection dir =
     (if dir = JUndef then Inr Out
      else if dir = JStr ''out'' then Inr Out
      else if dir = JStr ''in'' then Inr In
      else if dir = JStr ''both'' then Inr Both
      else Inl (InvalidDirection dir))"

text \<open>Elements of the array that are no strings select no label.\<close>

definition normalizeLabelFilter :: "jsval \<Rightarrow> logical_error + label_filter" where
  "normalizeLabelFilter labelFilter =
     (case labelFilter of
        JUndef \<Rightarrow> Inr None
      | JArr xs \<Rightarrow> Inr (Some (set_of (map js_str (filter js_is_str xs))))
      | JStr s \<Rightarrow> Inr (Some [s])
      | _ \<Rightarrow> Inl (InvalidLabelFilter (js_typeof labelFilter)))"

section \<open>Preparation\<close>

definition unbounded :: "warp_state \<Rightarrow> nat" where
  "unbounded st = 2 * length (orsetElements (nodeAlive st)) + 3"

definition prepareEngine :: "warp_state \<Rightarrow> traverse_options \<Rightarrow> logical_error + provider \<times> direction \<times> label_filter \<times> nat" where
  "prepareEngine st opts =
     (if buildAdjacency st = None then Inl LabelUndefined
      else
        bind_r (assertDirection (opt_dir opts)) (\<lambda>direction.
        bind_r (normalizeLabelFilter (opt_labelFilter opts)) (\<lambda>labels.
        Inr (state_provider st, direction, labels,
          (case opt_maxDepth opts of None \<Rightarrow> DEFAULT_MAX_DEPTH | Some d \<Rightarrow> d)))))"

definition requireNode :: "warp_state \<Rightarrow> string \<Rightarrow> logical_error + unit" where
  "requireNode st v = (if orsetContains (nodeAlive st) v then Inr () else Inl (NodeNotFound v))"

fun requireNodes :: "warp_state \<Rightarrow> string list \<Rightarrow> logical_error + unit" where
  "requireNodes st [] = Inr ()"
| "requireNodes st (v # vs) = bind_r (requireNode st v) (\<lambda>_. requireNodes st vs)"

definition prepare :: "warp_state \<Rightarrow> string \<Rightarrow> traverse_options \<Rightarrow> logical_error + provider \<times> direction \<times> label_filter \<times> nat" where
  "prepare st start opts =
     bind_r (prepareEngine st opts) (\<lambda>prepared. bind_r (requireNode st start) (\<lambda>_. Inr prepared))"

text \<open>The engine's error is thrown on; a search may also not return.\<close>

definition engine_result :: "('r \<Rightarrow> 'a) \<Rightarrow> trav_error + 'r \<Rightarrow> logical_error + 'a" where
  "engine_result f r = (case r of Inl e \<Rightarrow> Inl (Traversal e) | Inr x \<Rightarrow> Inr (f x))"

definition engine_run :: "logical_error + 'p \<Rightarrow> ('p \<Rightarrow> (neighbor_cache \<times> (trav_error + 'r)) option) \<Rightarrow> ('r \<Rightarrow> 'a) \<Rightarrow> (logical_error + 'a) option" where
  "engine_run prepared go f =
     (case prepared of Inl e \<Rightarrow> Some (Inl e) | Inr x \<Rightarrow> map_option (\<lambda>(_, r). engine_result f r) (go x))"

section \<open>The methods\<close>

definition logical_bfs :: "warp_state \<Rightarrow> string \<Rightarrow> traverse_options \<Rightarrow> logical_error + string list" where
  "logical_bfs st start opts =
     bind_r (prepare st start opts) (\<lambda>(engine, direction, labels, depthLimit).
       engine_result found_nodes (snd (bfs engine start direction labels (unbounded st) depthLimit None)))"

definition logical_dfs :: "warp_state \<Rightarrow> string \<Rightarrow> traverse_options \<Rightarrow> logical_error + string list" where
  "logical_dfs st start opts =
     bind_r (prepare st start opts) (\<lambda>(engine, direction, labels, depthLimit).
       engine_result found_nodes (snd (dfs engine start direction labels (unbounded st) depthLimit None)))"

definition logical_shortestPath :: "warp_state \<Rightarrow> string \<Rightarrow> string \<Rightarrow> traverse_options \<Rightarrow> (logical_error + bool \<times> string list \<times> int) option" where
  "logical_shortestPath st from to opts =
     engine_run (prepare st from opts)
       (\<lambda>(engine, direction, labels, depthLimit). shortestPath engine from to direction labels (unbounded st) depthLimit None)
       (\<lambda>r. (path_found r, path_nodes r, path_length r))"

definition logical_connectedComponent :: "warp_state \<Rightarrow> string \<Rightarrow> traverse_options \<Rightarrow> logical_error + string list" where
  "logical_connectedComponent st start opts = logical_bfs st start (opts\<lparr>opt_dir := JStr ''both''\<rparr>)"

definition logical_isReachable :: "warp_state \<Rightarrow> string \<Rightarrow> string \<Rightarrow> traverse_options \<Rightarrow> logical_error + bool" where
  "logical_isReachable st from to opts =
     bind_r (prepareEngine st opts) (\<lambda>(engine, direction, labels, depthLimit).
       Inr (fst (snd (isReachable engine from to direction labels (unbounded st) depthLimit None))))"

definition logical_weightedShortestPath ::
  "warp_state \<Rightarrow> string \<Rightarrow> string \<Rightarrow> traverse_options \<Rightarrow> 'w::linordered_idom edge_weight option \<Rightarrow> (string \<Rightarrow> 'w) option \<Rightarrow>
   (logical_error + string list \<times> 'w) option" where
  "logical_weightedShortestPath st from to opts weightFn nodeWeightFn =
     engine_run (prepare st from opts)
       (\<lambda>(engine, direction, labels, _). weightedShortestPath engine from to direction labels weightFn nodeWeightFn (unbounded st) None)
       (\<lambda>r. (cp_path r, cp_totalCost r))"

text \<open>A missing heuristic is zero.\<close>

definition heuristic_or_zero :: "(string \<Rightarrow> string \<Rightarrow> 'w::linordered_idom) option \<Rightarrow> string \<Rightarrow> string \<Rightarrow> 'w" where
  "heuristic_or_zero h = (case h of None \<Rightarrow> (\<lambda>_ _. 0) | Some f \<Rightarrow> f)"

definition logical_aStarSearch ::
  "warp_state \<Rightarrow> string \<Rightarrow> string \<Rightarrow> traverse_options \<Rightarrow> 'w::linordered_idom edge_weight option \<Rightarrow> (string \<Rightarrow> 'w) option \<Rightarrow>
   (string \<Rightarrow> string \<Rightarrow> 'w) option \<Rightarrow> (logical_error + string list \<times> 'w \<times> nat) option" where
  "logical_aStarSearch st from to opts weightFn nodeWeightFn heuristicFn =
     engine_run (prepare st from opts)
       (\<lambda>(engine, direction, labels, _). aStarSearch engine from to direction labels weightFn nodeWeightFn
          (heuristic_or_zero heuristicFn) (unbounded st) None)
       (\<lambda>r. (cp_path r, cp_totalCost r, cp_nodesExplored r))"

definition logical_bidirectionalAStar ::
  "warp_state \<Rightarrow> string \<Rightarrow> string \<Rightarrow> traverse_options \<Rightarrow> 'w::linordered_idom edge_weight option \<Rightarrow> (string \<Rightarrow> 'w) option \<Rightarrow>
   (string \<Rightarrow> string \<Rightarrow> 'w) option \<Rightarrow> (string \<Rightarrow> string \<Rightarrow> 'w) option \<Rightarrow> (logical_error + string list \<times> 'w \<times> nat) option" where
  "logical_bidirectionalAStar st from to opts weightFn nodeWeightFn forwardHeuristic backwardHeuristic =
     engine_run (prepare st from opts)
       (\<lambda>(engine, _, labels, _). bidirectionalAStar engine from to labels weightFn nodeWeightFn
          (heuristic_or_zero forwardHeuristic) (heuristic_or_zero backwardHeuristic) (unbounded st) None)
       (\<lambda>r. (cp_path r, cp_totalCost r, cp_nodesExplored r))"

definition logical_starts ::
  "warp_state \<Rightarrow> string list \<Rightarrow> traverse_options \<Rightarrow> logical_error + provider \<times> direction \<times> label_filter \<times> nat" where
  "logical_starts st starts opts =
     bind_r (prepareEngine st opts) (\<lambda>prepared. bind_r (requireNodes st starts) (\<lambda>_. Inr prepared))"

definition logical_topologicalSort ::
  "warp_state \<Rightarrow> string list \<Rightarrow> traverse_options \<Rightarrow> bool \<Rightarrow> (logical_error + string list \<times> bool) option" where
  "logical_topologicalSort st start opts throwOnCycle =
     engine_run (logical_starts st start opts)
       (\<lambda>(engine, direction, labels, _). topologicalSort engine start direction labels (unbounded st) throwOnCycle False None None)
       (\<lambda>r. (topo_sorted r, topo_hasCycle r))"

definition logical_commonAncestors ::
  "warp_state \<Rightarrow> string list \<Rightarrow> traverse_options \<Rightarrow> nat option \<Rightarrow> logical_error + string list" where
  "logical_commonAncestors st nodes opts maxResults =
     bind_r (logical_starts st nodes opts) (\<lambda>(engine, _, labels, depthLimit).
       engine_result found_nodes (snd (commonAncestors engine nodes labels depthLimit
         (case maxResults of None \<Rightarrow> 100 | Some n \<Rightarrow> n) None)))"

definition logical_weightedLongestPath ::
  "warp_state \<Rightarrow> string \<Rightarrow> string \<Rightarrow> traverse_options \<Rightarrow> 'w::linordered_idom edge_weight option \<Rightarrow> (string \<Rightarrow> 'w) option \<Rightarrow>
   (logical_error + string list \<times> 'w) option" where
  "logical_weightedLongestPath st from to opts weightFn nodeWeightFn =
     engine_run (prepare st from opts)
       (\<lambda>(engine, direction, labels, _). weightedLongestPath engine from to direction labels weightFn nodeWeightFn (unbounded st) None)
       (\<lambda>r. (cp_path r, cp_totalCost r))"

definition logical_levels :: "warp_state \<Rightarrow> string list \<Rightarrow> traverse_options \<Rightarrow> (logical_error + (string, nat) jsmap \<times> nat) option" where
  "logical_levels st start opts =
     engine_run (logical_starts st start opts)
       (\<lambda>(engine, direction, labels, _). levels engine start direction labels (unbounded st) None)
       (\<lambda>r. (level_map r, level_max r))"

definition logical_transitiveReduction ::
  "warp_state \<Rightarrow> string list \<Rightarrow> traverse_options \<Rightarrow> (logical_error + full_edge list \<times> nat) option" where
  "logical_transitiveReduction st start opts =
     engine_run (logical_starts st start opts)
       (\<lambda>(engine, direction, labels, _). transitiveReduction engine start direction labels (unbounded st) None)
       (\<lambda>r. (red_edges r, red_removed r))"

text \<open>The default of \<open>maxEdges\<close> is a million.\<close>

definition logical_transitiveClosure ::
  "warp_state \<Rightarrow> string list \<Rightarrow> traverse_options \<Rightarrow> nat option \<Rightarrow> logical_error + (string \<times> string) list" where
  "logical_transitiveClosure st start opts maxEdges =
     bind_r (logical_starts st start opts) (\<lambda>(engine, direction, labels, _).
       engine_result (\<lambda>(_, r). clo_edges r)
         (transitiveClosure engine start direction labels (unbounded st) (case maxEdges of None \<Rightarrow> 1000000 | Some n \<Rightarrow> n) None))"

definition logical_rootAncestors :: "warp_state \<Rightarrow> string \<Rightarrow> traverse_options \<Rightarrow> logical_error + string list" where
  "logical_rootAncestors st start opts =
     bind_r (prepare st start opts) (\<lambda>(engine, _, labels, depthLimit).
       engine_result found_nodes (snd (rootAncestors engine start labels (unbounded st) depthLimit None)))"

section \<open>The limit is never met\<close>

lemma reached_alive:
  "(succs (\<lambda>v. prov_neighbors (state_provider st) v d ls))\<^sup>* `` A \<subseteq> A \<union> {v. orsetContains (nodeAlive st) v}"
proof
  let ?nb = "\<lambda>v. prov_neighbors (state_provider st) v d ls"
  fix v assume "v \<in> (succs ?nb)\<^sup>* `` A"
  then obtain s where "s \<in> A" "(s, v) \<in> (succs ?nb)\<^sup>*" by blast
  from this(2,1) show "v \<in> A \<union> {v. orsetContains (nodeAlive st) v}"
    by (cases rule: rtranclE) (auto simp: succs_def dest: state_provider_alive)
qed

lemma unbounded_reach:
  assumes "length ss \<le> 1 \<or> set ss \<subseteq> {v. orsetContains (nodeAlive st) v}"
  shows "2 * card ((succs (\<lambda>v. prov_neighbors (state_provider st) v d ls))\<^sup>* `` set ss) < unbounded st"
proof -
  let ?nb = "\<lambda>v. prov_neighbors (state_provider st) v d ls"
  let ?alive = "set (orsetElements (nodeAlive st))"
  have sub: "(succs ?nb)\<^sup>* `` set ss \<subseteq> set ss \<union> ?alive" using reached_alive [of st d ls "set ss"] by simp
  have alive: "card ?alive \<le> length (orsetElements (nodeAlive st))" by (rule card_length)
  have "card (set ss \<union> ?alive) \<le> length (orsetElements (nodeAlive st)) + 1"
  proof (cases "set ss \<subseteq> ?alive")
    case True
    then show ?thesis using alive by (simp only: Un_absorb1)
  next
    case False
    then have "length ss \<le> 1" using assms by auto
    then have "card (set ss) \<le> 1" using card_length [of ss] by simp
    then show ?thesis using alive card_Un_le [of "set ss" ?alive] by simp
  qed
  moreover have "card ((succs ?nb)\<^sup>* `` set ss) \<le> card (set ss \<union> ?alive)" by (rule card_mono [OF finite_UnI [OF List.finite_set List.finite_set] sub])
  ultimately show ?thesis by (simp add: unbounded_def)
qed

end
