(* ===== verification/TraversalResults.thy ===== *)
theory TraversalResults
  imports LogicalTraversal
begin

text \<open>
  What the methods of \<open>src/domain/services/LogicalTraversal.js\<close> answer on a materialised state, in
  terms of the state's visible edges. \<open>sees\<close> is the graph a traversal runs on: the visible edges,
  in the direction and with the labels of its options. Each method is described completely: its
  start nodes are alive, its options are valid, and its answer follows from \<open>sees\<close> alone.
\<close>

section \<open>The graph of a traversal\<close>

definition sees_edge :: "warp_state \<Rightarrow> direction \<Rightarrow> label_filter \<Rightarrow> string \<Rightarrow> string \<Rightarrow> string \<Rightarrow> bool" where
  "sees_edge st d ls u v l \<longleftrightarrow>
     (case ls of None \<Rightarrow> True | Some a \<Rightarrow> l \<in> set a) \<and>
     (case d of Out \<Rightarrow> visible_edge st u v l | In \<Rightarrow> visible_edge st v u l | Both \<Rightarrow> visible_edge st u v l \<or> visible_edge st v u l)"

definition sees :: "warp_state \<Rightarrow> direction \<Rightarrow> label_filter \<Rightarrow> (string \<times> string) set" where
  "sees st d ls = {(u, v). \<exists>l. sees_edge st d ls u v l}"

definition nbs :: "warp_state \<Rightarrow> direction \<Rightarrow> label_filter \<Rightarrow> string \<Rightarrow> neighbor_edge list" where
  "nbs st d ls v = prov_neighbors (state_provider st) v d ls"

lemma nbs_edges:
  assumes "wellkeyed st"
  shows "e \<in> set (nbs st d ls u) \<longleftrightarrow> sees_edge st d ls u (neighborId e) (edge_label e)"
proof -
  obtain v l where e: "e = NeighborEdge v l" by (cases e)
  have all: "e \<in> set (nbs st d None u) \<longleftrightarrow> sees_edge st d None u v l"
    using state_provider_edges(2) [OF assms, of v l u] state_provider_edges(3) [OF assms, of v l u]
    by (cases d) (simp_all add: e nbs_def sees_edge_def graph.both_union)
  show ?thesis
  proof (cases ls)
    case None
    with all e show ?thesis by simp
  next
    case (Some a)
    have "e \<in> set (nbs st d (Some a) u) \<longleftrightarrow> e \<in> set (nbs st d None u) \<and> l \<in> set a"
      by (simp add: nbs_def graph.filtered e)
    with all Some e show ?thesis by (auto simp: sees_edge_def)
  qed
qed

lemma nbs_succs: "wellkeyed st \<Longrightarrow> succs (nbs st d ls) = sees st d ls"
proof -
  assume "wellkeyed st"
  note e = nbs_edges [OF this]
  have "(u, v) \<in> succs (nbs st d ls) \<longleftrightarrow> (u, v) \<in> sees st d ls" for u v
  proof
    assume "(u, v) \<in> succs (nbs st d ls)"
    then show "(u, v) \<in> sees st d ls" by (auto simp: succs_def sees_def e)
  next
    assume "(u, v) \<in> sees st d ls"
    then obtain l where "sees_edge st d ls u v l" by (auto simp: sees_def)
    then have "NeighborEdge v l \<in> set (nbs st d ls u)" by (simp add: e)
    then show "(u, v) \<in> succs (nbs st d ls)" by (force simp: succs_def)
  qed
  then show ?thesis by auto
qed

text \<open>The number of steps to a node, and the order in which breadth-first search lists nodes.\<close>

definition hops :: "(string \<times> string) set \<Rightarrow> string \<Rightarrow> string \<Rightarrow> nat" where
  "hops R s v = (LEAST k. (s, v) \<in> R ^^ k)"

lemma hops_layer: "v \<in> dist_layer nb s k \<Longrightarrow> hops (succs nb) s v = k"
  unfolding hops_def dist_layer_steps by (rule Least_equality) (auto simp: not_less [symmetric])

lemma within_layer: "v \<in> nearer nb s k \<Longrightarrow> \<exists>j<k. v \<in> dist_layer nb s j"
proof (induction k)
  case (Suc k)
  then show ?case by (cases "v \<in> nearer nb s k") (auto simp: dist_layer_def simp del: nearer.simps intro: less_SucI)
qed simp

definition listed_before :: "(string \<times> string) set \<Rightarrow> string \<Rightarrow> string \<Rightarrow> string \<Rightarrow> bool" where
  "listed_before R s u v \<longleftrightarrow> hops R s u < hops R s v \<or> hops R s u = hops R s v \<and> u < v"

lemma bfs_order_listed: "sorted_wrt (listed_before (succs nb) s) (bfs_order nb s k)"
proof (induction k)
  case (Suc k)
  have layer: "sorted_wrt (listed_before (succs nb) s) (sorted_list_of_set (dist_layer nb s k))"
    by (rule sorted_wrt_mono_rel [OF _ strict_sorted_list_of_set])
      (auto simp: listed_before_def dest: hops_layer)
  have "listed_before (succs nb) s u v" if u: "u \<in> nearer nb s k" and v: "v \<in> dist_layer nb s k" for u v
    using within_layer [OF u] hops_layer [OF v] hops_layer [of u nb s] by (auto simp: listed_before_def)
  with Suc layer show ?case by (auto simp: sorted_wrt_append)
qed simp

section \<open>Preparation succeeds\<close>

definition prepares :: "warp_state \<Rightarrow> traverse_options \<Rightarrow> direction \<Rightarrow> label_filter \<Rightarrow> bool" where
  "prepares st opts d ls \<longleftrightarrow> wellkeyed st \<and> assertDirection (opt_dir opts) = Inr d \<and>
     normalizeLabelFilter (opt_labelFilter opts) = Inr ls"

definition depth_limit :: "traverse_options \<Rightarrow> nat" where
  "depth_limit opts = (case opt_maxDepth opts of None \<Rightarrow> DEFAULT_MAX_DEPTH | Some k \<Rightarrow> k)"

lemma prepare_ok:
  assumes "prepares st opts d ls"
  shows "prepareEngine st opts = Inr (state_provider st, d, ls, depth_limit opts)"
    and "orsetContains (nodeAlive st) s \<Longrightarrow> prepare st s opts = Inr (state_provider st, d, ls, depth_limit opts)"
    and "set ss \<subseteq> {v. orsetContains (nodeAlive st) v} \<Longrightarrow>
      logical_starts st ss opts = Inr (state_provider st, d, ls, depth_limit opts)"
proof -
  show e: "prepareEngine st opts = Inr (state_provider st, d, ls, depth_limit opts)"
    using assms state_provider_edges(1) by (auto simp: prepareEngine_def prepares_def depth_limit_def)
  show "orsetContains (nodeAlive st) s \<Longrightarrow> prepare st s opts = Inr (state_provider st, d, ls, depth_limit opts)"
    by (simp add: prepare_def e requireNode_def)
  have "set ss \<subseteq> {v. orsetContains (nodeAlive st) v} \<Longrightarrow> requireNodes st ss = Inr ()"
    by (induction ss) (simp_all add: requireNode_def)
  then show "set ss \<subseteq> {v. orsetContains (nodeAlive st) v} \<Longrightarrow>
      logical_starts st ss opts = Inr (state_provider st, d, ls, depth_limit opts)"
    by (simp add: logical_starts_def e)
qed

lemma start_node: "wellkeyed st \<Longrightarrow> orsetContains (nodeAlive st) s \<Longrightarrow> prov_hasNode (state_provider st) s"
  by (simp add: state_provider_edges(4) nodeVisibleV5_def)

lemma uncached_start [simp]: "uncached (newRunStats None)"
  by (simp add: uncached_def newRunStats_def)

lemma uncached_again: "uncached rs \<Longrightarrow> uncached (newRunStats (neighborCache rs))"
  by (simp add: uncached_def newRunStats_def)

lemma nbs_reading: "reading (expand (state_provider st) d ls) (nbs st d ls) uncached (\<lambda>_. True)"
  unfolding nbs_def by (rule sync.reading_axioms)

lemma nbs_finite: "finite A \<Longrightarrow> finite ((succs (nbs st d ls))\<^sup>* `` A)"
  unfolding nbs_def by (rule state_reachable_finite)

lemma nbs_limit:
  "length ss \<le> 1 \<or> set ss \<subseteq> {v. orsetContains (nodeAlive st) v} \<Longrightarrow> 2 * card ((succs (nbs st d ls))\<^sup>* `` set ss) < unbounded st"
  unfolding nbs_def by (rule unbounded_reach)

section \<open>A state to run on\<close>

text \<open>A diamond: two ways from \<open>a\<close> to \<open>d\<close>, and an edge from \<open>a\<close> to the node \<open>e\<close>, which is not alive.\<close>

definition diamond :: warp_state where
  "diamond = createEmptyStateV5
     \<lparr>nodeAlive := \<lparr>entries = [(''a'', [''w:1'']), (''b'', [''w:2'']), (''c'', [''w:3'']), (''d'', [''w:4''])], tombstones = []\<rparr>,
      edgeAlive := \<lparr>entries = map (\<lambda>(f, t, d). (encodeEdgeKey f t ''l'', [d]))
        [(''a'', ''b'', ''w:5''), (''a'', ''c'', ''w:6''), (''b'', ''d'', ''w:7''), (''c'', ''d'', ''w:8''), (''a'', ''e'', ''w:9'')],
        tombstones = []\<rparr>\<rparr>"

definition plain_options :: traverse_options where
  "plain_options = \<lparr>opt_dir = JUndef, opt_labelFilter = JUndef, opt_maxDepth = None\<rparr>"

lemma diamond_props: "propMap diamond = []"
  by (simp add: diamond_def createEmptyStateV5_def)

lemma diamond_nodes [simp]: "orsetContains (nodeAlive diamond) v \<longleftrightarrow> v \<in> {''a'', ''b'', ''c'', ''d''}"
  by (auto simp: diamond_def orsetContains_def)

lemma diamond_wellkeyed: "wellkeyed diamond"
  by (auto simp: wellkeyed_def diamond_props orsetContains_def diamond_def encodeEdgeKey_def FIELD_SEPARATOR_def
      no_prefix_def EDGE_PROP_PREFIX_def split: if_splits)

lemma diamond_prepares: "prepares diamond plain_options Out None"
  by (simp add: prepares_def diamond_wellkeyed plain_options_def assertDirection_def normalizeLabelFilter_def)

section \<open>Breadth-first search and shortest paths\<close>

text \<open>
  C24. A breadth-first traversal lists exactly the nodes within the depth limit of its start in the
  graph of visible edges, each once, ordered by distance and, at equal distance, by id.
\<close>

theorem bfs_lists_by_distance:
  assumes "prepares st opts d ls" "orsetContains (nodeAlive st) start"
  shows "\<exists>vs. logical_bfs st start opts = Inr vs \<and> distinct vs \<and>
    set vs = {v. \<exists>k \<le> depth_limit opts. (start, v) \<in> sees st d ls ^^ k} \<and>
    sorted_wrt (listed_before (sees st d ls) start) vs"
proof -
  let ?nb = "nbs st d ls" and ?m = "depth_limit opts"
  have wk: "wellkeyed st" using assms(1) by (simp add: prepares_def)
  note R = nbs_succs [OF wk, of d ls]
  obtain rs where f: "bfs_loop (expand (state_provider st) d ls) (unbounded st) ?m [] [] (newRunStats None) [(start, 0)] =
      (take (unbounded st) (bfs_order ?nb start (Suc ?m)), take (unbounded st) (bfs_order ?nb start (Suc ?m)), rs)"
    by (rule reading.bfs_loop_finds [OF nbs_reading, where s = start and rs = "newRunStats None"]) auto
  have "set (bfs_order ?nb start (Suc ?m)) \<subseteq> (succs ?nb)\<^sup>* `` {start}"
    unfolding bfs_order_set using reachable_before [of start _ ?nb] by blast
  then have "card (set (bfs_order ?nb start (Suc ?m))) \<le> card ((succs ?nb)\<^sup>* `` {start})"
    by (rule card_mono [OF nbs_finite, rotated]) simp
  then have "length (bfs_order ?nb start (Suc ?m)) \<le> unbounded st"
    using nbs_limit [of "[start]" st d ls] distinct_card [OF bfs_order_distinct, of ?nb start "Suc ?m"]
    by (simp del: bfs_order.simps bfs_order_set)
  then have "logical_bfs st start opts = Inr (bfs_order ?nb start (Suc ?m))"
    using f by (simp add: logical_bfs_def prepare_ok(2) [OF assms] engine_result_def bfs_def validateStart_def
        start_node [OF wk assms(2)] del: bfs_order.simps)
  moreover have "set (bfs_order ?nb start (Suc ?m)) = {v. \<exists>k \<le> ?m. (start, v) \<in> sees st d ls ^^ k}"
    unfolding bfs_order_set R [symmetric] by (auto simp: before_steps less_Suc_eq_le simp del: nearer.simps)
  ultimately show ?thesis using bfs_order_listed [of ?nb start "Suc ?m"] unfolding R by (metis bfs_order_distinct)
qed

theorem bfs_lists_by_distance_witness:
  "\<exists>vs. logical_bfs diamond ''a'' plain_options = Inr vs \<and> distinct vs \<and>
    set vs = {v. \<exists>k \<le> depth_limit plain_options. (''a'', v) \<in> sees diamond Out None ^^ k} \<and>
    sorted_wrt (listed_before (sees diamond Out None) ''a'') vs"
  by (rule bfs_lists_by_distance [OF diamond_prepares]) simp

text \<open>
  C25. A shortest-path query always returns. It finds a path exactly when the goal is within the depth
  limit, and then a path of visible edges with as few edges as any.
\<close>

theorem shortest_path_is_shortest:
  assumes "prepares st opts d ls" "orsetContains (nodeAlive st) start"
  shows "\<exists>found path n. logical_shortestPath st start goal opts = Some (Inr (found, path, n)) \<and>
    (found \<longleftrightarrow> (\<exists>k \<le> depth_limit opts. (start, goal) \<in> sees st d ls ^^ k)) \<and>
    (found \<longrightarrow> hd path = start \<and> last path = goal \<and> successively (\<lambda>u v. (u, v) \<in> sees st d ls) path \<and>
       n = int (hops (sees st d ls) start goal) \<and> int (length path) = n + 1) \<and>
    (\<not> found \<longrightarrow> path = [] \<and> n = -1)"
proof (cases "start = goal")
  case True
  have "hops (sees st d ls) start start = 0" by (simp add: hops_def)
  then show ?thesis using True prepare_ok(2) [OF assms] assms start_node
    by (auto simp: logical_shortestPath_def engine_run_def engine_result_def shortestPath_def validateStart_def prepares_def
        intro: exI [of _ 0])
next
  case False
  let ?nb = "nbs st d ls" and ?m = "depth_limit opts"
  have wk: "wellkeyed st" using assms(1) by (simp add: prepares_def)
  note R = nbs_succs [OF wk, of d ls]
  define sp where "sp = sp_loop (expand (state_provider st) d ls) goal (unbounded st) ?m
    \<lparr>sp_visited = [start], sp_parent = [], sp_next = [(start, 0)], sp_run = newRunStats None, sp_found = False\<rparr>"
  have fin: "reading.sp_final ?nb uncached start goal (unbounded st) ?m sp"
    unfolding sp_def by (rule reading.sp_loop_finds [OF nbs_reading]) (use False in simp_all)
  note F = fin [unfolded reading.sp_final_def [OF nbs_reading]]
  have "nearer ?nb start (Suc ?m) \<subseteq> (succs ?nb)\<^sup>* `` {start}" using reachable_before [of start _ ?nb] by blast
  then have "card (nearer ?nb start (Suc ?m)) \<le> card ((succs ?nb)\<^sup>* `` {start})"
    by (rule card_mono [OF nbs_finite, rotated]) simp
  then have limit: "\<not> unbounded st \<le> card (nearer ?nb start (Suc ?m))" using nbs_limit [of "[start]" st d ls] by simp
  have within: "goal \<in> nearer ?nb start (Suc ?m) \<longleftrightarrow> (\<exists>k \<le> ?m. (start, goal) \<in> sees st d ls ^^ k)"
    unfolding before_steps R by (auto simp: less_Suc_eq_le)
  have unfold: "logical_shortestPath st start goal opts =
      (if sp_found sp then map_option (\<lambda>path. Inr (True, path, int (length path) - 1)) (reconstructPath (sp_parent sp) start goal)
       else Some (Inr (False, [], -1)))"
    using False by (simp add: logical_shortestPath_def engine_run_def prepare_ok(2) [OF assms] shortestPath_def validateStart_def
        start_node [OF wk assms(2)] Let_def option.map_comp comp_def engine_result_def sp_def)
  show ?thesis
  proof (cases "sp_found sp")
    case True
    then obtain k where k: "k < ?m" "goal \<in> dist_layer ?nb start (Suc k)" and "goal \<in> set (sp_visited sp)"
      "pred_tree ?nb start (set (sp_visited sp)) (sp_parent sp)" using F by auto
    with reconstructPath_shortest obtain path where p: "reconstructPath (sp_parent sp) start goal = Some path"
      "is_path ?nb path" "hd path = start" "last path = goal" "length path = Suc (Suc k)" by blast
    have "(start, goal) \<in> sees st d ls ^^ Suc k" using k(2) by (simp add: dist_layer_steps R)
    then have "\<exists>k \<le> ?m. (start, goal) \<in> sees st d ls ^^ k" using k(1) by (intro exI [of _ "Suc k"]) simp
    then show ?thesis using True p hops_layer [OF k(2)] unfold by (intro exI [of _ True]) (simp add: is_path_def R)
  next
    case False
    with F limit have "goal \<notin> nearer ?nb start (Suc ?m)" by simp
    then show ?thesis using False unfold within by simp
  qed
qed

theorem shortest_path_is_shortest_witness:
  "\<exists>found path n. logical_shortestPath diamond ''a'' ''d'' plain_options = Some (Inr (found, path, n)) \<and>
    (found \<longleftrightarrow> (\<exists>k \<le> depth_limit plain_options. (''a'', ''d'') \<in> sees diamond Out None ^^ k)) \<and>
    (found \<longrightarrow> hd path = ''a'' \<and> last path = ''d'' \<and> successively (\<lambda>u v. (u, v) \<in> sees diamond Out None) path \<and>
       n = int (hops (sees diamond Out None) ''a'' ''d'') \<and> int (length path) = n + 1) \<and>
    (\<not> found \<longrightarrow> path = [] \<and> n = -1)"
  by (rule shortest_path_is_shortest [OF diamond_prepares]) simp

section \<open>Weighted searches\<close>

text \<open>A heuristic is consistent when no edge makes the estimate drop by more than its weight.\<close>

definition consistent_for ::
  "warp_state \<Rightarrow> direction \<Rightarrow> label_filter \<Rightarrow> 'w::linordered_idom edge_weight \<Rightarrow> (string \<Rightarrow> 'w) \<Rightarrow> bool" where
  "consistent_for st d ls w h \<longleftrightarrow> (\<forall>u v l. sees_edge st d ls u v l \<longrightarrow> h u \<le> w u v l + h v)"

lemma consistent_weighted:
  assumes "wellkeyed st" "consistent_for st d ls w h"
  shows "weighted (expand (state_provider st) d ls) (nbs st d ls) uncached (\<lambda>_. True) w s h"
  using assms by (intro weighted.intro nbs_reading weighted_axioms.intro) (auto simp: consistent_for_def nbs_edges)

text \<open>
  C26. A* returns, and its path costs as little as any path of visible edges, for every weight and
  consistent heuristic; it reports that there is no path only when the goal cannot be reached.
\<close>

theorem aStar_is_optimal:
  fixes w :: "'w::linordered_idom edge_weight"
  assumes "prepares st opts d ls" "orsetContains (nodeAlive st) start" "resolveWeightFn weightFn nodeWeightFn = Inr w"
    and "consistent_for st d ls w (\<lambda>v. heuristic_or_zero heuristicFn v goal)"
  shows "\<exists>r. logical_aStarSearch st start goal opts weightFn nodeWeightFn heuristicFn = Some r \<and>
    (case r of
       Inl e \<Rightarrow> e = Traversal (NoPath start goal) \<and> (start, goal) \<notin> (sees st d ls)\<^sup>*
     | Inr (path, cost, _) \<Rightarrow> wwalk (nbs st d ls) w start path cost \<and> last path = goal \<and>
         (\<forall>path' cost'. wwalk (nbs st d ls) w start path' cost' \<longrightarrow> last path' = goal \<longrightarrow> cost \<le> cost'))"
proof -
  let ?nb = "nbs st d ls" and ?h = "\<lambda>v. heuristic_or_zero heuristicFn v goal"
  have wk: "wellkeyed st" using assms(1) by (simp add: prepares_def)
  note W = consistent_weighted [OF wk assms(4), of start]
  let ?loop = "ws_loop (expand (state_provider st) d ls) w (\<lambda>v c. c + ?h v) goal (unbounded st)
    \<lparr>ws_dist = [(start, 0)], ws_prev = [], ws_visited = [],
     ws_pq = heap_insert (newMinHeap (Some lexTieBreaker)) start (0 + ?h start), ws_run = newRunStats None\<rparr>"
  obtain found s where loop: "?loop = (found, s)" by fastforce
  have "weighted.ws_final ?nb uncached w start goal (unbounded st) (found, s)"
    unfolding loop [symmetric] by (rule weighted.ws_loop_finds [OF W]) simp
  note F = this [unfolded weighted.ws_final_def [OF W]]
  have unfold: "logical_aStarSearch st start goal opts weightFn nodeWeightFn heuristicFn =
    (if found then map_option (\<lambda>path. Inr (path, the (map_of (ws_dist s) goal), length (ws_visited s))) (reconstructPath (ws_prev s) start goal)
     else Some (Inl (Traversal (NoPath start goal))))"
    using loop by (simp add: logical_aStarSearch_def engine_run_def prepare_ok(2) [OF assms(1,2)] aStarSearch_def weighted_search_def
      assms(3) validateStart_def start_node [OF wk assms(2)] option.map_comp comp_def engine_result_def)
  show ?thesis
  proof (cases found)
    case True
    then obtain c xs where c: "map_of (ws_dist s) goal = Some c" "least_cost ?nb w start goal c"
      "walk_back (ws_prev s) start goal [goal] = Some (goal # xs)" "wwalk ?nb w start (rev (goal # xs)) c" using F by auto
    then show ?thesis using True unfold by (auto simp: reconstructPath_def least_cost_def wcost_def)
  next
    case False
    then have v: "distinct (ws_visited s)" "set (ws_visited s) \<subseteq> (succs ?nb)\<^sup>* `` {start}"
      "length (ws_visited s) < unbounded st \<longrightarrow> (start, goal) \<notin> (succs ?nb)\<^sup>*" using F by simp_all
    have "card (set (ws_visited s)) \<le> card ((succs ?nb)\<^sup>* `` {start})" by (rule card_mono [OF nbs_finite v(2)]) simp
    then have "length (ws_visited s) < unbounded st"
      using nbs_limit [of "[start]" st d ls] distinct_card [OF v(1)] by simp
    then show ?thesis using False v(3) unfold nbs_succs [OF wk, of d ls] by simp
  qed
qed

theorem aStar_is_optimal_witness:
  "\<exists>r. logical_aStarSearch diamond ''a'' ''d'' plain_options None None None = Some r \<and>
    (case r of
       Inl e \<Rightarrow> e = Traversal (NoPath ''a'' ''d'') \<and> (''a'', ''d'') \<notin> (sees diamond Out None)\<^sup>*
     | Inr (path, cost, _) \<Rightarrow> wwalk (nbs diamond Out None) DEFAULT_WEIGHT_FN ''a'' path (cost :: int) \<and> last path = ''d'' \<and>
         (\<forall>path' cost'. wwalk (nbs diamond Out None) DEFAULT_WEIGHT_FN ''a'' path' cost' \<longrightarrow> last path' = ''d'' \<longrightarrow> cost \<le> cost'))"
  by (rule aStar_is_optimal [OF diamond_prepares])
    (simp_all add: resolveWeightFn_def consistent_for_def heuristic_or_zero_def DEFAULT_WEIGHT_FN_def)

text \<open>
  C27. Bidirectional A* returns, and its path costs as little as any path of visible edges, for every
  weight and every pair of consistent heuristics of which the forward one is not positive at the goal.
\<close>

theorem bidirectional_is_optimal:
  fixes w :: "'w::linordered_idom edge_weight"
  assumes "prepares st opts d ls" "orsetContains (nodeAlive st) start" "resolveWeightFn weightFn nodeWeightFn = Inr w"
    and "consistent_for st Out ls w (\<lambda>v. heuristic_or_zero fwd v goal)" "heuristic_or_zero fwd goal goal \<le> 0"
    and "consistent_for st In ls (\<lambda>u v. w v u) (\<lambda>v. heuristic_or_zero bwd v start)"
  shows "\<exists>r. logical_bidirectionalAStar st start goal opts weightFn nodeWeightFn fwd bwd = Some r \<and>
    (case r of
       Inl e \<Rightarrow> e = Traversal (NoPath start goal) \<and> (start, goal) \<notin> (sees st Out ls)\<^sup>*
     | Inr (path, cost, _) \<Rightarrow> wwalk (nbs st Out ls) w start path cost \<and> last path = goal \<and>
         (\<forall>path' cost'. wwalk (nbs st Out ls) w start path' cost' \<longrightarrow> last path' = goal \<longrightarrow> cost \<le> cost'))"
proof -
  let ?fh = "heuristic_or_zero fwd" and ?bh = "heuristic_or_zero bwd" and ?nb = "nbs st Out ls"
  have wk: "wellkeyed st" using assms(1) by (simp add: prepares_def)
  note F = consistent_weighted [OF wk assms(4), of start] and B = consistent_weighted [OF wk assms(6), of goal]
  have "bidirectional_axioms ?nb (nbs st In ls) ?fh goal"
    by (rule bidirectional_axioms.intro) (use assms(5) state_provider_converse in \<open>auto simp: nbs_def\<close>)
  with F B have BI: "bidirectional (\<lambda>dir. expand (state_provider st) dir ls) ?nb (nbs st In ls) uncached (\<lambda>_. True) w ?fh ?bh start goal"
    by (intro bidirectional.intro)
  show ?thesis
  proof (cases "start = goal")
    case True
    have "0 \<le> cost" if "wwalk ?nb w start path cost" "last path = start" for path cost
      using weighted.wwalk_estimate [OF F that(1)] that(2) by simp
    moreover have "logical_bidirectionalAStar st start goal opts weightFn nodeWeightFn fwd bwd = Some (Inr ([start], 0, 1))"
      using True prepare_ok(2) [OF assms(1,2)] start_node [OF wk assms(2)]
      by (simp add: logical_bidirectionalAStar_def engine_run_def bidirectionalAStar_def assms(3) validateStart_def engine_result_def)
    ultimately show ?thesis using True wwalk_start [of ?nb w goal] by auto
  next
    case False
    let ?loop = "bi_loop (\<lambda>dir. expand (state_provider st) dir ls) w ?fh ?bh start goal (unbounded st) 0
      (bi_side_at start (?fh start goal)) (bi_side_at goal (?bh goal start)) \<lparr>bb_mu = None, bb_meeting = None\<rparr> (newRunStats None)"
    obtain explored sf sb best rs where loop: "?loop = (explored, sf, sb, best, rs)" by (metis prod_cases5)
    have final: "bidirectional.bi_final ?nb (nbs st In ls) uncached w ?fh ?bh start goal (unbounded st) (explored, sf, sb, best, rs)"
      unfolding loop [symmetric] by (rule bidirectional.bi_loop_finds [OF BI]) (use False in simp_all)
    note R = bidirectional.bi_result [OF BI final]
    have limit: "explored < unbounded st"
      using bidirectional.bi_final_count [OF BI final nbs_finite nbs_finite]
        nbs_limit [of "[start]" st Out ls] nbs_limit [of "[goal]" st In ls] by simp
    have unfold: "logical_bidirectionalAStar st start goal opts weightFn nodeWeightFn fwd bwd =
      (case bb_meeting best of
         None \<Rightarrow> Some (Inl (Traversal (NoPath start goal)))
       | Some m \<Rightarrow> map_option (\<lambda>path. Inr (path, the (bb_mu best), explored)) (reconstructBiPath (bs_pred sf) (bs_pred sb) start goal m))"
      using False loop by (simp add: logical_bidirectionalAStar_def engine_run_def prepare_ok(2) [OF assms(1,2)] bidirectionalAStar_def
        assms(3) validateStart_def start_node [OF wk assms(2)] option.map_comp comp_def engine_result_def split: option.split)
    show ?thesis
    proof (cases "bb_meeting best")
      case None
      then show ?thesis using R limit unfold by (simp add: nbs_succs [OF wk])
    next
      case (Some m)
      then obtain path mu where "reconstructBiPath (bs_pred sf) (bs_pred sb) start goal m = Some path" "bb_mu best = Some mu"
        "wwalk ?nb w start path mu" "last path = goal" "least_cost ?nb w start goal mu" using R limit by auto
      then show ?thesis using Some unfold by (auto simp: least_cost_def wcost_def)
    qed
  qed
qed

theorem bidirectional_is_optimal_witness:
  "\<exists>r. logical_bidirectionalAStar diamond ''a'' ''d'' plain_options None None None None = Some r \<and>
    (case r of
       Inl e \<Rightarrow> e = Traversal (NoPath ''a'' ''d'') \<and> (''a'', ''d'') \<notin> (sees diamond Out None)\<^sup>*
     | Inr (path, cost, _) \<Rightarrow> wwalk (nbs diamond Out None) DEFAULT_WEIGHT_FN ''a'' path (cost :: int) \<and> last path = ''d'' \<and>
         (\<forall>path' cost'. wwalk (nbs diamond Out None) DEFAULT_WEIGHT_FN ''a'' path' cost' \<longrightarrow> last path' = ''d'' \<longrightarrow> cost \<le> cost'))"
  by (rule bidirectional_is_optimal [OF diamond_prepares])
    (simp_all add: resolveWeightFn_def consistent_for_def heuristic_or_zero_def DEFAULT_WEIGHT_FN_def)

section \<open>Sorting\<close>

text \<open>What the starts can reach, and the edges among it.\<close>

definition region :: "warp_state \<Rightarrow> direction \<Rightarrow> label_filter \<Rightarrow> string list \<Rightarrow> string set" where
  "region st d ls starts = (sees st d ls)\<^sup>* `` set starts"

definition cyclic_region :: "warp_state \<Rightarrow> direction \<Rightarrow> label_filter \<Rightarrow> string list \<Rightarrow> bool" where
  "cyclic_region st d ls starts \<longleftrightarrow>
     \<not> acyclic (sees st d ls \<inter> region st d ls starts \<times> region st d ls starts)"

lemma cyclic_nbs:
  "wellkeyed st \<Longrightarrow> cyclic_region st d ls starts \<longleftrightarrow>
     \<not> acyclic (succs (nbs st d ls) \<inter> ((succs (nbs st d ls))\<^sup>* `` set starts) \<times> ((succs (nbs st d ls))\<^sup>* `` set starts))"
  by (simp add: cyclic_region_def region_def nbs_succs)

text \<open>
  C28. Topological sorting always returns, on cyclic graphs too. It reports a cycle exactly when the
  part of the visible graph that the starts reach has one, and otherwise lists that part, each node
  once and before all nodes it has an edge to; with the option it throws on a cycle instead.
\<close>

theorem topological_sort_decides:
  assumes "prepares st opts d ls" "\<forall>s \<in> set starts. orsetContains (nodeAlive st) s"
  shows "\<exists>r. logical_topologicalSort st starts opts throwOnCycle = Some r \<and>
    (case r of
       Inl e \<Rightarrow> throwOnCycle \<and> cyclic_region st d ls starts \<and> (\<exists>k w. e = Traversal (GraphHasCycles k w))
     | Inr (order, hasCycle) \<Rightarrow>
         (hasCycle \<longleftrightarrow> cyclic_region st d ls starts) \<and> \<not> (hasCycle \<and> throwOnCycle) \<and>
         (\<not> hasCycle \<longrightarrow> topological_order (sees st d ls) (region st d ls starts) order))"
proof -
  let ?nb = "nbs st d ls"
  have wk: "wellkeyed st" using assms(1) by (simp add: prepares_def)
  note R = nbs_succs [OF wk, of d ls]
  have alive: "set starts \<subseteq> {v. orsetContains (nodeAlive st) v}" using assms(2) by blast
  have limit: "card ((succs ?nb)\<^sup>* `` set starts) \<le> unbounded st" using nbs_limit [of starts st d ls] alive by linarith
  from topologicalSort_correct [OF nbs_reading, of starts st d ls None "unbounded st" throwOnCycle False None] nbs_finite
  obtain cache' r where sort: "topologicalSort (state_provider st) starts d ls (unbounded st) throwOnCycle False None None = Some (cache', r)"
    and ok: "topo_correct ?nb ((succs ?nb)\<^sup>* `` set starts) (unbounded st) throwOnCycle r"
    using start_node [OF wk] assms(2) by auto
  have run: "logical_topologicalSort st starts opts throwOnCycle = Some (engine_result (\<lambda>r. (topo_sorted r, topo_hasCycle r)) r)"
    using sort by (simp add: logical_topologicalSort_def engine_run_def prepare_ok(3) [OF assms(1) alive])
  show ?thesis
  proof (cases r)
    case (Inl e)
    with run ok show ?thesis by (auto simp: engine_result_def topo_correct_def cyclic_nbs [OF wk])
  next
    case (Inr t)
    have "topo_hasCycle t \<longleftrightarrow> cyclic_region st d ls starts"
      using ok Inr limit topological_acyclic by (auto simp: topo_correct_def cyclic_nbs [OF wk])
    moreover have "\<not> topo_hasCycle t \<longrightarrow> topological_order (sees st d ls) (region st d ls starts) (topo_sorted t)"
      using ok Inr limit by (simp add: topo_correct_def region_def R)
    moreover have "\<not> (topo_hasCycle t \<and> throwOnCycle)" using ok Inr by (auto simp: topo_correct_def)
    ultimately show ?thesis using run Inr by (simp add: engine_result_def)
  qed
qed

theorem topological_sort_decides_witness:
  "\<exists>r. logical_topologicalSort diamond [''a''] plain_options True = Some r \<and>
    (case r of
       Inl e \<Rightarrow> True \<and> cyclic_region diamond Out None [''a''] \<and> (\<exists>k w. e = Traversal (GraphHasCycles k w))
     | Inr (order, hasCycle) \<Rightarrow>
         (hasCycle \<longleftrightarrow> cyclic_region diamond Out None [''a'']) \<and> \<not> (hasCycle \<and> True) \<and>
         (\<not> hasCycle \<longrightarrow> topological_order (sees diamond Out None) (region diamond Out None [''a'']) order))"
  by (rule topological_sort_decides [OF diamond_prepares]) simp



section \<open>Reduction and closure\<close>

text \<open>
  C30. The transitive reduction returns exactly the visible edges that no longer path makes redundant,
  and they reach what the original edges reach, provided that no id contains a null character; when
  the starts reach a cycle it throws instead.
\<close>

theorem reduction_is_exact:
  assumes "prepares st opts d ls" "\<forall>s \<in> set starts. orsetContains (nodeAlive st) s"
    and "\<forall>v. orsetContains (nodeAlive st) v \<longrightarrow> plain_id v"
  shows "\<exists>r. logical_transitiveReduction st starts opts = Some r \<and>
    (case r of
       Inl e \<Rightarrow> (\<exists>k w. e = Traversal (GraphHasCycles k w)) \<and> cyclic_region st d ls starts
     | Inr (edges, _) \<Rightarrow>
         set edges = {\<lparr>fe_from = u, fe_to = v, fe_label = l\<rparr> |u v l. u \<in> region st d ls starts \<and> sees_edge st d ls u v l \<and>
           \<not> (\<exists>x. (u, x) \<in> sees st d ls \<and> (x, v) \<in> (sees st d ls)\<^sup>+)} \<and>
         (reduced (sees st d ls) (region st d ls starts))\<^sup>+ =
           (sees st d ls \<inter> region st d ls starts \<times> region st d ls starts)\<^sup>+)"
proof -
  let ?nb = "nbs st d ls"
  have wk: "wellkeyed st" using assms(1) by (simp add: prepares_def)
  note R = nbs_succs [OF wk, of d ls]
  have alive: "set starts \<subseteq> {v. orsetContains (nodeAlive st) v}" using assms(2) by blast
  have limit: "card ((succs ?nb)\<^sup>* `` set starts) \<le> unbounded st" using nbs_limit [of starts st d ls] alive by linarith
  have plain: "plain_id v" if "v \<in> (succs ?nb)\<^sup>* `` set starts" for v
    using that reached_alive [of st d ls "set starts", folded nbs_def] alive assms(3) by blast
  note C = reduction_correct [OF nbs_reading _ _ nbs_finite uncached_start uncached_again limit]
  have "prov_hasNode (state_provider st) s" if "s \<in> set starts" for s using start_node [OF wk] assms(2) that by blast
  from C [OF TrueI this List.finite_set _ plain, unfolded R, folded region_def]
  obtain cache' r where L: "transitiveReduction (state_provider st) starts d ls (unbounded st) None = Some (cache', r)"
    and ok: "case r of
       Inl e \<Rightarrow> (\<exists>k w. e = GraphHasCycles k w) \<and>
         \<not> acyclic (sees st d ls \<inter> region st d ls starts \<times> region st d ls starts)
     | Inr t \<Rightarrow> set (red_edges t) = {\<lparr>fe_from = u, fe_to = neighborId e, fe_label = edge_label e\<rparr> |u e.
           u \<in> region st d ls starts \<and> e \<in> set (?nb u) \<and> (u, neighborId e) \<in> reduced (sees st d ls) (region st d ls starts)} \<and>
         (reduced (sees st d ls) (region st d ls starts))\<^sup>+ = (sees st d ls \<inter> region st d ls starts \<times> region st d ls starts)\<^sup>+"
    by blast
  have run: "logical_transitiveReduction st starts opts = Some (engine_result (\<lambda>r. (red_edges r, red_removed r)) r)"
    using L by (simp add: logical_transitiveReduction_def engine_run_def prepare_ok(3) [OF assms(1) alive])
  have edges: "{\<lparr>fe_from = u, fe_to = neighborId e, fe_label = edge_label e\<rparr> |u e.
        u \<in> D \<and> e \<in> set (?nb u) \<and> (u, neighborId e) \<in> reduced (sees st d ls) D} =
      {\<lparr>fe_from = u, fe_to = v, fe_label = l\<rparr> |u v l. u \<in> D \<and> sees_edge st d ls u v l \<and>
        \<not> (\<exists>x. (u, x) \<in> sees st d ls \<and> (x, v) \<in> (sees st d ls)\<^sup>+)}" (is "?A = ?B") for D
  proof
    show "?A \<subseteq> ?B" by (auto simp: nbs_edges [OF wk] reduced_def)
    show "?B \<subseteq> ?A"
    proof clarify
      fix u v l assume "u \<in> D" "sees_edge st d ls u v l" "\<not> (\<exists>x. (u, x) \<in> sees st d ls \<and> (x, v) \<in> (sees st d ls)\<^sup>+)"
      then show "\<exists>u' e. \<lparr>fe_from = u, fe_to = v, fe_label = l\<rparr> = \<lparr>fe_from = u', fe_to = neighborId e, fe_label = edge_label e\<rparr> \<and>
          u' \<in> D \<and> e \<in> set (?nb u') \<and> (u', neighborId e) \<in> reduced (sees st d ls) D"
        by (intro exI [of _ u] exI [of _ "NeighborEdge v l"]) (auto simp: nbs_edges [OF wk] reduced_def sees_def)
    qed
  qed
  show ?thesis
  proof (cases r)
    case (Inl e)
    with run ok show ?thesis by (auto simp: engine_result_def cyclic_region_def)
  next
    case (Inr t)
    with run ok show ?thesis unfolding edges by (simp add: engine_result_def)
  qed
qed

theorem reduction_is_exact_witness:
  "\<exists>r. logical_transitiveReduction diamond [''a''] plain_options = Some r \<and>
    (case r of
       Inl e \<Rightarrow> (\<exists>k w. e = Traversal (GraphHasCycles k w)) \<and> cyclic_region diamond Out None [''a'']
     | Inr (edges, _) \<Rightarrow>
         set edges = {\<lparr>fe_from = u, fe_to = v, fe_label = l\<rparr> |u v l. u \<in> region diamond Out None [''a''] \<and> sees_edge diamond Out None u v l \<and>
           \<not> (\<exists>x. (u, x) \<in> sees diamond Out None \<and> (x, v) \<in> (sees diamond Out None)\<^sup>+)} \<and>
         (reduced (sees diamond Out None) (region diamond Out None [''a'']))\<^sup>+ =
           (sees diamond Out None \<inter> region diamond Out None [''a''] \<times> region diamond Out None [''a''])\<^sup>+)"
  by (rule reduction_is_exact [OF diamond_prepares]) (auto simp: plain_id_def NUL_def)



section \<open>The cache of the engine\<close>

text \<open>
  Memoising neighbors does not change a breadth-first search: over any provider that keeps the
  contract of the port, an engine with a cache, whatever earlier searches have left in it, returns
  what an engine without one returns, provided that no id or label contains a null character, no
  label is empty and the filter is not the label \<open>*\<close> alone.
\<close>

theorem cache_is_transparent:
  assumes "neighbor_provider p" "plain_labels ls" "plain_id start"
    and "\<forall>v e. plain_id v \<longrightarrow> e \<in> set (prov_neighbors p v d ls) \<longrightarrow> plain_id (neighborId e)" "cache_ok p cache"
  shows "cache_ok p (fst (bfs p start d ls n m cache)) \<and>
    (case (snd (bfs p start d ls n m cache), snd (bfs p start d ls n m None)) of
       (Inr r, Inr r') \<Rightarrow> found_nodes r = found_nodes r'
     | (Inl e, Inl e') \<Rightarrow> e = e'
     | _ \<Rightarrow> False)"
proof -
  let ?nb = "\<lambda>v. prov_neighbors p v d ls"
  have rd: "reading (expand p d ls) ?nb (run_ok p) plain_id"
    using neighbor_provider.cached_reading [OF assms(1,2)] assms(4) by blast
  have search: "\<exists>rs. bfs_loop (expand p d ls) n m [] [] (newRunStats c) [(start, 0)] =
      (take n (bfs_order ?nb start (Suc m)), take n (bfs_order ?nb start (Suc m)), rs) \<and> cache_ok p (neighborCache rs)"
    if "cache_ok p c" for c
    by (rule reading.bfs_loop_finds [OF rd assms(3), where rs = "newRunStats c"])
      (use that in \<open>auto simp: run_ok_def newRunStats_def\<close>)
  have none: "cache_ok p None" by (simp add: cache_ok_def)
  show ?thesis
  proof (cases "validateStart p start")
    case (Inl e)
    then show ?thesis using assms(5) by (simp add: bfs_def)
  next
    case (Inr u)
    obtain rs rs' where "bfs_loop (expand p d ls) n m [] [] (newRunStats cache) [(start, 0)] =
        (take n (bfs_order ?nb start (Suc m)), take n (bfs_order ?nb start (Suc m)), rs)" "cache_ok p (neighborCache rs)"
      "bfs_loop (expand p d ls) n m [] [] (newRunStats None) [(start, 0)] =
        (take n (bfs_order ?nb start (Suc m)), take n (bfs_order ?nb start (Suc m)), rs')"
      using search [OF assms(5)] search [OF none] by blast
    then show ?thesis using Inr by (simp add: bfs_def)
  qed
qed

theorem cache_is_transparent_witness:
  "\<exists>c. newNeighborCache ((state_provider diamond)\<lparr>prov_sync := False\<rparr>) (JNum 2) = Inr c \<and> c \<noteq> None \<and>
    (case (snd (bfs (state_provider diamond) ''a'' Out None 10 10 c), snd (bfs (state_provider diamond) ''a'' Out None 10 10 None)) of
       (Inr r, Inr r') \<Rightarrow> found_nodes r = found_nodes r'
     | (Inl e, Inl e') \<Rightarrow> e = e'
     | _ \<Rightarrow> False)"
proof -
  obtain c where c: "newNeighborCache ((state_provider diamond)\<lparr>prov_sync := False\<rparr>) (JNum 2) = Inr c" "c \<noteq> None"
    by (auto simp: newNeighborCache_def newLRUCache_def)
  have "cache_ok (state_provider diamond) c" using newNeighborCache_ok [OF c(1)] by (cases c) (simp_all add: cache_ok_def)
  moreover have "\<forall>v e. plain_id v \<longrightarrow> e \<in> set (prov_neighbors (state_provider diamond) v Out None) \<longrightarrow> plain_id (neighborId e)"
    using state_provider_alive [of _ diamond] by (fastforce simp: plain_id_def NUL_def)
  ultimately show ?thesis
    using cache_is_transparent [OF graph.neighbor_provider_axioms, of None "''a''" diamond Out c 10 10] c
    by (simp add: plain_labels_def plain_id_def NUL_def)
qed

end
