(* ===== verification/RefLayout.thy ===== *)
theory RefLayout
  imports JsStrings
begin

text \<open>
  \<open>src/domain/utils/RefLayout.js\<close>: the Git refs under which a graph keeps its writers, checkpoints,
  cursors, audit chains and caches. The layout is injective: no two graphs, writers or kinds of ref
  share a path, because no segment of a graph name is one of the keywords that follow it.
\<close>

definition REF_PREFIX :: string where
  "REF_PREFIX = ''refs/warp''"

definition MAX_WRITER_ID_LENGTH :: nat where
  "MAX_WRITER_ID_LENGTH = 64"

definition RESERVED_GRAPH_NAME_SEGMENTS :: "string list" where
  "RESERVED_GRAPH_NAME_SEGMENTS =
     [''writers'', ''checkpoints'', ''coverage'', ''cursor'', ''audit'', ''trust'', ''seek-cache'']"

abbreviation slash :: char where "slash \<equiv> CHR ''/''"

section \<open>Validators\<close>

definition check_segment :: "unit \<Rightarrow> string \<Rightarrow> unit result" where
  "check_segment u seg =
     (if seg \<in> set RESERVED_GRAPH_NAME_SEGMENTS then Inl (RefErr (GraphNameReserved seg)) else Inr ())"

definition validateGraphName :: "jsval \<Rightarrow> unit result" where
  "validateGraphName name =
     (if \<not> js_is_str name then Inl (RefErr GraphNameNotString)
      else
        let s = js_str name
        in if length s = 0 then Inl (RefErr GraphNameEmpty)
           else if str_includes s ''..'' then Inl (RefErr GraphNameTraversal)
           else if str_includes s '';'' then Inl (RefErr GraphNameSemicolon)
           else if str_includes s '' '' then Inl (RefErr GraphNameSpace)
           else if str_includes s [CHR 0x00] then Inl (RefErr GraphNameNull)
           else fold_r check_segment () (split_on slash s))"

text \<open>\<open>[A-Za-z0-9._-]\<close>\<close>

definition writer_id_char :: "char \<Rightarrow> bool" where
  "writer_id_char c \<longleftrightarrow>
     (let n = of_char c :: nat
      in 65 \<le> n \<and> n \<le> 90 \<or> 97 \<le> n \<and> n \<le> 122 \<or> 48 \<le> n \<and> n \<le> 57 \<or> n = 46 \<or> n = 95 \<or> n = 45)"

definition validateWriterId :: "jsval \<Rightarrow> unit result" where
  "validateWriterId wid =
     (if \<not> js_is_str wid then Inl (RefErr WriterIdNotString)
      else
        let s = js_str wid
        in if length s = 0 then Inl (RefErr WriterIdIsEmpty)
           else if length s > MAX_WRITER_ID_LENGTH then Inl (RefErr (WriterIdTooLong (length s)))
           else if str_includes s ''..'' then Inl (RefErr WriterIdTraversal)
           else if str_includes s ''/'' then Inl (RefErr WriterIdSlash)
           else if str_includes s [CHR 0x00] then Inl (RefErr WriterIdNull)
           else if list_ex js_space s then Inl (RefErr WriterIdSpace)
           else if \<not> list_all writer_id_char s then Inl (RefErr WriterIdChars)
           else Inr ())"

section \<open>Builders\<close>

definition graph_ref :: "string \<Rightarrow> string \<Rightarrow> string result" where
  "graph_ref graphName suffix =
     bind_r (validateGraphName (JStr graphName)) (\<lambda>_. Inr (REF_PREFIX @ ''/'' @ graphName @ suffix))"

definition named_ref :: "string \<Rightarrow> string \<Rightarrow> string \<Rightarrow> string result" where
  "named_ref graphName suffix name =
     bind_r (validateGraphName (JStr graphName)) (\<lambda>_.
       bind_r (validateWriterId (JStr name)) (\<lambda>_. Inr (REF_PREFIX @ ''/'' @ graphName @ suffix @ name)))"

definition buildWriterRef :: "string \<Rightarrow> string \<Rightarrow> string result" where
  "buildWriterRef graphName writerId = named_ref graphName ''/writers/'' writerId"

definition buildCheckpointRef :: "string \<Rightarrow> string result" where
  "buildCheckpointRef graphName = graph_ref graphName ''/checkpoints/head''"

definition buildCoverageRef :: "string \<Rightarrow> string result" where
  "buildCoverageRef graphName = graph_ref graphName ''/coverage/head''"

definition buildWritersPrefix :: "string \<Rightarrow> string result" where
  "buildWritersPrefix graphName = graph_ref graphName ''/writers/''"

definition buildCursorActiveRef :: "string \<Rightarrow> string result" where
  "buildCursorActiveRef graphName = graph_ref graphName ''/cursor/active''"

definition buildCursorSavedRef :: "string \<Rightarrow> string \<Rightarrow> string result" where
  "buildCursorSavedRef graphName name = named_ref graphName ''/cursor/saved/'' name"

definition buildCursorSavedPrefix :: "string \<Rightarrow> string result" where
  "buildCursorSavedPrefix graphName = graph_ref graphName ''/cursor/saved/''"

definition buildAuditRef :: "string \<Rightarrow> string \<Rightarrow> string result" where
  "buildAuditRef graphName writerId = named_ref graphName ''/audit/'' writerId"

definition buildAuditPrefix :: "string \<Rightarrow> string result" where
  "buildAuditPrefix graphName = graph_ref graphName ''/audit/''"

definition buildSeekCacheRef :: "string \<Rightarrow> string result" where
  "buildSeekCacheRef graphName = graph_ref graphName ''/seek-cache''"

definition buildTrustRecordRef :: "string \<Rightarrow> string result" where
  "buildTrustRecordRef graphName = graph_ref graphName ''/trust/records''"

section \<open>Parser\<close>

fun index_of :: "string list \<Rightarrow> string \<Rightarrow> nat option" where
  "index_of [] x = None"
| "index_of (y # ys) x = (if y = x then Some 0 else map_option Suc (index_of ys x))"

definition parseWriterIdFromRef :: "jsval \<Rightarrow> string option" where
  "parseWriterIdFromRef refPath =
     (if \<not> js_is_str refPath then None
      else
        let s = js_str refPath; prefix = REF_PREFIX @ ''/''
        in if \<not> starts_with s prefix then None
           else
             let parts = split_on slash (drop (length prefix) s)
             in if length parts < 3 then None
                else (case index_of parts ''writers'' of
                    None \<Rightarrow> None
                  | Some writersIndex \<Rightarrow>
                      if writersIndex = 0 then None
                      else if writersIndex \<noteq> length parts - 2 then None
                      else
                        let writerId = parts ! (length parts - 1)
                        in (case validateWriterId (JStr writerId) of
                              Inr _ \<Rightarrow> Some writerId
                            | Inl _ \<Rightarrow> None)))"

section \<open>The layout is injective\<close>

definition reserved :: "string \<Rightarrow> bool" where
  "reserved seg \<longleftrightarrow> seg \<in> set RESERVED_GRAPH_NAME_SEGMENTS"

lemma check_segments_ok: "fold_r check_segment () segs = Inr () \<longleftrightarrow> (\<forall>s\<in>set segs. \<not> reserved s)"
  by (induction segs) (auto simp: check_segment_def reserved_def)

lemma graph_name_segments: "validateGraphName (JStr g) = Inr () \<Longrightarrow> \<forall>s\<in>set (split_on slash g). \<not> reserved s"
  by (auto simp: validateGraphName_def check_segments_ok Let_def split: if_splits)

lemma writer_id_no_slash: "validateWriterId (JStr w) = Inr () \<Longrightarrow> slash \<notin> set w"
  by (auto simp: validateWriterId_def includes_char Let_def split: if_splits)

lemma writer_id_nonempty: "validateWriterId (JStr w) = Inr () \<Longrightarrow> w \<noteq> []"
  by (auto simp: validateWriterId_def)

datatype ref_kind =
    WriterRef string
  | AuditRef string
  | CursorSavedRef string
  | CheckpointRef
  | CoverageRef
  | CursorActiveRef
  | SeekCacheRef
  | TrustRecordRef

fun build_ref :: "ref_kind \<Rightarrow> string \<Rightarrow> string result" where
  "build_ref (WriterRef w) g = buildWriterRef g w"
| "build_ref (AuditRef w) g = buildAuditRef g w"
| "build_ref (CursorSavedRef n) g = buildCursorSavedRef g n"
| "build_ref CheckpointRef g = buildCheckpointRef g"
| "build_ref CoverageRef g = buildCoverageRef g"
| "build_ref CursorActiveRef g = buildCursorActiveRef g"
| "build_ref SeekCacheRef g = buildSeekCacheRef g"
| "build_ref TrustRecordRef g = buildTrustRecordRef g"

text \<open>The segments that follow the graph name; the first one is a keyword.\<close>

fun ref_tail :: "ref_kind \<Rightarrow> string list" where
  "ref_tail (WriterRef w) = [''writers'', w]"
| "ref_tail (AuditRef w) = [''audit'', w]"
| "ref_tail (CursorSavedRef n) = [''cursor'', ''saved'', n]"
| "ref_tail CheckpointRef = [''checkpoints'', ''head'']"
| "ref_tail CoverageRef = [''coverage'', ''head'']"
| "ref_tail CursorActiveRef = [''cursor'', ''active'']"
| "ref_tail SeekCacheRef = [''seek-cache'']"
| "ref_tail TrustRecordRef = [''trust'', ''records'']"

fun kind_name :: "ref_kind \<Rightarrow> string option" where
  "kind_name (WriterRef w) = Some w"
| "kind_name (AuditRef w) = Some w"
| "kind_name (CursorSavedRef w) = Some w"
| "kind_name _ = None"

lemma build_ref_ok:
  "build_ref k g = Inr r \<longleftrightarrow>
     validateGraphName (JStr g) = Inr () \<and>
     (\<forall>n. kind_name k = Some n \<longrightarrow> validateWriterId (JStr n) = Inr ()) \<and>
     r = REF_PREFIX @ slash # g @ slash # join_with [slash] (ref_tail k)"
  by (cases k)
    (auto simp: buildWriterRef_def buildAuditRef_def buildCursorSavedRef_def buildCheckpointRef_def
      buildCoverageRef_def buildCursorActiveRef_def buildSeekCacheRef_def buildTrustRecordRef_def
      named_ref_def graph_ref_def bind_r_Inr_iff)

lemma split_on_append_sep: "split_on c (xs @ c # ys) = split_on c xs @ split_on c ys"
  by (induction xs) (auto split: list.splits)

lemma ref_tail_segments:
  assumes "\<forall>n. kind_name k = Some n \<longrightarrow> validateWriterId (JStr n) = Inr ()"
  shows "split_on slash (join_with [slash] (ref_tail k)) = ref_tail k"
  using assms by (intro split_on_join) (cases k; auto dest: writer_id_no_slash)+

lemma ref_tail_reserved: "reserved (hd (ref_tail k))" "ref_tail k \<noteq> []"
  by (cases k; simp add: reserved_def RESERVED_GRAPH_NAME_SEGMENTS_def)+

lemma ref_tail_inj: "ref_tail k = ref_tail k' \<Longrightarrow> k = k'"
  by (cases k; cases k') auto

lemma build_ref_segments:
  assumes "build_ref k g = Inr r"
  shows "split_on slash r = [''refs'', ''warp''] @ split_on slash g @ ref_tail k"
proof -
  have r: "r = REF_PREFIX @ slash # g @ slash # join_with [slash] (ref_tail k)"
    and n: "\<forall>n. kind_name k = Some n \<longrightarrow> validateWriterId (JStr n) = Inr ()"
    using assms by (auto simp: build_ref_ok)
  show ?thesis
    unfolding r split_on_append_sep ref_tail_segments [OF n] by (simp add: REF_PREFIX_def)
qed

lemma takeWhile_reserved:
  assumes "build_ref k g = Inr r"
  shows "takeWhile (\<lambda>s. \<not> reserved s) (split_on slash g @ ref_tail k) = split_on slash g"
    and "dropWhile (\<lambda>s. \<not> reserved s) (split_on slash g @ ref_tail k) = ref_tail k"
proof -
  have "\<forall>s\<in>set (split_on slash g). \<not> reserved s"
    using assms by (intro graph_name_segments) (simp add: build_ref_ok)
  then show "takeWhile (\<lambda>s. \<not> reserved s) (split_on slash g @ ref_tail k) = split_on slash g"
    and "dropWhile (\<lambda>s. \<not> reserved s) (split_on slash g @ ref_tail k) = ref_tail k"
    using ref_tail_reserved [of k] by (cases "ref_tail k"; simp)+
qed

lemma build_ref_inj:
  assumes "build_ref k g = Inr r" "build_ref k' g' = Inr r"
  shows "k = k' \<and> g = g'"
proof -
  have s: "split_on slash g @ ref_tail k = split_on slash g' @ ref_tail k'"
    using build_ref_segments [OF assms(1)] build_ref_segments [OF assms(2)] by simp
  have "split_on slash g = split_on slash g'"
    using takeWhile_reserved(1) [OF assms(1)] takeWhile_reserved(1) [OF assms(2)] s by simp
  then have "g = g'" by (metis join_split_on)
  moreover have "ref_tail k = ref_tail k'"
    using takeWhile_reserved(2) [OF assms(1)] takeWhile_reserved(2) [OF assms(2)] s by simp
  ultimately show ?thesis by (simp add: ref_tail_inj)
qed

lemma index_of_append: "x \<notin> set xs \<Longrightarrow> index_of (xs @ x # ys) x = Some (length xs)"
  by (induction xs) auto

lemma parse_build_writer:
  assumes "buildWriterRef g w = Inr r"
  shows "parseWriterIdFromRef (JStr r) = Some w"
proof -
  have b: "build_ref (WriterRef w) g = Inr r" using assms by simp
  have ok: "validateGraphName (JStr g) = Inr ()" "validateWriterId (JStr w) = Inr ()"
    and r: "r = (REF_PREFIX @ ''/'') @ g @ slash # ''writers'' @ slash # w"
    using build_ref_ok [THEN iffD1, OF b] by auto
  let ?parts = "split_on slash g @ [''writers'', w]"
  have parts: "split_on slash (g @ slash # ''writers'' @ slash # w) = ?parts"
    using writer_id_no_slash [OF ok(2)] by (simp add: split_on_append_sep js_simps)
  have "\<not> reserved s" if "s \<in> set (split_on slash g)" for s
    using graph_name_segments [OF ok(1)] that by blast
  then have "''writers'' \<notin> set (split_on slash g)"
    by (auto simp: reserved_def RESERVED_GRAPH_NAME_SEGMENTS_def)
  then have i: "index_of ?parts ''writers'' = Some (length (split_on slash g))"
    using index_of_append [of "''writers''" "split_on slash g" "[w]"] by simp
  have d: "drop (length (REF_PREFIX @ ''/'')) r = g @ slash # ''writers'' @ slash # w"
    unfolding r by (rule append_eq_conv_conj [THEN iffD1, THEN conjunct2, symmetric, OF refl])
  have st: "starts_with r (REF_PREFIX @ ''/'')"
    unfolding r by (rule starts_with_append)
  have last: "?parts ! (length ?parts - 1) = w"
    by (simp add: nth_append)
  show ?thesis
    using ok(2) st last
    by (simp only: parseWriterIdFromRef_def Let_def js_is_str.simps js_str.simps d parts i option.case) simp
qed

end
