(* ===== verification/Messages.thy ===== *)
theory Messages
  imports RefLayout Ops
begin

text \<open>
  The commit messages: \<open>src/domain/services/MessageCodecInternal.js\<close>, \<open>TrailerValidation.js\<close>,
  \<open>PatchMessageCodec.js\<close>, \<open>CheckpointMessageCodec.js\<close>, \<open>AnchorMessageCodec.js\<close>,
  \<open>AuditMessageCodec.js\<close> and \<open>MessageSchemaDetector.js\<close>. The trailer codec is a package outside the
  repository: its \<open>encode\<close> and \<open>decode\<close> are parameters, on a type \<open>'m\<close> of messages.
\<close>

datatype msg_error =
    MsgRef js_error
  | MsgCodec
  | BadOid string
  | BadSha256 string
  | NotPositiveInteger string
  | MissingTrailer string string
  | BadIntTrailer string string
  | WrongKind string
  | DuplicateTrailer string
  | UnsupportedAuditSchema int

type_synonym 'a msg_result = "msg_error + 'a"
type_synonym trailers = "(string \<times> string) list"

fun of_ref :: "'a result \<Rightarrow> 'a msg_result" where
  "of_ref (Inl e) = Inl (MsgRef e)"
| "of_ref (Inr x) = Inr x"

section \<open>Constants and validation\<close>

definition MESSAGE_TITLES :: "(string \<times> string) list" where
  "MESSAGE_TITLES =
     [(''patch'', ''warp:patch''), (''checkpoint'', ''warp:checkpoint''),
      (''anchor'', ''warp:anchor''), (''audit'', ''warp:audit'')]"

definition TRAILER_KEYS :: "(string \<times> string) list" where
  "TRAILER_KEYS =
     [(''kind'', ''eg-kind''), (''graph'', ''eg-graph''), (''writer'', ''eg-writer''),
      (''lamport'', ''eg-lamport''), (''patchOid'', ''eg-patch-oid''), (''stateHash'', ''eg-state-hash''),
      (''frontierOid'', ''eg-frontier-oid''), (''indexOid'', ''eg-index-oid''), (''schema'', ''eg-schema''),
      (''checkpointVersion'', ''eg-checkpoint''), (''dataCommit'', ''eg-data-commit''),
      (''opsDigest'', ''eg-ops-digest''), (''encrypted'', ''eg-encrypted'')]"

definition trailer_key :: "string \<Rightarrow> string" where
  "trailer_key key = the (map_of TRAILER_KEYS key)"

definition message_title :: "string \<Rightarrow> string" where
  "message_title kind = the (map_of MESSAGE_TITLES kind)"

text \<open>\<open>[0-9a-f]\<close>\<close>

definition hex_lower :: "char \<Rightarrow> bool" where
  "hex_lower c \<longleftrightarrow> is_digit c \<or> (97 \<le> (of_char c :: nat) \<and> (of_char c :: nat) \<le> 102)"

definition validateOid :: "string \<Rightarrow> string \<Rightarrow> unit msg_result" where
  "validateOid oid fieldName =
     (if (length oid = 40 \<or> length oid = 64) \<and> list_all hex_lower oid then Inr () else Inl (BadOid fieldName))"

definition validateSha256 :: "string \<Rightarrow> string \<Rightarrow> unit msg_result" where
  "validateSha256 hash fieldName =
     (if length hash = 64 \<and> list_all hex_lower hash then Inr () else Inl (BadSha256 fieldName))"

definition validatePositiveInteger :: "int \<Rightarrow> string \<Rightarrow> unit msg_result" where
  "validatePositiveInteger value fieldName =
     (if value < 1 then Inl (NotPositiveInteger fieldName) else Inr ())"

definition validateSchema :: "int \<Rightarrow> unit msg_result" where
  "validateSchema schema = validatePositiveInteger schema ''schema''"

definition requireTrailer :: "trailers \<Rightarrow> string \<Rightarrow> string \<Rightarrow> string msg_result" where
  "requireTrailer ts key kind =
     (case map_of ts (trailer_key key) of
        None \<Rightarrow> Inl (MissingTrailer (trailer_key key) kind)
      | Some value \<Rightarrow> if value = [] then Inl (MissingTrailer (trailer_key key) kind) else Inr value)"

definition parsePositiveIntTrailer :: "trailers \<Rightarrow> string \<Rightarrow> string \<Rightarrow> int msg_result" where
  "parsePositiveIntTrailer ts key kind =
     bind_r (requireTrailer ts key kind) (\<lambda>str.
       if str = [] \<or> \<not> list_all is_digit str then Inl (BadIntTrailer (trailer_key key) kind)
       else
         let num = int (digits_val str)
         in if num < 1 then Inl (BadIntTrailer (trailer_key key) kind) else Inr num)"

definition validateKindDiscriminator :: "trailers \<Rightarrow> string \<Rightarrow> unit msg_result" where
  "validateKindDiscriminator ts expected =
     (if map_of ts (trailer_key ''kind'') \<noteq> Some expected then Inl (WrongKind expected) else Inr ())"

section \<open>Patch messages\<close>

record patch_message =
  pm_graph :: string
  pm_writer :: string
  pm_lamport :: int
  pm_patchOid :: string
  pm_schema :: int
  pm_encrypted :: bool

definition patch_trailers :: "patch_message \<Rightarrow> trailers" where
  "patch_trailers m =
     [(trailer_key ''kind'', ''patch''), (trailer_key ''graph'', pm_graph m),
      (trailer_key ''writer'', pm_writer m), (trailer_key ''lamport'', show_int (pm_lamport m)),
      (trailer_key ''patchOid'', pm_patchOid m), (trailer_key ''schema'', show_int (pm_schema m))] @
     (if pm_encrypted m then [(trailer_key ''encrypted'', ''true'')] else [])"

definition encodePatchMessage :: "(string \<Rightarrow> trailers \<Rightarrow> 'm) \<Rightarrow> patch_message \<Rightarrow> 'm msg_result" where
  "encodePatchMessage encode m =
     bind_r (of_ref (validateGraphName (JStr (pm_graph m)))) (\<lambda>_.
       bind_r (of_ref (validateWriterId (JStr (pm_writer m)))) (\<lambda>_.
         bind_r (validatePositiveInteger (pm_lamport m) ''lamport'') (\<lambda>_.
           bind_r (validateOid (pm_patchOid m) ''patchOid'') (\<lambda>_.
             bind_r (validateSchema (pm_schema m)) (\<lambda>_.
               Inr (encode (message_title ''patch'') (patch_trailers m)))))))"

definition decodePatchMessage :: "('m \<Rightarrow> trailers msg_result) \<Rightarrow> 'm \<Rightarrow> patch_message msg_result" where
  "decodePatchMessage decode message =
     bind_r (decode message) (\<lambda>ts.
       bind_r (validateKindDiscriminator ts ''patch'') (\<lambda>_.
         bind_r (requireTrailer ts ''graph'' ''patch'') (\<lambda>graph.
           bind_r (of_ref (validateGraphName (JStr graph))) (\<lambda>_.
             bind_r (requireTrailer ts ''writer'' ''patch'') (\<lambda>writer.
               bind_r (of_ref (validateWriterId (JStr writer))) (\<lambda>_.
                 bind_r (parsePositiveIntTrailer ts ''lamport'' ''patch'') (\<lambda>lamport.
                   bind_r (requireTrailer ts ''patchOid'' ''patch'') (\<lambda>patchOid.
                     bind_r (validateOid patchOid ''patchOid'') (\<lambda>_.
                       bind_r (parsePositiveIntTrailer ts ''schema'' ''patch'') (\<lambda>schema.
                         Inr \<lparr>pm_graph = graph, pm_writer = writer, pm_lamport = lamport,
                              pm_patchOid = patchOid, pm_schema = schema,
                              pm_encrypted = (map_of ts (trailer_key ''encrypted'') = Some ''true'')\<rparr>))))))))))"

section \<open>Checkpoint messages\<close>

record checkpoint_message =
  cm_graph :: string
  cm_stateHash :: string
  cm_frontierOid :: string
  cm_indexOid :: string
  cm_schema :: int
  cm_version :: "string option"

definition checkpoint_trailers :: "checkpoint_message \<Rightarrow> trailers" where
  "checkpoint_trailers m =
     [(trailer_key ''kind'', ''checkpoint''), (trailer_key ''graph'', cm_graph m),
      (trailer_key ''stateHash'', cm_stateHash m), (trailer_key ''frontierOid'', cm_frontierOid m),
      (trailer_key ''indexOid'', cm_indexOid m), (trailer_key ''schema'', show_int (cm_schema m))] @
     (if cm_schema m = 2 \<or> cm_schema m = 3 \<or> cm_schema m = 4
      then [(trailer_key ''checkpointVersion'', ''v5'')] else [])"

text \<open>The version is an output of the decoder only: the encoder derives it from the schema.\<close>

definition encodeCheckpointMessage :: "(string \<Rightarrow> trailers \<Rightarrow> 'm) \<Rightarrow> checkpoint_message \<Rightarrow> 'm msg_result" where
  "encodeCheckpointMessage encode m =
     bind_r (of_ref (validateGraphName (JStr (cm_graph m)))) (\<lambda>_.
       bind_r (validateSha256 (cm_stateHash m) ''stateHash'') (\<lambda>_.
         bind_r (validateOid (cm_frontierOid m) ''frontierOid'') (\<lambda>_.
           bind_r (validateOid (cm_indexOid m) ''indexOid'') (\<lambda>_.
             bind_r (validateSchema (cm_schema m)) (\<lambda>_.
               Inr (encode (message_title ''checkpoint'') (checkpoint_trailers m)))))))"

definition decodeCheckpointMessage ::
  "('m \<Rightarrow> trailers msg_result) \<Rightarrow> 'm \<Rightarrow> checkpoint_message msg_result" where
  "decodeCheckpointMessage decode message =
     bind_r (decode message) (\<lambda>ts.
       bind_r (validateKindDiscriminator ts ''checkpoint'') (\<lambda>_.
         bind_r (requireTrailer ts ''graph'' ''checkpoint'') (\<lambda>graph.
           bind_r (of_ref (validateGraphName (JStr graph))) (\<lambda>_.
             bind_r (requireTrailer ts ''stateHash'' ''checkpoint'') (\<lambda>stateHash.
               bind_r (validateSha256 stateHash ''stateHash'') (\<lambda>_.
                 bind_r (requireTrailer ts ''frontierOid'' ''checkpoint'') (\<lambda>frontierOid.
                   bind_r (validateOid frontierOid ''frontierOid'') (\<lambda>_.
                     bind_r (requireTrailer ts ''indexOid'' ''checkpoint'') (\<lambda>indexOid.
                       bind_r (validateOid indexOid ''indexOid'') (\<lambda>_.
                         bind_r (parsePositiveIntTrailer ts ''schema'' ''checkpoint'') (\<lambda>schema.
                           Inr \<lparr>cm_graph = graph, cm_stateHash = stateHash, cm_frontierOid = frontierOid,
                                cm_indexOid = indexOid, cm_schema = schema,
                                cm_version = (case map_of ts (trailer_key ''checkpointVersion'') of
                                    None \<Rightarrow> None | Some v \<Rightarrow> if v = [] then None else Some v)\<rparr>)))))))))))"

section \<open>Anchor messages\<close>

definition encodeAnchorMessage :: "(string \<Rightarrow> trailers \<Rightarrow> 'm) \<Rightarrow> string \<Rightarrow> int \<Rightarrow> 'm msg_result" where
  "encodeAnchorMessage encode graph schema =
     bind_r (of_ref (validateGraphName (JStr graph))) (\<lambda>_.
       bind_r (validateSchema schema) (\<lambda>_.
         Inr (encode (message_title ''anchor'')
           [(trailer_key ''kind'', ''anchor''), (trailer_key ''graph'', graph),
            (trailer_key ''schema'', show_int schema)])))"

definition decodeAnchorMessage :: "('m \<Rightarrow> trailers msg_result) \<Rightarrow> 'm \<Rightarrow> (string \<times> int) msg_result" where
  "decodeAnchorMessage decode message =
     bind_r (decode message) (\<lambda>ts.
       bind_r (validateKindDiscriminator ts ''anchor'') (\<lambda>_.
         bind_r (requireTrailer ts ''graph'' ''anchor'') (\<lambda>graph.
           bind_r (parsePositiveIntTrailer ts ''schema'' ''anchor'') (\<lambda>schema. Inr (graph, schema)))))"

section \<open>Audit messages\<close>

record audit_message =
  am_graph :: string
  am_writer :: string
  am_dataCommit :: string
  am_opsDigest :: string
  am_schema :: int

text \<open>The encoder writes schema 1.\<close>

definition audit_trailers :: "audit_message \<Rightarrow> trailers" where
  "audit_trailers m =
     [(trailer_key ''dataCommit'', am_dataCommit m), (trailer_key ''graph'', am_graph m),
      (trailer_key ''kind'', ''audit''), (trailer_key ''opsDigest'', am_opsDigest m),
      (trailer_key ''schema'', ''1''), (trailer_key ''writer'', am_writer m)]"

definition encodeAuditMessage :: "(string \<Rightarrow> trailers \<Rightarrow> 'm) \<Rightarrow> audit_message \<Rightarrow> 'm msg_result" where
  "encodeAuditMessage encode m =
     bind_r (of_ref (validateGraphName (JStr (am_graph m)))) (\<lambda>_.
       bind_r (of_ref (validateWriterId (JStr (am_writer m)))) (\<lambda>_.
         bind_r (validateOid (am_dataCommit m) ''dataCommit'') (\<lambda>_.
           bind_r (validateSha256 (am_opsDigest m) ''opsDigest'') (\<lambda>_.
             Inr (encode (message_title ''audit'') (audit_trailers m))))))"

definition check_duplicate :: "string jsset \<Rightarrow> string \<Rightarrow> string jsset msg_result" where
  "check_duplicate seen key = (if key \<in> set seen then Inl (DuplicateTrailer key) else Inr (set_add seen key))"

definition decodeAuditMessage :: "('m \<Rightarrow> trailers msg_result) \<Rightarrow> 'm \<Rightarrow> audit_message msg_result" where
  "decodeAuditMessage decode message =
     bind_r (decode message) (\<lambda>ts.
       bind_r (fold_r check_duplicate [] (map_keys ts)) (\<lambda>_.
         bind_r (validateKindDiscriminator ts ''audit'') (\<lambda>_.
           bind_r (requireTrailer ts ''graph'' ''audit'') (\<lambda>graph.
             bind_r (of_ref (validateGraphName (JStr graph))) (\<lambda>_.
               bind_r (requireTrailer ts ''writer'' ''audit'') (\<lambda>writer.
                 bind_r (of_ref (validateWriterId (JStr writer))) (\<lambda>_.
                   bind_r (requireTrailer ts ''dataCommit'' ''audit'') (\<lambda>dataCommit.
                     bind_r (validateOid dataCommit ''dataCommit'') (\<lambda>_.
                       bind_r (requireTrailer ts ''opsDigest'' ''audit'') (\<lambda>opsDigest.
                         bind_r (validateSha256 opsDigest ''opsDigest'') (\<lambda>_.
                           bind_r (parsePositiveIntTrailer ts ''schema'' ''audit'') (\<lambda>schema.
                             if schema > 1 then Inl (UnsupportedAuditSchema schema)
                             else Inr \<lparr>am_graph = graph, am_writer = writer, am_dataCommit = dataCommit,
                                       am_opsDigest = opsDigest, am_schema = schema\<rparr>))))))))))))"

section \<open>Kinds and schemas\<close>

definition detectMessageKind :: "('m \<Rightarrow> trailers msg_result) \<Rightarrow> 'm \<Rightarrow> string option" where
  "detectMessageKind decode message =
     (case decode message of
        Inl _ \<Rightarrow> None
      | Inr ts \<Rightarrow>
          (case map_of ts (trailer_key ''kind'') of
             None \<Rightarrow> None
           | Some kind \<Rightarrow>
               if kind = ''patch'' \<or> kind = ''checkpoint'' \<or> kind = ''anchor'' \<or> kind = ''audit''
               then Some kind else None))"

definition SCHEMA_V2 :: nat where "SCHEMA_V2 = 2"
definition SCHEMA_V3 :: nat where "SCHEMA_V3 = 3"

definition needs_v3 :: "jsval \<Rightarrow> bool" where
  "needs_v3 op \<longleftrightarrow>
     js_truthy op \<and> js_typeof op = ''object'' \<and>
     (fld op ''type'' = JStr ''EdgePropSet'' \<or>
      fld op ''type'' = JStr ''PropSet'' \<and> js_is_str (fld op ''node'') \<and>
      starts_with (js_str (fld op ''node'')) [EDGE_PROP_PREFIX])"

text \<open>\<open>None\<close> stands for an argument that is not an array.\<close>

definition detectSchemaVersion :: "jsval list option \<Rightarrow> nat" where
  "detectSchemaVersion ops =
     (case ops of None \<Rightarrow> SCHEMA_V2 | Some xs \<Rightarrow> if list_ex needs_v3 xs then SCHEMA_V3 else SCHEMA_V2)"

text \<open>\<open>False\<close> stands for the \<open>SchemaUnsupportedError\<close> that is thrown.\<close>

definition assertOpsCompatible :: "jsval list option \<Rightarrow> nat \<Rightarrow> bool" where
  "assertOpsCompatible ops maxSchema =
     (if maxSchema \<ge> SCHEMA_V3 then True
      else (case ops of None \<Rightarrow> True | Some xs \<Rightarrow> \<not> list_ex needs_v3 xs))"

section \<open>Round trips\<close>

lemma trailer_keys [simp]:
  "trailer_key ''kind'' = ''eg-kind''" "trailer_key ''graph'' = ''eg-graph''"
  "trailer_key ''writer'' = ''eg-writer''" "trailer_key ''lamport'' = ''eg-lamport''"
  "trailer_key ''patchOid'' = ''eg-patch-oid''" "trailer_key ''stateHash'' = ''eg-state-hash''"
  "trailer_key ''frontierOid'' = ''eg-frontier-oid''" "trailer_key ''indexOid'' = ''eg-index-oid''"
  "trailer_key ''schema'' = ''eg-schema''" "trailer_key ''checkpointVersion'' = ''eg-checkpoint''"
  "trailer_key ''dataCommit'' = ''eg-data-commit''" "trailer_key ''opsDigest'' = ''eg-ops-digest''"
  "trailer_key ''encrypted'' = ''eg-encrypted''"
  by (simp_all add: trailer_key_def TRAILER_KEYS_def)

lemma validated_ids:
  "validateGraphName (JStr g) = Inr u \<Longrightarrow> g \<noteq> []" "validateWriterId (JStr w) = Inr u \<Longrightarrow> w \<noteq> []"
  "validateOid oid f = Inr u \<Longrightarrow> oid \<noteq> []" "validateSha256 h f = Inr u \<Longrightarrow> h \<noteq> []"
  by (auto simp: validateGraphName_def validateWriterId_def validateOid_def validateSha256_def)

lemma of_ref_Inr [simp]: "of_ref r = Inr x \<longleftrightarrow> r = Inr x"
  by (cases r) auto

lemma show_int_digits: "0 < i \<Longrightarrow> list_all is_digit (show_int i) \<and> show_int i \<noteq> [] \<and> int (digits_val (show_int i)) = i"
  by (auto simp: show_int_nonneg list_all_iff dest: show_nat_digits)

lemma parse_shown:
  "0 < i \<Longrightarrow> map_of ts (trailer_key key) = Some (show_int i) \<Longrightarrow> parsePositiveIntTrailer ts key kind = Inr i"
  using show_int_digits [of i] by (simp add: parsePositiveIntTrailer_def requireTrailer_def Let_def)

lemma require_present: "map_of ts (trailer_key key) = Some v \<Longrightarrow> v \<noteq> [] \<Longrightarrow> requireTrailer ts key kind = Inr v"
  by (simp add: requireTrailer_def)

text \<open>Trailers as a JavaScript object have distinct keys, so the duplicate check never fires.\<close>

lemma check_duplicate_never:
  "distinct (map_keys ts) \<Longrightarrow> set seen \<inter> set (map_keys ts) = {} \<Longrightarrow>
     is_ok (fold_r check_duplicate seen (map_keys ts))"
  by (induction ts arbitrary: seen) (auto simp: check_duplicate_def)

lemma patch_trailers_lookup:
  "map_of (patch_trailers m) ''eg-kind'' = Some ''patch''"
  "map_of (patch_trailers m) ''eg-graph'' = Some (pm_graph m)"
  "map_of (patch_trailers m) ''eg-writer'' = Some (pm_writer m)"
  "map_of (patch_trailers m) ''eg-lamport'' = Some (show_int (pm_lamport m))"
  "map_of (patch_trailers m) ''eg-patch-oid'' = Some (pm_patchOid m)"
  "map_of (patch_trailers m) ''eg-schema'' = Some (show_int (pm_schema m))"
  "map_of (patch_trailers m) ''eg-encrypted'' = Some ''true'' \<longleftrightarrow> pm_encrypted m"
  by (simp_all add: patch_trailers_def)

lemma encodePatchMessage_ok:
  "encodePatchMessage enc m = Inr msg \<longleftrightarrow>
     validateGraphName (JStr (pm_graph m)) = Inr () \<and> validateWriterId (JStr (pm_writer m)) = Inr () \<and>
     1 \<le> pm_lamport m \<and> validateOid (pm_patchOid m) ''patchOid'' = Inr () \<and> 1 \<le> pm_schema m \<and>
     msg = enc (message_title ''patch'') (patch_trailers m)"
  by (auto simp: encodePatchMessage_def bind_r_Inr_iff validateSchema_def validatePositiveInteger_def)

lemma decode_encode_patch:
  assumes "encodePatchMessage enc m = Inr msg" "dec msg = Inr (patch_trailers m)"
  shows "decodePatchMessage dec msg = Inr m"
proof -
  have ok: "validateGraphName (JStr (pm_graph m)) = Inr ()" "validateWriterId (JStr (pm_writer m)) = Inr ()"
      "0 < pm_lamport m" "validateOid (pm_patchOid m) ''patchOid'' = Inr ()" "0 < pm_schema m"
    using assms(1) by (simp_all add: encodePatchMessage_ok)
  have r: "requireTrailer (patch_trailers m) ''graph'' ''patch'' = Inr (pm_graph m)"
    "requireTrailer (patch_trailers m) ''writer'' ''patch'' = Inr (pm_writer m)"
    "requireTrailer (patch_trailers m) ''patchOid'' ''patch'' = Inr (pm_patchOid m)"
    using validated_ids(1) [OF ok(1)] validated_ids(2) [OF ok(2)] validated_ids(3) [OF ok(4)]
    by (auto intro!: require_present simp: patch_trailers_lookup)
  have p: "parsePositiveIntTrailer (patch_trailers m) ''lamport'' ''patch'' = Inr (pm_lamport m)"
    "parsePositiveIntTrailer (patch_trailers m) ''schema'' ''patch'' = Inr (pm_schema m)"
    using ok by (auto intro!: parse_shown simp: patch_trailers_lookup)
  show ?thesis
    by (simp add: decodePatchMessage_def assms(2) validateKindDiscriminator_def patch_trailers_lookup r p ok)
qed

lemma checkpoint_trailers_lookup:
  "map_of (checkpoint_trailers m) ''eg-kind'' = Some ''checkpoint''"
  "map_of (checkpoint_trailers m) ''eg-graph'' = Some (cm_graph m)"
  "map_of (checkpoint_trailers m) ''eg-state-hash'' = Some (cm_stateHash m)"
  "map_of (checkpoint_trailers m) ''eg-frontier-oid'' = Some (cm_frontierOid m)"
  "map_of (checkpoint_trailers m) ''eg-index-oid'' = Some (cm_indexOid m)"
  "map_of (checkpoint_trailers m) ''eg-schema'' = Some (show_int (cm_schema m))"
  "map_of (checkpoint_trailers m) ''eg-checkpoint'' = (if cm_schema m \<in> {2, 3, 4} then Some ''v5'' else None)"
  by (simp_all add: checkpoint_trailers_def)

lemma decode_encode_checkpoint:
  assumes "encodeCheckpointMessage enc m = Inr msg" "dec msg = Inr (checkpoint_trailers m)"
  shows "decodeCheckpointMessage dec msg =
    Inr (m\<lparr>cm_version := (if cm_schema m \<in> {2, 3, 4} then Some ''v5'' else None)\<rparr>)"
proof -
  have ok: "validateGraphName (JStr (cm_graph m)) = Inr ()" "validateSha256 (cm_stateHash m) ''stateHash'' = Inr ()"
      "validateOid (cm_frontierOid m) ''frontierOid'' = Inr ()" "validateOid (cm_indexOid m) ''indexOid'' = Inr ()"
      "0 < cm_schema m"
    using assms(1)
    by (auto simp: encodeCheckpointMessage_def bind_r_Inr_iff validateSchema_def validatePositiveInteger_def
        split: if_splits)
  have r: "requireTrailer (checkpoint_trailers m) ''graph'' ''checkpoint'' = Inr (cm_graph m)"
    "requireTrailer (checkpoint_trailers m) ''stateHash'' ''checkpoint'' = Inr (cm_stateHash m)"
    "requireTrailer (checkpoint_trailers m) ''frontierOid'' ''checkpoint'' = Inr (cm_frontierOid m)"
    "requireTrailer (checkpoint_trailers m) ''indexOid'' ''checkpoint'' = Inr (cm_indexOid m)"
    using validated_ids(1) [OF ok(1)] validated_ids(4) [OF ok(2)] validated_ids(3) [OF ok(3)]
      validated_ids(3) [OF ok(4)]
    by (auto intro!: require_present simp: checkpoint_trailers_lookup)
  have p: "parsePositiveIntTrailer (checkpoint_trailers m) ''schema'' ''checkpoint'' = Inr (cm_schema m)"
    using ok by (auto intro!: parse_shown simp: checkpoint_trailers_lookup)
  show ?thesis
    by (simp add: decodeCheckpointMessage_def assms(2) validateKindDiscriminator_def
        checkpoint_trailers_lookup r p ok)
qed

text \<open>A message of one kind is rejected by the decoders of the others.\<close>

lemma kinds_disjoint:
  assumes "decode msg = Inr ts" "map_of ts (trailer_key ''kind'') = Some k"
  shows "k \<noteq> ''patch'' \<Longrightarrow> \<not> is_ok (decodePatchMessage decode msg)"
    and "k \<noteq> ''checkpoint'' \<Longrightarrow> \<not> is_ok (decodeCheckpointMessage decode msg)"
    and "k \<noteq> ''anchor'' \<Longrightarrow> \<not> is_ok (decodeAnchorMessage decode msg)"
  using assms
  by (simp_all add: decodePatchMessage_def decodeCheckpointMessage_def decodeAnchorMessage_def
      validateKindDiscriminator_def)

end
