(* ===== verification/GitStore.thy ===== *)
theory GitStore
  imports RefLayout
begin

text \<open>
  \<open>src/infrastructure/adapters/InMemoryGraphAdapter.js\<close> and \<open>adapterValidation.js\<close>: the in-memory
  provider of the persistence port (\<open>src/ports/\<close>). The SHA-1 function, the author and the clock are
  parameters: \<open>hash\<close> on bytes, and the \<open>author\<close> and \<open>date\<close> of a commit.

  The two contracts that the rest of the program relies on are the locales \<open>object_store\<close> (what was
  written under an id is read back) and \<open>ref_store\<close> (a register per ref with a compare-and-swap);
  the adapter interprets both.
\<close>

section \<open>The contracts\<close>

locale object_store =
  fixes put :: "'s \<Rightarrow> 'c \<Rightarrow> 's \<times> string"
    and get :: "'s \<Rightarrow> string \<Rightarrow> 'c result"
    and wf_oid :: "string \<Rightarrow> bool"
  assumes put_get: "wf_oid (snd (put s c)) \<Longrightarrow> get (fst (put s c)) (snd (put s c)) = Inr c"
    and put_other: "oid \<noteq> snd (put s c) \<Longrightarrow> get (fst (put s c)) oid = get s oid"
begin

lemma put_keeps:
  assumes "get s oid = Inr d" "oid = snd (put s c) \<Longrightarrow> d = c" "wf_oid oid"
  shows "get (fst (put s c)) oid = Inr d"
  using assms put_get [of s c] put_other [of oid s c] by (cases "oid = snd (put s c)") auto

end

locale ref_store =
  fixes value_of :: "'s \<Rightarrow> string \<Rightarrow> string option"
    and set_to :: "'s \<Rightarrow> string \<Rightarrow> string \<Rightarrow> 's"
    and cas :: "'s \<Rightarrow> string \<Rightarrow> string \<Rightarrow> string option \<Rightarrow> 's result"
  assumes read_write: "oid \<noteq> [] \<Longrightarrow> value_of (set_to s ref oid) ref = Some oid"
    and read_other: "ref' \<noteq> ref \<Longrightarrow> value_of (set_to s ref oid) ref' = value_of s ref'"
    and cas_ok: "cas s ref oid expected = Inr s' \<Longrightarrow> value_of s ref = expected \<and> s' = set_to s ref oid"
    and cas_fails: "value_of s ref \<noteq> expected \<Longrightarrow> \<not> is_ok (cas s ref oid expected)"
begin

text \<open>Of two swaps that expect the same value, the second one fails.\<close>

lemma cas_excludes:
  assumes "cas s ref oid expected = Inr s1" "oid \<noteq> []" "expected \<noteq> Some oid"
  shows "\<not> is_ok (cas s1 ref oid' expected)"
  using cas_ok [OF assms(1)] read_write [OF assms(2)] assms(3) by (intro cas_fails) auto

text \<open>A check that is followed by an unconditional write has no such guarantee.\<close>

lemma check_then_write_loses:
  "oid2 \<noteq> [] \<Longrightarrow> value_of (set_to (set_to s ref oid1) ref oid2) ref = Some oid2"
  by (rule read_write)

end

section \<open>Validation\<close>

definition hex_any :: "char \<Rightarrow> bool" where
  "hex_any c \<longleftrightarrow>
     (let n = of_char c :: nat in 48 \<le> n \<and> n \<le> 57 \<or> 97 \<le> n \<and> n \<le> 102 \<or> 65 \<le> n \<and> n \<le> 70)"

definition oid_ok :: "string \<Rightarrow> bool" where
  "oid_ok oid \<longleftrightarrow> oid \<noteq> [] \<and> \<not> length oid > 64 \<and> 4 \<le> length oid \<and> list_all hex_any oid"

definition adapter_validateOid :: "string \<Rightarrow> unit result" where
  "adapter_validateOid oid = (if oid_ok oid then Inr () else Inl (StoreErr OidInvalid))"

text \<open>\<open>[a-zA-Z0-9._/-]\<close>\<close>

definition ref_char :: "char \<Rightarrow> bool" where
  "ref_char c \<longleftrightarrow> writer_id_char c \<or> c = slash"

text \<open>
  \<open>^[a-zA-Z0-9._/-]+((~\d*|\^\d*|\.\.[a-zA-Z0-9._/-]+)*)$\<close> after its first character:
  \<open>ref_base\<close> inside a run of ref characters, \<open>ref_suffix\<close> after a tilde or a caret.
\<close>

fun ref_base :: "string \<Rightarrow> bool" and ref_suffix :: "string \<Rightarrow> bool" where
  "ref_base [] = True"
| "ref_base (c # r) =
     (if ref_char c then ref_base r
      else if c = CHR ''~'' \<or> c = CHR ''^'' then ref_suffix r else False)"
| "ref_suffix [] = True"
| "ref_suffix (c # r) =
     (if is_digit c \<or> c = CHR ''~'' \<or> c = CHR ''^'' then ref_suffix r
      else if c = CHR ''.'' then (case r of d # e # r' \<Rightarrow> d = CHR ''.'' \<and> ref_char e \<and> ref_base r' | _ \<Rightarrow> False)
      else False)"

definition ref_ok :: "string \<Rightarrow> bool" where
  "ref_ok ref \<longleftrightarrow>
     ref \<noteq> [] \<and> \<not> length ref > 1024 \<and> \<not> starts_with ref ''-'' \<and> ref_char (hd ref) \<and> ref_base (tl ref)"

definition validateRef :: "string \<Rightarrow> unit result" where
  "validateRef ref = (if ref_ok ref then Inr () else Inl (StoreErr RefInvalid))"

section \<open>Bytes and hashes\<close>

type_synonym bytes = "8 word list"

text \<open>\<open>TextEncoder.encode\<close> for code units below 256.\<close>

definition utf8_char :: "char \<Rightarrow> bytes" where
  "utf8_char c =
     (let n = of_char c :: nat
      in if n < 128 then [word_of_nat n] else [word_of_nat (192 + n div 64), word_of_nat (128 + n mod 64)])"

definition utf8 :: "string \<Rightarrow> bytes" where
  "utf8 s = concat (map utf8_char s)"

text \<open>The value of one hexadecimal digit, as \<open>parseInt(_, 16)\<close> reads a pair of them.\<close>

definition hex_digit_value :: "char \<Rightarrow> nat" where
  "hex_digit_value c =
     (let n = of_char c :: nat in if n < 58 then n - 48 else if n < 91 then n - 55 else n - 87)"

fun hexToBytes :: "string \<Rightarrow> bytes" where
  "hexToBytes (a # b # r) = word_of_nat (16 * hex_digit_value a + hex_digit_value b) # hexToBytes r"
| "hexToBytes _ = []"

type_synonym hash_fun = "bytes \<Rightarrow> string"

definition hashBlob :: "hash_fun \<Rightarrow> bytes \<Rightarrow> string" where
  "hashBlob hash content =
     hash (utf8 (''blob '' @ show_nat (length content) @ [CHR 0x00]) @ content)"

record tree_entry =
  te_mode :: string
  te_path :: string
  te_oid :: string

definition hashTree :: "hash_fun \<Rightarrow> tree_entry list \<Rightarrow> string" where
  "hashTree hash es =
     (let sorted = sort_by (\<lambda>a b. str_cmp (te_path a) (te_path b)) es;
          body = concat (map (\<lambda>e. utf8 (te_mode e @ '' '' @ te_path e @ [CHR 0x00]) @ hexToBytes (te_oid e)) sorted)
      in hash (utf8 (''tree '' @ show_nat (length body) @ [CHR 0x00]) @ body))"

record commit_info =
  ci_treeOid :: string
  ci_parents :: "string list"
  ci_message :: string
  ci_author :: string
  ci_date :: string

definition hashCommit :: "hash_fun \<Rightarrow> commit_info \<Rightarrow> string" where
  "hashCommit hash c =
     (let lines = [''tree '' @ ci_treeOid c] @ map (\<lambda>p. ''parent '' @ p) (ci_parents c) @
            [''author '' @ ci_author c @ '' '' @ ci_date c, ''committer '' @ ci_author c @ '' '' @ ci_date c,
             [], ci_message c];
          bodyBytes = utf8 (join_with [CHR 0x0A] lines)
      in hash (utf8 (''commit '' @ show_nat (length bodyBytes) @ [CHR 0x00]) @ bodyBytes))"

definition EMPTY_TREE_OID :: string where
  "EMPTY_TREE_OID = ''4b825dc642cb6eb9a060e54bf8d69288fbee4904''"

section \<open>The adapter\<close>

record git_store =
  st_commits :: "(string, commit_info) jsmap"
  st_blobs :: "(string, bytes) jsmap"
  st_trees :: "(string, tree_entry list) jsmap"
  st_refs :: "(string, string) jsmap"

definition empty_store :: git_store where
  "empty_store = \<lparr>st_commits = [], st_blobs = [], st_trees = [], st_refs = []\<rparr>"

fun split_first :: "char \<Rightarrow> string \<Rightarrow> (string \<times> string) option" where
  "split_first c [] = None"
| "split_first c (x # xs) =
     (if x = c then Some ([], xs) else map_option (\<lambda>(a, b). (x # a, b)) (split_first c xs))"

text \<open>An entry without an object id makes \<open>hexToBytes\<close> throw.\<close>

definition parse_mktree :: "string \<Rightarrow> tree_entry result" where
  "parse_mktree line =
     (case split_first (CHR 0x09) line of
        None \<Rightarrow> Inl (StoreErr MktreeNoTab)
      | Some (meta, path) \<Rightarrow>
          let ws = split_on (CHR '' '') meta
          in if length ws < 3 then Inl TypeErr
             else Inr \<lparr>te_mode = ws ! 0, te_path = path, te_oid = ws ! 2\<rparr>)"

definition put_tree :: "hash_fun \<Rightarrow> git_store \<Rightarrow> tree_entry list \<Rightarrow> git_store \<times> string" where
  "put_tree hash s es =
     (let oid = hashTree hash es in (s\<lparr>st_trees := map_set (st_trees s) oid es\<rparr>, oid))"

definition writeTree :: "hash_fun \<Rightarrow> git_store \<Rightarrow> string list \<Rightarrow> (git_store \<times> string) result" where
  "writeTree hash s lines = bind_r (map_r parse_mktree lines) (\<lambda>es. Inr (put_tree hash s es))"

text \<open>A path \<open>__proto__\<close> is lost in the object that is returned.\<close>

definition readTreeOids :: "git_store \<Rightarrow> string \<Rightarrow> (string \<times> string) list result" where
  "readTreeOids s treeOid =
     bind_r (adapter_validateOid treeOid) (\<lambda>_.
       if treeOid = EMPTY_TREE_OID then Inr []
       else case map_of (st_trees s) treeOid of
              None \<Rightarrow> Inl (StoreErr (TreeNotFound treeOid))
            | Some es \<Rightarrow> Inr (foldl (\<lambda>r e. obj_set_prim r (te_path e) (te_oid e)) [] es))"

definition writeBlob :: "hash_fun \<Rightarrow> git_store \<Rightarrow> bytes \<Rightarrow> git_store \<times> string" where
  "writeBlob hash s content =
     (let oid = hashBlob hash content in (s\<lparr>st_blobs := map_set (st_blobs s) oid content\<rparr>, oid))"

definition readBlob :: "git_store \<Rightarrow> string \<Rightarrow> bytes result" where
  "readBlob s oid =
     bind_r (adapter_validateOid oid) (\<lambda>_.
       case map_of (st_blobs s) oid of
         None \<Rightarrow> Inl (StoreErr (BlobNotFound oid))
       | Some buf \<Rightarrow> Inr buf)"

definition readTree :: "git_store \<Rightarrow> string \<Rightarrow> (string \<times> bytes) list result" where
  "readTree s treeOid =
     bind_r (readTreeOids s treeOid) (\<lambda>oids.
       map_r (\<lambda>(path, oid). bind_r (readBlob s oid) (\<lambda>b. Inr (path, b))) oids)"

definition put_commit :: "hash_fun \<Rightarrow> git_store \<Rightarrow> commit_info \<Rightarrow> git_store \<times> string" where
  "put_commit hash s c =
     (let sha = hashCommit hash c in (s\<lparr>st_commits := map_set (st_commits s) sha c\<rparr>, sha))"

definition validate_parents :: "string list \<Rightarrow> unit result" where
  "validate_parents parents = fold_r (\<lambda>_ p. adapter_validateOid p) () parents"

definition commitNodeWithTree ::
  "hash_fun \<Rightarrow> string \<Rightarrow> string \<Rightarrow> git_store \<Rightarrow> string \<Rightarrow> string list \<Rightarrow> string \<Rightarrow> (git_store \<times> string) result" where
  "commitNodeWithTree hash author date s treeOid parents message =
     bind_r (adapter_validateOid treeOid) (\<lambda>_.
       bind_r (validate_parents parents) (\<lambda>_.
         Inr (put_commit hash s \<lparr>ci_treeOid = treeOid, ci_parents = parents, ci_message = message,
                                 ci_author = author, ci_date = date\<rparr>)))"

definition commitNode ::
  "hash_fun \<Rightarrow> string \<Rightarrow> string \<Rightarrow> git_store \<Rightarrow> string list \<Rightarrow> string \<Rightarrow> (git_store \<times> string) result" where
  "commitNode hash author date s parents message =
     bind_r (validate_parents parents) (\<lambda>_.
       Inr (put_commit hash s \<lparr>ci_treeOid = EMPTY_TREE_OID, ci_parents = parents, ci_message = message,
                               ci_author = author, ci_date = date\<rparr>))"

definition getNodeInfo :: "git_store \<Rightarrow> string \<Rightarrow> commit_info result" where
  "getNodeInfo s sha =
     bind_r (adapter_validateOid sha) (\<lambda>_.
       case map_of (st_commits s) sha of
         None \<Rightarrow> Inl (StoreErr (CommitNotFound sha))
       | Some c \<Rightarrow> Inr c)"

definition showNode :: "git_store \<Rightarrow> string \<Rightarrow> string result" where
  "showNode s sha = bind_r (getNodeInfo s sha) (\<lambda>c. Inr (ci_message c))"

definition getCommitTree :: "git_store \<Rightarrow> string \<Rightarrow> string result" where
  "getCommitTree s sha = bind_r (getNodeInfo s sha) (\<lambda>c. Inr (ci_treeOid c))"

definition nodeExists :: "git_store \<Rightarrow> string \<Rightarrow> bool result" where
  "nodeExists s sha = bind_r (adapter_validateOid sha) (\<lambda>_. Inr (map_of (st_commits s) sha \<noteq> None))"

text \<open>\<open>this._refs.get(ref) || null\<close>\<close>

definition ref_value :: "git_store \<Rightarrow> string \<Rightarrow> string option" where
  "ref_value s ref = (case map_of (st_refs s) ref of Some oid \<Rightarrow> if oid = [] then None else Some oid | None \<Rightarrow> None)"

definition set_ref :: "git_store \<Rightarrow> string \<Rightarrow> string \<Rightarrow> git_store" where
  "set_ref s ref oid = s\<lparr>st_refs := map_set (st_refs s) ref oid\<rparr>"

definition updateRef :: "git_store \<Rightarrow> string \<Rightarrow> string \<Rightarrow> git_store result" where
  "updateRef s ref oid =
     bind_r (validateRef ref) (\<lambda>_. bind_r (adapter_validateOid oid) (\<lambda>_. Inr (set_ref s ref oid)))"

definition readRef :: "git_store \<Rightarrow> string \<Rightarrow> string option result" where
  "readRef s ref = bind_r (validateRef ref) (\<lambda>_. Inr (ref_value s ref))"

definition deleteRef :: "git_store \<Rightarrow> string \<Rightarrow> git_store result" where
  "deleteRef s ref = bind_r (validateRef ref) (\<lambda>_. Inr (s\<lparr>st_refs := map_delete (st_refs s) ref\<rparr>))"

definition compareAndSwapRef :: "git_store \<Rightarrow> string \<Rightarrow> string \<Rightarrow> string option \<Rightarrow> git_store result" where
  "compareAndSwapRef s ref newOid expectedOid =
     bind_r (validateRef ref) (\<lambda>_.
       bind_r (adapter_validateOid newOid) (\<lambda>_.
         bind_r (case expectedOid of None \<Rightarrow> Inr ()
                   | Some e \<Rightarrow> if e = [] then Inr () else adapter_validateOid e) (\<lambda>_.
           let current = ref_value s ref
           in if current \<noteq> expectedOid then Inl (StoreErr (CasMismatch ref expectedOid current))
              else Inr (set_ref s ref newOid))))"

text \<open>\<open>None\<close> and \<open>Some 0\<close> limits are both no limit; a positive one is at most ten million.\<close>

definition listRefs :: "git_store \<Rightarrow> string \<Rightarrow> nat option \<Rightarrow> string list result" where
  "listRefs s prefix limit =
     bind_r (validateRef prefix) (\<lambda>_.
       let sorted = sort (filter (\<lambda>key. starts_with key prefix) (map_keys (st_refs s)))
       in case limit of
            None \<Rightarrow> Inr sorted
          | Some n \<Rightarrow>
              if n = 0 then Inr sorted
              else if n > 10000000 then Inl TypeErr else Inr (take n sorted))"

section \<open>The adapter keeps the contracts\<close>

lemma adapter_validateOid_ok [simp]: "adapter_validateOid oid = Inr u \<longleftrightarrow> oid_ok oid"
  by (simp add: adapter_validateOid_def)

lemma validateRef_ok [simp]: "validateRef ref = Inr u \<longleftrightarrow> ref_ok ref"
  by (simp add: validateRef_def)

lemma oid_ok_nonempty: "oid_ok oid \<Longrightarrow> oid \<noteq> []"
  by (simp add: oid_ok_def)

interpretation blobs: object_store "writeBlob hash" readBlob oid_ok for hash :: hash_fun
  by unfold_locales
    (auto simp: writeBlob_def readBlob_def Let_def adapter_validateOid_def)

interpretation commits: object_store "put_commit hash" getNodeInfo oid_ok for hash :: hash_fun
  by unfold_locales
    (auto simp: put_commit_def getNodeInfo_def Let_def adapter_validateOid_def)

interpretation refs: ref_store ref_value set_ref compareAndSwapRef
proof (unfold_locales, goal_cases)
  case (1 oid s ref)
  then show ?case by (simp add: ref_value_def set_ref_def)
next
  case (2 ref' ref s oid)
  then show ?case by (simp add: ref_value_def set_ref_def)
next
  case (3 s ref oid expected s')
  then show ?case by (auto simp: compareAndSwapRef_def bind_r_Inr_iff Let_def split: if_splits)
next
  case (4 s ref expected oid)
  then show ?case by (auto simp: compareAndSwapRef_def bind_r_Inr_iff Let_def is_ok_iff split: if_splits)
qed

lemma updateRef_ok: "updateRef s ref oid = Inr s' \<longleftrightarrow> ref_ok ref \<and> oid_ok oid \<and> s' = set_ref s ref oid"
  by (auto simp: updateRef_def bind_r_Inr_iff)

lemma readRef_ok: "readRef s ref = Inr v \<longleftrightarrow> ref_ok ref \<and> v = ref_value s ref"
  by (auto simp: readRef_def bind_r_Inr_iff)

text \<open>Objects and refs live in separate maps.\<close>

lemma store_frames [simp]:
  "ref_value (fst (writeBlob hash s c)) = ref_value s" "ref_value (fst (put_tree hash s es)) = ref_value s"
  "ref_value (fst (put_commit hash s ci)) = ref_value s"
  "readBlob (fst (put_tree hash s es)) = readBlob s" "readBlob (fst (put_commit hash s ci)) = readBlob s"
  "readBlob (set_ref s r oid) = readBlob s" "getNodeInfo (set_ref s r oid) = getNodeInfo s"
  "getNodeInfo (fst (writeBlob hash s c)) = getNodeInfo s" "getNodeInfo (fst (put_tree hash s es)) = getNodeInfo s"
  "readTreeOids (set_ref s r oid) = readTreeOids s" "readTreeOids (fst (put_commit hash s ci)) = readTreeOids s"
  by (simp_all add: fun_eq_iff ref_value_def writeBlob_def put_tree_def put_commit_def readBlob_def
      getNodeInfo_def readTreeOids_def set_ref_def Let_def)

end
