(* ===== verification/PatchBuilder.thy ===== *)
theory PatchBuilder
  imports Messages GitStore Visibility
begin

text \<open>
  \<open>src/domain/services/PatchBuilderV2.js\<close>: the builder that a writer fills with operations, and the
  commit protocol that publishes the patch.

  A builder is a record of the object's fields; an operation returns the builder and either the
  result or the error, because a builder survives a throw and can be used again. What the builder
  calls outside the repository are parameters: the codec, the trailer codec, the hash. The optional
  external blob storages are taken to be absent, as by default, and the success callback only
  reports.
\<close>

section \<open>Operations that may throw\<close>

type_synonym ('s, 'a) op = "'s \<Rightarrow> 's \<times> 'a result"

definition ret_b :: "'a \<Rightarrow> ('s, 'a) op" where
  "ret_b x = (\<lambda>b. (b, Inr x))"

definition bind_b :: "('s, 'a) op \<Rightarrow> ('a \<Rightarrow> ('s, 'b) op) \<Rightarrow> ('s, 'b) op" where
  "bind_b m f = (\<lambda>b. case m b of (b', Inl e) \<Rightarrow> (b', Inl e) | (b', Inr x) \<Rightarrow> f x b')"

definition lift_b :: "'a result \<Rightarrow> ('s, 'a) op" where
  "lift_b r = (\<lambda>b. (b, r))"

definition modify_b :: "('s \<Rightarrow> 's) \<Rightarrow> ('s, unit) op" where
  "modify_b f = (\<lambda>b. (f b, Inr ()))"

definition gets_b :: "('s \<Rightarrow> 'a) \<Rightarrow> ('s, 'a) op" where
  "gets_b f = (\<lambda>b. (b, Inr (f b)))"

section \<open>The builder\<close>

datatype delete_policy = RejectDelete | CascadeDelete | WarnDelete

record builder =
  b_graphName :: string
  b_writerId :: string
  b_lamport :: int
  b_vv :: version_vector
  b_snapshot :: "warp_state option option"
  b_expectedParentSha :: "string option"
  b_ops :: "jsval list"
  b_nodesAdded :: "string jsset"
  b_edgesAdded :: "string jsset"
  b_onDelete :: delete_policy
  b_contentBlobs :: "string list"
  b_observed :: "string jsset"
  b_writes :: "string jsset"
  b_hasEdgeProps :: bool
  b_committed :: bool
  b_committing :: bool
  b_warnings :: "(string \<times> nat \<times> nat) list"

text \<open>\<open>b_warnings\<close> collects the calls of the logger, with the counts that they print.\<close>

definition createPatchBuilder ::
  "string \<Rightarrow> string \<Rightarrow> int \<Rightarrow> version_vector \<Rightarrow> string option \<Rightarrow> delete_policy \<Rightarrow> builder" where
  "createPatchBuilder graphName writerId lamport versionVector expectedParentSha onDelete =
     \<lparr>b_graphName = graphName, b_writerId = writerId, b_lamport = lamport, b_vv = vvClone versionVector,
      b_snapshot = None, b_expectedParentSha = expectedParentSha, b_ops = [], b_nodesAdded = [],
      b_edgesAdded = [], b_onDelete = onDelete, b_contentBlobs = [], b_observed = [], b_writes = [],
      b_hasEdgeProps = False, b_committed = False, b_committing = False, b_warnings = []\<rparr>"

text \<open>\<open>cur\<close> is what \<open>getCurrentState()\<close> returns at the time of the call.\<close>

definition getSnapshotState :: "warp_state option \<Rightarrow> (builder, warp_state option) op" where
  "getSnapshotState cur = (\<lambda>b. case b_snapshot b of
       Some s \<Rightarrow> (b, Inr s)
     | None \<Rightarrow> (b\<lparr>b_snapshot := Some cur\<rparr>, Inr cur))"

definition assertNotCommitted :: "(builder, unit) op" where
  "assertNotCommitted = (\<lambda>b. if b_committed b \<or> b_committing b then (b, Inl (BuilderErr AlreadyCommitted)) else (b, Inr ()))"

definition assertNoReservedBytes :: "jsval \<Rightarrow> string \<Rightarrow> unit result" where
  "assertNoReservedBytes value label =
     (if \<not> js_is_str value then Inl (BuilderErr (NotAString label))
      else if str_includes (js_str value) [FIELD_SEPARATOR] then Inl (BuilderErr (HasNullByte label))
      else if length (js_str value) > 0 \<and> hd (js_str value) = EDGE_PROP_PREFIX
      then Inl (BuilderErr (HasReservedPrefix label)) else Inr ())"

record attached =
  at_edges :: "string list"
  at_props :: "string list"
  at_hasData :: bool

definition findAttachedData :: "warp_state \<Rightarrow> string \<Rightarrow> attached" where
  "findAttachedData st nodeId =
     (let srcPrefix = nodeId @ [FIELD_SEPARATOR];
          tgtInfix = FIELD_SEPARATOR # nodeId @ [FIELD_SEPARATOR];
          edges = filter (\<lambda>key. starts_with key srcPrefix \<or> str_includes key tgtInfix) (orsetElements (edgeAlive st));
          props = filter (\<lambda>key. starts_with key srcPrefix) (map_keys (propMap st))
      in \<lparr>at_edges = edges, at_props = props, at_hasData = (length edges > 0 \<or> length props > 0)\<rparr>)"

section \<open>Adding and removing\<close>

definition push_op :: "jsval \<Rightarrow> (builder, unit) op" where
  "push_op p = modify_b (\<lambda>b. b\<lparr>b_ops := b_ops b @ [p]\<rparr>)"

definition observe_b :: "string \<Rightarrow> (builder, unit) op" where
  "observe_b x = modify_b (\<lambda>b. b\<lparr>b_observed := set_add (b_observed b) x\<rparr>)"

definition write_b :: "string \<Rightarrow> (builder, unit) op" where
  "write_b x = modify_b (\<lambda>b. b\<lparr>b_writes := set_add (b_writes b) x\<rparr>)"

text \<open>\<open>vvIncrement(this._vv, this._writerId)\<close>; the vector is updated even when the dot is refused.\<close>

definition next_dot :: "(builder, dot) op" where
  "next_dot = (\<lambda>b. let (vv', d) = vvIncrement (b_vv b) (b_writerId b) in (b\<lparr>b_vv := vv'\<rparr>, d))"

definition addNode :: "jsval \<Rightarrow> (builder, unit) op" where
  "addNode nodeId =
     bind_b assertNotCommitted (\<lambda>_.
       bind_b (lift_b (assertNoReservedBytes nodeId ''nodeId'')) (\<lambda>_.
         bind_b next_dot (\<lambda>dot.
           bind_b (push_op (createNodeAddV2 (js_str nodeId) dot)) (\<lambda>_.
             bind_b (modify_b (\<lambda>b. b\<lparr>b_nodesAdded := set_add (b_nodesAdded b) (js_str nodeId)\<rparr>)) (\<lambda>_.
               write_b (js_str nodeId))))))"

definition js_part :: "string list \<Rightarrow> nat \<Rightarrow> jsval" where
  "js_part ps i = (case part ps i of None \<Rightarrow> JUndef | Some s \<Rightarrow> JStr s)"

definition cascade_edge :: "warp_state \<Rightarrow> string \<Rightarrow> (builder, unit) op" where
  "cascade_edge st edgeKey =
     (let ps = split_on FIELD_SEPARATOR edgeKey
      in bind_b (push_op (createEdgeRemoveV2 (js_part ps 0) (js_part ps 1) (js_part ps 2)
                           (orsetGetDots (edgeAlive st) edgeKey)))
           (\<lambda>_. observe_b edgeKey))"

fun each_b :: "('x \<Rightarrow> ('s, unit) op) \<Rightarrow> 'x list \<Rightarrow> ('s, unit) op" where
  "each_b f [] = ret_b ()"
| "each_b f (x # xs) = bind_b (f x) (\<lambda>_. each_b f xs)"

definition deleteGuard :: "warp_state option \<Rightarrow> string \<Rightarrow> (builder, unit) op" where
  "deleteGuard st nodeId =
     bind_b (gets_b b_onDelete) (\<lambda>policy.
       case st of
         None \<Rightarrow> ret_b ()
       | Some s \<Rightarrow>
           let data = findAttachedData s nodeId;
               nE = length (at_edges data); nP = length (at_props data)
           in case policy of
                CascadeDelete \<Rightarrow> each_b (cascade_edge s) (at_edges data)
              | RejectDelete \<Rightarrow>
                  if at_hasData data then lift_b (Inl (BuilderErr (NodeHasData nodeId nE nP))) else ret_b ()
              | WarnDelete \<Rightarrow>
                  if at_hasData data
                  then modify_b (\<lambda>b. b\<lparr>b_warnings := b_warnings b @ [(nodeId, nE, nP)]\<rparr>) else ret_b ())"

definition removeNode :: "warp_state option \<Rightarrow> string \<Rightarrow> (builder, unit) op" where
  "removeNode cur nodeId =
     bind_b assertNotCommitted (\<lambda>_.
       bind_b (getSnapshotState cur) (\<lambda>st.
         bind_b (deleteGuard st nodeId) (\<lambda>_.
           let observedDots = (case st of None \<Rightarrow> [] | Some s \<Rightarrow> orsetGetDots (nodeAlive s) nodeId)
           in bind_b (push_op (createNodeRemoveV2 nodeId observedDots)) (\<lambda>_. observe_b nodeId))))"

definition addEdge :: "jsval \<Rightarrow> jsval \<Rightarrow> jsval \<Rightarrow> (builder, unit) op" where
  "addEdge from_id to_id label =
     bind_b assertNotCommitted (\<lambda>_.
       bind_b (lift_b (assertNoReservedBytes from_id ''from node ID'')) (\<lambda>_.
         bind_b (lift_b (assertNoReservedBytes to_id ''to node ID'')) (\<lambda>_.
           bind_b (lift_b (assertNoReservedBytes label ''edge label'')) (\<lambda>_.
             bind_b next_dot (\<lambda>dot.
               let f = js_str from_id; t = js_str to_id; l = js_str label; edgeKey = encodeEdgeKey f t l
               in bind_b (push_op (createEdgeAddV2 f t l dot)) (\<lambda>_.
                    bind_b (modify_b (\<lambda>b. b\<lparr>b_edgesAdded := set_add (b_edgesAdded b) edgeKey\<rparr>)) (\<lambda>_.
                      bind_b (observe_b f) (\<lambda>_. bind_b (observe_b t) (\<lambda>_. write_b edgeKey)))))))))"

definition removeEdge :: "warp_state option \<Rightarrow> string \<Rightarrow> string \<Rightarrow> string \<Rightarrow> (builder, unit) op" where
  "removeEdge cur from_id to_id label =
     bind_b assertNotCommitted (\<lambda>_.
       bind_b (getSnapshotState cur) (\<lambda>st.
         let edgeKey = encodeEdgeKey from_id to_id label;
             observedDots = (case st of None \<Rightarrow> [] | Some s \<Rightarrow> orsetGetDots (edgeAlive s) edgeKey)
         in bind_b (push_op (createEdgeRemoveV2 (JStr from_id) (JStr to_id) (JStr label) observedDots))
              (\<lambda>_. observe_b edgeKey)))"

section \<open>Properties and content\<close>

definition setProperty :: "jsval \<Rightarrow> jsval \<Rightarrow> jsval \<Rightarrow> (builder, unit) op" where
  "setProperty nodeId key value =
     bind_b assertNotCommitted (\<lambda>_.
       bind_b (lift_b (assertNoReservedBytes nodeId ''nodeId'')) (\<lambda>_.
         bind_b (lift_b (assertNoReservedBytes key ''property key'')) (\<lambda>_.
           bind_b (push_op (createNodePropSetV2 nodeId key value)) (\<lambda>_.
             bind_b (observe_b (js_str nodeId)) (\<lambda>_. write_b (js_str nodeId))))))"

definition assertEdgeExists :: "warp_state option \<Rightarrow> string \<Rightarrow> string \<Rightarrow> string \<Rightarrow> (builder, string) op" where
  "assertEdgeExists cur from_id to_id label =
     (let ek = encodeEdgeKey from_id to_id label
      in bind_b (gets_b b_edgesAdded) (\<lambda>added.
           if ek \<in> set added then ret_b ek
           else bind_b (getSnapshotState cur) (\<lambda>st.
             case st of
               None \<Rightarrow> lift_b (Inl (BuilderErr (UnknownEdge from_id to_id label)))
             | Some s \<Rightarrow>
                 if \<not> orsetContains (edgeAlive s) ek
                 then lift_b (Inl (BuilderErr (UnknownEdge from_id to_id label))) else ret_b ek)))"

definition assertNodeExistsForContent :: "warp_state option \<Rightarrow> string \<Rightarrow> (builder, unit) op" where
  "assertNodeExistsForContent cur nodeId =
     bind_b (gets_b b_nodesAdded) (\<lambda>added.
       if nodeId \<in> set added then ret_b ()
       else bind_b (getSnapshotState cur) (\<lambda>st.
         case st of
           None \<Rightarrow> lift_b (Inl (BuilderErr (UnknownNode nodeId)))
         | Some s \<Rightarrow>
             if \<not> orsetContains (nodeAlive s) nodeId
             then lift_b (Inl (BuilderErr (UnknownNode nodeId))) else ret_b ()))"

definition setEdgeProperty ::
  "warp_state option \<Rightarrow> jsval \<Rightarrow> jsval \<Rightarrow> jsval \<Rightarrow> jsval \<Rightarrow> jsval \<Rightarrow> (builder, unit) op" where
  "setEdgeProperty cur from_id to_id label key value =
     bind_b assertNotCommitted (\<lambda>_.
       bind_b (lift_b (assertNoReservedBytes from_id ''from node ID'')) (\<lambda>_.
         bind_b (lift_b (assertNoReservedBytes to_id ''to node ID'')) (\<lambda>_.
           bind_b (lift_b (assertNoReservedBytes label ''edge label'')) (\<lambda>_.
             bind_b (lift_b (assertNoReservedBytes key ''property key'')) (\<lambda>_.
               bind_b (assertEdgeExists cur (js_str from_id) (js_str to_id) (js_str label)) (\<lambda>ek.
                 bind_b (push_op (createEdgePropSetV2 (js_str from_id) (js_str to_id) (js_str label) key value)) (\<lambda>_.
                   bind_b (modify_b (\<lambda>b. b\<lparr>b_hasEdgeProps := True\<rparr>)) (\<lambda>_.
                     bind_b (observe_b ek) (\<lambda>_. write_b ek)))))))))"

text \<open>Content is a string or bytes; its size is that of its encoding.\<close>

datatype content = TextContent string | BytesContent bytes

definition content_bytes :: "content \<Rightarrow> bytes" where
  "content_bytes c = (case c of TextContent s \<Rightarrow> utf8 s | BytesContent bs \<Rightarrow> bs)"

definition byteSizeOfContent :: "content \<Rightarrow> int" where
  "byteSizeOfContent c = int (length (content_bytes c))"

record content_meta =
  meta_mime :: "string option"
  meta_size :: int

text \<open>\<open>undefined\<close> and \<open>null\<close> hints are ignored.\<close>

definition absent :: "jsval \<Rightarrow> bool" where
  "absent v \<longleftrightarrow> v = JUndef \<or> v = JNull"

definition is_array :: "jsval \<Rightarrow> bool" where
  "is_array v = (case v of JArr _ \<Rightarrow> True | _ \<Rightarrow> False)"

definition check_size :: "int \<Rightarrow> jsval \<Rightarrow> unit result" where
  "check_size actualSize providedSize =
     (if absent providedSize then Inr ()
      else (case js_int providedSize of
          None \<Rightarrow> Inl (BuilderErr MetadataSizeInvalid)
        | Some n \<Rightarrow>
            if n < 0 then Inl (BuilderErr MetadataSizeInvalid)
            else if n \<noteq> actualSize then Inl (BuilderErr (MetadataSizeMismatch n actualSize)) else Inr ()))"

definition check_mime :: "jsval \<Rightarrow> unit result" where
  "check_mime providedMime =
     (if absent providedMime then Inr ()
      else if \<not> js_is_str providedMime \<or> list_all js_space (js_str providedMime)
      then Inl (BuilderErr MetadataMimeInvalid) else Inr ())"

definition normalizeContentMetadata :: "content \<Rightarrow> jsval \<Rightarrow> content_meta result" where
  "normalizeContentMetadata content metadata =
     (if metadata \<noteq> JUndef \<and> (metadata = JNull \<or> js_typeof metadata \<noteq> ''object'' \<or> is_array metadata)
      then Inl (BuilderErr MetadataNotObject)
      else
        let actualSize = byteSizeOfContent content; providedMime = fld metadata ''mime''
        in bind_r (check_size actualSize (fld metadata ''size'')) (\<lambda>_.
             bind_r (check_mime providedMime) (\<lambda>_.
               Inr \<lparr>meta_mime = (if js_is_str providedMime then Some (js_str providedMime) else None),
                    meta_size = actualSize\<rparr>)))"

definition CONTENT_PROPERTY_KEY :: string where "CONTENT_PROPERTY_KEY = ''_content''"
definition CONTENT_MIME_PROPERTY_KEY :: string where "CONTENT_MIME_PROPERTY_KEY = ''_content.mime''"
definition CONTENT_SIZE_PROPERTY_KEY :: string where "CONTENT_SIZE_PROPERTY_KEY = ''_content.size''"

definition meta_value :: "content_meta \<Rightarrow> jsval" where
  "meta_value m = (case meta_mime m of None \<Rightarrow> JNull | Some s \<Rightarrow> JStr s)"

definition remember_blob :: "string \<Rightarrow> (builder, unit) op" where
  "remember_blob oid = modify_b (\<lambda>b. b\<lparr>b_contentBlobs := b_contentBlobs b @ [oid]\<rparr>)"

text \<open>The checks, the write of the blob, and the three properties.\<close>

definition attach_prepare :: "warp_state option \<Rightarrow> jsval \<Rightarrow> content \<Rightarrow> jsval \<Rightarrow> (builder, content_meta) op" where
  "attach_prepare cur nodeId content metadata =
     bind_b assertNotCommitted (\<lambda>_.
       bind_b (lift_b (assertNoReservedBytes nodeId ''nodeId'')) (\<lambda>_.
         bind_b (lift_b (assertNoReservedBytes (JStr CONTENT_PROPERTY_KEY) ''key'')) (\<lambda>_.
           bind_b (assertNodeExistsForContent cur (js_str nodeId)) (\<lambda>_.
             lift_b (normalizeContentMetadata content metadata)))))"

definition attach_props :: "jsval \<Rightarrow> string \<Rightarrow> content_meta \<Rightarrow> (builder, unit) op" where
  "attach_props nodeId oid meta =
     bind_b (setProperty nodeId (JStr CONTENT_PROPERTY_KEY) (JStr oid)) (\<lambda>_.
       bind_b (setProperty nodeId (JStr CONTENT_SIZE_PROPERTY_KEY) (JNum (meta_size meta))) (\<lambda>_.
         bind_b (setProperty nodeId (JStr CONTENT_MIME_PROPERTY_KEY) (meta_value meta)) (\<lambda>_.
           remember_blob oid)))"

definition attachContent ::
  "hash_fun \<Rightarrow> warp_state option \<Rightarrow> jsval \<Rightarrow> content \<Rightarrow> jsval \<Rightarrow> git_store \<Rightarrow> builder \<Rightarrow>
     git_store \<times> builder \<times> unit result" where
  "attachContent hash cur nodeId content metadata s b =
     (case attach_prepare cur nodeId content metadata b of
        (b1, Inl e) \<Rightarrow> (s, b1, Inl e)
      | (b1, Inr meta) \<Rightarrow>
          let (s', oid) = writeBlob hash s (content_bytes content)
          in (s', attach_props nodeId oid meta b1))"

definition edge_attach_prepare ::
  "warp_state option \<Rightarrow> jsval \<Rightarrow> jsval \<Rightarrow> jsval \<Rightarrow> content \<Rightarrow> jsval \<Rightarrow> (builder, content_meta) op" where
  "edge_attach_prepare cur from_id to_id label content metadata =
     bind_b assertNotCommitted (\<lambda>_.
       bind_b (lift_b (assertNoReservedBytes from_id ''from'')) (\<lambda>_.
         bind_b (lift_b (assertNoReservedBytes to_id ''to'')) (\<lambda>_.
           bind_b (lift_b (assertNoReservedBytes label ''label'')) (\<lambda>_.
             bind_b (lift_b (assertNoReservedBytes (JStr CONTENT_PROPERTY_KEY) ''key'')) (\<lambda>_.
               bind_b (assertEdgeExists cur (js_str from_id) (js_str to_id) (js_str label)) (\<lambda>_.
                 lift_b (normalizeContentMetadata content metadata)))))))"

text \<open>\<open>cur'\<close> is the state at the time of the property writes, after the blob was stored.\<close>

definition edge_attach_props ::
  "warp_state option \<Rightarrow> jsval \<Rightarrow> jsval \<Rightarrow> jsval \<Rightarrow> string \<Rightarrow> content_meta \<Rightarrow> (builder, unit) op" where
  "edge_attach_props cur from_id to_id label oid meta =
     bind_b (setEdgeProperty cur from_id to_id label (JStr CONTENT_PROPERTY_KEY) (JStr oid)) (\<lambda>_.
       bind_b (setEdgeProperty cur from_id to_id label (JStr CONTENT_SIZE_PROPERTY_KEY) (JNum (meta_size meta))) (\<lambda>_.
         bind_b (setEdgeProperty cur from_id to_id label (JStr CONTENT_MIME_PROPERTY_KEY) (meta_value meta)) (\<lambda>_.
           remember_blob oid)))"

definition attachEdgeContent ::
  "hash_fun \<Rightarrow> warp_state option \<Rightarrow> jsval \<Rightarrow> jsval \<Rightarrow> jsval \<Rightarrow> content \<Rightarrow> jsval \<Rightarrow> git_store \<Rightarrow> builder \<Rightarrow>
     git_store \<times> builder \<times> unit result" where
  "attachEdgeContent hash cur from_id to_id label content metadata s b =
     (case edge_attach_prepare cur from_id to_id label content metadata b of
        (b1, Inl e) \<Rightarrow> (s, b1, Inl e)
      | (b1, Inr meta) \<Rightarrow>
          let (s', oid) = writeBlob hash s (content_bytes content)
          in (s', edge_attach_props cur from_id to_id label oid meta b1))"

section \<open>Building and committing\<close>

definition build_at :: "int \<Rightarrow> builder \<Rightarrow> patch result" where
  "build_at lamport b =
     bind_r (vvSerialize (b_vv b)) (\<lambda>context.
       Inr (createPatchV2 (if b_hasEdgeProps b then 3 else 2) (b_writerId b) lamport
              (CtxObj (map (\<lambda>(w, c). (w, JNum c)) context)) (map lowerCanonicalOp (b_ops b))
              (sort (b_observed b)) (sort (b_writes b))))"

definition build :: "builder \<Rightarrow> patch result" where
  "build b = build_at (b_lamport b) b"

datatype commit_error = CommitErr js_error | CommitMsg msg_error

fun commit_err :: "'a result \<Rightarrow> commit_error + 'a" where
  "commit_err (Inl e) = Inl (CommitErr e)"
| "commit_err (Inr x) = Inr x"

fun commit_msg :: "'a msg_result \<Rightarrow> commit_error + 'a" where
  "commit_msg (Inl e) = Inl (CommitMsg e)"
| "commit_msg (Inr x) = Inr x"

text \<open>What the first half of the protocol reads: the ref, its tip, and the Lamport time to use.\<close>

record commit_plan =
  plan_ref :: string
  plan_parent :: "string option"
  plan_lamport :: int

definition next_lamport ::
  "(string \<Rightarrow> trailers msg_result) \<Rightarrow> git_store \<Rightarrow> int \<Rightarrow> string \<Rightarrow> int result" where
  "next_lamport decode_msg s lamport tip =
     bind_r (showNode s tip) (\<lambda>message.
       if detectMessageKind decode_msg message = Some ''patch'' then
         (case decodePatchMessage decode_msg message of
            Inl _ \<Rightarrow> Inl (BuilderErr BadPatchMessage)
          | Inr info \<Rightarrow> Inr (max lamport (pm_lamport info + 1)))
       else Inr lamport)"

definition plan_commit :: "(string \<Rightarrow> trailers msg_result) \<Rightarrow> git_store \<Rightarrow> builder \<Rightarrow> commit_plan result" where
  "plan_commit decode_msg s b =
     (if length (b_ops b) = 0 then Inl (BuilderErr EmptyPatch)
      else bind_r (buildWriterRef (b_graphName b) (b_writerId b)) (\<lambda>writerRef.
        bind_r (readRef s writerRef) (\<lambda>currentRefSha.
          if currentRefSha \<noteq> b_expectedParentSha b
          then Inl (BuilderErr (CasConflict (b_expectedParentSha b) currentRefSha))
          else (case currentRefSha of
              None \<Rightarrow> Inr \<lparr>plan_ref = writerRef, plan_parent = None, plan_lamport = b_lamport b\<rparr>
            | Some tip \<Rightarrow>
                bind_r (next_lamport decode_msg s (b_lamport b) tip) (\<lambda>lamport.
                  Inr \<lparr>plan_ref = writerRef, plan_parent = Some tip, plan_lamport = lamport\<rparr>)))))"

text \<open>The parameters of the environment.\<close>

record environment =
  env_hash :: hash_fun
  env_author :: string
  env_date :: string
  env_encode :: "patch \<Rightarrow> bytes"
  env_encodeMsg :: "string \<Rightarrow> trailers \<Rightarrow> string"
  env_decodeMsg :: "string \<Rightarrow> trailers msg_result"

definition tree_lines :: "string \<Rightarrow> string list \<Rightarrow> string list" where
  "tree_lines patchBlobOid contentBlobs =
     (''100644 blob '' @ patchBlobOid @ CHR 0x09 # ''patch.cbor'') #
     map (\<lambda>oid. ''100644 blob '' @ oid @ CHR 0x09 # ''_content_'' @ oid) (set_of contentBlobs)"

text \<open>The writes of the objects: the blob, the tree and the commit.\<close>

definition write_commit ::
  "environment \<Rightarrow> git_store \<Rightarrow> builder \<Rightarrow> commit_plan \<Rightarrow> git_store \<times> (commit_error + patch \<times> string)" where
  "write_commit env s b plan =
     (case build_at (plan_lamport plan) b of
        Inl e \<Rightarrow> (s, Inl (CommitErr e))
      | Inr p \<Rightarrow>
          let (s1, blob) = writeBlob (env_hash env) s (env_encode env p)
          in (case writeTree (env_hash env) s1 (tree_lines blob (b_contentBlobs b)) of
                Inl e \<Rightarrow> (s1, Inl (CommitErr e))
              | Inr (s2, tree) \<Rightarrow>
                  (case encodePatchMessage (env_encodeMsg env)
                          \<lparr>pm_graph = b_graphName b, pm_writer = b_writerId b, pm_lamport = plan_lamport plan,
                           pm_patchOid = blob, pm_schema = int (patch_schema p), pm_encrypted = False\<rparr> of
                     Inl e \<Rightarrow> (s2, Inl (CommitMsg e))
                   | Inr message \<Rightarrow>
                       (case commitNodeWithTree (env_hash env) (env_author env) (env_date env) s2 tree
                               (case plan_parent plan of None \<Rightarrow> [] | Some tip \<Rightarrow> [tip]) message of
                          Inl e \<Rightarrow> (s2, Inl (CommitErr e))
                        | Inr (s3, sha) \<Rightarrow> (s3, Inr (p, sha))))))"

text \<open>
  The protocol in the three steps between which other processes may act on the store:
  the checks, the objects, and the ref. \<open>committing\<close> is set by the first and cleared by a failure or
  by the last.
\<close>

definition commit_begin ::
  "environment \<Rightarrow> git_store \<Rightarrow> builder \<Rightarrow> builder \<times> (commit_error + commit_plan)" where
  "commit_begin env s b =
     (if b_committed b \<or> b_committing b then (b, Inl (CommitErr (BuilderErr AlreadyCommitted)))
      else (case plan_commit (env_decodeMsg env) s b of
          Inl e \<Rightarrow> (b\<lparr>b_committing := False\<rparr>, Inl (CommitErr e))
        | Inr plan \<Rightarrow> (b\<lparr>b_committing := True\<rparr>, Inr plan)))"

definition commit_objects ::
  "environment \<Rightarrow> git_store \<Rightarrow> builder \<Rightarrow> commit_plan \<Rightarrow> git_store \<times> builder \<times> (commit_error + patch \<times> string)" where
  "commit_objects env s b plan =
     (case write_commit env s b plan of
        (s', Inl e) \<Rightarrow> (s', b\<lparr>b_committing := False\<rparr>, Inl e)
      | (s', Inr r) \<Rightarrow> (s', b, Inr r))"

definition commit_publish ::
  "git_store \<Rightarrow> builder \<Rightarrow> commit_plan \<Rightarrow> string \<Rightarrow> git_store \<times> builder \<times> (commit_error + string)" where
  "commit_publish s b plan sha =
     (case updateRef s (plan_ref plan) sha of
        Inl e \<Rightarrow> (s, b\<lparr>b_committing := False\<rparr>, Inl (CommitErr e))
      | Inr s' \<Rightarrow> (s', b\<lparr>b_committed := True, b_committing := False\<rparr>, Inr sha))"

definition commit :: "environment \<Rightarrow> git_store \<Rightarrow> builder \<Rightarrow> git_store \<times> builder \<times> (commit_error + string)" where
  "commit env s b =
     (case commit_begin env s b of
        (b1, Inl e) \<Rightarrow> (s, b1, Inl e)
      | (b1, Inr plan) \<Rightarrow>
          (case commit_objects env s b1 plan of
             (s2, b2, Inl e) \<Rightarrow> (s2, b2, Inl e)
           | (s2, b2, Inr (_, sha)) \<Rightarrow> commit_publish s2 b2 plan sha))"

end
