(* ===== verification/Observation.thy ===== *)
theory Observation
  imports Convergence
begin

text \<open>
  What a replayed log means, read off the set of its events: the abstract specification that the
  reducer of \<open>src/domain/services/JoinReducer.js\<close> implements. A node or an edge is alive when some
  add of it carries a dot that no remove of the log observed; a property holds the write with the
  greatest event id; an edge was born at its latest add; the frontier is the least one above every
  context and every patch's own dot.
\<close>

section \<open>The log of a list of patches\<close>

definition entry_log :: "patch \<times> string \<Rightarrow> (event_id \<times> op_effect) list" where
  "entry_log ps = (case patch_log (fst ps) (snd ps) of Inr l \<Rightarrow> l | Inl _ \<Rightarrow> [])"

definition full_log :: "(patch \<times> string) list \<Rightarrow> (event_id \<times> op_effect) list" where
  "full_log ps = concat (map entry_log ps)"

definition entry_context :: "patch \<Rightarrow> version_vector" where
  "entry_context p = (case contextVV (patch_context p) of Inr v \<Rightarrow> v | Inl _ \<Rightarrow> [])"

lemma full_log_simps [simp]:
  "full_log [] = []" "full_log (x # xs) = entry_log x @ full_log xs"
  by (simp_all add: full_log_def)

lemma run_effect_set_frontier [simp]:
  "run_effect e (st\<lparr>observedFrontier := f\<rparr>) eff = (run_effect e st eff)\<lparr>observedFrontier := f\<rparr>"
  by (cases eff) (simp_all add: setProp_eq)

lemma run_all_set_frontier [simp]:
  "run_all (st\<lparr>observedFrontier := f\<rparr>) log = (run_all st log)\<lparr>observedFrontier := f\<rparr>"
  by (induction log arbitrary: st) simp_all

lemma apply_entry_Inr:
  assumes "apply_entry st ps = Inr t"
  shows "t = (run_all st (entry_log ps))
      \<lparr>observedFrontier := observe (entry_context (fst ps)) (fst ps) (observedFrontier st)\<rparr>"
  using assms
  by (auto simp: apply_entry_def applyFast_log bind_r_Inr_iff entry_log_def entry_context_def)

definition observe_all :: "version_vector \<Rightarrow> (patch \<times> string) list \<Rightarrow> version_vector" where
  "observe_all f ps = foldl (\<lambda>f x. observe (entry_context (fst x)) (fst x) f) f ps"

lemma replay_Inr:
  assumes "fold_r apply_entry st ps = Inr t"
  shows "t = (run_all st (full_log ps))\<lparr>observedFrontier := observe_all (observedFrontier st) ps\<rparr>"
  using assms
proof (induction ps arbitrary: st)
  case Nil
  then show ?case by (simp add: observe_all_def)
next
  case (Cons x ps)
  then obtain st' where s: "apply_entry st x = Inr st'" "fold_r apply_entry st' ps = Inr t"
    by (auto simp: bind_r_Inr_iff)
  show ?case
    using Cons.IH [OF s(2)] apply_entry_Inr [OF s(1)]
    by (simp add: run_all_append observe_all_def)
qed

section \<open>Membership\<close>

definition added :: "(event_id \<times> op_effect) list \<Rightarrow> string \<Rightarrow> string set" where
  "added log n = {d. \<exists>e. (e, AddNode n d) \<in> set log}"

definition removed :: "(event_id \<times> op_effect) list \<Rightarrow> string set" where
  "removed log = {d. \<exists>e ds. (e, TombNodes ds) \<in> set log \<and> d \<in> set ds}"

definition edge_added :: "(event_id \<times> op_effect) list \<Rightarrow> string \<Rightarrow> string set" where
  "edge_added log k = {d. \<exists>e. (e, AddEdge k d) \<in> set log}"

definition edge_removed :: "(event_id \<times> op_effect) list \<Rightarrow> string set" where
  "edge_removed log = {d. \<exists>e ds. (e, TombEdges ds) \<in> set log \<and> d \<in> set ds}"

lemma run_effect_nodes:
  "orset_dots (nodeAlive (run_effect e st eff)) n = orset_dots (nodeAlive st) n \<union> added [(e, eff)] n"
  "orset_tombs (nodeAlive (run_effect e st eff)) = orset_tombs (nodeAlive st) \<union> removed [(e, eff)]"
  by (cases eff; auto simp: added_def removed_def setProp_eq)+

lemma run_effect_edges:
  "orset_dots (edgeAlive (run_effect e st eff)) k = orset_dots (edgeAlive st) k \<union> edge_added [(e, eff)] k"
  "orset_tombs (edgeAlive (run_effect e st eff)) = orset_tombs (edgeAlive st) \<union> edge_removed [(e, eff)]"
  by (cases eff; auto simp: edge_added_def edge_removed_def setProp_eq)+

lemma added_Cons:
  "added (x # log) n = added [x] n \<union> added log n" "removed (x # log) = removed [x] \<union> removed log"
  "edge_added (x # log) n = edge_added [x] n \<union> edge_added log n"
  "edge_removed (x # log) = edge_removed [x] \<union> edge_removed log"
  by (auto simp: added_def removed_def edge_added_def edge_removed_def)

lemma added_Nil [simp]:
  "added [] n = {}" "removed [] = {}" "edge_added [] n = {}" "edge_removed [] = {}"
  by (auto simp: added_def removed_def edge_added_def edge_removed_def)

lemma run_all_nodes:
  "orset_dots (nodeAlive (run_all st log)) n = orset_dots (nodeAlive st) n \<union> added log n"
  "orset_tombs (nodeAlive (run_all st log)) = orset_tombs (nodeAlive st) \<union> removed log"
proof (induction log arbitrary: st)
  case (Cons x log)
  obtain e eff where x: "x = (e, eff)" by force
  note step = run_effect_nodes added_Cons [of "(e, eff)" log] Un_assoc
  { case 1 show ?case using Cons.IH(1) by (simp add: x step) }
  { case 2 show ?case using Cons.IH(2) by (simp add: x step) }
qed simp_all

lemma run_all_edges:
  "orset_dots (edgeAlive (run_all st log)) k = orset_dots (edgeAlive st) k \<union> edge_added log k"
  "orset_tombs (edgeAlive (run_all st log)) = orset_tombs (edgeAlive st) \<union> edge_removed log"
proof (induction log arbitrary: st)
  case (Cons x log)
  obtain e eff where x: "x = (e, eff)" by force
  note step = run_effect_edges added_Cons [of "(e, eff)" log] Un_assoc
  { case 1 show ?case using Cons.IH(1) by (simp add: x step) }
  { case 2 show ?case using Cons.IH(2) by (simp add: x step) }
qed simp_all

lemma run_all_contains:
  "orsetContains (nodeAlive (run_all createEmptyStateV5 log)) n \<longleftrightarrow> added log n - removed log \<noteq> {}"
  "orsetContains (edgeAlive (run_all createEmptyStateV5 log)) k \<longleftrightarrow> edge_added log k - edge_removed log \<noteq> {}"
  by (auto simp: orsetContains_iff run_all_nodes run_all_edges)

section \<open>Winning writes and births\<close>

definition writes_to :: "(event_id \<times> op_effect) list \<Rightarrow> string \<Rightarrow> (event_id \<times> jsval) set" where
  "writes_to log k = {(e, v). (e, WriteProp k v) \<in> set log}"

definition born :: "(event_id \<times> op_effect) list \<Rightarrow> string \<Rightarrow> event_id set" where
  "born log k = {e. \<exists>d. (e, AddEdge k d) \<in> set log}"

text \<open>\<open>winner W r\<close>: the register \<open>r\<close> holds one of the writes \<open>W\<close>, of the greatest event id.\<close>

definition winner :: "(event_id \<times> jsval) set \<Rightarrow> lww_register option \<Rightarrow> bool" where
  "winner W r = (case r of None \<Rightarrow> W = {}
     | Some r \<Rightarrow> (reg_eventId r, reg_value r) \<in> W \<and> (\<forall>(e, v) \<in> W. e \<le> reg_eventId r))"

lemma winner_cons:
  "winner W r \<Longrightarrow> winner (insert (e, v) W) (Some (case r of None \<Rightarrow> lwwSet e v | Some r \<Rightarrow> lww_pick r (lwwSet e v)))"
  by (fastforce simp: winner_def lww_pick_def split: option.splits)

lemma writes_to_snoc:
  "writes_to (log @ [(e, eff)]) k =
     (case eff of WriteProp k' v \<Rightarrow> if k' = k then insert (e, v) (writes_to log k) else writes_to log k
        | _ \<Rightarrow> writes_to log k)"
  by (auto simp: writes_to_def split: op_effect.split)

lemma run_all_winner: "winner (writes_to log k) (map_of (propMap (run_all createEmptyStateV5 log)) k)"
proof (induction log rule: rev_induct)
  case Nil
  then show ?case by (simp add: winner_def writes_to_def)
next
  case (snoc x log)
  obtain e eff where x: "x = (e, eff)" by force
  show ?case
    using snoc winner_cons [OF snoc]
    by (cases eff) (auto simp: x run_all_append writes_to_snoc setProp_eq)
qed

definition latest :: "event_id set \<Rightarrow> event_id option \<Rightarrow> bool" where
  "latest E b = (case b of None \<Rightarrow> E = {} | Some e \<Rightarrow> e \<in> E \<and> (\<forall>e' \<in> E. e' \<le> e))"

lemma latest_cons:
  "latest E b \<Longrightarrow> latest (insert e E) (Some (case b of None \<Rightarrow> e | Some p \<Rightarrow> max p e))"
  by (fastforce simp: latest_def max_def split: option.splits)

lemma born_snoc:
  "born (log @ [(e, eff)]) k =
     (case eff of AddEdge k' d \<Rightarrow> if k' = k then insert e (born log k) else born log k | _ \<Rightarrow> born log k)"
  by (auto simp: born_def split: op_effect.split)

lemma run_all_latest: "latest (born log k) (map_of (edgeBirthEvent (run_all createEmptyStateV5 log)) k)"
proof (induction log rule: rev_induct)
  case Nil
  then show ?case by (simp add: latest_def born_def)
next
  case (snoc x log)
  obtain e eff where x: "x = (e, eff)" by force
  show ?case
    using snoc latest_cons [OF snoc]
    by (cases eff) (auto simp: x run_all_append born_snoc setProp_eq trackBirth_map_of)
qed

section \<open>The frontier\<close>

lemma entry_context_wf: "context_wf p \<Longrightarrow> vv_wf (entry_context p)"
  by (auto simp: entry_context_def split: sum.splits intro: contextVV_wf) (simp add: vv_wf_def)

lemma observe_get:
  assumes "vv_wf f" "vv_wf cvv"
  shows "vv_get (observe cvv p f) w =
    max (max (vv_get f w) (vv_get cvv w)) (if w = patch_writer p then patch_lamport p else 0)"
  using vv_get_nonneg [OF assms(1), of w]
  by (auto simp: observe_def foldPatchDot_get vvMerge_get assms)

lemma observe_all_wf:
  "vv_wf f \<Longrightarrow> \<forall>x\<in>set ps. context_wf (fst x) \<Longrightarrow> vv_wf (observe_all f ps)"
  by (induction ps arbitrary: f) (auto simp: observe_all_def observe_wf entry_context_wf)

lemma observe_all_le_iff:
  assumes "vv_wf f" "\<forall>x\<in>set ps. context_wf (fst x)"
  shows "vv_get (observe_all f ps) w \<le> c \<longleftrightarrow> vv_get f w \<le> c \<and>
    (\<forall>x\<in>set ps. vv_get (entry_context (fst x)) w \<le> c \<and> (patch_writer (fst x) = w \<longrightarrow> patch_lamport (fst x) \<le> c))"
  using assms
proof (induction ps arbitrary: f)
  case Nil
  then show ?case by (simp add: observe_all_def)
next
  case (Cons x ps)
  have w: "vv_wf (entry_context (fst x))"
    using Cons.prems entry_context_wf by auto
  have "observe_all f (x # ps) = observe_all (observe (entry_context (fst x)) (fst x) f) ps"
    by (simp add: observe_all_def)
  then show ?case
    using Cons.IH [of "observe (entry_context (fst x)) (fst x) f"] Cons.prems
      vv_get_nonneg [OF w, of w] vv_get_nonneg [OF Cons.prems(1), of w]
    by (auto simp: observe_get observe_wf w)
qed

end
