(* ===== verification/TickReceipts.thy ===== *)
theory TickReceipts
  imports Ops
begin

text \<open>
  \<open>src/domain/types/TickReceipt.js\<close>: the record of what each operation of a patch did, and its
  validation. \<open>canonicalJson\<close> is the serialisation of a receipt and is not modelled.
\<close>

definition OP_TYPES :: "string list" where
  "OP_TYPES =
     [''NodeAdd'', ''NodeTombstone'', ''EdgeAdd'', ''EdgeTombstone'',
      ''PropSet'', ''NodePropSet'', ''EdgePropSet'', ''BlobValue'']"

definition RESULT_TYPES :: "string list" where
  "RESULT_TYPES = [''applied'', ''superseded'', ''redundant'']"

definition isObject :: "jsval \<Rightarrow> bool" where
  "isObject value \<longleftrightarrow> value \<noteq> JNull \<and> js_typeof value = ''object''"

definition validateOpType :: "jsval \<Rightarrow> nat \<Rightarrow> unit result" where
  "validateOpType value i =
     (if \<not> js_is_str value \<or> js_str value \<notin> set OP_TYPES then Inl (ReceiptErr (ReceiptOpType i)) else Inr ())"

definition validateOpTarget :: "jsval \<Rightarrow> nat \<Rightarrow> unit result" where
  "validateOpTarget value i =
     (if \<not> js_is_str value \<or> length (js_str value) = 0 then Inl (ReceiptErr (ReceiptOpTarget i)) else Inr ())"

definition validateOpResult :: "jsval \<Rightarrow> nat \<Rightarrow> unit result" where
  "validateOpResult value i =
     (if \<not> js_is_str value \<or> js_str value \<notin> set RESULT_TYPES
      then Inl (ReceiptErr (ReceiptOpResult i)) else Inr ())"

definition validateReceiptOp :: "jsval \<Rightarrow> nat \<Rightarrow> unit result" where
  "validateReceiptOp op index =
     (if \<not> isObject op then Inl (ReceiptErr (ReceiptOpNotObject index))
      else bind_r (validateOpType (fld op ''op'') index) (\<lambda>_.
        bind_r (validateOpTarget (fld op ''target'') index) (\<lambda>_.
          bind_r (validateOpResult (fld op ''result'') index) (\<lambda>_.
            if fld op ''reason'' \<noteq> JUndef \<and> \<not> js_is_str (fld op ''reason'')
            then Inl (ReceiptErr (ReceiptOpReason index)) else Inr ()))))"

record op_outcome =
  outcome_op :: string
  outcome_target :: string
  outcome_result :: string
  outcome_reason :: "string option"

record tick_receipt =
  receipt_patchSha :: string
  receipt_writer :: string
  receipt_lamport :: int
  receipt_ops :: "op_outcome list"

definition frozen_entry :: "jsval \<Rightarrow> op_outcome" where
  "frozen_entry o' =
     \<lparr>outcome_op = js_str (fld o' ''op''), outcome_target = js_str (fld o' ''target''),
      outcome_result = js_str (fld o' ''result''),
      outcome_reason = (if fld o' ''reason'' \<noteq> JUndef then Some (js_str (fld o' ''reason'')) else None)\<rparr>"

definition createTickReceipt :: "jsval \<Rightarrow> jsval \<Rightarrow> jsval \<Rightarrow> jsval \<Rightarrow> tick_receipt result" where
  "createTickReceipt patchSha writer lamport ops =
     (if \<not> js_is_str patchSha \<or> length (js_str patchSha) = 0 then Inl (ReceiptErr ReceiptShaEmpty)
      else if \<not> js_is_str writer \<or> length (js_str writer) = 0 then Inl (ReceiptErr ReceiptWriterEmpty)
      else (case js_int lamport of
         None \<Rightarrow> Inl (ReceiptErr ReceiptLamportNegative)
       | Some l \<Rightarrow>
           if l < 0 then Inl (ReceiptErr ReceiptLamportNegative)
           else (case ops of
               JArr xs \<Rightarrow>
                 bind_r (fold_r (\<lambda>_ (i, x). validateReceiptOp x i) () (List.enumerate 0 xs)) (\<lambda>_.
                   Inr \<lparr>receipt_patchSha = js_str patchSha, receipt_writer = js_str writer,
                        receipt_lamport = l, receipt_ops = map frozen_entry xs\<rparr>)
             | _ \<Rightarrow> Inl (ReceiptErr ReceiptOpsNotArray))))"

section \<open>What an accepted receipt guarantees\<close>

lemma validateReceiptOp_ok:
  "validateReceiptOp x i = Inr () \<longleftrightarrow> isObject x \<and>
     js_is_str (fld x ''op'') \<and> js_str (fld x ''op'') \<in> set OP_TYPES \<and>
     js_is_str (fld x ''target'') \<and> js_str (fld x ''target'') \<noteq> [] \<and>
     js_is_str (fld x ''result'') \<and> js_str (fld x ''result'') \<in> set RESULT_TYPES \<and>
     (fld x ''reason'' = JUndef \<or> js_is_str (fld x ''reason''))"
  by (auto simp: validateReceiptOp_def validateOpType_def validateOpTarget_def validateOpResult_def)

lemma fold_validate_ok:
  "fold_r (\<lambda>_ (i, x). validateReceiptOp x i) () (List.enumerate n xs) = Inr () \<longleftrightarrow>
     (\<forall>x\<in>set xs. validateReceiptOp x 0 = Inr ())"
proof (induction xs arbitrary: n)
  case Nil
  then show ?case by simp
next
  case (Cons x xs)
  have "validateReceiptOp x n = Inr () \<longleftrightarrow> validateReceiptOp x 0 = Inr ()"
    by (simp only: validateReceiptOp_ok)
  with Cons show ?case by (auto simp: bind_r_Inr_iff)
qed

definition outcome_valid :: "op_outcome \<Rightarrow> bool" where
  "outcome_valid oc \<longleftrightarrow> outcome_op oc \<in> set OP_TYPES \<and> outcome_target oc \<noteq> [] \<and>
     outcome_result oc \<in> set RESULT_TYPES"

lemma createTickReceipt_ok:
  "createTickReceipt (JStr sha) (JStr w) (JNum l) (JArr xs) = Inr r \<longleftrightarrow>
     sha \<noteq> [] \<and> w \<noteq> [] \<and> 0 \<le> l \<and> (\<forall>x\<in>set xs. validateReceiptOp x 0 = Inr ()) \<and>
     r = \<lparr>receipt_patchSha = sha, receipt_writer = w, receipt_lamport = l, receipt_ops = map frozen_entry xs\<rparr>"
  by (auto simp: createTickReceipt_def bind_r_Inr_iff fold_validate_ok)

lemma createTickReceipt_valid:
  assumes "createTickReceipt sha w l ops = Inr r"
  shows "receipt_patchSha r \<noteq> []" "receipt_writer r \<noteq> []" "0 \<le> receipt_lamport r"
    "list_all outcome_valid (receipt_ops r)"
proof -
  obtain xs n where x: "ops = JArr xs" "js_int l = Some n" "js_is_str sha" "js_is_str w"
    using assms by (auto simp: createTickReceipt_def split: option.splits if_splits jsval.splits)
  from x obtain s w' where "sha = JStr s" "w = JStr w'" "l = JNum n"
    by (cases l) (auto elim!: js_is_strE)
  then have c: "createTickReceipt (JStr s) (JStr w') (JNum n) (JArr xs) = Inr r"
    using assms x by simp
  then show "receipt_patchSha r \<noteq> []" "receipt_writer r \<noteq> []" "0 \<le> receipt_lamport r"
    by (auto simp: createTickReceipt_ok)
  from c show "list_all outcome_valid (receipt_ops r)"
    by (auto simp: createTickReceipt_ok list_all_iff outcome_valid_def frozen_entry_def
        validateReceiptOp_ok)
qed

end
