(* ===== verification/PatchDiffs.thy ===== *)
theory PatchDiffs
  imports KeyCodec
begin

text \<open>
  \<open>src/domain/types/PatchDiff.js\<close>: the transitions that a patch caused, and the merge of the
  transitions of two consecutive patches into a net diff.
\<close>

record prop_change =
  change_nodeId :: string
  change_key :: string
  change_value :: jsval
  change_prevValue :: jsval

record patch_diff =
  nodesAdded :: "string list"
  nodesRemoved :: "string list"
  edgesAdded :: "edge_parts list"
  edgesRemoved :: "edge_parts list"
  propsChanged :: "prop_change list"

definition createEmptyDiff :: patch_diff where
  "createEmptyDiff =
     \<lparr>nodesAdded = [], nodesRemoved = [], edgesAdded = [], edgesRemoved = [], propsChanged = []\<rparr>"

text \<open>A template literal prints a missing segment as \<open>undefined\<close>.\<close>

definition template_part :: "string option \<Rightarrow> string" where
  "template_part s = (case s of None \<Rightarrow> ''undefined'' | Some x \<Rightarrow> x)"

definition diff_edge_key :: "edge_parts \<Rightarrow> string" where
  "diff_edge_key e =
     template_part (part_from e) @ [FIELD_SEPARATOR] @ template_part (part_to e) @ [FIELD_SEPARATOR] @
     template_part (part_label e)"

definition dedup_props :: "prop_change list \<Rightarrow> prop_change list" where
  "dedup_props allProps =
     map snd (foldl (\<lambda>m entry. map_set m (change_nodeId entry @ [FIELD_SEPARATOR] @ change_key entry) entry) []
       allProps)"

definition mergeDiffs :: "patch_diff \<Rightarrow> patch_diff \<Rightarrow> patch_diff" where
  "mergeDiffs a b =
     (let allAdded = nodesAdded a @ nodesAdded b;
          allRemoved = nodesRemoved a @ nodesRemoved b;
          allEdgesAdded = edgesAdded a @ edgesAdded b;
          allEdgesRemoved = edgesRemoved a @ edgesRemoved b;
          edgeRemovedSet = set (map diff_edge_key allEdgesRemoved);
          edgeAddedSet = set (map diff_edge_key allEdgesAdded)
      in \<lparr>nodesAdded = filter (\<lambda>id. id \<notin> set allRemoved) allAdded,
          nodesRemoved = filter (\<lambda>id. id \<notin> set allAdded) allRemoved,
          edgesAdded = filter (\<lambda>e. diff_edge_key e \<notin> edgeRemovedSet) allEdgesAdded,
          edgesRemoved = filter (\<lambda>e. diff_edge_key e \<notin> edgeAddedSet) allEdgesRemoved,
          propsChanged = dedup_props (propsChanged a @ propsChanged b)\<rparr>)"

end
