(* ===== verification/Reduction.thy ===== *)
theory Reduction
  imports Observation TickReceipts PatchDiffs
begin

text \<open>
  \<open>src/domain/services/JoinReducer.js\<close>, second part: the receipts and the diffs that a replay
  may record, and \<open>reduceV5\<close>, the entry point with its three modes. The state that the recording
  modes compute is the one \<open>applyFast\<close> computes.
\<close>

section \<open>Dots to elements\<close>

text \<open>
  The two nested loops visit the pairs of \<open>entry_pairs\<close> and stop when every target dot has been
  found. \<open>remaining\<close> is that counter.
\<close>

fun dot_to_element_loop ::
  "string jsset \<Rightarrow> (string, string) jsmap \<Rightarrow> nat \<Rightarrow> (string \<times> string) list \<Rightarrow> (string, string) jsmap" where
  "dot_to_element_loop targetDots m remaining [] = m"
| "dot_to_element_loop targetDots m remaining ((element, d) # rest) =
     (if remaining = 0 then m
      else if d \<in> set targetDots
      then dot_to_element_loop targetDots (map_set m d element) (remaining - 1) rest
      else dot_to_element_loop targetDots m remaining rest)"

definition buildDotToElement :: "orset \<Rightarrow> string jsset \<Rightarrow> (string, string) jsmap" where
  "buildDotToElement s targetDots = dot_to_element_loop targetDots [] (length targetDots) (entry_pairs s)"

definition aliveElementsForDots :: "orset \<Rightarrow> string jsset \<Rightarrow> string jsset" where
  "aliveElementsForDots s observedDots =
     (let dotToElement = buildDotToElement s observedDots
      in foldl (\<lambda>result d. case map_of dotToElement d of
             None \<Rightarrow> result
           | Some element \<Rightarrow>
               if element \<notin> set result \<and> orsetContains s element then result @ [element] else result)
           [] observedDots)"

section \<open>Outcomes\<close>

definition RECEIPT_OP_TYPE :: "(string \<times> string) list" where
  "RECEIPT_OP_TYPE =
     [(''NodeAdd'', ''NodeAdd''), (''NodeRemove'', ''NodeTombstone''), (''EdgeAdd'', ''EdgeAdd''),
      (''EdgeRemove'', ''EdgeTombstone''), (''PropSet'', ''PropSet''), (''NodePropSet'', ''NodePropSet''),
      (''EdgePropSet'', ''EdgePropSet''), (''BlobValue'', ''BlobValue'')]"

definition VALID_RECEIPT_OPS :: "string list" where
  "VALID_RECEIPT_OPS = OP_TYPES"

record outcome =
  oc_target :: jsval
  oc_result :: string
  oc_reason :: "string option"

definition outcome_of :: "jsval \<Rightarrow> string \<Rightarrow> outcome" where
  "outcome_of target result = \<lparr>oc_target = target, oc_result = result, oc_reason = None\<rparr>"

text \<open>\<open>a || b\<close>\<close>

definition js_or :: "jsval \<Rightarrow> jsval \<Rightarrow> jsval" where
  "js_or a b = (if js_truthy a then a else b)"

text \<open>
  The dot of an operation printed by \<open>encodeDot\<close>. A dot that is not well formed makes the
  following \<open>orsetAdd\<close> throw, and the outcome is lost.
\<close>

definition op_dot_string :: "jsval \<Rightarrow> string" where
  "op_dot_string op = (case dot_of_js (fld op ''dot'') of None \<Rightarrow> [] | Some d \<Rightarrow> encodeDot d)"

definition has_dot :: "orset \<Rightarrow> string \<Rightarrow> string \<Rightarrow> bool" where
  "has_dot s element encoded =
     (case map_of (entries s) element of None \<Rightarrow> False | Some existingDots \<Rightarrow> encoded \<in> set existingDots)"

definition nodeAddOutcome :: "orset \<Rightarrow> jsval \<Rightarrow> outcome" where
  "nodeAddOutcome s op =
     outcome_of (fld op ''node'')
       (if has_dot s (js_str (fld op ''node'')) (op_dot_string op) then ''redundant'' else ''applied'')"

definition effective_remove :: "orset \<Rightarrow> jsval \<Rightarrow> bool" where
  "effective_remove s op =
     (let targetDots = set_of (js_strings (fld op ''observedDots''));
          dotToElement = buildDotToElement s targetDots
      in list_ex (\<lambda>d. d \<notin> set (tombstones s) \<and> map_of dotToElement d \<noteq> None) targetDots)"

definition nodeRemoveOutcome :: "orset \<Rightarrow> jsval \<Rightarrow> outcome" where
  "nodeRemoveOutcome s op =
     outcome_of (js_or (fld op ''node'') (JStr ''*''))
       (if effective_remove s op then ''applied'' else ''redundant'')"

definition edgeAddOutcome :: "orset \<Rightarrow> jsval \<Rightarrow> string \<Rightarrow> outcome" where
  "edgeAddOutcome s op edgeKey =
     outcome_of (JStr edgeKey) (if has_dot s edgeKey (op_dot_string op) then ''redundant'' else ''applied'')"

definition edgeRemoveOutcome :: "orset \<Rightarrow> jsval \<Rightarrow> outcome" where
  "edgeRemoveOutcome s op =
     outcome_of
       (if js_truthy (fld op ''from'') \<and> js_truthy (fld op ''to'') \<and> js_truthy (fld op ''label'')
        then JStr (edge_key_of op) else JStr ''*'')
       (if effective_remove s op then ''applied'' else ''redundant'')"

definition propOutcomeForKey :: "(string, lww_register) jsmap \<Rightarrow> string \<Rightarrow> event_id \<Rightarrow> outcome" where
  "propOutcomeForKey props key eventId =
     (case map_of props key of
        None \<Rightarrow> outcome_of (JStr key) ''applied''
      | Some current \<Rightarrow>
          let cmp = compareEventIds eventId (reg_eventId current)
          in if cmp > 0 then outcome_of (JStr key) ''applied''
             else if cmp < 0 then
               let winner = reg_eventId current
               in \<lparr>oc_target = JStr key, oc_result = ''superseded'',
                   oc_reason = Some (''LWW: writer '' @ ev_writerId winner @ '' at lamport '' @
                     show_int (ev_lamport winner) @ '' wins'')\<rparr>
             else outcome_of (JStr key) ''redundant'')"

definition propSetOutcome :: "(string, lww_register) jsmap \<Rightarrow> jsval \<Rightarrow> event_id \<Rightarrow> outcome" where
  "propSetOutcome props op eventId = propOutcomeForKey props (node_prop_key op) eventId"

definition edgePropSetOutcome :: "(string, lww_register) jsmap \<Rightarrow> jsval \<Rightarrow> event_id \<Rightarrow> outcome" where
  "edgePropSetOutcome props op eventId = propOutcomeForKey props (edge_prop_key op) eventId"

text \<open>The \<open>switch\<close> of \<open>applyWithReceipt\<close>, on the state before the operation.\<close>

definition op_outcome_of :: "warp_state \<Rightarrow> jsval \<Rightarrow> event_id \<Rightarrow> outcome" where
  "op_outcome_of st op eventId =
     (let t = js_str (fld op ''type'')
      in if t = ''NodeAdd'' then nodeAddOutcome (nodeAlive st) op
         else if t = ''NodeRemove'' then nodeRemoveOutcome (nodeAlive st) op
         else if t = ''EdgeAdd'' then edgeAddOutcome (edgeAlive st) op (edge_key_of op)
         else if t = ''EdgeRemove'' then edgeRemoveOutcome (edgeAlive st) op
         else if t = ''PropSet'' \<or> t = ''NodePropSet'' then propSetOutcome (propMap st) op eventId
         else if t = ''EdgePropSet'' then edgePropSetOutcome (propMap st) op eventId
         else outcome_of (js_or (js_or (fld op ''node'') (fld op ''oid'')) (JStr ''*'')) ''applied'')"

section \<open>Replaying with receipts\<close>

definition receipt_op_of :: "string \<Rightarrow> string" where
  "receipt_op_of t = (case map_of RECEIPT_OP_TYPE t of Some r \<Rightarrow> r | None \<Rightarrow> t)"

definition receipt_entry :: "string \<Rightarrow> outcome \<Rightarrow> jsval" where
  "receipt_entry receiptOp oc =
     JObj ([(''op'', JStr receiptOp), (''target'', oc_target oc), (''result'', JStr (oc_result oc))] @
           (case oc_reason oc of None \<Rightarrow> [] | Some r \<Rightarrow> [(''reason'', JStr r)]))"

definition receipt_step ::
  "patch \<Rightarrow> string \<Rightarrow> warp_state \<times> jsval list \<Rightarrow> nat \<times> jsval \<Rightarrow> (warp_state \<times> jsval list) result" where
  "receipt_step p patchSha acc iop =
     bind_r (normalizeRawOp (snd iop)) (\<lambda>canonOp.
       bind_r (validateOp canonOp) (\<lambda>_.
         bind_r (op_event p patchSha (fst iop)) (\<lambda>eventId.
           let oc = op_outcome_of (fst acc) canonOp eventId
           in bind_r (applyOpV2 (fst acc) canonOp eventId) (\<lambda>st'.
                let receiptOp = receipt_op_of (js_str (fld canonOp ''type''))
                in Inr (st', if receiptOp \<in> set VALID_RECEIPT_OPS
                             then snd acc @ [receipt_entry receiptOp oc] else snd acc)))))"

definition applyWithReceipt :: "warp_state \<Rightarrow> patch \<Rightarrow> string \<Rightarrow> (warp_state \<times> tick_receipt) result" where
  "applyWithReceipt st p patchSha =
     bind_r (fold_r (receipt_step p patchSha) (st, []) (List.enumerate 0 (patch_ops p))) (\<lambda>(st', opResults).
       bind_r (updateFrontierFromPatch st' p) (\<lambda>st''.
         bind_r (createTickReceipt (JStr patchSha) (JStr (patch_writer p)) (JNum (patch_lamport p))
                   (JArr opResults))
           (\<lambda>receipt. Inr (st'', receipt))))"

section \<open>Replaying with diffs\<close>

text \<open>
  \<open>===\<close> on two values. Two objects are the same when they are the same reference; here the values
  come from the register before and the register after one operation, which share the reference
  exactly when the register was kept (\<open>same\<close>).
\<close>

definition js_same :: "bool \<Rightarrow> jsval \<Rightarrow> jsval \<Rightarrow> bool" where
  "js_same same a b =
     (case a of
        JFlt w \<Rightarrow> a = b \<and> \<not> flt_is_nan w
      | JBytes _ \<Rightarrow> same \<and> a = b
      | JArr _ \<Rightarrow> same \<and> a = b
      | JSet _ \<Rightarrow> same \<and> a = b
      | JObj _ \<Rightarrow> same \<and> a = b
      | _ \<Rightarrow> a = b)"

definition same_register :: "lww_register option \<Rightarrow> lww_register option \<Rightarrow> bool" where
  "same_register r r' = (map_option reg_eventId r = map_option reg_eventId r')"

datatype op_snapshot =
    NodeWasAlive bool
  | AliveBeforeNodes "string jsset"
  | EdgeWasAlive bool string
  | AliveBeforeEdges "string jsset"
  | PrevProp "lww_register option" string
  | NoSnapshot

definition snapshotBeforeOp :: "warp_state \<Rightarrow> jsval \<Rightarrow> op_snapshot" where
  "snapshotBeforeOp st op =
     (let t = js_str (fld op ''type''); dots = set_of (js_strings (fld op ''observedDots''))
      in if t = ''NodeAdd'' then NodeWasAlive (orsetContains (nodeAlive st) (js_str (fld op ''node'')))
         else if t = ''NodeRemove'' then AliveBeforeNodes (aliveElementsForDots (nodeAlive st) dots)
         else if t = ''EdgeAdd'' then EdgeWasAlive (orsetContains (edgeAlive st) (edge_key_of op)) (edge_key_of op)
         else if t = ''EdgeRemove'' then AliveBeforeEdges (aliveElementsForDots (edgeAlive st) dots)
         else if t = ''PropSet'' \<or> t = ''NodePropSet'' then
           PrevProp (map_of (propMap st) (node_prop_key op)) (node_prop_key op)
         else if t = ''EdgePropSet'' then PrevProp (map_of (propMap st) (edge_prop_key op)) (edge_prop_key op)
         else NoSnapshot)"

definition collectNodeRemovals :: "patch_diff \<Rightarrow> warp_state \<Rightarrow> string jsset \<Rightarrow> patch_diff" where
  "collectNodeRemovals diff st aliveBefore =
     diff\<lparr>nodesRemoved := nodesRemoved diff @ filter (\<lambda>n. \<not> orsetContains (nodeAlive st) n) aliveBefore\<rparr>"

definition collectEdgeRemovals :: "patch_diff \<Rightarrow> warp_state \<Rightarrow> string jsset \<Rightarrow> patch_diff" where
  "collectEdgeRemovals diff st aliveBefore =
     diff\<lparr>edgesRemoved := edgesRemoved diff @
       map decodeEdgeKey (filter (\<lambda>k. \<not> orsetContains (edgeAlive st) k) aliveBefore)\<rparr>"

definition recordPropChange ::
  "patch_diff \<Rightarrow> warp_state \<Rightarrow> lww_register option \<Rightarrow> string \<Rightarrow> string \<Rightarrow> string \<Rightarrow> patch_diff" where
  "recordPropChange diff st prev propKey nodeId key =
     (let reg = map_of (propMap st) propKey; newVal = lwwValue reg; prevVal = lwwValue prev
      in if js_same (same_register prev reg) newVal prevVal then diff
         else diff\<lparr>propsChanged := propsChanged diff @
           [\<lparr>change_nodeId = nodeId, change_key = key, change_value = newVal, change_prevValue = prevVal\<rparr>]\<rparr>)"

definition accumulateOpDiff :: "patch_diff \<Rightarrow> warp_state \<Rightarrow> jsval \<Rightarrow> op_snapshot \<Rightarrow> patch_diff" where
  "accumulateOpDiff diff st op before =
     (case before of
        NodeWasAlive nodeWasAlive \<Rightarrow>
          if \<not> nodeWasAlive \<and> orsetContains (nodeAlive st) (js_str (fld op ''node''))
          then diff\<lparr>nodesAdded := nodesAdded diff @ [js_str (fld op ''node'')]\<rparr> else diff
      | AliveBeforeNodes ns \<Rightarrow> collectNodeRemovals diff st ns
      | EdgeWasAlive edgeWasAlive edgeKey \<Rightarrow>
          if \<not> edgeWasAlive \<and> orsetContains (edgeAlive st) edgeKey
          then diff\<lparr>edgesAdded := edgesAdded diff @
            [\<lparr>part_from = Some (js_str (fld op ''from'')), part_to = Some (js_str (fld op ''to'')),
              part_label = Some (js_str (fld op ''label''))\<rparr>]\<rparr> else diff
      | AliveBeforeEdges ks \<Rightarrow> collectEdgeRemovals diff st ks
      | PrevProp prev propKey \<Rightarrow>
          recordPropChange diff st prev propKey
            (if js_str (fld op ''type'') = ''EdgePropSet'' then edge_key_of op else js_str (fld op ''node''))
            (js_str (fld op ''key''))
      | NoSnapshot \<Rightarrow> diff)"

definition diff_step ::
  "patch \<Rightarrow> string \<Rightarrow> warp_state \<times> patch_diff \<Rightarrow> nat \<times> jsval \<Rightarrow> (warp_state \<times> patch_diff) result" where
  "diff_step p patchSha acc iop =
     bind_r (normalizeRawOp (snd iop)) (\<lambda>canonOp.
       bind_r (validateOp canonOp) (\<lambda>_.
         bind_r (op_event p patchSha (fst iop)) (\<lambda>eventId.
           let before = snapshotBeforeOp (fst acc) canonOp
           in bind_r (applyOpV2 (fst acc) canonOp eventId) (\<lambda>st'.
                Inr (st', accumulateOpDiff (snd acc) st' canonOp before)))))"

definition applyWithDiff :: "warp_state \<Rightarrow> patch \<Rightarrow> string \<Rightarrow> (warp_state \<times> patch_diff) result" where
  "applyWithDiff st p patchSha =
     bind_r (fold_r (diff_step p patchSha) (st, createEmptyDiff) (List.enumerate 0 (patch_ops p)))
       (\<lambda>(st', diff). bind_r (updateFrontierFromPatch st' p) (\<lambda>st''. Inr (st'', diff)))"

section \<open>The entry points\<close>

datatype join_result = JoinedState warp_state | JoinedReceipt warp_state tick_receipt

definition join :: "warp_state \<Rightarrow> patch \<Rightarrow> string \<Rightarrow> bool \<Rightarrow> join_result result" where
  "join st p patchSha collectReceipts =
     (if collectReceipts then bind_r (applyWithReceipt st p patchSha) (\<lambda>(s, r). Inr (JoinedReceipt s r))
      else bind_r (applyFast st p patchSha) (\<lambda>s. Inr (JoinedState s)))"

record reduce_options =
  opt_receipts :: bool
  opt_trackDiff :: bool

datatype reduced =
    ReducedState warp_state
  | ReducedReceipts warp_state "tick_receipt list"
  | ReducedDiff warp_state patch_diff

definition reduce_receipt_step ::
  "warp_state \<times> tick_receipt list \<Rightarrow> patch \<times> string \<Rightarrow> (warp_state \<times> tick_receipt list) result" where
  "reduce_receipt_step acc x =
     bind_r (applyWithReceipt (fst acc) (fst x) (snd x)) (\<lambda>(s, r). Inr (s, snd acc @ [r]))"

definition reduce_diff_step ::
  "warp_state \<times> patch_diff \<Rightarrow> patch \<times> string \<Rightarrow> (warp_state \<times> patch_diff) result" where
  "reduce_diff_step acc x =
     bind_r (applyWithDiff (fst acc) (fst x) (snd x)) (\<lambda>(s, d). Inr (s, mergeDiffs (snd acc) d))"

definition reduceV5 ::
  "(patch \<times> string) list \<Rightarrow> warp_state option \<Rightarrow> reduce_options option \<Rightarrow> reduced result" where
  "reduceV5 patches initialState options =
     (let st = (case initialState of None \<Rightarrow> createEmptyStateV5 | Some s \<Rightarrow> cloneStateV5 s)
      in case options of
           Some opts \<Rightarrow>
             if opt_receipts opts then
               bind_r (fold_r reduce_receipt_step (st, []) patches) (\<lambda>(s, rs). Inr (ReducedReceipts s rs))
             else if opt_trackDiff opts then
               bind_r (fold_r reduce_diff_step (st, createEmptyDiff) patches) (\<lambda>(s, d). Inr (ReducedDiff s d))
             else bind_r (fold_r apply_entry st patches) (\<lambda>s. Inr (ReducedState s))
         | None \<Rightarrow> bind_r (fold_r apply_entry st patches) (\<lambda>s. Inr (ReducedState s)))"

end
