(* ===== verification/ReductionLaws.thy ===== *)
theory ReductionLaws
  imports Reduction
begin

text \<open>
  Lemmas on the recording modes of \<open>src/domain/services/JoinReducer.js\<close>: they compute the state
  that \<open>applyFast\<close> computes, an outcome is \<open>applied\<close> exactly when the operation changes what a
  receipt talks about, and the diff of a patch accounts for every change of membership.
\<close>

section \<open>Recording does not change the state\<close>

lemma receipt_step_state:
  "receipt_step p sha acc iop = Inr acc' \<Longrightarrow> applyFast_op p sha (fst acc) iop = Inr (fst acc')"
  by (auto simp: receipt_step_def applyFast_op_def bind_r_Inr_iff Let_def split: if_splits)

lemma receipt_fold_state:
  "fold_r (receipt_step p sha) acc iops = Inr acc' \<Longrightarrow>
     fold_r (applyFast_op p sha) (fst acc) iops = Inr (fst acc')"
proof (induction iops arbitrary: acc)
  case Nil
  then show ?case by simp
next
  case (Cons iop iops)
  then show ?case by (auto simp: bind_r_Inr_iff dest!: receipt_step_state)
qed

lemma applyWithReceipt_state:
  "applyWithReceipt st p sha = Inr (st', r) \<Longrightarrow> applyFast st p sha = Inr st'"
  by (auto simp: applyWithReceipt_def applyFast_def bind_r_Inr_iff dest!: receipt_fold_state)

lemma validateOp_applyOpV2: "applyOpV2 st op e = Inr st' \<Longrightarrow> validateOp op = Inr ()"
  by (auto simp: applyOpV2_def bind_r_Inr_iff)

lemma diff_step_iff:
  "(\<exists>d'. diff_step p sha (st, d) iop = Inr (st', d')) \<longleftrightarrow> applyFast_op p sha st iop = Inr st'"
  by (auto simp: diff_step_def applyFast_op_def bind_r_Inr_iff Let_def dest: validateOp_applyOpV2)

lemma diff_fold_iff:
  "(\<exists>d'. fold_r (diff_step p sha) (st, d) iops = Inr (st', d')) \<longleftrightarrow>
     fold_r (applyFast_op p sha) st iops = Inr st'"
proof (induction iops arbitrary: st d)
  case Nil
  then show ?case by auto
next
  case (Cons iop iops)
  have "(\<exists>d'. fold_r (diff_step p sha) (st, d) (iop # iops) = Inr (st', d')) \<longleftrightarrow>
        (\<exists>s1 d1. diff_step p sha (st, d) iop = Inr (s1, d1) \<and>
          (\<exists>d'. fold_r (diff_step p sha) (s1, d1) iops = Inr (st', d')))"
    by (auto simp: bind_r_Inr_iff)
  also have "\<dots> \<longleftrightarrow> (\<exists>s1. applyFast_op p sha st iop = Inr s1 \<and> fold_r (applyFast_op p sha) s1 iops = Inr st')"
    using Cons.IH diff_step_iff by metis
  finally show ?case by (simp add: bind_r_Inr_iff)
qed

lemma applyWithDiff_iff:
  "(\<exists>d. applyWithDiff st p sha = Inr (st', d)) \<longleftrightarrow> applyFast st p sha = Inr st'"
proof -
  have "(\<exists>d. applyWithDiff st p sha = Inr (st', d)) \<longleftrightarrow>
        (\<exists>s1. (\<exists>d. fold_r (diff_step p sha) (st, createEmptyDiff) (List.enumerate 0 (patch_ops p)) = Inr (s1, d)) \<and>
          updateFrontierFromPatch s1 p = Inr st')"
    by (auto simp: applyWithDiff_def bind_r_Inr_iff)
  then show ?thesis
    by (simp add: diff_fold_iff applyFast_def bind_r_Inr_iff)
qed

lemma reduce_receipts_state:
  "fold_r reduce_receipt_step acc ps = Inr acc' \<Longrightarrow> fold_r apply_entry (fst acc) ps = Inr (fst acc')"
proof (induction ps arbitrary: acc)
  case Nil
  then show ?case by simp
next
  case (Cons x ps)
  then show ?case
    by (auto simp: bind_r_Inr_iff reduce_receipt_step_def apply_entry_def dest!: applyWithReceipt_state)
qed

lemma reduce_diff_iff:
  "(\<exists>d'. fold_r reduce_diff_step (st, d) ps = Inr (st', d')) \<longleftrightarrow> fold_r apply_entry st ps = Inr st'"
proof (induction ps arbitrary: st d)
  case Nil
  then show ?case by auto
next
  case (Cons x ps)
  have s: "(\<exists>d1. reduce_diff_step (st, d) x = Inr (s1, d1)) \<longleftrightarrow> apply_entry st x = Inr s1" for s1
    by (auto simp: reduce_diff_step_def apply_entry_def bind_r_Inr_iff applyWithDiff_iff [symmetric])
  have "(\<exists>d'. fold_r reduce_diff_step (st, d) (x # ps) = Inr (st', d')) \<longleftrightarrow>
        (\<exists>s1 d1. reduce_diff_step (st, d) x = Inr (s1, d1) \<and>
          (\<exists>d'. fold_r reduce_diff_step (s1, d1) ps = Inr (st', d')))"
    by (auto simp: bind_r_Inr_iff)
  also have "\<dots> \<longleftrightarrow> (\<exists>s1. apply_entry st x = Inr s1 \<and> fold_r apply_entry s1 ps = Inr st')"
    using Cons.IH s by metis
  finally show ?case by (simp add: bind_r_Inr_iff)
qed

text \<open>One receipt per patch, in order, naming it.\<close>

definition receipt_for :: "patch \<times> string \<Rightarrow> tick_receipt \<Rightarrow> bool" where
  "receipt_for x r \<longleftrightarrow> receipt_patchSha r = snd x \<and> receipt_writer r = patch_writer (fst x) \<and>
     receipt_lamport r = patch_lamport (fst x) \<and> list_all outcome_valid (receipt_ops r)"

lemma applyWithReceipt_for:
  assumes "applyWithReceipt st p sha = Inr (st', r)"
  shows "receipt_for (p, sha) r"
proof -
  obtain xs where c: "createTickReceipt (JStr sha) (JStr (patch_writer p)) (JNum (patch_lamport p)) (JArr xs) = Inr r"
    using assms unfolding applyWithReceipt_def by (auto elim!: bind_r_InrE)
  note v = createTickReceipt_valid(4) [OF c]
  from c have "r = \<lparr>receipt_patchSha = sha, receipt_writer = patch_writer p,
      receipt_lamport = patch_lamport p, receipt_ops = map frozen_entry xs\<rparr>"
    by (simp only: createTickReceipt_ok)
  with v show ?thesis by (simp add: receipt_for_def)
qed

lemma reduce_receipts_for:
  "fold_r reduce_receipt_step (st, rs) ps = Inr (st', rs') \<Longrightarrow>
     \<exists>new. rs' = rs @ new \<and> list_all2 receipt_for ps new"
proof (induction ps arbitrary: st rs)
  case Nil
  then show ?case by simp
next
  case (Cons x ps)
  then obtain acc where a: "reduce_receipt_step (st, rs) x = Inr acc"
    and f: "fold_r reduce_receipt_step acc ps = Inr (st', rs')"
    by (auto simp: bind_r_Inr_iff)
  from a obtain s1 r where r: "applyWithReceipt st (fst x) (snd x) = Inr (s1, r)"
    and acc: "acc = (s1, rs @ [r])"
    by (auto simp: reduce_receipt_step_def bind_r_Inr_iff)
  note rest = f [unfolded acc]
  from Cons.IH [OF rest] applyWithReceipt_for [OF r] show ?case
    by (cases x) (auto intro: exI [of _ "r # _"])
qed

definition reduced_state :: "reduced \<Rightarrow> warp_state" where
  "reduced_state r = (case r of ReducedState s \<Rightarrow> s | ReducedReceipts s _ \<Rightarrow> s | ReducedDiff s _ \<Rightarrow> s)"

lemma reduceV5_plain:
  "reduceV5 ps None None = bind_r (fold_r apply_entry createEmptyStateV5 ps) (\<lambda>s. Inr (ReducedState s))"
  "reduceV5 ps (Some st) None = bind_r (fold_r apply_entry st ps) (\<lambda>s. Inr (ReducedState s))"
  by (simp_all add: reduceV5_def)

section \<open>Dots and their elements\<close>

definition dots_unique :: "orset \<Rightarrow> bool" where
  "dots_unique s \<longleftrightarrow> (\<forall>e f d. d \<in> orset_dots s e \<longrightarrow> d \<in> orset_dots s f \<longrightarrow> e = f)"

lemma dot_to_element_sound:
  "map_of (dot_to_element_loop T m k ps) d = Some e \<Longrightarrow>
     map_of m d = Some e \<or> d \<in> set T \<and> (e, d) \<in> set ps"
proof (induction T m k ps rule: dot_to_element_loop.induct)
  case (2 T m k e' d' rest)
  then show ?case by (auto split: if_splits)
qed simp

text \<open>
  The counter reaches zero only when every target dot has been stored: \<open>k\<close> never drops below the
  number of targets still missing, because each dot occurs once.
\<close>

lemma dot_to_element_complete:
  assumes "distinct (map snd ps)" "distinct T" "\<forall>p\<in>set ps. map_of m (snd p) = None"
    and "card {d \<in> set T. map_of m d = None} \<le> k"
  shows "map_of (dot_to_element_loop T m k ps) d =
    (if d \<in> set T \<and> d \<in> snd ` set ps then map_of (map (\<lambda>(e, d). (d, e)) ps) d else map_of m d)"
  using assms
proof (induction T m k ps rule: dot_to_element_loop.induct)
  case (1 T m k)
  then show ?case by simp
next
  case (2 T m k e d' rest)
  show ?case
  proof (cases "k = 0")
    case True
    then have "{d \<in> set T. map_of m d = None} = {}"
      using 2(6) by simp
    moreover from True have "dot_to_element_loop T m k ((e, d') # rest) = m" by simp
    ultimately show ?thesis
      using 2(5) by fastforce
  next
    case k: False
    show ?thesis
    proof (cases "d' \<in> set T")
      case True
      let ?m = "map_set m d' e"
      have "{d \<in> set T. map_of ?m d = None} = {d \<in> set T. map_of m d = None} - {d'}"
        by auto
      moreover have "d' \<in> {d \<in> set T. map_of m d = None}"
        using True 2(5) by simp
      ultimately have c: "card {d \<in> set T. map_of ?m d = None} \<le> k - 1"
        using 2(6) by (simp add: card_Diff_singleton)
      have u: "\<forall>p\<in>set rest. map_of ?m (snd p) = None"
        using 2(3,5) by (auto simp: image_iff)
      from 2(1) [OF k True _ 2(4) u c] 2(3) k True show ?thesis
        by (auto simp: image_iff)
    next
      case False
      from 2(2) [OF k False _ 2(4) _ 2(6)] 2(3,5) k False show ?thesis
        by (auto simp: image_iff)
    qed
  qed
qed

lemma pairs_distinct:
  assumes "distinct (map fst es)" "\<And>e ds. (e, ds) \<in> set es \<Longrightarrow> distinct ds"
    and "\<And>e f ds ds' d. (e, ds) \<in> set es \<Longrightarrow> (f, ds') \<in> set es \<Longrightarrow> d \<in> set ds \<Longrightarrow> d \<in> set ds' \<Longrightarrow> e = f"
  shows "distinct (map snd (concat (map (\<lambda>(e, ds). map (Pair e) ds) es)))"
  using assms
proof (induction es)
  case Nil
  then show ?case by simp
next
  case (Cons p es)
  obtain e ds where p: "p = (e, ds)" by force
  have snds: "map snd (map (Pair e) ds) = ds"
    by (simp add: comp_def)
  have "d \<notin> set ds" if "(f, ds') \<in> set es" "d \<in> set ds'" for f ds' d
  proof
    assume "d \<in> set ds"
    then have "e = f"
      using Cons.prems(3) [of e ds f ds' d] that p by simp
    moreover have "f \<in> fst ` set es" using that by force
    ultimately show False using Cons.prems(1) p by simp
  qed
  then have "set ds \<inter> snd ` set (concat (map (\<lambda>(e, ds). map (Pair e) ds) es)) = {}"
    by fastforce
  moreover have "distinct (map snd (concat (map (\<lambda>(e, ds). map (Pair e) ds) es)))"
  proof (rule Cons.IH)
    show "distinct (map fst es)" using Cons.prems(1) by simp
    show "distinct ds'" if "(f, ds') \<in> set es" for f ds'
      using Cons.prems(2) [of f ds'] that by simp
    show "f = g" if "(f, ds1) \<in> set es" "(g, ds2) \<in> set es" "d \<in> set ds1" "d \<in> set ds2" for f g ds1 ds2 d
      using Cons.prems(3) [of f ds1 g ds2 d] that by simp
  qed
  moreover have "distinct ds"
    using Cons.prems(2) [of e ds] p by simp
  ultimately show ?case
    by (simp add: p snds del: map_map)
qed

lemma entry_pairs_distinct:
  assumes "orset_wf s" "dots_unique s"
  shows "distinct (map snd (entry_pairs s))"
  unfolding entry_pairs_def
proof (rule pairs_distinct)
  show wf: "map_wf (entries s)"
    using assms(1) by (simp add: orset_wf_def)
  show "distinct ds" if "(e, ds) \<in> set (entries s)" for e ds
    using assms(1) map_of_is_SomeI [OF wf that] unfolding orset_wf_def by blast
  show "e = f" if "(e, ds) \<in> set (entries s)" "(f, ds') \<in> set (entries s)" "d \<in> set ds" "d \<in> set ds'"
    for e f ds ds' d
  proof -
    have "d \<in> orset_dots s e" "d \<in> orset_dots s f"
      using map_of_is_SomeI [OF wf that(1)] map_of_is_SomeI [OF wf that(2)] that(3,4)
      by (simp_all add: orset_dots_def)
    then show ?thesis using assms(2) unfolding dots_unique_def by blast
  qed
qed

lemma buildDotToElement_eq:
  assumes "orset_wf s" "dots_unique s" "distinct T"
  shows "map_of (buildDotToElement s T) d = Some e \<longleftrightarrow> d \<in> set T \<and> d \<in> orset_dots s e"
proof -
  note dist = entry_pairs_distinct [OF assms(1,2)]
  have "card {d \<in> set T. map_of ([] :: (string \<times> string) list) d = None} \<le> length T"
    by (simp add: card_length)
  from dot_to_element_complete [OF dist assms(3) _ this, of d]
  have eq: "map_of (buildDotToElement s T) d =
      (if d \<in> set T \<and> d \<in> snd ` set (entry_pairs s)
       then map_of (map (\<lambda>(e, d). (d, e)) (entry_pairs s)) d else None)"
    by (simp add: buildDotToElement_def)
  have inv: "distinct (map fst (map (\<lambda>(e, d). (d, e)) (entry_pairs s)))"
    using dist by (simp add: comp_def case_prod_unfold)
  have "map_of (map (\<lambda>(e, d). (d, e)) (entry_pairs s)) d = Some e \<longleftrightarrow> (e, d) \<in> set (entry_pairs s)"
    unfolding map_of_eq_Some_iff [OF inv] by force
  then show ?thesis
    unfolding eq using entry_pairs_set [OF assms(1)] by force
qed

text \<open>Without uniqueness the map still finds exactly the targets that occur, up to the early exit.\<close>

lemma buildDotToElement_sound:
  "orset_wf s \<Longrightarrow> map_of (buildDotToElement s T) d = Some e \<Longrightarrow> d \<in> set T \<and> d \<in> orset_dots s e"
  using dot_to_element_sound [of T "[]" "length T" "entry_pairs s" d e] entry_pairs_set [of s]
  by (auto simp: buildDotToElement_def orset_wf_def)

lemma fold_alive:
  "distinct acc \<Longrightarrow>
   let r = foldl (\<lambda>result d. case f d of None \<Rightarrow> result
       | Some e \<Rightarrow> if e \<notin> set result \<and> P e then result @ [e] else result) acc ds
   in distinct r \<and> set r = set acc \<union> {e. P e \<and> (\<exists>d\<in>set ds. f d = Some e)}"
proof (induction ds arbitrary: acc)
  case Nil
  then show ?case by simp
next
  case (Cons d ds)
  show ?case
    using Cons.prems Cons.IH [of acc] Cons.IH [of "acc @ [the (f d)]"]
    by (cases "f d") (auto simp: Let_def)
qed

lemma aliveElementsForDots_eq:
  assumes "orset_wf s" "dots_unique s" "distinct T"
  shows "distinct (aliveElementsForDots s T)"
    and "set (aliveElementsForDots s T) = {e. orsetContains s e \<and> orset_dots s e \<inter> set T \<noteq> {}}"
  using fold_alive [of "[]" "orsetContains s" "map_of (buildDotToElement s T)" T]
    buildDotToElement_eq [OF assms]
  by (auto simp: aliveElementsForDots_def Let_def)

section \<open>Outcomes\<close>

text \<open>
  What a receipt talks about: the dots recorded for each node and edge, which of them are
  tombstones, and the property registers.
\<close>

definition receipt_view ::
  "warp_state \<Rightarrow> ((string \<Rightarrow> string set) \<times> (string \<Rightarrow> string set)) \<times>
     ((string \<Rightarrow> string set) \<times> (string \<Rightarrow> string set)) \<times> (string \<Rightarrow> lww_register option)" where
  "receipt_view st =
     ((orset_dots (nodeAlive st), \<lambda>n. orset_dots (nodeAlive st) n \<inter> orset_tombs (nodeAlive st)),
      (orset_dots (edgeAlive st), \<lambda>k. orset_dots (edgeAlive st) k \<inter> orset_tombs (edgeAlive st)),
      map_of (propMap st))"

lemma effective_remove_iff:
  assumes "orset_wf s" "dots_unique s"
  shows "effective_remove s op \<longleftrightarrow>
    (\<exists>e. \<exists>d\<in>orset_dots s e. d \<notin> orset_tombs s \<and> d \<in> set (js_strings (fld op ''observedDots'')))"
proof -
  let ?T = "set_of (js_strings (fld op ''observedDots''))"
  have "map_of (buildDotToElement s ?T) d \<noteq> None \<longleftrightarrow> d \<in> set ?T \<and> (\<exists>e. d \<in> orset_dots s e)" for d
    using buildDotToElement_eq [OF assms, of ?T d] by auto
  then show ?thesis
    by (auto simp: effective_remove_def Let_def list_ex_iff orset_tombs_def)
qed

definition prop_result :: "lww_register option \<Rightarrow> event_id \<Rightarrow> string" where
  "prop_result current e = (case current of None \<Rightarrow> ''applied''
     | Some r \<Rightarrow> if reg_eventId r < e then ''applied''
         else if e < reg_eventId r then ''superseded'' else ''redundant'')"

definition effect_result :: "warp_state \<Rightarrow> event_id \<Rightarrow> op_effect \<Rightarrow> string" where
  "effect_result st e eff =
     (let redundant_if = (\<lambda>b. if b then ''redundant'' else ''applied'')
      in case eff of
           AddNode n d \<Rightarrow> redundant_if (d \<in> orset_dots (nodeAlive st) n)
         | TombNodes ds \<Rightarrow> redundant_if (\<forall>n. orset_dots (nodeAlive st) n \<inter> set ds \<subseteq> orset_tombs (nodeAlive st))
         | AddEdge k d \<Rightarrow> redundant_if (d \<in> orset_dots (edgeAlive st) k)
         | TombEdges ds \<Rightarrow> redundant_if (\<forall>k. orset_dots (edgeAlive st) k \<inter> set ds \<subseteq> orset_tombs (edgeAlive st))
         | WriteProp k v \<Rightarrow> prop_result (map_of (propMap st) k) e
         | NoEffect \<Rightarrow> ''applied'')"

lemma effect_result_other:
  "effect_result st e (AddNode n d) = (if d \<in> orset_dots (nodeAlive st) n then ''redundant'' else ''applied'')"
  "effect_result st e (AddEdge k d) = (if d \<in> orset_dots (edgeAlive st) k then ''redundant'' else ''applied'')"
  "effect_result st e (WriteProp k v) = prop_result (map_of (propMap st) k) e"
  "effect_result st e NoEffect = ''applied''"
  by (simp_all add: effect_result_def)

lemma has_dot_iff: "has_dot s e d \<longleftrightarrow> d \<in> orset_dots s e"
  by (simp add: has_dot_def orset_dots_def split: option.split)

lemma propOutcomeForKey_result:
  "oc_result (propOutcomeForKey props key e) = prop_result (map_of props key) e"
  by (simp add: propOutcomeForKey_def outcome_of_def prop_result_def Let_def split: option.split)

definition membership_unique :: "warp_state \<Rightarrow> bool" where
  "membership_unique st \<longleftrightarrow> dots_unique (nodeAlive st) \<and> dots_unique (edgeAlive st)"

lemma outcome_result:
  assumes "effect_of op = Inr eff" "state_wf st" "membership_unique st"
  shows "oc_result (op_outcome_of st op e) = effect_result st e eff"
proof -
  have rm: "oc_result (nodeRemoveOutcome (nodeAlive st) op) = effect_result st e (TombNodes (js_strings (fld op ''observedDots'')))"
    "oc_result (edgeRemoveOutcome (edgeAlive st) op) = effect_result st e (TombEdges (js_strings (fld op ''observedDots'')))"
    using assms(2,3)
    by (auto simp: nodeRemoveOutcome_def edgeRemoveOutcome_def outcome_of_def effect_result_def
        effective_remove_iff state_wf_def membership_unique_def)
  show ?thesis
    using assms(1)
    by (auto simp: effect_of_def bind_r_Inr_iff Let_def op_outcome_of_def dotted_def rm
        nodeAddOutcome_def edgeAddOutcome_def outcome_of_def effect_result_other op_dot_string_def
        has_dot_iff propSetOutcome_def edgePropSetOutcome_def propOutcomeForKey_result
        split: if_splits option.splits)
qed

lemma dots_upd_eq: "(\<lambda>f. if f = e then insert d (orset_dots s e) else orset_dots s f) = orset_dots s \<longleftrightarrow> d \<in> orset_dots s e"
  by (auto simp: fun_eq_iff)

lemma lww_pick_keeps: "lww_pick r (lwwSet e v) = r \<longleftrightarrow> \<not> reg_eventId r < e"
  by (auto simp: lww_pick_def not_less dest: arg_cong [where f = reg_eventId])

lemma effect_result_exact:
  assumes "eff \<noteq> NoEffect"
  shows "effect_result st e eff = ''applied'' \<longleftrightarrow> receipt_view (run_effect e st eff) \<noteq> receipt_view st"
proof (cases eff)
  case (AddNode n d)
  then show ?thesis
    using dots_upd_eq [of n d "nodeAlive st"]
    by (auto simp: effect_result_def receipt_view_def fun_eq_iff)
next
  case (AddEdge k d)
  then show ?thesis
    using dots_upd_eq [of k d "edgeAlive st"]
    by (auto simp: effect_result_def receipt_view_def fun_eq_iff)
next
  case (TombNodes ds)
  have "(\<forall>n. orset_dots (nodeAlive st) n \<inter> set ds \<subseteq> orset_tombs (nodeAlive st)) \<longleftrightarrow>
    (\<forall>n. orset_dots (nodeAlive st) n \<inter> (orset_tombs (nodeAlive st) \<union> set ds) =
         orset_dots (nodeAlive st) n \<inter> orset_tombs (nodeAlive st))"
    by blast
  then show ?thesis
    by (simp add: TombNodes effect_result_def receipt_view_def fun_eq_iff)
next
  case (TombEdges ds)
  have "(\<forall>n. orset_dots (edgeAlive st) n \<inter> set ds \<subseteq> orset_tombs (edgeAlive st)) \<longleftrightarrow>
    (\<forall>n. orset_dots (edgeAlive st) n \<inter> (orset_tombs (edgeAlive st) \<union> set ds) =
         orset_dots (edgeAlive st) n \<inter> orset_tombs (edgeAlive st))"
    by blast
  then show ?thesis
    by (simp add: TombEdges effect_result_def receipt_view_def fun_eq_iff)
next
  case (WriteProp k v)
  show ?thesis
  proof (cases "map_of (propMap st) k")
    case None
    then show ?thesis
      by (auto simp: WriteProp effect_result_def receipt_view_def setProp_eq prop_result_def
          dest: fun_cong [where x = k])
  next
    case (Some r)
    have "(map_of (propMap st))(k \<mapsto> lww_pick r (lwwSet e v)) = map_of (propMap st) \<longleftrightarrow>
        lww_pick r (lwwSet e v) = r"
      using Some by (metis fun_upd_same fun_upd_triv option.inject)
    then show ?thesis
      using Some
      by (simp add: WriteProp effect_result_def receipt_view_def setProp_eq prop_result_def lww_pick_keeps)
  qed
qed (use assms in simp)

section \<open>Diffs\<close>

lemma recordPropChange_members [simp]:
  "nodesAdded (recordPropChange d st prev k n p) = nodesAdded d"
  "nodesRemoved (recordPropChange d st prev k n p) = nodesRemoved d"
  "edgesAdded (recordPropChange d st prev k n p) = edgesAdded d"
  "edgesRemoved (recordPropChange d st prev k n p) = edgesRemoved d"
  by (simp_all add: recordPropChange_def Let_def)

definition gained :: "warp_state \<Rightarrow> warp_state \<Rightarrow> op_effect \<Rightarrow> string list" where
  "gained st st' eff = (case eff of
     AddNode n d \<Rightarrow> if \<not> orsetContains (nodeAlive st) n \<and> orsetContains (nodeAlive st') n then [n] else []
   | _ \<Rightarrow> [])"

definition lost :: "warp_state \<Rightarrow> warp_state \<Rightarrow> op_effect \<Rightarrow> string list" where
  "lost st st' eff = (case eff of
     TombNodes ds \<Rightarrow> filter (\<lambda>n. \<not> orsetContains (nodeAlive st') n) (aliveElementsForDots (nodeAlive st) (set_of ds))
   | _ \<Rightarrow> [])"

lemma accumulateOpDiff_nodes:
  assumes "effect_of op = Inr eff"
  shows "nodesAdded (accumulateOpDiff d st' op (snapshotBeforeOp st op)) = nodesAdded d @ gained st st' eff"
    and "nodesRemoved (accumulateOpDiff d st' op (snapshotBeforeOp st op)) = nodesRemoved d @ lost st st' eff"
  using assms
  by (auto simp: effect_of_def bind_r_Inr_iff Let_def dotted_def snapshotBeforeOp_def accumulateOpDiff_def
      collectNodeRemovals_def collectEdgeRemovals_def gained_def lost_def split: if_splits option.splits)

lemma diff_step_effect:
  assumes "diff_step p sha (st, d) iop = Inr (st', d')"
  obtains e eff where "op_entry p sha iop = Inr (e, eff)" "st' = run_effect e st eff"
    "nodesAdded d' = nodesAdded d @ gained st st' eff" "nodesRemoved d' = nodesRemoved d @ lost st st' eff"
proof -
  from assms obtain op e where o: "normalizeRawOp (snd iop) = Inr op" "op_event p sha (fst iop) = Inr e"
      "applyOpV2 st op e = Inr st'" "d' = accumulateOpDiff d st' op (snapshotBeforeOp st op)"
    by (auto simp: diff_step_def bind_r_Inr_iff Let_def)
  from o(3) obtain eff where eff: "effect_of op = Inr eff" "st' = run_effect e st eff"
    by (auto simp: applyOpV2_effect bind_r_Inr_iff)
  show ?thesis
    using that [of e eff] o eff accumulateOpDiff_nodes [OF eff(1), of d st' st]
    by (simp add: op_entry_def raw_effect_def)
qed

text \<open>A diff accounts for a change of membership when it balances it, element by element.\<close>

definition balanced :: "orset \<Rightarrow> orset \<Rightarrow> string list \<Rightarrow> string list \<Rightarrow> bool" where
  "balanced s s' add rem \<longleftrightarrow> (\<forall>n. (of_bool (orsetContains s' n) :: int) =
     of_bool (orsetContains s n) + int (count_list add n) - int (count_list rem n))"

lemma balanced_refl [simp]: "balanced s s [] []"
  by (simp add: balanced_def)

lemma balanced_trans:
  "balanced s s1 a b \<Longrightarrow> balanced s1 s2 c d \<Longrightarrow> balanced s s2 (a @ c) (b @ d)"
  by (simp add: balanced_def)

lemma count_list_distinct: "distinct xs \<Longrightarrow> count_list xs x = of_bool (x \<in> set xs)"
  by (induction xs) auto

lemma dots_unique_mono:
  "dots_unique s' \<Longrightarrow> (\<And>e. orset_dots s e \<subseteq> orset_dots s' e) \<Longrightarrow> dots_unique s"
  unfolding dots_unique_def by blast

lemma run_effect_balanced:
  assumes "state_wf st" "dots_unique (nodeAlive st)"
  shows "balanced (nodeAlive st) (nodeAlive (run_effect e st eff))
    (gained st (run_effect e st eff) eff) (lost st (run_effect e st eff) eff)"
proof (cases eff)
  case (AddNode n d)
  let ?s = "orset_insert (nodeAlive st) n d"
  have up: "orsetContains (nodeAlive st) n \<Longrightarrow> orsetContains ?s n"
    by (auto simp: orsetContains_iff)
  have other: "orsetContains ?s m = orsetContains (nodeAlive st) m" if "m \<noteq> n" for m
    using that by (simp add: orsetContains_iff)
  have "(of_bool (orsetContains ?s m) :: int) = of_bool (orsetContains (nodeAlive st) m) +
      int (count_list (if \<not> orsetContains (nodeAlive st) n \<and> orsetContains ?s n then [n] else []) m)" for m
    using up other [of m] by (cases "m = n") auto
  then show ?thesis
    by (simp add: AddNode balanced_def gained_def lost_def)
next
  case (TombNodes ds)
  have wf: "orset_wf (nodeAlive st)" using assms(1) by (simp add: state_wf_def)
  note al = aliveElementsForDots_eq [OF wf assms(2), of "set_of ds"]
  let ?s = "orsetRemove (nodeAlive st) ds"
  have sub: "orsetContains ?s n \<Longrightarrow> orsetContains (nodeAlive st) n" for n
    by (auto simp: orsetContains_iff)
  have hit: "orset_dots (nodeAlive st) n \<inter> set ds \<noteq> {}" if "orsetContains (nodeAlive st) n" "\<not> orsetContains ?s n" for n
    using that by (auto simp: orsetContains_iff)
  have "int (count_list (filter (\<lambda>n. \<not> orsetContains ?s n) (aliveElementsForDots (nodeAlive st) (set_of ds))) n) =
      of_bool (orsetContains (nodeAlive st) n \<and> \<not> orsetContains ?s n)" for n
    using al hit [of n] by (subst count_list_distinct) auto
  then show ?thesis
    using sub by (auto simp: TombNodes balanced_def gained_def lost_def)
qed (simp_all add: balanced_def gained_def lost_def setProp_eq)

lemma run_effect_dots_mono: "orset_dots (nodeAlive st) n \<subseteq> orset_dots (nodeAlive (run_effect e st eff)) n"
  by (auto simp: run_effect_nodes)

lemma diff_fold_balanced:
  assumes "fold_r (diff_step p sha) (st, d) iops = Inr (st', d')" "state_wf st" "dots_unique (nodeAlive st')"
  shows "\<exists>add rem. nodesAdded d' = nodesAdded d @ add \<and> nodesRemoved d' = nodesRemoved d @ rem \<and>
    balanced (nodeAlive st) (nodeAlive st') add rem \<and> state_wf st' \<and>
    (\<forall>n. orset_dots (nodeAlive st) n \<subseteq> orset_dots (nodeAlive st') n)"
  using assms
proof (induction iops arbitrary: st d)
  case Nil
  then show ?case by simp
next
  case (Cons iop iops)
  then obtain s1 d1 where s: "diff_step p sha (st, d) iop = Inr (s1, d1)"
    and f: "fold_r (diff_step p sha) (s1, d1) iops = Inr (st', d')"
    by (auto simp: bind_r_Inr_iff)
  from s obtain e eff where e: "s1 = run_effect e st eff"
      "nodesAdded d1 = nodesAdded d @ gained st s1 eff" "nodesRemoved d1 = nodesRemoved d @ lost st s1 eff"
    by (rule diff_step_effect) blast
  have "state_wf s1" using e(1) Cons.prems(2) by (simp add: run_effect_wf)
  from Cons.IH [OF f this Cons.prems(3)] obtain add rem where i:
      "nodesAdded d' = nodesAdded d1 @ add" "nodesRemoved d' = nodesRemoved d1 @ rem"
      "balanced (nodeAlive s1) (nodeAlive st') add rem" "state_wf st'"
      "\<forall>n. orset_dots (nodeAlive s1) n \<subseteq> orset_dots (nodeAlive st') n"
    by blast
  have mono: "orset_dots (nodeAlive st) n \<subseteq> orset_dots (nodeAlive st') n" for n
    using i(5) run_effect_dots_mono [of st n e eff] e(1) by blast
  have "dots_unique (nodeAlive st)"
    using Cons.prems(3) mono by (rule dots_unique_mono)
  from run_effect_balanced [OF Cons.prems(2) this, of e eff]
  have "balanced (nodeAlive st) (nodeAlive s1) (gained st s1 eff) (lost st s1 eff)"
    by (simp add: e(1))
  from balanced_trans [OF this i(3)] i e mono show ?case
    by (intro exI [of _ "gained st s1 eff @ add"] exI [of _ "lost st s1 eff @ rem"]) simp
qed

lemma applyWithDiff_balanced:
  assumes "applyWithDiff st p sha = Inr (st', d)" "state_wf st" "dots_unique (nodeAlive st')"
  shows "balanced (nodeAlive st) (nodeAlive st') (nodesAdded d) (nodesRemoved d)"
proof -
  obtain s1 where f: "fold_r (diff_step p sha) (st, createEmptyDiff) (List.enumerate 0 (patch_ops p)) = Inr (s1, d)"
    and u: "nodeAlive st' = nodeAlive s1"
    using assms(1) by (auto simp: applyWithDiff_def bind_r_Inr_iff updateFrontierFromPatch_def)
  from diff_fold_balanced [OF f assms(2)] assms(3) u show ?thesis
    by (auto simp: createEmptyDiff_def)
qed

section \<open>Merging net diffs\<close>

text \<open>\<open>net A B add rem\<close>: the two lists are the difference of two sets, without repetition.\<close>

definition net :: "'a set \<Rightarrow> 'a set \<Rightarrow> 'a list \<Rightarrow> 'a list \<Rightarrow> bool" where
  "net A B add rem \<longleftrightarrow> distinct add \<and> distinct rem \<and> set add = B - A \<and> set rem = A - B"

lemma mergeDiffs_net:
  assumes "net A B (nodesAdded x) (nodesRemoved x)" "net B C (nodesAdded y) (nodesRemoved y)"
  shows "net A C (nodesAdded (mergeDiffs x y)) (nodesRemoved (mergeDiffs x y))"
  using assms by (auto simp: net_def mergeDiffs_def Let_def)

end
