(* ===== verification/BuilderLaws.thy ===== *)
theory BuilderLaws
  imports PatchBuilder ReductionLaws
begin

text \<open>
  What holds of every patch that \<open>src/domain/services/PatchBuilderV2.js\<close> builds, after any sequence
  of calls, the failing ones included: its dots are fresh, its operations are well formed, its
  schema says whether it carries edge properties, and its removals observe one snapshot.
\<close>

section \<open>Triples\<close>

text \<open>From a builder in \<open>P\<close>, a normal return satisfies \<open>Q\<close> and a throw leaves \<open>E\<close>.\<close>

definition triple :: "('s \<Rightarrow> bool) \<Rightarrow> ('s, 'a) op \<Rightarrow> ('a \<Rightarrow> 's \<Rightarrow> bool) \<Rightarrow> ('s \<Rightarrow> bool) \<Rightarrow> bool" where
  "triple P m Q E \<longleftrightarrow> (\<forall>b. P b \<longrightarrow> (case m b of (b', Inl e) \<Rightarrow> E b' | (b', Inr x) \<Rightarrow> Q x b'))"

named_theorems triple_rules \<open>one rule for each builder primitive\<close>

lemma tripleI:
  assumes "\<And>b b' x. P b \<Longrightarrow> m b = (b', Inr x) \<Longrightarrow> Q x b'" "\<And>b b' e. P b \<Longrightarrow> m b = (b', Inl e) \<Longrightarrow> E b'"
  shows "triple P m Q E"
  unfolding triple_def using assms by (auto split: prod.split sum.split)

lemma tripleD:
  assumes "triple P m Q E" "P b"
  shows "m b = (b', Inr x) \<Longrightarrow> Q x b'" "m b = (b', Inl e) \<Longrightarrow> E b'"
  using assms unfolding triple_def by (auto dest!: spec [of _ b])

lemma bind_b_cases:
  "bind_b m f b = (b2, r) \<longleftrightarrow>
     (\<exists>e. m b = (b2, Inl e) \<and> r = Inl e) \<or> (\<exists>b1 x. m b = (b1, Inr x) \<and> f x b1 = (b2, r))"
  by (cases "m b"; cases "snd (m b)") (auto simp: bind_b_def)

lemma triple_bind [triple_rules]:
  assumes "triple P m R E" "\<And>x. triple (R x) (f x) Q E"
  shows "triple P (bind_b m f) Q E"
  by (rule tripleI) (auto simp: bind_b_cases dest: tripleD [OF assms(1)] tripleD [OF assms(2)])

lemma triple_ret: "(\<And>b. P b \<Longrightarrow> Q x b) \<Longrightarrow> triple P (ret_b x) Q E"
  by (simp add: triple_def ret_b_def)

lemma triple_lift: "(\<And>b x. P b \<Longrightarrow> r = Inr x \<Longrightarrow> Q x b) \<Longrightarrow> (\<And>b. P b \<Longrightarrow> E b) \<Longrightarrow> triple P (lift_b r) Q E"
  by (auto simp: triple_def lift_b_def split: sum.split)

lemma triple_modify: "(\<And>b. P b \<Longrightarrow> Q () (f b)) \<Longrightarrow> triple P (modify_b f) Q E"
  by (simp add: triple_def modify_b_def)

lemma triple_gets: "(\<And>b. P b \<Longrightarrow> Q (f b) b) \<Longrightarrow> triple P (gets_b f) Q E"
  by (simp add: triple_def gets_b_def)

lemma triple_weaken: "triple P m Q E \<Longrightarrow> (\<And>b. P' b \<Longrightarrow> P b) \<Longrightarrow> triple P' m Q E"
  by (simp add: triple_def)

lemma triple_post: "triple P m Q E \<Longrightarrow> (\<And>x b. Q x b \<Longrightarrow> Q' x b) \<Longrightarrow> triple P m Q' E"
  by (rule tripleI) (auto dest: tripleD)

lemma triple_conjI: "triple P m Q E \<Longrightarrow> triple P m Q' E \<Longrightarrow> triple P m (\<lambda>x b. Q x b \<and> Q' x b) E"
  by (rule tripleI) (auto dest: tripleD)

text \<open>An invariant that holds whether the step returns or throws.\<close>

abbreviation keeps :: "('s \<Rightarrow> bool) \<Rightarrow> ('s, 'a) op \<Rightarrow> bool" where
  "keeps I m \<equiv> triple I m (\<lambda>_. I) I"

lemma keeps_result: "keeps I m \<Longrightarrow> I b \<Longrightarrow> I (fst (m b))"
  by (cases "m b"; cases "snd (m b)") (auto simp: triple_def dest!: spec [of _ b])

lemma keeps_lift: "keeps I (lift_b r)"
  by (rule triple_lift)

lemma keeps_each: "(\<And>x. x \<in> set xs \<Longrightarrow> keeps I (f x)) \<Longrightarrow> keeps I (each_b f xs)"
  by (induction xs) (auto intro!: triple_ret triple_bind)

section \<open>The calls of the builder\<close>

datatype builder_call =
    AddNode_call jsval
  | RemoveNode_call "warp_state option" string
  | AddEdge_call jsval jsval jsval
  | RemoveEdge_call "warp_state option" string string string
  | SetProperty_call jsval jsval jsval
  | SetEdgeProperty_call "warp_state option" jsval jsval jsval jsval jsval

fun run_call :: "builder_call \<Rightarrow> (builder, unit) op" where
  "run_call (AddNode_call n) = addNode n"
| "run_call (RemoveNode_call cur n) = removeNode cur n"
| "run_call (AddEdge_call f t l) = addEdge f t l"
| "run_call (RemoveEdge_call cur f t l) = removeEdge cur f t l"
| "run_call (SetProperty_call n k v) = setProperty n k v"
| "run_call (SetEdgeProperty_call cur f t l k v) = setEdgeProperty cur f t l k v"

text \<open>A caller that goes on after an error.\<close>

definition run_calls :: "builder_call list \<Rightarrow> builder \<Rightarrow> builder" where
  "run_calls cs b = foldl (\<lambda>b c. fst (run_call c b)) b cs"

lemma run_calls_keeps: "(\<And>c. keeps I (run_call c)) \<Longrightarrow> I b \<Longrightarrow> I (run_calls cs b)"
  unfolding run_calls_def by (induction cs arbitrary: b) (auto intro: keeps_result)

section \<open>Well-formed operations\<close>

definition clean_id :: "string \<Rightarrow> bool" where
  "clean_id s \<longleftrightarrow> no_sep s \<and> no_prefix s"

inductive op_clean :: "jsval \<Rightarrow> bool" where
  node_add: "clean_id n \<Longrightarrow> dot_valid d \<Longrightarrow> op_clean (createNodeAddV2 n d)"
| node_remove: "op_clean (createNodeRemoveV2 n ds)"
| edge_add: "clean_id f \<Longrightarrow> clean_id t \<Longrightarrow> clean_id l \<Longrightarrow> dot_valid d \<Longrightarrow> op_clean (createEdgeAddV2 f t l d)"
| edge_remove: "op_clean (createEdgeRemoveV2 u v w ds)"
| node_prop: "clean_id n \<Longrightarrow> clean_id k \<Longrightarrow> op_clean (createNodePropSetV2 (JStr n) (JStr k) v)"
| edge_prop: "clean_id f \<Longrightarrow> clean_id t \<Longrightarrow> clean_id l \<Longrightarrow> clean_id k \<Longrightarrow>
     op_clean (createEdgePropSetV2 f t l (JStr k) v)"

definition is_edge_prop :: "jsval \<Rightarrow> bool" where
  "is_edge_prop p \<longleftrightarrow> fld p ''type'' = JStr ''EdgePropSet''"

definition ops_inv :: "builder \<Rightarrow> bool" where
  "ops_inv b \<longleftrightarrow> list_all op_clean (b_ops b) \<and> (b_hasEdgeProps b \<longleftrightarrow> list_ex is_edge_prop (b_ops b))"

lemma assertNoReservedBytes_ok:
  "assertNoReservedBytes v label = Inr u \<longleftrightarrow> (\<exists>s. v = JStr s \<and> clean_id s)"
  by (cases v)
    (auto simp: assertNoReservedBytes_def clean_id_def includes_char no_prefix_def neq_Nil_conv split: list.splits)

lemma keeps_snapshot: "(\<And>b s. I b \<Longrightarrow> I (b\<lparr>b_snapshot := s\<rparr>)) \<Longrightarrow> keeps I (getSnapshotState cur)"
  by (auto simp: triple_def getSnapshotState_def split: option.split)

lemma keeps_assertNotCommitted: "keeps I assertNotCommitted"
  by (simp add: triple_def assertNotCommitted_def)

text \<open>An invariant of the operations ignores the other fields.\<close>

lemma ops_inv_frame [simp]:
  "ops_inv (b\<lparr>b_snapshot := s\<rparr>) = ops_inv b" "ops_inv (b\<lparr>b_vv := v\<rparr>) = ops_inv b"
  "ops_inv (b\<lparr>b_nodesAdded := ns\<rparr>) = ops_inv b" "ops_inv (b\<lparr>b_edgesAdded := es\<rparr>) = ops_inv b"
  "ops_inv (b\<lparr>b_observed := os\<rparr>) = ops_inv b" "ops_inv (b\<lparr>b_writes := ws\<rparr>) = ops_inv b"
  "ops_inv (b\<lparr>b_warnings := ls\<rparr>) = ops_inv b" "ops_inv (b\<lparr>b_contentBlobs := cs\<rparr>) = ops_inv b"
  by (simp_all add: ops_inv_def)

lemma ops_inv_push:
  "op_clean p \<Longrightarrow> \<not> is_edge_prop p \<Longrightarrow> keeps ops_inv (push_op p)"
  unfolding push_op_def by (rule triple_modify) (simp add: ops_inv_def)

lemma ops_inv_push_edge_prop:
  "op_clean p \<Longrightarrow> is_edge_prop p \<Longrightarrow>
     triple ops_inv (push_op p) (\<lambda>_ b. list_all op_clean (b_ops b) \<and> list_ex is_edge_prop (b_ops b)) ops_inv"
  unfolding push_op_def by (rule triple_modify) (simp add: ops_inv_def)

lemma is_edge_prop_simps [simp]:
  "\<not> is_edge_prop (createNodeAddV2 n d)" "\<not> is_edge_prop (createNodeRemoveV2 n ds)"
  "\<not> is_edge_prop (createEdgeAddV2 f t l d)" "\<not> is_edge_prop (createEdgeRemoveV2 x y z ds)"
  "\<not> is_edge_prop (createNodePropSetV2 i j v)" "is_edge_prop (createEdgePropSetV2 f t l i v)"
  by (simp_all add: is_edge_prop_def op_creators)

lemma next_dot_clean: "triple ops_inv next_dot (\<lambda>d b. dot_valid d \<and> ops_inv b) ops_inv"
  by (auto simp: triple_def next_dot_def vvIncrement_def Let_def createDot_ok_iff split: sum.split)

lemma lift_assert: "triple I (lift_b (assertNoReservedBytes v label)) (\<lambda>_ b. (\<exists>s. v = JStr s \<and> clean_id s) \<and> I b) I"
  by (rule triple_lift) (auto simp: assertNoReservedBytes_ok)

lemma triple_pure: "(A \<Longrightarrow> triple P m Q E) \<Longrightarrow> triple (\<lambda>b. A \<and> P b) m Q E"
  by (auto simp: triple_def)

text \<open>The guards that open every call.\<close>

lemma triple_open: "triple I m Q I \<Longrightarrow> triple I (bind_b assertNotCommitted (\<lambda>_. m)) Q I"
  by (rule triple_bind [OF keeps_assertNotCommitted])

lemma triple_assert:
  assumes "\<And>s. v = JStr s \<Longrightarrow> clean_id s \<Longrightarrow> triple I m Q I"
  shows "triple I (bind_b (lift_b (assertNoReservedBytes v label)) (\<lambda>_. m)) Q I"
  by (rule triple_bind [OF lift_assert], rule triple_pure) (use assms in blast)

lemma triple_push: "triple P (push_op p) Q E \<longleftrightarrow> (\<forall>b. P b \<longrightarrow> Q () (b\<lparr>b_ops := b_ops b @ [p]\<rparr>))"
  by (simp add: triple_def push_op_def modify_b_def)

lemma keeps_marks:
  assumes "\<And>b os. I b \<Longrightarrow> I (b\<lparr>b_observed := os\<rparr>)" "\<And>b ws. I b \<Longrightarrow> I (b\<lparr>b_writes := ws\<rparr>)"
  shows "keeps I (observe_b x)" "keeps I (write_b x)"
  unfolding observe_b_def write_b_def using assms by (auto intro: triple_modify)

lemma keeps_added:
  assumes "\<And>b ns. I b \<Longrightarrow> I (b\<lparr>b_nodesAdded := ns\<rparr>)" "\<And>b es. I b \<Longrightarrow> I (b\<lparr>b_edgesAdded := es\<rparr>)"
  shows "keeps I (modify_b (\<lambda>b. b\<lparr>b_nodesAdded := f b\<rparr>))" "keeps I (modify_b (\<lambda>b. b\<lparr>b_edgesAdded := f b\<rparr>))"
  using assms by (auto intro: triple_modify)

lemmas ops_marks = keeps_marks [where I = ops_inv, simplified] keeps_added [where I = ops_inv, simplified]
  keeps_snapshot [where I = ops_inv, simplified]

lemma addNode_ops: "keeps ops_inv (addNode nodeId)"
  unfolding addNode_def
proof (intro triple_open triple_assert)
  fix s assume s: "nodeId = JStr s" "clean_id s"
  show "keeps ops_inv (bind_b next_dot (\<lambda>dot. bind_b (push_op (createNodeAddV2 (js_str nodeId) dot)) (\<lambda>_.
      bind_b (modify_b (\<lambda>b. b\<lparr>b_nodesAdded := set_add (b_nodesAdded b) (js_str nodeId)\<rparr>)) (\<lambda>_. write_b (js_str nodeId)))))"
    by (rule triple_bind [OF next_dot_clean], rule triple_pure,
        rule triple_bind [OF ops_inv_push], use s in \<open>auto intro: op_clean.intros\<close>)
      (intro triple_bind [OF ops_marks(3)] ops_marks)
qed

lemma addEdge_ops: "keeps ops_inv (addEdge from_id to_id label)"
  unfolding addEdge_def Let_def
proof (intro triple_open triple_assert)
  fix f t l assume s: "from_id = JStr f" "clean_id f" "to_id = JStr t" "clean_id t" "label = JStr l" "clean_id l"
  let ?k = "encodeEdgeKey (js_str from_id) (js_str to_id) (js_str label)"
  show "keeps ops_inv (bind_b next_dot (\<lambda>dot.
      bind_b (push_op (createEdgeAddV2 (js_str from_id) (js_str to_id) (js_str label) dot)) (\<lambda>_.
        bind_b (modify_b (\<lambda>b. b\<lparr>b_edgesAdded := set_add (b_edgesAdded b) ?k\<rparr>)) (\<lambda>_.
          bind_b (observe_b (js_str from_id)) (\<lambda>_. bind_b (observe_b (js_str to_id)) (\<lambda>_. write_b ?k))))))"
    by (rule triple_bind [OF next_dot_clean], rule triple_pure,
        rule triple_bind [OF ops_inv_push], use s in \<open>auto intro: op_clean.intros\<close>)
      (intro triple_bind [OF ops_marks(4)] triple_bind [OF ops_marks(1)] ops_marks)
qed

lemma cascade_edge_ops: "keeps ops_inv (cascade_edge st k)"
  unfolding cascade_edge_def Let_def
  by (rule triple_bind [OF ops_inv_push]) (auto intro: op_clean.intros ops_marks)

lemma deleteGuard_ops: "keeps ops_inv (deleteGuard st nodeId)"
  unfolding deleteGuard_def
proof (rule triple_bind [where R = "\<lambda>_. ops_inv"])
  show "keeps ops_inv (gets_b b_onDelete)" by (rule triple_gets)
  fix policy
  show "keeps ops_inv (case st of None \<Rightarrow> ret_b ()
       | Some s \<Rightarrow> let data = findAttachedData s nodeId; nE = length (at_edges data); nP = length (at_props data)
           in case policy of
                RejectDelete \<Rightarrow> if at_hasData data then lift_b (Inl (BuilderErr (NodeHasData nodeId nE nP))) else ret_b ()
              | CascadeDelete \<Rightarrow> each_b (cascade_edge s) (at_edges data)
              | WarnDelete \<Rightarrow> if at_hasData data
                  then modify_b (\<lambda>b. b\<lparr>b_warnings := b_warnings b @ [(nodeId, nE, nP)]\<rparr>) else ret_b ())"
    by (auto simp: Let_def split: option.split delete_policy.split
        intro!: triple_ret triple_modify keeps_lift keeps_each cascade_edge_ops)
qed

lemma removeNode_ops: "keeps ops_inv (removeNode cur nodeId)"
  unfolding removeNode_def Let_def
  by (intro triple_open triple_bind [OF ops_marks(5)] triple_bind [OF deleteGuard_ops]
      triple_bind [OF ops_inv_push] ops_marks) (auto intro: op_clean.intros)

lemma removeEdge_ops: "keeps ops_inv (removeEdge cur f t l)"
  unfolding removeEdge_def Let_def
  by (intro triple_open triple_bind [OF ops_marks(5)] triple_bind [OF ops_inv_push] ops_marks)
    (auto intro: op_clean.intros)

lemma setProperty_ops: "keeps ops_inv (setProperty nodeId key v)"
  unfolding setProperty_def
  by (intro triple_open triple_assert triple_bind [OF ops_inv_push] triple_bind [OF ops_marks(1)] ops_marks)
    (auto intro: op_clean.intros)

lemma assertEdgeExists_ops: "keeps ops_inv (assertEdgeExists cur f t l)"
  unfolding assertEdgeExists_def Let_def
  by (intro triple_bind [OF triple_gets [where Q = "\<lambda>_. ops_inv"]])
    (auto intro!: triple_ret triple_bind [OF ops_marks(5)] keeps_lift split: option.split)

lemma setEdgeProperty_ops: "keeps ops_inv (setEdgeProperty cur from_id to_id label key v)"
  unfolding setEdgeProperty_def
proof (intro triple_open triple_assert triple_bind [OF assertEdgeExists_ops])
  fix f t l k ek
  assume s: "from_id = JStr f" "clean_id f" "to_id = JStr t" "clean_id t" "label = JStr l" "clean_id l"
    "key = JStr k" "clean_id k"
  have "triple ops_inv (push_op (createEdgePropSetV2 (js_str from_id) (js_str to_id) (js_str label) key v))
      (\<lambda>_ b. list_all op_clean (b_ops b) \<and> list_ex is_edge_prop (b_ops b)) ops_inv"
    using s by (intro ops_inv_push_edge_prop) (auto intro: op_clean.intros)
  moreover have "triple (\<lambda>b. list_all op_clean (b_ops b) \<and> list_ex is_edge_prop (b_ops b))
      (modify_b (\<lambda>b. b\<lparr>b_hasEdgeProps := True\<rparr>)) (\<lambda>_. ops_inv) ops_inv"
    by (rule triple_modify) (simp add: ops_inv_def)
  ultimately show "keeps ops_inv
      (bind_b (push_op (createEdgePropSetV2 (js_str from_id) (js_str to_id) (js_str label) key v)) (\<lambda>_.
        bind_b (modify_b (\<lambda>b. b\<lparr>b_hasEdgeProps := True\<rparr>)) (\<lambda>_. bind_b (observe_b ek) (\<lambda>_. write_b ek))))"
    by (intro triple_bind [where R = "\<lambda>_. ops_inv"] triple_bind ops_marks)
qed

lemma run_call_ops: "keeps ops_inv (run_call c)"
  by (cases c) (simp_all add: addNode_ops addEdge_ops removeNode_ops removeEdge_ops setProperty_ops setEdgeProperty_ops)

lemma createPatchBuilder_ops: "ops_inv (createPatchBuilder g w l vv par pol)"
  by (simp add: ops_inv_def createPatchBuilder_def)

lemma run_calls_ops: "ops_inv b \<Longrightarrow> ops_inv (run_calls cs b)"
  by (rule run_calls_keeps) (rule run_call_ops)

section \<open>Fresh dots\<close>

definition op_dot :: "jsval \<Rightarrow> dot option" where
  "op_dot p = (if fld p ''type'' = JStr ''NodeAdd'' \<or> fld p ''type'' = JStr ''EdgeAdd''
     then dot_of_js (fld p ''dot'') else None)"

definition added_dots :: "jsval list \<Rightarrow> dot list" where
  "added_dots ps = List.map_filter op_dot ps"

lemma added_dots_snoc: "added_dots (ps @ [p]) = added_dots ps @ (case op_dot p of None \<Rightarrow> [] | Some d \<Rightarrow> [d])"
  by (simp add: added_dots_def map_filter_def split: option.split)

lemma op_dot_simps [simp]:
  "op_dot (createNodeAddV2 n d) = Some d" "op_dot (createEdgeAddV2 f t l d) = Some d"
  "op_dot (createNodeRemoveV2 n ds) = None" "op_dot (createEdgeRemoveV2 x y z ds) = None"
  "op_dot (createNodePropSetV2 i j v) = None" "op_dot (createEdgePropSetV2 f t l i v) = None"
  by (simp_all add: op_dot_def op_creators)

text \<open>
  The dots were drawn from the builder's counter in increasing order, above what \<open>v0\<close> had observed
  and below what the builder's own vector now says.
\<close>

definition dots_inv :: "version_vector \<Rightarrow> builder \<Rightarrow> bool" where
  "dots_inv v0 b \<longleftrightarrow>
     (let w = b_writerId b; ds = added_dots (b_ops b)
      in sorted_wrt (\<lambda>d e. dot_counter d < dot_counter e) ds \<and> vv_get v0 w \<le> vv_get (b_vv b) w \<and>
         (\<forall>d\<in>set ds. dot_writerId d = w \<and> vv_get v0 w < dot_counter d \<and> dot_counter d \<le> vv_get (b_vv b) w))"

definition dot_new :: "version_vector \<Rightarrow> dot \<Rightarrow> builder \<Rightarrow> bool" where
  "dot_new v0 d b \<longleftrightarrow> dot_writerId d = b_writerId b \<and> vv_get v0 (b_writerId b) < dot_counter d \<and>
     dot_counter d \<le> vv_get (b_vv b) (b_writerId b) \<and> (\<forall>e\<in>set (added_dots (b_ops b)). dot_counter e < dot_counter d)"

lemma dots_inv_frame [simp]:
  "dots_inv v0 (b\<lparr>b_snapshot := s\<rparr>) = dots_inv v0 b" "dots_inv v0 (b\<lparr>b_hasEdgeProps := h\<rparr>) = dots_inv v0 b"
  "dots_inv v0 (b\<lparr>b_nodesAdded := ns\<rparr>) = dots_inv v0 b" "dots_inv v0 (b\<lparr>b_edgesAdded := es\<rparr>) = dots_inv v0 b"
  "dots_inv v0 (b\<lparr>b_observed := os\<rparr>) = dots_inv v0 b" "dots_inv v0 (b\<lparr>b_writes := ws\<rparr>) = dots_inv v0 b"
  "dots_inv v0 (b\<lparr>b_warnings := ls\<rparr>) = dots_inv v0 b"
  by (simp_all add: dots_inv_def)

lemmas dots_marks = keeps_marks [where I = "dots_inv v0" for v0, simplified]
  keeps_added [where I = "dots_inv v0" for v0, simplified] keeps_snapshot [where I = "dots_inv v0" for v0, simplified]

lemma next_dot_new: "triple (dots_inv v0) next_dot (\<lambda>d b. dot_new v0 d b \<and> dots_inv v0 b) (dots_inv v0)"
  by (rule tripleI)
    (fastforce simp: next_dot_def vvIncrement_def Let_def createDot_ok_iff dots_inv_def dot_new_def)+

lemma push_new:
  "op_dot p = Some d \<Longrightarrow> triple (\<lambda>b. dot_new v0 d b \<and> dots_inv v0 b) (push_op p) (\<lambda>_. dots_inv v0) (dots_inv v0)"
  by (auto simp: triple_push dots_inv_def dot_new_def added_dots_snoc Let_def sorted_wrt_append)

lemma push_old: "op_dot p = None \<Longrightarrow> keeps (dots_inv v0) (push_op p)"
  by (auto simp: triple_push dots_inv_def added_dots_snoc)

lemma addNode_dots: "keeps (dots_inv v0) (addNode nodeId)"
  unfolding addNode_def
  by (intro triple_open triple_assert triple_bind [OF next_dot_new] triple_bind [OF push_new]
      triple_bind [OF dots_marks(3)] dots_marks) simp

lemma addEdge_dots: "keeps (dots_inv v0) (addEdge f t l)"
  unfolding addEdge_def Let_def
  by (intro triple_open triple_assert triple_bind [OF next_dot_new] triple_bind [OF push_new]
      triple_bind [OF dots_marks(4)] triple_bind [OF dots_marks(1)] dots_marks) simp

lemma cascade_edge_dots: "keeps (dots_inv v0) (cascade_edge st k)"
  unfolding cascade_edge_def Let_def
  by (intro triple_bind [OF push_old] dots_marks) simp

lemma deleteGuard_dots: "keeps (dots_inv v0) (deleteGuard st nodeId)"
  unfolding deleteGuard_def
proof (rule triple_bind [where R = "\<lambda>_. dots_inv v0"])
  show "keeps (dots_inv v0) (gets_b b_onDelete)" by (rule triple_gets)
  fix policy
  show "keeps (dots_inv v0) (case st of None \<Rightarrow> ret_b ()
       | Some s \<Rightarrow> let data = findAttachedData s nodeId; nE = length (at_edges data); nP = length (at_props data)
           in case policy of
                RejectDelete \<Rightarrow> if at_hasData data then lift_b (Inl (BuilderErr (NodeHasData nodeId nE nP))) else ret_b ()
              | CascadeDelete \<Rightarrow> each_b (cascade_edge s) (at_edges data)
              | WarnDelete \<Rightarrow> if at_hasData data
                  then modify_b (\<lambda>b. b\<lparr>b_warnings := b_warnings b @ [(nodeId, nE, nP)]\<rparr>) else ret_b ())"
    by (auto simp: Let_def split: option.split delete_policy.split
        intro!: triple_ret triple_modify keeps_lift keeps_each cascade_edge_dots)
qed

lemma removeNode_dots: "keeps (dots_inv v0) (removeNode cur nodeId)"
  unfolding removeNode_def Let_def
  by (intro triple_open triple_bind [OF dots_marks(5)] triple_bind [OF deleteGuard_dots]
      triple_bind [OF push_old] dots_marks) simp_all

lemma removeEdge_dots: "keeps (dots_inv v0) (removeEdge cur f t l)"
  unfolding removeEdge_def Let_def
  by (intro triple_open triple_bind [OF dots_marks(5)] triple_bind [OF push_old] dots_marks) simp_all

lemma setProperty_dots: "keeps (dots_inv v0) (setProperty nodeId key v)"
  unfolding setProperty_def
  by (intro triple_open triple_assert triple_bind [OF push_old] triple_bind [OF dots_marks(1)] dots_marks) simp

lemma assertEdgeExists_dots: "keeps (dots_inv v0) (assertEdgeExists cur f t l)"
  unfolding assertEdgeExists_def Let_def
  by (intro triple_bind [OF triple_gets [where Q = "\<lambda>_. dots_inv v0"]])
    (auto intro!: triple_ret triple_bind [OF dots_marks(5)] keeps_lift split: option.split)

lemma setEdgeProperty_dots: "keeps (dots_inv v0) (setEdgeProperty cur f t l key v)"
  unfolding setEdgeProperty_def
  by (intro triple_open triple_assert triple_bind [OF assertEdgeExists_dots] triple_bind [OF push_old]
      triple_bind [OF triple_modify [where Q = "\<lambda>_. dots_inv v0"]] triple_bind [OF dots_marks(1)] dots_marks) simp_all

lemma run_call_dots: "keeps (dots_inv v0) (run_call c)"
  by (cases c) (simp_all add: addNode_dots addEdge_dots removeNode_dots removeEdge_dots setProperty_dots
      setEdgeProperty_dots)

lemma run_calls_dots: "dots_inv v0 b \<Longrightarrow> dots_inv v0 (run_calls cs b)"
  by (rule run_calls_keeps) (rule run_call_dots)

lemma createPatchBuilder_dots: "dots_inv vv (createPatchBuilder g w l vv par pol)"
  by (simp add: dots_inv_def createPatchBuilder_def added_dots_def vvClone_def map_filter_def)

section \<open>What a built patch does\<close>

lemma raw_effect_created:
  "raw_effect (createNodeAddV2 n d) = Inr (AddNode n (encodeDot d))"
  "raw_effect (createNodeRemoveV2 n ds) = Inr (TombNodes ds)"
  "raw_effect (createEdgeAddV2 f t l d) = Inr (AddEdge (encodeEdgeKey f t l) (encodeDot d))"
  "raw_effect (createEdgeRemoveV2 x y z ds) = Inr (TombEdges ds)"
proof -
  have dot: "js_truthy (js_dot d)" "js_typeof (js_dot d) = ''object''"
    "js_is_str (fld (js_dot d) ''writerId'')" "js_typeof (fld (js_dot d) ''counter'') = ''number''" for d
    by (simp_all add: js_dot_def)
  have it: "js_iterate (js_str_array ds) \<noteq> None" by (simp add: js_str_array_def)
  show "raw_effect (createNodeAddV2 n d) = Inr (AddNode n (encodeDot d))"
    by (simp add: raw_effect_def) (simp add: effect_of_def validateOp_def createNodeAddV2_def requireString_def
        requireDot_def dot dotted_def Let_def)
  show "raw_effect (createEdgeAddV2 f t l d) = Inr (AddEdge (encodeEdgeKey f t l) (encodeDot d))"
    by (simp add: raw_effect_def) (simp add: effect_of_def validateOp_def createEdgeAddV2_def requireString_def
        requireDot_def dot dotted_def edge_key_of_def Let_def)
  show "raw_effect (createNodeRemoveV2 n ds) = Inr (TombNodes ds)"
    using it by (simp add: raw_effect_def) (simp add: effect_of_def validateOp_def createNodeRemoveV2_def
        requireIterable_def Let_def)
  show "raw_effect (createEdgeRemoveV2 x y z ds) = Inr (TombEdges ds)"
    using it by (simp add: raw_effect_def) (simp add: effect_of_def validateOp_def createEdgeRemoveV2_def
        requireIterable_def Let_def)
qed

lemma effect_of_node_prop:
  "effect_of (createNodePropSetV2 (JStr n) (JStr k) v) = Inr (WriteProp (encodePropKey n k) v)"
  by (simp add: effect_of_def validateOp_def createNodePropSetV2_def requireString_def node_prop_key_def Let_def)

lemma effect_of_edge_prop:
  "effect_of (createEdgePropSetV2 f t l (JStr k) v) = Inr (WriteProp (encodeEdgePropKey f t l k) v)"
  by (simp add: effect_of_def validateOp_def createEdgePropSetV2_def requireString_def edge_prop_key_def Let_def)

text \<open>What a queued operation does once it was lowered, persisted, read back and normalised.\<close>

inductive op_means :: "jsval \<Rightarrow> op_effect \<Rightarrow> bool" where
  "op_means (createNodeAddV2 n d) (AddNode n (encodeDot d))"
| "op_means (createNodeRemoveV2 n ds) (TombNodes ds)"
| "op_means (createEdgeAddV2 f t l d) (AddEdge (encodeEdgeKey f t l) (encodeDot d))"
| "op_means (createEdgeRemoveV2 x y z ds) (TombEdges ds)"
| "op_means (createNodePropSetV2 (JStr n) (JStr k) v) (WriteProp (encodePropKey n k) v)"
| "op_means (createEdgePropSetV2 f t l (JStr k) v) (WriteProp (encodeEdgePropKey f t l k) v)"

definition empty_segment :: "jsval \<Rightarrow> bool" where
  "empty_segment p \<longleftrightarrow> is_edge_prop p \<and>
     (fld p ''from'' = JStr [] \<or> fld p ''to'' = JStr [] \<or> fld p ''label'' = JStr [])"

lemma empty_segment_edge_prop [simp]:
  "empty_segment (createEdgePropSetV2 f t l k v) \<longleftrightarrow> f = [] \<or> t = [] \<or> l = []"
  by (simp add: empty_segment_def) (simp add: createEdgePropSetV2_def)

lemma op_clean_effect:
  assumes "op_clean p"
  shows "if empty_segment p then raw_effect (lowerCanonicalOp p) = Inl (KeyErr LegacyEmptySegment)
    else \<exists>eff. raw_effect (lowerCanonicalOp p) = Inr eff \<and> op_means p eff"
  using assms
proof (cases rule: op_clean.cases)
  case (edge_prop f t l k v)
  then show ?thesis
    by (auto simp: raw_effect_def lower_edge_prop clean_id_def effect_of_edge_prop intro: op_means.intros)
next
  case (node_prop n k v)
  then show ?thesis
    by (auto simp: raw_effect_def lower_node_prop clean_id_def effect_of_node_prop empty_segment_def
        intro: op_means.intros)
qed (auto simp: raw_effect_created empty_segment_def intro: op_means.intros)

end
