(* ===== verification/CommitLaws.thy ===== *)
theory CommitLaws
  imports BuilderLaws
begin

text \<open>
  What the commit protocol of \<open>src/domain/services/PatchBuilderV2.js\<close> promises against the
  persistence port, and what it does not: one commit succeeds only on the tip it expects, publishes
  a commit that reads back, and a failure leaves every ref alone; but the check of the tip and the
  write of the ref are two steps, so two builders can both succeed and the first patch is lost.
\<close>

section \<open>The steps\<close>

definition parents_of :: "commit_plan \<Rightarrow> string list" where
  "parents_of plan = (case plan_parent plan of None \<Rightarrow> [] | Some tip \<Rightarrow> [tip])"

lemma plan_commit_ok:
  assumes "plan_commit dec s b = Inr plan"
  shows "b_ops b \<noteq> []" "buildWriterRef (b_graphName b) (b_writerId b) = Inr (plan_ref plan)"
    "ref_value s (plan_ref plan) = b_expectedParentSha b" "plan_parent plan = b_expectedParentSha b"
    "b_lamport b \<le> plan_lamport plan"
proof -
  from assms obtain r where n: "b_ops b \<noteq> []" and r: "buildWriterRef (b_graphName b) (b_writerId b) = Inr r"
    and e: "ref_value s r = b_expectedParentSha b"
    and rest: "(case b_expectedParentSha b of None \<Rightarrow> Inr \<lparr>plan_ref = r, plan_parent = None, plan_lamport = b_lamport b\<rparr>
      | Some tip \<Rightarrow> bind_r (next_lamport dec s (b_lamport b) tip) (\<lambda>l.
          Inr \<lparr>plan_ref = r, plan_parent = Some tip, plan_lamport = l\<rparr>)) = Inr plan"
    by (auto simp: plan_commit_def bind_r_Inr_iff readRef_ok split: if_splits)
  show "b_ops b \<noteq> []" by (rule n)
  have l: "b_lamport b \<le> l" if "next_lamport dec s (b_lamport b) tip = Inr l" for tip l
    using that by (auto simp: next_lamport_def bind_r_Inr_iff split: if_splits sum.splits)
  have "plan_ref plan = r \<and> plan_parent plan = b_expectedParentSha b \<and> b_lamport b \<le> plan_lamport plan"
    using rest by (auto simp: bind_r_Inr_iff l split: option.splits)
  then show "buildWriterRef (b_graphName b) (b_writerId b) = Inr (plan_ref plan)"
    "ref_value s (plan_ref plan) = b_expectedParentSha b" "plan_parent plan = b_expectedParentSha b"
    "b_lamport b \<le> plan_lamport plan"
    using r e by auto
qed

text \<open>The Lamport time of a patch is above that of the patch it follows.\<close>

lemma plan_commit_monotone:
  assumes "plan_commit dec s b = Inr plan" "plan_parent plan = Some tip"
    "showNode s tip = Inr message" "decodePatchMessage dec message = Inr info"
    "detectMessageKind dec message = Some ''patch''"
  shows "pm_lamport info < plan_lamport plan"
  using assms
  by (auto simp: plan_commit_def bind_r_Inr_iff next_lamport_def split: if_splits option.splits)

lemma commit_begin_ok:
  assumes "commit_begin env s b = (b1, Inr plan)"
  shows "\<not> b_committed b" "\<not> b_committing b" "b1 = b\<lparr>b_committing := True\<rparr>"
    "plan_commit (env_decodeMsg env) s b = Inr plan"
  using assms by (auto simp: commit_begin_def split: if_splits sum.splits)

definition message_of :: "builder \<Rightarrow> commit_plan \<Rightarrow> patch \<Rightarrow> string \<Rightarrow> patch_message" where
  "message_of b plan p blob =
     \<lparr>pm_graph = b_graphName b, pm_writer = b_writerId b, pm_lamport = plan_lamport plan,
      pm_patchOid = blob, pm_schema = int (patch_schema p), pm_encrypted = False\<rparr>"

text \<open>What the objects of a successful commit hold.\<close>

definition published :: "environment \<Rightarrow> git_store \<Rightarrow> builder \<Rightarrow> commit_plan \<Rightarrow> patch \<Rightarrow> string \<Rightarrow> bool" where
  "published env s b plan p sha \<longleftrightarrow>
     build_at (plan_lamport plan) b = Inr p \<and>
     (\<exists>blob ci msg. readBlob s blob = Inr (env_encode env p) \<and> ci_parents ci = parents_of plan \<and>
        ci_message ci = msg \<and> encodePatchMessage (env_encodeMsg env) (message_of b plan p blob) = Inr msg \<and>
        (oid_ok sha \<longrightarrow> getNodeInfo s sha = Inr ci))"

lemma validateOid_oid_ok: "validateOid oid field = Inr () \<Longrightarrow> oid_ok oid"
proof -
  assume v: "validateOid oid field = Inr ()"
  have "hex_lower c \<Longrightarrow> hex_any c" for c
    by (auto simp: hex_lower_def hex_any_def is_digit_def)
  with v show ?thesis
    by (auto simp: validateOid_def oid_ok_def list_all_iff split: if_splits)
qed

lemma write_commit_refs: "write_commit env s b plan = (s', r) \<Longrightarrow> ref_value s' = ref_value s"
proof -
  assume w: "write_commit env s b plan = (s', r)"
  have t: "writeTree h s1 ls = Inr (s2, tree) \<Longrightarrow> ref_value s2 = ref_value s1" for h s1 ls s2 tree
    by (auto simp: writeTree_def bind_r_Inr_iff dest!: arg_cong [where f = "\<lambda>x. ref_value (fst x)"])
  have c: "commitNodeWithTree h a d s1 tr ps m = Inr (s2, sha) \<Longrightarrow> ref_value s2 = ref_value s1" for h a d s1 tr ps m s2 sha
    by (auto simp: commitNodeWithTree_def bind_r_Inr_iff dest!: arg_cong [where f = "\<lambda>x. ref_value (fst x)"])
  have b: "writeBlob h s0 x = (s1, blob) \<Longrightarrow> ref_value s1 = ref_value s0" for h s0 x s1 blob
    using store_frames(1) [of h s0 x] by simp
  show ?thesis
    using w by (auto simp: write_commit_def Let_def split: sum.splits prod.splits dest!: t c b)
qed

lemma write_commit_published:
  assumes "write_commit env s b plan = (s', Inr (p, sha))"
  shows "published env s' b plan p sha"
proof -
  let ?h = "env_hash env"
  obtain s1 blob where wb: "writeBlob ?h s (env_encode env p) = (s1, blob)" by force
  from assms have bp: "build_at (plan_lamport plan) b = Inr p"
    by (auto simp: write_commit_def Let_def split: sum.splits prod.splits)
  from assms wb bp obtain s2 tree msg where
    wt: "writeTree ?h s1 (tree_lines blob (b_contentBlobs b)) = Inr (s2, tree)" and
    em: "encodePatchMessage (env_encodeMsg env) (message_of b plan p blob) = Inr msg" and
    cn: "commitNodeWithTree ?h (env_author env) (env_date env) s2 tree (parents_of plan) msg = Inr (s', sha)"
    by (auto simp: write_commit_def Let_def message_of_def parents_of_def split: sum.splits prod.splits)
  from wt obtain es where s2: "s2 = fst (put_tree ?h s1 es)"
    unfolding writeTree_def by (auto simp: bind_r_Inr_iff dest!: arg_cong [where f = fst])
  define ci where "ci = \<lparr>ci_treeOid = tree, ci_parents = parents_of plan, ci_message = msg,
      ci_author = env_author env, ci_date = env_date env\<rparr>"
  from cn have s': "put_commit ?h s2 ci = (s', sha)"
    by (simp add: commitNodeWithTree_def bind_r_Inr_iff ci_def)
  have ok: "oid_ok blob"
    using em by (auto simp: encodePatchMessage_ok message_of_def intro: validateOid_oid_ok)
  have "readBlob s1 blob = Inr (env_encode env p)"
    using blobs.put_get [of ?h s "env_encode env p"] wb ok by simp
  then have rb: "readBlob s' blob = Inr (env_encode env p)"
    using store_frames(4) [of ?h s1 es] store_frames(5) [of ?h s2 ci] s'
    unfolding s2 by (metis fst_conv)
  have gn: "oid_ok sha \<longrightarrow> getNodeInfo s' sha = Inr ci"
    using commits.put_get [of ?h s2 ci] s' by simp
  show ?thesis
    unfolding published_def using bp rb em gn
    by (intro conjI exI [of _ blob] exI [of _ ci] exI [of _ msg]) (simp_all add: ci_def)
qed

section \<open>One commit\<close>

lemma build_at_frame [simp]:
  "build_at l (b\<lparr>b_committing := x\<rparr>) = build_at l b" "build_at l (b\<lparr>b_committed := x\<rparr>) = build_at l b"
  by (simp_all add: build_at_def)

lemma message_of_frame [simp]: "message_of (b\<lparr>b_committing := x\<rparr>) plan p blob = message_of b plan p blob"
  by (simp add: message_of_def)

lemma published_frame [simp]: "published env s (b\<lparr>b_committing := x\<rparr>) plan p sha = published env s b plan p sha"
  by (simp add: published_def)

lemma published_set_ref [simp]: "published env (set_ref s r oid) b plan p sha = published env s b plan p sha"
  by (simp add: published_def)

lemma commit_okE:
  assumes "commit env s b = (s', b', Inr sha)"
  obtains plan p s2 where "plan_commit (env_decodeMsg env) s b = Inr plan" "published env s' b plan p sha"
    "ref_value s2 = ref_value s" "s' = set_ref s2 (plan_ref plan) sha" "oid_ok sha"
    "\<not> b_committed b" "\<not> b_committing b" "b' = b\<lparr>b_committed := True, b_committing := False\<rparr>"
proof -
  from assms obtain b1 plan s2 p b2 where cb: "commit_begin env s b = (b1, Inr plan)"
    and co: "commit_objects env s b1 plan = (s2, b2, Inr (p, sha))"
    and cp: "commit_publish s2 b2 plan sha = (s', b', Inr sha)"
    by (auto simp: commit_def commit_publish_def split: prod.splits sum.splits)
  note b1 = commit_begin_ok [OF cb]
  from co have w: "write_commit env s b1 plan = (s2, Inr (p, sha))" and b2: "b2 = b1"
    by (auto simp: commit_objects_def split: prod.splits sum.splits)
  have u: "s' = set_ref s2 (plan_ref plan) sha" "oid_ok sha" "b' = b2\<lparr>b_committed := True, b_committing := False\<rparr>"
    using cp by (auto simp: commit_publish_def updateRef_ok split: sum.splits)
  show ?thesis
    using that [OF b1(4) _ write_commit_refs [OF w] u(1,2) b1(1,2)] write_commit_published [OF w] u(1,3) b1(3) b2
    by simp
qed

lemma commit_failed:
  assumes "commit env s b = (s', b', Inl e)" "\<not> b_committed b" "\<not> b_committing b"
  shows "ref_value s' = ref_value s" "b' = b"
proof -
  obtain b1 r where cb: "commit_begin env s b = (b1, r)" by force
  have "ref_value s' = ref_value s \<and> b' = b"
  proof (cases r)
    case (Inl e')
    with cb assms show ?thesis
      by (auto simp: commit_def commit_begin_def split: sum.splits)
  next
    case (Inr plan)
    note b1 = commit_begin_ok [OF cb [unfolded Inr]]
    obtain s2 w where w: "write_commit env s b1 plan = (s2, w)" by force
    note refs = write_commit_refs [OF w]
    show ?thesis
      using assms cb Inr w refs b1(3)
      by (auto simp: commit_def commit_objects_def commit_publish_def split: sum.splits prod.splits)
  qed
  then show "ref_value s' = ref_value s" "b' = b" by auto
qed

text \<open>A committed builder, or one that is committing, refuses a second commit.\<close>

lemma commit_once:
  "b_committed b \<or> b_committing b \<Longrightarrow> commit env s b = (s, b, Inl (CommitErr (BuilderErr AlreadyCommitted)))"
  by (simp add: commit_def commit_begin_def)

lemma commit_stale:
  assumes "buildWriterRef (b_graphName b) (b_writerId b) = Inr r" "ref_ok r" "b_ops b \<noteq> []"
    "\<not> b_committed b" "\<not> b_committing b" "ref_value s r \<noteq> b_expectedParentSha b"
  shows "commit env s b = (s, b, Inl (CommitErr (BuilderErr (CasConflict (b_expectedParentSha b) (ref_value s r)))))"
proof -
  have "readRef s r = Inr (ref_value s r)"
    using assms(2) by (simp add: readRef_ok)
  then show ?thesis
    using assms by (simp add: commit_def commit_begin_def plan_commit_def)
qed

section \<open>Two builders\<close>

text \<open>
  Both checks run before either publication: both commits succeed, and the ref ends at the second
  one, whose parent is not the first. With the port's compare-and-swap the second would be refused.
\<close>

lemma racing_commits:
  assumes "commit_begin env s b1 = (b1', Inr plan1)" "commit_begin env s b2 = (b2', Inr plan2)"
    and "plan_ref plan1 = plan_ref plan2"
    and "write_commit env s b1' plan1 = (s1, Inr (p1, sha1))"
    and "commit_publish s1 b1' plan1 sha1 = (s2, b1'', Inr sha1)"
    and "write_commit env s2 b2' plan2 = (s3, Inr (p2, sha2))"
    and "commit_publish s3 b2' plan2 sha2 = (s4, b2'', Inr sha2)"
  shows "ref_value s4 (plan_ref plan2) = Some sha2"
    and "published env s4 b2' plan2 p2 sha2"
    and "parents_of plan2 = parents_of plan1"
    and "ref_value s (plan_ref plan2) \<noteq> Some sha1 \<Longrightarrow>
           \<not> is_ok (compareAndSwapRef s3 (plan_ref plan2) sha2 (plan_parent plan2))"
proof -
  note p1 = plan_commit_ok [OF commit_begin_ok(4) [OF assms(1)]]
  note p2 = plan_commit_ok [OF commit_begin_ok(4) [OF assms(2)]]
  have u1: "s2 = set_ref s1 (plan_ref plan1) sha1" "oid_ok sha1"
    using assms(5) by (auto simp: commit_publish_def updateRef_ok split: sum.splits)
  have u2: "s4 = set_ref s3 (plan_ref plan2) sha2" "oid_ok sha2"
    using assms(7) by (auto simp: commit_publish_def updateRef_ok split: sum.splits)
  show "ref_value s4 (plan_ref plan2) = Some sha2"
    unfolding u2(1) by (rule refs.read_write) (rule oid_ok_nonempty [OF u2(2)])
  show "published env s4 b2' plan2 p2 sha2"
    using write_commit_published [OF assms(6)] by (simp add: u2(1))
  have e: "plan_parent plan1 = plan_parent plan2"
    using p1(3,4) p2(3,4) assms(3) by simp
  then show "parents_of plan2 = parents_of plan1" by (simp add: parents_of_def)
  assume new: "ref_value s (plan_ref plan2) \<noteq> Some sha1"
  have "ref_value s3 (plan_ref plan2) = Some sha1"
    using refs.read_write [OF oid_ok_nonempty [OF u1(2)], of s1 "plan_ref plan1"]
    by (simp add: write_commit_refs [OF assms(6)] u1(1) assms(3))
  then show "\<not> is_ok (compareAndSwapRef s3 (plan_ref plan2) sha2 (plan_parent plan2))"
    using new p2(3,4) by (intro refs.cas_fails) auto
qed

end
