(* ===== verification/BuiltPatches.thy ===== *)
theory BuiltPatches
  imports CommitLaws
begin

text \<open>
  The patches that \<open>src/domain/services/PatchBuilderV2.js\<close> builds, seen by the reducer of
  \<open>src/domain/services/JoinReducer.js\<close>: their schema is the one a reader detects, they apply unless
  an edge property was set on an edge with an empty segment, their removals observe one snapshot, and
  a cascading removal covers exactly the incident edges.
\<close>

section \<open>Invariants of every sequence of calls\<close>

locale builder_invariant =
  fixes I :: "builder \<Rightarrow> bool"
  assumes marks: "\<And>b x. I b \<Longrightarrow> I (b\<lparr>b_observed := x\<rparr>)" "\<And>b x. I b \<Longrightarrow> I (b\<lparr>b_writes := x\<rparr>)"
      "\<And>b x. I b \<Longrightarrow> I (b\<lparr>b_nodesAdded := x\<rparr>)" "\<And>b x. I b \<Longrightarrow> I (b\<lparr>b_edgesAdded := x\<rparr>)"
      "\<And>b. I b \<Longrightarrow> I (b\<lparr>b_hasEdgeProps := True\<rparr>)"
    and snapshot: "keeps I (getSnapshotState cur)"
    and dot: "keeps I next_dot"
    and pushes: "keeps I (push_op (createNodeAddV2 n d))" "keeps I (push_op (createEdgeAddV2 f t l d))"
      "keeps I (push_op (createNodePropSetV2 x y v))" "keeps I (push_op (createEdgePropSetV2 f t l y v))"
    and removals: "keeps I (removeNode cur n)" "keeps I (removeEdge cur f t l)"
begin

lemma mark_rules:
  "keeps I (observe_b x)" "keeps I (write_b x)"
  "keeps I (modify_b (\<lambda>b. b\<lparr>b_nodesAdded := set_add (b_nodesAdded b) x\<rparr>))"
  "keeps I (modify_b (\<lambda>b. b\<lparr>b_edgesAdded := set_add (b_edgesAdded b) x\<rparr>))"
  "keeps I (modify_b (\<lambda>b. b\<lparr>b_hasEdgeProps := True\<rparr>))"
  unfolding observe_b_def write_b_def by (rule triple_modify; simp add: marks)+

lemma edge_exists: "keeps I (assertEdgeExists cur f t l)"
  unfolding assertEdgeExists_def Let_def
  by (intro triple_bind [OF triple_gets [where Q = "\<lambda>_. I"]])
    (auto intro!: triple_ret triple_bind [OF snapshot] keeps_lift split: option.split)

lemma add_calls: "keeps I (addNode x)" "keeps I (addEdge x y z)"
  unfolding addNode_def addEdge_def Let_def
  by (intro triple_bind [OF keeps_assertNotCommitted] triple_bind [OF keeps_lift] triple_bind [OF dot]
      triple_bind [OF pushes(1)] triple_bind [OF pushes(2)] triple_bind [OF mark_rules(3)]
      triple_bind [OF mark_rules(4)] triple_bind [OF mark_rules(1)] mark_rules)+

lemma prop_calls: "keeps I (setProperty x k v)" "keeps I (setEdgeProperty cur x y z k v)"
  unfolding setProperty_def setEdgeProperty_def
  by (intro triple_bind [OF keeps_assertNotCommitted] triple_bind [OF keeps_lift] triple_bind [OF edge_exists]
      triple_bind [OF pushes(3)] triple_bind [OF pushes(4)] triple_bind [OF mark_rules(5)]
      triple_bind [OF mark_rules(1)] mark_rules)+

lemma every_call: "keeps I (run_call c)"
  by (cases c) (simp_all add: add_calls prop_calls removals)

lemma every_sequence: "I b \<Longrightarrow> I (run_calls cs b)"
  by (rule run_calls_keeps) (rule every_call)

end

section \<open>The causal context\<close>

lemma keeps_vv: "(\<And>b. b_vv (f b) = b_vv b) \<Longrightarrow> keeps (\<lambda>b. vv_positive (b_vv b)) (modify_b f)"
  by (rule triple_modify) simp

lemma removals_keep:
  assumes "\<And>cur. keeps I (getSnapshotState cur)" "\<And>p. keeps I (push_op p)" "\<And>x. keeps I (observe_b x)"
    "\<And>b x. I b \<Longrightarrow> I (b\<lparr>b_warnings := x\<rparr>)"
  shows "keeps I (removeNode cur n)" "keeps I (removeEdge cur f t l)"
proof -
  have ce: "keeps I (cascade_edge s k)" for s k
    unfolding cascade_edge_def Let_def by (intro triple_bind [OF assms(2)] assms(3))
  have g: "keeps I (deleteGuard st n)" for st
    unfolding deleteGuard_def
    by (intro triple_bind [OF triple_gets [where Q = "\<lambda>_. I"]])
      (auto simp: Let_def assms(4) split: option.split delete_policy.split
        intro!: triple_ret triple_modify keeps_lift keeps_each ce)
  show "keeps I (removeNode cur n)"
    unfolding removeNode_def Let_def
    by (intro triple_bind [OF keeps_assertNotCommitted] triple_bind [OF assms(1)] triple_bind [OF g]
        triple_bind [OF assms(2)] assms(3))
  show "keeps I (removeEdge cur f t l)"
    unfolding removeEdge_def Let_def
    by (intro triple_bind [OF keeps_assertNotCommitted] triple_bind [OF assms(1)]
        triple_bind [OF assms(2)] assms(3))
qed

lemma vv_positive_increment:
  assumes "vv_positive vv"
  shows "vv_positive (map_set vv w (vv_get vv w + 1))"
  using assms vv_get_nonneg [OF vv_positive_wf [OF assms], of w] by (auto simp: vv_positive_def)

interpretation causal: builder_invariant "\<lambda>b. vv_positive (b_vv b)"
proof (unfold_locales, goal_cases)
  case (6 cur)
  show ?case by (rule keeps_snapshot) simp
next
  case 7
  show ?case
    by (rule tripleI) (auto simp: next_dot_def vvIncrement_def Let_def vv_positive_increment)
next
  case (12 cur n)
  show ?case
    by (rule removals_keep) (simp_all add: push_op_def observe_b_def keeps_vv, rule keeps_snapshot, simp)
next
  case (13 cur f t l)
  show ?case
    by (rule removals_keep) (simp_all add: push_op_def observe_b_def keeps_vv, rule keeps_snapshot, simp)
qed (simp_all add: push_op_def keeps_vv)

lemma vvSerialize_deserialize:
  assumes "vv_positive vv" "vvSerialize vv = Inr obj"
  shows "is_ok (vvDeserialize (map (\<lambda>(k, c). (k, JNum c)) obj))"
  using vv_roundtrip [OF assms(1)] assms(2) by auto

section \<open>One snapshot\<close>

text \<open>\<open>observes s p\<close>: if \<open>p\<close> is a removal, its dots are the live dots that the state \<open>s\<close> shows.\<close>

definition node_dots :: "warp_state option \<Rightarrow> string \<Rightarrow> string list" where
  "node_dots st n = (case st of None \<Rightarrow> [] | Some s \<Rightarrow> orsetGetDots (nodeAlive s) n)"

definition edge_dots :: "warp_state option \<Rightarrow> string \<Rightarrow> string list" where
  "edge_dots st k = (case st of None \<Rightarrow> [] | Some s \<Rightarrow> orsetGetDots (edgeAlive s) k)"

definition is_removal :: "jsval \<Rightarrow> bool" where
  "is_removal p \<longleftrightarrow> fld p ''type'' = JStr ''NodeRemove'' \<or> fld p ''type'' = JStr ''EdgeRemove''"

inductive observes :: "warp_state option \<Rightarrow> jsval \<Rightarrow> bool" for s where
  node: "observes s (createNodeRemoveV2 n (node_dots s n))"
| edge: "observes s (createEdgeRemoveV2 (JStr f) (JStr t) (JStr l) (edge_dots s (encodeEdgeKey f t l)))"
| cascade: "split_on FIELD_SEPARATOR k = ps \<Longrightarrow>
     observes s (createEdgeRemoveV2 (js_part ps 0) (js_part ps 1) (js_part ps 2) (edge_dots s k))"
| other: "\<not> is_removal p \<Longrightarrow> observes s p"

definition snapshot_inv :: "builder \<Rightarrow> bool" where
  "snapshot_inv b \<longleftrightarrow> (case b_snapshot b of None \<Rightarrow> list_all (\<lambda>p. \<not> is_removal p) (b_ops b)
     | Some s \<Rightarrow> list_all (observes s) (b_ops b))"

text \<open>The snapshot is taken, and is \<open>s\<close>.\<close>

definition taken :: "warp_state option \<Rightarrow> builder \<Rightarrow> bool" where
  "taken s b \<longleftrightarrow> b_snapshot b = Some s \<and> list_all (observes s) (b_ops b)"

lemma taken_inv: "taken s b \<Longrightarrow> snapshot_inv b"
  by (simp add: taken_def snapshot_inv_def)

lemma is_removal_simps [simp]:
  "\<not> is_removal (createNodeAddV2 n d)" "\<not> is_removal (createEdgeAddV2 f t l d)"
  "\<not> is_removal (createNodePropSetV2 x y v)" "\<not> is_removal (createEdgePropSetV2 f t l y v)"
  by (simp_all add: is_removal_def op_creators)

lemma observes_others: "list_all (\<lambda>p. \<not> is_removal p) ps \<Longrightarrow> list_all (observes s) ps"
  by (auto simp: list_all_iff intro: observes.other)

lemma snapshot_taken:
  "triple snapshot_inv (getSnapshotState cur) (\<lambda>s. taken s) snapshot_inv"
  by (auto simp: triple_def getSnapshotState_def snapshot_inv_def taken_def observes_others split: option.splits)

lemma taken_frame [simp]:
  "taken s (b\<lparr>b_observed := x\<rparr>) = taken s b" "taken s (b\<lparr>b_warnings := ws\<rparr>) = taken s b"
  by (simp_all add: taken_def)

lemma taken_push: "observes s p \<Longrightarrow> triple (taken s) (push_op p) (\<lambda>_. taken s) E"
  by (simp add: triple_push taken_def)

lemma taken_observe: "triple (taken s) (observe_b x) (\<lambda>_. taken s) E"
  unfolding observe_b_def by (rule triple_modify) simp

lemma taken_cascade: "triple (taken (Some s)) (cascade_edge s k) (\<lambda>_. taken (Some s)) snapshot_inv"
  unfolding cascade_edge_def Let_def
  using observes.cascade [OF refl, of "Some s" k] by (intro triple_bind [OF taken_push] taken_observe) (simp add: edge_dots_def)

lemma taken_each:
  "triple (taken (Some s)) (each_b (cascade_edge s) ks) (\<lambda>_. taken (Some s)) snapshot_inv"
  by (induction ks) (auto intro!: triple_ret triple_bind [OF taken_cascade])

lemma taken_guard: "triple (taken st) (deleteGuard st n) (\<lambda>_. taken st) snapshot_inv"
  unfolding deleteGuard_def
  by (rule triple_bind [OF triple_gets [where Q = "\<lambda>_. taken st"]])
    (auto simp: Let_def taken_inv split: option.split delete_policy.split
      intro!: triple_ret triple_modify triple_lift taken_each)

lemma triple_inv: "triple P m (\<lambda>_. taken s) E \<Longrightarrow> triple P m (\<lambda>_. snapshot_inv) E"
  by (erule triple_post) (rule taken_inv)

lemma removeNode_snapshot: "keeps snapshot_inv (removeNode cur n)"
  unfolding removeNode_def Let_def
proof (intro triple_bind [OF keeps_assertNotCommitted] triple_bind [OF snapshot_taken] triple_bind [OF taken_guard])
  fix st
  show "triple (taken st) (bind_b (push_op (createNodeRemoveV2 n (case st of None \<Rightarrow> [] | Some s \<Rightarrow> orsetGetDots (nodeAlive s) n)))
      (\<lambda>_. observe_b n)) (\<lambda>_. snapshot_inv) snapshot_inv"
    using observes.node [of st n]
    by (intro triple_bind [OF taken_push] triple_inv [OF taken_observe]) (simp add: node_dots_def)
qed

lemma removeEdge_snapshot: "keeps snapshot_inv (removeEdge cur f t l)"
  unfolding removeEdge_def Let_def
proof (intro triple_bind [OF keeps_assertNotCommitted] triple_bind [OF snapshot_taken])
  fix st
  show "triple (taken st) (bind_b (push_op (createEdgeRemoveV2 (JStr f) (JStr t) (JStr l)
      (case st of None \<Rightarrow> [] | Some s \<Rightarrow> orsetGetDots (edgeAlive s) (encodeEdgeKey f t l))))
      (\<lambda>_. observe_b (encodeEdgeKey f t l))) (\<lambda>_. snapshot_inv) snapshot_inv"
    using observes.edge [of st f t l]
    by (intro triple_bind [OF taken_push] triple_inv [OF taken_observe]) (simp add: edge_dots_def)
qed

lemma snapshot_push: "\<not> is_removal p \<Longrightarrow> keeps snapshot_inv (push_op p)"
  by (auto simp: triple_push snapshot_inv_def intro: observes.other split: option.splits)

lemma snapshot_frame [simp]:
  "snapshot_inv (b\<lparr>b_observed := x\<rparr>) = snapshot_inv b" "snapshot_inv (b\<lparr>b_writes := x\<rparr>) = snapshot_inv b"
  "snapshot_inv (b\<lparr>b_nodesAdded := x\<rparr>) = snapshot_inv b" "snapshot_inv (b\<lparr>b_edgesAdded := x\<rparr>) = snapshot_inv b"
  "snapshot_inv (b\<lparr>b_hasEdgeProps := h\<rparr>) = snapshot_inv b" "snapshot_inv (b\<lparr>b_vv := v\<rparr>) = snapshot_inv b"
  unfolding snapshot_inv_def by (simp_all cong: option.case_cong)

interpretation one_snapshot: builder_invariant snapshot_inv
proof (unfold_locales, goal_cases)
  case (6 cur)
  show ?case by (rule triple_post [OF snapshot_taken]) (rule taken_inv)
next
  case 7
  show ?case by (rule tripleI) (auto simp: next_dot_def vvIncrement_def Let_def)
next
  case (12 cur n)
  show ?case by (rule removeNode_snapshot)
next
  case (13 cur f t l)
  show ?case by (rule removeEdge_snapshot)
qed (simp_all add: snapshot_push)

text \<open>Once taken, the snapshot is not taken again.\<close>

interpretation kept_snapshot: builder_invariant "\<lambda>b. b_snapshot b = Some s" for s
proof (unfold_locales, goal_cases)
  case (6 cur)
  show ?case by (simp add: triple_def getSnapshotState_def)
next
  case 7
  show ?case by (rule tripleI) (auto simp: next_dot_def vvIncrement_def Let_def)
next
  case (12 cur n)
  show ?case
    by (rule removals_keep) (auto simp: triple_def getSnapshotState_def push_op_def observe_b_def modify_b_def)
next
  case (13 cur f t l)
  show ?case
    by (rule removals_keep) (auto simp: triple_def getSnapshotState_def push_op_def observe_b_def modify_b_def)
qed (auto simp: push_op_def intro: triple_modify)

section \<open>What the patch does\<close>

lemma map_r_ok_iff: "is_ok (map_r f xs) \<longleftrightarrow> (\<forall>x\<in>set xs. is_ok (f x))"
proof (induction xs)
  case (Cons x xs)
  then show ?case by (cases "f x"; cases "map_r f xs") auto
qed simp

lemma op_event_ok:
  "0 < patch_lamport p \<Longrightarrow> patch_writer p \<noteq> [] \<Longrightarrow> hex_oid sha \<Longrightarrow>
     op_event p sha i = Inr (EventId (patch_lamport p) (patch_writer p) sha (int i))"
  by (simp add: op_event_def createEventId_ok event_valid_def)

lemma lowered_ok_iff: "op_clean q \<Longrightarrow> is_ok (raw_effect (lowerCanonicalOp q)) \<longleftrightarrow> \<not> empty_segment q"
  using op_clean_effect [of q] by (auto split: if_splits)

lemma build_at_ok:
  "build_at l b = Inr p \<longleftrightarrow> (\<exists>obj. vvSerialize (b_vv b) = Inr obj \<and>
     p = createPatchV2 (if b_hasEdgeProps b then 3 else 2) (b_writerId b) l
       (CtxObj (map (\<lambda>(w, c). (w, JNum c)) obj)) (map lowerCanonicalOp (b_ops b))
       (sort (b_observed b)) (sort (b_writes b)))"
  by (auto simp: build_at_def bind_r_Inr_iff)

lemma createPatchV2_sel [simp]:
  "patch_schema (createPatchV2 s w l c ps rs ws) = s" "patch_writer (createPatchV2 s w l c ps rs ws) = w"
  "patch_lamport (createPatchV2 s w l c ps rs ws) = l" "patch_context (createPatchV2 s w l c ps rs ws) = c"
  "patch_ops (createPatchV2 s w l c ps rs ws) = ps"
  by (simp_all add: createPatchV2_def)

lemma op_entry_ok_iff:
  assumes "op_event p sha (fst iop) = Inr e"
  shows "is_ok (op_entry p sha iop) \<longleftrightarrow> is_ok (raw_effect (snd iop))"
  using assms by (cases "raw_effect (snd iop)") (simp_all add: op_entry_def)

lemma patch_log_ok_iff:
  assumes "0 < patch_lamport p" "patch_writer p \<noteq> []" "hex_oid sha"
  shows "is_ok (patch_log p sha) \<longleftrightarrow> (\<forall>q\<in>set (patch_ops p). is_ok (raw_effect q))"
proof -
  have "is_ok (patch_log p sha) \<longleftrightarrow> (\<forall>iop\<in>set (List.enumerate 0 (patch_ops p)). is_ok (raw_effect (snd iop)))"
    unfolding patch_log_def map_r_ok_iff
    by (intro ball_cong [OF refl] op_entry_ok_iff) (rule op_event_ok [OF assms])
  also have "\<dots> \<longleftrightarrow> (\<forall>q\<in>snd ` set (List.enumerate 0 (patch_ops p)). is_ok (raw_effect q))"
    by blast
  finally show ?thesis by (simp flip: set_map)
qed

text \<open>The only committed patches that a reader rejects are those with an empty edge segment.\<close>

lemma built_applies_iff:
  assumes "build_at l b = Inr p" "ops_inv b" "vv_positive (b_vv b)" "0 < l" "b_writerId b \<noteq> []" "hex_oid sha"
  shows "is_ok (applyFast st p sha) \<longleftrightarrow> \<not> list_ex empty_segment (b_ops b)"
proof -
  from assms(1) obtain obj where obj: "vvSerialize (b_vv b) = Inr obj"
    and p: "patch_context p = CtxObj (map (\<lambda>(w, c). (w, JNum c)) obj)" "patch_lamport p = l"
      "patch_writer p = b_writerId b" "patch_ops p = map lowerCanonicalOp (b_ops b)"
    by (auto simp: build_at_ok)
  have c: "is_ok (contextVV (patch_context p))"
    using vvSerialize_deserialize [OF assms(3) obj] by (simp add: p contextVV_def)
  have "is_ok (patch_log p sha) \<longleftrightarrow> (\<forall>q\<in>set (b_ops b). is_ok (raw_effect (lowerCanonicalOp q)))"
    using assms by (subst patch_log_ok_iff) (simp_all add: p)
  also have "\<dots> \<longleftrightarrow> \<not> list_ex empty_segment (b_ops b)"
    using assms(2) lowered_ok_iff unfolding ops_inv_def by (auto simp: list_ex_iff list_all_iff)
  finally show ?thesis using c by (simp add: applyFast_ok_iff)
qed

lemma built_effects:
  assumes "patch_log p sha = Inr log"
  shows "list_all2 (\<lambda>q ee. raw_effect q = Inr (snd ee)) (patch_ops p) log"
proof -
  have "list_all2 (\<lambda>iop ee. op_entry p sha iop = Inr ee) (List.enumerate 0 (patch_ops p)) log"
    using assms by (simp add: patch_log_def map_r_Inr_iff)
  then have "list_all2 (\<lambda>iop ee. raw_effect (snd iop) = Inr (snd ee)) (List.enumerate 0 (patch_ops p)) log"
    by (rule list_all2_mono) (auto simp: op_entry_def bind_r_Inr_iff)
  then have "list_all2 (\<lambda>q ee. raw_effect q = Inr (snd ee)) (map snd (List.enumerate 0 (patch_ops p))) log"
    unfolding list_all2_map1 .
  then show ?thesis by simp
qed

section \<open>The schema\<close>

lemma needs_v3_lowered:
  assumes "op_clean q"
  shows "needs_v3 (lowerCanonicalOp q) \<longleftrightarrow> is_edge_prop q"
  using assms
proof (cases rule: op_clean.cases)
  case (node_prop n k v)
  then show ?thesis
    by (cases n) (auto simp: lowerCanonicalOp_def needs_v3_def op_creators is_edge_prop_def clean_id_def
        no_prefix_def starts_with_def)
next
  case (edge_prop f t l k v)
  then show ?thesis
    by (simp add: lowerCanonicalOp_def needs_v3_def op_creators is_edge_prop_def starts_with_def
        encodeLegacyEdgePropNode_def)
qed (auto simp: needs_v3_def op_creators is_edge_prop_def lowerCanonicalOp_def)

lemma built_schema:
  assumes "build_at l b = Inr p" "ops_inv b"
  shows "patch_schema p = detectSchemaVersion (Some (patch_ops p))"
proof -
  have "list_ex needs_v3 (map lowerCanonicalOp (b_ops b)) \<longleftrightarrow> list_ex is_edge_prop (b_ops b)"
    using assms(2) needs_v3_lowered unfolding ops_inv_def by (auto simp: list_ex_iff list_all_iff)
  with assms show ?thesis
    by (auto simp: build_at_ok detectSchemaVersion_def SCHEMA_V2_def SCHEMA_V3_def ops_inv_def)
qed

section \<open>Cascading removals\<close>

definition incident :: "string \<Rightarrow> string \<Rightarrow> bool" where
  "incident n k \<longleftrightarrow> part_from (decodeEdgeKey k) = Some n \<or> part_to (decodeEdgeKey k) = Some n"

text \<open>The prefix and infix tests of \<open>findAttachedData\<close> decide incidence, because ids have no separator.\<close>

lemma incident_prefix:
  assumes "split_on FIELD_SEPARATOR k = [f, t, l]" "no_sep n"
  shows "starts_with k (n @ [FIELD_SEPARATOR]) \<longleftrightarrow> f = n"
proof
  assume "starts_with k (n @ [FIELD_SEPARATOR])"
  then obtain r where "k = n @ FIELD_SEPARATOR # r" by (auto simp: starts_with_iff)
  then show "f = n" using assms by (simp add: js_simps)
next
  assume "f = n"
  then have "k = (n @ [FIELD_SEPARATOR]) @ t @ FIELD_SEPARATOR # l"
    using encode_decode_edge [OF assms(1)] by (simp add: encodeEdgeKey_def)
  then show "starts_with k (n @ [FIELD_SEPARATOR])" by (metis starts_with_append)
qed

lemma incident_infix:
  assumes "split_on FIELD_SEPARATOR k = [f, t, l]" "no_sep n"
  shows "str_includes k (FIELD_SEPARATOR # n @ [FIELD_SEPARATOR]) \<longleftrightarrow> t = n"
proof
  assume "str_includes k (FIELD_SEPARATOR # n @ [FIELD_SEPARATOR])"
  then obtain a b where "k = a @ FIELD_SEPARATOR # n @ FIELD_SEPARATOR # b"
    by (auto simp: includes_iff)
  then have "split_on FIELD_SEPARATOR k = split_on FIELD_SEPARATOR a @ n # split_on FIELD_SEPARATOR b"
    using assms(2) by (simp add: split_on_append_sep js_simps)
  with assms(1) have e: "[f, t, l] = split_on FIELD_SEPARATOR a @ n # split_on FIELD_SEPARATOR b" by simp
  obtain x xs y ys where ne: "split_on FIELD_SEPARATOR a = x # xs" "split_on FIELD_SEPARATOR b = y # ys"
    by (metis split_on_not_Nil neq_Nil_conv)
  show "t = n" using e unfolding ne by (cases xs) auto
next
  assume "t = n"
  then have "k = f @ (FIELD_SEPARATOR # n @ [FIELD_SEPARATOR]) @ l"
    using encode_decode_edge [OF assms(1)] by (simp add: encodeEdgeKey_def)
  then show "str_includes k (FIELD_SEPARATOR # n @ [FIELD_SEPARATOR])" by (auto simp: includes_iff)
qed

lemma attached_edges:
  assumes "\<And>k. orsetContains (edgeAlive st) k \<Longrightarrow> length (split_on FIELD_SEPARATOR k) = 3" "no_sep n"
  shows "set (at_edges (findAttachedData st n)) = {k. orsetContains (edgeAlive st) k \<and> incident n k}"
proof -
  have "starts_with k (n @ [FIELD_SEPARATOR]) \<or> str_includes k (FIELD_SEPARATOR # n @ [FIELD_SEPARATOR]) \<longleftrightarrow> incident n k"
    if alive: "orsetContains (edgeAlive st) k" for k
  proof -
    obtain f t l where s: "split_on FIELD_SEPARATOR k = [f, t, l]"
      by (rule split_length3 [of FIELD_SEPARATOR k]) (rule assms(1) [OF alive])
    show ?thesis
      unfolding incident_prefix [OF s assms(2)] incident_infix [OF s assms(2)]
      by (simp add: incident_def decodeEdgeKey_def s part_def)
  qed
  then show ?thesis by (auto simp: findAttachedData_def Let_def)
qed

definition cascade_op :: "warp_state \<Rightarrow> string \<Rightarrow> jsval" where
  "cascade_op st k =
     (let ps = split_on FIELD_SEPARATOR k
      in createEdgeRemoveV2 (js_part ps 0) (js_part ps 1) (js_part ps 2) (orsetGetDots (edgeAlive st) k))"

lemma each_cascade:
  "\<exists>b'. each_b (cascade_edge st) ks b = (b', Inr ()) \<and> b_ops b' = b_ops b @ map (cascade_op st) ks"
proof (induction ks arbitrary: b)
  case Nil
  then show ?case by (simp add: ret_b_def)
next
  case (Cons k ks)
  have "cascade_edge st k b =
      (b\<lparr>b_ops := b_ops b @ [cascade_op st k], b_observed := set_add (b_observed b) k\<rparr>, Inr ())"
    by (simp add: cascade_edge_def cascade_op_def Let_def bind_b_def push_op_def observe_b_def modify_b_def)
  then show ?case
    using Cons.IH [of "b\<lparr>b_ops := b_ops b @ [cascade_op st k], b_observed := set_add (b_observed b) k\<rparr>"]
    by (auto simp: bind_b_def)
qed

lemma removeNode_cascade:
  assumes "\<not> b_committed b" "\<not> b_committing b" "b_snapshot b = None" "b_onDelete b = CascadeDelete"
  shows "\<exists>b'. removeNode (Some st) n b = (b', Inr ()) \<and>
    b_ops b' = b_ops b @ map (cascade_op st) (at_edges (findAttachedData st n)) @
      [createNodeRemoveV2 n (orsetGetDots (nodeAlive st) n)]"
proof -
  let ?b = "b\<lparr>b_snapshot := Some (Some st)\<rparr>"
  obtain b' where b': "each_b (cascade_edge st) (at_edges (findAttachedData st n)) ?b = (b', Inr ())"
      "b_ops b' = b_ops b @ map (cascade_op st) (at_edges (findAttachedData st n))"
    using each_cascade [of st "at_edges (findAttachedData st n)" ?b] by auto
  show ?thesis
    using assms b'
    by (simp add: removeNode_def bind_b_def assertNotCommitted_def getSnapshotState_def deleteGuard_def
        gets_b_def Let_def push_op_def observe_b_def modify_b_def)
qed

text \<open>Replaying the built removal on the state it observed.\<close>

lemma cascade_effects:
  assumes "list_all2 (\<lambda>q ee. raw_effect q = Inr (snd ee))
      (map (cascade_op st) ks @ [createNodeRemoveV2 n ds]) log"
  shows "map snd log = map (\<lambda>k. TombEdges (orsetGetDots (edgeAlive st) k)) ks @ [TombNodes ds]"
  using assms
proof (induction ks arbitrary: log)
  case Nil
  then show ?case by (auto simp: list_all2_Cons1 raw_effect_created)
next
  case (Cons k ks)
  then show ?case
    by (auto simp: list_all2_Cons1 raw_effect_created cascade_op_def Let_def)
qed

lemma tombs_only:
  assumes "map snd log = map (\<lambda>k. TombEdges (D k)) ks @ [TombNodes ds]"
  shows "added log m = {}" "edge_added log k = {}" "removed log = set ds"
    "edge_removed log = (\<Union>k\<in>set ks. set (D k))"
proof -
  have s: "snd ` set log = (\<lambda>k. TombEdges (D k)) ` set ks \<union> {TombNodes ds}"
    using arg_cong [OF assms, of set] by simp
  have m: "(\<exists>e. (e, x) \<in> set log) \<longleftrightarrow> x \<in> (\<lambda>k. TombEdges (D k)) ` set ks \<union> {TombNodes ds}" for x
    unfolding s [symmetric] by force
  show "added log m = {}" "edge_added log k = {}" unfolding added_def edge_added_def m by auto
  have "removed log = {d. \<exists>xs. (\<exists>e. (e, TombNodes xs) \<in> set log) \<and> d \<in> set xs}"
    unfolding removed_def by blast
  then show "removed log = set ds" unfolding m by auto
  have "edge_removed log = {d. \<exists>xs. (\<exists>e. (e, TombEdges xs) \<in> set log) \<and> d \<in> set xs}"
    unfolding edge_removed_def by blast
  then show "edge_removed log = (\<Union>k\<in>set ks. set (D k))" unfolding m by auto
qed

lemma tomb_live_dots:
  assumes "orset_tombs s' = orset_tombs s \<union> (\<Union>k\<in>K. orset_dots s k - orset_tombs s)"
    and "\<And>k. orset_dots s' k = orset_dots s k" "dots_unique s"
  shows "orsetContains s' k \<longleftrightarrow> orsetContains s k \<and> k \<notin> K"
  using assms(3) unfolding orsetContains_iff assms(1,2) dots_unique_def by blast

lemma cascade_replay:
  assumes "applyFast st p sha = Inr st'"
    and "patch_ops p = map lowerCanonicalOp (map (cascade_op st) (at_edges (findAttachedData st n)) @
          [createNodeRemoveV2 n (orsetGetDots (nodeAlive st) n)])"
    and "\<And>k. orsetContains (edgeAlive st) k \<Longrightarrow> length (split_on FIELD_SEPARATOR k) = 3" "no_sep n"
    and "membership_unique st"
  shows "orsetContains (nodeAlive st') m \<longleftrightarrow> orsetContains (nodeAlive st) m \<and> m \<noteq> n"
    and "orsetContains (edgeAlive st') k \<longleftrightarrow> orsetContains (edgeAlive st) k \<and> \<not> incident n k"
proof -
  let ?ks = "at_edges (findAttachedData st n)"
  have low: "lowerCanonicalOp (cascade_op st k) = cascade_op st k" for k
    by (simp add: cascade_op_def Let_def)
  obtain log f where log: "patch_log p sha = Inr log" and st': "st' = (run_all st log)\<lparr>observedFrontier := f\<rparr>"
    using assms(1) by (auto simp: applyFast_log bind_r_Inr_iff)
  have "map snd log = map (\<lambda>k. TombEdges (orsetGetDots (edgeAlive st) k)) ?ks @ [TombNodes (orsetGetDots (nodeAlive st) n)]"
    using built_effects [OF log] by (intro cascade_effects) (simp add: assms(2) low comp_def)
  note t = tombs_only [OF this]
  have u: "dots_unique (nodeAlive st)" "dots_unique (edgeAlive st)"
    using assms(5) by (simp_all add: membership_unique_def)
  have "orsetContains (nodeAlive st') m \<longleftrightarrow> orsetContains (nodeAlive st) m \<and> m \<notin> {n}"
    by (rule tomb_live_dots [OF _ _ u(1)]) (simp_all add: st' run_all_nodes t orsetGetDots_set)
  then show "orsetContains (nodeAlive st') m \<longleftrightarrow> orsetContains (nodeAlive st) m \<and> m \<noteq> n" by simp
  have "orsetContains (edgeAlive st') k \<longleftrightarrow> orsetContains (edgeAlive st) k \<and> k \<notin> set ?ks"
    by (rule tomb_live_dots [OF _ _ u(2)]) (simp_all add: st' run_all_edges t orsetGetDots_set)
  then show "orsetContains (edgeAlive st') k \<longleftrightarrow> orsetContains (edgeAlive st) k \<and> \<not> incident n k"
    using attached_edges [of st n, OF assms(3,4)] by auto
qed

end
