(* ===== verification/Replicas.thy ===== *)
theory Replicas
  imports BuiltPatches
begin

text \<open>
  Replicas that replay sets of committed patches: a patch is identified by its commit SHA, so every
  event id of a set of patches belongs to one operation, and the hypotheses of the convergence
  lemmas hold without any further assumption on what the patches write. The last section follows the
  canonical projection of two replicas to the hash that the program compares.
\<close>

section \<open>Patches identified by their SHA\<close>

definition sha_determines :: "(patch \<times> string) list \<Rightarrow> bool" where
  "sha_determines ps \<longleftrightarrow> (\<forall>x\<in>set ps. \<forall>y\<in>set ps. snd x = snd y \<longrightarrow> x = y)"

definition applicable :: "patch \<times> string \<Rightarrow> bool" where
  "applicable x \<longleftrightarrow> context_wf (fst x) \<and> is_ok (applyFast createEmptyStateV5 (fst x) (snd x))"

lemma op_entry_event:
  assumes "op_entry p sha (i, q) = Inr (e, eff)"
  shows "ev_patchSha e = sha" "ev_opIndex e = int i" "ev_lamport e = patch_lamport p" "ev_writerId e = patch_writer p"
  using assms by (auto simp: op_entry_def bind_r_Inr_iff op_event_def createEventId_ok)

lemma entry_log_nth:
  assumes "(e, eff) \<in> set (entry_log x)"
  obtains i log where "patch_log (fst x) (snd x) = Inr log" "i < length log" "log ! i = (e, eff)"
    "ev_patchSha e = snd x" "ev_opIndex e = int i"
proof -
  obtain log where log: "patch_log (fst x) (snd x) = Inr log" "(e, eff) \<in> set log"
    using assms by (cases "patch_log (fst x) (snd x)") (auto simp: entry_log_def)
  then obtain i where i: "i < length log" "log ! i = (e, eff)" by (auto simp: in_set_conv_nth)
  have "list_all2 (\<lambda>iop ee. op_entry (fst x) (snd x) iop = Inr ee) (List.enumerate 0 (patch_ops (fst x))) log"
    using log(1) by (simp add: patch_log_def map_r_Inr_iff)
  then have "op_entry (fst x) (snd x) (i, patch_ops (fst x) ! i) = Inr (e, eff)"
    using i by (auto simp: list_all2_conv_all_nth nth_enumerate_eq dest!: spec [of _ i])
  from op_entry_event(1,2) [OF this] that [OF log(1) i] show ?thesis by simp
qed

lemma events_unique:
  assumes "sha_determines ps" "(e, eff) \<in> set (full_log ps)" "(e, eff') \<in> set (full_log ps)"
  shows "eff = eff'"
proof -
  from assms(2) obtain x where x: "x \<in> set ps" "(e, eff) \<in> set (entry_log x)" by (auto simp: full_log_def)
  from assms(3) obtain y where y: "y \<in> set ps" "(e, eff') \<in> set (entry_log y)" by (auto simp: full_log_def)
  obtain i l where i: "patch_log (fst x) (snd x) = Inr l" "l ! i = (e, eff)" "ev_patchSha e = snd x" "ev_opIndex e = int i"
    using entry_log_nth [OF x(2)] by metis
  obtain j l' where j: "patch_log (fst y) (snd y) = Inr l'" "l' ! j = (e, eff')" "ev_patchSha e = snd y" "ev_opIndex e = int j"
    using entry_log_nth [OF y(2)] by metis
  have "snd x = snd y" using i(3) j(3) by simp
  then have "x = y" using assms(1) x(1) y(1) unfolding sha_determines_def by blast
  then show ?thesis using i j by auto
qed

lemma admitted_from_shas:
  assumes "sha_determines ps" "\<forall>x\<in>set ps. applicable x"
  shows "\<exists>wr. \<forall>x\<in>set ps. admitted wr x"
proof -
  define wr where "wr = (\<lambda>(k :: string) e. SOME v. \<exists>k. (e, WriteProp k v) \<in> set (full_log ps))"
  have wr: "wr k e = v" if w: "(e, WriteProp k' v) \<in> set (full_log ps)" for k e k' v
  proof -
    have "\<exists>k. (e, WriteProp k (wr k'' e)) \<in> set (full_log ps)" for k'' :: string
      unfolding wr_def using w by (intro someI_ex [of "\<lambda>v. \<exists>k. (e, WriteProp k v) \<in> set (full_log ps)"]) blast
    then obtain k1 where "(e, WriteProp k1 (wr k e)) \<in> set (full_log ps)" by blast
    from events_unique [OF assms(1) this w] show ?thesis by simp
  qed
  have "admitted wr x" if x: "x \<in> set ps" for x
  proof -
    have "list_all (writes_as wr) log" if "patch_log (fst x) (snd x) = Inr log" for log
    proof -
      have "set log \<subseteq> set (full_log ps)" using that x by (auto simp: full_log_def entry_log_def)
      then show ?thesis
        using wr by (auto simp: list_all_iff writes_as_def split: op_effect.split)
    qed
    then show ?thesis using assms(2) x by (simp add: admitted_def applicable_def)
  qed
  then show ?thesis by blast
qed

lemma sha_determines_subset: "sha_determines ps \<Longrightarrow> set qs \<subseteq> set ps \<Longrightarrow> sha_determines qs"
  by (auto simp: sha_determines_def)

section \<open>Convergence\<close>

lemma replicas_agree:
  assumes "sha_determines ps" "\<forall>x\<in>set ps. applicable x" "set ps = set qs"
  obtains s t where "fold_r apply_entry createEmptyStateV5 ps = Inr s" "fold_r apply_entry createEmptyStateV5 qs = Inr t"
    "state_abs s = state_abs t" "state_wf s" "state_wf t"
proof -
  obtain wr where wr: "\<forall>x\<in>set ps. admitted wr x" using admitted_from_shas [OF assms(1,2)] by blast
  obtain s t where st: "fold_r apply_entry createEmptyStateV5 ps = Inr s"
      "fold_r apply_entry createEmptyStateV5 qs = Inr t" "state_abs s = state_abs t"
    using patches.deliveries_agree [OF createEmptyStateV5_from wr assms(3)] by blast
  have "state_from wr s" "state_from wr t"
    using patches.app_is_merge [OF createEmptyStateV5_from wr] patches.app_is_merge [OF createEmptyStateV5_from, of qs wr]
      wr assms(3) st(1,2) by auto
  then show ?thesis using that st by (simp add: state_from_def)
qed

lemma replicas_join:
  assumes "sha_determines (ps @ qs)" "\<forall>x\<in>set (ps @ qs). applicable x"
  obtains s t u where "fold_r apply_entry createEmptyStateV5 ps = Inr s" "fold_r apply_entry createEmptyStateV5 qs = Inr t"
    "fold_r apply_entry createEmptyStateV5 (ps @ qs) = Inr u" "state_abs u = state_abs (joinStates s t)"
proof -
  obtain wr where wr: "\<forall>x\<in>set (ps @ qs). admitted wr x" using admitted_from_shas [OF assms] by blast
  then have w: "\<forall>x\<in>set ps. admitted wr x" "\<forall>x\<in>set qs. admitted wr x" by auto
  obtain s where s: "fold_r apply_entry createEmptyStateV5 ps = Inr s"
    using patches.app_is_merge [OF createEmptyStateV5_from w(1)] by blast
  obtain t where t: "fold_r apply_entry createEmptyStateV5 qs = Inr t"
    using patches.app_is_merge [OF createEmptyStateV5_from w(2)] by blast
  show ?thesis using patches.join_of_replays [OF w s t] that [OF s t] by blast
qed

section \<open>The hash that replicas compare\<close>

text \<open>The keys that the effects of well-formed operations write.\<close>

fun effect_keyed :: "op_effect \<Rightarrow> bool" where
  "effect_keyed (AddNode n d) = no_prefix n"
| "effect_keyed (AddEdge k d) = (length (split_on FIELD_SEPARATOR k) = 3)"
| "effect_keyed (WriteProp k v) = (isEdgePropKey k \<or> length (split_on FIELD_SEPARATOR k) = 2)"
| "effect_keyed _ = True"

lemma keyed_log_wellkeyed:
  assumes "\<forall>ee\<in>set log. effect_keyed (snd ee)"
  shows "wellkeyed ((run_all createEmptyStateV5 log)\<lparr>observedFrontier := f\<rparr>)"
proof -
  have k: "effect_keyed eff" if "(e, eff) \<in> set log" for e eff
    using assms that by force
  have edges: "length (split_on FIELD_SEPARATOR k) = 3" if "edge_added log k - edge_removed log \<noteq> {}" for k
    using that k by (force simp: edge_added_def)
  have nodes: "no_prefix n" if "added log n - removed log \<noteq> {}" for n
    using that k by (force simp: added_def)
  have props: "isEdgePropKey k \<or> length (split_on FIELD_SEPARATOR k) = 2"
    if "map_of (propMap (run_all createEmptyStateV5 log)) k = Some r" for k r
  proof -
    have "(reg_eventId r, reg_value r) \<in> writes_to log k"
      using run_all_winner [of log k] that by (simp add: winner_def)
    then show ?thesis using k by (force simp: writes_to_def)
  qed
  show ?thesis
    unfolding wellkeyed_def using edges nodes props by (simp add: run_all_contains)
qed

definition built_op :: "jsval \<Rightarrow> bool" where
  "built_op q \<longleftrightarrow> (\<exists>c. op_clean c \<and> q = lowerCanonicalOp c)"

lemma op_means_keyed:
  assumes "op_clean c" "op_means c eff"
  shows "effect_keyed eff"
  using assms(2,1)
proof (cases rule: op_means.cases)
  case (1 n d)
  then show ?thesis
    using assms(1) by (auto simp: clean_id_def op_creators elim!: op_clean.cases)
next
  case (3 f t l d)
  then show ?thesis
    using assms(1) by (auto simp: clean_id_def op_creators split_edge_key elim!: op_clean.cases)
next
  case (5 n k v)
  then show ?thesis
    using assms(1) by (auto simp: clean_id_def op_creators encodePropKey_def js_simps elim!: op_clean.cases)
qed simp_all

lemma built_op_keyed:
  assumes "built_op q" "raw_effect q = Inr eff"
  shows "effect_keyed eff"
proof -
  obtain c where c: "op_clean c" "q = lowerCanonicalOp c" using assms(1) by (auto simp: built_op_def)
  from op_clean_effect [OF c(1)] assms(2) c(2) have "op_means c eff" by (auto split: if_splits)
  with c(1) show ?thesis by (rule op_means_keyed)
qed

lemma entry_log_keyed:
  assumes "\<forall>q\<in>set (patch_ops (fst x)). built_op q" "ee \<in> set (entry_log x)"
  shows "effect_keyed (snd ee)"
proof -
  obtain log where log: "patch_log (fst x) (snd x) = Inr log" "ee \<in> set log"
    using assms(2) by (cases "patch_log (fst x) (snd x)") (auto simp: entry_log_def)
  obtain q where "q \<in> set (patch_ops (fst x))" "raw_effect q = Inr (snd ee)"
    using built_effects [OF log(1)] log(2) by (force simp: list_all2_conv_all_nth in_set_conv_nth)
  with assms(1) show ?thesis using built_op_keyed by blast
qed

lemma replay_wellkeyed:
  assumes "fold_r apply_entry createEmptyStateV5 ps = Inr s"
    and "\<forall>x\<in>set ps. \<forall>q\<in>set (patch_ops (fst x)). built_op q"
  shows "wellkeyed s"
proof -
  have "\<forall>ee\<in>set (full_log ps). effect_keyed (snd ee)"
    using assms(2) entry_log_keyed unfolding full_log_def by auto
  from keyed_log_wellkeyed [OF this] replay_Inr [OF assms(1)] show ?thesis by simp
qed

lemma projection_agrees:
  assumes "state_wf a" "state_wf b" "state_abs a = state_abs b" "wellkeyed a"
  shows "computeStateHashV5 sha256 encode a = computeStateHashV5 sha256 encode b"
  unfolding computeStateHashV5_def serializeStateV5_def visible_projection_canonical [OF assms] ..

lemma built_ops_of:
  assumes "ops_inv b" "build_at l b = Inr p"
  shows "\<forall>q\<in>set (patch_ops p). built_op q"
proof -
  have "patch_ops p = map lowerCanonicalOp (b_ops b)" using assms(2) by (auto simp: build_at_ok)
  moreover have "\<forall>c\<in>set (b_ops b). op_clean c" using assms(1) by (simp add: ops_inv_def list_all_iff)
  ultimately show ?thesis unfolding built_op_def by (metis image_iff list.set_map)
qed

end
