(* ===== verification/Demo.thy ===== *)
theory Demo
  imports Replicas
begin

text \<open>
  Concrete inputs on which the properties are evaluated: patches of three writers, and a builder
  committed to an empty store with constant hashes.
\<close>

section \<open>Concrete inputs\<close>

text \<open>Two patches of two writers: the second saw the first, links to its node and overwrites its property.\<close>

definition alice_patch :: "patch \<times> string" where
  "alice_patch = (createPatchV2 2 ''alice'' 1 (CtxObj [])
     [createNodeAddV2 ''n'' (Dot ''alice'' 1), createPropSetV2 (JStr ''n'') (JStr ''k'') (JNum 1)] [] [], ''aaaa'')"

definition bob_patch :: "patch \<times> string" where
  "bob_patch = (createPatchV2 2 ''bob'' 2 (CtxObj [(''alice'', JNum 1)])
     [createNodeAddV2 ''m'' (Dot ''bob'' 1), createEdgeAddV2 ''n'' ''m'' ''l'' (Dot ''bob'' 2),
      createPropSetV2 (JStr ''n'') (JStr ''k'') (JNum 2)] [] [], ''bbbb'')"

text \<open>A third one that removes the first node and one that removes and re-adds it.\<close>

definition carol_patch :: "patch \<times> string" where
  "carol_patch = (createPatchV2 2 ''carol'' 3 (CtxObj [(''alice'', JNum 1)])
     [createNodeRemoveV2 ''n'' [''alice:1''], createNodeAddV2 ''n'' (Dot ''carol'' 1)] [] [], ''cccc'')"

lemma patches_apply:
  "is_ok (applyFast createEmptyStateV5 (fst alice_patch) (snd alice_patch))"
  "is_ok (applyFast createEmptyStateV5 (fst bob_patch) (snd bob_patch))"
  by code_simp+

lemma patches_applicable: "applicable alice_patch" "applicable bob_patch"
  using patches_apply
  by (simp_all add: applicable_def context_wf_def alice_patch_def bob_patch_def)

lemma patches_determined: "sha_determines [alice_patch, bob_patch]"
  by (simp add: sha_determines_def alice_patch_def bob_patch_def)

lemma patches_built:
  "\<forall>x\<in>set [alice_patch, bob_patch]. \<forall>q\<in>set (patch_ops (fst x)). built_op q"
proof -
  have p: "built_op (createPropSetV2 (JStr ''n'') (JStr ''k'') v)" for v
    unfolding built_op_def
    by (intro exI [of _ "createNodePropSetV2 (JStr ''n'') (JStr ''k'') v"] conjI op_clean.intros)
      (simp_all add: lowerCanonicalOp_def op_creators clean_id_def no_prefix_def FIELD_SEPARATOR_def EDGE_PROP_PREFIX_def)
  have n: "built_op (createNodeAddV2 x d)" if "x \<in> {''n'', ''m''}" "dot_valid d" for x d
    unfolding built_op_def using that
    by (intro exI [of _ "createNodeAddV2 x d"] conjI op_clean.intros)
      (auto simp: clean_id_def no_prefix_def FIELD_SEPARATOR_def EDGE_PROP_PREFIX_def)
  have e: "built_op (createEdgeAddV2 ''n'' ''m'' ''l'' d)" if "dot_valid d" for d
    unfolding built_op_def using that
    by (intro exI [of _ "createEdgeAddV2 ''n'' ''m'' ''l'' d"] conjI op_clean.intros)
      (auto simp: clean_id_def no_prefix_def FIELD_SEPARATOR_def EDGE_PROP_PREFIX_def)
  show ?thesis
    by (auto simp: alice_patch_def bob_patch_def p dot_valid_def intro!: n e)
qed

section \<open>A commit\<close>

text \<open>A small environment, and builders of one writer.\<close>

definition demo_oid :: string where "demo_oid = replicate 40 CHR ''a''"

definition demo_env :: environment where
  "demo_env = \<lparr>env_hash = (\<lambda>bytes. demo_oid), env_author = ''me'', env_date = ''now'',
     env_encode = (\<lambda>p. replicate (length (patch_ops p)) 0), env_encodeMsg = (\<lambda>title ts. title),
     env_decodeMsg = (\<lambda>m. Inl MsgCodec)\<rparr>"

lemma demo_hashes [simp]:
  "hashBlob (\<lambda>bytes. demo_oid) c = demo_oid" "hashTree (\<lambda>bytes. demo_oid) es = demo_oid"
  "hashCommit (\<lambda>bytes. demo_oid) ci = demo_oid"
  by (simp_all add: hashBlob_def hashTree_def hashCommit_def Let_def)

lemma demo_oid_valid: "oid_ok demo_oid" "validateOid demo_oid field = Inr ()"
  "split_on (CHR '' '') demo_oid = [demo_oid]" "split_first (CHR 0x09) demo_oid = None"
  by code_simp+

definition demo_builder :: "builder_call list \<Rightarrow> builder" where
  "demo_builder cs = run_calls cs (createPatchBuilder ''g'' ''alice'' 1 [] None CascadeDelete)"

definition one_call :: "builder_call list" where "one_call = [AddNode_call (JStr ''n'')]"

definition two_calls :: "builder_call list" where
  "two_calls = [AddNode_call (JStr ''n''), SetProperty_call (JStr ''n'') (JStr ''k'') (JNum 1)]"

definition demo_ref :: string where "demo_ref = ''refs/warp/g/writers/alice''"

lemma demo_ref_valid: "buildWriterRef ''g'' ''alice'' = Inr demo_ref" "ref_ok demo_ref"
  "validateGraphName (JStr ''g'') = Inr ()" "validateWriterId (JStr ''alice'') = Inr ()"
  by code_simp+

lemma demo_builder_fields:
  "b_graphName (demo_builder one_call) = ''g''" "b_writerId (demo_builder one_call) = ''alice''"
  "b_ops (demo_builder one_call) = [createNodeAddV2 ''n'' (Dot ''alice'' 1)]"
  "\<not> b_committed (demo_builder one_call)" "\<not> b_committing (demo_builder one_call)"
  "b_expectedParentSha (demo_builder one_call) = None" "b_lamport (demo_builder one_call) = 1"
  "b_vv (demo_builder one_call) = [(''alice'', 1)]" "b_contentBlobs (demo_builder one_call) = []"
  by code_simp+

lemma demo_plan:
  "commit_begin demo_env empty_store (demo_builder one_call) =
     ((demo_builder one_call)\<lparr>b_committing := True\<rparr>,
      Inr \<lparr>plan_ref = demo_ref, plan_parent = None, plan_lamport = 1\<rparr>)"
  by (simp add: commit_begin_def plan_commit_def demo_builder_fields demo_ref_valid readRef_def
      validateRef_def ref_value_def empty_store_def)

lemma demo_tree:
  "map_r parse_mktree (tree_lines demo_oid []) =
     Inr [\<lparr>te_mode = ''100644'', te_path = ''patch.cbor'', te_oid = demo_oid\<rparr>]"
  by code_simp

lemma demo_build: "is_ok (build_at 1 (demo_builder one_call))"
  by code_simp

lemma build_schema_positive: "build_at l b = Inr p \<Longrightarrow> 1 \<le> int (patch_schema p)"
  by (auto simp: build_at_ok)

text \<open>The objects of a commit with this environment are always written, under the one object id.\<close>

lemma demo_write:
  assumes "build_at 1 b = Inr p" "b_graphName b = ''g''" "b_writerId b = ''alice''" "b_contentBlobs b = []"
  shows "\<exists>s'. write_commit demo_env s b \<lparr>plan_ref = r, plan_parent = None, plan_lamport = 1\<rparr> = (s', Inr (p, demo_oid))"
  using assms build_schema_positive [OF assms(1)]
  by (auto simp: write_commit_def demo_env_def writeBlob_def writeTree_def demo_tree put_tree_def
      encodePatchMessage_def validatePositiveInteger_def validateSchema_def demo_ref_valid demo_oid_valid
      commitNodeWithTree_def validate_parents_def adapter_validateOid_def put_commit_def Let_def)

lemma demo_committed:
  obtains s b where "commit demo_env empty_store (demo_builder one_call) = (s, b, Inr demo_oid)"
proof -
  let ?b = "(demo_builder one_call)\<lparr>b_committing := True\<rparr>"
  obtain p where p: "build_at 1 ?b = Inr p" using demo_build by (auto simp: is_ok_iff)
  obtain s where "write_commit demo_env empty_store ?b \<lparr>plan_ref = demo_ref, plan_parent = None, plan_lamport = 1\<rparr> =
      (s, Inr (p, demo_oid))"
    using demo_write [OF p, of empty_store demo_ref] by (auto simp: demo_builder_fields)
  then have "commit demo_env empty_store (demo_builder one_call) =
      (set_ref s demo_ref demo_oid, ?b\<lparr>b_committed := True, b_committing := False\<rparr>, Inr demo_oid)"
    by (simp add: commit_def demo_plan commit_objects_def commit_publish_def updateRef_def validateRef_def
        adapter_validateOid_def demo_oid_valid demo_ref_valid)
  then show ?thesis by (rule that)
qed

end
