(* ===== verification/PatchChains.thy ===== *)
theory PatchChains
  imports Replicas Frontier
begin

text \<open>
  How committed patches are read back: \<open>loadPatchFromCommit\<close> and \<open>loadPatchRange\<close> of
  \<open>src/domain/services/SyncProtocol.js\<close>, and \<open>discoverWriters\<close>, \<open>_nextLamport\<close>,
  \<open>_loadWriterPatches\<close> and \<open>_readPatchBlob\<close> of \<open>src/domain/warp/patch.methods.js\<close>. A walk follows
  first parents in a store that it does not control, so it may not end: such a run is \<open>None\<close>. The
  relation \<open>patch_chain\<close> says what a writer's chain is, and the loops return exactly it.
\<close>

section \<open>Results that may not return\<close>

fun bind_o :: "('e + 'a) option \<Rightarrow> ('a \<Rightarrow> ('e + 'b) option) \<Rightarrow> ('e + 'b) option" where
  "bind_o None f = None"
| "bind_o (Some (Inl e)) f = Some (Inl e)"
| "bind_o (Some (Inr x)) f = f x"

fun fold_o :: "('s \<Rightarrow> 'a \<Rightarrow> ('e + 's) option) \<Rightarrow> 's \<Rightarrow> 'a list \<Rightarrow> ('e + 's) option" where
  "fold_o f s [] = Some (Inr s)"
| "fold_o f s (x # xs) = bind_o (f s x) (\<lambda>s'. fold_o f s' xs)"

lemma bind_o_assoc: "bind_o (bind_o r f) g = bind_o r (\<lambda>x. bind_o (f x) g)"
  by (cases "(r, f)" rule: bind_o.cases) auto

lemma fold_o_append: "fold_o f s (xs @ ys) = bind_o (fold_o f s xs) (\<lambda>s'. fold_o f s' ys)"
  by (induction xs arbitrary: s) (simp_all add: bind_o_assoc)

section \<open>Reading one patch\<close>

datatype load_error =
    LoadStore js_error
  | LoadMessage msg_error
  | PatchEncrypted
  | PatchUndecodable
  | BadTipMessage string

fun of_store :: "'a result \<Rightarrow> load_error + 'a" where
  "of_store (Inl e) = Inl (LoadStore e)"
| "of_store (Inr x) = Inr x"

fun of_message :: "'a msg_result \<Rightarrow> load_error + 'a" where
  "of_message (Inl e) = Inl (LoadMessage e)"
| "of_message (Inr x) = Inr x"

lemma of_store_Inr [simp]: "of_store r = Inr x \<longleftrightarrow> r = Inr x"
  by (cases r) auto

lemma of_message_Inr [simp]: "of_message r = Inr x \<longleftrightarrow> r = Inr x"
  by (cases r) auto

text \<open>The trailer codec and the CBOR codec, which throws on bytes that are no patch.\<close>

record patch_reader =
  rd_message :: "string \<Rightarrow> trailers msg_result"
  rd_patch :: "bytes \<Rightarrow> patch option"

type_synonym entry = "patch \<times> string"

text \<open>Without a blob storage an encrypted patch cannot be read.\<close>

definition readPatchBlob :: "git_store \<Rightarrow> patch_message \<Rightarrow> load_error + bytes" where
  "readPatchBlob s meta = (if pm_encrypted meta then Inl PatchEncrypted else of_store (readBlob s (pm_patchOid meta)))"

definition decode_patch :: "patch_reader \<Rightarrow> bytes \<Rightarrow> load_error + patch" where
  "decode_patch rd buf = (case rd_patch rd buf of None \<Rightarrow> Inl PatchUndecodable | Some p \<Rightarrow> Inr p)"

definition normalizePatch :: "patch \<Rightarrow> patch result" where
  "normalizePatch p =
     (case patch_context p of
        CtxMap _ \<Rightarrow> Inr p
      | CtxObj obj \<Rightarrow> bind_r (vvDeserialize obj) (\<lambda>vv. Inr (p\<lparr>patch_context := CtxMap vv\<rparr>)))"

definition loadPatchFromCommit :: "patch_reader \<Rightarrow> git_store \<Rightarrow> string \<Rightarrow> load_error + patch" where
  "loadPatchFromCommit rd s sha =
     bind_r (of_store (showNode s sha)) (\<lambda>message.
       bind_r (of_message (decodePatchMessage (rd_message rd) message)) (\<lambda>decoded.
         bind_r (readPatchBlob s decoded) (\<lambda>patchBuffer.
           bind_r (decode_patch rd patchBuffer) (\<lambda>p. of_store (normalizePatch p)))))"

definition first_parent :: "commit_info \<Rightarrow> string option" where
  "first_parent ci = (case ci_parents ci of [] \<Rightarrow> None | p # _ \<Rightarrow> Some p)"

section \<open>Loading a range\<close>

text \<open>
  The loop of \<open>loadPatchRange\<close>: it stops at \<open>null\<close>, at an empty id and at \<open>fromSha\<close>, and returns
  where it stopped with the patches, oldest first.
\<close>

partial_function (option) load_range ::
  "patch_reader \<Rightarrow> git_store \<Rightarrow> string option \<Rightarrow> string option \<Rightarrow> entry list \<Rightarrow>
   (load_error + string option \<times> entry list) option" where
  "load_range rd s fromSha cur patches =
     (if cur = None \<or> cur = Some [] \<or> cur = fromSha then Some (Inr (cur, patches))
      else (case of_store (getNodeInfo s (the cur)) of
              Inl e \<Rightarrow> Some (Inl e)
            | Inr commitInfo \<Rightarrow>
                (case loadPatchFromCommit rd s (the cur) of
                   Inl e \<Rightarrow> Some (Inl e)
                 | Inr p \<Rightarrow> load_range rd s fromSha (first_parent commitInfo) ((p, the cur) # patches))))"

declare load_range.simps [code]

datatype sync_error =
    SyncLoad load_error
  | SyncDivergence string string string
  | SyncUnknownOp string
  | SyncSchema
  | SyncApply js_error

definition loadPatchRange ::
  "patch_reader \<Rightarrow> git_store \<Rightarrow> string \<Rightarrow> string option \<Rightarrow> string \<Rightarrow> (sync_error + entry list) option" where
  "loadPatchRange rd s writerId fromSha toSha =
     (case load_range rd s fromSha (Some toSha) [] of
        None \<Rightarrow> None
      | Some (Inl e) \<Rightarrow> Some (Inl (SyncLoad e))
      | Some (Inr (cur, patches)) \<Rightarrow>
          (case fromSha of
             Some f \<Rightarrow> if f \<noteq> [] \<and> cur = None then Some (Inl (SyncDivergence writerId f toSha)) else Some (Inr patches)
           | None \<Rightarrow> Some (Inr patches)))"

section \<open>Loading the chain of a writer\<close>

text \<open>One commit of the walk: a commit of another kind, or one without parent, ends it.\<close>

partial_function (option) load_writer ::
  "patch_reader \<Rightarrow> git_store \<Rightarrow> string option \<Rightarrow> string \<Rightarrow> entry list \<Rightarrow> (load_error + entry list) option" where
  "load_writer rd s stopAtSha cur patches =
     (if cur = [] \<or> Some cur = stopAtSha then Some (Inr patches)
      else (case of_store (getNodeInfo s cur) of
              Inl e \<Rightarrow> Some (Inl e)
            | Inr nodeInfo \<Rightarrow>
                if detectMessageKind (rd_message rd) (ci_message nodeInfo) \<noteq> Some ''patch'' then Some (Inr patches)
                else (case bind_r (of_message (decodePatchMessage (rd_message rd) (ci_message nodeInfo))) (\<lambda>patchMeta.
                             bind_r (readPatchBlob s patchMeta) (decode_patch rd)) of
                        Inl e \<Rightarrow> Some (Inl e)
                      | Inr p \<Rightarrow>
                          (case first_parent nodeInfo of
                             None \<Rightarrow> Some (Inr (patches @ [(p, cur)]))
                           | Some parent \<Rightarrow> load_writer rd s stopAtSha parent (patches @ [(p, cur)])))))"

declare load_writer.simps [code]

definition loadWriterPatches ::
  "patch_reader \<Rightarrow> git_store \<Rightarrow> string \<Rightarrow> string \<Rightarrow> string option \<Rightarrow> (load_error + entry list) option" where
  "loadWriterPatches rd s graphName writerId stopAtSha =
     (case of_store (bind_r (buildWriterRef graphName writerId) (readRef s)) of
        Inl e \<Rightarrow> Some (Inl e)
      | Inr None \<Rightarrow> Some (Inr [])
      | Inr (Some tipSha) \<Rightarrow> bind_o (load_writer rd s stopAtSha tipSha []) (\<lambda>ps. Some (Inr (rev ps))))"

definition getWriterPatches ::
  "patch_reader \<Rightarrow> git_store \<Rightarrow> string \<Rightarrow> string \<Rightarrow> string option \<Rightarrow> (load_error + entry list) option" where
  "getWriterPatches rd s graphName writerId stopAtSha = loadWriterPatches rd s graphName writerId stopAtSha"

section \<open>Writers and frontiers\<close>

definition discoverWriters :: "git_store \<Rightarrow> string \<Rightarrow> string list result" where
  "discoverWriters s graphName =
     bind_r (buildWritersPrefix graphName) (\<lambda>prefix.
       bind_r (listRefs s prefix None) (\<lambda>refs.
         Inr (sort (List.map_filter (\<lambda>refPath. parseWriterIdFromRef (JStr refPath)) refs))))"

definition frontier_step :: "git_store \<Rightarrow> string \<Rightarrow> frontier \<Rightarrow> string \<Rightarrow> frontier result" where
  "frontier_step s graphName fr writerId =
     bind_r (buildWriterRef graphName writerId) (\<lambda>writerRef.
       bind_r (readRef s writerRef) (\<lambda>tipSha.
         Inr (case tipSha of None \<Rightarrow> fr | Some sha \<Rightarrow> updateFrontier fr writerId sha)))"

definition getFrontier :: "git_store \<Rightarrow> string \<Rightarrow> frontier result" where
  "getFrontier s graphName =
     bind_r (discoverWriters s graphName) (\<lambda>writerIds.
       fold_r (frontier_step s graphName) createFrontier writerIds)"

definition nextLamport :: "(string \<Rightarrow> trailers msg_result) \<Rightarrow> git_store \<Rightarrow> string \<Rightarrow> string \<Rightarrow> int \<Rightarrow> load_error + int \<times> string option" where
  "nextLamport decode_msg s graphName writerId maxObservedLamport =
     bind_r (of_store (bind_r (buildWriterRef graphName writerId) (readRef s))) (\<lambda>currentRefSha.
       bind_r (case currentRefSha of
                 None \<Rightarrow> Inr 0
               | Some tip \<Rightarrow>
                   bind_r (of_store (showNode s tip)) (\<lambda>commitMessage.
                     if detectMessageKind decode_msg commitMessage = Some ''patch'' then
                       (case decodePatchMessage decode_msg commitMessage of
                          Inl _ \<Rightarrow> Inl (BadTipMessage tip)
                        | Inr patchInfo \<Rightarrow> Inr (pm_lamport patchInfo))
                     else Inr 0)) (\<lambda>ownTick.
         Inr (max ownTick maxObservedLamport + 1, currentRefSha)))"


section \<open>Chains\<close>

text \<open>
  The commits from \<open>base\<close> (excluded) to \<open>tip\<close> (included), along first parents, oldest first. All are
  patch commits that can be read, and none is the base.
\<close>

inductive patch_chain :: "patch_reader \<Rightarrow> git_store \<Rightarrow> string option \<Rightarrow> string option \<Rightarrow> entry list \<Rightarrow> bool"
  for rd s base where
  chain_base: "patch_chain rd s base base []"
| chain_commit: "patch_chain rd s base (first_parent ci) ps \<Longrightarrow> getNodeInfo s c = Inr ci \<Longrightarrow> Some c \<noteq> base \<Longrightarrow> c \<noteq> [] \<Longrightarrow>
    loadPatchFromCommit rd s c = Inr p \<Longrightarrow> patch_chain rd s base (Some c) (ps @ [(p, c)])"

inductive_cases patch_chain_emptyE: "patch_chain rd s base tip []"
inductive_cases patch_chain_snocE: "patch_chain rd s base tip (ps @ [x])"

lemma patch_chain_end: "patch_chain rd s base tip ps \<Longrightarrow> tip = (if ps = [] then base else Some (snd (last ps)))"
  by (induction rule: patch_chain.induct) auto

lemma patch_chain_fun: "patch_chain rd s base tip ps \<Longrightarrow> patch_chain rd s base tip qs \<Longrightarrow> ps = qs"
proof (induction arbitrary: qs rule: patch_chain.induct)
  case chain_base
  then show ?case by (cases rule: patch_chain.cases) auto
next
  case (chain_commit ci ps c p)
  from chain_commit.prems show ?case
  proof (cases rule: patch_chain.cases)
    case chain_base
    then show ?thesis using chain_commit.hyps(3) by simp
  next
    case (chain_commit ci' ps' p')
    then show ?thesis using chain_commit.hyps chain_commit.IH by auto
  qed
qed

text \<open>Two consecutive stretches of a chain are a chain.\<close>

lemma patch_chain_append:
  assumes "patch_chain rd s base mid ps" "patch_chain rd s mid tip qs" "base \<notin> (Some \<circ> snd) ` set qs"
  shows "patch_chain rd s base tip (ps @ qs)"
  using assms(2,3)
proof (induction rule: patch_chain.induct)
  case chain_base
  then show ?case using assms(1) by simp
next
  case (chain_commit ci qs c p)
  have "patch_chain rd s base (Some c) ((ps @ qs) @ [(p, c)])"
    by (rule patch_chain.chain_commit [OF _ chain_commit.hyps(2) _ chain_commit.hyps(4,5)])
      (use chain_commit in auto)
  then show ?case by simp
qed

text \<open>The loop returns the chain, and nothing else.\<close>

lemma load_range_chain:
  assumes "patch_chain rd s fromSha tip ps" "fromSha \<noteq> Some []"
  shows "load_range rd s fromSha tip acc = Some (Inr (fromSha, ps @ acc))"
  using assms
proof (induction arbitrary: acc rule: patch_chain.induct)
  case chain_base
  then show ?case by (subst load_range.simps) simp
next
  case (chain_commit ci ps c p)
  have "load_range rd s fromSha (first_parent ci) ((p, c) # acc) = Some (Inr (fromSha, ps @ (p, c) # acc))"
    by (rule chain_commit.IH [OF chain_commit.prems])
  then show ?case using chain_commit.hyps by (subst load_range.simps) simp
qed

lemma load_range_root:
  assumes "patch_chain rd s None tip ps" "\<And>x. x \<in> set ps \<Longrightarrow> Some (snd x) \<noteq> fromSha"
  shows "load_range rd s fromSha tip acc = Some (Inr (None, ps @ acc))"
  using assms
proof (induction arbitrary: acc rule: patch_chain.induct)
  case chain_base
  then show ?case by (subst load_range.simps) simp
next
  case (chain_commit ci ps c p)
  have "load_range rd s fromSha (first_parent ci) ((p, c) # acc) = Some (Inr (None, ps @ (p, c) # acc))"
    by (rule chain_commit.IH) (use chain_commit.prems in auto)
  moreover have "Some c \<noteq> fromSha" using chain_commit.prems [of "(p, c)"] by simp
  ultimately show ?case using chain_commit.hyps by (subst load_range.simps) simp
qed

lemma loadPatchRange_chain:
  assumes "patch_chain rd s fromSha (Some toSha) ps" "fromSha \<noteq> Some []"
  shows "loadPatchRange rd s w fromSha toSha = Some (Inr ps)"
  using load_range_chain [OF assms, of "[]"] by (auto simp: loadPatchRange_def split: option.split)

lemma loadPatchRange_diverges:
  assumes "patch_chain rd s None (Some toSha) ps" "f \<noteq> []" "\<And>x. x \<in> set ps \<Longrightarrow> snd x \<noteq> f"
  shows "loadPatchRange rd s w (Some f) toSha = Some (Inl (SyncDivergence w f toSha))"
  using load_range_root [OF assms(1), of "Some f" "[]"] assms(2,3) by (auto simp: loadPatchRange_def)

section \<open>Normalisation does not matter\<close>

lemma normalizePatch_sel:
  assumes "normalizePatch p = Inr q"
  shows "patch_ops q = patch_ops p" "patch_lamport q = patch_lamport p" "patch_writer q = patch_writer p"
    "contextVV (patch_context q) = contextVV (patch_context p)" "is_ok (contextVV (patch_context p))"
  using assms by (auto simp: normalizePatch_def bind_r_Inr_iff contextVV_def split: patch_context.splits)

lemma normalizePatch_again: "normalizePatch p = Inr q \<Longrightarrow> normalizePatch q = Inr q"
  by (auto simp: normalizePatch_def bind_r_Inr_iff split: patch_context.splits)

lemma applyFast_normalized: "normalizePatch p = Inr q \<Longrightarrow> applyFast st q sha = applyFast st p sha"
proof -
  assume n: "normalizePatch p = Inr q"
  have "applyFast_op q sha = applyFast_op p sha"
    by (simp add: fun_eq_iff applyFast_op_def op_event_def normalizePatch_sel [OF n])
  moreover have "updateFrontierFromPatch st' q = updateFrontierFromPatch st' p" for st'
    by (simp add: updateFrontierFromPatch_def normalizePatch_sel [OF n])
  ultimately show ?thesis by (simp add: applyFast_def normalizePatch_sel [OF n])
qed

end
