(* ===== verification/SyncProtocol.thy ===== *)
theory SyncProtocol
  imports PatchChains
begin

text \<open>
  The exchange of patches between replicas: \<open>src/domain/services/SyncProtocol.js\<close>. A request carries
  a frontier; the answer carries, for every writer whose heads differ, the range of patches from the
  requester's head to the responder's, or a note that the two heads are not on one chain.
  \<open>isAncestor\<close> is an optional method of the persistence port: the Git adapter has it, the in-memory
  adapter has not, so it is a parameter that may be absent.
\<close>

section \<open>Frontiers on the wire\<close>

definition frontierToObject :: "frontier \<Rightarrow> (string \<times> string) list" where
  "frontierToObject fr = foldl (\<lambda>obj (writerId, sha). obj_set_prim obj writerId sha) [] fr"

definition objectToFrontier :: "(string \<times> string) list \<Rightarrow> frontier" where
  "objectToFrontier obj = foldl (\<lambda>fr (writerId, sha). map_set fr writerId sha) [] obj"

section \<open>What each side is missing\<close>

record needed_range =
  range_from :: "string option"
  range_to :: string

record sync_delta =
  needFromRemote :: "(string, needed_range) jsmap"
  needFromLocal :: "(string, needed_range) jsmap"
  newWritersForLocal :: "string list"
  newWritersForRemote :: "string list"

text \<open>One direction of the comparison: what the owner of \<open>mine\<close> needs of one head of the other.\<close>

definition delta_step ::
  "frontier \<Rightarrow> (string, needed_range) jsmap \<times> string list \<Rightarrow> string \<times> string \<Rightarrow> (string, needed_range) jsmap \<times> string list" where
  "delta_step mine acc entry =
     (let (writerId, theirs) = entry in
      case map_of mine writerId of
        None \<Rightarrow> (map_set (fst acc) writerId \<lparr>range_from = None, range_to = theirs\<rparr>, snd acc @ [writerId])
      | Some own \<Rightarrow>
          if own \<noteq> theirs then (map_set (fst acc) writerId \<lparr>range_from = Some own, range_to = theirs\<rparr>, snd acc)
          else acc)"

definition computeSyncDelta :: "frontier \<Rightarrow> frontier \<Rightarrow> sync_delta" where
  "computeSyncDelta localFrontier remoteFrontier =
     (let (fromRemote, newLocal) = foldl (delta_step localFrontier) ([], []) remoteFrontier;
          (fromLocal, newRemote) = foldl (delta_step remoteFrontier) ([], []) localFrontier
      in \<lparr>needFromRemote = fromRemote, needFromLocal = fromLocal,
          newWritersForLocal = newLocal, newWritersForRemote = newRemote\<rparr>)"

section \<open>Messages\<close>

record sync_request =
  req_frontier :: "(string \<times> string) list"

record sync_patch =
  sp_writerId :: string
  sp_sha :: string
  sp_patch :: patch

record skipped_writer =
  sk_writerId :: string
  sk_reason :: string
  sk_localSha :: string
  sk_remoteSha :: "string option"

record sync_response =
  resp_frontier :: "(string \<times> string) list"
  resp_patches :: "sync_patch list"
  resp_skippedWriters :: "skipped_writer list"

definition createSyncRequest :: "frontier \<Rightarrow> sync_request" where
  "createSyncRequest fr = \<lparr>req_frontier = frontierToObject fr\<rparr>"

definition createEmptySyncResponse :: "frontier \<Rightarrow> sync_response" where
  "createEmptySyncResponse fr =
     \<lparr>resp_frontier = frontierToObject fr, resp_patches = [], resp_skippedWriters = []\<rparr>"

section \<open>Answering a request\<close>

type_synonym ancestry = "(string \<Rightarrow> string \<Rightarrow> bool result) option"

text \<open>Whether the optional pre-check rules the range out; it is skipped for a range from the root.\<close>

definition precheck_fails :: "ancestry \<Rightarrow> needed_range \<Rightarrow> sync_error + bool" where
  "precheck_fails isAncestor r =
     (case (range_from r, isAncestor) of
        (Some f, Some isAnc) \<Rightarrow>
          if f = [] then Inr False
          else (case isAnc f (range_to r) of Inl e \<Rightarrow> Inl (SyncLoad (LoadStore e)) | Inr b \<Rightarrow> Inr (\<not> b))
      | _ \<Rightarrow> Inr False)"

definition skip_writer :: "string \<Rightarrow> needed_range \<Rightarrow> string option \<Rightarrow> skipped_writer" where
  "skip_writer writerId r remoteSha =
     \<lparr>sk_writerId = writerId, sk_reason = ''E_SYNC_DIVERGENCE'', sk_localSha = range_to r, sk_remoteSha = remoteSha\<rparr>"

definition to_sync_patch :: "string \<Rightarrow> entry \<Rightarrow> sync_patch" where
  "to_sync_patch writerId x = \<lparr>sp_writerId = writerId, sp_sha = snd x, sp_patch = fst x\<rparr>"

text \<open>
  One writer of the delta. Of the errors that are thrown in it, a divergence only skips the writer.
\<close>

definition process_writer ::
  "patch_reader \<Rightarrow> ancestry \<Rightarrow> git_store \<Rightarrow> sync_patch list \<times> skipped_writer list \<Rightarrow> string \<times> needed_range \<Rightarrow>
   (sync_error + sync_patch list \<times> skipped_writer list) option" where
  "process_writer rd isAncestor s acc entry =
     (let (writerId, r) = entry in
      case precheck_fails isAncestor r of
        Inl e \<Rightarrow> Some (Inl e)
      | Inr True \<Rightarrow> Some (Inr (fst acc, snd acc @ [skip_writer writerId r (range_from r)]))
      | Inr False \<Rightarrow>
          (case loadPatchRange rd s writerId (range_from r) (range_to r) of
             None \<Rightarrow> None
           | Some (Inl (SyncDivergence w f t)) \<Rightarrow>
               Some (Inr (fst acc, snd acc @ [skip_writer writerId r
                 (Some (case range_from r of None \<Rightarrow> [] | Some f \<Rightarrow> f))]))
           | Some (Inl e) \<Rightarrow> Some (Inl e)
           | Some (Inr ps) \<Rightarrow> Some (Inr (fst acc @ map (to_sync_patch writerId) ps, snd acc))))"

definition processSyncRequest ::
  "patch_reader \<Rightarrow> ancestry \<Rightarrow> git_store \<Rightarrow> sync_request \<Rightarrow> frontier \<Rightarrow> (sync_error + sync_response) option" where
  "processSyncRequest rd isAncestor s request localFrontier =
     (let remoteFrontier = objectToFrontier (req_frontier request);
          delta = computeSyncDelta remoteFrontier localFrontier
      in bind_o (fold_o (process_writer rd isAncestor s) ([], []) (needFromRemote delta))
           (\<lambda>(patches, skipped). Some (Inr \<lparr>resp_frontier = frontierToObject localFrontier,
              resp_patches = patches, resp_skippedWriters = skipped\<rparr>)))"

section \<open>Applying an answer\<close>

definition group_step :: "(string, entry list) jsmap \<Rightarrow> sync_patch \<Rightarrow> (string, entry list) jsmap" where
  "group_step groups sp =
     map_set groups (sp_writerId sp)
       ((case map_of groups (sp_writerId sp) of None \<Rightarrow> [] | Some ps \<Rightarrow> ps) @ [(sp_patch sp, sp_sha sp)])"

definition patches_by_writer :: "sync_patch list \<Rightarrow> (string, entry list) jsmap" where
  "patches_by_writer ps = foldl group_step [] ps"

definition of_apply :: "'a result \<Rightarrow> sync_error + 'a" where
  "of_apply r = (case r of Inl e \<Rightarrow> Inl (SyncApply e) | Inr x \<Rightarrow> Inr x)"

definition apply_one :: "warp_state \<times> nat \<Rightarrow> entry \<Rightarrow> sync_error + warp_state \<times> nat" where
  "apply_one acc x =
     bind_r (of_apply (normalizePatch (fst x))) (\<lambda>normalizedPatch.
       if \<not> list_all isKnownRawOp (patch_ops normalizedPatch) then Inl (SyncUnknownOp (snd x))
       else if \<not> assertOpsCompatible (Some (patch_ops normalizedPatch)) SCHEMA_V3 then Inl SyncSchema
       else bind_r (of_apply (join (fst acc) normalizedPatch (snd x) False)) (\<lambda>r.
              Inr (case r of JoinedState s \<Rightarrow> s | JoinedReceipt s _ \<Rightarrow> s, snd acc + 1)))"

definition apply_writer ::
  "(warp_state \<times> nat) \<times> frontier \<Rightarrow> string \<times> entry list \<Rightarrow> sync_error + (warp_state \<times> nat) \<times> frontier" where
  "apply_writer acc entry =
     (let (writerId, writerPatches) = entry in
      bind_r (fold_r apply_one (fst acc) writerPatches) (\<lambda>st.
        Inr (st, if 0 < length writerPatches
                 then updateFrontier (snd acc) writerId (snd (last writerPatches)) else snd acc)))"

record sync_applied =
  applied_state :: warp_state
  applied_frontier :: frontier
  applied_count :: nat

definition applySyncResponse :: "sync_response \<Rightarrow> warp_state \<Rightarrow> frontier \<Rightarrow> sync_error + sync_applied" where
  "applySyncResponse response st fr =
     bind_r (fold_r apply_writer ((cloneStateV5 st, 0), cloneFrontier fr) (patches_by_writer (resp_patches response)))
       (\<lambda>((newState, applied), newFrontier).
         Inr \<lparr>applied_state = newState, applied_frontier = newFrontier, applied_count = applied\<rparr>)"

definition syncNeeded :: "frontier \<Rightarrow> frontier \<Rightarrow> bool" where
  "syncNeeded localFrontier remoteFrontier \<longleftrightarrow>
     length localFrontier \<noteq> length remoteFrontier \<or>
     list_ex (\<lambda>(writerId, localSha). map_of remoteFrontier writerId \<noteq> Some localSha) localFrontier"

end
