(* ===== verification/SyncLaws.thy ===== *)
theory SyncLaws
  imports SyncProtocol "HOL-Library.Sublist"
begin

text \<open>
  What a synchronisation achieves: the answer to a request holds, for each writer whose responder's
  chain extends the requester's, the missing stretch of that chain, and skips every other writer.
  Applying it is replaying the missing patches.
\<close>

section \<open>More on chains\<close>

lemma patch_chain_take:
  "patch_chain rd s base tip ps \<Longrightarrow> i < length ps \<Longrightarrow> patch_chain rd s base (Some (snd (ps ! i))) (take (Suc i) ps)"
proof (induction arbitrary: i rule: patch_chain.induct)
  case chain_base
  then show ?case by simp
next
  case (chain_commit ci ps c p)
  have whole: "patch_chain rd s base (Some c) (ps @ [(p, c)])"
    by (rule patch_chain.chain_commit [OF chain_commit.hyps(1-5)])
  show ?case
  proof (cases "i < length ps")
    case True
    then show ?thesis using chain_commit.IH by (simp add: nth_append)
  next
    case False
    then have "i = length ps" using chain_commit.prems by simp
    then show ?thesis using whole by simp
  qed
qed

lemma patch_chain_distinct: "patch_chain rd s base tip ps \<Longrightarrow> distinct (map snd ps)"
proof (induction rule: patch_chain.induct)
  case chain_base
  then show ?case by simp
next
  case (chain_commit ci ps c p)
  have whole: "patch_chain rd s base (Some c) (ps @ [(p, c)])"
    by (rule patch_chain.chain_commit [OF chain_commit.hyps(1-5)])
  have "c \<notin> snd ` set ps"
  proof
    assume "c \<in> snd ` set ps"
    then obtain i where i: "i < length ps" "snd (ps ! i) = c" by (force simp: in_set_conv_nth)
    have "take (Suc i) ps = ps @ [(p, c)]"
      using patch_chain_fun [OF patch_chain_take [OF chain_commit.hyps(1) i(1)]] whole i(2) by simp
    then have "length (take (Suc i) ps) = length (ps @ [(p, c)])" by (rule arg_cong)
    then show False by simp
  qed
  then show ?case using chain_commit.IH by simp
qed

lemma patch_chain_shas: "patch_chain rd s base tip ps \<Longrightarrow> x \<in> set ps \<Longrightarrow> snd x \<noteq> [] \<and> Some (snd x) \<noteq> base"
  by (induction rule: patch_chain.induct) auto

lemma patch_chain_nonempty: "patch_chain rd s None (Some tip) ps \<Longrightarrow> ps \<noteq> []"
  by (auto elim: patch_chain_emptyE)

lemma patch_chain_none: "patch_chain rd s None None ps \<longleftrightarrow> ps = []"
  by (auto dest: patch_chain_end intro: patch_chain.chain_base split: if_splits)

lemma patch_chain_tip: "patch_chain rd s None (Some tip) ps \<Longrightarrow> snd (last ps) = tip"
  using patch_chain_nonempty patch_chain_end by fastforce

text \<open>A chain that continues a prefix, and a chain that ends at the same commit.\<close>

lemma patch_chain_drop:
  assumes "patch_chain rd s None tip (ps @ qs)" "ps \<noteq> []"
  shows "patch_chain rd s (Some (snd (last ps))) tip qs"
  using assms
proof (induction "ps @ qs" arbitrary: qs rule: patch_chain.induct)
  case chain_base
  then show ?case by simp
next
  case (chain_commit ci rs c p)
  have whole: "patch_chain rd s None (Some c) (rs @ [(p, c)])"
    by (rule patch_chain.chain_commit [OF chain_commit.hyps(1,3,4,5,6)])
  show ?case
  proof (cases qs rule: rev_cases)
    case Nil
    then have "snd (last ps) = c" using chain_commit.hyps(7) by auto
    then show ?thesis using Nil patch_chain.chain_base by simp
  next
    case (snoc qs' x)
    then have e: "rs = ps @ qs'" "x = (p, c)" using chain_commit.hyps(7) by auto
    have "distinct (map snd (rs @ [(p, c)]))" by (rule patch_chain_distinct [OF whole])
    moreover have "snd (last ps) \<in> snd ` set rs" using e(1) chain_commit.prems by simp
    ultimately have "snd (last ps) \<noteq> c" by auto
    then show ?thesis
      using chain_commit.hyps(2) [OF e(1) chain_commit.prems] chain_commit.hyps(3,5,6) snoc e(2)
      by (auto intro: patch_chain.chain_commit)
  qed
qed

lemma patch_chain_common:
  assumes "patch_chain rd s base tip ps" "patch_chain rd s None tip qs"
  shows "\<exists>pre. qs = pre @ ps \<and> patch_chain rd s None base pre"
  using assms
proof (induction arbitrary: qs rule: patch_chain.induct)
  case chain_base
  then show ?case by auto
next
  case (chain_commit ci ps c p)
  from chain_commit.prems obtain ps' where q: "qs = ps' @ [(p, c)]" "patch_chain rd s None (first_parent ci) ps'"
    using chain_commit.hyps(2,5) by (cases rule: patch_chain.cases) auto
  from chain_commit.IH [OF q(2)] q(1) show ?case by auto
qed

section \<open>Frontiers on the wire\<close>

lemma objectToFrontier_id: "map_wf fr \<Longrightarrow> objectToFrontier fr = fr"
  using map_set_appends [of "[]" fr] by (simp add: objectToFrontier_def)

lemma frontierToObject_id:
  assumes "map_wf fr" "''__proto__'' \<notin> set (map_keys fr)"
  shows "frontierToObject fr = fr"
proof -
  have "foldl (\<lambda>obj (writerId, sha). obj_set_prim obj writerId sha) acc fr =
      foldl (\<lambda>m (k, v). map_set m k v) acc fr" for acc
    using assms(2) by (induction fr arbitrary: acc) (auto simp: obj_set_prim_def)
  then show ?thesis using map_set_appends [of "[]" fr] assms(1) by (simp add: frontierToObject_def)
qed

section \<open>The delta\<close>

definition need_of :: "frontier \<Rightarrow> string \<times> string \<Rightarrow> (string \<times> needed_range) option" where
  "need_of mine e = (if map_of mine (fst e) = Some (snd e) then None
     else Some (fst e, \<lparr>range_from = map_of mine (fst e), range_to = snd e\<rparr>))"

lemma delta_fold:
  assumes "map_wf theirs" "fst ` set theirs \<inter> set (map_keys acc) = {}"
  shows "fst (foldl (delta_step mine) (acc, ws) theirs) = acc @ List.map_filter (need_of mine) theirs"
  using assms
proof (induction theirs arbitrary: acc ws)
  case Nil
  then show ?case by (simp add: List.map_filter_def)
next
  case (Cons e theirs)
  obtain w t where e: "e = (w, t)" by force
  have new: "map_set acc w r = acc @ [(w, r)]" for r
    using Cons.prems(2) e by (intro update_absent) auto
  have step: "\<exists>ws'. delta_step mine (acc, ws) e = (acc @ (case need_of mine e of None \<Rightarrow> [] | Some x \<Rightarrow> [x]), ws')"
    by (auto simp: delta_step_def e new need_of_def split: option.split)
  then obtain ws' where s: "delta_step mine (acc, ws) e = (acc @ (case need_of mine e of None \<Rightarrow> [] | Some x \<Rightarrow> [x]), ws')"
    by blast
  have "fst ` set theirs \<inter> set (map_keys (acc @ (case need_of mine e of None \<Rightarrow> [] | Some x \<Rightarrow> [x]))) = {}"
    using Cons.prems e by (auto simp: need_of_def split: if_splits option.split)
  with Cons.IH [of "acc @ (case need_of mine e of None \<Rightarrow> [] | Some x \<Rightarrow> [x])" ws'] Cons.prems(1)
  show ?case by (simp add: s List.map_filter_simps split: option.split)
qed

lemma needFromRemote_eq:
  assumes "map_wf theirs"
  shows "needFromRemote (computeSyncDelta mine theirs) = List.map_filter (need_of mine) theirs"
  using delta_fold [OF assms, of "[]" mine "[]"]
  by (simp add: computeSyncDelta_def case_prod_beta)

section \<open>Answering\<close>

text \<open>Whether the answerer's chain extends the requester's, for one writer.\<close>

definition extends :: "(string \<Rightarrow> entry list) \<Rightarrow> (string \<Rightarrow> entry list) \<Rightarrow> string \<Rightarrow> bool" where
  "extends la lb w \<longleftrightarrow> prefix (la w) (lb w)"

definition missing :: "(string \<Rightarrow> entry list) \<Rightarrow> (string \<Rightarrow> entry list) \<Rightarrow> string \<Rightarrow> entry list" where
  "missing la lb w = (if extends la lb w then drop (length (la w)) (lb w) else [])"

text \<open>
  \<open>chains_at\<close>: the entries behind each head of a frontier, in one store. \<open>same_histories\<close>: a commit
  names its whole history, so a head found on the other side's chain has the same chain before it.
\<close>

definition chains_at :: "patch_reader \<Rightarrow> git_store \<Rightarrow> frontier \<Rightarrow> (string \<Rightarrow> entry list) \<Rightarrow> bool" where
  "chains_at rd s fr log \<longleftrightarrow> map_wf fr \<and> (\<forall>w. patch_chain rd s None (map_of fr w) (log w))"

definition same_histories :: "(string \<Rightarrow> entry list) \<Rightarrow> (string \<Rightarrow> entry list) \<Rightarrow> bool" where
  "same_histories la lb \<longleftrightarrow> (\<forall>w. la w \<noteq> [] \<longrightarrow> snd (last (la w)) \<in> snd ` set (lb w) \<longrightarrow> prefix (la w) (lb w))"

definition ancestry_right :: "patch_reader \<Rightarrow> git_store \<Rightarrow> ancestry \<Rightarrow> bool" where
  "ancestry_right rd s isAncestor \<longleftrightarrow>
     (\<forall>anc. isAncestor = Some anc \<longrightarrow> (\<forall>f t. anc f t = Inr (\<exists>ps. patch_chain rd s (Some f) (Some t) ps)))"

lemma chains_at_log:
  assumes "chains_at rd s fr log"
  shows "map_of fr w = None \<longleftrightarrow> log w = []" "map_of fr w = Some t \<Longrightarrow> log w \<noteq> [] \<and> snd (last (log w)) = t"
proof -
  have c: "patch_chain rd s None (map_of fr w) (log w)" using assms by (simp add: chains_at_def)
  then show "map_of fr w = None \<longleftrightarrow> log w = []"
    by (auto simp: patch_chain_none elim: patch_chain_emptyE)
  show "map_of fr w = Some t \<Longrightarrow> log w \<noteq> [] \<and> snd (last (log w)) = t"
    using c by (auto dest: patch_chain_tip patch_chain_nonempty)
qed

lemma missing_chain:
  assumes a: "chains_at rd sa fa la" and b: "chains_at rd sb fb lb" and t: "map_of fb w = Some t" and e: "extends la lb w"
  shows "patch_chain rd sb (map_of fa w) (Some t) (missing la lb w)" "map_of fa w \<noteq> Some []"
proof -
  have cb: "patch_chain rd sb None (Some t) (la w @ missing la lb w)"
    using b t e by (auto simp: chains_at_def missing_def extends_def prefix_def dest: spec [of _ w])
  have ca: "patch_chain rd sa None (map_of fa w) (la w)" using a by (simp add: chains_at_def)
  show "map_of fa w \<noteq> Some []"
  proof
    assume m: "map_of fa w = Some []"
    from chains_at_log(2) [OF a m] have "la w \<noteq> []" "snd (last (la w)) = []" by auto
    then show False using patch_chain_shas [OF ca last_in_set] by auto
  qed
  show "patch_chain rd sb (map_of fa w) (Some t) (missing la lb w)"
  proof (cases "map_of fa w")
    case None
    then show ?thesis using cb chains_at_log(1) [OF a, of w] by simp
  next
    case (Some f)
    from chains_at_log(2) [OF a Some] patch_chain_drop [OF cb] Some show ?thesis by simp
  qed
qed

lemma not_extending_head:
  assumes a: "chains_at rd sa fa la" and h: "same_histories la lb" and e: "\<not> extends la lb w"
  obtains f where "map_of fa w = Some f" "f \<noteq> []" "f \<notin> snd ` set (lb w)"
proof -
  have ne: "la w \<noteq> []" using e by (auto simp: extends_def)
  then obtain f where f: "map_of fa w = Some f" using chains_at_log(1) [OF a, of w] by auto
  have l: "snd (last (la w)) = f" using chains_at_log(2) [OF a f] by simp
  have "patch_chain rd sa None (map_of fa w) (la w)" using a by (simp add: chains_at_def)
  from patch_chain_shas [OF this last_in_set [OF ne]] l have "f \<noteq> []" by simp
  moreover have "f \<notin> snd ` set (lb w)" using h ne e l unfolding same_histories_def extends_def by blast
  ultimately show thesis using that f by blast
qed

lemma not_extending_chain:
  assumes b: "chains_at rd sb fb lb" and t: "map_of fb w = Some t" and f: "f \<notin> snd ` set (lb w)"
  shows "\<not> patch_chain rd sb (Some f) (Some t) ps"
proof
  assume c: "patch_chain rd sb (Some f) (Some t) ps"
  have "patch_chain rd sb None (Some t) (lb w)" using b t by (auto simp: chains_at_def dest: spec [of _ w])
  from patch_chain_common [OF c this] obtain pre where pre: "lb w = pre @ ps" "patch_chain rd sb None (Some f) pre" by blast
  from patch_chain_nonempty [OF pre(2)] patch_chain_tip [OF pre(2)] pre(1) have "f \<in> snd ` set (lb w)"
    by (metis Un_iff image_eqI last_in_set set_append)
  with f show False by blast
qed

lemma process_writer_extends:
  assumes "chains_at rd sa fa la" "chains_at rd sb fb lb" "ancestry_right rd sb isAncestor"
    and t: "map_of fb w = Some t" and e: "extends la lb w"
  shows "process_writer rd isAncestor sb acc (w, \<lparr>range_from = map_of fa w, range_to = t\<rparr>) =
    Some (Inr (fst acc @ map (to_sync_patch w) (missing la lb w), snd acc))"
proof -
  note chain = missing_chain [OF assms(1,2) t e]
  have "precheck_fails isAncestor \<lparr>range_from = map_of fa w, range_to = t\<rparr> = Inr False"
    using assms(3) chain(1) by (auto simp: precheck_fails_def ancestry_right_def split: option.split)
  then show ?thesis by (simp add: process_writer_def loadPatchRange_chain [OF chain])
qed

lemma process_writer_skips:
  assumes "chains_at rd sa fa la" "chains_at rd sb fb lb" "ancestry_right rd sb isAncestor" "same_histories la lb"
    and t: "map_of fb w = Some t" and e: "\<not> extends la lb w"
  shows "\<exists>k. process_writer rd isAncestor sb acc (w, \<lparr>range_from = map_of fa w, range_to = t\<rparr>) =
    Some (Inr (fst acc, snd acc @ [k])) \<and> sk_writerId k = w"
proof -
  obtain f where f: "map_of fa w = Some f" "f \<noteq> []" "f \<notin> snd ` set (lb w)"
    using not_extending_head [OF assms(1,4) e] by blast
  have cb: "patch_chain rd sb None (Some t) (lb w)"
    using assms(2) t by (auto simp: chains_at_def dest: spec [of _ w])
  have "loadPatchRange rd sb w (Some f) t = Some (Inl (SyncDivergence w f t))"
    by (rule loadPatchRange_diverges [OF cb f(2)]) (use f(3) in auto)
  moreover have "precheck_fails isAncestor \<lparr>range_from = Some f, range_to = t\<rparr> = Inr (isAncestor \<noteq> None)"
    using assms(3) f(2) not_extending_chain [OF assms(2) t f(3)]
    by (auto simp: precheck_fails_def ancestry_right_def split: option.split)
  ultimately show ?thesis
    by (cases isAncestor) (simp_all add: process_writer_def f(1) skip_writer_def)
qed

text \<open>A writer whose heads are equal is not in the delta, and nothing of it is missing.\<close>

lemma missing_same_head:
  assumes "chains_at rd sa fa la" "chains_at rd sb fb lb" "same_histories la lb"
    and "map_of fa w = Some t" "map_of fb w = Some t"
  shows "missing la lb w = []" "extends la lb w"
proof -
  note a = chains_at_log(2) [OF assms(1,4)] and b = chains_at_log(2) [OF assms(2,5)]
  have "snd (last (la w)) = snd (last (lb w))" "last (lb w) \<in> set (lb w)" using a b by simp_all
  then have "snd (last (la w)) \<in> snd ` set (lb w)" by simp
  with assms(3) a have p: "prefix (la w) (lb w)" by (auto simp: same_histories_def)
  then obtain d where d: "lb w = la w @ d" by (auto simp: prefix_def)
  have dist: "distinct (map snd (lb w))"
    using assms(2) by (auto simp: chains_at_def intro: patch_chain_distinct)
  have "d = []"
  proof (rule ccontr)
    assume "d \<noteq> []"
    then have "snd (last d) \<in> snd ` set d" "snd (last d) = t" using b d by auto
    moreover have "snd (last (la w)) \<in> snd ` set (la w)" "snd (last (la w)) = t" using a by auto
    ultimately show False using dist d by (metis disjoint_iff distinct_append list.set_map map_append)
  qed
  with d p show "missing la lb w = []" "extends la lb w" by (auto simp: missing_def extends_def)
qed

definition sent :: "(string \<Rightarrow> entry list) \<Rightarrow> (string \<Rightarrow> entry list) \<Rightarrow> frontier \<Rightarrow> sync_patch list" where
  "sent la lb fb = concat (map (\<lambda>e. map (to_sync_patch (fst e)) (missing la lb (fst e))) fb)"

lemma answer_fold:
  assumes "chains_at rd sa fa la" "chains_at rd sb fb lb" "ancestry_right rd sb isAncestor" "same_histories la lb"
    and "\<And>w t. (w, t) \<in> set es \<Longrightarrow> map_of fb w = Some t"
  shows "\<exists>ks'. fold_o (process_writer rd isAncestor sb) (ps, ks) (List.map_filter (need_of fa) es) =
    Some (Inr (ps @ sent la lb es, ks @ ks')) \<and>
    map sk_writerId ks' = map fst (filter (\<lambda>e. \<not> extends la lb (fst e)) es)"
  using assms(5)
proof (induction es arbitrary: ps ks)
  case Nil
  then show ?case by (simp add: List.map_filter_simps sent_def)
next
  case (Cons e es)
  obtain w t where e: "e = (w, t)" by force
  have t: "map_of fb w = Some t" using Cons.prems e by simp
  have es: "(w, t) \<in> set es \<Longrightarrow> map_of fb w = Some t" for w t using Cons.prems by simp
  consider (same) "map_of fa w = Some t" | (ext) "map_of fa w \<noteq> Some t" "extends la lb w" |
    (skip) "map_of fa w \<noteq> Some t" "\<not> extends la lb w" by blast
  then show ?case
  proof cases
    case same
    have n: "need_of fa e = None" using same e by (simp add: need_of_def)
    from Cons.IH [OF es, of ps ks] missing_same_head [OF assms(1,2,4) same t]
    show ?thesis using n by (simp add: List.map_filter_simps sent_def e)
  next
    case ext
    have n: "need_of fa e = Some (w, \<lparr>range_from = map_of fa w, range_to = t\<rparr>)" using ext e by (simp add: need_of_def)
    from Cons.IH [OF es, of "ps @ map (to_sync_patch w) (missing la lb w)" ks] ext(2)
      process_writer_extends [OF assms(1,2,3) t ext(2), of "(ps, ks)"]
    show ?thesis using n by (simp add: List.map_filter_simps sent_def e)
  next
    case skip
    have n: "need_of fa e = Some (w, \<lparr>range_from = map_of fa w, range_to = t\<rparr>)" using skip e by (simp add: need_of_def)
    obtain k where k: "process_writer rd isAncestor sb (ps, ks) (w, \<lparr>range_from = map_of fa w, range_to = t\<rparr>) =
        Some (Inr (ps, ks @ [k]))" "sk_writerId k = w"
      using process_writer_skips [OF assms(1-4) t skip(2), of "(ps, ks)"] by auto
    have m: "missing la lb w = []" using skip(2) by (simp add: missing_def)
    obtain ks' where "fold_o (process_writer rd isAncestor sb) (ps, ks @ [k]) (List.map_filter (need_of fa) es) =
        Some (Inr (ps @ sent la lb es, (ks @ [k]) @ ks'))"
        "map sk_writerId ks' = map fst (filter (\<lambda>e. \<not> extends la lb (fst e)) es)"
      using Cons.IH [OF es, of ps "ks @ [k]"] by blast
    then show ?thesis using k m skip(2) n
      by (intro exI [of _ "k # ks'"]) (simp add: List.map_filter_simps sent_def e)
  qed
qed

lemma processSyncRequest_answer:
  assumes "chains_at rd sa fa la" "chains_at rd sb fb lb" "ancestry_right rd sb isAncestor" "same_histories la lb"
    and "''__proto__'' \<notin> set (map_keys fa)"
  shows "\<exists>resp. processSyncRequest rd isAncestor sb (createSyncRequest fa) fb = Some (Inr resp) \<and>
    resp_patches resp = sent la lb fb \<and>
    map sk_writerId (resp_skippedWriters resp) = map fst (filter (\<lambda>e. \<not> extends la lb (fst e)) fb)"
proof -
  have wf: "map_wf fa" "map_wf fb" using assms(1,2) by (simp_all add: chains_at_def)
  have fr: "objectToFrontier (frontierToObject fa) = fa"
    using objectToFrontier_id frontierToObject_id wf(1) assms(5) by simp
  obtain ks where "fold_o (process_writer rd isAncestor sb) ([], []) (List.map_filter (need_of fa) fb) =
      Some (Inr (sent la lb fb, ks))" "map sk_writerId ks = map fst (filter (\<lambda>e. \<not> extends la lb (fst e)) fb)"
    using answer_fold [OF assms(1-4), of fb "[]" "[]"] wf(2) by auto
  then show ?thesis
    by (simp add: processSyncRequest_def createSyncRequest_def fr needFromRemote_eq [OF wf(2)])
qed

section \<open>Applying an answer\<close>

lemma group_writer:
  assumes "w \<notin> set (map_keys groups)"
  shows "foldl group_step groups (map (to_sync_patch w) xs) = (if xs = [] then groups else groups @ [(w, xs)])"
proof -
  have at_end: "map_set (groups @ [(w, ys)]) w zs = groups @ [(w, zs)]" for ys zs
    using assms by (induction groups) auto
  have absent: "map_of groups w = None" using assms by (simp add: map_of_eq_None_iff)
  have go: "foldl group_step (groups @ [(w, ys)]) (map (to_sync_patch w) xs) = groups @ [(w, ys @ xs)]" for ys xs
  proof (induction xs arbitrary: ys)
    case Nil
    then show ?case by simp
  next
    case (Cons x xs)
    have "group_step (groups @ [(w, ys)]) (to_sync_patch w x) = groups @ [(w, ys @ [x])]"
      by (simp add: group_step_def to_sync_patch_def map_of_append absent map_add_def at_end)
    then show ?case using Cons.IH [of "ys @ [x]"] by simp
  qed
  show ?thesis
  proof (cases xs)
    case Nil
    then show ?thesis by simp
  next
    case (Cons x rest)
    have "group_step groups (to_sync_patch w x) = groups @ [(w, [x])]"
      using assms by (simp add: group_step_def to_sync_patch_def absent update_absent)
    then show ?thesis using go [of "[x]" rest] Cons by simp
  qed
qed

lemma patches_by_writer_sent:
  assumes "map_wf fb"
  shows "patches_by_writer (sent la lb fb) =
    map (\<lambda>w. (w, missing la lb w)) (filter (\<lambda>w. missing la lb w \<noteq> []) (map_keys fb))"
proof -
  have "foldl group_step groups (sent la lb es) =
      groups @ map (\<lambda>w. (w, missing la lb w)) (filter (\<lambda>w. missing la lb w \<noteq> []) (map_keys es))"
    if "map_wf es" "set (map_keys groups) \<inter> set (map_keys es) = {}" for groups es
    using that
  proof (induction es arbitrary: groups)
    case Nil
    then show ?case by (simp add: sent_def)
  next
    case (Cons e es)
    let ?m = "missing la lb (fst e)"
    have "fst e \<notin> set (map_keys groups)" using Cons.prems(2) by auto
    from group_writer [OF this, of ?m]
    have "foldl group_step groups (sent la lb (e # es)) =
        foldl group_step (groups @ (if ?m = [] then [] else [(fst e, ?m)])) (sent la lb es)"
      by (simp add: sent_def)
    also have "\<dots> = groups @ (if ?m = [] then [] else [(fst e, ?m)]) @
        map (\<lambda>w. (w, missing la lb w)) (filter (\<lambda>w. missing la lb w \<noteq> []) (map_keys es))"
      by (subst Cons.IH) (use Cons.prems in auto)
    finally show ?case by simp
  qed
  from this [of fb "[]"] assms show ?thesis by (simp add: patches_by_writer_def)
qed

definition wire_ready :: "entry \<Rightarrow> bool" where
  "wire_ready x \<longleftrightarrow> list_all isKnownRawOp (patch_ops (fst x))"

lemma apply_one_ok:
  assumes "wire_ready x" "apply_entry st x = Inr st'"
  shows "apply_one (st, n) x = Inr (st', n + 1)"
proof -
  have a: "applyFast st (fst x) (snd x) = Inr st'" using assms(2) by (simp add: apply_entry_def)
  then have "is_ok (contextVV (patch_context (fst x)))"
    using applyFast_ok_iff [of st "fst x" "snd x"] by simp
  then obtain q where q: "normalizePatch (fst x) = Inr q"
    by (auto simp: normalizePatch_def contextVV_def is_ok_iff split: patch_context.splits)
  have ops: "patch_ops q = patch_ops (fst x)" by (rule normalizePatch_sel(1) [OF q])
  have "join st q (snd x) False = Inr (JoinedState st')"
    using a by (simp add: join_def applyFast_normalized [OF q])
  then show ?thesis
    using assms(1) by (simp add: apply_one_def of_apply_def q ops wire_ready_def assertOpsCompatible_def)
qed

lemma apply_many_ok:
  assumes "\<forall>x\<in>set xs. wire_ready x" "fold_r apply_entry st xs = Inr st'"
  shows "fold_r apply_one (st, n) xs = Inr (st', n + length xs)"
  using assms
proof (induction xs arbitrary: st n)
  case Nil
  then show ?case by simp
next
  case (Cons x xs)
  then obtain s1 where s1: "apply_entry st x = Inr s1" "fold_r apply_entry s1 xs = Inr st'"
    by (auto simp: bind_r_Inr_iff)
  have x: "wire_ready x" and xs: "\<forall>x\<in>set xs. wire_ready x" using Cons.prems(1) by auto
  from Cons.IH [OF xs s1(2), of "n + 1"] apply_one_ok [OF x s1(1), of n] show ?case by simp
qed

lemma apply_writers_ok:
  assumes "\<forall>g\<in>set groups. snd g \<noteq> [] \<and> (\<forall>x\<in>set (snd g). wire_ready x)"
    and "fold_r apply_entry st (concat (map snd groups)) = Inr st'"
  shows "fold_r apply_writer ((st, n), fr) groups =
    Inr ((st', n + length (concat (map snd groups))),
      foldl (\<lambda>fr g. updateFrontier fr (fst g) (snd (last (snd g)))) fr groups)"
  using assms
proof (induction groups arbitrary: st n fr)
  case Nil
  then show ?case by simp
next
  case (Cons g groups)
  then obtain s1 where s1: "fold_r apply_entry st (snd g) = Inr s1"
      "fold_r apply_entry s1 (concat (map snd groups)) = Inr st'"
    by (auto simp: fold_r_append bind_r_Inr_iff)
  have "apply_writer ((st, n), fr) g =
      Inr ((s1, n + length (snd g)), updateFrontier fr (fst g) (snd (last (snd g))))"
    using Cons.prems(1) apply_many_ok [OF _ s1(1), of n] by (simp add: apply_writer_def case_prod_beta)
  with Cons.IH [OF _ s1(2)] Cons.prems(1) show ?case by (simp add: add.assoc)
qed

lemma updates_map_of:
  assumes "distinct ws"
  shows "map_of (foldl (\<lambda>fr g. updateFrontier fr (fst g) (f g)) fr (map (\<lambda>w. (w, h w)) ws)) =
    (\<lambda>w. if w \<in> set ws then Some (f (w, h w)) else map_of fr w)"
  using assms by (induction ws arbitrary: fr) (auto simp: updateFrontier_def fun_eq_iff)

section \<open>One exchange\<close>

text \<open>The chain a replica knows of each writer after the exchange.\<close>

definition merged :: "(string \<Rightarrow> entry list) \<Rightarrow> (string \<Rightarrow> entry list) \<Rightarrow> string \<Rightarrow> entry list" where
  "merged la lb w = (if extends la lb w then lb w else la w)"

lemma merged_missing: "merged la lb w = la w @ missing la lb w"
  by (auto simp: merged_def missing_def extends_def prefix_def)

lemma missing_known: "x \<in> set (missing la lb w) \<Longrightarrow> x \<in> set (lb w)"
  by (auto simp: missing_def dest: in_set_dropD)

lemma apply_entries_ok: "\<forall>x\<in>set xs. applicable x \<Longrightarrow> is_ok (fold_r apply_entry st xs)"
  by (intro fold_r_total) (simp add: apply_entry_def applicable_def applyFast_ok_iff)

lemma sent_frontier:
  assumes "chains_at rd sa fa la" "chains_at rd sb fb lb"
  shows "(if w \<in> set (filter (\<lambda>w. missing la lb w \<noteq> []) (map_keys fb)) then Some (snd (last (missing la lb w)))
    else map_of fa w) = (if extends la lb w then map_of fb w else map_of fa w)"
proof (cases "extends la lb w")
  case False
  then show ?thesis by (simp add: missing_def)
next
  case e: True
  have cb: "patch_chain rd sb None (map_of fb w) (la w @ missing la lb w)"
    using assms(2) e merged_missing [of la lb w] by (auto simp: chains_at_def merged_def dest: spec [of _ w])
  have ca: "patch_chain rd sa None (map_of fa w) (la w)" using assms(1) by (simp add: chains_at_def)
  show ?thesis
  proof (cases "missing la lb w = []")
    case True
    from patch_chain_end [OF cb] patch_chain_end [OF ca] True e show ?thesis by simp
  next
    case False
    then have m: "map_of fb w = Some (snd (last (missing la lb w)))" using patch_chain_end [OF cb] by simp
    then have "w \<in> set (map_keys fb)" using map_of_eq_None_iff [of fb w] by auto
    then show ?thesis using False e m by simp
  qed
qed

lemma exchange:
  assumes "chains_at rd sa fa la" "chains_at rd sb fb lb" "ancestry_right rd sb isAncestor" "same_histories la lb"
    and "''__proto__'' \<notin> set (map_keys fa)" "\<forall>w. \<forall>x\<in>set (lb w). wire_ready x \<and> applicable x"
  shows "\<exists>resp app ds. processSyncRequest rd isAncestor sb (createSyncRequest fa) fb = Some (Inr resp) \<and>
    applySyncResponse resp st fa = Inr app \<and> fold_r apply_entry st ds = Inr (applied_state app) \<and>
    set ds = (\<Union>w. set (missing la lb w)) \<and> applied_count app = length ds \<and>
    map_of (applied_frontier app) = (\<lambda>w. if extends la lb w then map_of fb w else map_of fa w) \<and>
    map sk_writerId (resp_skippedWriters resp) = filter (\<lambda>w. \<not> extends la lb w) (map_keys fb)"
proof -
  let ?ws = "filter (\<lambda>w. missing la lb w \<noteq> []) (map_keys fb)"
  let ?groups = "map (\<lambda>w. (w, missing la lb w)) ?ws"
  let ?ds = "concat (map snd ?groups)"
  have wf: "map_wf fb" using assms(2) by (simp add: chains_at_def)
  obtain resp where resp: "processSyncRequest rd isAncestor sb (createSyncRequest fa) fb = Some (Inr resp)"
      "resp_patches resp = sent la lb fb"
      "map sk_writerId (resp_skippedWriters resp) = map fst (filter (\<lambda>e. \<not> extends la lb (fst e)) fb)"
    using processSyncRequest_answer [OF assms(1-5)] by blast
  have ready: "\<forall>g\<in>set ?groups. snd g \<noteq> [] \<and> (\<forall>x\<in>set (snd g). wire_ready x)"
    using assms(6) by (auto dest: missing_known)
  have "\<forall>x\<in>set ?ds. applicable x" using assms(6) by (auto dest: missing_known)
  from apply_entries_ok [OF this, of st] obtain st' where st': "fold_r apply_entry st ?ds = Inr st'"
    unfolding is_ok_iff by blast
  let ?fr = "foldl (\<lambda>fr g. updateFrontier fr (fst g) (snd (last (snd g)))) fa ?groups"
  have app: "applySyncResponse resp st fa =
      Inr \<lparr>applied_state = st', applied_frontier = ?fr, applied_count = length ?ds\<rparr>"
    using apply_writers_ok [OF ready st', of 0 fa]
    by (simp add: applySyncResponse_def resp(2) patches_by_writer_sent [OF wf] cloneStateV5_def cloneFrontier_def)
  have "map_of ?fr = (\<lambda>w. if w \<in> set ?ws then Some (snd (last (missing la lb w))) else map_of fa w)"
    using updates_map_of [of ?ws "\<lambda>g. snd (last (snd g))" fa "missing la lb"] wf by (simp cong: if_cong)
  then have fr: "map_of ?fr = (\<lambda>w. if extends la lb w then map_of fb w else map_of fa w)"
    by (simp only: sent_frontier [OF assms(1,2)])
  have none: "missing la lb w = []" if "w \<notin> set (map_keys fb)" for w
  proof -
    have "map_of fb w = None" using that by (simp add: map_of_eq_None_iff)
    then have "lb w = []" using chains_at_log(1) [OF assms(2)] by simp
    then show ?thesis by (simp add: missing_def)
  qed
  have "x \<in> set ?ds \<longleftrightarrow> (\<exists>w. x \<in> set (missing la lb w))" for x
  proof -
    have "x \<in> set ?ds \<longleftrightarrow> (\<exists>w. w \<in> set (map_keys fb) \<and> missing la lb w \<noteq> [] \<and> x \<in> set (missing la lb w))" by auto
    then show ?thesis using none by force
  qed
  then have ds: "set ?ds = (\<Union>w. set (missing la lb w))" by blast
  have skip: "map fst (filter (\<lambda>e. \<not> extends la lb (fst e)) fb) = filter (\<lambda>w. \<not> extends la lb w) (map_keys fb)"
    by (induction fb) auto
  show ?thesis
    using resp(1,3) app st' ds fr skip by (intro exI [of _ resp] exI [of _ ?ds] exI) auto
qed

end
