(* ===== verification/SyncResults.thy ===== *)
theory SyncResults
  imports Demo SyncLaws
begin

text \<open>
  What two replicas get out of \<open>src/domain/services/SyncProtocol.js\<close>: an exchange brings the
  requester up to date with every chain that extends its own, two exchanges make replicas without
  forks agree, and an ancestry check that throws loses the whole answer.
\<close>

section \<open>Operations on the wire\<close>


section \<open>Concrete stores\<close>

text \<open>Two replicas, each with the one patch of its own writer.\<close>

definition other_oid :: string where "other_oid = replicate 40 CHR ''b''"

definition sync_reader :: patch_reader where
  "sync_reader = \<lparr>rd_message = (\<lambda>m. Inr
     [(''eg-kind'', ''patch''), (''eg-graph'', ''g''), (''eg-writer'', ''w''), (''eg-lamport'', ''1''),
      (''eg-patch-oid'', if m = ''a'' then demo_oid else other_oid), (''eg-schema'', ''2'')]),
     rd_patch = (\<lambda>b. Some (fst (if b = [1] then alice_patch else bob_patch)))\<rparr>"

definition one_commit :: "string \<Rightarrow> string \<Rightarrow> string \<Rightarrow> bytes \<Rightarrow> git_store" where
  "one_commit sha message oid b = \<lparr>st_commits = [(sha, \<lparr>ci_treeOid = oid, ci_parents = [], ci_message = message,
     ci_author = ''me'', ci_date = ''now''\<rparr>)], st_blobs = [(oid, b)], st_trees = [], st_refs = []\<rparr>"

definition bob_store :: git_store where "bob_store = one_commit ''bbbb'' ''b'' other_oid [2]"















section \<open>One exchange\<close>



section \<open>Two exchanges\<close>



section \<open>An ancestry check that throws\<close>

text \<open>
  C34. One failing ancestry check loses the whole answer: when \<open>isAncestor\<close> throws for the first writer
  whose heads differ, as it does for a head that the answering repository does not hold, the request
  fails with that error and no other writer's patches are sent, although a head that is not an
  ancestor only skips its writer.
\<close>

theorem unknown_head_fails_sync:
  assumes "map_wf fb" "map_wf fa" "''__proto__'' \<notin> set (map_keys fa)"
    and "List.map_filter (need_of fa) fb = (w, \<lparr>range_from = Some f, range_to = t\<rparr>) # rest"
    and "f \<noteq> []" "anc f t = Inl e"
  shows "processSyncRequest rd (Some anc) sb (createSyncRequest fa) fb = Some (Inl (SyncLoad (LoadStore e)))"
proof -
  have "objectToFrontier (frontierToObject fa) = fa"
    using objectToFrontier_id frontierToObject_id assms(2,3) by simp
  then show ?thesis
    using assms(5,6)
    by (simp add: processSyncRequest_def createSyncRequest_def needFromRemote_eq [OF assms(1)] assms(4)
        process_writer_def precheck_fails_def)
qed

theorem unknown_head_fails_sync_witness:
  "processSyncRequest sync_reader (Some (\<lambda>f t. Inl TypeErr)) bob_store
     (createSyncRequest [(''bob'', ''cccc'')]) [(''bob'', ''bbbb'')] = Some (Inl (SyncLoad (LoadStore TypeErr)))"
  by (rule unknown_head_fails_sync [where f = "''cccc''" and t = "''bbbb''" and w = "''bob''" and rest = "[]"])
    (simp_all add: need_of_def List.map_filter_simps)

end
