(* ===== verification/CheckpointState.thy ===== *)
theory CheckpointState
  imports Convergence Messages
begin

text \<open>
  \<open>src/domain/services/CheckpointSerializerV5.js\<close>: the full state as it is stored in a checkpoint,
  and the version vector of the dots it holds. The CBOR codec is the parameter \<open>encode\<close>/\<open>decode\<close>.
  A decoded object may lack fields and may carry the older form of birth events, so it has a type of
  its own; a register of a decoded object is never \<open>null\<close> here.
\<close>

section \<open>The stored form\<close>

record full_state =
  fs_version :: string
  fs_nodeAlive :: orset_ser
  fs_edgeAlive :: orset_ser
  fs_prop :: "(string \<times> lww_register) list"
  fs_observedFrontier :: "(string \<times> int) list"
  fs_edgeBirthEvent :: "(string \<times> event_id) list"

definition serializeLWWRegister :: "lww_register \<Rightarrow> lww_register" where
  "serializeLWWRegister register =
     \<lparr>reg_eventId = EventId (ev_lamport (reg_eventId register)) (ev_writerId (reg_eventId register))
        (ev_patchSha (reg_eventId register)) (ev_opIndex (reg_eventId register)),
      reg_value = reg_value register\<rparr>"

definition full_state_object :: "warp_state \<Rightarrow> full_state result" where
  "full_state_object st =
     bind_r (orsetSerialize (nodeAlive st)) (\<lambda>nodeAliveObj.
       bind_r (orsetSerialize (edgeAlive st)) (\<lambda>edgeAliveObj.
         let propArray = sort_by (\<lambda>a b. str_cmp (fst a) (fst b))
               (map (\<lambda>(key, register). (key, serializeLWWRegister register)) (propMap st))
         in bind_r (vvSerialize (observedFrontier st)) (\<lambda>observedFrontierObj.
              let edgeBirthArray = sort_by (\<lambda>a b. str_cmp (fst a) (fst b)) (edgeBirthEvent st)
              in Inr \<lparr>fs_version = ''full-v5'', fs_nodeAlive = nodeAliveObj, fs_edgeAlive = edgeAliveObj,
                   fs_prop = propArray, fs_observedFrontier = observedFrontierObj,
                   fs_edgeBirthEvent = edgeBirthArray\<rparr>)))"

definition serializeFullStateV5 :: "(full_state \<Rightarrow> 'bytes) \<Rightarrow> warp_state \<Rightarrow> 'bytes result" where
  "serializeFullStateV5 encode st = bind_r (full_state_object st) (\<lambda>obj. Inr (encode obj))"

section \<open>Reading it back\<close>

text \<open>An older birth event is a bare Lamport number.\<close>

datatype birth_value = BirthLamport int | BirthEvent event_id

record decoded_orset =
  do_entries :: "(string \<times> string list option) list option"
  do_tombstones :: "string list option"

record decoded_state =
  ds_version :: "string option"
  ds_nodeAlive :: "decoded_orset option"
  ds_edgeAlive :: "decoded_orset option"
  ds_prop :: "(string \<times> lww_register) list option"
  ds_observedFrontier :: "(string \<times> jsval) list option"
  ds_edgeBirthEvent :: "(string \<times> birth_value) list option"
  ds_edgeBirthLamport :: "(string \<times> birth_value) list option"

datatype checkpoint_error =
    StateVersion string
  | CkptState js_error
  | CkptStore js_error
  | CkptMessage msg_error
  | CkptSchema int
  | CkptMissing string

definition of_state :: "'a result \<Rightarrow> checkpoint_error + 'a" where
  "of_state r = (case r of Inl e \<Rightarrow> Inl (CkptState e) | Inr x \<Rightarrow> Inr x)"

definition deserialize_orset :: "decoded_orset option \<Rightarrow> orset" where
  "deserialize_orset obj =
     (case obj of None \<Rightarrow> orsetDeserialize None None | Some j \<Rightarrow> orsetDeserialize (do_entries j) (do_tombstones j))"

definition deserializeLWWRegister :: "lww_register \<Rightarrow> lww_register" where
  "deserializeLWWRegister obj =
     \<lparr>reg_eventId = EventId (ev_lamport (reg_eventId obj)) (ev_writerId (reg_eventId obj))
        (ev_patchSha (reg_eventId obj)) (ev_opIndex (reg_eventId obj)), reg_value = reg_value obj\<rparr>"

definition deserializeProps :: "(string \<times> lww_register) list option \<Rightarrow> (string, lww_register) jsmap" where
  "deserializeProps propArray =
     (case propArray of None \<Rightarrow> []
      | Some ps \<Rightarrow> foldl (\<lambda>prop (key, registerObj). map_set prop key (deserializeLWWRegister registerObj)) [] ps)"

definition birth_event :: "birth_value \<Rightarrow> event_id" where
  "birth_event v = (case v of BirthLamport l \<Rightarrow> EventId l [] ''0000'' 0
     | BirthEvent e \<Rightarrow> EventId (ev_lamport e) (ev_writerId e) (ev_patchSha e) (ev_opIndex e))"

definition deserializeEdgeBirthEvent :: "decoded_state \<Rightarrow> (string, event_id) jsmap" where
  "deserializeEdgeBirthEvent obj =
     (let birthData = (case ds_edgeBirthEvent obj of None \<Rightarrow> ds_edgeBirthLamport obj | Some b \<Rightarrow> Some b)
      in case birthData of None \<Rightarrow> []
         | Some bs \<Rightarrow> foldl (\<lambda>m (key, val). map_set m key (birth_event val)) [] bs)"

text \<open>The decoder returns \<open>None\<close> for \<open>null\<close> and \<open>undefined\<close>, and so may the caller pass no buffer.\<close>

definition deserializeFullStateV5 ::
  "('bytes \<Rightarrow> decoded_state option) \<Rightarrow> 'bytes option \<Rightarrow> checkpoint_error + warp_state" where
  "deserializeFullStateV5 decode buffer =
     (case buffer of None \<Rightarrow> Inr createEmptyStateV5
      | Some b \<Rightarrow>
          (case decode b of None \<Rightarrow> Inr createEmptyStateV5
           | Some obj \<Rightarrow>
               if ds_version obj \<noteq> None \<and> ds_version obj \<noteq> Some ''full-v5''
               then Inl (StateVersion (the (ds_version obj)))
               else bind_r (of_state (vvDeserialize (case ds_observedFrontier obj of None \<Rightarrow> [] | Some o' \<Rightarrow> o')))
                      (\<lambda>vv. Inr \<lparr>nodeAlive = deserialize_orset (ds_nodeAlive obj),
                        edgeAlive = deserialize_orset (ds_edgeAlive obj),
                        propMap = deserializeProps (ds_prop obj), observedFrontier = vv,
                        edgeBirthEvent = deserializeEdgeBirthEvent obj\<rparr>)))"

section \<open>The applied version vector\<close>

definition scan_dot :: "version_vector \<Rightarrow> string \<Rightarrow> version_vector result" where
  "scan_dot vv encodedDot =
     bind_r (decodeDot encodedDot) (\<lambda>dot.
       let current = vv_get vv (dot_writerId dot)
       in Inr (if dot_counter dot > current then map_set vv (dot_writerId dot) (dot_counter dot) else vv))"

definition scanORSet :: "version_vector \<Rightarrow> orset \<Rightarrow> version_vector result" where
  "scanORSet vv s = fold_r (fold_r scan_dot) vv (map snd (entries s))"

definition computeAppliedVV :: "warp_state \<Rightarrow> version_vector result" where
  "computeAppliedVV st = bind_r (scanORSet [] (nodeAlive st)) (\<lambda>vv. scanORSet vv (edgeAlive st))"

definition serializeAppliedVV :: "((string \<times> int) list \<Rightarrow> 'bytes) \<Rightarrow> version_vector \<Rightarrow> 'bytes result" where
  "serializeAppliedVV encode vv = bind_r (vvSerialize vv) (\<lambda>obj. Inr (encode obj))"

definition deserializeAppliedVV :: "('bytes \<Rightarrow> (string \<times> jsval) list) \<Rightarrow> 'bytes \<Rightarrow> version_vector result" where
  "deserializeAppliedVV decode buffer = vvDeserialize (decode buffer)"

section \<open>Round trip\<close>

text \<open>What a codec that keeps the object returns for it.\<close>

definition decoded_orset_of :: "orset_ser \<Rightarrow> decoded_orset" where
  "decoded_orset_of j = \<lparr>do_entries = Some (map (\<lambda>(e, ds). (e, Some ds)) (ser_entries j)),
     do_tombstones = Some (ser_tombstones j)\<rparr>"

definition decoded_of :: "full_state \<Rightarrow> decoded_state" where
  "decoded_of f = \<lparr>ds_version = Some (fs_version f), ds_nodeAlive = Some (decoded_orset_of (fs_nodeAlive f)),
     ds_edgeAlive = Some (decoded_orset_of (fs_edgeAlive f)), ds_prop = Some (fs_prop f),
     ds_observedFrontier = Some (map (\<lambda>(k, c). (k, JNum c)) (fs_observedFrontier f)),
     ds_edgeBirthEvent = Some (map (\<lambda>(k, e). (k, BirthEvent e)) (fs_edgeBirthEvent f)),
     ds_edgeBirthLamport = None\<rparr>"

lemma register_copied [simp]: "serializeLWWRegister r = r" "deserializeLWWRegister r = r"
  by (simp_all add: serializeLWWRegister_def deserializeLWWRegister_def)

lemma birth_event_BirthEvent [simp]: "birth_event (BirthEvent e) = e"
  by (simp add: birth_event_def)

lemma deserialize_orset_decoded [simp]: "deserialize_orset (Some (decoded_orset_of j)) = read_ser j"
  by (simp add: deserialize_orset_def decoded_orset_of_def read_ser_def)

lemma map_of_sort_key: "map_wf m \<Longrightarrow> map_of (sort_key fst m) = map_of m" "map_wf m \<Longrightarrow> map_wf (sort_key fst m)"
proof -
  assume wf: "map_wf m"
  have "mset (map fst (sort_key fst m)) = mset (map fst m)" by (simp only: mset_map mset_sort)
  then show s: "map_wf (sort_key fst m)" using wf mset_eq_imp_distinct_iff by blast
  show "map_of (sort_key fst m) = map_of m" using map_of_inject_set [OF s wf] by simp
qed

lemma rebuilt_map:
  assumes "map_wf m"
  shows "foldl (\<lambda>prop (key, x). map_set prop key (f x)) [] m = map (\<lambda>(k, x). (k, f x)) m"
proof -
  have "foldl (\<lambda>prop (key, x). map_set prop key (f x)) acc m =
      foldl (\<lambda>m (k, v). map_set m k v) acc (map (\<lambda>(k, x). (k, f x)) m)" for acc
    by (induction m arbitrary: acc) auto
  then show ?thesis
    using map_set_appends [of "[]" "map (\<lambda>(k, x). (k, f x)) m"] assms by (simp add: comp_def case_prod_unfold)
qed

lemma deserializeProps_sorted: "map_wf m \<Longrightarrow> deserializeProps (Some (sort_key fst m)) = sort_key fst m"
  using rebuilt_map [OF map_of_sort_key(2), of m "\<lambda>x. x"] by (simp add: deserializeProps_def)

lemma deserializeBirth_sorted:
  "map_wf m \<Longrightarrow> foldl (\<lambda>m (key, val). map_set m key (birth_event val)) []
     (map (\<lambda>(k, e). (k, BirthEvent e)) (sort_key fst m)) = sort_key fst m"
proof -
  assume wf: "map_wf m"
  then have "map_wf (map (\<lambda>(k, e). (k, BirthEvent e)) (sort_key fst m))"
    using map_of_sort_key(2) by (simp add: comp_def case_prod_unfold)
  from rebuilt_map [OF this, of birth_event] show ?thesis by (simp add: comp_def case_prod_unfold)
qed

text \<open>States whose dots and counters the code made.\<close>

definition storable :: "warp_state \<Rightarrow> bool" where
  "storable st \<longleftrightarrow> state_wf st \<and> dots_encoded (nodeAlive st) \<and> dots_encoded (edgeAlive st) \<and>
     vv_positive (observedFrontier st) \<and> map_of (observedFrontier st) ''__proto__'' = None"

lemma full_state_read_back:
  assumes "storable st"
  obtains obj st' where "full_state_object st = Inr obj" "state_abs st' = state_abs st" "state_wf st'"
    "\<And>decode buf. decode buf = Some (decoded_of obj) \<Longrightarrow> deserializeFullStateV5 decode (Some buf) = Inr st'"
proof -
  have wf: "orset_wf (nodeAlive st)" "orset_wf (edgeAlive st)" "map_wf (propMap st)" "map_wf (edgeBirthEvent st)"
    and enc: "dots_encoded (nodeAlive st)" "dots_encoded (edgeAlive st)"
    and vv: "vv_positive (observedFrontier st)" "map_of (observedFrontier st) ''__proto__'' = None"
    using assms by (simp_all add: storable_def state_wf_def)
  obtain n where n: "orsetSerialize (nodeAlive st) = Inr n" using orsetSerialize_eq [OF wf(1) enc(1)] by blast
  obtain e where e: "orsetSerialize (edgeAlive st) = Inr e" using orsetSerialize_eq [OF wf(2) enc(2)] by blast
  obtain o1 vv' where o1: "vvSerialize (observedFrontier st) = Inr o1"
      "vvDeserialize (map (\<lambda>(k, c). (k, JNum c)) o1) = Inr vv'"
      "map_of vv' = (\<lambda>k. if k = ''__proto__'' then None else map_of (observedFrontier st) k)"
    using vv_roundtrip [OF vv(1)] by blast
  then have o2: "map_of vv' = map_of (observedFrontier st)" using vv(2) by (auto simp: fun_eq_iff)
  let ?obj = "\<lparr>fs_version = ''full-v5'', fs_nodeAlive = n, fs_edgeAlive = e, fs_prop = sort_key fst (propMap st),
    fs_observedFrontier = o1, fs_edgeBirthEvent = sort_key fst (edgeBirthEvent st)\<rparr>"
  let ?st = "\<lparr>nodeAlive = read_ser n, edgeAlive = read_ser e, propMap = sort_key fst (propMap st),
    observedFrontier = vv', edgeBirthEvent = sort_key fst (edgeBirthEvent st)\<rparr>"
  have "map (\<lambda>(key, register). (key, serializeLWWRegister register)) m = m" for m :: "(string, lww_register) jsmap"
    by (simp add: case_prod_unfold)
  then have obj: "full_state_object st = Inr ?obj"
    by (simp add: full_state_object_def n e o1(1) Let_def sort_by_str_key)
  have reads: "deserializeFullStateV5 decode (Some buf) = Inr ?st" if "decode buf = Some (decoded_of ?obj)" for decode buf
    using that deserializeBirth_sorted [OF wf(4)] deserializeProps_sorted [OF wf(3)] o1(2)
    by (simp add: deserializeFullStateV5_def decoded_of_def of_state_def deserializeEdgeBirthEvent_def)
  have abs: "state_abs ?st = state_abs st"
    using orset_roundtrip(1) [OF wf(1) enc(1) n] orset_roundtrip(1) [OF wf(2) enc(2) e] wf(3,4) o2
    by (simp add: state_abs_def map_of_sort_key)
  have "vv_wf vv'" using vvDeserialize_wf [OF o1(2)] .
  then have "state_wf ?st"
    using orset_roundtrip(2) [OF wf(1) enc(1) n] orset_roundtrip(2) [OF wf(2) enc(2) e] wf(3,4)
    by (simp add: state_wf_def map_of_sort_key)
  then show thesis using that [OF obj abs _ reads] by blast
qed

section \<open>What the applied vector covers\<close>

definition covers :: "version_vector \<Rightarrow> string \<Rightarrow> bool" where
  "covers vv d \<longleftrightarrow> (\<forall>dot. decodeDot d = Inr dot \<longrightarrow> dot_counter dot \<le> vv_get vv (dot_writerId dot))"

lemma scan_dot_grows:
  assumes "scan_dot vv d = Inr vv'" "vv_positive vv"
  shows "vv_positive vv'" "covers vv' d" "vv_get vv w \<le> vv_get vv' w"
proof -
  obtain dot where dot: "decodeDot d = Inr dot"
      "vv' = (if dot_counter dot > vv_get vv (dot_writerId dot) then map_set vv (dot_writerId dot) (dot_counter dot) else vv)"
    using assms(1) by (auto simp: scan_dot_def bind_r_Inr_iff Let_def)
  have "0 < dot_counter dot" using decodeDot_valid [OF dot(1)] by (simp add: dot_valid_def)
  then show "vv_positive vv'" using assms(2) by (simp add: dot(2) vv_positive_def)
  show "covers vv' d" "vv_get vv w \<le> vv_get vv' w"
    by (simp_all add: covers_def dot(1)) (simp_all add: dot(2) vv_get_def)
qed

lemma covers_mono: "covers vv d \<Longrightarrow> (\<And>w. vv_get vv w \<le> vv_get vv' w) \<Longrightarrow> covers vv' d"
  unfolding covers_def using order_trans by blast

lemma scan_dots_grow:
  assumes "fold_r scan_dot vv ds = Inr vv'" "vv_positive vv"
  shows "vv_positive vv' \<and> (\<forall>d\<in>set ds. covers vv' d) \<and> (\<forall>w. vv_get vv w \<le> vv_get vv' w)"
  using assms
proof (induction ds arbitrary: vv)
  case Nil
  then show ?case by simp
next
  case (Cons d ds)
  then obtain v1 where v1: "scan_dot vv d = Inr v1" "fold_r scan_dot v1 ds = Inr vv'"
    by (auto simp: bind_r_Inr_iff)
  note g = scan_dot_grows [OF v1(1) Cons.prems(2)]
  from Cons.IH [OF v1(2) g(1)] g(2,3) show ?case by (auto intro: covers_mono order_trans)
qed

lemma scanORSet_grows:
  assumes "scanORSet vv s = Inr vv'" "vv_positive vv"
  shows "vv_positive vv' \<and> (\<forall>e. \<forall>d\<in>orset_dots s e. covers vv' d) \<and> (\<forall>w. vv_get vv w \<le> vv_get vv' w)"
proof -
  have fold: "vv_positive vv' \<and> (\<forall>ds\<in>set dss. \<forall>d\<in>set ds. covers vv' d) \<and> (\<forall>w. vv_get vv w \<le> vv_get vv' w)"
    if "fold_r (fold_r scan_dot) vv dss = Inr vv'" "vv_positive vv" for dss vv
    using that
  proof (induction dss arbitrary: vv)
    case Nil
    then show ?case by simp
  next
    case (Cons ds dss)
    then obtain v1 where v1: "fold_r scan_dot vv ds = Inr v1" "fold_r (fold_r scan_dot) v1 dss = Inr vv'"
      by (auto simp: bind_r_Inr_iff)
    note g = scan_dots_grow [OF v1(1) Cons.prems(2)]
    from Cons.IH [OF v1(2)] g show ?case by (auto intro: covers_mono order_trans)
  qed
  have "\<exists>ds\<in>set (map snd (entries s)). d \<in> set ds" if "d \<in> orset_dots s e" for d e
    using that by (auto simp: orset_dots_def split: option.splits dest!: map_of_SomeD) force
  then show ?thesis using fold [OF assms(1) [unfolded scanORSet_def] assms(2)] by blast
qed

lemma computeAppliedVV_covers:
  assumes "computeAppliedVV st = Inr vv"
  shows "vv_positive vv" "d \<in> orset_dots (nodeAlive st) n \<Longrightarrow> covers vv d" "d \<in> orset_dots (edgeAlive st) k \<Longrightarrow> covers vv d"
proof -
  obtain v1 where v: "scanORSet [] (nodeAlive st) = Inr v1" "scanORSet v1 (edgeAlive st) = Inr vv"
    using assms by (auto simp: computeAppliedVV_def bind_r_Inr_iff)
  have "vv_positive ([] :: version_vector)" by (simp add: vv_positive_def)
  note a = scanORSet_grows [OF v(1) this]
  then have b: "vv_positive vv \<and> (\<forall>e. \<forall>d\<in>orset_dots (edgeAlive st) e. covers vv d) \<and> (\<forall>w. vv_get v1 w \<le> vv_get vv w)"
    using scanORSet_grows [OF v(2)] by blast
  then show "vv_positive vv" "d \<in> orset_dots (nodeAlive st) n \<Longrightarrow> covers vv d" "d \<in> orset_dots (edgeAlive st) k \<Longrightarrow> covers vv d"
    using a by (blast intro: covers_mono)+
qed

end
