(* ===== verification/Checkpoints.thy ===== *)
theory Checkpoints
  imports CheckpointState PatchBuilder Frontier Visibility ReductionLaws
begin

text \<open>
  \<open>src/domain/services/CheckpointService.js\<close>: writing a checkpoint of a state, loading it and
  materialising from it. Codecs and the state hash are parameters. The provenance index and the
  shards of the bitmap index come in as the bytes that their own services made.
\<close>

definition CHECKPOINT_SCHEMA_STANDARD :: int where "CHECKPOINT_SCHEMA_STANDARD = 2"
definition CHECKPOINT_SCHEMA_INDEX_TREE :: int where "CHECKPOINT_SCHEMA_INDEX_TREE = 4"
definition CONTENT_ANCHOR_BATCH_SIZE :: nat where "CONTENT_ANCHOR_BATCH_SIZE = 256"

record checkpoint_codec =
  cc_state :: "full_state \<Rightarrow> bytes"
  cc_readState :: "bytes \<Rightarrow> decoded_state option"
  cc_frontier :: "(string \<times> string) list \<Rightarrow> bytes"
  cc_readFrontier :: "bytes \<Rightarrow> (string \<times> string) list"
  cc_vv :: "(string \<times> int) list \<Rightarrow> bytes"
  cc_readVV :: "bytes \<Rightarrow> (string \<times> jsval) list"
  cc_projection :: "projection \<Rightarrow> bytes"
  cc_sha256 :: "bytes \<Rightarrow> string"

section \<open>Helpers\<close>

definition blob_line :: "string \<Rightarrow> string \<Rightarrow> string" where
  "blob_line oid path = ''100644 blob '' @ oid @ CHR 0x09 # path"

definition write_shard :: "hash_fun \<Rightarrow> (string \<times> bytes) list \<Rightarrow> git_store \<times> string list \<Rightarrow> string \<Rightarrow> git_store \<times> string list" where
  "write_shard hash indexTree acc p =
     (let (s', oid) = writeBlob hash (fst acc) (the (map_of indexTree p)) in (s', snd acc @ [blob_line oid p]))"

definition writeIndexSubtree :: "hash_fun \<Rightarrow> git_store \<Rightarrow> (string \<times> bytes) list \<Rightarrow> git_store \<times> string result" where
  "writeIndexSubtree hash s indexTree =
     (let (s1, ls) = foldl (write_shard hash indexTree) (s, []) (sort (map_keys indexTree))
      in case writeTree hash s1 ls of Inl e \<Rightarrow> (s1, Inl e) | Inr (s2, oid) \<Rightarrow> (s2, Inr oid))"

definition partition_step ::
  "(string \<times> string) list \<times> (string \<times> string) list \<Rightarrow> string \<times> string \<Rightarrow> (string \<times> string) list \<times> (string \<times> string) list" where
  "partition_step acc entry =
     (let (path, oid) = entry in
      if starts_with path ''index/'' then (fst acc, obj_set_prim (snd acc) (drop 6 path) oid)
      else (obj_set_prim (fst acc) path oid, snd acc))"

definition partitionTreeOids :: "(string \<times> string) list \<Rightarrow> (string \<times> string) list \<times> (string \<times> string) list" where
  "partitionTreeOids rawOids = foldl partition_step ([], []) rawOids"

definition path_of :: "string \<Rightarrow> string" where
  "path_of line = (case split_first (CHR 0x09) line of None \<Rightarrow> line | Some (_, path) \<Rightarrow> path)"

definition compareTreeEntriesByPath :: "string \<Rightarrow> string \<Rightarrow> int" where
  "compareTreeEntriesByPath left right =
     (let leftPath = path_of left; rightPath = path_of right
      in if leftPath < rightPath then -1 else if leftPath > rightPath then 1 else 0)"

fun mergeSortedUniqueStrings :: "string list \<Rightarrow> string list \<Rightarrow> string list" where
  "mergeSortedUniqueStrings [] incoming = incoming"
| "mergeSortedUniqueStrings existing [] = existing"
| "mergeSortedUniqueStrings (left # existing) (right # incoming) =
     (if left = right then left # mergeSortedUniqueStrings existing incoming
      else if left < right then left # mergeSortedUniqueStrings existing (right # incoming)
      else right # mergeSortedUniqueStrings (left # existing) incoming)"

definition flushBatch :: "string list \<times> string jsset \<Rightarrow> string list \<times> string jsset" where
  "flushBatch acc =
     (if length (snd acc) = 0 then acc else (mergeSortedUniqueStrings (fst acc) (sort (snd acc)), []))"

definition decoded_prop_key :: "string \<Rightarrow> string option result" where
  "decoded_prop_key propKey =
     (if isEdgePropKey propKey then bind_r (decodeEdgePropKey propKey) (\<lambda>(_, _, _, k). Inr (Some k))
      else Inr (snd (decodePropKey propKey)))"

definition anchor_step ::
  "string list \<times> string jsset \<Rightarrow> string \<times> lww_register \<Rightarrow> (string list \<times> string jsset) result" where
  "anchor_step acc entry =
     (let (propKey, register) = entry in
      bind_r (decoded_prop_key propKey) (\<lambda>decodedKey.
        if decodedKey \<noteq> Some CONTENT_PROPERTY_KEY \<or> js_typeof (reg_value register) \<noteq> ''string'' then Inr acc
        else let batch = set_add (snd acc) (js_str (reg_value register))
             in Inr (if length batch \<ge> CONTENT_ANCHOR_BATCH_SIZE then flushBatch (fst acc, batch) else (fst acc, batch))))"

definition collectContentAnchorEntries :: "(string, lww_register) jsmap \<Rightarrow> string list result" where
  "collectContentAnchorEntries props =
     bind_r (fold_r anchor_step ([], []) props) (\<lambda>acc.
       Inr (map (\<lambda>oid. blob_line oid (''_content_'' @ oid)) (fst (flushBatch acc))))"

section \<open>Writing a checkpoint\<close>

record checkpoint_input =
  ki_graphName :: string
  ki_state :: warp_state
  ki_frontier :: frontier
  ki_parents :: "string list"
  ki_compact :: bool
  ki_provenance :: "bytes option"
  ki_indexTree :: "(string \<times> bytes) list option"

definition compact_state :: "warp_state \<Rightarrow> version_vector \<Rightarrow> warp_state result" where
  "compact_state st appliedVV =
     bind_r (orsetCompact (nodeAlive st) appliedVV) (\<lambda>nodes.
       bind_r (orsetCompact (edgeAlive st) appliedVV) (\<lambda>edges.
         Inr (st\<lparr>nodeAlive := nodes, edgeAlive := edges\<rparr>)))"

text \<open>What is computed before anything is written: the state to store, and the three buffers.\<close>

record checkpoint_content =
  kc_state :: warp_state
  kc_stateBuf :: bytes
  kc_hash :: string
  kc_frontierBuf :: bytes
  kc_vvBuf :: bytes

definition checkpoint_content :: "checkpoint_codec \<Rightarrow> checkpoint_input \<Rightarrow> checkpoint_content result" where
  "checkpoint_content cc ki =
     bind_r (computeAppliedVV (ki_state ki)) (\<lambda>appliedVV.
       bind_r (if ki_compact ki then compact_state (cloneStateV5 (ki_state ki)) appliedVV else Inr (ki_state ki)) (\<lambda>checkpointState.
         bind_r (serializeFullStateV5 (cc_state cc) checkpointState) (\<lambda>stateBuffer.
           bind_r (serializeAppliedVV (cc_vv cc) appliedVV) (\<lambda>appliedVVBuffer.
             Inr \<lparr>kc_state = checkpointState, kc_stateBuf = stateBuffer,
               kc_hash = computeStateHashV5 (cc_sha256 cc) (cc_projection cc) checkpointState,
               kc_frontierBuf = serializeFrontier (cc_frontier cc) (ki_frontier ki), kc_vvBuf = appliedVVBuffer\<rparr>))))"

definition write_provenance :: "hash_fun \<Rightarrow> git_store \<Rightarrow> bytes option \<Rightarrow> git_store \<times> string option" where
  "write_provenance hash s prov =
     (case prov of None \<Rightarrow> (s, None) | Some buf \<Rightarrow> let (s', oid) = writeBlob hash s buf in (s', Some oid))"

definition write_index :: "hash_fun \<Rightarrow> git_store \<Rightarrow> (string \<times> bytes) list option \<Rightarrow> git_store \<times> string option result" where
  "write_index hash s indexTree =
     (case indexTree of None \<Rightarrow> (s, Inr None)
      | Some tree \<Rightarrow>
          (case writeIndexSubtree hash s tree of (s', Inl e) \<Rightarrow> (s', Inl e) | (s', Inr oid) \<Rightarrow> (s', Inr (Some oid))))"

definition checkpoint_lines :: "string list \<Rightarrow> string \<Rightarrow> string \<Rightarrow> string \<Rightarrow> string option \<Rightarrow> string option \<Rightarrow> string list" where
  "checkpoint_lines anchors vvOid frontierOid stateOid provOid indexOid =
     sort_by compareTreeEntriesByPath
       (anchors @ [blob_line vvOid ''appliedVV.cbor'', blob_line frontierOid ''frontier.cbor'', blob_line stateOid ''state.cbor''] @
        (case provOid of None \<Rightarrow> [] | Some oid \<Rightarrow> [blob_line oid ''provenanceIndex.cbor'']) @
        (case indexOid of None \<Rightarrow> [] | Some oid \<Rightarrow> [''040000 tree '' @ oid @ CHR 0x09 # ''index'']))"

definition createV5 ::
  "environment \<Rightarrow> checkpoint_codec \<Rightarrow> git_store \<Rightarrow> checkpoint_input \<Rightarrow> git_store \<times> (checkpoint_error + string)" where
  "createV5 env cc s ki =
     (case checkpoint_content cc ki of
        Inl e \<Rightarrow> (s, Inl (CkptState e))
      | Inr c \<Rightarrow>
          let (s1, stateOid) = writeBlob (env_hash env) s (kc_stateBuf c);
              (s2, frontierOid) = writeBlob (env_hash env) s1 (kc_frontierBuf c);
              (s3, vvOid) = writeBlob (env_hash env) s2 (kc_vvBuf c);
              (s4, provOid) = write_provenance (env_hash env) s3 (ki_provenance ki)
          in (case write_index (env_hash env) s4 (ki_indexTree ki) of
                (s5, Inl e) \<Rightarrow> (s5, Inl (CkptStore e))
              | (s5, Inr indexOid) \<Rightarrow>
                  (case collectContentAnchorEntries (propMap (kc_state c)) of
                     Inl e \<Rightarrow> (s5, Inl (CkptState e))
                   | Inr anchors \<Rightarrow>
                       (case writeTree (env_hash env) s5 (checkpoint_lines anchors vvOid frontierOid stateOid provOid indexOid) of
                          Inl e \<Rightarrow> (s5, Inl (CkptStore e))
                        | Inr (s6, treeOid) \<Rightarrow>
                            (case encodeCheckpointMessage (env_encodeMsg env)
                                    \<lparr>cm_graph = ki_graphName ki, cm_stateHash = kc_hash c, cm_frontierOid = frontierOid,
                                     cm_indexOid = treeOid,
                                     cm_schema = (if ki_indexTree ki \<noteq> None then CHECKPOINT_SCHEMA_INDEX_TREE
                                                  else CHECKPOINT_SCHEMA_STANDARD), cm_version = None\<rparr> of
                               Inl e \<Rightarrow> (s6, Inl (CkptMessage e))
                             | Inr message \<Rightarrow>
                                 (case commitNodeWithTree (env_hash env) (env_author env) (env_date env) s6 treeOid
                                         (ki_parents ki) message of
                                    Inl e \<Rightarrow> (s6, Inl (CkptStore e))
                                  | Inr (s7, sha) \<Rightarrow> (s7, Inr sha)))))))"

definition create_checkpoint ::
  "environment \<Rightarrow> checkpoint_codec \<Rightarrow> git_store \<Rightarrow> checkpoint_input \<Rightarrow> git_store \<times> (checkpoint_error + string)" where
  "create_checkpoint env cc s ki = createV5 env cc s ki"

section \<open>Loading a checkpoint\<close>

record checkpoint =
  ck_state :: warp_state
  ck_frontier :: frontier
  ck_stateHash :: string
  ck_schema :: int
  ck_appliedVV :: "version_vector option"
  ck_provenance :: "bytes option"
  ck_indexShardOids :: "(string \<times> string) list option"

definition of_ckpt_store :: "'a result \<Rightarrow> checkpoint_error + 'a" where
  "of_ckpt_store r = (case r of Inl e \<Rightarrow> Inl (CkptStore e) | Inr x \<Rightarrow> Inr x)"

definition of_ckpt_message :: "'a msg_result \<Rightarrow> checkpoint_error + 'a" where
  "of_ckpt_message r = (case r of Inl e \<Rightarrow> Inl (CkptMessage e) | Inr x \<Rightarrow> Inr x)"

text \<open>An entry of the tree: an empty object id counts as missing.\<close>

definition tree_blob :: "git_store \<Rightarrow> (string \<times> string) list \<Rightarrow> string \<Rightarrow> checkpoint_error + bytes option" where
  "tree_blob s treeOids path =
     (case map_of treeOids path of
        None \<Rightarrow> Inr None
      | Some oid \<Rightarrow> if oid = [] then Inr None else bind_r (of_ckpt_store (readBlob s oid)) (\<lambda>b. Inr (Some b)))"

definition require_blob :: "git_store \<Rightarrow> (string \<times> string) list \<Rightarrow> string \<Rightarrow> checkpoint_error + bytes" where
  "require_blob s treeOids path =
     bind_r (tree_blob s treeOids path) (\<lambda>b. case b of None \<Rightarrow> Inl (CkptMissing path) | Some buf \<Rightarrow> Inr buf)"

definition loadCheckpoint ::
  "checkpoint_codec \<Rightarrow> (string \<Rightarrow> trailers msg_result) \<Rightarrow> git_store \<Rightarrow> string \<Rightarrow> checkpoint_error + checkpoint" where
  "loadCheckpoint cc decode_msg s checkpointSha =
     bind_r (of_ckpt_store (showNode s checkpointSha)) (\<lambda>message.
       bind_r (of_ckpt_message (decodeCheckpointMessage decode_msg message)) (\<lambda>decoded.
         if cm_schema decoded \<noteq> 2 \<and> cm_schema decoded \<noteq> 3 \<and> cm_schema decoded \<noteq> 4
         then Inl (CkptSchema (cm_schema decoded))
         else bind_r (of_ckpt_store (readTreeOids s (cm_indexOid decoded))) (\<lambda>rawTreeOids.
           let (treeOids, indexShardOids) = partitionTreeOids rawTreeOids in
           bind_r (require_blob s treeOids ''frontier.cbor'') (\<lambda>frontierBuffer.
             let fr = deserializeFrontier (cc_readFrontier cc) frontierBuffer in
             bind_r (require_blob s treeOids ''state.cbor'') (\<lambda>stateBuffer.
               bind_r (deserializeFullStateV5 (cc_readState cc) (Some stateBuffer)) (\<lambda>st.
                 bind_r (tree_blob s treeOids ''appliedVV.cbor'') (\<lambda>vvBuffer.
                   bind_r (case vvBuffer of None \<Rightarrow> Inr None
                           | Some buf \<Rightarrow> bind_r (of_state (deserializeAppliedVV (cc_readVV cc) buf)) (\<lambda>vv. Inr (Some vv))) (\<lambda>appliedVV.
                     bind_r (tree_blob s treeOids ''provenanceIndex.cbor'') (\<lambda>provenance.
                       Inr \<lparr>ck_state = st, ck_frontier = fr, ck_stateHash = cm_stateHash decoded,
                         ck_schema = cm_schema decoded, ck_appliedVV = appliedVV, ck_provenance = provenance,
                         ck_indexShardOids = (if length indexShardOids > 0 then Some indexShardOids else None)\<rparr>)))))))))"

section \<open>Materialising from a checkpoint\<close>

text \<open>The loader of patches is the caller's; it may throw.\<close>

type_synonym patch_loader = "string \<Rightarrow> string option \<Rightarrow> string \<Rightarrow> checkpoint_error + (patch \<times> string) list"

definition load_since :: "patch_loader \<Rightarrow> frontier \<Rightarrow> (patch \<times> string) list \<Rightarrow> string \<times> string \<Rightarrow> checkpoint_error + (patch \<times> string) list" where
  "load_since patchLoader checkpointFrontier allPatches entry =
     (let (writerId, targetSha) = entry;
          cpSha = (case map_of checkpointFrontier writerId of None \<Rightarrow> None | Some c \<Rightarrow> if c = [] then None else Some c)
      in bind_r (patchLoader writerId cpSha targetSha) (\<lambda>patches. Inr (allPatches @ patches)))"

definition materializeIncremental ::
  "checkpoint_codec \<Rightarrow> (string \<Rightarrow> trailers msg_result) \<Rightarrow> git_store \<Rightarrow> string \<Rightarrow> frontier \<Rightarrow> patch_loader \<Rightarrow>
   checkpoint_error + warp_state" where
  "materializeIncremental cc decode_msg s checkpointSha targetFrontier patchLoader =
     bind_r (loadCheckpoint cc decode_msg s checkpointSha) (\<lambda>ckpt.
       bind_r (fold_r (load_since patchLoader (ck_frontier ckpt)) [] targetFrontier) (\<lambda>allPatches.
         if length allPatches = 0 then Inr (ck_state ckpt)
         else bind_r (of_state (reduceV5 allPatches (Some (ck_state ckpt)) None)) (\<lambda>r. Inr (reduced_state r))))"

section \<open>A projection read back as a state\<close>

definition synthetic_event :: event_id where
  "synthetic_event = EventId 0 ''__checkpoint__'' (replicate 40 CHR ''0'') 0"

definition rebuilt_set :: "string list \<Rightarrow> orset" where
  "rebuilt_set xs = foldl (\<lambda>s e. orset_insert s e (encodeDot (Dot ''__checkpoint__'' 1))) createORSet xs"

text \<open>A missing part prints as \<open>undefined\<close> in a template string.\<close>

definition opt_text :: "string option \<Rightarrow> string" where
  "opt_text x = (case x of None \<Rightarrow> ''undefined'' | Some s \<Rightarrow> s)"

definition projected_edge_key :: "edge_parts \<Rightarrow> string" where
  "projected_edge_key e = encodeEdgeKey (opt_text (part_from e)) (opt_text (part_to e)) (opt_text (part_label e))"

definition reconstructStateV5FromCheckpoint :: "projection \<Rightarrow> warp_state" where
  "reconstructStateV5FromCheckpoint visibleProjection =
     \<lparr>nodeAlive = rebuilt_set (proj_nodes visibleProjection),
      edgeAlive = rebuilt_set (map projected_edge_key (proj_edges visibleProjection)),
      propMap = foldl (\<lambda>m p. map_set m (encodePropKey (opt_text (vp_node p)) (opt_text (vp_key p))) (lwwSet synthetic_event (vp_value p)))
        [] (proj_props visibleProjection),
      observedFrontier = createVersionVector,
      edgeBirthEvent = foldl (\<lambda>m e. map_set m (projected_edge_key e) (EventId 0 [] ''0000'' 0))
        [] (proj_edges visibleProjection)\<rparr>"

end
