(* ===== verification/CheckpointLaws.thy ===== *)
theory CheckpointLaws
  imports Checkpoints Compaction
begin

text \<open>
  Why a compacted checkpoint may replace the history it was taken from: a compaction forgets dots
  together with their tombstones, so the rest of a log sees no difference as long as it adds none of
  the forgotten dots again. And why loading returns what was written.
\<close>

section \<open>The view of a state\<close>

definition same_view :: "warp_state \<Rightarrow> warp_state \<Rightarrow> bool" where
  "same_view a b \<longleftrightarrow> (\<forall>n. orsetContains (nodeAlive a) n = orsetContains (nodeAlive b) n) \<and>
     (\<forall>k. orsetContains (edgeAlive a) k = orsetContains (edgeAlive b) k) \<and>
     map_of (propMap a) = map_of (propMap b) \<and> map_of (edgeBirthEvent a) = map_of (edgeBirthEvent b) \<and>
     map_of (observedFrontier a) = map_of (observedFrontier b)"

lemma same_view_visible:
  assumes "same_view a b"
  shows "nodeVisibleV5 a = nodeVisibleV5 b" "edgeVisibleV5 a = edgeVisibleV5 b"
proof -
  show n: "nodeVisibleV5 a = nodeVisibleV5 b"
    using assms by (simp add: same_view_def nodeVisibleV5_def fun_eq_iff split: option.split)
  show "edgeVisibleV5 a = edgeVisibleV5 b"
    using assms by (simp add: same_view_def edgeVisibleV5_def n fun_eq_iff)
qed

section \<open>Replaying from equal registers\<close>

definition same_registers :: "warp_state \<Rightarrow> warp_state \<Rightarrow> bool" where
  "same_registers a b \<longleftrightarrow> map_of (propMap a) = map_of (propMap b) \<and> map_of (edgeBirthEvent a) = map_of (edgeBirthEvent b)"

lemma run_effect_registers:
  "same_registers a b \<Longrightarrow> same_registers (run_effect e a eff) (run_effect e b eff)"
  by (cases eff) (simp_all add: same_registers_def setProp_eq trackBirth_map_of)

lemma run_all_registers: "same_registers a b \<Longrightarrow> same_registers (run_all a log) (run_all b log)"
  by (induction log arbitrary: a b) (simp_all add: run_effect_registers)

lemma observe_cong: "map_of f = map_of g \<Longrightarrow> vv_wf cvv \<Longrightarrow> map_of (observe cvv p f) = map_of (observe cvv p g)"
  by (simp add: observe_def foldPatchDot_def Let_def vv_get_def vvMerge_map_of)

lemma observe_all_cong:
  "map_of f = map_of g \<Longrightarrow> \<forall>x\<in>set ps. context_wf (fst x) \<Longrightarrow> map_of (observe_all f ps) = map_of (observe_all g ps)"
proof (induction ps arbitrary: f g)
  case Nil
  then show ?case by (simp add: observe_all_def)
next
  case (Cons x ps)
  have "map_of (observe (entry_context (fst x)) (fst x) f) = map_of (observe (entry_context (fst x)) (fst x) g)"
    using Cons.prems by (intro observe_cong entry_context_wf) auto
  from Cons.IH [OF this] Cons.prems(2) show ?case by (simp add: observe_all_def)
qed

section \<open>Forgetting\<close>

text \<open>\<open>b\<close> is \<open>a\<close> without some tombstoned dots and without their tombstones.\<close>

definition forgets :: "string set \<Rightarrow> orset \<Rightarrow> orset \<Rightarrow> bool" where
  "forgets C a b \<longleftrightarrow> C \<subseteq> orset_tombs a \<and> (\<forall>e. orset_dots b e = orset_dots a e - C) \<and>
     (\<forall>d. d \<notin> C \<longrightarrow> (d \<in> orset_tombs b \<longleftrightarrow> d \<in> orset_tombs a))"

lemma forgets_contains: "forgets C a b \<Longrightarrow> orsetContains b e = orsetContains a e"
  by (auto simp: forgets_def orsetContains_iff)

lemma forgets_refl: "forgets {} s s"
  by (simp add: forgets_def)

lemma orsetCompact_forgets: "orset_wf s \<Longrightarrow> orsetCompact s vv = Inr s' \<Longrightarrow> forgets (orset_forgotten s vv) s s'"
  using forgotten_tombs [of s vv] by (auto simp: forgets_def orsetCompact_effect)

lemma forgets_abs: "forgets C a b \<Longrightarrow> orset_abs b' = orset_abs b \<Longrightarrow> forgets C a b'"
  by (simp add: forgets_def orset_abs_def orset_dots_abs)

lemma forgets_run_nodes:
  assumes "forgets C (nodeAlive a) (nodeAlive b)" "\<forall>n. added log n \<inter> C = {}"
  shows "forgets C (nodeAlive (run_all a log)) (nodeAlive (run_all b log))"
  using assms by (auto simp: forgets_def run_all_nodes)

lemma forgets_run_edges:
  assumes "forgets C (edgeAlive a) (edgeAlive b)" "\<forall>k. edge_added log k \<inter> C = {}"
  shows "forgets C (edgeAlive (run_all a log)) (edgeAlive (run_all b log))"
  using assms by (auto simp: forgets_def run_all_edges)

text \<open>The rest of a log, after a history or after a checkpoint that forgot some of it.\<close>

lemma replay_after_forgetting:
  assumes n: "forgets Cn (nodeAlive a) (nodeAlive b)" "\<forall>n. added (full_log qs) n \<inter> Cn = {}"
    and e: "forgets Ce (edgeAlive a) (edgeAlive b)" "\<forall>k. edge_added (full_log qs) k \<inter> Ce = {}"
    and r: "same_registers a b" "map_of (observedFrontier a) = map_of (observedFrontier b)"
    and q: "\<forall>x\<in>set qs. context_wf (fst x)"
    and f: "fold_r apply_entry a qs = Inr s" "fold_r apply_entry b qs = Inr t"
  shows "same_view s t"
proof -
  note st = replay_Inr [OF f(1)] replay_Inr [OF f(2)]
  show ?thesis
    using forgets_contains [OF forgets_run_nodes [OF n]] forgets_contains [OF forgets_run_edges [OF e]]
      run_all_registers [OF r(1), of "full_log qs"] observe_all_cong [OF r(2) q]
    by (simp add: same_view_def st same_registers_def)
qed

section \<open>The dots of a reduced state\<close>

lemma reduced_dots:
  assumes "fold_r apply_entry createEmptyStateV5 ps = Inr st"
  shows "orset_dots (nodeAlive st) n = added (full_log ps) n" "orset_dots (edgeAlive st) k = edge_added (full_log ps) k"
  using replay_Inr [OF assms] by (simp_all add: run_all_nodes run_all_edges)

lemma reduced_wf:
  assumes "fold_r apply_entry st ps = Inr st'" "state_wf st" "\<forall>x\<in>set ps. context_wf (fst x)"
  shows "state_wf st'"
proof -
  have "state_wf (run_all s log)" if "state_wf s" for s log
    using that by (induction log arbitrary: s) (simp_all add: run_effect_wf)
  moreover have "vv_wf (observe_all f ps)" if "vv_wf f" "\<forall>x\<in>set ps. context_wf (fst x)" for f ps
    using that by (induction ps arbitrary: f) (simp_all add: observe_all_def observe_wf entry_context_wf)
  ultimately show ?thesis
    using replay_Inr [OF assms(1)] assms(2,3) by (simp add: state_wf_def)
qed

lemma compact_state_cases:
  assumes "compact_state st vv = Inr c"
  obtains nodes edges where "orsetCompact (nodeAlive st) vv = Inr nodes" "orsetCompact (edgeAlive st) vv = Inr edges"
    "c = st\<lparr>nodeAlive := nodes, edgeAlive := edges\<rparr>"
  using assms that by (auto simp: compact_state_def bind_r_Inr_iff)

lemma forgotten_subset: "orset_forgotten s vv \<subseteq> (\<Union>e. orset_dots s e)"
  by (auto simp: orset_forgotten_def)

text \<open>
  Resuming: the state \<open>b\<close> that was stored stands for the reduction \<open>a\<close> of the log before it, and the
  log after it adds no dot that the log before it added.
\<close>

definition stands_for :: "warp_state \<Rightarrow> warp_state \<Rightarrow> bool" where
  "stands_for a b \<longleftrightarrow> (\<exists>Cn Ce. Cn \<subseteq> (\<Union>n. orset_dots (nodeAlive a) n) \<and> Ce \<subseteq> (\<Union>k. orset_dots (edgeAlive a) k) \<and>
     forgets Cn (nodeAlive a) (nodeAlive b) \<and> forgets Ce (edgeAlive a) (edgeAlive b)) \<and>
     same_registers a b \<and> map_of (observedFrontier a) = map_of (observedFrontier b)"

definition dots_not_reused :: "(patch \<times> string) list \<Rightarrow> (patch \<times> string) list \<Rightarrow> bool" where
  "dots_not_reused ps qs \<longleftrightarrow> (\<forall>n m. added (full_log ps) n \<inter> added (full_log qs) m = {}) \<and>
     (\<forall>k l. edge_added (full_log ps) k \<inter> edge_added (full_log qs) l = {})"

lemma stands_for_compacted:
  assumes "state_wf st" "if compact then compact_state st vv = Inr c else c = st" "state_abs b = state_abs c"
  shows "stands_for st b"
proof -
  have b: "orset_abs (nodeAlive b) = orset_abs (nodeAlive c)" "orset_abs (edgeAlive b) = orset_abs (edgeAlive c)"
    "map_of (propMap b) = map_of (propMap c)" "map_of (edgeBirthEvent b) = map_of (edgeBirthEvent c)"
    "map_of (observedFrontier b) = map_of (observedFrontier c)"
    using assms(3) by (simp_all add: state_abs_eq_iff)
  have wf: "orset_wf (nodeAlive st)" "orset_wf (edgeAlive st)" using assms(1) by (simp_all add: state_wf_def)
  show ?thesis
  proof (cases compact)
    case True
    then have "compact_state st vv = Inr c" using assms(2) by simp
    then obtain nodes edges where c: "orsetCompact (nodeAlive st) vv = Inr nodes" "orsetCompact (edgeAlive st) vv = Inr edges"
        "c = st\<lparr>nodeAlive := nodes, edgeAlive := edges\<rparr>"
      by (rule compact_state_cases)
    have "forgets (orset_forgotten (nodeAlive st) vv) (nodeAlive st) (nodeAlive b)"
      "forgets (orset_forgotten (edgeAlive st) vv) (edgeAlive st) (edgeAlive b)"
      using orsetCompact_forgets [OF wf(1) c(1)] orsetCompact_forgets [OF wf(2) c(2)] b(1,2) forgets_abs c(3) by auto
    then show ?thesis
      unfolding stands_for_def same_registers_def using forgotten_subset b(3-5) c(3) by (intro conjI exI) auto
  next
    case False
    then have "forgets {} (nodeAlive st) (nodeAlive b)" "forgets {} (edgeAlive st) (edgeAlive b)"
      using assms(2) b(1,2) forgets_abs [OF forgets_refl] by auto
    then show ?thesis
      unfolding stands_for_def same_registers_def using b(3-5) False assms(2) by (intro conjI exI [of _ "{}"]) auto
  qed
qed

lemma resume_same_view:
  assumes "fold_r apply_entry createEmptyStateV5 ps = Inr a" "stands_for a b" "dots_not_reused ps qs"
    and "\<forall>x\<in>set qs. context_wf (fst x)"
    and "fold_r apply_entry a qs = Inr s" "fold_r apply_entry b qs = Inr t"
  shows "same_view s t"
proof -
  obtain Cn Ce where c: "Cn \<subseteq> (\<Union>n. orset_dots (nodeAlive a) n)" "Ce \<subseteq> (\<Union>k. orset_dots (edgeAlive a) k)"
      "forgets Cn (nodeAlive a) (nodeAlive b)" "forgets Ce (edgeAlive a) (edgeAlive b)"
    and r: "same_registers a b" "map_of (observedFrontier a) = map_of (observedFrontier b)"
    using assms(2) by (auto simp: stands_for_def)
  have sub: "Cn \<subseteq> (\<Union>n. added (full_log ps) n)" "Ce \<subseteq> (\<Union>k. edge_added (full_log ps) k)"
    using c(1,2) by (simp_all add: reduced_dots [OF assms(1)])
  have free: "\<forall>m. added (full_log qs) m \<inter> Cn = {}" "\<forall>m. edge_added (full_log qs) m \<inter> Ce = {}"
    using sub assms(3) unfolding dots_not_reused_def by blast+
  show ?thesis by (rule replay_after_forgetting [OF c(3) free(1) c(4) free(2) r assms(4-6)])
qed

end
