(* ===== verification/CheckpointStore.thy ===== *)
theory CheckpointStore
  imports CheckpointLaws
begin

text \<open>
  Through the object store: the entries of the tree that \<open>createV5\<close> writes are found again under their
  paths whatever content anchors and index lie beside them, so \<open>loadCheckpoint\<close> returns the state,
  the frontier and the hash that were written.
\<close>

section \<open>Lines of a tree\<close>

lemma split_first_append: "c \<notin> set xs \<Longrightarrow> split_first c (xs @ c # ys) = Some (xs, ys)"
  by (induction xs) auto

lemma split_first_Some: "split_first c xs = Some (a, b) \<Longrightarrow> xs = a @ c # b \<and> c \<notin> set a"
  by (induction xs arbitrary: a b) (auto split: if_splits)

lemma oid_clean: "oid_ok oid \<Longrightarrow> CHR 0x09 \<notin> set oid \<and> CHR '' '' \<notin> set oid"
  by (auto simp: oid_ok_def list_all_iff hex_any_def Let_def)

definition file_entry :: "string \<Rightarrow> string \<Rightarrow> tree_entry" where
  "file_entry path oid = \<lparr>te_mode = ''100644'', te_path = path, te_oid = oid\<rparr>"

lemma parse_blob_line:
  assumes "oid_ok oid"
  shows "parse_mktree (blob_line oid path) = Inr (file_entry path oid)"
proof -
  note clean = oid_clean [OF assms]
  have "split_first (CHR 0x09) (blob_line oid path) = Some (''100644 blob '' @ oid, path)"
    using split_first_append [of "CHR 0x09" "''100644 blob '' @ oid" path] clean by (simp add: blob_line_def)
  moreover have "split_on (CHR '' '') (''100644 blob '' @ oid) = [''100644'', ''blob'', oid]"
    using split_on_append [of "CHR '' ''" "''100644''" "''blob '' @ oid"]
      split_on_append [of "CHR '' ''" "''blob''" oid] clean by (simp add: js_simps)
  ultimately show ?thesis by (simp add: parse_mktree_def file_entry_def Let_def)
qed

lemma parse_path: "parse_mktree line = Inr e \<Longrightarrow> \<exists>a. line = a @ CHR 0x09 # te_path e \<and> CHR 0x09 \<notin> set a"
  by (auto simp: parse_mktree_def Let_def split: option.splits if_splits dest!: split_first_Some)

definition core_paths :: "string set" where
  "core_paths = {''state.cbor'', ''frontier.cbor'', ''appliedVV.cbor'', ''provenanceIndex.cbor''}"

text \<open>The path of an anchor starts with the prefix of anchors, or holds a tab.\<close>

lemma anchor_path:
  assumes "parse_mktree (blob_line v (''_content_'' @ v)) = Inr e"
  shows "te_path e \<notin> core_paths"
proof -
  obtain a where a: "blob_line v (''_content_'' @ v) = a @ CHR 0x09 # te_path e" "CHR 0x09 \<notin> set a"
    using parse_path [OF assms] by blast
  have tabs: "CHR 0x09 \<notin> set p" if "p \<in> core_paths" for p using that by (auto simp: core_paths_def)
  show ?thesis
  proof
    assume core: "te_path e \<in> core_paths"
    have "''100644 blob '' @ v @ CHR 0x09 # ''_content_'' @ v = a @ CHR 0x09 # te_path e"
      using a(1) by (simp add: blob_line_def)
    moreover have "CHR 0x09 \<notin> set (te_path e)" by (rule tabs [OF core])
    ultimately have count: "count_list (''100644 blob '' @ v @ CHR 0x09 # ''_content_'' @ v) (CHR 0x09) = 1"
      using a(2) by (simp add: count_list_append count_list_0_iff)
    then have "count_list v (CHR 0x09) = 0" by (simp add: count_list_append)
    then have v: "CHR 0x09 \<notin> set v" by (simp add: count_list_0_iff)
    have "split_first (CHR 0x09) (blob_line v (''_content_'' @ v)) = Some (''100644 blob '' @ v, ''_content_'' @ v)"
      using split_first_append [of "CHR 0x09" "''100644 blob '' @ v"] v by (simp add: blob_line_def)
    moreover have "split_first (CHR 0x09) (blob_line v (''_content_'' @ v)) = Some (a, te_path e)"
      using split_first_append [OF a(2)] a(1) by simp
    ultimately have "te_path e = ''_content_'' @ v" by simp
    then show False using core by (auto simp: core_paths_def)
  qed
qed

section \<open>Reading a tree\<close>

definition tree_object :: "tree_entry list \<Rightarrow> (string \<times> string) list" where
  "tree_object es = foldl (\<lambda>r e. obj_set_prim r (te_path e) (te_oid e)) [] es"

lemma tree_object_lookup:
  assumes "e \<in> set es" "te_path e = p" "p \<noteq> ''__proto__''" "\<forall>e'\<in>set es. te_path e' = p \<longrightarrow> te_oid e' = te_oid e"
  shows "map_of (tree_object es) p = Some (te_oid e)"
proof -
  have gen: "map_of (foldl (\<lambda>r e. obj_set_prim r (te_path e) (te_oid e)) acc es) p =
      (if p \<in> te_path ` set es then Some (te_oid e) else map_of acc p)"
    if "\<forall>e'\<in>set es. te_path e' = p \<longrightarrow> te_oid e' = te_oid e" for es acc
    using that assms(3) by (induction es arbitrary: acc) (auto simp: obj_set_prim_def)
  show ?thesis using gen [OF assms(4), of "[]"] assms(1,2) by (auto simp: tree_object_def)
qed

lemma tree_object_absent:
  assumes "\<forall>e\<in>set es. te_path e \<noteq> p"
  shows "map_of (tree_object es) p = None"
proof -
  have "map_of (foldl (\<lambda>r e. obj_set_prim r (te_path e) (te_oid e)) acc es) p = map_of acc p" for acc
    using assms by (induction es arbitrary: acc) (auto simp: obj_set_prim_def)
  then show ?thesis by (simp add: tree_object_def)
qed

lemma tree_object_wf: "map_wf (tree_object es)"
proof -
  have "map_wf (foldl (\<lambda>r e. obj_set_prim r (te_path e) (te_oid e)) acc es)" if "map_wf acc" for acc
    using that by (induction es arbitrary: acc) auto
  then show ?thesis by (simp add: tree_object_def)
qed

lemma partition_lookup:
  assumes "map_wf raw" "\<not> starts_with p ''index/''" "p \<noteq> ''__proto__''"
  shows "map_of (fst (partitionTreeOids raw)) p = map_of raw p"
proof -
  have "map_of (fst (foldl partition_step acc raw)) p = (case map_of raw p of None \<Rightarrow> map_of (fst acc) p | Some o' \<Rightarrow> Some o')"
    if "map_wf raw" for acc raw
    using that
  proof (induction raw arbitrary: acc)
    case Nil
    then show ?case by simp
  next
    case (Cons x raw)
    obtain q v where x: "x = (q, v)" by force
    have "map_of raw q = None" using Cons.prems x by (simp add: map_of_eq_None_iff)
    moreover have "map_of (fst (partition_step acc (q, v))) p = (if q = p then Some v else map_of (fst acc) p)"
      using assms(2,3) by (auto simp: partition_step_def obj_set_prim_def)
    ultimately show ?case
      using Cons.IH [of "partition_step acc x"] Cons.prems x by (auto split: option.split)
  qed
  from this [OF assms(1), of "([], [])"] show ?thesis by (simp add: partitionTreeOids_def split: option.split)
qed

section \<open>Blobs that stay\<close>

definition holds_blob :: "hash_fun \<Rightarrow> git_store \<Rightarrow> bytes \<Rightarrow> bool" where
  "holds_blob hash s b \<longleftrightarrow> readBlob s (hashBlob hash b) = Inr b"

lemma writeBlob_oid [simp]: "snd (writeBlob hash s b) = hashBlob hash b"
  by (simp add: writeBlob_def Let_def)

lemma writeBlob_holds: "\<forall>b. oid_ok (hash b) \<Longrightarrow> holds_blob hash (fst (writeBlob hash s b)) b"
  using blobs.put_get [of hash s b] by (simp add: holds_blob_def hashBlob_def Let_def)

lemma writeBlob_keeps:
  assumes "\<forall>b. oid_ok (hash b)" "inj_on (hashBlob hash) W" "b \<in> W" "c \<in> W" "holds_blob hash s b"
  shows "holds_blob hash (fst (writeBlob hash s c)) b"
proof -
  have "oid_ok (hashBlob hash b)" using assms(1) by (simp add: hashBlob_def Let_def)
  then show ?thesis
    using blobs.put_keeps [of s "hashBlob hash b" b hash c] assms(2-5)
    by (auto simp: holds_blob_def dest: inj_onD)
qed

lemma write_shards_keep:
  assumes "\<forall>b. oid_ok (hash b)" "inj_on (hashBlob hash) W" "b \<in> W" "\<forall>p\<in>set ps. the (map_of tree p) \<in> W"
    and "holds_blob hash s b"
  shows "holds_blob hash (fst (foldl (write_shard hash tree) (s, ls) ps)) b"
  using assms(4,5)
proof (induction ps arbitrary: s ls)
  case Nil
  then show ?case by simp
next
  case (Cons p ps)
  obtain s1 oid where w: "writeBlob hash s (the (map_of tree p)) = (s1, oid)" by force
  have "holds_blob hash s1 b"
    using writeBlob_keeps [OF assms(1-3), of "the (map_of tree p)" s] Cons.prems w by simp
  then show ?case using Cons.IH Cons.prems(1) by (simp add: write_shard_def w)
qed

lemma writeTree_holds: "writeTree hash s ls = Inr (s', oid) \<Longrightarrow> holds_blob hash s' b = holds_blob hash s b"
  by (auto simp: writeTree_def bind_r_Inr_iff holds_blob_def)
    (metis fst_conv store_frames(4))+

lemma write_index_keeps:
  assumes "\<forall>b. oid_ok (hash b)" "inj_on (hashBlob hash) W" "b \<in> W"
    and "\<forall>tree. indexTree = Some tree \<longrightarrow> snd ` set tree \<subseteq> W"
    and "write_index hash s indexTree = (s', r)" "holds_blob hash s b"
  shows "holds_blob hash s' b"
proof (cases indexTree)
  case None
  then show ?thesis using assms(5,6) by (simp add: write_index_def)
next
  case (Some tree)
  obtain s1 ls where f: "foldl (write_shard hash tree) (s, []) (sort (map_keys tree)) = (s1, ls)" by force
  have "the (map_of tree p) \<in> W" if p: "p \<in> set (sort (map_keys tree))" for p
  proof -
    from p obtain b where "map_of tree p = Some b" by (metis map_of_eq_None_iff not_None_eq set_map set_sort)
    then show ?thesis using assms(4) Some by (auto dest!: map_of_SomeD)
  qed
  then have "holds_blob hash s1 b"
    using write_shards_keep [OF assms(1-3), of "sort (map_keys tree)" tree s "[]"] assms(6) f by simp
  then show ?thesis
    using assms(5) Some f
    by (auto simp: write_index_def writeIndexSubtree_def writeTree_holds split: sum.splits)
qed

section \<open>The tree of a checkpoint\<close>

lemma checkpoint_line_cases:
  assumes "collectContentAnchorEntries props = Inr anchors"
    and "line \<in> set (checkpoint_lines anchors vvOid frontierOid stateOid provOid indexOid)"
  shows "(\<exists>v. line = blob_line v (''_content_'' @ v)) \<or>
    line \<in> {blob_line vvOid ''appliedVV.cbor'', blob_line frontierOid ''frontier.cbor'', blob_line stateOid ''state.cbor''} \<or>
    (\<exists>oid. provOid = Some oid \<and> line = blob_line oid ''provenanceIndex.cbor'') \<or>
    (\<exists>oid. indexOid = Some oid \<and> line = ''040000 tree '' @ oid @ CHR 0x09 # ''index'')"
  using assms by (auto simp: checkpoint_lines_def collectContentAnchorEntries_def bind_r_Inr_iff split: option.splits)

lemma index_line_path:
  assumes "oid_ok oid" "parse_mktree (''040000 tree '' @ oid @ CHR 0x09 # ''index'') = Inr e"
  shows "te_path e = ''index''"
proof -
  have "split_first (CHR 0x09) (''040000 tree '' @ oid @ CHR 0x09 # ''index'') = Some (''040000 tree '' @ oid, ''index'')"
    using split_first_append [of "CHR 0x09" "''040000 tree '' @ oid" "''index''"] oid_clean [OF assms(1)] by simp
  then show ?thesis using assms(2) by (auto simp: parse_mktree_def Let_def split: if_splits)
qed

lemma map_r_sets:
  assumes "map_r f xs = Inr ys"
  shows "x \<in> set xs \<Longrightarrow> \<exists>y\<in>set ys. f x = Inr y" "y \<in> set ys \<Longrightarrow> \<exists>x\<in>set xs. f x = Inr y"
proof -
  have "list_all2 (\<lambda>x y. f x = Inr y) xs ys" using assms by (simp add: map_r_Inr_iff)
  then show "x \<in> set xs \<Longrightarrow> \<exists>y\<in>set ys. f x = Inr y" "y \<in> set ys \<Longrightarrow> \<exists>x\<in>set xs. f x = Inr y"
    by (induction rule: list_all2_induct) auto
qed

text \<open>The files of a checkpoint, the provenance index among them when there is one.\<close>

definition checkpoint_files :: "string \<Rightarrow> string \<Rightarrow> string \<Rightarrow> string option \<Rightarrow> (string \<times> string) set" where
  "checkpoint_files vvOid frontierOid stateOid provOid =
     {(''state.cbor'', stateOid), (''frontier.cbor'', frontierOid), (''appliedVV.cbor'', vvOid)} \<union>
     Pair ''provenanceIndex.cbor'' ` set_option provOid"

lemma checkpoint_file_only:
  assumes lines: "map_r parse_mktree (checkpoint_lines anchors vvOid frontierOid stateOid provOid indexOid) = Inr es"
    and anchors: "collectContentAnchorEntries props = Inr anchors"
    and oids: "oid_ok vvOid" "oid_ok frontierOid" "oid_ok stateOid"
      "\<forall>oid. provOid = Some oid \<longrightarrow> oid_ok oid" "\<forall>oid. indexOid = Some oid \<longrightarrow> oid_ok oid"
    and e: "e \<in> set es" "te_path e \<in> core_paths"
  shows "(te_path e, te_oid e) \<in> checkpoint_files vvOid frontierOid stateOid provOid"
proof -
  let ?ls = "checkpoint_lines anchors vvOid frontierOid stateOid provOid indexOid"
  obtain l where l: "l \<in> set ?ls" "parse_mktree l = Inr e" using map_r_sets(2) [OF lines e(1)] by blast
  have notAnchor: "\<not> (\<exists>v. l = blob_line v (''_content_'' @ v))" using anchor_path l(2) e(2) by blast
  have notIndex: "\<not> (\<exists>oid. indexOid = Some oid \<and> l = ''040000 tree '' @ oid @ CHR 0x09 # ''index'')"
    using index_line_path oids(5) l(2) e(2) by (auto simp: core_paths_def)
  have parsed: "e = file_entry path oid" if "l = blob_line oid path" "oid_ok oid" for oid path
    using that l(2) parse_blob_line by simp
  from checkpoint_line_cases [OF anchors l(1)] notAnchor notIndex
  consider "l = blob_line vvOid ''appliedVV.cbor''" | "l = blob_line frontierOid ''frontier.cbor''" |
    "l = blob_line stateOid ''state.cbor''" |
    oid where "provOid = Some oid" "l = blob_line oid ''provenanceIndex.cbor''" by blast
  then show ?thesis
    by cases (auto simp: checkpoint_files_def file_entry_def dest!: parsed intro: oids(1-3) oids(4) [rule_format])
qed

lemma checkpoint_entry:
  assumes lines: "map_r parse_mktree (checkpoint_lines anchors vvOid frontierOid stateOid provOid indexOid) = Inr es"
    and anchors: "collectContentAnchorEntries props = Inr anchors"
    and oids: "oid_ok vvOid" "oid_ok frontierOid" "oid_ok stateOid"
      "\<forall>oid. provOid = Some oid \<longrightarrow> oid_ok oid" "\<forall>oid. indexOid = Some oid \<longrightarrow> oid_ok oid"
  shows "(p, oid) \<in> checkpoint_files vvOid frontierOid stateOid provOid \<Longrightarrow>
      map_of (fst (partitionTreeOids (tree_object es))) p = Some oid"
    and "provOid = None \<Longrightarrow> map_of (fst (partitionTreeOids (tree_object es))) ''provenanceIndex.cbor'' = None"
proof -
  let ?ls = "checkpoint_lines anchors vvOid frontierOid stateOid provOid indexOid"
  note only = checkpoint_file_only [OF assms]
  have plain: "\<not> starts_with p ''index/''" "p \<noteq> ''__proto__''" if "p \<in> core_paths" for p
    using that by (auto simp: core_paths_def starts_with_def)
  {
    assume p: "(p, oid) \<in> checkpoint_files vvOid frontierOid stateOid provOid"
    then have core: "p \<in> core_paths" "oid_ok oid" using oids by (auto simp: core_paths_def checkpoint_files_def)
    have "blob_line oid p \<in> set ?ls" using p by (auto simp: checkpoint_lines_def checkpoint_files_def)
    then obtain e where e: "e \<in> set es" "parse_mktree (blob_line oid p) = Inr e"
      using map_r_sets(1) [OF lines] by blast
    have eq: "e = file_entry p oid" using e(2) parse_blob_line [OF core(2)] by simp
    have "te_oid e' = oid" if e': "e' \<in> set es" "te_path e' = p" for e'
      using only [OF e'(1)] e'(2) core(1) p by (auto simp: checkpoint_files_def)
    then have "map_of (tree_object es) p = Some (te_oid e)"
      by (intro tree_object_lookup [OF e(1)]) (use eq plain [OF core(1)] in \<open>auto simp: file_entry_def\<close>)
    then show "map_of (fst (partitionTreeOids (tree_object es))) p = Some oid"
      using partition_lookup [OF tree_object_wf plain [OF core(1)]] eq by (simp add: file_entry_def)
  next
    assume none: "provOid = None"
    have core: "''provenanceIndex.cbor'' \<in> core_paths" by (simp add: core_paths_def)
    have "\<forall>e\<in>set es. te_path e \<noteq> ''provenanceIndex.cbor''"
      using only core none by (fastforce simp: checkpoint_files_def)
    from tree_object_absent [OF this] show "map_of (fst (partitionTreeOids (tree_object es))) ''provenanceIndex.cbor'' = None"
      using partition_lookup [OF tree_object_wf plain [OF core]] by simp
  }
qed

section \<open>Writing and loading\<close>

text \<open>The codec reads back what a checkpoint encodes with it.\<close>

definition reads_back :: "checkpoint_codec \<Rightarrow> checkpoint_input \<Rightarrow> bool" where
  "reads_back cc ki \<longleftrightarrow> (\<forall>c. checkpoint_content cc ki = Inr c \<longrightarrow>
     (\<forall>obj. full_state_object (kc_state c) = Inr obj \<longrightarrow> cc_readState cc (kc_stateBuf c) = Some (decoded_of obj)) \<and>
     cc_readFrontier cc (kc_frontierBuf c) = frontier_object (ki_frontier ki) \<and>
     (\<forall>vv obj. computeAppliedVV (ki_state ki) = Inr vv \<and> vvSerialize vv = Inr obj \<longrightarrow>
        cc_readVV cc (kc_vvBuf c) = map (\<lambda>(k, n). (k, JNum n)) obj))"

text \<open>The blobs that a checkpoint writes; their ids must not collide with each other.\<close>

definition written_blobs :: "checkpoint_content \<Rightarrow> checkpoint_input \<Rightarrow> bytes set" where
  "written_blobs c ki = {kc_stateBuf c, kc_frontierBuf c, kc_vvBuf c} \<union> set_option (ki_provenance ki) \<union>
     (case ki_indexTree ki of None \<Rightarrow> {} | Some tree \<Rightarrow> snd ` set tree)"

definition sound_hash :: "hash_fun \<Rightarrow> bool" where
  "sound_hash hash \<longleftrightarrow> (\<forall>b. oid_ok (hash b)) \<and> (\<forall>es. es \<noteq> [] \<longrightarrow> hashTree hash es \<noteq> EMPTY_TREE_OID)"

lemma storable_compacted:
  assumes "storable st" "compact_state st vv = Inr c"
  shows "storable c"
proof -
  obtain nodes edges where c: "orsetCompact (nodeAlive st) vv = Inr nodes" "orsetCompact (edgeAlive st) vv = Inr edges"
      "c = st\<lparr>nodeAlive := nodes, edgeAlive := edges\<rparr>"
    using assms(2) by (rule compact_state_cases)
  have wf: "orset_wf (nodeAlive st)" "orset_wf (edgeAlive st)" using assms(1) by (simp_all add: storable_def state_wf_def)
  have "dots_encoded nodes" "dots_encoded edges"
    using assms(1) orsetCompact_effect [OF wf(1) c(1)] orsetCompact_effect [OF wf(2) c(2)]
    by (auto simp: storable_def dots_encoded_def)
  then show ?thesis
    using assms(1) orsetCompact_effect(1) [OF wf(1) c(1)] orsetCompact_effect(1) [OF wf(2) c(2)]
    by (simp add: storable_def state_wf_def c(3))
qed

lemma content_cases:
  assumes "checkpoint_content cc ki = Inr c"
  obtains vv obj vobj where "computeAppliedVV (ki_state ki) = Inr vv"
    "if ki_compact ki then compact_state (ki_state ki) vv = Inr (kc_state c) else kc_state c = ki_state ki"
    "full_state_object (kc_state c) = Inr obj" "kc_stateBuf c = cc_state cc obj"
    "vvSerialize vv = Inr vobj" "kc_vvBuf c = cc_vv cc vobj"
    "kc_frontierBuf c = cc_frontier cc (frontier_object (ki_frontier ki))"
    "kc_hash c = computeStateHashV5 (cc_sha256 cc) (cc_projection cc) (kc_state c)"
  using assms that
  by (auto simp: checkpoint_content_def bind_r_Inr_iff serializeFullStateV5_def serializeAppliedVV_def
      serializeFrontier_def cloneStateV5_def split: if_splits)

lemma createV5_ok:
  assumes "createV5 env cc s ki = (s', Inr sha)"
  obtains c s4 provOid s5 indexOid anchors s6 treeOid message where
    "checkpoint_content cc ki = Inr c"
    "write_provenance (env_hash env) (fst (writeBlob (env_hash env) (fst (writeBlob (env_hash env)
       (fst (writeBlob (env_hash env) s (kc_stateBuf c))) (kc_frontierBuf c))) (kc_vvBuf c))) (ki_provenance ki) = (s4, provOid)"
    "write_index (env_hash env) s4 (ki_indexTree ki) = (s5, Inr indexOid)"
    "collectContentAnchorEntries (propMap (kc_state c)) = Inr anchors"
    "writeTree (env_hash env) s5 (checkpoint_lines anchors (hashBlob (env_hash env) (kc_vvBuf c))
       (hashBlob (env_hash env) (kc_frontierBuf c)) (hashBlob (env_hash env) (kc_stateBuf c)) provOid indexOid) = Inr (s6, treeOid)"
    "encodeCheckpointMessage (env_encodeMsg env) \<lparr>cm_graph = ki_graphName ki, cm_stateHash = kc_hash c,
       cm_frontierOid = hashBlob (env_hash env) (kc_frontierBuf c), cm_indexOid = treeOid,
       cm_schema = (if ki_indexTree ki \<noteq> None then CHECKPOINT_SCHEMA_INDEX_TREE else CHECKPOINT_SCHEMA_STANDARD),
       cm_version = None\<rparr> = Inr message"
    "commitNodeWithTree (env_hash env) (env_author env) (env_date env) s6 treeOid (ki_parents ki) message = Inr (s', sha)"
proof -
  obtain c where c: "checkpoint_content cc ki = Inr c"
    using assms by (cases "checkpoint_content cc ki") (auto simp: createV5_def)
  let ?s3 = "fst (writeBlob (env_hash env) (fst (writeBlob (env_hash env)
     (fst (writeBlob (env_hash env) s (kc_stateBuf c))) (kc_frontierBuf c))) (kc_vvBuf c))"
  obtain s4 provOid where p: "write_provenance (env_hash env) ?s3 (ki_provenance ki) = (s4, provOid)" by force
  obtain s5 ri where wi: "write_index (env_hash env) s4 (ki_indexTree ki) = (s5, ri)" by force
  note step = assms [unfolded createV5_def c sum.case Let_def case_prod_beta writeBlob_oid p fst_conv snd_conv wi]
  obtain indexOid where i: "ri = Inr indexOid" using step by (cases ri) auto
  obtain anchors where a: "collectContentAnchorEntries (propMap (kc_state c)) = Inr anchors"
    using step i by (cases "collectContentAnchorEntries (propMap (kc_state c))") auto
  let ?ls = "checkpoint_lines anchors (hashBlob (env_hash env) (kc_vvBuf c))
     (hashBlob (env_hash env) (kc_frontierBuf c)) (hashBlob (env_hash env) (kc_stateBuf c)) provOid indexOid"
  obtain s6 treeOid where w: "writeTree (env_hash env) s5 ?ls = Inr (s6, treeOid)"
    using step i a by (cases "writeTree (env_hash env) s5 ?ls") auto
  let ?m = "\<lparr>cm_graph = ki_graphName ki, cm_stateHash = kc_hash c,
     cm_frontierOid = hashBlob (env_hash env) (kc_frontierBuf c), cm_indexOid = treeOid,
     cm_schema = (if ki_indexTree ki \<noteq> None then CHECKPOINT_SCHEMA_INDEX_TREE else CHECKPOINT_SCHEMA_STANDARD),
     cm_version = None\<rparr>"
  obtain message where m: "encodeCheckpointMessage (env_encodeMsg env) ?m = Inr message"
    using step i a w by (cases "encodeCheckpointMessage (env_encodeMsg env) ?m") auto
  have "commitNodeWithTree (env_hash env) (env_author env) (env_date env) s6 treeOid (ki_parents ki) message = Inr (s', sha)"
    using step i a w m
    by (cases "commitNodeWithTree (env_hash env) (env_author env) (env_date env) s6 treeOid (ki_parents ki) message") auto
  with c p wi [unfolded i] a w m show thesis by (rule that)
qed

lemma sound_oids:
  assumes "sound_hash hash"
  shows "oid_ok (hashBlob hash b)" "oid_ok (hashTree hash es)" "oid_ok (hashCommit hash ci)" "\<forall>b. oid_ok (hash b)"
  using assms by (auto simp: sound_hash_def hashBlob_def hashTree_def hashCommit_def Let_def)

lemma provenance_oid: "sound_hash hash \<Longrightarrow> write_provenance hash s prov = (s', Some oid) \<Longrightarrow> oid_ok oid"
  by (cases prov) (auto simp: write_provenance_def Let_def case_prod_beta sound_oids)

lemma index_oid: "sound_hash hash \<Longrightarrow> write_index hash s tree = (s', Inr (Some oid)) \<Longrightarrow> oid_ok oid"
  by (cases tree)
    (auto simp: write_index_def writeIndexSubtree_def writeTree_def put_tree_def bind_r_Inr_iff Let_def case_prod_beta
      sound_oids split: sum.splits)

lemma provenance_keeps:
  assumes "sound_hash hash" "inj_on (hashBlob hash) W" "b \<in> W" "set_option prov \<subseteq> W"
    and "write_provenance hash s prov = (s', r)" "holds_blob hash s b"
  shows "holds_blob hash s' b"
proof (cases prov)
  case None
  then show ?thesis using assms(5,6) by (simp add: write_provenance_def)
next
  case (Some c)
  then have "s' = fst (writeBlob hash s c)" using assms(5) by (auto simp: write_provenance_def Let_def case_prod_beta)
  then show ?thesis using writeBlob_keeps [OF sound_oids(4) [OF assms(1)] assms(2,3)] assms(4,6) Some by simp
qed

lemma written_tree:
  assumes "sound_hash hash" "writeTree hash s ls = Inr (s', oid)" "ls \<noteq> []"
  obtains es where "map_r parse_mktree ls = Inr es" "readTreeOids s' oid = Inr (tree_object es)" "oid_ok oid"
proof -
  obtain es where es: "map_r parse_mktree ls = Inr es" "s' = fst (put_tree hash s es)" "oid = hashTree hash es"
    using assms(2) by (auto simp: writeTree_def bind_r_Inr_iff put_tree_def Let_def)
  have "es \<noteq> []" using es(1) assms(3) by (auto simp: map_r_Inr_iff)
  then have "readTreeOids s' oid = Inr (tree_object es)"
    using assms(1) sound_oids(2) [OF assms(1)]
    by (simp add: readTreeOids_def es put_tree_def Let_def sound_hash_def tree_object_def adapter_validateOid_def)
  with es(1,3) sound_oids(2) [OF assms(1)] show thesis using that by simp
qed

lemma createV5_loads:
  assumes "createV5 env cc s ki = (s', Inr sha)" "sound_hash (env_hash env)" "reads_back cc ki"
    and codec: "\<forall>title ts. env_decodeMsg env (env_encodeMsg env title ts) = Inr ts"
    and inj: "\<forall>c. checkpoint_content cc ki = Inr c \<longrightarrow> inj_on (hashBlob (env_hash env)) (written_blobs c ki)"
    and st: "storable (ki_state ki)" and fr: "map_wf (ki_frontier ki)"
  shows "\<exists>c ck. checkpoint_content cc ki = Inr c \<and> loadCheckpoint cc (env_decodeMsg env) s' sha = Inr ck \<and>
    state_abs (ck_state ck) = state_abs (kc_state c) \<and> state_wf (ck_state ck) \<and>
    map_of (ck_frontier ck) = (\<lambda>w. if w = ''__proto__'' then None else map_of (ki_frontier ki) w) \<and>
    ck_stateHash ck = computeStateHashV5 (cc_sha256 cc) (cc_projection cc) (kc_state c) \<and>
    stands_for (ki_state ki) (ck_state ck)"
proof -
  let ?h = "env_hash env"
  obtain c s4 provOid s5 indexOid anchors s6 treeOid message where x: "checkpoint_content cc ki = Inr c"
    "write_provenance ?h (fst (writeBlob ?h (fst (writeBlob ?h (fst (writeBlob ?h s (kc_stateBuf c))) (kc_frontierBuf c)))
       (kc_vvBuf c))) (ki_provenance ki) = (s4, provOid)"
    "write_index ?h s4 (ki_indexTree ki) = (s5, Inr indexOid)"
    "collectContentAnchorEntries (propMap (kc_state c)) = Inr anchors"
    "writeTree ?h s5 (checkpoint_lines anchors (hashBlob ?h (kc_vvBuf c)) (hashBlob ?h (kc_frontierBuf c))
       (hashBlob ?h (kc_stateBuf c)) provOid indexOid) = Inr (s6, treeOid)"
    "encodeCheckpointMessage (env_encodeMsg env) \<lparr>cm_graph = ki_graphName ki, cm_stateHash = kc_hash c,
       cm_frontierOid = hashBlob ?h (kc_frontierBuf c), cm_indexOid = treeOid,
       cm_schema = (if ki_indexTree ki \<noteq> None then CHECKPOINT_SCHEMA_INDEX_TREE else CHECKPOINT_SCHEMA_STANDARD),
       cm_version = None\<rparr> = Inr message"
    "commitNodeWithTree ?h (env_author env) (env_date env) s6 treeOid (ki_parents ki) message = Inr (s', sha)"
    by (rule createV5_ok [OF assms(1)])
  let ?W = "written_blobs c ki"
  let ?bs = "{kc_stateBuf c, kc_frontierBuf c, kc_vvBuf c}"
  have W: "inj_on (hashBlob ?h) ?W" using inj x(1) by blast
  have mem: "?bs \<subseteq> ?W" "set_option (ki_provenance ki) \<subseteq> ?W" "\<forall>tree. ki_indexTree ki = Some tree \<longrightarrow> snd ` set tree \<subseteq> ?W"
    by (auto simp: written_blobs_def)
  note ok = sound_oids(4) [OF assms(2)]
  have put: "s' = fst (put_commit ?h s6 \<lparr>ci_treeOid = treeOid, ci_parents = ki_parents ki, ci_message = message,
      ci_author = env_author env, ci_date = env_date env\<rparr>)"
    "sha = snd (put_commit ?h s6 \<lparr>ci_treeOid = treeOid, ci_parents = ki_parents ki, ci_message = message,
      ci_author = env_author env, ci_date = env_date env\<rparr>)"
    using x(7) by (auto simp: commitNodeWithTree_def bind_r_Inr_iff)
  have late: "readBlob s' (hashBlob ?h b) = Inr b" if b: "b \<in> ?W" "holds_blob ?h s4 b" for b
  proof -
    have "holds_blob ?h s5 b" by (rule write_index_keeps [OF ok W b(1) mem(3) x(3) b(2)])
    then have "holds_blob ?h s6 b" using writeTree_holds [OF x(5)] by simp
    then show ?thesis by (simp add: put(1) holds_blob_def)
  qed
  have held: "readBlob s' (hashBlob ?h b) = Inr b" if b: "b \<in> ?bs" for b
  proof (rule late)
    show bW: "b \<in> ?W" using b mem(1) by blast
    have "holds_blob ?h (fst (writeBlob ?h (fst (writeBlob ?h (fst (writeBlob ?h s (kc_stateBuf c))) (kc_frontierBuf c)))
        (kc_vvBuf c))) b"
      using b mem(1) writeBlob_holds [OF ok] writeBlob_keeps [OF ok W] by auto
    then show "holds_blob ?h s4 b" by (rule provenance_keeps [OF assms(2) W bW mem(2) x(2)])
  qed
  have prov: "\<exists>b. provOid = Some (hashBlob ?h b) \<and> readBlob s' (hashBlob ?h b) = Inr b" if some: "provOid \<noteq> None"
  proof -
    obtain b where b: "ki_provenance ki = Some b" "provOid = Some (hashBlob ?h b)" "holds_blob ?h s4 b"
      using some x(2) writeBlob_holds [OF ok] writeBlob_oid
      by (cases "ki_provenance ki") (auto simp: write_provenance_def Let_def case_prod_beta)
    then show ?thesis using late [of b] mem(2) by auto
  qed
  obtain es where es: "map_r parse_mktree (checkpoint_lines anchors (hashBlob ?h (kc_vvBuf c)) (hashBlob ?h (kc_frontierBuf c))
      (hashBlob ?h (kc_stateBuf c)) provOid indexOid) = Inr es" "readTreeOids s6 treeOid = Inr (tree_object es)"
    by (rule written_tree [OF assms(2) x(5)]) (auto simp: checkpoint_lines_def dest: arg_cong [of _ _ length])
  have "oid_ok sha" using sound_oids(3) [OF assms(2)] by (simp add: put(2) put_commit_def Let_def)
  then have node: "showNode s' sha = Inr message"
    using commits.put_get by (simp add: showNode_def put)
  have tree: "readTreeOids s' treeOid = Inr (tree_object es)" using es(2) by (simp add: put(1))
  have poid: "\<forall>oid. provOid = Some oid \<longrightarrow> oid_ok oid" "\<forall>oid. indexOid = Some oid \<longrightarrow> oid_ok oid"
    using provenance_oid [OF assms(2)] index_oid [OF assms(2)] x(2,3) by blast+
  note so = sound_oids(1) [OF assms(2)]
  note entry = checkpoint_entry [OF es(1) x(4) so so so poid]
  obtain vv obj vobj where k: "computeAppliedVV (ki_state ki) = Inr vv"
    "if ki_compact ki then compact_state (ki_state ki) vv = Inr (kc_state c) else kc_state c = ki_state ki"
    "full_state_object (kc_state c) = Inr obj" "kc_stateBuf c = cc_state cc obj"
    "vvSerialize vv = Inr vobj" "kc_vvBuf c = cc_vv cc vobj"
    "kc_frontierBuf c = cc_frontier cc (frontier_object (ki_frontier ki))"
    "kc_hash c = computeStateHashV5 (cc_sha256 cc) (cc_projection cc) (kc_state c)"
    by (rule content_cases [OF x(1)])
  have rb: "\<And>obj. full_state_object (kc_state c) = Inr obj \<Longrightarrow> cc_readState cc (kc_stateBuf c) = Some (decoded_of obj)"
    "cc_readFrontier cc (kc_frontierBuf c) = frontier_object (ki_frontier ki)"
    "\<And>vv obj. computeAppliedVV (ki_state ki) = Inr vv \<Longrightarrow> vvSerialize vv = Inr obj \<Longrightarrow>
        cc_readVV cc (kc_vvBuf c) = map (\<lambda>(k, n). (k, JNum n)) obj"
    using assms(3) x(1) by (auto simp: reads_back_def)
  have "storable (kc_state c)" using k(2) st storable_compacted by (auto split: if_splits)
  then obtain obj' st' where st': "full_state_object (kc_state c) = Inr obj'" "state_abs st' = state_abs (kc_state c)"
      "state_wf st'" "\<And>(decode :: bytes \<Rightarrow> decoded_state option) buf. decode buf = Some (decoded_of obj') \<Longrightarrow> deserializeFullStateV5 decode (Some buf) = Inr st'"
    by (rule full_state_read_back [where 'a = bytes]) blast
  have state: "deserializeFullStateV5 (cc_readState cc) (Some (kc_stateBuf c)) = Inr st'"
    using st'(4) [of "cc_readState cc"] st'(1) k(3) rb(1) by simp
  let ?fr = "frontier_object (ki_frontier ki)"
  have fr': "deserializeFrontier (cc_readFrontier cc) (kc_frontierBuf c) = ?fr"
    using map_set_appends [of "[]" ?fr] frontier_object_wf by (simp add: rb(2) deserializeFrontier_def)
  obtain vv' where vv': "deserializeAppliedVV (cc_readVV cc) (kc_vvBuf c) = Inr vv'"
    using vv_roundtrip [OF computeAppliedVV_covers(1) [OF k(1)]] k(5) rb(3) [OF k(1,5)]
    by (auto simp: deserializeAppliedVV_def)
  let ?m = "\<lparr>cm_graph = ki_graphName ki, cm_stateHash = kc_hash c, cm_frontierOid = hashBlob ?h (kc_frontierBuf c),
    cm_indexOid = treeOid,
    cm_schema = (if ki_indexTree ki \<noteq> None then CHECKPOINT_SCHEMA_INDEX_TREE else CHECKPOINT_SCHEMA_STANDARD), cm_version = None\<rparr>"
  have "env_decodeMsg env message = Inr (checkpoint_trailers ?m)"
    using x(6) codec by (auto simp: encodeCheckpointMessage_def bind_r_Inr_iff)
  note msg = decode_encode_checkpoint [where dec = "env_decodeMsg env", OF x(6) this]
  have nonempty: "hashBlob ?h b \<noteq> []" for b using so oid_ok_nonempty by blast
  have blob: "tree_blob s' (fst (partitionTreeOids (tree_object es))) p = Inr (Some b)"
    if "(p, hashBlob ?h b) \<in> checkpoint_files (hashBlob ?h (kc_vvBuf c)) (hashBlob ?h (kc_frontierBuf c))
      (hashBlob ?h (kc_stateBuf c)) provOid" "readBlob s' (hashBlob ?h b) = Inr b" for p b
    using entry(1) [OF that(1)] that(2) nonempty by (simp add: tree_blob_def of_ckpt_store_def)
  have core: "tree_blob s' (fst (partitionTreeOids (tree_object es))) ''frontier.cbor'' = Inr (Some (kc_frontierBuf c))"
    "tree_blob s' (fst (partitionTreeOids (tree_object es))) ''state.cbor'' = Inr (Some (kc_stateBuf c))"
    "tree_blob s' (fst (partitionTreeOids (tree_object es))) ''appliedVV.cbor'' = Inr (Some (kc_vvBuf c))"
    by (rule blob; simp add: checkpoint_files_def held)+
  then have blobs: "require_blob s' (fst (partitionTreeOids (tree_object es))) ''frontier.cbor'' = Inr (kc_frontierBuf c)"
    "require_blob s' (fst (partitionTreeOids (tree_object es))) ''state.cbor'' = Inr (kc_stateBuf c)"
    by (simp_all add: require_blob_def)
  obtain pb where pb: "tree_blob s' (fst (partitionTreeOids (tree_object es))) ''provenanceIndex.cbor'' = Inr pb"
  proof (cases "provOid = None")
    case True
    then show thesis using that entry(2) by (simp add: tree_blob_def)
  next
    case False
    then obtain b where b: "provOid = Some (hashBlob ?h b)" "readBlob s' (hashBlob ?h b) = Inr b" using prov by blast
    then show thesis using that blob [of "''provenanceIndex.cbor''" b] by (simp add: checkpoint_files_def)
  qed
  have schema: "\<not> (cm_schema ?m \<noteq> 2 \<and> cm_schema ?m \<noteq> 3 \<and> cm_schema ?m \<noteq> 4)"
    by (simp add: CHECKPOINT_SCHEMA_INDEX_TREE_def CHECKPOINT_SCHEMA_STANDARD_def)
  obtain ck where ck: "loadCheckpoint cc (env_decodeMsg env) s' sha = Inr ck" "ck_state ck = st'" "ck_frontier ck = ?fr"
      "ck_stateHash ck = kc_hash c"
    using schema by (simp add: loadCheckpoint_def node of_ckpt_store_def of_ckpt_message_def msg tree blobs core(3) pb state fr' vv'
        of_state_def case_prod_beta Let_def)
  have "state_wf (ki_state ki)" using st by (simp add: storable_def)
  then have "stands_for (ki_state ki) (ck_state ck)"
    using stands_for_compacted [OF _ k(2)] st'(2) ck(2) by simp
  then show ?thesis
    using x(1) ck st' k(8) frontier_object_map_of [of "ki_frontier ki"] by auto
qed

end
