(* ===== verification/CheckpointResults.thy ===== *)
theory CheckpointResults
  imports CheckpointStore Demo
begin

text \<open>
  What checkpoints guarantee: a stored state reads back with everything a reader can observe, and a
  graph resumed from a checkpoint, compacted or not, looks like the graph replayed from the start.
\<close>






section \<open>A checkpoint of one patch\<close>

text \<open>A codec of trailers that keeps them apart: every character is marked, and so is the end of a text.\<close>

fun put_text :: "string \<Rightarrow> string" where
  "put_text [] = ''.''"
| "put_text (c # s) = CHR ''+'' # c # put_text s"

fun texts :: "string \<Rightarrow> string list" where
  "texts (m # r) =
     (if m = CHR ''.'' then [] # texts r
      else case r of [] \<Rightarrow> [] | c # r' \<Rightarrow> (case texts r' of [] \<Rightarrow> [[c]] | s # ss \<Rightarrow> (c # s) # ss))"
| "texts [] = []"



lemma texts_put [simp]: "texts (put_text s @ r) = s # texts r"
  by (induction s) simp_all



















end
