(* ===== verification/Provenance.thy ===== *)
theory Provenance
  imports ReductionLaws
begin

text \<open>
  \<open>src/domain/services/ProvenanceIndex.js\<close>: which patches read or wrote an entity, and
  \<open>src/domain/services/ProvenancePayload.js\<close>: sequences of patches that can be replayed. The
  specification of an index is the set of pairs that were added; the payload is a monoid that acts
  on states.
\<close>

section \<open>The index\<close>

type_synonym prov_index = "(string, string jsset) jsmap"

definition newProvenanceIndex :: "prov_index option \<Rightarrow> prov_index" where
  "newProvenanceIndex initialIndex =
     (case initialIndex of None \<Rightarrow> [] | Some m \<Rightarrow> foldl (\<lambda>idx (k, v). map_set idx k (set_of v)) [] m)"

definition empty_index :: prov_index where
  "empty_index = newProvenanceIndex None"

definition addEntry :: "prov_index \<Rightarrow> string \<Rightarrow> string \<Rightarrow> prov_index" where
  "addEntry idx entityId patchSha =
     (let shas = (case map_of idx entityId of None \<Rightarrow> [] | Some s \<Rightarrow> s)
      in map_set idx entityId (set_add shas patchSha))"

definition addPatch :: "prov_index \<Rightarrow> string \<Rightarrow> string list option \<Rightarrow> string list option \<Rightarrow> prov_index" where
  "addPatch idx patchSha reads writes =
     (let idx1 = (case reads of None \<Rightarrow> idx | Some es \<Rightarrow> foldl (\<lambda>i e. addEntry i e patchSha) idx es)
      in case writes of None \<Rightarrow> idx1 | Some es \<Rightarrow> foldl (\<lambda>i e. addEntry i e patchSha) idx1 es)"

definition patchesFor :: "prov_index \<Rightarrow> string \<Rightarrow> string list" where
  "patchesFor idx entityId = (case map_of idx entityId of None \<Rightarrow> [] | Some shas \<Rightarrow> sort shas)"

definition prov_has :: "prov_index \<Rightarrow> string \<Rightarrow> bool" where
  "prov_has idx entityId = (case map_of idx entityId of None \<Rightarrow> False | Some shas \<Rightarrow> length shas > 0)"

definition prov_size :: "prov_index \<Rightarrow> nat" where
  "prov_size idx = length idx"

definition entities :: "prov_index \<Rightarrow> string list" where
  "entities idx = sort (map_keys idx)"

definition prov_clear :: "prov_index \<Rightarrow> prov_index" where
  "prov_clear idx = []"

definition prov_merge :: "prov_index \<Rightarrow> prov_index \<Rightarrow> prov_index" where
  "prov_merge idx other = foldl (\<lambda>i (entityId, shas). foldl (\<lambda>i sha. addEntry i entityId sha) i shas) idx other"

definition prov_clone :: "prov_index \<Rightarrow> prov_index" where
  "prov_clone idx = newProvenanceIndex (Some (foldl (\<lambda>m (entityId, shas). map_set m entityId (set_of shas)) [] idx))"

definition sortedEntries :: "prov_index \<Rightarrow> (string \<times> string list) list" where
  "sortedEntries idx = sort_by (\<lambda>a b. str_cmp (fst a) (fst b)) (map (\<lambda>(entityId, shas). (entityId, sort shas)) idx)"

text \<open>The stored object; what is read may lack its fields or carry another version.\<close>

record prov_object =
  po_version :: "int option"
  po_entries :: "(string \<times> string list) list option"

datatype prov_error = ProvVersion "int option" | ProvEntries

definition prov_toJSON :: "prov_index \<Rightarrow> prov_object" where
  "prov_toJSON idx = \<lparr>po_version = Some 1, po_entries = Some (sortedEntries idx)\<rparr>"

definition buildIndex :: "(string \<times> string list) list \<Rightarrow> prov_index" where
  "buildIndex es = foldl (\<lambda>idx (entityId, shas). map_set idx entityId (set_of shas)) [] es"

definition prov_fromJSON :: "prov_object \<Rightarrow> prov_error + prov_index" where
  "prov_fromJSON json =
     (if po_version json \<noteq> Some 1 then Inl (ProvVersion (po_version json))
      else case po_entries json of None \<Rightarrow> Inl ProvEntries
         | Some es \<Rightarrow> Inr (newProvenanceIndex (Some (buildIndex es))))"

definition prov_serialize :: "(prov_object \<Rightarrow> 'bytes) \<Rightarrow> prov_index \<Rightarrow> 'bytes" where
  "prov_serialize encode idx = encode \<lparr>po_version = Some 1, po_entries = Some (sortedEntries idx)\<rparr>"

definition prov_deserialize :: "('bytes \<Rightarrow> prov_object) \<Rightarrow> 'bytes \<Rightarrow> prov_error + prov_index" where
  "prov_deserialize decode buffer =
     (let obj = decode buffer in
      if po_version obj \<noteq> Some 1 then Inl (ProvVersion (po_version obj))
      else case po_entries obj of None \<Rightarrow> Inl ProvEntries
         | Some es \<Rightarrow> Inr (newProvenanceIndex (Some (buildIndex es))))"

section \<open>What an index means\<close>

definition affects :: "prov_index \<Rightarrow> string \<Rightarrow> string set" where
  "affects idx e = (case map_of idx e of None \<Rightarrow> {} | Some shas \<Rightarrow> set shas)"

definition index_wf :: "prov_index \<Rightarrow> bool" where
  "index_wf idx \<longleftrightarrow> map_wf idx \<and> (\<forall>e shas. map_of idx e = Some shas \<longrightarrow> distinct shas)"

lemma addEntry_affects [simp]: "affects (addEntry idx e sha) x = (if x = e then insert sha (affects idx x) else affects idx x)"
  by (auto simp: affects_def addEntry_def split: option.split)

lemma addEntry_wf [wf_intros]: "index_wf idx \<Longrightarrow> index_wf (addEntry idx e sha)"
  by (auto simp: index_wf_def addEntry_def Let_def split: option.splits if_splits)

lemma addEntries_affects:
  "affects (foldl (\<lambda>i e. addEntry i e sha) idx es) x = affects idx x \<union> (if x \<in> set es then {sha} else {})"
  by (induction es arbitrary: idx) auto

lemma addEntries_wf [wf_intros]: "index_wf idx \<Longrightarrow> index_wf (foldl (\<lambda>i e. addEntry i e sha) idx es)"
  by (induction es arbitrary: idx) (auto intro: wf_intros)

text \<open>The entities that a patch declares.\<close>

definition declared :: "patch \<Rightarrow> string set" where
  "declared p = (case patch_reads p of None \<Rightarrow> {} | Some es \<Rightarrow> set es) \<union>
     (case patch_writes p of None \<Rightarrow> {} | Some es \<Rightarrow> set es)"

lemma addPatch_affects:
  "affects (addPatch idx sha (patch_reads p) (patch_writes p)) x =
     affects idx x \<union> (if x \<in> declared p then {sha} else {})"
  by (auto simp: addPatch_def declared_def Let_def addEntries_affects split: option.split)

lemma addPatch_wf [wf_intros]: "index_wf idx \<Longrightarrow> index_wf (addPatch idx sha rs ws)"
  by (auto simp: addPatch_def Let_def intro: wf_intros split: option.split)

lemma empty_index_laws [simp]: "affects empty_index x = {}" "index_wf empty_index"
  by (simp_all add: affects_def empty_index_def newProvenanceIndex_def index_wf_def)

definition index_patches :: "prov_index \<Rightarrow> (patch \<times> string) list \<Rightarrow> prov_index" where
  "index_patches idx ps = foldl (\<lambda>i (p, sha). addPatch i sha (patch_reads p) (patch_writes p)) idx ps"

lemma index_patches_affects:
  "affects (index_patches idx ps) x = affects idx x \<union> {sha. \<exists>p. (p, sha) \<in> set ps \<and> x \<in> declared p}"
  unfolding index_patches_def
  by (induction ps arbitrary: idx) (auto simp: addPatch_affects split: if_splits)

lemma index_patches_wf [wf_intros]: "index_wf idx \<Longrightarrow> index_wf (index_patches idx ps)"
  unfolding index_patches_def by (induction ps arbitrary: idx) (auto intro: wf_intros)

lemma patchesFor_set: "set (patchesFor idx e) = affects idx e"
  by (simp add: patchesFor_def affects_def split: option.split)

lemma merge_entry:
  "affects (foldl (\<lambda>i sha. addEntry i e sha) idx shas) x = affects idx x \<union> (if x = e then set shas else {})"
  "index_wf idx \<Longrightarrow> index_wf (foldl (\<lambda>i sha. addEntry i e sha) idx shas)"
  by (induction shas arbitrary: idx) (auto simp: addEntry_wf)

lemma prov_merge_affects:
  assumes "map_wf other"
  shows "affects (prov_merge idx other) x = affects idx x \<union> affects other x"
  using assms unfolding prov_merge_def
proof (induction other arbitrary: idx)
  case Nil
  then show ?case by (simp add: affects_def)
next
  case (Cons y other)
  obtain e shas where y: "y = (e, shas)" by force
  have "map_of other e = None" using Cons.prems y by (simp add: map_of_eq_None_iff)
  then have "affects other e = {}" by (simp add: affects_def)
  moreover have "affects (y # other) x = (if x = e then set shas else affects other x)"
    by (simp add: affects_def y)
  ultimately show ?case
    using Cons.IH [of "foldl (\<lambda>i sha. addEntry i e sha) idx shas"] Cons.prems y by (auto simp: merge_entry)
qed

text \<open>Rebuilding an index from its entries keeps it.\<close>

lemma rebuilt_index:
  assumes "map_wf es"
  shows "map_of (foldl (\<lambda>m (k, v). map_set m k (set_of v)) acc es) x =
    (case map_of es x of None \<Rightarrow> map_of acc x | Some v \<Rightarrow> Some (set_of v))"
  using assms
proof (induction es arbitrary: acc)
  case Nil
  then show ?case by simp
next
  case (Cons y es)
  obtain k v where y: "y = (k, v)" by force
  have "map_of es k = None" using Cons.prems y by (auto simp: map_of_eq_None_iff)
  then show ?case using Cons.IH [of "map_set acc k (set_of v)"] Cons.prems y by (auto split: option.split)
qed

lemma rebuilt_wf: "map_wf acc \<Longrightarrow> map_wf (foldl (\<lambda>m (k, v). map_set m k (set_of v)) acc es)"
  by (induction es arbitrary: acc) auto

lemma rebuilt_laws:
  assumes "map_wf es"
  shows "affects (foldl (\<lambda>m (k, v). map_set m k (set_of v)) [] es) x = affects es x"
    "index_wf (foldl (\<lambda>m (k, v). map_set m k (set_of v)) [] es)"
  using rebuilt_wf [of "[]" es]
  by (auto simp: affects_def index_wf_def rebuilt_index [OF assms] split: option.splits)

lemma newProvenanceIndex_laws:
  assumes "map_wf m"
  shows "affects (newProvenanceIndex (Some m)) x = affects m x" "index_wf (newProvenanceIndex (Some m))"
  using rebuilt_laws [OF assms] by (simp_all add: newProvenanceIndex_def)

lemma prov_clone_laws:
  assumes "index_wf idx"
  shows "affects (prov_clone idx) x = affects idx x" "index_wf (prov_clone idx)"
  using rebuilt_laws [of idx] newProvenanceIndex_laws [OF rebuilt_wf [of "[]" idx]] assms
  by (simp_all add: prov_clone_def index_wf_def)

lemma sortedEntries_laws:
  assumes "index_wf idx"
  shows "map_wf (sortedEntries idx)" "affects (sortedEntries idx) x = affects idx x"
proof -
  let ?m = "map (\<lambda>(e, shas). (e, sort shas)) idx"
  have wf: "map_wf ?m" using assms by (simp add: index_wf_def comp_def case_prod_unfold)
  have s: "sortedEntries idx = sort_key fst ?m" by (simp add: sortedEntries_def sort_by_str_key)
  have "mset (map fst (sort_key fst ?m)) = mset (map fst ?m)" by (simp only: mset_map mset_sort)
  then have swf: "map_wf (sort_key fst ?m)" using wf mset_eq_imp_distinct_iff by blast
  then show "map_wf (sortedEntries idx)" by (simp add: s)
  have "map_of (sort_key fst ?m) = map_of ?m" using map_of_inject_set [OF swf wf] by simp
  moreover have "map_of ?m x = map_option sort (map_of idx x)"
    by (induction idx) auto
  ultimately show "affects (sortedEntries idx) x = affects idx x"
    by (simp add: affects_def s split: option.split)
qed

lemma prov_fromJSON_toJSON:
  assumes "index_wf idx"
  shows "\<exists>idx'. prov_fromJSON (prov_toJSON idx) = Inr idx' \<and> affects idx' = affects idx \<and> index_wf idx'"
proof -
  note e = sortedEntries_laws [OF assms]
  have "map_wf (buildIndex (sortedEntries idx))"
    unfolding buildIndex_def by (rule rebuilt_wf) simp
  from newProvenanceIndex_laws [OF this] rebuilt_laws(1) [OF e(1)] e(2)
  show ?thesis by (simp add: prov_fromJSON_def prov_toJSON_def buildIndex_def fun_eq_iff)
qed

text \<open>Equal contents serialise to equal objects, in whatever order they were added.\<close>

lemma sortedEntries_canonical:
  assumes "index_wf a" "index_wf b" "affects a = affects b" "\<forall>e shas. (e, shas) \<in> set a \<union> set b \<longrightarrow> shas \<noteq> []"
  shows "sortedEntries a = sortedEntries b"
proof -
  let ?m = "\<lambda>idx. map (\<lambda>(e, shas). (e, sort shas)) (idx :: prov_index)"
  have wf: "map_wf (?m a)" "map_wf (?m b)"
    using assms(1,2) by (simp_all add: index_wf_def comp_def case_prod_unfold)
  have "map_option sort (map_of a x) = map_option sort (map_of b x)" for x
  proof -
    have aff: "affects a x = affects b x" by (simp add: assms(3))
    show ?thesis
    proof (cases "map_of a x"; cases "map_of b x")
      fix s t assume st: "map_of a x = Some s" "map_of b x = Some t"
      then have "distinct s" "distinct t" using assms(1,2) by (auto simp: index_wf_def)
      moreover have "set s = set t" using aff st by (simp add: affects_def)
      ultimately have "sort s = sort t" by (metis sorted_distinct_set_unique distinct_sort set_sort sorted_sort)
      then show ?thesis by (simp add: st)
    qed (use aff assms(4) in \<open>auto simp: affects_def dest!: map_of_SomeD\<close>)
  qed
  moreover have "map_of (?m idx) x = map_option sort (map_of idx x)" for idx x
    by (induction idx) auto
  ultimately have "map_of (?m a) = map_of (?m b)" by (simp add: fun_eq_iff)
  then have "mset (?m a) = mset (?m b)" using map_wf_mset_eq wf by blast
  then have "sort_key fst (?m a) = sort_key fst (?m b)"
    by (rule sort_key_perm_eq) (use wf(1) distinct_map in blast)
  then show ?thesis by (simp add: sortedEntries_def sort_by_str_key)
qed

section \<open>Payloads\<close>

type_synonym payload = "(patch \<times> string) list"

definition newPayload :: "(patch \<times> string) list \<Rightarrow> payload" where
  "newPayload patches = patches"

definition payload_identity :: payload where
  "payload_identity = newPayload []"

definition payload_length :: "payload \<Rightarrow> nat" where
  "payload_length p = length p"

definition payload_concat :: "payload \<Rightarrow> payload \<Rightarrow> payload" where
  "payload_concat this other =
     (if length this = 0 then other else if length other = 0 then this else newPayload (this @ other))"

definition payload_replay :: "payload \<Rightarrow> warp_state option \<Rightarrow> warp_state result" where
  "payload_replay p initialState =
     (if length p = 0 then Inr (case initialState of None \<Rightarrow> createEmptyStateV5 | Some s \<Rightarrow> cloneStateV5 s)
      else bind_r (reduceV5 p initialState None) (\<lambda>r. Inr (reduced_state r)))"

text \<open>\<open>Array.prototype.at\<close> and \<open>slice\<close> count negative indices from the end.\<close>

definition payload_at :: "payload \<Rightarrow> int \<Rightarrow> (patch \<times> string) option" where
  "payload_at p index =
     (let k = (if index < 0 then int (length p) + index else index)
      in if k < 0 \<or> k \<ge> int (length p) then None else Some (p ! nat k))"

definition slice_index :: "nat \<Rightarrow> int \<Rightarrow> nat" where
  "slice_index len index = (if index < 0 then nat (int len + index) else min (nat index) len)"

definition payload_slice :: "payload \<Rightarrow> int \<Rightarrow> int option \<Rightarrow> payload" where
  "payload_slice p start ende =
     (let a = slice_index (length p) start;
          b = slice_index (length p) (case ende of None \<Rightarrow> int (length p) | Some e \<Rightarrow> e)
      in newPayload (take (b - a) (drop a p)))"

definition payload_toJSON :: "payload \<Rightarrow> (patch \<times> string) list" where
  "payload_toJSON p = p"

definition payload_fromJSON :: "(patch \<times> string) list \<Rightarrow> payload" where
  "payload_fromJSON json = newPayload json"

lemma payload_concat_append [simp]: "payload_concat a b = a @ b"
  by (simp add: payload_concat_def newPayload_def)

lemma payload_replay_fold:
  "payload_replay p s = fold_r apply_entry (case s of None \<Rightarrow> createEmptyStateV5 | Some s \<Rightarrow> s) p"
proof (cases p)
  case Nil
  then show ?thesis by (simp add: payload_replay_def cloneStateV5_def split: option.split)
next
  case (Cons x xs)
  let ?s = "case s of None \<Rightarrow> createEmptyStateV5 | Some s \<Rightarrow> s"
  have "reduceV5 p s None = bind_r (fold_r apply_entry ?s p) (\<lambda>s. Inr (ReducedState s))"
    by (simp add: reduceV5_def cloneStateV5_def split: option.split)
  then show ?thesis
    using Cons by (cases "fold_r apply_entry ?s p") (simp_all add: payload_replay_def reduced_state_def)
qed

text \<open>Replay is an action of the monoid: replaying a concatenation is replaying one after the other.\<close>

lemma payload_replay_concat:
  "payload_replay (payload_concat a b) s = bind_r (payload_replay a s) (\<lambda>t. payload_replay b (Some t))"
  by (simp add: payload_replay_fold fold_r_append)

end
