(* ===== verification/Slices.thy ===== *)
theory Slices
  imports Provenance PatchChains
begin

text \<open>
  \<open>src/domain/warp/provenance.methods.js\<close>: the backward cone of a node over the provenance index,
  and the state that its patches alone reduce to. \<open>String.prototype.localeCompare\<close> depends on the
  locale of the runtime, so it is the parameter \<open>localeCompare\<close>.
\<close>

section \<open>Loading\<close>

datatype slice_error =
    SliceLoad load_error
  | NotPatchCommit string
  | ProvenanceDegraded
  | NoProvenance
  | SliceReduce js_error

definition of_load :: "load_error + 'a \<Rightarrow> slice_error + 'a" where
  "of_load r = (case r of Inl e \<Rightarrow> Inl (SliceLoad e) | Inr x \<Rightarrow> Inr x)"

definition of_reduce :: "'a result \<Rightarrow> slice_error + 'a" where
  "of_reduce r = (case r of Inl e \<Rightarrow> Inl (SliceReduce e) | Inr x \<Rightarrow> Inr x)"

definition loadPatchBySha :: "patch_reader \<Rightarrow> git_store \<Rightarrow> string \<Rightarrow> slice_error + patch" where
  "loadPatchBySha rd s sha =
     bind_r (of_load (of_store (getNodeInfo s sha))) (\<lambda>nodeInfo.
       if detectMessageKind (rd_message rd) (ci_message nodeInfo) \<noteq> Some ''patch'' then Inl (NotPatchCommit sha)
       else bind_r (of_load (of_message (decodePatchMessage (rd_message rd) (ci_message nodeInfo)))) (\<lambda>patchMeta.
         bind_r (of_load (readPatchBlob s patchMeta)) (\<lambda>patchBuffer. of_load (decode_patch rd patchBuffer))))"

type_synonym patch_source = "string \<Rightarrow> slice_error + patch"

definition loadPatchesBySha :: "patch_source \<Rightarrow> string list \<Rightarrow> slice_error + (patch \<times> string) list" where
  "loadPatchesBySha load shas = map_r (\<lambda>sha. bind_r (load sha) (\<lambda>p. Inr (p, sha))) shas"

section \<open>The backward cone\<close>

definition reads_of :: "patch \<Rightarrow> string list" where
  "reads_of p = (case patch_reads p of None \<Rightarrow> [] | Some es \<Rightarrow> es)"

type_synonym cone = "(string, patch) jsmap"

definition cone_patch :: "patch_source \<Rightarrow> string jsset \<Rightarrow> cone \<times> string list \<Rightarrow> string \<Rightarrow> slice_error + cone \<times> string list" where
  "cone_patch load visited acc sha =
     (if map_of (fst acc) sha \<noteq> None then Inr acc
      else bind_r (load sha) (\<lambda>p.
        Inr (map_set (fst acc) sha p, snd acc @ filter (\<lambda>e. e \<notin> set visited) (reads_of p))))"

definition index_shas :: "prov_index \<Rightarrow> string set" where
  "index_shas idx = (\<Union>(e, shas)\<in>set idx. set shas)"

lemma index_shas_finite [simp]: "finite (index_shas idx)"
  by (auto simp: index_shas_def)

lemma patchesFor_index: "set (patchesFor idx e) \<subseteq> index_shas idx"
  by (auto simp: patchesFor_set affects_def index_shas_def split: option.splits dest!: map_of_SomeD)

lemma insert_subset_proper: "insert x A \<subseteq> B \<Longrightarrow> x \<notin> A \<Longrightarrow> A \<subset> B \<and> A \<subseteq> B"
  by auto

lemma cone_patches_grow:
  assumes "fold_r (cone_patch load visited) (c, q) shas = Inr (c', q')" "fst ` set c \<subseteq> S" "set shas \<subseteq> S"
  shows "fst ` set c \<subseteq> fst ` set c' \<and> fst ` set c' \<subseteq> S \<and> (c' = c \<and> q' = q \<or> fst ` set c \<subset> fst ` set c')"
  using assms
proof (induction shas arbitrary: c q)
  case Nil
  then show ?case by simp
next
  case (Cons sha shas)
  then obtain c1 q1 where s: "cone_patch load visited (c, q) sha = Inr (c1, q1)"
      "fold_r (cone_patch load visited) (c1, q1) shas = Inr (c', q')"
    by (auto simp: bind_r_Inr_iff)
  show ?case
  proof (cases "map_of c sha")
    case (Some p)
    then have "c1 = c" "q1 = q" using s(1) by (auto simp: cone_patch_def)
    then show ?thesis using Cons.IH [of c q] s(2) Cons.prems by simp
  next
    case None
    then have new: "sha \<notin> fst ` set c" by (simp add: map_of_eq_None_iff)
    obtain p where "c1 = map_set c sha p" using s(1) None by (auto simp: cone_patch_def bind_r_Inr_iff)
    then have k: "fst ` set c1 = insert sha (fst ` set c)" using update_absent [OF new] by simp
    have sub: "fst ` set c1 \<subseteq> S" "set shas \<subseteq> S" using Cons.prems(2,3) by (simp_all add: k)
    note g = Cons.IH [OF s(2) sub]
    have "fst ` set c \<subset> fst ` set c' \<and> fst ` set c \<subseteq> fst ` set c'"
      by (rule insert_subset_proper [OF conjunct1 [OF g, unfolded k] new])
    then show ?thesis using conjunct1 [OF conjunct2 [OF g]] by (elim conjE) (intro conjI disjI2)
  qed
qed

text \<open>
  The queue is what is left from the read pointer on. Every round takes an entity off it, and it only
  grows when the cone takes one of the finitely many patches of the index.
\<close>

function backward_cone ::
  "patch_source \<Rightarrow> prov_index \<Rightarrow> cone \<Rightarrow> string jsset \<Rightarrow> string list \<Rightarrow> slice_error + cone" where
  "backward_cone load idx cone visited [] = Inr cone"
| "backward_cone load idx cone visited (entityId # queue) =
     (if entityId \<in> set visited then backward_cone load idx cone visited queue
      else let visited' = set_add visited entityId in
        (case fold_r (cone_patch load visited') (cone, queue) (patchesFor idx entityId) of
           Inl e \<Rightarrow> Inl e
         | Inr (cone', queue') \<Rightarrow> backward_cone load idx cone' visited' queue'))"
  by pat_completeness auto
termination
proof (relation "measures [\<lambda>(load, idx, cone, visited, queue). card (index_shas idx - fst ` set cone),
      \<lambda>(load, idx, cone, visited, queue). length queue]", goal_cases)
  case (3 load idx cone visited entityId queue visited' r cone' queue')
  have f: "fold_r (cone_patch load visited') (cone, queue) (patchesFor idx entityId) = Inr (cone', queue')"
    using 3 by simp
  have sub: "set (patchesFor idx entityId) \<subseteq> fst ` set cone \<union> index_shas idx"
    by (rule le_supI2) (rule patchesFor_index)
  from cone_patches_grow [OF f Un_upper1 sub]
  have "cone' = cone \<and> queue' = queue \<or> fst ` set cone \<subset> fst ` set cone' \<and> fst ` set cone' \<subseteq> fst ` set cone \<union> index_shas idx"
    by (elim conjE disjE) simp_all
  then show ?case
  proof
    assume g: "fst ` set cone \<subset> fst ` set cone' \<and> fst ` set cone' \<subseteq> fst ` set cone \<union> index_shas idx"
    then have "index_shas idx - fst ` set cone' \<subset> index_shas idx - fst ` set cone" by blast
    then have "card (index_shas idx - fst ` set cone') < card (index_shas idx - fst ` set cone)"
      by (rule psubset_card_mono [rotated]) simp
    then show ?thesis by simp
  qed simp
qed auto

definition computeBackwardCone :: "patch_source \<Rightarrow> prov_index option \<Rightarrow> string \<Rightarrow> slice_error + cone" where
  "computeBackwardCone load provenanceIndex nodeId =
     (case provenanceIndex of None \<Rightarrow> Inl NoProvenance | Some idx \<Rightarrow> backward_cone load idx [] [] [nodeId])"

section \<open>The slice\<close>

definition causal_cmp :: "(string \<Rightarrow> string \<Rightarrow> int) \<Rightarrow> patch \<times> string \<Rightarrow> patch \<times> string \<Rightarrow> int" where
  "causal_cmp localeCompare a b =
     (let lamportDiff = patch_lamport (fst a) - patch_lamport (fst b) in
      if lamportDiff \<noteq> 0 then lamportDiff
      else let writerCmp = localeCompare (patch_writer (fst a)) (patch_writer (fst b)) in
        if writerCmp \<noteq> 0 then writerCmp else localeCompare (snd a) (snd b))"

definition sortPatchesCausally :: "(string \<Rightarrow> string \<Rightarrow> int) \<Rightarrow> (patch \<times> string) list \<Rightarrow> (patch \<times> string) list" where
  "sortPatchesCausally localeCompare patches = sort_by (causal_cmp localeCompare) patches"

record slice =
  sl_state :: warp_state
  sl_patchCount :: nat
  sl_receipts :: "tick_receipt list option"

definition materializeSlice ::
  "patch_source \<Rightarrow> (string \<Rightarrow> string \<Rightarrow> int) \<Rightarrow> prov_index option \<Rightarrow> bool \<Rightarrow> string \<Rightarrow> bool \<Rightarrow> slice_error + slice" where
  "materializeSlice load localeCompare provenanceIndex degraded nodeId collectReceipts =
     (if degraded then Inl ProvenanceDegraded
      else if provenanceIndex = None then Inl NoProvenance
      else bind_r (computeBackwardCone load provenanceIndex nodeId) (\<lambda>conePatchMap.
        if length conePatchMap = 0
        then Inr \<lparr>sl_state = createEmptyStateV5, sl_patchCount = 0,
               sl_receipts = (if collectReceipts then Some [] else None)\<rparr>
        else
          let sortedPatches = sortPatchesCausally localeCompare (map (\<lambda>(sha, p). (p, sha)) conePatchMap) in
          if collectReceipts then
            bind_r (of_reduce (reduceV5 sortedPatches None (Some \<lparr>opt_receipts = True, opt_trackDiff = False\<rparr>))) (\<lambda>r.
              Inr \<lparr>sl_state = reduced_state r, sl_patchCount = length sortedPatches,
                sl_receipts = (case r of ReducedReceipts _ rs \<Rightarrow> Some rs | _ \<Rightarrow> None)\<rparr>)
          else
            bind_r (of_reduce (payload_replay (newPayload sortedPatches) None)) (\<lambda>st.
              Inr \<lparr>sl_state = st, sl_patchCount = length sortedPatches, sl_receipts = None\<rparr>)))"

end
