(* ===== verification/SliceLaws.thy ===== *)
theory SliceLaws
  imports Slices BuiltPatches
begin

text \<open>
  Why a slice is enough: the cone holds every patch that declares the node, a built patch declares
  every node that it touches, and what a node looks like depends on those patches only.
\<close>

section \<open>The cone is complete\<close>

definition affects_known :: "prov_index \<Rightarrow> cone \<Rightarrow> string jsset \<Rightarrow> bool" where
  "affects_known idx c visited \<longleftrightarrow> (\<forall>e\<in>set visited. affects idx e \<subseteq> fst ` set c)"

definition cone_sound :: "patch_source \<Rightarrow> prov_index \<Rightarrow> cone \<Rightarrow> bool" where
  "cone_sound load idx c \<longleftrightarrow> map_wf c \<and> (\<forall>(sha, p)\<in>set c. sha \<in> index_shas idx \<and> load sha = Inr p)"

lemma cone_patch_cases:
  assumes "cone_patch load visited (c, q) sha = Inr (c', q')"
  obtains (known) p where "map_of c sha = Some p" "c' = c" "q' = q"
  | (taken) p where "map_of c sha = None" "load sha = Inr p" "c' = c @ [(sha, p)]"
      "q' = q @ filter (\<lambda>e. e \<notin> set visited) (reads_of p)"
proof (cases "map_of c sha")
  case None
  then have "sha \<notin> fst ` set c" by (simp add: map_of_eq_None_iff)
  then have u: "map_set c sha p = c @ [(sha, p)]" for p by (rule update_absent)
  obtain p where p: "load sha = Inr p" "c' = map_set c sha p" "q' = q @ filter (\<lambda>e. e \<notin> set visited) (reads_of p)"
    using assms None by (auto simp: cone_patch_def bind_r_Inr_iff)
  show ?thesis by (rule taken [OF None p(1) _ p(3)]) (simp only: p(2) u)
next
  case (Some p)
  have "c' = c" "q' = q" using assms Some by (simp_all add: cone_patch_def)
  then show ?thesis by (rule known [OF Some])
qed

lemma cone_patches_sound:
  assumes "fold_r (cone_patch load visited) (c, q) shas = Inr (c', q')" "cone_sound load idx c"
    and "set shas \<subseteq> index_shas idx"
  shows "cone_sound load idx c' \<and> fst ` set c' = fst ` set c \<union> set shas \<and> set q \<subseteq> set q'"
  using assms
proof (induction shas arbitrary: c q)
  case Nil
  then show ?case by simp
next
  case (Cons sha shas)
  then obtain c1 q1 where s: "cone_patch load visited (c, q) sha = Inr (c1, q1)"
      "fold_r (cone_patch load visited) (c1, q1) shas = Inr (c', q')"
    by (auto simp: bind_r_Inr_iff)
  have "cone_sound load idx c1 \<and> fst ` set c1 = insert sha (fst ` set c) \<and> set q \<subseteq> set q1"
    using s(1)
  proof (cases rule: cone_patch_cases)
    case (known p)
    then have "sha \<in> fst ` set c" by (force dest: map_of_SomeD)
    then show ?thesis using known Cons.prems(2) by (simp add: insert_absorb)
  next
    case (taken p)
    then have "sha \<notin> fst ` set c" by (simp add: map_of_eq_None_iff)
    then show ?thesis using taken Cons.prems(2,3) by (simp add: cone_sound_def)
  qed
  then show ?case using Cons.IH [OF s(2)] Cons.prems(3) by auto
qed

lemma backward_cone_complete:
  assumes "backward_cone load idx c visited queue = Inr c'" "cone_sound load idx c" "affects_known idx c visited"
  shows "cone_sound load idx c' \<and> (\<forall>e\<in>set visited \<union> set queue. affects idx e \<subseteq> fst ` set c')"
  using assms
proof (induction load idx c visited queue rule: backward_cone.induct)
  case (1 load idx c visited)
  then show ?case by (simp add: affects_known_def)
next
  case (2 load idx c visited e queue)
  show ?case
  proof (cases "e \<in> set visited")
    case True
    then show ?thesis using "2.IH"(1) "2.prems" by (simp add: insert_absorb)
  next
    case False
    let ?v = "set_add visited e"
    obtain c1 q1 where f: "fold_r (cone_patch load ?v) (c, queue) (patchesFor idx e) = Inr (c1, q1)"
      using "2.prems"(1) False by (auto simp: Let_def split: sum.splits)
    then have rest: "backward_cone load idx c1 ?v q1 = Inr c'" using "2.prems"(1) False by (simp add: Let_def)
    note g = cone_patches_sound [OF f "2.prems"(2) patchesFor_index]
    have "affects_known idx c1 ?v"
      using "2.prems"(3) g by (auto simp: affects_known_def patchesFor_set)
    from "2.IH"(2) [OF False refl f refl rest _ this] g
    have "cone_sound load idx c' \<and> (\<forall>e'\<in>set ?v \<union> set q1. affects idx e' \<subseteq> fst ` set c')" by blast
    then show ?thesis using g by auto
  qed
qed

lemma backward_cone_ok:
  assumes "\<And>sha. sha \<in> index_shas idx \<Longrightarrow> is_ok (load sha)"
  shows "is_ok (backward_cone load idx c visited queue)"
  using assms
proof (induction load idx c visited queue rule: backward_cone.induct)
  case (2 load idx c visited e queue)
  have "is_ok (cone_patch load v acc sha)" if "sha \<in> set (patchesFor idx e)" for v acc sha
  proof -
    have "sha \<in> index_shas idx" using that patchesFor_index by blast
    then obtain p where "load sha = Inr p" using "2.prems" by (auto simp: is_ok_iff)
    then show ?thesis by (simp add: cone_patch_def)
  qed
  then have "is_ok (fold_r (cone_patch load (set_add visited e)) (c, queue) (patchesFor idx e))"
    by (intro fold_r_total) blast
  then obtain c1 q1 where f: "fold_r (cone_patch load (set_add visited e)) (c, queue) (patchesFor idx e) = Inr (c1, q1)"
    by (auto simp: is_ok_iff)
  show ?case
  proof (cases "e \<in> set visited")
    case True
    then show ?thesis using "2.IH"(1) "2.prems" by simp
  next
    case False
    from "2.IH"(2) [OF False refl f refl "2.prems"] show ?thesis using False f by (simp add: Let_def)
  qed
qed simp

section \<open>What a slice shows of its node\<close>

text \<open>
  Every patch of the log declares the nodes that it adds, the nodes whose properties it writes, and
  the nodes whose dots it removes.
\<close>

definition declares_io :: "(patch \<times> string) list \<Rightarrow> bool" where
  "declares_io ps \<longleftrightarrow> (\<forall>x\<in>set ps. \<forall>e eff. (e, eff) \<in> set (entry_log x) \<longrightarrow>
     (case eff of
        AddNode n d \<Rightarrow> n \<in> declared (fst x)
      | TombNodes ds \<Rightarrow> (\<forall>n. set ds \<inter> added (full_log ps) n \<noteq> {} \<longrightarrow> n \<in> declared (fst x))
      | WriteProp key v \<Rightarrow> (\<forall>n k. clean_id n \<and> key = encodePropKey n k \<longrightarrow> n \<in> declared (fst x))
      | _ \<Rightarrow> True))"

lemma full_log_mem: "(e, eff) \<in> set (full_log ps) \<longleftrightarrow> (\<exists>x\<in>set ps. (e, eff) \<in> set (entry_log x))"
  by (auto simp: full_log_def)

lemma sliced_log:
  assumes "declares_io ps" "set qs \<subseteq> set ps" "\<forall>x\<in>set ps. n \<in> declared (fst x) \<longrightarrow> x \<in> set qs"
  shows "added (full_log qs) n = added (full_log ps) n"
    and "added (full_log ps) n \<inter> removed (full_log qs) = added (full_log ps) n \<inter> removed (full_log ps)"
    and "clean_id n \<Longrightarrow> writes_to (full_log qs) (encodePropKey n k) = writes_to (full_log ps) (encodePropKey n k)"
proof -
  have sub: "(e, eff) \<in> set (full_log ps)" if "(e, eff) \<in> set (full_log qs)" for e eff
    using that assms(2) by (auto simp: full_log_mem)
  have d: "case eff of
        AddNode n d \<Rightarrow> n \<in> declared (fst x)
      | TombNodes ds \<Rightarrow> (\<forall>n. set ds \<inter> added (full_log ps) n \<noteq> {} \<longrightarrow> n \<in> declared (fst x))
      | WriteProp key v \<Rightarrow> (\<forall>n k. clean_id n \<and> key = encodePropKey n k \<longrightarrow> n \<in> declared (fst x))
      | _ \<Rightarrow> True"
    if "x \<in> set ps" "(e, eff) \<in> set (entry_log x)" for x e eff
    using assms(1) that unfolding declares_io_def by blast
  have kept: "(e, eff) \<in> set (full_log qs)" if "x \<in> set ps" "(e, eff) \<in> set (entry_log x)" "n \<in> declared (fst x)" for x e eff
    using that assms(3) by (auto simp: full_log_mem)
  show "added (full_log qs) n = added (full_log ps) n"
  proof
    show "added (full_log qs) n \<subseteq> added (full_log ps) n" using sub unfolding added_def by blast
    show "added (full_log ps) n \<subseteq> added (full_log qs) n"
    proof
      fix a assume "a \<in> added (full_log ps) n"
      then obtain e x where x: "x \<in> set ps" "(e, AddNode n a) \<in> set (entry_log x)"
        by (auto simp: added_def full_log_mem)
      have "n \<in> declared (fst x)" using d [OF x] by simp
      from kept [OF x this] show "a \<in> added (full_log qs) n" unfolding added_def by blast
    qed
  qed
  show "added (full_log ps) n \<inter> removed (full_log qs) = added (full_log ps) n \<inter> removed (full_log ps)"
  proof
    show "added (full_log ps) n \<inter> removed (full_log qs) \<subseteq> added (full_log ps) n \<inter> removed (full_log ps)"
      using sub unfolding removed_def by blast
    show "added (full_log ps) n \<inter> removed (full_log ps) \<subseteq> added (full_log ps) n \<inter> removed (full_log qs)"
    proof
      fix a assume a: "a \<in> added (full_log ps) n \<inter> removed (full_log ps)"
      then obtain e ds x where x: "x \<in> set ps" "(e, TombNodes ds) \<in> set (entry_log x)" "a \<in> set ds"
        by (auto simp: removed_def full_log_mem)
      have "n \<in> declared (fst x)" using d [OF x(1,2)] a x(3) by auto
      from kept [OF x(1,2) this] show "a \<in> added (full_log ps) n \<inter> removed (full_log qs)"
        using a x(3) unfolding removed_def by blast
    qed
  qed
  assume clean: "clean_id n"
  show "writes_to (full_log qs) (encodePropKey n k) = writes_to (full_log ps) (encodePropKey n k)"
  proof
    show "writes_to (full_log qs) (encodePropKey n k) \<subseteq> writes_to (full_log ps) (encodePropKey n k)"
      using sub unfolding writes_to_def by blast
    show "writes_to (full_log ps) (encodePropKey n k) \<subseteq> writes_to (full_log qs) (encodePropKey n k)"
    proof
      fix w assume "w \<in> writes_to (full_log ps) (encodePropKey n k)"
      then obtain e v x where x: "w = (e, v)" "x \<in> set ps" "(e, WriteProp (encodePropKey n k) v) \<in> set (entry_log x)"
        by (auto simp: writes_to_def full_log_mem)
      have "n \<in> declared (fst x)" using d [OF x(2,3)] clean by auto
      from kept [OF x(2,3) this] show "w \<in> writes_to (full_log qs) (encodePropKey n k)"
        unfolding writes_to_def x(1) by blast
    qed
  qed
qed

lemma winner_unique:
  assumes "winner W a" "winner W b" "\<And>e v v'. (e, v) \<in> W \<Longrightarrow> (e, v') \<in> W \<Longrightarrow> v = v'"
  shows "a = b"
proof (cases a; cases b)
  fix ra rb assume ab: "a = Some ra" "b = Some rb"
  then have w: "(reg_eventId ra, reg_value ra) \<in> W" "(reg_eventId rb, reg_value rb) \<in> W"
      "reg_eventId rb \<le> reg_eventId ra" "reg_eventId ra \<le> reg_eventId rb"
    using assms(1,2) by (auto simp: winner_def)
  then have e: "reg_eventId ra = reg_eventId rb" by simp
  then have "reg_value ra = reg_value rb" using w(1,2) assms(3) by simp
  with e show "a = b" by (simp add: ab)
qed (use assms(1,2) in \<open>auto simp: winner_def\<close>)

section \<open>Built patches declare what they touch\<close>

text \<open>The node of an operation on nodes.\<close>

definition touched :: "jsval \<Rightarrow> string option" where
  "touched p = (if fld p ''type'' \<in> JStr ` {''NodeAdd'', ''NodeRemove'', ''NodePropSet''}
     then Some (js_str (fld p ''node'')) else None)"

definition io_inv_but :: "string set \<Rightarrow> builder \<Rightarrow> bool" where
  "io_inv_but X b \<longleftrightarrow> (\<forall>p\<in>set (b_ops b). set_option (touched p) \<subseteq> set (b_observed b) \<union> set (b_writes b) \<union> X)"

lemma touched_simps [simp]:
  "touched (createNodeAddV2 n d) = Some n" "touched (createNodeRemoveV2 n ds) = Some n"
  "touched (createNodePropSetV2 (JStr n) k v) = Some n"
  "touched (createEdgeAddV2 f t l d) = None" "touched (createEdgeRemoveV2 x y z ds) = None"
  "touched (createEdgePropSetV2 f t l k v) = None"
  by (simp_all add: touched_def op_creators)

lemma io_frame:
  "io_inv_but X b \<Longrightarrow> io_inv_but X (b\<lparr>b_snapshot := s\<rparr>)" "io_inv_but X b \<Longrightarrow> io_inv_but X (b\<lparr>b_vv := v\<rparr>)"
  "io_inv_but X b \<Longrightarrow> io_inv_but X (b\<lparr>b_nodesAdded := ns\<rparr>)" "io_inv_but X b \<Longrightarrow> io_inv_but X (b\<lparr>b_edgesAdded := es\<rparr>)"
  "io_inv_but X b \<Longrightarrow> io_inv_but X (b\<lparr>b_warnings := ls\<rparr>)" "io_inv_but X b \<Longrightarrow> io_inv_but X (b\<lparr>b_hasEdgeProps := h\<rparr>)"
  by (simp_all add: io_inv_but_def)

lemma io_weaken: "io_inv_but X b \<Longrightarrow> X \<subseteq> Y \<Longrightarrow> io_inv_but Y b"
  unfolding io_inv_but_def by blast

lemma io_steps:
  "triple (io_inv_but X) (observe_b x) (\<lambda>_. io_inv_but (X - {x})) E"
  "triple (io_inv_but X) (write_b x) (\<lambda>_. io_inv_but (X - {x})) E"
  "triple (io_inv_but {}) (push_op p) (\<lambda>_. io_inv_but (set_option (touched p))) E"
  "keeps (io_inv_but X) next_dot"
  "keeps (io_inv_but X) (getSnapshotState cur)"
  unfolding observe_b_def write_b_def push_op_def
  by (rule triple_modify; fastforce simp: io_inv_but_def)+
    (auto simp: triple_def next_dot_def getSnapshotState_def Let_def io_frame split: option.split sum.split prod.split)

abbreviation io_inv :: "builder \<Rightarrow> bool" where
  "io_inv \<equiv> io_inv_but {}"

lemma io_marks: "keeps io_inv (observe_b x)" "keeps io_inv (write_b x)"
  using io_steps(1) [of "{}" x io_inv] io_steps(2) [of "{}" x io_inv] by simp_all

lemma io_push_none: "touched p = None \<Longrightarrow> keeps io_inv (push_op p)"
  using io_steps(3) [of p io_inv] by simp

lemma io_modify:
  "triple (io_inv_but X) (modify_b (\<lambda>b. b\<lparr>b_nodesAdded := f b\<rparr>)) (\<lambda>_. io_inv_but X) E"
  "triple (io_inv_but X) (modify_b (\<lambda>b. b\<lparr>b_edgesAdded := f b\<rparr>)) (\<lambda>_. io_inv_but X) E"
  "triple (io_inv_but X) (modify_b (\<lambda>b. b\<lparr>b_hasEdgeProps := h b\<rparr>)) (\<lambda>_. io_inv_but X) E"
  "triple (io_inv_but X) (modify_b (\<lambda>b. b\<lparr>b_warnings := w b\<rparr>)) (\<lambda>_. io_inv_but X) E"
  by (auto intro: triple_modify io_frame)

lemma io_settle:
  "triple (io_inv_but {x}) (observe_b x) (\<lambda>_. io_inv) E" "triple (io_inv_but {x}) (write_b x) (\<lambda>_. io_inv) E"
  using io_steps(1,2) [of "{x}" x E] by simp_all

lemma io_push: "touched p = Some n \<Longrightarrow> triple io_inv (push_op p) (\<lambda>_. io_inv_but {n}) E"
  using io_steps(3) [of p E] by simp

lemma addNode_io: "keeps io_inv (addNode nodeId)"
  unfolding addNode_def
  by (intro triple_open triple_assert triple_bind [OF io_steps(4)] triple_bind [OF io_push [OF touched_simps(1)]]
      triple_bind [OF io_modify(1)] io_settle)

lemma addEdge_io: "keeps io_inv (addEdge from_id to_id label)"
  unfolding addEdge_def Let_def
  by (intro triple_open triple_assert triple_bind [OF io_steps(4)] triple_bind [OF io_push_none]
      triple_bind [OF io_modify(2)] triple_bind [OF io_marks(1)] io_marks touched_simps)

lemma deleteGuard_io: "keeps io_inv (deleteGuard st nodeId)"
  unfolding deleteGuard_def
proof (rule triple_bind [where R = "\<lambda>_. io_inv"])
  show "keeps io_inv (gets_b b_onDelete)" by (rule triple_gets)
  have c: "keeps io_inv (cascade_edge s k)" for s k
    unfolding cascade_edge_def Let_def by (intro triple_bind [OF io_push_none] io_marks) simp
  fix policy
  show "keeps io_inv (case st of None \<Rightarrow> ret_b ()
       | Some s \<Rightarrow> let data = findAttachedData s nodeId; nE = length (at_edges data); nP = length (at_props data)
           in case policy of
                RejectDelete \<Rightarrow> if at_hasData data then lift_b (Inl (BuilderErr (NodeHasData nodeId nE nP))) else ret_b ()
              | CascadeDelete \<Rightarrow> each_b (cascade_edge s) (at_edges data)
              | WarnDelete \<Rightarrow> if at_hasData data
                  then modify_b (\<lambda>b. b\<lparr>b_warnings := b_warnings b @ [(nodeId, nE, nP)]\<rparr>) else ret_b ())"
    by (auto simp: Let_def split: option.split delete_policy.split
        intro!: triple_ret io_modify keeps_lift keeps_each c)
qed

lemma removeNode_io: "keeps io_inv (removeNode cur nodeId)"
  unfolding removeNode_def Let_def
  by (intro triple_open triple_bind [OF io_steps(5)] triple_bind [OF deleteGuard_io]
      triple_bind [OF io_push [OF touched_simps(2)]] io_settle)

lemma removeEdge_io: "keeps io_inv (removeEdge cur f t l)"
  unfolding removeEdge_def Let_def
  by (intro triple_open triple_bind [OF io_steps(5)] triple_bind [OF io_push_none] io_marks touched_simps)

lemma setProperty_io: "keeps io_inv (setProperty nodeId key v)"
  unfolding setProperty_def
proof (intro triple_open triple_assert)
  fix n assume n: "nodeId = JStr n"
  have p: "touched (createNodePropSetV2 nodeId key v) = Some (js_str nodeId)" by (simp add: n)
  show "keeps io_inv (bind_b (push_op (createNodePropSetV2 nodeId key v)) (\<lambda>_.
      bind_b (observe_b (js_str nodeId)) (\<lambda>_. write_b (js_str nodeId))))"
    by (intro triple_bind [OF io_push [OF p]] triple_bind [OF io_settle(1)] io_marks)
qed

lemma assertEdgeExists_io: "keeps io_inv (assertEdgeExists cur f t l)"
  unfolding assertEdgeExists_def Let_def
  by (intro triple_bind [OF triple_gets [where Q = "\<lambda>_. io_inv"]])
    (auto intro!: triple_ret triple_bind [OF io_steps(5)] keeps_lift split: option.split)

lemma setEdgeProperty_io: "keeps io_inv (setEdgeProperty cur from_id to_id label key v)"
  unfolding setEdgeProperty_def
  by (intro triple_open triple_assert triple_bind [OF assertEdgeExists_io] triple_bind [OF io_push_none]
      triple_bind [OF io_modify(3)] triple_bind [OF io_marks(1)] io_marks touched_simps)

lemma run_calls_io: "io_inv (run_calls cs (createPatchBuilder g w l vv par pol))"
proof (rule run_calls_keeps)
  show "keeps io_inv (run_call c)" for c
    by (cases c) (simp_all add: addNode_io addEdge_io removeNode_io removeEdge_io setProperty_io setEdgeProperty_io)
  show "io_inv (createPatchBuilder g w l vv par pol)" by (simp add: io_inv_but_def createPatchBuilder_def)
qed

end
