(* ===== verification/Wormholes.thy ===== *)
theory Wormholes
  imports Provenance PatchChains
begin

text \<open>
  \<open>src/domain/services/WormholeService.js\<close>: a stretch of one writer's chain packed with its patches.
  Two consecutive stretches compose to the stretch between their ends, and replaying the composition
  is replaying one after the other. There is no storage for encrypted patches; a patch count that is
  a number is integral.
\<close>

section \<open>Creating a wormhole\<close>

datatype wormhole_error =
    WormShaEmpty string
  | WormShaNotFound string string
  | WormNotPatch string
  | WormOtherGraph string
  | WormMultiWriter string string
  | WormNotAncestor string string
  | WormEmptyRange
  | WormNotConsecutive
  | WormJsonObject
  | WormJsonMissing string
  | WormJsonType string
  | WormLoad load_error

definition of_worm :: "load_error + 'a \<Rightarrow> wormhole_error + 'a" where
  "of_worm r = (case r of Inl e \<Rightarrow> Inl (WormLoad e) | Inr x \<Rightarrow> Inr x)"

lemma of_worm_Inr [simp]: "of_worm r = Inr x \<longleftrightarrow> r = Inr x"
  by (cases r) (simp_all add: of_worm_def)

definition validateSha :: "string \<Rightarrow> string \<Rightarrow> wormhole_error + unit" where
  "validateSha sha paramName = (if sha = [] then Inl (WormShaEmpty paramName) else Inr ())"

definition verifyShaExists :: "git_store \<Rightarrow> string \<Rightarrow> string \<Rightarrow> wormhole_error + unit" where
  "verifyShaExists s sha paramName =
     bind_r (of_worm (of_store (nodeExists s sha))) (\<lambda>exists.
       if \<not> exists then Inl (WormShaNotFound sha paramName) else Inr ())"

record processed =
  pc_patch :: patch
  pc_sha :: string
  pc_writerId :: string
  pc_parentSha :: "string option"

definition processCommit ::
  "patch_reader \<Rightarrow> git_store \<Rightarrow> string \<Rightarrow> string \<Rightarrow> string option \<Rightarrow> wormhole_error + processed" where
  "processCommit rd s graphName sha expectedWriter =
     bind_r (of_worm (of_store (getNodeInfo s sha))) (\<lambda>nodeInfo.
       if detectMessageKind (rd_message rd) (ci_message nodeInfo) \<noteq> Some ''patch'' then Inl (WormNotPatch sha)
       else bind_r (of_worm (of_message (decodePatchMessage (rd_message rd) (ci_message nodeInfo)))) (\<lambda>patchMeta.
         if pm_graph patchMeta \<noteq> graphName then Inl (WormOtherGraph sha)
         else if expectedWriter \<noteq> None \<and> pm_writer patchMeta \<noteq> the expectedWriter
         then Inl (WormMultiWriter (the expectedWriter) (pm_writer patchMeta))
         else bind_r (of_worm (bind_r (readPatchBlob s patchMeta) (decode_patch rd))) (\<lambda>p.
           Inr \<lparr>pc_patch = p, pc_sha = sha, pc_writerId = pm_writer patchMeta,
             pc_parentSha = first_parent nodeInfo\<rparr>)))"

text \<open>The walk, newest first; it returns the commits with where it stopped.\<close>

partial_function (option) collect_range ::
  "patch_reader \<Rightarrow> git_store \<Rightarrow> string \<Rightarrow> string \<Rightarrow> string \<Rightarrow> string \<Rightarrow> string option \<Rightarrow> processed list \<Rightarrow>
   (wormhole_error + string \<times> processed list) option" where
  "collect_range rd s graphName fromSha toSha cur writerId acc =
     (if cur = [] then Some (Inr (cur, acc))
      else (case processCommit rd s graphName cur writerId of
              Inl e \<Rightarrow> Some (Inl e)
            | Inr r \<Rightarrow>
                if cur = fromSha then Some (Inr (cur, acc @ [r]))
                else (case pc_parentSha r of
                        None \<Rightarrow> Some (Inl (WormNotAncestor fromSha toSha))
                      | Some p \<Rightarrow>
                          if p = [] then Some (Inl (WormNotAncestor fromSha toSha))
                          else collect_range rd s graphName fromSha toSha p (Some (pc_writerId r)) (acc @ [r]))))"

declare collect_range.simps [code]

definition collectPatchRange ::
  "patch_reader \<Rightarrow> git_store \<Rightarrow> string \<Rightarrow> string \<Rightarrow> string \<Rightarrow> (wormhole_error + processed list) option" where
  "collectPatchRange rd s graphName fromSha toSha =
     bind_o (collect_range rd s graphName fromSha toSha toSha None []) (\<lambda>(cur, patches).
       if cur \<noteq> fromSha then Some (Inl (WormNotAncestor fromSha toSha))
       else if length patches = 0 then Some (Inl WormEmptyRange) else Some (Inr patches))"

record wormhole =
  wh_fromSha :: string
  wh_toSha :: string
  wh_writerId :: string
  wh_payload :: payload
  wh_patchCount :: int

definition to_entry :: "processed \<Rightarrow> patch \<times> string" where
  "to_entry r = (pc_patch r, pc_sha r)"

definition pack :: "string \<Rightarrow> string \<Rightarrow> processed list \<Rightarrow> wormhole" where
  "pack fromSha toSha collected =
     (let patches = rev collected in
      \<lparr>wh_fromSha = fromSha, wh_toSha = toSha,
       wh_writerId = (case patches of [] \<Rightarrow> [] | r # _ \<Rightarrow> pc_writerId r),
       wh_payload = newPayload (map to_entry patches), wh_patchCount = int (length patches)\<rparr>)"

definition createWormhole ::
  "patch_reader \<Rightarrow> git_store \<Rightarrow> string \<Rightarrow> string \<Rightarrow> string \<Rightarrow> (wormhole_error + wormhole) option" where
  "createWormhole rd s graphName fromSha toSha =
     bind_o (Some (bind_r (validateSha fromSha ''fromSha'') (\<lambda>_.
                   bind_r (validateSha toSha ''toSha'') (\<lambda>_.
                   bind_r (verifyShaExists s fromSha ''fromSha'') (\<lambda>_.
                     verifyShaExists s toSha ''toSha''))))) (\<lambda>_.
       bind_o (collectPatchRange rd s graphName fromSha toSha) (\<lambda>patches. Some (Inr (pack fromSha toSha patches))))"

section \<open>Composing, replaying and transferring\<close>

definition composeWormholes :: "git_store option \<Rightarrow> wormhole \<Rightarrow> wormhole \<Rightarrow> wormhole_error + wormhole" where
  "composeWormholes persistence first second =
     (if wh_writerId first \<noteq> wh_writerId second then Inl (WormMultiWriter (wh_writerId first) (wh_writerId second))
      else bind_r (case persistence of
                     None \<Rightarrow> Inr ()
                   | Some s \<Rightarrow>
                       bind_r (of_worm (of_store (getNodeInfo s (wh_fromSha second)))) (\<lambda>info.
                         if wh_toSha first \<notin> set (ci_parents info) then Inl WormNotConsecutive else Inr ())) (\<lambda>_.
        Inr \<lparr>wh_fromSha = wh_fromSha first, wh_toSha = wh_toSha second, wh_writerId = wh_writerId first,
          wh_payload = payload_concat (wh_payload first) (wh_payload second),
          wh_patchCount = wh_patchCount first + wh_patchCount second\<rparr>))"

definition replayWormhole :: "wormhole \<Rightarrow> warp_state option \<Rightarrow> warp_state result" where
  "replayWormhole w initialState = payload_replay (wh_payload w) initialState"

datatype payload_json = PayloadMissing | PayloadOther | PayloadArray "(patch \<times> string) list"

record wormhole_json =
  wj_fromSha :: jsval
  wj_toSha :: jsval
  wj_writerId :: jsval
  wj_patchCount :: jsval
  wj_payload :: payload_json

definition serializeWormhole :: "wormhole \<Rightarrow> wormhole_json" where
  "serializeWormhole w = \<lparr>wj_fromSha = JStr (wh_fromSha w), wj_toSha = JStr (wh_toSha w),
     wj_writerId = JStr (wh_writerId w), wj_patchCount = JNum (wh_patchCount w),
     wj_payload = PayloadArray (payload_toJSON (wh_payload w))\<rparr>"

definition missing_field :: "wormhole_json \<Rightarrow> string option" where
  "missing_field j =
     (if wj_fromSha j = JUndef then Some ''fromSha'' else if wj_toSha j = JUndef then Some ''toSha''
      else if wj_writerId j = JUndef then Some ''writerId'' else if wj_patchCount j = JUndef then Some ''patchCount''
      else if wj_payload j = PayloadMissing then Some ''payload'' else None)"

definition deserializeWormhole :: "wormhole_json option \<Rightarrow> wormhole_error + wormhole" where
  "deserializeWormhole json =
     (case json of None \<Rightarrow> Inl WormJsonObject
      | Some j \<Rightarrow>
          (case missing_field j of Some f \<Rightarrow> Inl (WormJsonMissing f)
           | None \<Rightarrow>
               if \<not> js_is_str (wj_fromSha j) then Inl (WormJsonType ''fromSha'')
               else if \<not> js_is_str (wj_toSha j) then Inl (WormJsonType ''toSha'')
               else if \<not> js_is_str (wj_writerId j) then Inl (WormJsonType ''writerId'')
               else (case js_int (wj_patchCount j) of
                       None \<Rightarrow> Inl (WormJsonType ''patchCount'')
                     | Some n \<Rightarrow>
                         if n < 0 then Inl (WormJsonType ''patchCount'')
                         else (case wj_payload j of
                                 PayloadArray ps \<Rightarrow>
                                   Inr \<lparr>wh_fromSha = js_str (wj_fromSha j), wh_toSha = js_str (wj_toSha j),
                                     wh_writerId = js_str (wj_writerId j), wh_payload = payload_fromJSON ps,
                                     wh_patchCount = n\<rparr>
                               | _ \<Rightarrow> Inl (WormJsonType ''payload'')))))"

section \<open>Ranges\<close>

inductive worm_range ::
  "patch_reader \<Rightarrow> git_store \<Rightarrow> string \<Rightarrow> string \<Rightarrow> string \<Rightarrow> string option \<Rightarrow> processed list \<Rightarrow> bool"
  for rd s graphName fromSha where
  range_end: "processCommit rd s graphName fromSha w = Inr r \<Longrightarrow> fromSha \<noteq> [] \<Longrightarrow>
     worm_range rd s graphName fromSha fromSha w [r]"
| range_step: "processCommit rd s graphName cur w = Inr r \<Longrightarrow> cur \<noteq> fromSha \<Longrightarrow> cur \<noteq> [] \<Longrightarrow> pc_parentSha r = Some p \<Longrightarrow>
     p \<noteq> [] \<Longrightarrow> worm_range rd s graphName fromSha p (Some (pc_writerId r)) rs \<Longrightarrow>
     worm_range rd s graphName fromSha cur w (r # rs)"

lemma processCommit_laws:
  assumes "processCommit rd s graphName sha w = Inr r"
  shows "pc_sha r = sha" "\<forall>w'. w = Some w' \<longrightarrow> pc_writerId r = w'"
    "processCommit rd s graphName sha (Some (pc_writerId r)) = Inr r"
    "\<exists>ci. getNodeInfo s sha = Inr ci \<and> pc_parentSha r = first_parent ci"
proof -
  obtain ci m p where ci: "getNodeInfo s sha = Inr ci" and k: "detectMessageKind (rd_message rd) (ci_message ci) = Some ''patch''"
    and m: "decodePatchMessage (rd_message rd) (ci_message ci) = Inr m" "pm_graph m = graphName"
    and w: "w = None \<or> pm_writer m = the w"
    and p: "bind_r (readPatchBlob s m) (decode_patch rd) = Inr p"
    and r: "r = \<lparr>pc_patch = p, pc_sha = sha, pc_writerId = pm_writer m, pc_parentSha = first_parent ci\<rparr>"
    using assms unfolding processCommit_def
    by (cases w) (auto simp: bind_r_Inr_iff split: if_splits)
  show "pc_sha r = sha" "\<forall>w'. w = Some w' \<longrightarrow> pc_writerId r = w'" using w by (auto simp: r)
  show "processCommit rd s graphName sha (Some (pc_writerId r)) = Inr r"
    by (simp add: processCommit_def ci k m p of_worm_def r)
  show "\<exists>ci. getNodeInfo s sha = Inr ci \<and> pc_parentSha r = first_parent ci" using ci by (auto simp: r)
qed

text \<open>The walk collects exactly the range.\<close>

lemma collect_range_complete:
  assumes "worm_range rd s g fromSha cur w rs"
  shows "collect_range rd s g fromSha toSha cur w acc = Some (Inr (fromSha, acc @ rs))"
  using assms
proof (induction arbitrary: acc rule: worm_range.induct)
  case (range_end w r)
  then show ?case by (subst collect_range.simps) simp
next
  case (range_step cur w r p rs)
  then show ?case by (subst collect_range.simps) simp
qed

lemma collect_range_run:
  "collect_range rd s g fromSha toSha cur w acc = Some res \<Longrightarrow>
     \<forall>ps. res = Inr (fromSha, ps) \<and> fromSha \<noteq> [] \<longrightarrow> (\<exists>rs. ps = acc @ rs \<and> worm_range rd s g fromSha cur w rs)"
proof (erule collect_range.raw_induct [where P = "\<lambda>rd s g fromSha toSha cur w acc res.
      \<forall>ps. res = Inr (fromSha, ps) \<and> fromSha \<noteq> [] \<longrightarrow> (\<exists>rs. ps = acc @ rs \<and> worm_range rd s g fromSha cur w rs)", rotated])
  fix f rd s g fromSha toSha cur w acc res
  assume IH: "\<And>rd s g fromSha toSha cur w acc res. f rd s g fromSha toSha cur w acc = Some res \<Longrightarrow>
      \<forall>ps. res = Inr (fromSha, ps) \<and> fromSha \<noteq> [] \<longrightarrow> (\<exists>rs. ps = acc @ rs \<and> worm_range rd s g fromSha cur w rs)"
    and step: "(if cur = [] then Some (Inr (cur, acc))
      else (case processCommit rd s g cur w of
              Inl e \<Rightarrow> Some (Inl e)
            | Inr r \<Rightarrow>
                if cur = fromSha then Some (Inr (cur, acc @ [r]))
                else (case pc_parentSha r of
                        None \<Rightarrow> Some (Inl (WormNotAncestor fromSha toSha))
                      | Some p \<Rightarrow>
                          if p = [] then Some (Inl (WormNotAncestor fromSha toSha))
                          else f rd s g fromSha toSha p (Some (pc_writerId r)) (acc @ [r])))) = Some res"
  show "\<forall>ps. res = Inr (fromSha, ps) \<and> fromSha \<noteq> [] \<longrightarrow> (\<exists>rs. ps = acc @ rs \<and> worm_range rd s g fromSha cur w rs)"
  proof (intro allI impI)
    fix ps assume res: "res = Inr (fromSha, ps) \<and> fromSha \<noteq> []"
    then have cur: "cur \<noteq> []" using step by auto
    obtain r where r: "processCommit rd s g cur w = Inr r" using step cur res by (auto split: sum.splits)
    show "\<exists>rs. ps = acc @ rs \<and> worm_range rd s g fromSha cur w rs"
    proof (cases "cur = fromSha")
      case True
      then have "ps = acc @ [r]" using step cur r res by simp
      then show ?thesis using worm_range.range_end [of rd s g fromSha w r] r True res by blast
    next
      case False
      obtain p where p: "pc_parentSha r = Some p" "p \<noteq> []" "f rd s g fromSha toSha p (Some (pc_writerId r)) (acc @ [r]) = Some res"
        using step cur r False res by (auto split: option.splits if_splits)
      obtain rs where "ps = (acc @ [r]) @ rs" "worm_range rd s g fromSha p (Some (pc_writerId r)) rs"
        using IH [OF p(3)] res by blast
      then show ?thesis using worm_range.range_step [OF r False cur p(1,2)] by fastforce
    qed
  qed
qed

lemma createWormhole_iff:
  "createWormhole rd s g a d = Some (Inr w) \<longleftrightarrow>
     a \<noteq> [] \<and> d \<noteq> [] \<and> nodeExists s a = Inr True \<and> nodeExists s d = Inr True \<and>
     (\<exists>rs. worm_range rd s g a d None rs \<and> w = pack a d rs)"
proof -
  have range: "collectPatchRange rd s g a d = Some (Inr rs) \<longleftrightarrow> worm_range rd s g a d None rs" if a: "a \<noteq> []" for rs
  proof
    assume "collectPatchRange rd s g a d = Some (Inr rs)"
    then obtain cur where c: "collect_range rd s g a d d None [] = Some (Inr (cur, rs))" "cur = a"
      by (cases "collect_range rd s g a d d None []" ; cases "the (collect_range rd s g a d d None [])")
        (auto simp: collectPatchRange_def split: if_splits)
    from collect_range_run [OF c(1)] c(2) a show "worm_range rd s g a d None rs" by auto
  next
    assume w: "worm_range rd s g a d None rs"
    then have "rs \<noteq> []" by (cases rule: worm_range.cases) auto
    then show "collectPatchRange rd s g a d = Some (Inr rs)"
      using collect_range_complete [OF w, of d "[]"] by (simp add: collectPatchRange_def)
  qed
  show ?thesis
  proof (cases "a \<noteq> [] \<and> d \<noteq> [] \<and> nodeExists s a = Inr True \<and> nodeExists s d = Inr True")
    case True
    then have "createWormhole rd s g a d =
        bind_o (collectPatchRange rd s g a d) (\<lambda>patches. Some (Inr (pack a d patches)))"
      by (simp add: createWormhole_def validateSha_def verifyShaExists_def of_worm_def)
    moreover have "bind_o x (\<lambda>patches. Some (Inr (pack a d patches))) = Some (Inr w) \<longleftrightarrow>
        (\<exists>rs. x = Some (Inr rs) \<and> w = pack a d rs)" for x :: "(wormhole_error + processed list) option"
      by (cases x; cases "the x") auto
    ultimately show ?thesis using range True by auto
  next
    case False
    then have "createWormhole rd s g a d \<noteq> Some (Inr w)"
      by (auto simp: createWormhole_def validateSha_def verifyShaExists_def of_worm_def split: sum.splits)
    then show ?thesis using False by blast
  qed
qed

text \<open>Two consecutive ranges are a range.\<close>

lemma worm_range_writers:
  assumes "worm_range rd s g fromSha cur w rs"
  shows "rs \<noteq> []" "\<forall>r\<in>set rs. pc_writerId r = pc_writerId (hd rs)" "\<forall>w'. w = Some w' \<longrightarrow> pc_writerId (hd rs) = w'"
    "pc_sha (last rs) = fromSha" "worm_range rd s g fromSha cur (Some (pc_writerId (hd rs))) rs"
  using assms
proof (induction rule: worm_range.induct)
  case (range_end w r)
  { case 1 then show ?case by simp }
  { case 2 then show ?case by simp }
  { case 3 then show ?case using processCommit_laws(2) [OF range_end.hyps(1)] by simp }
  { case 4 then show ?case using processCommit_laws(1) [OF range_end.hyps(1)] by simp }
  { case 5 then show ?case using processCommit_laws(3) [OF range_end.hyps(1)] range_end by (auto intro: worm_range.range_end) }
next
  case (range_step cur w r p rs)
  { case 1 then show ?case by simp }
  { case 2 then show ?case using range_step.IH(1-3) by auto }
  { case 3 then show ?case using processCommit_laws(2) [OF range_step.hyps(1)] by simp }
  { case 4 then show ?case using range_step.IH(1,4) by simp }
  { case 5 then show ?case using processCommit_laws(3) [OF range_step.hyps(1)] range_step.hyps
      by (auto intro: worm_range.range_step) }
qed

lemma worm_range_join:
  assumes "worm_range rd s g c d w rs" "worm_range rd s g a b None qs" "pc_writerId (hd rs) = pc_writerId (hd qs)"
    and "getNodeInfo s c = Inr ci" "first_parent ci = Some b" "b \<noteq> []" "a \<notin> pc_sha ` set rs"
  shows "worm_range rd s g a d w (rs @ qs)"
  using assms(1,3,7)
proof (induction rule: worm_range.induct)
  case (range_end w r)
  have "worm_range rd s g a b (Some (pc_writerId r)) qs"
    using worm_range_writers(5) [OF assms(2)] range_end.prems(1) by simp
  moreover have "pc_sha r = c" "pc_parentSha r = Some b"
    using processCommit_laws(1,4) [OF range_end.hyps(1)] assms(4,5) by auto
  ultimately show ?case
    using worm_range.range_step [OF range_end.hyps(1) _ range_end.hyps(2) _ assms(6)] range_end.prems(2) by auto
next
  case (range_step cur w r p rs)
  have "pc_writerId (hd rs) = pc_writerId r" using worm_range_writers(3) [OF range_step.hyps(6)] by simp
  then have "worm_range rd s g a p (Some (pc_writerId r)) (rs @ qs)" using range_step.IH range_step.prems by simp
  moreover have "cur \<noteq> a" using processCommit_laws(1) [OF range_step.hyps(1)] range_step.prems(2) by auto
  ultimately show ?case using worm_range.range_step [OF range_step.hyps(1) _ range_step.hyps(3-5)] by simp
qed

end
