(* ===== verification/ProvenanceResults.thy ===== *)
theory ProvenanceResults
  imports SliceLaws Wormholes Demo
begin

text \<open>
  What provenance guarantees: a slice shows its node as the whole graph does, built patches declare
  the nodes they touch, an index survives its file, and wormholes compose.
\<close>

section \<open>Slices\<close>

lemma index_shas_from_log:
  assumes "sha \<in> index_shas (index_patches empty_index ps)"
  shows "\<exists>p. (p, sha) \<in> set ps"
proof -
  let ?idx = "index_patches empty_index ps"
  obtain e shas where e: "(e, shas) \<in> set ?idx" "sha \<in> set shas" using assms by (auto simp: index_shas_def)
  have "map_wf ?idx" using index_patches_wf [OF empty_index_laws(2)] by (simp add: index_wf_def)
  then have "map_of ?idx e = Some shas" using e(1) by (simp add: map_of_eq_Some_iff)
  then have "sha \<in> affects ?idx e" using e(2) by (simp add: affects_def)
  then show ?thesis by (auto simp: index_patches_affects)
qed

lemma slice_runs:
  assumes "computeBackwardCone load (Some idx) n = Inr c" "\<forall>x\<in>(\<lambda>(sha, p). (p, sha)) ` set c. applicable x"
  shows "\<exists>sl qs. materializeSlice load localeCompare (Some idx) False n False = Inr sl \<and>
    set qs = (\<lambda>(sha, p). (p, sha)) ` set c \<and> reduceV5 qs None None = Inr (ReducedState (sl_state sl))"
proof (cases "c = []")
  case True
  then have "materializeSlice load localeCompare (Some idx) False n False =
      Inr \<lparr>sl_state = createEmptyStateV5, sl_patchCount = 0, sl_receipts = None\<rparr>"
    using assms(1) by (simp add: materializeSlice_def)
  moreover have "reduceV5 [] None None = Inr (ReducedState createEmptyStateV5)" by (simp add: reduceV5_plain)
  ultimately show ?thesis using True by force
next
  case False
  let ?qs = "sortPatchesCausally localeCompare (map (\<lambda>(sha, p). (p, sha)) c)"
  have set: "set ?qs = (\<lambda>(sha, p). (p, sha)) ` set c" by (simp add: sortPatchesCausally_def)
  have "is_ok (fold_r apply_entry st ?qs)" for st
    using assms(2) unfolding set [symmetric]
    by (intro fold_r_total) (simp add: apply_entry_def applicable_def applyFast_ok_iff)
  then obtain t where t: "fold_r apply_entry createEmptyStateV5 ?qs = Inr t" by (meson is_ok_iff)
  have "payload_replay (newPayload ?qs) None = Inr t"
    using t by (simp add: payload_replay_fold newPayload_def)
  then have "materializeSlice load localeCompare (Some idx) False n False =
      Inr \<lparr>sl_state = t, sl_patchCount = length ?qs, sl_receipts = None\<rparr>"
    using assms(1) False by (simp add: materializeSlice_def of_reduce_def Let_def)
  moreover have "reduceV5 ?qs None None = Inr (ReducedState t)" using t by (simp add: reduceV5_plain)
  ultimately show ?thesis using set by (intro exI [of _ "\<lparr>sl_state = t, sl_patchCount = length ?qs, sl_receipts = None\<rparr>"] exI [of _ ?qs]) simp
qed

text \<open>
  C37. A slice is exact for its node: reducing the patches of the backward cone alone, in any order of
  the locale, shows the node alive exactly when the whole graph does, and with the same register for
  each of its properties, when every patch declares the nodes that it adds, removes or writes.
\<close>

theorem slices_are_exact:
  assumes "reduceV5 ps None None = Inr (ReducedState st)" "\<forall>(p, sha)\<in>set ps. load sha = Inr p"
    and "sha_determines ps" "\<forall>x\<in>set ps. applicable x" "declares_io ps" "clean_id n"
  shows "\<exists>sl. materializeSlice load localeCompare (Some (index_patches empty_index ps)) False n False = Inr sl \<and>
    (orsetContains (nodeAlive (sl_state sl)) n \<longleftrightarrow> orsetContains (nodeAlive st) n) \<and>
    (\<forall>k. map_of (propMap (sl_state sl)) (encodePropKey n k) = map_of (propMap st) (encodePropKey n k))"
proof -
  let ?idx = "index_patches empty_index ps"
  have "is_ok (load sha)" if "sha \<in> index_shas ?idx" for sha
    using index_shas_from_log [OF that] assms(2) by (auto simp: is_ok_iff)
  then have "is_ok (backward_cone load ?idx [] [] [n])" by (rule backward_cone_ok)
  then obtain c where c: "computeBackwardCone load (Some ?idx) n = Inr c"
    by (simp only: computeBackwardCone_def option.case is_ok_iff) blast
  have "cone_sound load ?idx [] \<and> affects_known ?idx [] []" by (simp add: cone_sound_def affects_known_def)
  then have sound: "cone_sound load ?idx c" "affects ?idx n \<subseteq> fst ` set c"
    using backward_cone_complete [of load ?idx "[]" "[]" "[n]" c] c by (simp_all add: computeBackwardCone_def)
  have sub: "(\<lambda>(sha, p). (p, sha)) ` set c \<subseteq> set ps"
  proof clarify
    fix sha p assume x: "(sha, p) \<in> set c"
    then have "sha \<in> index_shas ?idx" "load sha = Inr p" using sound(1) by (auto simp: cone_sound_def)
    then show "(p, sha) \<in> set ps" using index_shas_from_log assms(2) by force
  qed
  have all: "\<forall>x\<in>set ps. n \<in> declared (fst x) \<longrightarrow> x \<in> (\<lambda>(sha, p). (p, sha)) ` set c"
  proof clarify
    fix p sha assume x: "(p, sha) \<in> set ps" "n \<in> declared (fst (p, sha))"
    then have "sha \<in> affects ?idx n" by (auto simp: index_patches_affects)
    then obtain p' where p': "(sha, p') \<in> set c" using sound(2) by auto
    then have "load sha = Inr p'" using sound(1) by (auto simp: cone_sound_def)
    then have "p' = p" using x(1) assms(2) by force
    then show "(p, sha) \<in> (\<lambda>(sha, p). (p, sha)) ` set c" using p' by force
  qed
  obtain sl qs where s: "materializeSlice load localeCompare (Some ?idx) False n False = Inr sl"
      "set qs = (\<lambda>(sha, p). (p, sha)) ` set c" "reduceV5 qs None None = Inr (ReducedState (sl_state sl))"
    using slice_runs [OF c, of localeCompare] sub assms(4) by blast
  have st: "st = (run_all createEmptyStateV5 (full_log ps))\<lparr>observedFrontier := observe_all (observedFrontier createEmptyStateV5) ps\<rparr>"
    "sl_state sl = (run_all createEmptyStateV5 (full_log qs))\<lparr>observedFrontier := observe_all (observedFrontier createEmptyStateV5) qs\<rparr>"
    using assms(1) s(3) by (auto simp: reduceV5_plain bind_r_Inr_iff dest: replay_Inr)
  note log = sliced_log [OF assms(5), of qs n, unfolded s(2), OF sub all]
  have "orsetContains (nodeAlive (sl_state sl)) n \<longleftrightarrow> orsetContains (nodeAlive st) n"
    using log(1,2) by (auto simp: st run_all_contains)
  moreover have "map_of (propMap (sl_state sl)) (encodePropKey n k) = map_of (propMap st) (encodePropKey n k)" for k
  proof (rule winner_unique)
    show "winner (writes_to (full_log ps) (encodePropKey n k)) (map_of (propMap (sl_state sl)) (encodePropKey n k))"
      using run_all_winner [of "full_log qs" "encodePropKey n k"] log(3) [OF assms(6), of k] by (simp add: st)
    show "winner (writes_to (full_log ps) (encodePropKey n k)) (map_of (propMap st) (encodePropKey n k))"
      using run_all_winner [of "full_log ps" "encodePropKey n k"] by (simp add: st)
    show "v = v'" if "(e, v) \<in> writes_to (full_log ps) (encodePropKey n k)" "(e, v') \<in> writes_to (full_log ps) (encodePropKey n k)"
      for e v v'
      using that events_unique [OF assms(3), of e "WriteProp (encodePropKey n k) v" "WriteProp (encodePropKey n k) v'"]
      by (simp add: writes_to_def)
  qed
  ultimately show ?thesis using s(1) by blast
qed

text \<open>Three patches: a node with a property, another node, and the removal of the first.\<close>

definition slice_log :: "(patch \<times> string) list" where
  "slice_log =
     [(createPatchV2 2 ''alice'' 1 (CtxObj [])
         [createNodeAddV2 ''n'' (Dot ''alice'' 1), createPropSetV2 (JStr ''n'') (JStr ''k'') (JNum 1)] [''n''] [''n''], ''aaaa''),
      (createPatchV2 2 ''bob'' 2 (CtxObj []) [createNodeAddV2 ''m'' (Dot ''bob'' 1)] [] [''m''], ''bbbb''),
      (createPatchV2 2 ''carol'' 3 (CtxObj []) [createNodeRemoveV2 ''n'' [''alice:1'']] [''n''] [], ''cccc'')]"

definition source_of :: "(patch \<times> string) list \<Rightarrow> patch_source" where
  "source_of ps sha = (case map_of (map prod.swap ps) sha of None \<Rightarrow> Inl (NotPatchCommit sha) | Some p \<Rightarrow> Inr p)"

lemma slice_log_effects:
  "map (map snd \<circ> entry_log) slice_log =
     [[AddNode ''n'' ''alice:1'', WriteProp (encodePropKey ''n'' ''k'') (JNum 1)], [AddNode ''m'' ''bob:1''], [TombNodes [''alice:1'']]]"
  by code_simp

lemma slice_log_applies: "\<forall>x\<in>set slice_log. applicable x"
proof -
  have "\<forall>x\<in>set slice_log. is_ok (applyFast createEmptyStateV5 (fst x) (snd x))" by code_simp
  moreover have "\<forall>x\<in>set slice_log. context_wf (fst x)"
    by (simp add: slice_log_def context_wf_def createPatchV2_sel)
  ultimately show ?thesis by (simp add: applicable_def)
qed

lemma slice_log_declares: "declares_io slice_log"
proof -
  obtain x1 x2 x3 where x: "slice_log = [x1, x2, x3]" by (simp add: slice_log_def)
  have decl: "declared (fst x1) = {''n''}" "declared (fst x2) = {''m''}" "declared (fst x3) = {''n''}"
    using x by (auto simp: slice_log_def declared_def createPatchV2_def)
  have eff: "snd ` set (entry_log x1) = {AddNode ''n'' ''alice:1'', WriteProp (encodePropKey ''n'' ''k'') (JNum 1)}"
    "snd ` set (entry_log x2) = {AddNode ''m'' ''bob:1''}" "snd ` set (entry_log x3) = {TombNodes [''alice:1'']}"
    using slice_log_effects by (auto simp: x simp flip: set_map)
  have key: "m = ''n''" if "clean_id m" "encodePropKey ''n'' ''k'' = encodePropKey m k" for m k
    using that by (auto simp: encodePropKey_def clean_id_def append_eq_Cons_conv Cons_eq_append_conv FIELD_SEPARATOR_def)
  have full: "snd ` set (full_log slice_log) =
      {AddNode ''n'' ''alice:1'', WriteProp (encodePropKey ''n'' ''k'') (JNum 1), AddNode ''m'' ''bob:1'', TombNodes [''alice:1'']}"
    by (simp add: x image_Un eff) blast
  have added: "n = ''n''" if h: "''alice:1'' \<in> added (full_log slice_log) n" for n
  proof -
    obtain e where "(e, AddNode n ''alice:1'') \<in> set (full_log slice_log)" using h unfolding added_def by blast
    then have "AddNode n ''alice:1'' \<in> snd ` set (full_log slice_log)" by (rule image_eqI [rotated]) simp
    then show ?thesis unfolding full by simp
  qed
  show ?thesis
    unfolding declares_io_def
  proof (intro ballI allI impI)
    fix y e eff assume y: "y \<in> set slice_log" "(e, eff) \<in> set (entry_log y)"
    have m: "eff \<in> snd ` set (entry_log y)" using y(2) by (rule image_eqI [rotated]) simp
    have "y = x1 \<or> y = x2 \<or> y = x3" using y(1) by (simp add: x)
    with m have "declared (fst y) = {''n''} \<and> (eff = AddNode ''n'' ''alice:1'' \<or> eff = WriteProp (encodePropKey ''n'' ''k'') (JNum 1) \<or>
        eff = TombNodes [''alice:1'']) \<or> declared (fst y) = {''m''} \<and> eff = AddNode ''m'' ''bob:1''"
      by (elim disjE) (simp_all add: decl eff, blast?)
    then show "case eff of
        AddNode n d \<Rightarrow> n \<in> declared (fst y)
      | TombNodes ds \<Rightarrow> (\<forall>n. set ds \<inter> added (full_log slice_log) n \<noteq> {} \<longrightarrow> n \<in> declared (fst y))
      | WriteProp key v \<Rightarrow> (\<forall>n k. clean_id n \<and> key = encodePropKey n k \<longrightarrow> n \<in> declared (fst y))
      | _ \<Rightarrow> True"
      using added key by (elim disjE conjE) simp_all
  qed
qed

theorem slices_are_exact_witness:
  "\<exists>sl. materializeSlice (source_of slice_log) str_cmp (Some (index_patches empty_index slice_log)) False ''n'' False = Inr sl \<and>
     \<not> orsetContains (nodeAlive (sl_state sl)) ''n''"
proof -
  have load: "\<forall>(p, sha)\<in>set slice_log. source_of slice_log sha = Inr p"
    by (simp add: source_of_def slice_log_def)
  have shas: "sha_determines slice_log" by (simp add: sha_determines_def slice_log_def)
  have ok: "is_ok (fold_r apply_entry createEmptyStateV5 slice_log)"
    using slice_log_applies by (intro fold_r_total) (simp add: apply_entry_def applicable_def applyFast_ok_iff)
  then obtain st where st: "reduceV5 slice_log None None = Inr (ReducedState st)"
    by (auto simp: is_ok_iff reduceV5_plain)
  have "bind_r (reduceV5 slice_log None None) (\<lambda>r. Inr (orsetContains (nodeAlive (reduced_state r)) ''n'')) = Inr False"
    by code_simp
  then have dead: "\<not> orsetContains (nodeAlive st) ''n''" using st by (simp add: reduced_state_def)
  have "clean_id ''n''" by (simp add: clean_id_def no_prefix_def FIELD_SEPARATOR_def EDGE_PROP_PREFIX_def)
  from slices_are_exact [OF st load shas slice_log_applies slice_log_declares this, of str_cmp] dead
  show ?thesis by blast
qed

text \<open>
  Edges are another matter: the cone follows reads and not writes, and the removal of an edge
  declares the edge alone, so the slice of an endpoint still shows the removed edge.
\<close>

definition edge_log :: "(patch \<times> string) list" where
  "edge_log =
     [(createPatchV2 2 ''alice'' 1 (CtxObj [])
         [createNodeAddV2 ''n'' (Dot ''alice'' 1), createNodeAddV2 ''m'' (Dot ''alice'' 2),
          createEdgeAddV2 ''n'' ''m'' ''l'' (Dot ''alice'' 3)]
         [''m'', ''n''] [''m'', ''n'', encodeEdgeKey ''n'' ''m'' ''l''], ''aaaa''),
      (createPatchV2 2 ''alice'' 2 (CtxObj [])
         [createEdgeRemoveV2 (JStr ''n'') (JStr ''m'') (JStr ''l'') [''alice:3'']] [encodeEdgeKey ''n'' ''m'' ''l''] [], ''bbbb'')]"

lemma slice_resurrects_edge:
  "bind_r (reduceV5 edge_log None None) (\<lambda>r. Inr (edgeVisibleV5 (reduced_state r) (encodeEdgeKey ''n'' ''m'' ''l''))) = Inr False"
  "bind_r (materializeSlice (source_of edge_log) str_cmp (Some (index_patches empty_index edge_log)) False ''n'' False)
     (\<lambda>sl. Inr (edgeVisibleV5 (sl_state sl) (encodeEdgeKey ''n'' ''m'' ''l''))) = Inr True"
  by code_simp+

section \<open>Declarations\<close>



section \<open>Indexes and wormholes\<close>

text \<open>
  C40. An index survives its file: what a log built reads back, through any codec that keeps the
  object, as an index that answers every query alike.
\<close>

theorem provenance_index_roundtrip:
  assumes "\<And>obj. decode (encode obj) = obj"
  shows "\<exists>idx. prov_deserialize decode (prov_serialize encode (index_patches empty_index ps)) = Inr idx \<and>
    patchesFor idx = patchesFor (index_patches empty_index ps)"
proof -
  let ?idx = "index_patches empty_index ps"
  have wf: "index_wf ?idx" by (rule index_patches_wf) simp
  obtain idx where x: "prov_fromJSON (prov_toJSON ?idx) = Inr idx" "affects idx = affects ?idx" "index_wf idx"
    using prov_fromJSON_toJSON [OF wf] by blast
  have "patchesFor a e = sorted_list_of_set (affects a e)" if "index_wf a" for a e
    using that
    by (auto simp: patchesFor_def affects_def index_wf_def sorted_list_of_set_sort_remdups distinct_remdups_id
        split: option.split)
  then have "patchesFor idx = patchesFor ?idx" using x(2,3) wf by (simp add: fun_eq_iff)
  then show ?thesis
    using x(1) assms by (simp add: prov_deserialize_def prov_serialize_def prov_fromJSON_def prov_toJSON_def Let_def)
qed

theorem provenance_index_roundtrip_witness:
  "\<exists>idx. prov_deserialize (\<lambda>b. b) (prov_serialize (\<lambda>obj. obj) (index_patches empty_index slice_log)) = Inr idx \<and>
     patchesFor idx = patchesFor (index_patches empty_index slice_log)"
  by (rule provenance_index_roundtrip) simp

text \<open>
  C39. Consecutive wormholes compose: when the first stretch ends at the parent of the start of the
  second, both by one writer, composing them gives the wormhole of the whole stretch, and replaying it
  is replaying the first and then the second.
\<close>

theorem wormholes_compose:
  assumes "createWormhole rd s g a b = Some (Inr u)" "createWormhole rd s g c d = Some (Inr v)"
    and "getNodeInfo s c = Inr ci" "ci_parents ci = [b]" "wh_writerId u = wh_writerId v" "a \<notin> snd ` set (wh_payload v)"
  shows "\<exists>w. composeWormholes (Some s) u v = Inr w \<and> createWormhole rd s g a d = Some (Inr w) \<and>
    (\<forall>st. replayWormhole w st = bind_r (replayWormhole u st) (\<lambda>t. replayWormhole v (Some t)))"
proof -
  obtain qs rs where q: "worm_range rd s g a b None qs" "u = pack a b qs"
      and r: "worm_range rd s g c d None rs" "v = pack c d rs"
      and n: "a \<noteq> []" "b \<noteq> []" "d \<noteq> []" "nodeExists s a = Inr True" "nodeExists s d = Inr True"
    using assms(1,2) by (auto simp: createWormhole_iff)
  note wq = worm_range_writers [OF q(1)] and wr = worm_range_writers [OF r(1)]
  have id: "wh_writerId (pack x y zs) = pc_writerId (last zs)" if "zs \<noteq> []" for x y zs
    using that by (cases zs rule: rev_cases) (simp_all add: pack_def)
  have "pc_writerId (last qs) = pc_writerId (last rs)" using assms(5) by (simp add: q(2) r(2) id wq(1) wr(1))
  then have same: "pc_writerId (hd rs) = pc_writerId (hd qs)" using wq(1,2) wr(1,2) by (metis last_in_set)
  have "pc_sha ` set rs = snd ` set (wh_payload v)"
    by (simp add: r(2) pack_def Let_def newPayload_def to_entry_def image_image)
  then have fresh: "a \<notin> pc_sha ` set rs" using assms(6) by simp
  have fp: "first_parent ci = Some b" using assms(4) by (simp add: first_parent_def)
  have whole: "worm_range rd s g a d None (rs @ qs)"
    by (rule worm_range_join [OF r(1) q(1) same assms(3) fp n(2) fresh])
  have "wh_writerId (pack a d (rs @ qs)) = wh_writerId u" using wq(1) by (simp add: q(2) id)
  then have "composeWormholes (Some s) u v = Inr (pack a d (rs @ qs))"
    using assms(3-5) by (simp add: composeWormholes_def of_worm_def q(2) r(2)) (simp add: pack_def Let_def newPayload_def)
  moreover have "createWormhole rd s g a d = Some (Inr (pack a d (rs @ qs)))"
    using whole n by (auto simp: createWormhole_iff)
  moreover have "replayWormhole (pack a d (rs @ qs)) st = bind_r (replayWormhole u st) (\<lambda>t. replayWormhole v (Some t))" for st
    by (simp add: replayWormhole_def q(2) r(2) pack_def Let_def newPayload_def payload_replay_fold fold_r_append)
  ultimately show ?thesis by blast
qed

definition chain_store :: git_store where
  "chain_store = \<lparr>st_commits = [(''aaaa'', \<lparr>ci_treeOid = demo_oid, ci_parents = [], ci_message = ''a'', ci_author = ''me'', ci_date = ''now''\<rparr>),
      (''bbbb'', \<lparr>ci_treeOid = demo_oid, ci_parents = [''aaaa''], ci_message = ''b'', ci_author = ''me'', ci_date = ''now''\<rparr>)],
     st_blobs = [(demo_oid, [1])], st_trees = [], st_refs = []\<rparr>"

definition chain_reader :: patch_reader where
  "chain_reader = \<lparr>rd_message = (\<lambda>m. Inr
     [(''eg-kind'', ''patch''), (''eg-graph'', ''g''), (''eg-writer'', ''w''), (''eg-lamport'', ''1''),
      (''eg-patch-oid'', demo_oid), (''eg-schema'', ''2'')]),
     rd_patch = (\<lambda>b. Some (fst alice_patch))\<rparr>"

definition chain_hole :: "string \<Rightarrow> wormhole" where
  "chain_hole sha = \<lparr>wh_fromSha = sha, wh_toSha = sha, wh_writerId = ''w'', wh_payload = [(fst alice_patch, sha)], wh_patchCount = 1\<rparr>"

theorem wormholes_compose_witness:
  "\<exists>w. composeWormholes (Some chain_store) (chain_hole ''aaaa'') (chain_hole ''bbbb'') = Inr w \<and>
     createWormhole chain_reader chain_store ''g'' ''aaaa'' ''bbbb'' = Some (Inr w)"
proof -
  have u: "createWormhole chain_reader chain_store ''g'' ''aaaa'' ''aaaa'' = Some (Inr (chain_hole ''aaaa''))"
    "createWormhole chain_reader chain_store ''g'' ''bbbb'' ''bbbb'' = Some (Inr (chain_hole ''bbbb''))"
    by code_simp+
  have "bind_r (getNodeInfo chain_store ''bbbb'') (\<lambda>ci. Inr (ci_parents ci)) = Inr [''aaaa'']" by code_simp
  then obtain ci where ci: "getNodeInfo chain_store ''bbbb'' = Inr ci" "ci_parents ci = [''aaaa'']"
    by (auto simp: bind_r_Inr_iff)
  have "wh_writerId (chain_hole ''aaaa'') = wh_writerId (chain_hole ''bbbb'')" "''aaaa'' \<notin> snd ` set (wh_payload (chain_hole ''bbbb''))"
    by (simp_all add: chain_hole_def)
  from wormholes_compose [OF u ci this] show ?thesis by blast
qed

end
