(* ===== verification/Handle.thy ===== *)
theory Handle
  imports Wormholes Slices StateGraph Compaction Checkpoints
begin

text \<open>
  The state that one open graph keeps: the fields of \<open>WarpGraph\<close> (\<open>src/domain/WarpGraph.js\<close>) that
  its operations read and write, and the operations that need no store: installing a state
  (\<open>_setMaterializedState\<close>), \<open>join\<close>, and compaction (\<open>src/domain/warp/checkpoint.methods.js\<close>).

  Version vectors are JavaScript objects that \<open>_onPatchCommitted\<close> changes in place and that writers
  captured when they were created, so the handle keeps a heap of them, and \<open>h_vv\<close> is an address in
  it. Of \<open>_materializedGraph\<close> the adjacency is kept. The bitmap view that \<open>_buildView\<close> makes of a state only serves reads, and is left out, as are
  the adjacency cache, the seek cache, the audit service, the subscribers and the timings.
\<close>

section \<open>Configuration and state\<close>

text \<open>
  What the constructor is given. The reader of patches and the codecs are parameters, \<open>cf_fdiv\<close> and
  \<open>cf_zero\<close> are those of the metrics, \<open>cf_now\<close> is the clock, and \<open>cf_indexTree\<close> the bytes that the
  view service makes of a state for its checkpoint (\<open>None\<close> when it throws).
\<close>

record 'r graph_config =
  cf_graphName :: string
  cf_writerId :: string
  cf_onDelete :: delete_policy
  cf_checkpointEvery :: "nat option"
  cf_autoMaterialize :: bool
  cf_gcPolicy :: "'r gc_policy"
  cf_fdiv :: "nat \<Rightarrow> nat \<Rightarrow> 'r"
  cf_zero :: 'r
  cf_now :: int
  cf_env :: environment
  cf_readPatch :: "bytes \<Rightarrow> patch option"
  cf_codec :: checkpoint_codec
  cf_putProvenance :: "prov_object \<Rightarrow> bytes"
  cf_getProvenance :: "bytes \<Rightarrow> prov_object"
  cf_indexTree :: "warp_state \<Rightarrow> (string \<times> bytes) list option"

definition cf_reader :: "'r graph_config \<Rightarrow> patch_reader" where
  "cf_reader cf = \<lparr>rd_message = env_decodeMsg (cf_env cf), rd_patch = cf_readPatch cf\<rparr>"

record handle =
  h_vectors :: "version_vector list"
  h_vv :: nat
  h_cachedState :: "warp_state option"
  h_stateDirty :: bool
  h_adjacency :: "(adjacency \<times> adjacency) option"
  h_maxObservedLamport :: int
  h_patchesSinceCheckpoint :: nat
  h_patchesSinceGC :: nat
  h_lastGCTime :: int
  h_lastFrontier :: "frontier option"
  h_provenanceIndex :: "prov_index option"
  h_provenanceDegraded :: bool
  h_seekCeiling :: "int option"
  h_cachedCeiling :: "int option"
  h_cachedFrontier :: "frontier option"
  h_patchInProgress :: bool
  h_checkpointing :: bool

definition newHandle :: handle where
  "newHandle = \<lparr>h_vectors = [createVersionVector], h_vv = 0, h_cachedState = None, h_stateDirty = False,
     h_adjacency = None, h_maxObservedLamport = 0, h_patchesSinceCheckpoint = 0, h_patchesSinceGC = 0,
     h_lastGCTime = 0, h_lastFrontier = None, h_provenanceIndex = None, h_provenanceDegraded = False,
     h_seekCeiling = None, h_cachedCeiling = None, h_cachedFrontier = None, h_patchInProgress = False,
     h_checkpointing = False\<rparr>"

text \<open>The errors of the operations, one for each \<open>throw\<close> that is not one of a modelled service.\<close>

datatype handle_error =
    NoState
  | StaleState
  | NotReentrant
  | HandleErr js_error
  | HandleLoad load_error
  | HandleCkpt checkpoint_error
  | HandleProv prov_error
  | HandleCommit commit_error
  | HandleSync sync_error
  | HandleSlice slice_error
  | BackfillRejected string string
  | WriterFork string
  | AncestryTooLong
  | SchemaOneHistory
  | UntrustedWriters "string list"
  | PayloadInvalid
  | LamportCorrupt string
  | CommitInProgress
  | SessionCommitted
  | SessionEmpty
  | RefAdvanced "string option" "string option"
  | PersistFailed commit_error

section \<open>Version vectors\<close>

definition vector_at :: "handle \<Rightarrow> nat \<Rightarrow> version_vector" where
  "vector_at h a = (if a < length (h_vectors h) then h_vectors h ! a else createVersionVector)"

definition own_vector :: "handle \<Rightarrow> version_vector" where
  "own_vector h = vector_at h (h_vv h)"

text \<open>\<open>this._versionVector = \<dots>\<close> with a fresh object, and \<open>vvIncrement\<close> on the current one.\<close>

definition install_vector :: "handle \<Rightarrow> version_vector \<Rightarrow> handle" where
  "install_vector h vv = h\<lparr>h_vectors := h_vectors h @ [vv], h_vv := length (h_vectors h)\<rparr>"

definition bump_vector :: "handle \<Rightarrow> string \<Rightarrow> handle" where
  "bump_vector h writerId =
     h\<lparr>h_vectors := (h_vectors h)[h_vv h := fst (vvIncrement (own_vector h) writerId)]\<rparr>"

section \<open>Installing a state\<close>

definition setMaterializedState :: "handle \<Rightarrow> warp_state \<Rightarrow> handle" where
  "setMaterializedState h st =
     (install_vector (h\<lparr>h_cachedState := Some st, h_stateDirty := False\<rparr>) (vvClone (observedFrontier st)))
       \<lparr>h_adjacency := buildAdjacency st\<rparr>"

definition frontierEquals :: "version_vector \<Rightarrow> version_vector \<Rightarrow> bool" where
  "frontierEquals a b \<longleftrightarrow>
     length a = length b \<and> list_all (\<lambda>(key, val). map_of b key = Some val) a"

record join_receipt =
  jr_nodesAdded :: nat
  jr_nodesRemoved :: nat
  jr_edgesAdded :: nat
  jr_edgesRemoved :: nat
  jr_propsChanged :: nat
  jr_frontierMerged :: bool

text \<open>
  The registers that changed: a register of the merge is the old one itself or one of the other state,
  whose objects are not those of the old one.
\<close>

definition prop_changed :: "warp_state \<Rightarrow> string \<times> lww_register \<Rightarrow> bool" where
  "prop_changed old kr =
     (case map_of (propMap old) (fst kr) of
        None \<Rightarrow> True
      | Some oldReg \<Rightarrow> \<not> js_same (oldReg = snd kr) (reg_value oldReg) (reg_value (snd kr)))"

text \<open>Natural subtraction is \<open>Math.max(0, \<dots>)\<close>.\<close>

definition join_receipt_of :: "warp_state \<Rightarrow> warp_state \<Rightarrow> join_receipt" where
  "join_receipt_of old merged =
     (let beforeNodes = length (orsetElements (nodeAlive old)); beforeEdges = length (orsetElements (edgeAlive old));
          afterNodes = length (orsetElements (nodeAlive merged)); afterEdges = length (orsetElements (edgeAlive merged))
      in \<lparr>jr_nodesAdded = afterNodes - beforeNodes, jr_nodesRemoved = beforeNodes - afterNodes,
          jr_edgesAdded = afterEdges - beforeEdges, jr_edgesRemoved = beforeEdges - afterEdges,
          jr_propsChanged = length (filter (prop_changed old) (propMap merged)),
          jr_frontierMerged = (length (observedFrontier merged) \<noteq> length (observedFrontier old) \<or>
            \<not> frontierEquals (observedFrontier old) (observedFrontier merged))\<rparr>)"

definition join_handle :: "handle \<Rightarrow> warp_state \<Rightarrow> handle \<times> (handle_error + warp_state \<times> join_receipt)" where
  "join_handle h otherState =
     (case h_cachedState h of
        None \<Rightarrow> (h, Inl NoState)
      | Some st \<Rightarrow>
          let mergedState = joinStates st otherState in
          ((install_vector (h\<lparr>h_cachedState := Some mergedState\<rparr>) (vvClone (observedFrontier mergedState)))
             \<lparr>h_adjacency := buildAdjacency mergedState, h_stateDirty := False\<rparr>,
           Inr (mergedState, join_receipt_of st mergedState)))"

section \<open>Compaction\<close>

text \<open>
  Both paths compare the fingerprint of the last frontier before and after the compaction. The
  functions are synchronous and do not write it in between, so the comparison always holds.
\<close>

definition gc_metrics_of :: "'r graph_config \<Rightarrow> handle \<Rightarrow> warp_state \<Rightarrow> 'r gc_input" where
  "gc_metrics_of cf h st =
     (let metrics = collectGCMetrics (cf_fdiv cf) (cf_zero cf) st
      in \<lparr>in_tombstoneRatio = tombstoneRatio metrics, in_totalEntries = int (totalEntries metrics),
          in_patchesSinceCompaction = int (h_patchesSinceGC h),
          in_timeSinceCompaction = (if h_lastGCTime h > 0 then cf_now cf - h_lastGCTime h else 0)\<rparr>)"

definition compacted :: "warp_state \<Rightarrow> (warp_state \<times> gc_result) result" where
  "compacted st =
     (let clonedState = cloneStateV5 st in
      bind_r (computeAppliedVV clonedState) (\<lambda>appliedVV. executeGC clonedState appliedVV))"

definition swap_compacted :: "'r graph_config \<Rightarrow> handle \<Rightarrow> warp_state \<Rightarrow> handle" where
  "swap_compacted cf h st = h\<lparr>h_cachedState := Some st, h_lastGCTime := cf_now cf, h_patchesSinceGC := 0\<rparr>"

definition autoGC :: "('r :: linorder) graph_config \<Rightarrow> handle \<Rightarrow> warp_state \<Rightarrow> handle" where
  "autoGC cf h st =
     (if \<not> fst (shouldRunGC (gc_metrics_of cf h st) (cf_gcPolicy cf)) then h
      else if policy_enabled (cf_gcPolicy cf) then
        (case compacted st of Inl _ \<Rightarrow> h | Inr (st', _) \<Rightarrow> swap_compacted cf h st')
      else h)"

definition runGC :: "'r graph_config \<Rightarrow> handle \<Rightarrow> handle \<times> (handle_error + gc_result)" where
  "runGC cf h =
     (case h_cachedState h of
        None \<Rightarrow> (h, Inl NoState)
      | Some st \<Rightarrow>
          (case compacted st of
             Inl e \<Rightarrow> (h, Inl (HandleErr e))
           | Inr (st', r) \<Rightarrow> (swap_compacted cf h st', Inr r)))"

record 'r gc_report =
  gr_ran :: bool
  gr_result :: "gc_result option"
  gr_reasons :: "'r gc_reason list"

definition maybeRunGC :: "('r :: linorder) graph_config \<Rightarrow> handle \<Rightarrow> handle \<times> (handle_error + 'r gc_report)" where
  "maybeRunGC cf h =
     (case h_cachedState h of
        None \<Rightarrow> (h, Inr \<lparr>gr_ran = False, gr_result = None, gr_reasons = []\<rparr>)
      | Some st \<Rightarrow>
          let (shouldRun, reasons) = shouldRunGC (gc_metrics_of cf h st) (cf_gcPolicy cf) in
          if \<not> shouldRun then (h, Inr \<lparr>gr_ran = False, gr_result = None, gr_reasons = []\<rparr>)
          else (case runGC cf h of
                  (h', Inl e) \<Rightarrow> (h', Inl e)
                | (h', Inr r) \<Rightarrow> (h', Inr \<lparr>gr_ran = True, gr_result = Some r, gr_reasons = reasons\<rparr>)))"

record 'r gc_status =
  gs_nodeCount :: nat
  gs_edgeCount :: nat
  gs_tombstoneCount :: nat
  gs_tombstoneRatio :: 'r
  gs_patchesSinceCompaction :: nat
  gs_lastCompactionTime :: int

definition getGCMetrics :: "'r graph_config \<Rightarrow> handle \<Rightarrow> 'r gc_status option" where
  "getGCMetrics cf h =
     map_option (\<lambda>st.
       let rawMetrics = collectGCMetrics (cf_fdiv cf) (cf_zero cf) st
       in \<lparr>gs_nodeCount = nodeLiveDots rawMetrics, gs_edgeCount = edgeLiveDots rawMetrics,
           gs_tombstoneCount = totalTombstones rawMetrics, gs_tombstoneRatio = tombstoneRatio rawMetrics,
           gs_patchesSinceCompaction = h_patchesSinceGC h, gs_lastCompactionTime = h_lastGCTime h\<rparr>)
       (h_cachedState h)"

section \<open>Laws\<close>

lemma own_vector_installed [simp]: "own_vector (install_vector h vv) = vv"
  by (simp add: own_vector_def vector_at_def install_vector_def)

lemma install_vector_sel [simp]:
  "h_cachedState (install_vector h vv) = h_cachedState h" "h_stateDirty (install_vector h vv) = h_stateDirty h"
  "h_maxObservedLamport (install_vector h vv) = h_maxObservedLamport h"
  "h_lastFrontier (install_vector h vv) = h_lastFrontier h"
  "h_provenanceIndex (install_vector h vv) = h_provenanceIndex h"
  "h_patchesSinceCheckpoint (install_vector h vv) = h_patchesSinceCheckpoint h"
  by (simp_all add: install_vector_def)

lemma setMaterializedState_sel [simp]:
  "h_cachedState (setMaterializedState h st) = Some st" "\<not> h_stateDirty (setMaterializedState h st)"
  "h_maxObservedLamport (setMaterializedState h st) = h_maxObservedLamport h"
  "h_lastFrontier (setMaterializedState h st) = h_lastFrontier h"
  "h_provenanceIndex (setMaterializedState h st) = h_provenanceIndex h"
  "h_patchesSinceCheckpoint (setMaterializedState h st) = h_patchesSinceCheckpoint h"
  "own_vector (setMaterializedState h st) = observedFrontier st"
  by (simp_all add: setMaterializedState_def own_vector_def vector_at_def install_vector_def vvClone_def)

text \<open>A vector that something else captured stays as it is when a new one is installed.\<close>

lemma captured_vector_stays: "a < length (h_vectors h) \<Longrightarrow> vector_at (install_vector h vv) a = vector_at h a"
  by (simp add: vector_at_def install_vector_def nth_append)

end
