(* ===== verification/HandleCommits.thy ===== *)
theory HandleCommits
  imports Handle CommitLaws
begin

text \<open>
  Writing through a handle: \<open>createPatch\<close>, \<open>patch\<close>, \<open>patchMany\<close> and \<open>_onPatchCommitted\<close> of
  \<open>src/domain/warp/patch.methods.js\<close>, \<open>Writer.js\<close> and \<open>PatchSession.js\<close>. The callback that fills a
  patch may call the builder and write content blobs; it sees the cached state of the handle.
\<close>

section \<open>After a commit\<close>

text \<open>
  \<open>applyWithDiff\<close> changes the cached state in place, operation by operation. When one throws, what
  came before it has been applied. An operation that throws has changed nothing itself.
\<close>

fun fold_until :: "('s \<Rightarrow> 'a \<Rightarrow> 'e + 's) \<Rightarrow> 's \<Rightarrow> 'a list \<Rightarrow> 's" where
  "fold_until f s [] = s"
| "fold_until f s (x # xs) = (case f s x of Inl _ \<Rightarrow> s | Inr s' \<Rightarrow> fold_until f s' xs)"

definition partly_applied :: "warp_state \<Rightarrow> patch \<Rightarrow> string \<Rightarrow> warp_state" where
  "partly_applied st p patchSha =
     fst (fold_until (diff_step p patchSha) (st, createEmptyDiff) (List.enumerate 0 (patch_ops p)))"

definition count_commit :: "handle \<Rightarrow> string \<Rightarrow> patch \<Rightarrow> handle" where
  "count_commit h writerId committed =
     (let h1 = bump_vector h writerId
      in h1\<lparr>h_maxObservedLamport := max (h_maxObservedLamport h1) (patch_lamport committed),
            h_patchesSinceCheckpoint := h_patchesSinceCheckpoint h1 + 1\<rparr>)"

definition follow_commit :: "handle \<Rightarrow> string \<Rightarrow> patch \<Rightarrow> string \<Rightarrow> handle" where
  "follow_commit h writerId committed sha =
     h\<lparr>h_provenanceIndex := map_option (\<lambda>idx. addPatch idx sha (patch_reads committed) (patch_writes committed)) (h_provenanceIndex h),
       h_lastFrontier := map_option (\<lambda>fr. map_set fr writerId sha) (h_lastFrontier h)\<rparr>"

definition onPatchCommitted :: "handle \<Rightarrow> string \<Rightarrow> patch \<Rightarrow> string \<Rightarrow> handle \<times> unit result" where
  "onPatchCommitted h writerId committed sha =
     (let h1 = count_commit h writerId committed in
      case h_cachedState h1 of
        Some st \<Rightarrow>
          if \<not> h_stateDirty h1 \<and> sha \<noteq> [] then
            (case applyWithDiff st committed sha of
               Inl e \<Rightarrow> (h1\<lparr>h_cachedState := Some (partly_applied st committed sha)\<rparr>, Inl e)
             | Inr (st', _) \<Rightarrow> (follow_commit (setMaterializedState h1 st') writerId committed sha, Inr ()))
          else (h1\<lparr>h_stateDirty := True\<rparr>, Inr ())
      | None \<Rightarrow> (h1\<lparr>h_stateDirty := True\<rparr>, Inr ()))"

section \<open>Patches of the handle's writer\<close>

definition of_handle_load :: "load_error + 'a \<Rightarrow> handle_error + 'a" where
  "of_handle_load r = (case r of Inl e \<Rightarrow> Inl (HandleLoad e) | Inr x \<Rightarrow> Inr x)"

definition createPatch :: "'r graph_config \<Rightarrow> handle \<Rightarrow> git_store \<Rightarrow> handle_error + builder" where
  "createPatch cf h s =
     bind_r (of_handle_load (nextLamport (env_decodeMsg (cf_env cf)) s (cf_graphName cf) (cf_writerId cf)
               (h_maxObservedLamport h))) (\<lambda>(lamport, parentSha).
       Inr (createPatchBuilder (cf_graphName cf) (cf_writerId cf) lamport (own_vector h) parentSha (cf_onDelete cf)))"

text \<open>\<open>commit\<close> of a builder whose success callback is the handle's; an error of the callback is only logged.\<close>

definition commit_handle ::
  "'r graph_config \<Rightarrow> handle \<Rightarrow> string \<Rightarrow> git_store \<Rightarrow> builder \<Rightarrow> git_store \<times> handle \<times> builder \<times> (commit_error + string)" where
  "commit_handle cf h writerId s b =
     (case commit_begin (cf_env cf) s b of
        (b1, Inl e) \<Rightarrow> (s, h, b1, Inl e)
      | (b1, Inr plan) \<Rightarrow>
          (case commit_objects (cf_env cf) s b1 plan of
             (s2, b2, Inl e) \<Rightarrow> (s2, h, b2, Inl e)
           | (s2, b2, Inr (committed, sha)) \<Rightarrow>
               (case commit_publish s2 b2 plan sha of
                  (s3, b3, Inl e) \<Rightarrow> (s3, h, b3, Inl e)
                | (s3, b3, Inr newSha) \<Rightarrow> (s3, fst (onPatchCommitted h writerId committed newSha), b3, Inr newSha))))"

type_synonym build_fun = "warp_state option \<Rightarrow> git_store \<Rightarrow> builder \<Rightarrow> git_store \<times> builder \<times> unit result"

definition patch_handle ::
  "'r graph_config \<Rightarrow> handle \<Rightarrow> git_store \<Rightarrow> build_fun \<Rightarrow> git_store \<times> handle \<times> (handle_error + string)" where
  "patch_handle cf h s fill =
     (if h_patchInProgress h then (s, h, Inl NotReentrant)
      else
        let h1 = h\<lparr>h_patchInProgress := True\<rparr>;
            (s', h', r) =
              (case createPatch cf h1 s of
                 Inl e \<Rightarrow> (s, h1, Inl e)
               | Inr b \<Rightarrow>
                   (case fill (h_cachedState h1) s b of
                      (s1, b1, Inl e) \<Rightarrow> (s1, h1, Inl (HandleErr e))
                    | (s1, b1, Inr _) \<Rightarrow>
                        (case commit_handle cf h1 (cf_writerId cf) s1 b1 of
                           (s2, h2, _, Inl e) \<Rightarrow> (s2, h2, Inl (HandleCommit e))
                         | (s2, h2, _, Inr sha) \<Rightarrow> (s2, h2, Inr sha))))
        in (s', h'\<lparr>h_patchInProgress := False\<rparr>, r))"

fun patchMany ::
  "'r graph_config \<Rightarrow> handle \<Rightarrow> git_store \<Rightarrow> build_fun list \<Rightarrow> git_store \<times> handle \<times> (handle_error + string list)" where
  "patchMany cf h s [] = (s, h, Inr [])"
| "patchMany cf h s (fill # fills) =
     (case patch_handle cf h s fill of
        (s1, h1, Inl e) \<Rightarrow> (s1, h1, Inl e)
      | (s1, h1, Inr sha) \<Rightarrow>
          (case patchMany cf h1 s1 fills of
             (s2, h2, Inl e) \<Rightarrow> (s2, h2, Inl e)
           | (s2, h2, Inr shas) \<Rightarrow> (s2, h2, Inr (sha # shas))))"

section \<open>Writers and sessions\<close>

text \<open>A writer keeps the address of the version vector that the handle had when it was made.\<close>

record writer_object =
  wo_writerId :: string
  wo_vv :: nat
  wo_commitInProgress :: bool

definition newWriter :: "handle \<Rightarrow> string \<Rightarrow> handle_error + writer_object" where
  "newWriter h writerId =
     (case validateWriterId (JStr writerId) of
        Inl e \<Rightarrow> Inl (HandleErr e)
      | Inr _ \<Rightarrow> Inr \<lparr>wo_writerId = writerId, wo_vv = h_vv h, wo_commitInProgress = False\<rparr>)"

definition writer_head :: "'r graph_config \<Rightarrow> writer_object \<Rightarrow> git_store \<Rightarrow> string option result" where
  "writer_head cf w s = bind_r (buildWriterRef (cf_graphName cf) (wo_writerId w)) (readRef s)"

record session =
  ss_builder :: builder
  ss_writerId :: string
  ss_expectedOldHead :: "string option"
  ss_committed :: bool

definition writer_lamport :: "'r graph_config \<Rightarrow> git_store \<Rightarrow> string option \<Rightarrow> handle_error + int" where
  "writer_lamport cf s expectedOldHead =
     (case expectedOldHead of
        None \<Rightarrow> Inr 1
      | Some head \<Rightarrow>
          bind_r (of_handle_load (of_store (showNode s head))) (\<lambda>commitMessage.
            if detectMessageKind (env_decodeMsg (cf_env cf)) commitMessage = Some ''patch'' then
              bind_r (of_handle_load (of_message (decodePatchMessage (env_decodeMsg (cf_env cf)) commitMessage))) (\<lambda>patchInfo.
                if pm_lamport patchInfo < 1 then Inl (LamportCorrupt head) else Inr (pm_lamport patchInfo + 1))
            else Inr 1))"

definition beginPatch :: "'r graph_config \<Rightarrow> handle \<Rightarrow> writer_object \<Rightarrow> git_store \<Rightarrow> handle_error + session" where
  "beginPatch cf h w s =
     bind_r (of_handle_load (of_store (writer_head cf w s))) (\<lambda>expectedOldHead.
       bind_r (writer_lamport cf s expectedOldHead) (\<lambda>lamport.
         Inr \<lparr>ss_builder = createPatchBuilder (cf_graphName cf) (wo_writerId w) lamport (vvClone (vector_at h (wo_vv w)))
                expectedOldHead (cf_onDelete cf),
              ss_writerId = wo_writerId w, ss_expectedOldHead = expectedOldHead, ss_committed = False\<rparr>))"

text \<open>Every method of a session that changes the builder goes through the same guard.\<close>

definition session_op :: "(builder, unit) op \<Rightarrow> session \<Rightarrow> session \<times> (handle_error + unit)" where
  "session_op f se =
     (if ss_committed se then (se, Inl SessionCommitted)
      else (case f (ss_builder se) of
              (b, Inl e) \<Rightarrow> (se\<lparr>ss_builder := b\<rparr>, Inl (HandleErr e))
            | (b, Inr _) \<Rightarrow> (se\<lparr>ss_builder := b\<rparr>, Inr ())))"

definition opCount :: "session \<Rightarrow> nat" where
  "opCount se = length (b_ops (ss_builder se))"

definition session_error :: "session \<Rightarrow> commit_error \<Rightarrow> handle_error" where
  "session_error se e =
     (case e of
        CommitErr (BuilderErr (CasConflict expected actual)) \<Rightarrow>
          RefAdvanced (case expected of None \<Rightarrow> ss_expectedOldHead se | Some x \<Rightarrow> Some x) actual
      | _ \<Rightarrow> PersistFailed e)"

definition session_commit ::
  "'r graph_config \<Rightarrow> handle \<Rightarrow> git_store \<Rightarrow> session \<Rightarrow> git_store \<times> handle \<times> session \<times> (handle_error + string)" where
  "session_commit cf h s se =
     (if ss_committed se then (s, h, se, Inl SessionCommitted)
      else if opCount se = 0 then (s, h, se, Inl SessionEmpty)
      else (case commit_handle cf h (ss_writerId se) s (ss_builder se) of
              (s', h', b', Inl e) \<Rightarrow> (s', h', se\<lparr>ss_builder := b'\<rparr>, Inl (session_error se e))
            | (s', h', b', Inr sha) \<Rightarrow> (s', h', se\<lparr>ss_builder := b', ss_committed := True\<rparr>, Inr sha)))"

definition commitPatch ::
  "'r graph_config \<Rightarrow> handle \<Rightarrow> git_store \<Rightarrow> writer_object \<Rightarrow> build_fun \<Rightarrow>
   git_store \<times> handle \<times> writer_object \<times> (handle_error + string)" where
  "commitPatch cf h s w fill =
     (if wo_commitInProgress w then (s, h, w, Inl CommitInProgress)
      else
        let (s', h', r) =
          (case beginPatch cf h w s of
             Inl e \<Rightarrow> (s, h, Inl e)
           | Inr se \<Rightarrow>
               (case fill (h_cachedState h) s (ss_builder se) of
                  (s1, b1, Inl e) \<Rightarrow> (s1, h, Inl (HandleErr e))
                | (s1, b1, Inr _) \<Rightarrow>
                    (case session_commit cf h s1 (se\<lparr>ss_builder := b1\<rparr>) of (s2, h2, _, r) \<Rightarrow> (s2, h2, r))))
        in (s', h', w\<lparr>wo_commitInProgress := False\<rparr>, r))"

end
