(* ===== verification/HandleMaterialize.thy ===== *)
theory HandleMaterialize
  imports HandleCommits
begin

text \<open>
  Reading through a handle: \<open>materialize\<close>, the ceiling path and \<open>materializeAt\<close>
  (\<open>src/domain/warp/materialize.methods.js\<close>, \<open>materializeAdvanced.methods.js\<close>), checkpoints and
  coverage (\<open>checkpoint.methods.js\<close>), the ancestry checks of \<open>fork.methods.js\<close>, and the ticks and
  freshness checks of \<open>patch.methods.js\<close>. A walk along a chain may not return, which is \<open>None\<close>.

  The diff that \<open>materialize\<close> asks the reducer for serves the bitmap view alone. The reduction with a
  diff has the state of the one without, and it is the latter that stands here.
\<close>

section \<open>Ancestry\<close>

definition MAX_WALK :: int where "MAX_WALK = 100000"

function ancestor_walk :: "git_store \<Rightarrow> string \<Rightarrow> int \<Rightarrow> string option \<Rightarrow> handle_error + bool" where
  "ancestor_walk s ancestorSha steps cur =
     (if cur = None \<or> cur = Some [] then Inr False
      else if steps + 1 > MAX_WALK then Inl AncestryTooLong
      else (case getNodeInfo s (the cur) of
              Inl e \<Rightarrow> Inl (HandleErr e)
            | Inr nodeInfo \<Rightarrow>
                if first_parent nodeInfo = Some ancestorSha then Inr True
                else ancestor_walk s ancestorSha (steps + 1) (first_parent nodeInfo)))"
  by pat_completeness auto
termination by (relation "measure (\<lambda>(_, _, steps, _). nat (MAX_WALK - steps))") auto

declare ancestor_walk.simps [simp del]

definition isAncestor_of :: "git_store \<Rightarrow> string \<Rightarrow> string \<Rightarrow> handle_error + bool" where
  "isAncestor_of s ancestorSha descendantSha =
     (if ancestorSha = [] \<or> descendantSha = [] then Inr False
      else if ancestorSha = descendantSha then Inr True
      else ancestor_walk s ancestorSha 0 (Some descendantSha))"

datatype head_relation = SameHead | AheadOf | BehindOf | Diverged

definition relationToCheckpointHead :: "git_store \<Rightarrow> string \<Rightarrow> string \<Rightarrow> handle_error + head_relation" where
  "relationToCheckpointHead s ckHead incomingSha =
     (if incomingSha = ckHead then Inr SameHead
      else bind_r (isAncestor_of s ckHead incomingSha) (\<lambda>ahead.
        if ahead then Inr AheadOf
        else bind_r (isAncestor_of s incomingSha ckHead) (\<lambda>behind. Inr (if behind then BehindOf else Diverged))))"

definition validatePatchAgainstCheckpoint :: "git_store \<Rightarrow> string \<Rightarrow> string \<Rightarrow> checkpoint \<Rightarrow> handle_error + unit" where
  "validatePatchAgainstCheckpoint s writerId incomingSha ck =
     (if ck_schema ck \<noteq> 2 \<and> ck_schema ck \<noteq> 3 then Inr ()
      else (case map_of (ck_frontier ck) writerId of
              None \<Rightarrow> Inr ()
            | Some ckHead \<Rightarrow>
                if ckHead = [] then Inr ()
                else bind_r (relationToCheckpointHead s ckHead incomingSha) (\<lambda>relation.
                  case relation of
                    SameHead \<Rightarrow> Inl (BackfillRejected writerId incomingSha)
                  | BehindOf \<Rightarrow> Inl (BackfillRejected writerId incomingSha)
                  | Diverged \<Rightarrow> Inl (WriterFork writerId)
                  | AheadOf \<Rightarrow> Inr ())))"

section \<open>The latest checkpoint\<close>

text \<open>
  Which errors count as a missing checkpoint is decided by the words of their messages: \<open>missing\<close>,
  \<open>not found\<close>, \<open>ENOENT\<close> and \<open>non-empty string\<close>. A text that a message quotes is taken not to contain
  one of them.
\<close>

fun dot_says_absent :: "dot_error \<Rightarrow> bool" where
  "dot_says_absent WriterIdEmpty = True"
| "dot_says_absent MissingColon = True"
| "dot_says_absent _ = False"

fun store_says_absent :: "store_error \<Rightarrow> bool" where
  "store_says_absent (TreeNotFound _) = True"
| "store_says_absent (BlobNotFound _) = True"
| "store_says_absent (CommitNotFound _) = True"
| "store_says_absent (RefNotFound _) = True"
| "store_says_absent MktreeNoTab = True"
| "store_says_absent _ = False"

fun js_says_absent :: "js_error \<Rightarrow> bool" where
  "js_says_absent (DotErr e) = dot_says_absent e"
| "js_says_absent (KeyErr e) = (e = LegacyNoPrefix \<or> e = EdgePropNoPrefix)"
| "js_says_absent (StoreErr e) = store_says_absent e"
| "js_says_absent (EventErr e) = (e = EventWriterEmpty)"
| "js_says_absent _ = False"

fun says_absent :: "checkpoint_error \<Rightarrow> bool" where
  "says_absent (CkptStore e) = js_says_absent e"
| "says_absent (CkptState e) = js_says_absent e"
| "says_absent (CkptMessage (MissingTrailer _ _)) = True"
| "says_absent (CkptMessage _) = False"
| "says_absent (CkptMissing _) = True"
| "says_absent (CkptSchema _) = False"
| "says_absent (StateVersion _) = False"

definition read_provenance :: "'r graph_config \<Rightarrow> checkpoint \<Rightarrow> handle_error + prov_index option" where
  "read_provenance cf ck =
     (case ck_provenance ck of
        None \<Rightarrow> Inr None
      | Some buf \<Rightarrow>
          (case prov_deserialize (cf_getProvenance cf) buf of Inl e \<Rightarrow> Inl (HandleProv e) | Inr idx \<Rightarrow> Inr (Some idx)))"

definition loadLatestCheckpoint :: "'r graph_config \<Rightarrow> git_store \<Rightarrow> handle_error + (checkpoint \<times> prov_index option) option" where
  "loadLatestCheckpoint cf s =
     (case bind_r (buildCheckpointRef (cf_graphName cf)) (readRef s) of
        Inl e \<Rightarrow> Inl (HandleErr e)
      | Inr None \<Rightarrow> Inr None
      | Inr (Some checkpointSha) \<Rightarrow>
          (case loadCheckpoint (cf_codec cf) (env_decodeMsg (cf_env cf)) s checkpointSha of
             Inl e \<Rightarrow> if says_absent e then Inr None else Inl (HandleCkpt e)
           | Inr ck \<Rightarrow> bind_r (read_provenance cf ck) (\<lambda>prov. Inr (Some (ck, prov)))))"

section \<open>Collecting patches\<close>

definition of_handle_o :: "(load_error + 'a) option \<Rightarrow> (handle_error + 'a) option" where
  "of_handle_o r = map_option of_handle_load r"

definition since_writer ::
  "'r graph_config \<Rightarrow> git_store \<Rightarrow> checkpoint \<Rightarrow> entry list \<Rightarrow> string \<Rightarrow> (handle_error + entry list) option" where
  "since_writer cf s ck allPatches writerId =
     (let checkpointSha = (case map_of (ck_frontier ck) writerId of None \<Rightarrow> None | Some c \<Rightarrow> if c = [] then None else Some c)
      in bind_o (of_handle_o (loadWriterPatches (cf_reader cf) s (cf_graphName cf) writerId checkpointSha)) (\<lambda>patches.
           Some (if patches = [] then Inr allPatches
                 else bind_r (validatePatchAgainstCheckpoint s writerId (snd (last patches)) ck) (\<lambda>_.
                   Inr (allPatches @ patches)))))"

definition loadPatchesSince :: "'r graph_config \<Rightarrow> git_store \<Rightarrow> checkpoint \<Rightarrow> (handle_error + entry list) option" where
  "loadPatchesSince cf s ck =
     (case discoverWriters s (cf_graphName cf) of
        Inl e \<Rightarrow> Some (Inl (HandleErr e))
      | Inr writerIds \<Rightarrow> fold_o (since_writer cf s ck) [] writerIds)"

definition all_of_writer ::
  "'r graph_config \<Rightarrow> git_store \<Rightarrow> entry list \<Rightarrow> string \<Rightarrow> (handle_error + entry list) option" where
  "all_of_writer cf s allPatches writerId =
     bind_o (of_handle_o (loadWriterPatches (cf_reader cf) s (cf_graphName cf) writerId None)) (\<lambda>patches.
       Some (Inr (allPatches @ patches)))"

definition loadAllPatches :: "'r graph_config \<Rightarrow> git_store \<Rightarrow> string list \<Rightarrow> (handle_error + entry list) option" where
  "loadAllPatches cf s writerIds = fold_o (all_of_writer cf s) [] writerIds"

text \<open>A tip that cannot be read is skipped.\<close>

definition tip_lamport :: "(string \<Rightarrow> trailers msg_result) \<Rightarrow> git_store \<Rightarrow> string \<Rightarrow> int option" where
  "tip_lamport decode_msg s tipSha =
     (case showNode s tipSha of
        Inl _ \<Rightarrow> None
      | Inr msg \<Rightarrow>
          if detectMessageKind decode_msg msg = Some ''patch'' then
            (case decodePatchMessage decode_msg msg of Inl _ \<Rightarrow> None | Inr m \<Rightarrow> Some (pm_lamport m))
          else None)"

definition scanFrontierForMaxLamport :: "'r graph_config \<Rightarrow> git_store \<Rightarrow> handle \<Rightarrow> frontier \<Rightarrow> handle" where
  "scanFrontierForMaxLamport cf s h fr =
     h\<lparr>h_maxObservedLamport := foldl (\<lambda>m (_, tipSha).
         (case tip_lamport (env_decodeMsg (cf_env cf)) s tipSha of None \<Rightarrow> m | Some l \<Rightarrow> if l > m then l else m))
       (h_maxObservedLamport h) fr\<rparr>"

definition scanPatchesForMaxLamport :: "handle \<Rightarrow> entry list \<Rightarrow> handle" where
  "scanPatchesForMaxLamport h patches =
     h\<lparr>h_maxObservedLamport := foldl (\<lambda>m (p, _). if patch_lamport p > m then patch_lamport p else m)
       (h_maxObservedLamport h) patches\<rparr>"

text \<open>The reduction of a list of patches, with receipts when they are asked for.\<close>

definition reduce_with :: "bool \<Rightarrow> entry list \<Rightarrow> warp_state option \<Rightarrow> (warp_state \<times> tick_receipt list option) result" where
  "reduce_with collectReceipts patches initialState =
     bind_r (reduceV5 patches initialState
         (if collectReceipts then Some \<lparr>opt_receipts = True, opt_trackDiff = False\<rparr> else None)) (\<lambda>r.
       Inr (reduced_state r, case r of ReducedReceipts _ rs \<Rightarrow> Some rs | _ \<Rightarrow> None))"

record materialized =
  mat_state :: warp_state
  mat_receipts :: "tick_receipt list option"
  mat_patchCount :: nat

text \<open>Nothing was written: the empty state, with no receipts.\<close>

definition nothing_written :: "bool \<Rightarrow> materialized" where
  "nothing_written collectReceipts =
     \<lparr>mat_state = createEmptyStateV5, mat_receipts = (if collectReceipts then Some [] else None), mat_patchCount = 0\<rparr>"

type_synonym 'a step = "(handle \<times> (handle_error + 'a)) option"

definition from_checkpoint ::
  "'r graph_config \<Rightarrow> git_store \<Rightarrow> handle \<Rightarrow> bool \<Rightarrow> checkpoint \<times> prov_index option \<Rightarrow> materialized step" where
  "from_checkpoint cf s h collectReceipts cp =
     (case loadPatchesSince cf s (fst cp) of
        None \<Rightarrow> None
      | Some (Inl e) \<Rightarrow> Some (h, Inl e)
      | Some (Inr patches) \<Rightarrow>
          let h1 = scanPatchesForMaxLamport (scanFrontierForMaxLamport cf s h (ck_frontier (fst cp))) patches in
          Some (case reduce_with collectReceipts patches (Some (ck_state (fst cp))) of
                  Inl e \<Rightarrow> (h1, Inl (HandleErr e))
                | Inr (st, rs) \<Rightarrow>
                    (h1\<lparr>h_provenanceIndex := Some (index_patches
                         (case snd cp of None \<Rightarrow> newProvenanceIndex None | Some idx \<Rightarrow> prov_clone idx) patches)\<rparr>,
                     Inr \<lparr>mat_state = st, mat_receipts = rs, mat_patchCount = length patches\<rparr>)))"

definition from_writers :: "'r graph_config \<Rightarrow> git_store \<Rightarrow> handle \<Rightarrow> bool \<Rightarrow> materialized step" where
  "from_writers cf s h collectReceipts =
     (case discoverWriters s (cf_graphName cf) of
        Inl e \<Rightarrow> Some (h, Inl (HandleErr e))
      | Inr writerIds \<Rightarrow>
          if writerIds = []
          then Some (h\<lparr>h_provenanceIndex := Some (newProvenanceIndex None)\<rparr>, Inr (nothing_written collectReceipts))
          else (case loadAllPatches cf s writerIds of
                  None \<Rightarrow> None
                | Some (Inl e) \<Rightarrow> Some (h, Inl e)
                | Some (Inr allPatches) \<Rightarrow>
                    Some (if allPatches = []
                      then (h\<lparr>h_provenanceIndex := Some (newProvenanceIndex None)\<rparr>, Inr (nothing_written collectReceipts))
                      else
                        let h1 = scanPatchesForMaxLamport h allPatches in
                        (case reduce_with collectReceipts allPatches None of
                           Inl e \<Rightarrow> (h1, Inl (HandleErr e))
                         | Inr (st, rs) \<Rightarrow>
                             (h1\<lparr>h_provenanceIndex := Some (index_patches (newProvenanceIndex None) allPatches)\<rparr>,
                              Inr \<lparr>mat_state = st, mat_receipts = rs, mat_patchCount = length allPatches\<rparr>)))))"

section \<open>Time travel\<close>

text \<open>
  The option \<open>ceiling\<close>: absent (\<open>None\<close>), present and \<open>null\<close>, or a number.
\<close>

definition resolveCeiling :: "handle \<Rightarrow> int option option \<Rightarrow> int option" where
  "resolveCeiling h options = (case options of None \<Rightarrow> h_seekCeiling h | Some ceiling \<Rightarrow> ceiling)"

definition ceiling_hit :: "handle \<Rightarrow> int \<Rightarrow> bool \<Rightarrow> frontier \<Rightarrow> bool" where
  "ceiling_hit h ceiling collectReceipts fr \<longleftrightarrow>
     h_cachedState h \<noteq> None \<and> \<not> h_stateDirty h \<and> h_cachedCeiling h = Some ceiling \<and> \<not> collectReceipts \<and>
     (case h_cachedFrontier h of
        None \<Rightarrow> False
      | Some cachedFr \<Rightarrow> length cachedFr = length fr \<and> list_all (\<lambda>(w, sha). map_of cachedFr w = Some sha) fr)"

definition install_ceiling :: "handle \<Rightarrow> int \<Rightarrow> frontier \<Rightarrow> prov_index \<Rightarrow> warp_state \<Rightarrow> handle" where
  "install_ceiling h ceiling fr idx st =
     (setMaterializedState (h\<lparr>h_provenanceIndex := Some idx, h_provenanceDegraded := False\<rparr>) st)
       \<lparr>h_cachedCeiling := Some ceiling, h_cachedFrontier := Some fr\<rparr>"

definition materializeWithCeiling ::
  "'r graph_config \<Rightarrow> git_store \<Rightarrow> handle \<Rightarrow> int \<Rightarrow> bool \<Rightarrow> materialized step" where
  "materializeWithCeiling cf s h ceiling collectReceipts =
     (case getFrontier s (cf_graphName cf) of
        Inl e \<Rightarrow> Some (h, Inl (HandleErr e))
      | Inr fr \<Rightarrow>
          if ceiling_hit h ceiling collectReceipts fr
          then Some (h, Inr \<lparr>mat_state = the (h_cachedState h), mat_receipts = None, mat_patchCount = 0\<rparr>)
          else if map_keys fr = [] \<or> ceiling \<le> 0
          then Some (install_ceiling h ceiling fr (newProvenanceIndex None) createEmptyStateV5,
                 Inr (nothing_written collectReceipts))
          else (case loadAllPatches cf s (map_keys fr) of
                  None \<Rightarrow> None
                | Some (Inl e) \<Rightarrow> Some (h, Inl e)
                | Some (Inr loaded) \<Rightarrow>
                    let allPatches = filter (\<lambda>(p, _). patch_lamport p \<le> ceiling) loaded in
                    Some (case (if allPatches = [] then Inr (createEmptyStateV5, if collectReceipts then Some [] else None)
                                else reduce_with collectReceipts allPatches None) of
                            Inl e \<Rightarrow> (h, Inl (HandleErr e))
                          | Inr (st, rs) \<Rightarrow>
                              (install_ceiling h ceiling fr (index_patches (newProvenanceIndex None) allPatches) st,
                               Inr \<lparr>mat_state = st, mat_receipts = rs, mat_patchCount = length allPatches\<rparr>))))"

end
