(* ===== verification/HandleCheckpoints.thy ===== *)
theory HandleCheckpoints
  imports HandleMaterialize
begin

text \<open>
  The operations that write more than patches, and those that go through \<open>materialize\<close>:
  \<open>createCheckpoint\<close>, \<open>syncCoverage\<close> and the migration check of
  \<open>src/domain/warp/checkpoint.methods.js\<close>, \<open>materialize\<close> itself, \<open>materializeAt\<close>, \<open>_ensureFreshState\<close>,
  the queries of \<open>provenance.methods.js\<close>, and \<open>discoverTicks\<close>.
\<close>

section \<open>Materialising\<close>

type_synonym 'a run = "(git_store \<times> handle \<times> (handle_error + 'a)) option"

text \<open>
  \<open>auto\<close> is the automatic checkpoint, given the store, the handle and the number of patches. Its
  failure is swallowed.
\<close>

definition materialize_with ::
  "(git_store \<Rightarrow> handle \<Rightarrow> nat \<Rightarrow> (git_store \<times> handle) option) \<Rightarrow> ('r :: linorder) graph_config \<Rightarrow> git_store \<Rightarrow> handle \<Rightarrow>
   bool \<Rightarrow> int option option \<Rightarrow> materialized run" where
  "materialize_with auto cf s h collectReceipts options =
     (case resolveCeiling h options of
        Some ceiling \<Rightarrow> map_option (\<lambda>(h', r). (s, h', r)) (materializeWithCeiling cf s h ceiling collectReceipts)
      | None \<Rightarrow>
          (case loadLatestCheckpoint cf s of
             Inl e \<Rightarrow> Some (s, h, Inl e)
           | Inr ck \<Rightarrow>
               (case (case ck of Some cp \<Rightarrow> from_checkpoint cf s h collectReceipts cp
                              | None \<Rightarrow> from_writers cf s h collectReceipts) of
                  None \<Rightarrow> None
                | Some (h1, Inl e) \<Rightarrow> Some (s, h1, Inl e)
                | Some (h1, Inr m) \<Rightarrow>
                    let h2 = (setMaterializedState h1 (mat_state m))
                               \<lparr>h_provenanceDegraded := False, h_cachedCeiling := None, h_cachedFrontier := None\<rparr> in
                    (case getFrontier s (cf_graphName cf) of
                       Inl e \<Rightarrow> Some (s, h2, Inl (HandleErr e))
                     | Inr fr \<Rightarrow>
                         (case auto s (h2\<lparr>h_lastFrontier := Some fr, h_patchesSinceCheckpoint := mat_patchCount m\<rparr>)
                                 (mat_patchCount m) of
                            None \<Rightarrow> None
                          | Some (s', h3) \<Rightarrow> Some (s', autoGC cf h3 (mat_state m), Inr m))))))"

section \<open>Checkpoints\<close>

text \<open>The writers with their tips; a writer without one is left out.\<close>

definition tip_step :: "git_store \<Rightarrow> string \<Rightarrow> (string \<times> string) list \<Rightarrow> string \<Rightarrow> (string \<times> string) list result" where
  "tip_step s graphName acc writerId =
     bind_r (buildWriterRef graphName writerId) (\<lambda>writerRef.
       bind_r (readRef s writerRef) (\<lambda>sha.
         Inr (case sha of None \<Rightarrow> acc | Some x \<Rightarrow> acc @ [(writerId, x)])))"

definition writer_tips :: "git_store \<Rightarrow> string \<Rightarrow> (string \<times> string) list result" where
  "writer_tips s graphName =
     bind_r (discoverWriters s graphName) (\<lambda>writers. fold_r (tip_step s graphName) [] writers)"

definition frontier_of_tips :: "(string \<times> string) list \<Rightarrow> frontier" where
  "frontier_of_tips tips = foldl (\<lambda>fr (writerId, sha). updateFrontier fr writerId sha) createFrontier tips"

text \<open>Step 3 of \<open>createCheckpoint\<close>: a clean cached state is taken as it is.\<close>

definition state_for_checkpoint :: "('r :: linorder) graph_config \<Rightarrow> git_store \<Rightarrow> handle \<Rightarrow> warp_state run" where
  "state_for_checkpoint cf s h =
     (if h_cachedState h \<noteq> None \<and> \<not> h_stateDirty h then Some (s, h, Inr (the (h_cachedState h)))
      else map_option (\<lambda>(s', h', r). (s', h'\<lparr>h_checkpointing := h_checkpointing h\<rparr>,
                          case r of Inl e \<Rightarrow> Inl e | Inr m \<Rightarrow> Inr (mat_state m)))
             (materialize_with (\<lambda>s h n. Some (s, h)) cf s (h\<lparr>h_checkpointing := True\<rparr>) False None))"

definition checkpoint_input_of :: "'r graph_config \<Rightarrow> handle \<Rightarrow> (string \<times> string) list \<Rightarrow> warp_state \<Rightarrow> checkpoint_input" where
  "checkpoint_input_of cf h tips st =
     \<lparr>ki_graphName = cf_graphName cf, ki_state = st, ki_frontier = frontier_of_tips tips, ki_parents = map snd tips,
      ki_compact = True, ki_provenance = map_option (prov_serialize (cf_putProvenance cf)) (h_provenanceIndex h),
      ki_indexTree = cf_indexTree cf st\<rparr>"

definition createCheckpoint :: "('r :: linorder) graph_config \<Rightarrow> git_store \<Rightarrow> handle \<Rightarrow> string run" where
  "createCheckpoint cf s h =
     (case writer_tips s (cf_graphName cf) of
        Inl e \<Rightarrow> Some (s, h, Inl (HandleErr e))
      | Inr tips \<Rightarrow>
          (case state_for_checkpoint cf s h of
             None \<Rightarrow> None
           | Some (s1, h1, Inl e) \<Rightarrow> Some (s1, h1, Inl e)
           | Some (s1, h1, Inr st) \<Rightarrow>
               Some (case create_checkpoint (cf_env cf) (cf_codec cf) s1 (checkpoint_input_of cf h1 tips st) of
                       (s2, Inl e) \<Rightarrow> (s2, h1, Inl (HandleCkpt e))
                     | (s2, Inr checkpointSha) \<Rightarrow>
                         (case bind_r (buildCheckpointRef (cf_graphName cf)) (\<lambda>ref. updateRef s2 ref checkpointSha) of
                            Inl e \<Rightarrow> (s2, h1, Inl (HandleErr e))
                          | Inr s3 \<Rightarrow> (s3, h1, Inr checkpointSha)))))"

text \<open>
  The state that \<open>materialize\<close> has just installed is clean, so that its checkpoint does not
  materialise again; a checkpoint that materialises does not make another one.
\<close>

definition autoCheckpoint ::
  "('r :: linorder) graph_config \<Rightarrow> git_store \<Rightarrow> handle \<Rightarrow> nat \<Rightarrow> (git_store \<times> handle) option" where
  "autoCheckpoint cf s h patchCount =
     (case cf_checkpointEvery cf of
        None \<Rightarrow> Some (s, h)
      | Some every \<Rightarrow>
          if h_checkpointing h \<or> patchCount < every then Some (s, h)
          else map_option (\<lambda>(s', h', r). (s', case r of Inl _ \<Rightarrow> h' | Inr _ \<Rightarrow> h'\<lparr>h_patchesSinceCheckpoint := 0\<rparr>))
                 (createCheckpoint cf s h))"

definition materialize ::
  "('r :: linorder) graph_config \<Rightarrow> git_store \<Rightarrow> handle \<Rightarrow> bool \<Rightarrow> int option option \<Rightarrow> materialized run" where
  "materialize cf s h collectReceipts options = materialize_with (autoCheckpoint cf) cf s h collectReceipts options"

definition ensureFreshState :: "('r :: linorder) graph_config \<Rightarrow> git_store \<Rightarrow> handle \<Rightarrow> unit run" where
  "ensureFreshState cf s h =
     (if cf_autoMaterialize cf \<and> (h_cachedState h = None \<or> h_stateDirty h)
      then map_option (\<lambda>(s', h', r). (s', h', case r of Inl e \<Rightarrow> Inl e | Inr _ \<Rightarrow> Inr ())) (materialize cf s h False None)
      else if h_cachedState h = None then Some (s, h, Inl NoState)
      else if h_stateDirty h then Some (s, h, Inl StaleState)
      else Some (s, h, Inr ()))"

definition syncCoverage :: "'r graph_config \<Rightarrow> git_store \<Rightarrow> git_store \<times> (handle_error + unit)" where
  "syncCoverage cf s =
     (case writer_tips s (cf_graphName cf) of
        Inl e \<Rightarrow> (s, Inl (HandleErr e))
      | Inr tips \<Rightarrow>
          if tips = [] then (s, Inr ())
          else (case encodeAnchorMessage (env_encodeMsg (cf_env cf)) (cf_graphName cf) 2 of
                  Inl e \<Rightarrow> (s, Inl (HandleCommit (CommitMsg e)))
                | Inr message \<Rightarrow>
                    (case commitNode (env_hash (cf_env cf)) (env_author (cf_env cf)) (env_date (cf_env cf)) s (map snd tips) message of
                       Inl e \<Rightarrow> (s, Inl (HandleErr e))
                     | Inr (s1, anchorSha) \<Rightarrow>
                         (case bind_r (buildCoverageRef (cf_graphName cf)) (\<lambda>ref. updateRef s1 ref anchorSha) of
                            Inl e \<Rightarrow> (s1, Inl (HandleErr e))
                          | Inr s2 \<Rightarrow> (s2, Inr ())))))"

section \<open>The state at a checkpoint\<close>

text \<open>What the loader of \<open>materializeAt\<close> loads for one writer of the target frontier.\<close>

definition load_at ::
  "'r graph_config \<Rightarrow> git_store \<Rightarrow> frontier \<Rightarrow> (string, entry list) jsmap \<Rightarrow> string \<times> string \<Rightarrow>
   (handle_error + (string, entry list) jsmap) option" where
  "load_at cf s checkpointFrontier acc entry =
     (let (writerId, toSha) = entry;
          fromSha = (case map_of checkpointFrontier writerId of None \<Rightarrow> None | Some c \<Rightarrow> if c = [] then None else Some c)
      in bind_o (of_handle_o (load_writer (cf_reader cf) s fromSha toSha [])) (\<lambda>patches.
           Some (Inr (map_set acc writerId (rev patches)))))"

definition materializeAt :: "'r graph_config \<Rightarrow> git_store \<Rightarrow> handle \<Rightarrow> string \<Rightarrow> warp_state step" where
  "materializeAt cf s h checkpointSha =
     (case writer_tips s (cf_graphName cf) of
        Inl e \<Rightarrow> Some (h, Inl (HandleErr e))
      | Inr tips \<Rightarrow>
          (case loadCheckpoint (cf_codec cf) (env_decodeMsg (cf_env cf)) s checkpointSha of
             Inl e \<Rightarrow> Some (h, Inl (HandleCkpt e))
           | Inr ck \<Rightarrow>
               (case fold_o (load_at cf s (ck_frontier ck)) [] (frontier_of_tips tips) of
                  None \<Rightarrow> None
                | Some (Inl e) \<Rightarrow> Some (h, Inl e)
                | Some (Inr loaded) \<Rightarrow>
                    Some (case materializeIncremental (cf_codec cf) (env_decodeMsg (cf_env cf)) s checkpointSha (frontier_of_tips tips)
                                 (\<lambda>writerId _ _. Inr (case map_of loaded writerId of None \<Rightarrow> [] | Some ps \<Rightarrow> ps)) of
                            Inl e \<Rightarrow> (h, Inl (HandleCkpt e))
                          | Inr st \<Rightarrow> (setMaterializedState h st, Inr st)))))"

section \<open>Opening a graph with old history\<close>

definition schema_one_tip :: "'r graph_config \<Rightarrow> git_store \<Rightarrow> string \<Rightarrow> handle_error + bool" where
  "schema_one_tip cf s writerId =
     bind_r (of_handle_load (of_store (bind_r (buildWriterRef (cf_graphName cf) writerId) (readRef s)))) (\<lambda>tipSha.
       case tipSha of
         None \<Rightarrow> Inr False
       | Some tip \<Rightarrow>
           bind_r (of_handle_load (of_store (getNodeInfo s tip))) (\<lambda>nodeInfo.
             if detectMessageKind (env_decodeMsg (cf_env cf)) (ci_message nodeInfo) \<noteq> Some ''patch'' then Inr False
             else bind_r (of_handle_load (bind_r (of_message (decodePatchMessage (env_decodeMsg (cf_env cf)) (ci_message nodeInfo)))
                     (\<lambda>patchMeta. bind_r (readPatchBlob s patchMeta) (decode_patch (cf_reader cf))))) (\<lambda>p.
               Inr (patch_schema p = 1))))"

fun any_schema_one :: "'r graph_config \<Rightarrow> git_store \<Rightarrow> string list \<Rightarrow> handle_error + bool" where
  "any_schema_one cf s [] = Inr False"
| "any_schema_one cf s (writerId # writerIds) =
     bind_r (schema_one_tip cf s writerId) (\<lambda>found. if found then Inr True else any_schema_one cf s writerIds)"

definition hasSchema1Patches :: "'r graph_config \<Rightarrow> git_store \<Rightarrow> handle_error + bool" where
  "hasSchema1Patches cf s =
     (case discoverWriters s (cf_graphName cf) of
        Inl e \<Rightarrow> Inl (HandleErr e)
      | Inr writerIds \<Rightarrow> any_schema_one cf s writerIds)"

definition validateMigrationBoundary :: "'r graph_config \<Rightarrow> git_store \<Rightarrow> handle_error + unit" where
  "validateMigrationBoundary cf s =
     bind_r (loadLatestCheckpoint cf s) (\<lambda>ck.
       if ck \<noteq> None then Inr ()
       else bind_r (hasSchema1Patches cf s) (\<lambda>found. if found then Inl SchemaOneHistory else Inr ()))"

section \<open>Provenance\<close>

definition handle_patchesFor :: "('r :: linorder) graph_config \<Rightarrow> git_store \<Rightarrow> handle \<Rightarrow> string \<Rightarrow> string list run" where
  "handle_patchesFor cf s h entityId =
     (case ensureFreshState cf s h of
        None \<Rightarrow> None
      | Some (s', h', Inl e) \<Rightarrow> Some (s', h', Inl e)
      | Some (s', h', Inr _) \<Rightarrow>
          Some (s', h',
            if h_provenanceDegraded h' then Inl (HandleSlice ProvenanceDegraded)
            else case h_provenanceIndex h' of
                   None \<Rightarrow> Inl (HandleSlice NoProvenance)
                 | Some idx \<Rightarrow> Inr (patchesFor idx entityId)))"

definition handle_materializeSlice ::
  "('r :: linorder) graph_config \<Rightarrow> (string \<Rightarrow> string \<Rightarrow> int) \<Rightarrow> git_store \<Rightarrow> handle \<Rightarrow> string \<Rightarrow> bool \<Rightarrow> slice run" where
  "handle_materializeSlice cf localeCompare s h nodeId collectReceipts =
     (case ensureFreshState cf s h of
        None \<Rightarrow> None
      | Some (s', h', Inl e) \<Rightarrow> Some (s', h', Inl e)
      | Some (s', h', Inr _) \<Rightarrow>
          Some (s', h',
            case Slices.materializeSlice (loadPatchBySha (cf_reader cf) s') localeCompare (h_provenanceIndex h')
                   (h_provenanceDegraded h') nodeId collectReceipts of
              Inl e \<Rightarrow> Inl (HandleSlice e)
            | Inr sl \<Rightarrow> Inr sl))"

section \<open>Ticks\<close>

record writer_ticks =
  wt_ticks :: "int list"
  wt_tipSha :: "string option"
  wt_tickShas :: "(int, string) jsmap"

text \<open>The walk of one writer, newest first, with the ticks of all writers so far.\<close>

partial_function (option) tick_walk ::
  "(string \<Rightarrow> trailers msg_result) \<Rightarrow> git_store \<Rightarrow> string \<Rightarrow> int jsset \<Rightarrow> int list \<Rightarrow> (int, string) jsmap \<Rightarrow>
   (load_error + int jsset \<times> int list \<times> (int, string) jsmap) option" where
  "tick_walk decode_msg s cur globalTicks ticks tickShas =
     (if cur = [] then Some (Inr (globalTicks, ticks, tickShas))
      else (case of_store (getNodeInfo s cur) of
              Inl e \<Rightarrow> Some (Inl e)
            | Inr nodeInfo \<Rightarrow>
                if detectMessageKind decode_msg (ci_message nodeInfo) \<noteq> Some ''patch''
                then Some (Inr (globalTicks, ticks, tickShas))
                else (case of_message (decodePatchMessage decode_msg (ci_message nodeInfo)) of
                        Inl e \<Rightarrow> Some (Inl e)
                      | Inr patchMeta \<Rightarrow>
                          (case first_parent nodeInfo of
                             None \<Rightarrow> Some (Inr (set_add globalTicks (pm_lamport patchMeta), ticks @ [pm_lamport patchMeta],
                               map_set tickShas (pm_lamport patchMeta) cur))
                           | Some parent \<Rightarrow>
                               tick_walk decode_msg s parent (set_add globalTicks (pm_lamport patchMeta))
                                 (ticks @ [pm_lamport patchMeta]) (map_set tickShas (pm_lamport patchMeta) cur)))))"

declare tick_walk.simps [code]

definition writer_ticks_step ::
  "'r graph_config \<Rightarrow> git_store \<Rightarrow> int jsset \<times> (string, writer_ticks) jsmap \<Rightarrow> string \<Rightarrow>
   (handle_error + int jsset \<times> (string, writer_ticks) jsmap) option" where
  "writer_ticks_step cf s acc writerId =
     (case of_store (bind_r (buildWriterRef (cf_graphName cf) writerId) (readRef s)) of
        Inl e \<Rightarrow> Some (Inl (HandleLoad e))
      | Inr tipSha \<Rightarrow>
          bind_o (case tipSha of
                    None \<Rightarrow> Some (Inr (fst acc, [], []))
                  | Some tip \<Rightarrow> of_handle_o (tick_walk (env_decodeMsg (cf_env cf)) s tip (fst acc) [] []))
            (\<lambda>(globalTicks, ticks, tickShas).
               Some (Inr (globalTicks, map_set (snd acc) writerId
                 \<lparr>wt_ticks = rev ticks, wt_tipSha = tipSha, wt_tickShas = tickShas\<rparr>))))"

record tick_report =
  tr_ticks :: "int list"
  tr_maxTick :: int
  tr_perWriter :: "(string, writer_ticks) jsmap"

definition discoverTicks :: "'r graph_config \<Rightarrow> git_store \<Rightarrow> (handle_error + tick_report) option" where
  "discoverTicks cf s =
     (case discoverWriters s (cf_graphName cf) of
        Inl e \<Rightarrow> Some (Inl (HandleErr e))
      | Inr writerIds \<Rightarrow>
          bind_o (fold_o (writer_ticks_step cf s) ([], []) writerIds) (\<lambda>(globalTickSet, perWriter).
            let ticks = sort globalTickSet
            in Some (Inr \<lparr>tr_ticks = ticks, tr_maxTick = (if length ticks > 0 then last ticks else 0),
                          tr_perWriter = perWriter\<rparr>)))"

end
