(* ===== verification/HandleSync.thy ===== *)
theory HandleSync
  imports HandleCheckpoints SyncLaws
begin

text \<open>
  \<open>src/domain/services/SyncController.js\<close> over a handle and a store, and the trust gate
  (\<open>SyncTrustGate.js\<close>) that an answer passes before it is applied. The evaluator of trust and the
  schema library that checks the shape of an answer are parameters; a peer is another store with its
  configuration, and the requests over HTTP with their retries are left out.
\<close>

section \<open>The trust gate\<close>

datatype trust_mode = TrustOff | TrustLogOnly | TrustEnforce

text \<open>The evaluator names the trusted writers, or throws.\<close>

record trust_gate =
  tg_evaluator :: "(string list \<Rightarrow> string jsset option) option"
  tg_mode :: trust_mode

record gate_result =
  gt_allowed :: bool
  gt_untrustedWriters :: "string list"
  gt_verdict :: string

definition gate_decide :: "trust_mode \<Rightarrow> string list \<Rightarrow> gate_result" where
  "gate_decide mode untrusted =
     (if length untrusted = 0 then \<lparr>gt_allowed = True, gt_untrustedWriters = [], gt_verdict = ''pass''\<rparr>
      else if mode = TrustEnforce
      then \<lparr>gt_allowed = False, gt_untrustedWriters = untrusted, gt_verdict = ''rejected''\<rparr>
      else \<lparr>gt_allowed = True, gt_untrustedWriters = untrusted, gt_verdict = ''warn_allowed''\<rparr>)"

definition gate_error :: "trust_mode \<Rightarrow> string list \<Rightarrow> gate_result" where
  "gate_error mode writerIds =
     (if mode = TrustEnforce
      then \<lparr>gt_allowed = False, gt_untrustedWriters = writerIds, gt_verdict = ''error_rejected''\<rparr>
      else \<lparr>gt_allowed = True, gt_untrustedWriters = [], gt_verdict = ''error_allowed''\<rparr>)"

definition gate_evaluate :: "trust_gate \<Rightarrow> string list \<Rightarrow> gate_result" where
  "gate_evaluate gate writerIds =
     (if tg_mode gate = TrustOff \<or> tg_evaluator gate = None
      then \<lparr>gt_allowed = True, gt_untrustedWriters = [], gt_verdict = ''trust_disabled''\<rparr>
      else if length writerIds = 0
      then \<lparr>gt_allowed = True, gt_untrustedWriters = [], gt_verdict = ''no_writers''\<rparr>
      else (case the (tg_evaluator gate) writerIds of
              None \<Rightarrow> gate_error (tg_mode gate) writerIds
            | Some trusted \<Rightarrow> gate_decide (tg_mode gate) (filter (\<lambda>w. w \<notin> set trusted) writerIds)))"

definition extractWritersFromPatches :: "sync_patch list \<Rightarrow> string list" where
  "extractWritersFromPatches ps =
     foldl (\<lambda>ws sp. if sp_writerId sp = [] then ws else set_add ws (sp_writerId sp)) [] ps"

section \<open>Freshness\<close>

definition hasFrontierChanged :: "'r graph_config \<Rightarrow> git_store \<Rightarrow> handle \<Rightarrow> bool result" where
  "hasFrontierChanged cf s h =
     (case h_lastFrontier h of
        None \<Rightarrow> Inr True
      | Some lastFr \<Rightarrow>
          bind_r (getFrontier s (cf_graphName cf)) (\<lambda>current.
            if length current \<noteq> length lastFr then Inr True
            else Inr (list_ex (\<lambda>(writerId, tipSha). map_of lastFr writerId \<noteq> Some tipSha) current)))"

definition mapsEqual :: "frontier \<Rightarrow> frontier \<Rightarrow> bool" where
  "mapsEqual a b \<longleftrightarrow> list_all (\<lambda>(k, v). map_of b k = Some v) a"

datatype cache_status = CacheNone | CacheStale | CacheFresh

record 'r graph_status =
  gst_cachedState :: cache_status
  gst_patchesSinceCheckpoint :: nat
  gst_tombstoneRatio :: 'r
  gst_writers :: nat
  gst_frontier :: "(string \<times> string) list"

definition cache_status_of :: "handle \<Rightarrow> frontier \<Rightarrow> cache_status" where
  "cache_status_of h fr =
     (if h_cachedState h = None then CacheNone
      else if h_stateDirty h then CacheStale
      else (case h_lastFrontier h of
              None \<Rightarrow> CacheStale
            | Some lastFr \<Rightarrow> if length fr \<noteq> length lastFr \<or> \<not> mapsEqual fr lastFr then CacheStale else CacheFresh))"

definition graph_status :: "'r graph_config \<Rightarrow> git_store \<Rightarrow> handle \<Rightarrow> 'r graph_status result" where
  "graph_status cf s h =
     bind_r (getFrontier s (cf_graphName cf)) (\<lambda>fr.
       Inr \<lparr>gst_cachedState = cache_status_of h fr, gst_patchesSinceCheckpoint = h_patchesSinceCheckpoint h,
         gst_tombstoneRatio = (case h_cachedState h of
            None \<Rightarrow> cf_zero cf | Some st \<Rightarrow> tombstoneRatio (collectGCMetrics (cf_fdiv cf) (cf_zero cf) st)),
         gst_writers = length fr, gst_frontier = fr\<rparr>)"

section \<open>Requests and answers\<close>

definition controller_request :: "'r graph_config \<Rightarrow> git_store \<Rightarrow> sync_request result" where
  "controller_request cf s = bind_r (getFrontier s (cf_graphName cf)) (\<lambda>fr. Inr (createSyncRequest fr))"

definition controller_process ::
  "'r graph_config \<Rightarrow> ancestry \<Rightarrow> git_store \<Rightarrow> sync_request \<Rightarrow> (handle_error + sync_response) option" where
  "controller_process cf isAncestor s request =
     (case getFrontier s (cf_graphName cf) of
        Inl e \<Rightarrow> Some (Inl (HandleErr e))
      | Inr localFrontier \<Rightarrow>
          map_option (\<lambda>r. case r of Inl e \<Rightarrow> Inl (HandleSync e) | Inr x \<Rightarrow> Inr x)
            (processSyncRequest (cf_reader cf) isAncestor s request localFrontier))"

record sync_outcome =
  so_applied :: sync_applied
  so_writersApplied :: "string list"
  so_skippedWriters :: "skipped_writer list"

definition applySyncResponseWithGate ::
  "handle \<Rightarrow> sync_response \<Rightarrow> trust_gate option \<Rightarrow> handle \<times> (handle_error + sync_outcome)" where
  "applySyncResponseWithGate h response gate =
     (case h_cachedState h of
        None \<Rightarrow> (h, Inl NoState)
      | Some st \<Rightarrow>
          let writersApplied = extractWritersFromPatches (resp_patches response);
              verdict = (case gate of
                 None \<Rightarrow> \<lparr>gt_allowed = True, gt_untrustedWriters = [], gt_verdict = ''pass''\<rparr>
               | Some g \<Rightarrow> if length writersApplied > 0 then gate_evaluate g writersApplied
                           else \<lparr>gt_allowed = True, gt_untrustedWriters = [], gt_verdict = ''pass''\<rparr>)
          in if \<not> gt_allowed verdict then (h, Inl (UntrustedWriters (gt_untrustedWriters verdict)))
             else (case applySyncResponse response st (case h_lastFrontier h of None \<Rightarrow> createFrontier | Some fr \<Rightarrow> fr) of
                     Inl e \<Rightarrow> (h, Inl (HandleSync e))
                   | Inr result \<Rightarrow>
                       ((setMaterializedState h (applied_state result))
                          \<lparr>h_lastFrontier := Some (applied_frontier result),
                           h_patchesSinceGC := h_patchesSinceGC h + applied_count result\<rparr>,
                        Inr \<lparr>so_applied = result, so_writersApplied = writersApplied,
                             so_skippedWriters = resp_skippedWriters response\<rparr>)))"

definition controller_syncNeeded :: "'r graph_config \<Rightarrow> git_store \<Rightarrow> frontier \<Rightarrow> bool result" where
  "controller_syncNeeded cf s remoteFrontier =
     bind_r (getFrontier s (cf_graphName cf)) (\<lambda>localFrontier. Inr (syncNeeded localFrontier remoteFrontier))"

section \<open>Synchronising with a peer\<close>

record sync_report =
  sr_applied :: nat
  sr_attempts :: nat
  sr_skippedWriters :: "skipped_writer list"
  sr_state :: "warp_state option"

text \<open>
  \<open>syncWith\<close> a peer in the same process: one attempt, since the errors of a peer are not retried.
  \<open>valid\<close> is the schema check of the answer.
\<close>

definition syncWithPeer ::
  "('r :: linorder) graph_config \<Rightarrow> trust_gate option \<Rightarrow> ancestry \<Rightarrow> (sync_response \<Rightarrow> bool) \<Rightarrow> git_store \<Rightarrow> handle \<Rightarrow>
   'r graph_config \<Rightarrow> git_store \<Rightarrow> bool \<Rightarrow> sync_report run" where
  "syncWithPeer cf gate isAncestor valid s h peer_cf peer_s materializeAfterSync =
     (case controller_request cf s of
        Inl e \<Rightarrow> Some (s, h, Inl (HandleErr e))
      | Inr request \<Rightarrow>
          (case controller_process peer_cf isAncestor peer_s request of
             None \<Rightarrow> None
           | Some (Inl e) \<Rightarrow> Some (s, h, Inl e)
           | Some (Inr response) \<Rightarrow>
               if \<not> valid response then Some (s, h, Inl PayloadInvalid)
               else (case (if h_cachedState h = None
                           then map_option (\<lambda>(s', h', r). (s', h', case r of Inl e \<Rightarrow> Inl e | Inr _ \<Rightarrow> Inr ()))
                                  (materialize cf s h False None)
                           else Some (s, h, Inr ())) of
                       None \<Rightarrow> None
                     | Some (s1, h1, Inl e) \<Rightarrow> Some (s1, h1, Inl e)
                     | Some (s1, h1, Inr _) \<Rightarrow>
                         Some (case applySyncResponseWithGate h1 response gate of
                                 (h2, Inl e) \<Rightarrow> (s1, h2, Inl e)
                               | (h2, Inr r) \<Rightarrow>
                                   (s1, h2, Inr \<lparr>sr_applied = applied_count (so_applied r), sr_attempts = 1,
                                      sr_skippedWriters = so_skippedWriters r,
                                      sr_state = (if materializeAfterSync then h_cachedState h2 else None)\<rparr>)))))"

end
