(* ===== verification/ChainLaws.thy ===== *)
theory ChainLaws
  imports HandleCheckpoints BuiltPatches
begin

text \<open>
  What the loops of \<open>src/domain/warp/patch.methods.js\<close> read: \<open>_loadWriterPatches\<close> returns the commits
  of a walk along first parents, \<open>discoverWriters\<close> the writers whose refs exist, and both read the
  same from a store that has grown. One commit adds one patch to its writer's chain.
\<close>

section \<open>The walk of a writer\<close>

definition commit_patch :: "patch_reader \<Rightarrow> git_store \<Rightarrow> commit_info \<Rightarrow> load_error + patch" where
  "commit_patch rd s ci =
     bind_r (of_message (decodePatchMessage (rd_message rd) (ci_message ci))) (\<lambda>patchMeta.
       bind_r (readPatchBlob s patchMeta) (decode_patch rd))"

abbreviation patch_kind :: "patch_reader \<Rightarrow> commit_info \<Rightarrow> bool" where
  "patch_kind rd ci \<equiv> detectMessageKind (rd_message rd) (ci_message ci) = Some ''patch''"

inductive writer_walk :: "patch_reader \<Rightarrow> git_store \<Rightarrow> string option \<Rightarrow> string \<Rightarrow> entry list \<Rightarrow> bool"
  for rd s stop where
  walk_stop: "cur = [] \<or> Some cur = stop \<Longrightarrow> writer_walk rd s stop cur []"
| walk_other: "cur \<noteq> [] \<Longrightarrow> Some cur \<noteq> stop \<Longrightarrow> getNodeInfo s cur = Inr ci \<Longrightarrow> \<not> patch_kind rd ci \<Longrightarrow>
    writer_walk rd s stop cur []"
| walk_root: "cur \<noteq> [] \<Longrightarrow> Some cur \<noteq> stop \<Longrightarrow> getNodeInfo s cur = Inr ci \<Longrightarrow> patch_kind rd ci \<Longrightarrow>
    commit_patch rd s ci = Inr p \<Longrightarrow> first_parent ci = None \<Longrightarrow> writer_walk rd s stop cur [(p, cur)]"
| walk_step: "cur \<noteq> [] \<Longrightarrow> Some cur \<noteq> stop \<Longrightarrow> getNodeInfo s cur = Inr ci \<Longrightarrow> patch_kind rd ci \<Longrightarrow>
    commit_patch rd s ci = Inr p \<Longrightarrow> first_parent ci = Some parent \<Longrightarrow> writer_walk rd s stop parent ps \<Longrightarrow>
    writer_walk rd s stop cur ((p, cur) # ps)"

lemma load_writer_complete: "writer_walk rd s stop cur ps \<Longrightarrow> load_writer rd s stop cur acc = Some (Inr (acc @ ps))"
proof (induction arbitrary: acc rule: writer_walk.induct)
  case (walk_step cur ci p parent ps)
  then show ?case by (subst load_writer.simps) (simp add: commit_patch_def)
qed (subst load_writer.simps; force simp: commit_patch_def)+

lemma load_writer_run:
  "load_writer rd s stop cur acc = Some res \<Longrightarrow>
     \<forall>r. res = Inr r \<longrightarrow> (\<exists>ps. r = acc @ ps \<and> writer_walk rd s stop cur ps)"
proof (erule load_writer.raw_induct [where P = "\<lambda>rd s stop cur acc res.
      \<forall>r. res = Inr r \<longrightarrow> (\<exists>ps. r = acc @ ps \<and> writer_walk rd s stop cur ps)", rotated], intro allI impI)
  fix f rd s stop cur acc res r
  assume IH: "\<And>rd s stop cur acc res. f rd s stop cur acc = Some res \<Longrightarrow>
      \<forall>r. res = Inr r \<longrightarrow> (\<exists>ps. r = acc @ ps \<and> writer_walk rd s stop cur ps)"
    and step: "(if cur = [] \<or> Some cur = stop then Some (Inr acc)
      else (case of_store (getNodeInfo s cur) of
              Inl e \<Rightarrow> Some (Inl e)
            | Inr nodeInfo \<Rightarrow>
                if detectMessageKind (rd_message rd) (ci_message nodeInfo) \<noteq> Some ''patch'' then Some (Inr acc)
                else (case bind_r (of_message (decodePatchMessage (rd_message rd) (ci_message nodeInfo))) (\<lambda>patchMeta.
                             bind_r (readPatchBlob s patchMeta) (decode_patch rd)) of
                        Inl e \<Rightarrow> Some (Inl e)
                      | Inr p \<Rightarrow>
                          (case first_parent nodeInfo of
                             None \<Rightarrow> Some (Inr (acc @ [(p, cur)]))
                           | Some parent \<Rightarrow> f rd s stop parent (acc @ [(p, cur)]))))) = Some res"
    and res: "res = Inr r"
  show "\<exists>ps. r = acc @ ps \<and> writer_walk rd s stop cur ps"
  proof (cases "cur = [] \<or> Some cur = stop")
    case True
    then show ?thesis using step res writer_walk.walk_stop by auto
  next
    case False
    then obtain ci where ci: "getNodeInfo s cur = Inr ci"
      using step res by (cases "getNodeInfo s cur") auto
    show ?thesis
    proof (cases "patch_kind rd ci")
      case False
      then show ?thesis using step res ci \<open>\<not> (cur = [] \<or> Some cur = stop)\<close> writer_walk.walk_other [OF _ _ ci] by auto
    next
      case True
      then obtain p where p: "commit_patch rd s ci = Inr p"
        using step res ci \<open>\<not> (cur = [] \<or> Some cur = stop)\<close> unfolding commit_patch_def by (auto split: sum.splits)
      have c: "cur \<noteq> []" "Some cur \<noteq> stop" using \<open>\<not> (cur = [] \<or> Some cur = stop)\<close> by auto
      show ?thesis
      proof (cases "first_parent ci")
        case None
        then show ?thesis
          using step res ci p c True writer_walk.walk_root [OF c ci True p] by (auto simp: commit_patch_def)
      next
        case (Some parent)
        then have "f rd s stop parent (acc @ [(p, cur)]) = Some res"
          using step ci p c True by (simp add: commit_patch_def)
        from IH [OF this] res obtain ps where "r = (acc @ [(p, cur)]) @ ps" "writer_walk rd s stop parent ps" by blast
        then show ?thesis using writer_walk.walk_step [OF c ci True p Some] by fastforce
      qed
    qed
  qed
qed

lemma load_writer_iff: "load_writer rd s stop cur acc = Some (Inr r) \<longleftrightarrow> (\<exists>ps. r = acc @ ps \<and> writer_walk rd s stop cur ps)"
  using load_writer_run [of rd s stop cur acc "Inr r"] load_writer_complete [of rd s stop cur _ acc] by blast

lemma loadWriterPatches_iff:
  assumes "buildWriterRef g w = Inr ref" "ref_ok ref"
  shows "loadWriterPatches rd s g w stop = Some (Inr r) \<longleftrightarrow>
    (case ref_value s ref of None \<Rightarrow> r = [] | Some tip \<Rightarrow> writer_walk rd s stop tip (rev r))"
proof -
  have b: "bind_o x (\<lambda>ps. Some (Inr (rev ps))) = Some (Inr r) \<longleftrightarrow> x = Some (Inr (rev r))" for x :: "(load_error + entry list) option"
    by (cases x; cases "the x") auto
  have "readRef s ref = Inr (ref_value s ref)" using assms(2) by (simp add: readRef_def validateRef_def)
  then have "loadWriterPatches rd s g w stop = (case ref_value s ref of None \<Rightarrow> Some (Inr [])
      | Some tip \<Rightarrow> bind_o (load_writer rd s stop tip []) (\<lambda>ps. Some (Inr (rev ps))))"
    using assms(1) by (simp add: loadWriterPatches_def split: option.split)
  then show ?thesis by (auto simp: b load_writer_iff split: option.split)
qed

section \<open>A store that has grown\<close>

definition keeps_objects :: "git_store \<Rightarrow> git_store \<Rightarrow> bool" where
  "keeps_objects s s' \<longleftrightarrow> (\<forall>sha ci. getNodeInfo s sha = Inr ci \<longrightarrow> getNodeInfo s' sha = Inr ci) \<and>
     (\<forall>oid b. readBlob s oid = Inr b \<longrightarrow> readBlob s' oid = Inr b)"

lemma commit_patch_grown: "keeps_objects s s' \<Longrightarrow> commit_patch rd s ci = Inr p \<Longrightarrow> commit_patch rd s' ci = Inr p"
  by (auto simp: commit_patch_def bind_r_Inr_iff readPatchBlob_def keeps_objects_def split: if_splits)

lemma writer_walk_grown:
  assumes "keeps_objects s s'" "writer_walk rd s stop cur ps"
  shows "writer_walk rd s' stop cur ps"
  using assms(2)
proof (induction rule: writer_walk.induct)
  case (walk_step cur ci p parent ps)
  then show ?case
    using assms(1) commit_patch_grown [OF assms(1)] by (intro writer_walk.walk_step) (auto simp: keeps_objects_def)
qed (use assms(1) commit_patch_grown [OF assms(1)] in \<open>auto simp: keeps_objects_def intro: writer_walk.intros\<close>)

text \<open>Whatever a walk returns is what its commit holds.\<close>

lemma writer_walk_holds:
  "writer_walk rd s stop cur ps \<Longrightarrow> (p, c) \<in> set ps \<Longrightarrow> \<exists>ci. getNodeInfo s c = Inr ci \<and> commit_patch rd s ci = Inr p"
  by (induction rule: writer_walk.induct) auto

section \<open>The writers of a store\<close>

definition writer_names :: "string \<Rightarrow> git_store \<Rightarrow> string set" where
  "writer_names prefix s =
     {w. \<exists>ref\<in>set (map_keys (st_refs s)). starts_with ref prefix \<and> parseWriterIdFromRef (JStr ref) = Some w}"

lemma discoverWriters_iff:
  "(\<exists>ws. discoverWriters s g = Inr ws \<and> set ws = W) \<longleftrightarrow>
     (\<exists>prefix. buildWritersPrefix g = Inr prefix \<and> ref_ok prefix \<and> W = writer_names prefix s)"
proof -
  have s: "set (List.map_filter (\<lambda>refPath. parseWriterIdFromRef (JStr refPath)) refs) =
      {w. \<exists>ref\<in>set refs. parseWriterIdFromRef (JStr ref) = Some w}" for refs
    by (force simp: List.map_filter_def)
  have l: "listRefs s prefix None = Inr refs \<longleftrightarrow> ref_ok prefix \<and> refs = sort (filter (\<lambda>key. starts_with key prefix) (map_keys (st_refs s)))"
    for prefix refs by (auto simp: listRefs_def bind_r_Inr_iff)
  have "set (sort (List.map_filter (\<lambda>refPath. parseWriterIdFromRef (JStr refPath))
      (sort (filter (\<lambda>key. starts_with key prefix) (map_keys (st_refs s)))))) = writer_names prefix s" for prefix
    by (auto simp: s writer_names_def)
  then show ?thesis by (auto simp: discoverWriters_def bind_r_Inr_iff l)
qed

lemma writer_ref_found:
  assumes "buildWriterRef g w = Inr r" "buildWritersPrefix g = Inr prefix"
  shows "starts_with r prefix" "parseWriterIdFromRef (JStr r) = Some w"
proof -
  have "r = prefix @ w" using assms by (auto simp: buildWriterRef_def named_ref_def buildWritersPrefix_def graph_ref_def bind_r_Inr_iff)
  then show "starts_with r prefix" unfolding starts_with_def by (rule ssubst) (rule append_eq_conv_conj [THEN iffD1, THEN conjunct1, symmetric], rule refl)
qed (rule parse_build_writer [OF assms(1)])

lemma writer_names_set_ref:
  assumes "buildWriterRef g w = Inr r" "buildWritersPrefix g = Inr prefix" "st_refs s2 = st_refs s"
  shows "writer_names prefix (set_ref s2 r sha) = insert w (writer_names prefix s)"
proof -
  have "set (map_keys (st_refs (set_ref s2 r sha))) = insert r (set (map_keys (st_refs s)))"
    using dom_map_of_conv_image_fst [of "map_set (st_refs s) r sha"]
    by (simp add: set_ref_def assms(3) dom_map_of_conv_image_fst [symmetric])
  then show ?thesis using writer_ref_found [OF assms(1,2)] by (auto simp: writer_names_def simp del: set_map)
qed

lemma ref_of_known_writer:
  assumes "buildWriterRef g w = Inr r" "buildWritersPrefix g = Inr prefix" "w \<notin> writer_names prefix s"
  shows "ref_value s r = None"
proof -
  have "r \<notin> set (map_keys (st_refs s))" using assms(3) writer_ref_found [OF assms(1,2)] by (auto simp: writer_names_def)
  then have "map_of (st_refs s) r = None" by (simp add: map_of_eq_None_iff)
  then show ?thesis by (simp add: ref_value_def)
qed

section \<open>All patches\<close>

definition loaded :: "'r graph_config \<Rightarrow> git_store \<Rightarrow> string \<Rightarrow> entry list \<Rightarrow> bool" where
  "loaded cf s w q \<longleftrightarrow> loadWriterPatches (cf_reader cf) s (cf_graphName cf) w None = Some (Inr q)"

definition loaded_set :: "'r graph_config \<Rightarrow> git_store \<Rightarrow> string set \<Rightarrow> entry set" where
  "loaded_set cf s W = {x. \<exists>w\<in>W. \<exists>q. loaded cf s w q \<and> x \<in> set q}"

lemma all_of_writer_iff:
  "bind_o (all_of_writer cf s acc w) f = Some (Inr r) \<longleftrightarrow> (\<exists>q. loaded cf s w q \<and> f (acc @ q) = Some (Inr r))"
proof (cases "loadWriterPatches (cf_reader cf) s (cf_graphName cf) w None")
  case (Some x)
  then show ?thesis by (cases x) (auto simp: all_of_writer_def of_handle_o_def of_handle_load_def loaded_def)
qed (simp add: all_of_writer_def of_handle_o_def loaded_def)

lemma loaded_set_insert: "loaded cf s w q \<Longrightarrow> loaded_set cf s (insert w W) = set q \<union> loaded_set cf s W"
  by (auto simp: loaded_set_def loaded_def)

lemma loadAll_fold:
  "fold_o (all_of_writer cf s) acc ws = Some (Inr ps) \<Longrightarrow>
     (\<forall>w\<in>set ws. \<exists>q. loaded cf s w q) \<and> set ps = set acc \<union> loaded_set cf s (set ws)"
proof (induction ws arbitrary: acc)
  case (Cons w ws)
  then obtain q where q: "loaded cf s w q" "fold_o (all_of_writer cf s) (acc @ q) ws = Some (Inr ps)"
    by (auto simp: all_of_writer_iff)
  from Cons.IH [OF q(2)] q(1) show ?case by (simp add: loaded_set_insert [OF q(1)] Un_assoc) blast
qed (simp add: loaded_set_def)

lemma loadAll_total: "\<forall>w\<in>set ws. \<exists>q. loaded cf s w q \<Longrightarrow> \<exists>ps. fold_o (all_of_writer cf s) acc ws = Some (Inr ps)"
proof (induction ws arbitrary: acc)
  case (Cons w ws)
  then obtain q where "loaded cf s w q" by auto
  moreover obtain ps where "fold_o (all_of_writer cf s) (acc @ q) ws = Some (Inr ps)" using Cons by fastforce
  ultimately show ?case by (auto simp: all_of_writer_iff)
qed simp

lemma loaded_holds:
  assumes "loaded cf s w q" "(p, c) \<in> set q"
  shows "\<exists>ci. getNodeInfo s c = Inr ci \<and> commit_patch (cf_reader cf) s ci = Inr p"
proof -
  from assms(1) obtain ref where r: "buildWriterRef (cf_graphName cf) w = Inr ref" "ref_ok ref"
    unfolding loaded_def loadWriterPatches_def
    by (cases "buildWriterRef (cf_graphName cf) w") (auto simp: readRef_def bind_r_Inr_iff split: sum.splits)
  from assms show ?thesis
    unfolding loaded_def loadWriterPatches_iff [OF r]
    by (auto split: option.splits dest: writer_walk_holds)
qed

text \<open>Loaded patches are identified by their commits.\<close>

lemma loaded_sha_determines: "set ps \<subseteq> loaded_set cf s W \<Longrightarrow> sha_determines ps"
  unfolding sha_determines_def
proof (intro ballI impI)
  fix x y assume l: "set ps \<subseteq> loaded_set cf s W" and xy: "x \<in> set ps" "y \<in> set ps" "snd x = snd y"
  obtain w q where "loaded cf s w q" "x \<in> set q" using l xy(1) by (auto simp: loaded_set_def)
  then obtain ci where x: "getNodeInfo s (snd x) = Inr ci" "commit_patch (cf_reader cf) s ci = Inr (fst x)"
    using loaded_holds [of cf s w q "fst x" "snd x"] by auto
  obtain w' q' where "loaded cf s w' q'" "y \<in> set q'" using l xy(2) by (auto simp: loaded_set_def)
  then obtain ci' where "getNodeInfo s (snd y) = Inr ci'" "commit_patch (cf_reader cf) s ci' = Inr (fst y)"
    using loaded_holds [of cf s w' q' "fst y" "snd y"] by auto
  then show "x = y" using x xy(3) by (simp add: prod_eq_iff)
qed

end
