(* ===== verification/HandleLaws.thy ===== *)
theory HandleLaws
  imports HandleSync ChainLaws
begin

text \<open>
  An open graph as a state machine: the operations of a handle, and what other processes do to the
  store, are the steps; the reachable handles are those that a new one gets to. In a reachable handle
  whose cached state is clean the version vector is above the frontier of that state, so that the
  next patch draws fresh dots.
\<close>

section \<open>The steps of a handle\<close>

inductive handle_step ::
  "('r :: linorder) graph_config \<Rightarrow> git_store \<times> handle \<Rightarrow> git_store \<times> handle \<Rightarrow> bool" for cf where
  step_world: "handle_step cf (s, h) (s', h)"
| step_patch: "patch_handle cf h s fill = (s', h', r) \<Longrightarrow> handle_step cf (s, h) (s', h')"
| step_builder: "commit_handle cf h w s b = (s', h', b', r) \<Longrightarrow> handle_step cf (s, h) (s', h')"
| step_session: "session_commit cf h s se = (s', h', se', r) \<Longrightarrow> handle_step cf (s, h) (s', h')"
| step_materialize: "materialize cf s h receipts options = Some (s', h', m) \<Longrightarrow> handle_step cf (s, h) (s', h')"
| step_checkpoint: "createCheckpoint cf s h = Some (s', h', c) \<Longrightarrow> handle_step cf (s, h) (s', h')"
| step_at: "materializeAt cf s h sha = Some (h', a) \<Longrightarrow> handle_step cf (s, h) (s, h')"
| step_join: "join_handle h other = (h', j) \<Longrightarrow> handle_step cf (s, h) (s, h')"
| step_gc: "maybeRunGC cf h = (h', g) \<Longrightarrow> handle_step cf (s, h) (s, h')"
| step_run_gc: "runGC cf h = (h', g') \<Longrightarrow> handle_step cf (s, h) (s, h')"
| step_sync: "applySyncResponseWithGate h response gate = (h', o') \<Longrightarrow> handle_step cf (s, h) (s, h')"

definition reachable :: "('r :: linorder) graph_config \<Rightarrow> git_store \<Rightarrow> handle \<Rightarrow> bool" where
  "reachable cf s h \<longleftrightarrow> (\<exists>s0. (handle_step cf)\<^sup>*\<^sup>* (s0, newHandle) (s, h))"

section \<open>The vector covers a clean state\<close>

definition vector_covers :: "handle \<Rightarrow> bool" where
  "vector_covers h \<longleftrightarrow> h_vv h < length (h_vectors h) \<and>
     (\<forall>st w. h_cachedState h = Some st \<longrightarrow> \<not> h_stateDirty h \<longrightarrow> vv_get (observedFrontier st) w \<le> vv_get (own_vector h) w)"

lemma vector_frame [simp]:
  "own_vector (h\<lparr>h_cachedState := a\<rparr>) = own_vector h" "own_vector (h\<lparr>h_stateDirty := b\<rparr>) = own_vector h"
  "own_vector (h\<lparr>h_adjacency := c\<rparr>) = own_vector h" "own_vector (h\<lparr>h_maxObservedLamport := d\<rparr>) = own_vector h"
  "own_vector (h\<lparr>h_patchesSinceCheckpoint := e\<rparr>) = own_vector h" "own_vector (h\<lparr>h_patchesSinceGC := f\<rparr>) = own_vector h"
  "own_vector (h\<lparr>h_lastGCTime := g\<rparr>) = own_vector h" "own_vector (h\<lparr>h_lastFrontier := i\<rparr>) = own_vector h"
  "own_vector (h\<lparr>h_provenanceIndex := j\<rparr>) = own_vector h" "own_vector (h\<lparr>h_provenanceDegraded := k\<rparr>) = own_vector h"
  "own_vector (h\<lparr>h_cachedCeiling := l\<rparr>) = own_vector h" "own_vector (h\<lparr>h_cachedFrontier := m\<rparr>) = own_vector h"
  "own_vector (h\<lparr>h_patchInProgress := n\<rparr>) = own_vector h" "own_vector (h\<lparr>h_checkpointing := q\<rparr>) = own_vector h"
  by (simp_all add: own_vector_def vector_at_def)

lemma covers_frame [simp]:
  "vector_covers (h\<lparr>h_adjacency := c\<rparr>) = vector_covers h" "vector_covers (h\<lparr>h_maxObservedLamport := d\<rparr>) = vector_covers h"
  "vector_covers (h\<lparr>h_patchesSinceCheckpoint := e\<rparr>) = vector_covers h" "vector_covers (h\<lparr>h_patchesSinceGC := f\<rparr>) = vector_covers h"
  "vector_covers (h\<lparr>h_lastGCTime := g\<rparr>) = vector_covers h" "vector_covers (h\<lparr>h_lastFrontier := i\<rparr>) = vector_covers h"
  "vector_covers (h\<lparr>h_provenanceIndex := j\<rparr>) = vector_covers h" "vector_covers (h\<lparr>h_provenanceDegraded := k\<rparr>) = vector_covers h"
  "vector_covers (h\<lparr>h_cachedCeiling := l\<rparr>) = vector_covers h" "vector_covers (h\<lparr>h_cachedFrontier := m\<rparr>) = vector_covers h"
  "vector_covers (h\<lparr>h_patchInProgress := n\<rparr>) = vector_covers h" "vector_covers (h\<lparr>h_checkpointing := q\<rparr>) = vector_covers h"
  by (simp_all add: vector_covers_def)

lemma covers_installed: "h_cachedState h = Some st \<Longrightarrow> vv = observedFrontier st \<Longrightarrow> vector_covers (install_vector h vv)"
  by (simp add: vector_covers_def) (simp add: install_vector_def)

lemma covers_set [simp]: "vector_covers (setMaterializedState h st)"
  unfolding setMaterializedState_def covers_frame
  by (rule covers_installed [where st = st]) (simp_all add: vvClone_def)

lemma covers_joined:
  "vv = observedFrontier m \<Longrightarrow>
     vector_covers ((install_vector (h\<lparr>h_cachedState := Some m\<rparr>) vv)\<lparr>h_adjacency := x, h_stateDirty := False\<rparr>)"
  by (simp add: vector_covers_def) (simp add: install_vector_def)

lemma covers_dirty: "vector_covers h \<Longrightarrow> vector_covers (h\<lparr>h_stateDirty := True\<rparr>)"
  by (simp add: vector_covers_def)

lemma covers_same_frontier:
  "vector_covers h \<Longrightarrow> h_cachedState h = Some st \<Longrightarrow> observedFrontier st' = observedFrontier st \<Longrightarrow>
     vector_covers (h\<lparr>h_cachedState := Some st'\<rparr>)"
  by (simp add: vector_covers_def)

lemma covers_bump: "vector_covers h \<Longrightarrow> vector_covers (bump_vector h w)"
proof -
  assume c: "vector_covers h"
  then have v: "own_vector (bump_vector h w) = fst (vvIncrement (own_vector h) w)"
    by (simp add: vector_covers_def own_vector_def vector_at_def bump_vector_def)
  have "vv_get (own_vector h) x \<le> vv_get (own_vector (bump_vector h w)) x" for x
    unfolding v by (simp add: vvIncrement_def Let_def vv_get_def update_conv')
  moreover have "h_cachedState (bump_vector h w) = h_cachedState h" "h_stateDirty (bump_vector h w) = h_stateDirty h"
    "h_vv (bump_vector h w) = h_vv h" "length (h_vectors (bump_vector h w)) = length (h_vectors h)"
    by (simp_all add: bump_vector_def)
  ultimately show ?thesis using c unfolding vector_covers_def by (metis order_trans)
qed

lemma newHandle_covers: "vector_covers newHandle"
  by (simp add: vector_covers_def newHandle_def)

section \<open>Every step keeps it\<close>

lemma diff_step_frontier: "diff_step p sha acc iop = Inr acc' \<Longrightarrow> observedFrontier (fst acc') = observedFrontier (fst acc)"
  by (auto simp: diff_step_def bind_r_Inr_iff Let_def applyOpV2_effect)

lemma partly_applied_frontier: "observedFrontier (partly_applied st p sha) = observedFrontier st"
proof -
  have "observedFrontier (fst (fold_until (diff_step p sha) acc iops)) = observedFrontier (fst acc)" for acc iops
    by (induction iops arbitrary: acc) (auto split: sum.split dest: diff_step_frontier)
  then show ?thesis by (simp add: partly_applied_def)
qed

lemma count_commit_covers: "vector_covers h \<Longrightarrow> vector_covers (count_commit h w p)"
  by (simp add: count_commit_def Let_def covers_bump)

lemma onPatchCommitted_covers:
  assumes "vector_covers h"
  shows "vector_covers (fst (onPatchCommitted h w p sha))"
proof -
  let ?h = "count_commit h w p"
  have c: "vector_covers ?h" using assms by (rule count_commit_covers)
  show ?thesis
  proof (cases "h_cachedState ?h")
    case None
    then show ?thesis using c by (simp add: onPatchCommitted_def Let_def covers_dirty)
  next
    case (Some st)
    have "vector_covers (?h\<lparr>h_cachedState := Some (partly_applied st p sha)\<rparr>)"
      by (rule covers_same_frontier [OF c Some partly_applied_frontier])
    then show ?thesis
      using c Some by (auto simp: onPatchCommitted_def Let_def covers_dirty follow_commit_def split: sum.split)
  qed
qed

lemma commit_handle_covers:
  "vector_covers h \<Longrightarrow> commit_handle cf h w s b = (s', h', b', r) \<Longrightarrow> vector_covers h'"
  by (auto simp: commit_handle_def onPatchCommitted_covers split: prod.splits sum.splits)

lemma patch_handle_covers: "vector_covers h \<Longrightarrow> patch_handle cf h s fill = (s', h', r) \<Longrightarrow> vector_covers h'"
  by (auto simp: patch_handle_def Let_def split: if_splits prod.splits sum.splits dest!: commit_handle_covers [rotated])

lemma session_commit_covers: "vector_covers h \<Longrightarrow> session_commit cf h s se = (s', h', se', r) \<Longrightarrow> vector_covers h'"
  by (auto simp: session_commit_def split: if_splits prod.splits sum.splits dest: commit_handle_covers [rotated])

lemma compacted_frontier: "compacted st = Inr (st', r) \<Longrightarrow> observedFrontier st' = observedFrontier st"
  by (auto simp: compacted_def bind_r_Inr_iff Let_def elim!: executeGC_cases)

lemma swap_covers:
  "vector_covers h \<Longrightarrow> h_cachedState h = Some st \<Longrightarrow> compacted st = Inr (st', r) \<Longrightarrow> vector_covers (swap_compacted cf h st')"
  by (simp add: swap_compacted_def covers_same_frontier compacted_frontier)

lemma runGC_covers: "vector_covers h \<Longrightarrow> runGC cf h = (h', r) \<Longrightarrow> vector_covers h'"
  by (auto simp: runGC_def swap_covers split: option.splits sum.splits prod.splits)

lemma maybeRunGC_covers: "vector_covers h \<Longrightarrow> maybeRunGC cf h = (h', r) \<Longrightarrow> vector_covers h'"
  by (auto simp: maybeRunGC_def Let_def split: option.splits sum.splits prod.splits if_splits dest: runGC_covers)

lemma autoGC_covers: "vector_covers h \<Longrightarrow> h_cachedState h = Some st \<Longrightarrow> vector_covers (autoGC cf h st)"
  by (auto simp: autoGC_def swap_covers split: sum.split)

lemma scans_cover [simp]:
  "vector_covers (scanPatchesForMaxLamport h ps) = vector_covers h"
  "vector_covers (scanFrontierForMaxLamport cf s h fr) = vector_covers h"
  by (simp_all add: scanPatchesForMaxLamport_def scanFrontierForMaxLamport_def)

lemma collected_covers:
  "vector_covers h \<Longrightarrow> from_checkpoint cf s h rc cp = Some (h', r) \<Longrightarrow> vector_covers h'"
  "vector_covers h \<Longrightarrow> from_writers cf s h rc = Some (h', r) \<Longrightarrow> vector_covers h'"
  by (auto simp: from_checkpoint_def from_writers_def Let_def split: option.splits sum.splits if_splits prod.splits)

lemma ceiling_covers:
  "vector_covers h \<Longrightarrow> materializeWithCeiling cf s h c rc = Some (h', r) \<Longrightarrow> vector_covers h'"
  unfolding materializeWithCeiling_def Let_def install_ceiling_def
  by (auto split: option.splits sum.splits if_splits prod.splits)

definition auto_keeps :: "(git_store \<Rightarrow> handle \<Rightarrow> nat \<Rightarrow> (git_store \<times> handle) option) \<Rightarrow> bool" where
  "auto_keeps auto \<longleftrightarrow> (\<forall>s h n s' h'. auto s h n = Some (s', h') \<longrightarrow> h_cachedState h \<noteq> None \<longrightarrow> \<not> h_stateDirty h \<longrightarrow>
     (\<exists>k. h' = h\<lparr>h_patchesSinceCheckpoint := k\<rparr>))"

lemma materialize_with_covers:
  assumes "auto_keeps auto" "vector_covers h" "materialize_with auto cf s h rc options = Some (s', h', r)"
  shows "vector_covers h'"
proof (cases "resolveCeiling h options")
  case (Some c)
  then show ?thesis using assms by (auto simp: materialize_with_def intro: ceiling_covers)
next
  case None
  note m = assms(3) [unfolded materialize_with_def None option.case]
  obtain ck where ck: "loadLatestCheckpoint cf s = Inr ck \<or> h' = h" using m by (auto split: sum.splits)
  show ?thesis
  proof (cases "h' = h")
    case False
    then have l: "loadLatestCheckpoint cf s = Inr ck" using ck by simp
    obtain h1 r1 where c: "(case ck of Some cp \<Rightarrow> from_checkpoint cf s h rc cp | None \<Rightarrow> from_writers cf s h rc) = Some (h1, r1)"
      using m l by (auto split: option.splits)
    have c1: "vector_covers h1" using c assms(2) by (auto split: option.splits intro: collected_covers)
    show ?thesis
    proof (cases r1)
      case (Inl e)
      then show ?thesis using m l c c1 by simp
    next
      case (Inr mt)
      let ?h2 = "(setMaterializedState h1 (mat_state mt))
        \<lparr>h_provenanceDegraded := False, h_cachedCeiling := None, h_cachedFrontier := None\<rparr>"
      show ?thesis
      proof (cases "getFrontier s (cf_graphName cf)")
        case (Inl e)
        then show ?thesis using m l c Inr by (simp add: Let_def) (auto simp: Let_def)
      next
        case fr: (Inr fr)
        let ?h3 = "?h2\<lparr>h_lastFrontier := Some fr, h_patchesSinceCheckpoint := mat_patchCount mt\<rparr>"
        obtain h4 where a: "auto s ?h3 (mat_patchCount mt) = Some (s', h4)" "h' = autoGC cf h4 (mat_state mt)"
          using m l c Inr fr by (auto simp: Let_def split: option.splits)
        moreover have "h_cachedState ?h3 = Some (mat_state mt)" "\<not> h_stateDirty ?h3" by simp_all
        ultimately obtain k where "h4 = ?h3\<lparr>h_patchesSinceCheckpoint := k\<rparr>"
          using assms(1) unfolding auto_keeps_def by blast
        then have "vector_covers h4" "h_cachedState h4 = Some (mat_state mt)" by simp_all
        then show ?thesis using a(2) autoGC_covers by blast
      qed
    qed
  qed (use assms(2) in simp)
qed

lemma clean_checkpoint_state:
  assumes "h_cachedState h = Some st" "\<not> h_stateDirty h" "createCheckpoint cf s h = Some (s', h', r)"
  shows "h' = h"
  using assms by (auto simp: createCheckpoint_def state_for_checkpoint_def split: sum.splits prod.splits)

lemma autoCheckpoint_keeps: "auto_keeps (autoCheckpoint cf)"
  unfolding auto_keeps_def
proof (intro allI impI)
  fix s h n s' h'
  assume a: "autoCheckpoint cf s h n = Some (s', h')" "h_cachedState h \<noteq> None" "\<not> h_stateDirty h"
  obtain st where st: "h_cachedState h = Some st" using a(2) by auto
  have "h' = h \<or> h' = h\<lparr>h_patchesSinceCheckpoint := 0\<rparr>"
  proof (cases "autoCheckpoint cf s h n = Some (s, h)")
    case False
    then obtain hc r where c: "createCheckpoint cf s h = Some (s', hc, r)"
        "h' = (case r of Inl _ \<Rightarrow> hc | Inr _ \<Rightarrow> hc\<lparr>h_patchesSinceCheckpoint := 0\<rparr>)"
      using a(1) by (auto simp: autoCheckpoint_def split: option.splits if_splits)
    moreover have "hc = h" by (rule clean_checkpoint_state [OF st a(3) c(1)])
    ultimately show ?thesis by (cases r) simp_all
  qed (use a(1) in simp)
  moreover have "h = h\<lparr>h_patchesSinceCheckpoint := h_patchesSinceCheckpoint h\<rparr>" by simp
  ultimately show "\<exists>k. h' = h\<lparr>h_patchesSinceCheckpoint := k\<rparr>" by blast
qed

lemma no_auto_keeps: "auto_keeps (\<lambda>s h n. Some (s, h))"
  unfolding auto_keeps_def
proof (intro allI impI)
  fix s h n s' h' assume "Some (s, h) = Some (s', h' :: handle)"
  then have "h' = h\<lparr>h_patchesSinceCheckpoint := h_patchesSinceCheckpoint h\<rparr>" by simp
  then show "\<exists>k. h' = h\<lparr>h_patchesSinceCheckpoint := k\<rparr>" by blast
qed

lemma materialize_covers: "vector_covers h \<Longrightarrow> materialize cf s h rc options = Some (s', h', r) \<Longrightarrow> vector_covers h'"
  unfolding materialize_def by (rule materialize_with_covers [OF autoCheckpoint_keeps])

lemma state_for_checkpoint_covers:
  assumes "vector_covers h" "state_for_checkpoint cf s h = Some (s1, h1, r)"
  shows "vector_covers h1"
proof (cases "h_cachedState h \<noteq> None \<and> \<not> h_stateDirty h")
  case True
  then show ?thesis using assms by (simp add: state_for_checkpoint_def)
next
  case False
  then obtain h2 r2 where
    "materialize_with (\<lambda>s h n. Some (s, h)) cf s (h\<lparr>h_checkpointing := True\<rparr>) False None = Some (s1, h2, r2)"
    "h1 = h2\<lparr>h_checkpointing := h_checkpointing h\<rparr>"
    using assms(2) by (auto simp: state_for_checkpoint_def)
  then show ?thesis using materialize_with_covers [OF no_auto_keeps, of "h\<lparr>h_checkpointing := True\<rparr>"] assms(1) by simp
qed

lemma createCheckpoint_covers: "vector_covers h \<Longrightarrow> createCheckpoint cf s h = Some (s', h', r) \<Longrightarrow> vector_covers h'"
  by (auto simp: createCheckpoint_def split: sum.splits option.splits prod.splits dest: state_for_checkpoint_covers)

lemma other_covers:
  "vector_covers h \<Longrightarrow> materializeAt cf s h sha = Some (h', a) \<Longrightarrow> vector_covers h'"
  "vector_covers h \<Longrightarrow> join_handle h other = (h', j) \<Longrightarrow> vector_covers h'"
  "vector_covers h \<Longrightarrow> applySyncResponseWithGate h response gate = (h', o') \<Longrightarrow> vector_covers h'"
proof -
  show "vector_covers h \<Longrightarrow> materializeAt cf s h sha = Some (h', a) \<Longrightarrow> vector_covers h'"
    by (auto simp: materializeAt_def split: sum.splits option.splits)
  show "vector_covers h \<Longrightarrow> applySyncResponseWithGate h response gate = (h', o') \<Longrightarrow> vector_covers h'"
    by (auto simp: applySyncResponseWithGate_def Let_def split: sum.splits option.splits if_splits)
  show "vector_covers h \<Longrightarrow> join_handle h other = (h', j) \<Longrightarrow> vector_covers h'"
    by (auto simp: join_handle_def Let_def vvClone_def split: option.splits intro!: covers_joined)
qed

lemma handle_step_covers: "handle_step cf x y \<Longrightarrow> vector_covers (snd x) \<Longrightarrow> vector_covers (snd y)"
  by (induction rule: handle_step.induct)
    (auto intro: patch_handle_covers commit_handle_covers session_commit_covers materialize_covers createCheckpoint_covers other_covers
      maybeRunGC_covers runGC_covers)

theorem reachable_covers: "reachable cf s h \<Longrightarrow> vector_covers h"
proof -
  have "(handle_step cf)\<^sup>*\<^sup>* x y \<Longrightarrow> vector_covers (snd x) \<Longrightarrow> vector_covers (snd y)" for x y
    by (induction rule: rtranclp_induct) (auto intro: handle_step_covers)
  then show "reachable cf s h \<Longrightarrow> vector_covers h"
    using newHandle_covers unfolding reachable_def by fastforce
qed

end
