(* ===== verification/CommitChains.thy ===== *)
theory CommitChains
  imports ChainLaws
begin

text \<open>
  One commit of a handle adds one patch to the chain of its writer, and what is loaded afterwards is
  what was loaded before with that patch. The store keeps its objects, that is, no two contents had
  the same object id; the codecs return what they were given.
\<close>

section \<open>What a commit leaves in the store\<close>

lemma write_commit_st_refs: "write_commit env s b plan = (s', r) \<Longrightarrow> st_refs s' = st_refs s"
proof -
  assume w: "write_commit env s b plan = (s', r)"
  have t: "writeTree h s1 ls = Inr (s2, tree) \<Longrightarrow> st_refs s2 = st_refs s1" for h s1 ls s2 tree
    by (auto simp: writeTree_def bind_r_Inr_iff put_tree_def Let_def)
  have c: "commitNodeWithTree h a d s1 tr ps m = Inr (s2, sha) \<Longrightarrow> st_refs s2 = st_refs s1" for h a d s1 tr ps m s2 sha
    by (auto simp: commitNodeWithTree_def bind_r_Inr_iff put_commit_def Let_def)
  have b: "writeBlob h s0 x = (s1, blob) \<Longrightarrow> st_refs s1 = st_refs s0" for h s0 x s1 blob
    by (auto simp: writeBlob_def Let_def)
  show ?thesis
    using w by (auto simp: write_commit_def Let_def split: sum.splits prod.splits dest!: t c b)
qed

lemma commit_handle_okE:
  assumes "commit_handle cf h w s b = (s', h', b', Inr sha)"
  obtains plan p s2 where "plan_commit (env_decodeMsg (cf_env cf)) s b = Inr plan" "published (cf_env cf) s' b plan p sha"
    "st_refs s2 = st_refs s" "s' = set_ref s2 (plan_ref plan) sha" "ref_ok (plan_ref plan)" "oid_ok sha"
    "h' = fst (onPatchCommitted h w p sha)"
proof -
  let ?env = "cf_env cf"
  from assms obtain b1 plan s2 p b2 where cb: "commit_begin ?env s b = (b1, Inr plan)"
    and co: "commit_objects ?env s b1 plan = (s2, b2, Inr (p, sha))"
    and cp: "commit_publish s2 b2 plan sha = (s', b', Inr sha)"
    and h: "h' = fst (onPatchCommitted h w p sha)"
    by (auto simp: commit_handle_def commit_publish_def split: prod.splits sum.splits)
  note b1 = commit_begin_ok [OF cb]
  from co have w: "write_commit ?env s b1 plan = (s2, Inr (p, sha))" and b2: "b2 = b1"
    by (auto simp: commit_objects_def split: prod.splits sum.splits)
  have u: "s' = set_ref s2 (plan_ref plan) sha" "ref_ok (plan_ref plan)" "oid_ok sha"
    using cp by (auto simp: commit_publish_def updateRef_ok split: sum.splits)
  show ?thesis
    using that [OF b1(4) _ write_commit_st_refs [OF w] u h] write_commit_published [OF w] u(1) b1(3) by simp
qed

definition codecs_return :: "'r graph_config \<Rightarrow> patch \<Rightarrow> bool" where
  "codecs_return cf p \<longleftrightarrow> cf_readPatch cf (env_encode (cf_env cf) p) = Some p \<and>
     (\<forall>title ts. env_decodeMsg (cf_env cf) (env_encodeMsg (cf_env cf) title ts) = Inr ts)"

lemma published_reads_back:
  assumes "published (cf_env cf) s b plan p sha" "oid_ok sha" "codecs_return cf p"
  obtains ci where "getNodeInfo s sha = Inr ci" "patch_kind (cf_reader cf) ci" "commit_patch (cf_reader cf) s ci = Inr p"
    "ci_parents ci = parents_of plan"
proof -
  from assms(1,2) obtain blob ci where r: "readBlob s blob = Inr (env_encode (cf_env cf) p)" "ci_parents ci = parents_of plan"
      "encodePatchMessage (env_encodeMsg (cf_env cf)) (message_of b plan p blob) = Inr (ci_message ci)" "getNodeInfo s sha = Inr ci"
    by (auto simp: published_def)
  let ?m = "message_of b plan p blob"
  have d: "env_decodeMsg (cf_env cf) (ci_message ci) = Inr (patch_trailers ?m)"
    using r(3) assms(3) by (auto simp: encodePatchMessage_ok codecs_return_def)
  have dec: "decodePatchMessage (env_decodeMsg (cf_env cf)) (ci_message ci) = Inr ?m"
    by (rule decode_encode_patch [where enc = "env_encodeMsg (cf_env cf)"]) (use r(3) d in simp_all)
  have k: "map_of (patch_trailers ?m) (trailer_key ''kind'') = Some ''patch''" by (simp add: patch_trailers_def)
  have kind: "patch_kind (cf_reader cf) ci"
    using d k by (simp add: cf_reader_def detectMessageKind_def)
  have "commit_patch (cf_reader cf) s ci = Inr p"
    using dec r(1) assms(3)
    by (simp add: commit_patch_def cf_reader_def readPatchBlob_def decode_patch_def message_of_def codecs_return_def)
  then show ?thesis using that r(2,4) kind by blast
qed

lemma own_chain_grows:
  assumes "plan_commit (env_decodeMsg (cf_env cf)) s b = Inr plan" "published (cf_env cf) s' b plan p sha" "oid_ok sha"
    and "s' = set_ref s2 (plan_ref plan) sha" "keeps_objects s s'" "codecs_return cf p"
    and "b_graphName b = cf_graphName cf" "loaded cf s (b_writerId b) q"
  shows "loaded cf s' (b_writerId b) (q @ [(p, sha)])"
proof -
  note plan = plan_commit_ok [OF assms(1)]
  let ?r = "plan_ref plan"
  have r: "buildWriterRef (cf_graphName cf) (b_writerId b) = Inr ?r" using plan(2) assms(7) by simp
  have ok: "ref_ok ?r"
    using assms(8) r unfolding loaded_def loadWriterPatches_def
    by (auto simp: readRef_def bind_r_Inr_iff split: sum.splits)
  obtain ci where ci: "getNodeInfo s' sha = Inr ci" "patch_kind (cf_reader cf) ci" "commit_patch (cf_reader cf) s' ci = Inr p"
      "ci_parents ci = parents_of plan"
    by (rule published_reads_back [OF assms(2,3,6)])
  have ne: "sha \<noteq> []" by (rule oid_ok_nonempty [OF assms(3)])
  have v: "ref_value s' ?r = Some sha" using ne assms(4) by (simp add: refs.read_write assms(3))
  have "writer_walk (cf_reader cf) s' None sha ((p, sha) # rev q)"
  proof (cases "ref_value s ?r")
    case None
    then have "q = []" "first_parent ci = None"
      using assms(8) ci(4) plan(3,4) unfolding loaded_def loadWriterPatches_iff [OF r ok]
      by (simp_all add: parents_of_def first_parent_def)
    then show ?thesis using writer_walk.walk_root [OF ne _ ci(1,2,3)] by simp
  next
    case (Some tip)
    then have w: "writer_walk (cf_reader cf) s None tip (rev q)" and f: "first_parent ci = Some tip"
      using assms(8) ci(4) plan(3,4) unfolding loaded_def loadWriterPatches_iff [OF r ok]
      by (simp_all add: parents_of_def first_parent_def)
    show ?thesis using writer_walk.walk_step [OF ne _ ci(1,2,3) f writer_walk_grown [OF assms(5) w]] by simp
  qed
  then show ?thesis unfolding loaded_def loadWriterPatches_iff [OF r ok] by (simp add: v)
qed

lemma other_chain_stays:
  assumes "loaded cf s w q" "buildWriterRef (cf_graphName cf) me = Inr r" "w \<noteq> me" "keeps_objects s s'"
    and "s' = set_ref s2 r sha" "st_refs s2 = st_refs s"
  shows "loaded cf s' w q"
proof -
  from assms(1) obtain ref where ref: "buildWriterRef (cf_graphName cf) w = Inr ref" "ref_ok ref"
    unfolding loaded_def loadWriterPatches_def
    by (cases "buildWriterRef (cf_graphName cf) w") (auto simp: readRef_def bind_r_Inr_iff split: sum.splits)
  have "ref \<noteq> r"
    using build_ref_inj [of "WriterRef w" "cf_graphName cf" ref "WriterRef me" "cf_graphName cf"] ref(1) assms(2,3) by auto
  then have "ref_value s' ref = ref_value s ref"
    using assms(5,6) by (simp add: refs.read_other) (simp add: ref_value_def)
  then show ?thesis
    using assms(1) writer_walk_grown [OF assms(4)] unfolding loaded_def loadWriterPatches_iff [OF ref]
    by (auto split: option.splits)
qed

end
