(* ===== verification/Spec2Isabelle.thy ===== *)
theory Spec2Isabelle
  imports StateDiffs Compaction Frontier TraversalResults SyncResults CheckpointResults ProvenanceResults
    HandleSync ChainLaws HandleLaws CommitChains
begin

text \<open>
  A verification development for git-warp (the repository \<open>git-stunts/empty-graph\<close>): a multi-writer
  graph database stored in Git refs, whose replicas converge because every patch is a set of
  operations on conflict-free replicated data types. Paths below are relative to the package root of
  the repository, where \<open>src/domain\<close> holds the program's core.

  \<^bold>\<open>How the parts interact.\<close> A writer collects operations in a \<open>PatchBuilderV2\<close>: an add draws a fresh dot
  from the builder's version vector, a remove observes the dots of a snapshot of the materialised
  state. A commit encodes the patch, writes it as a blob, a tree and a commit of the persistence
  port, and moves the writer's ref. A reader walks the refs and reduces the patches into a
  \<open>WarpStateV5\<close>: two OR-sets, last-writer-wins registers, a version vector and birth events. The
  state is compared (\<open>StateDiff\<close>), hashed (\<open>StateSerializerV5\<close>) and compacted (\<open>GCPolicy\<close>).

  \<^bold>\<open>Theories and the code they model.\<close>
  \<^item> \<open>Prelude\<close>: results and errors, JavaScript's \<open>Map\<close>, \<open>Set\<close> and plain objects as lists in insertion
    order, folds that stop at a throw. \<open>JsStrings\<close>, \<open>JsonText\<close>: what the source uses of the language's
    strings, integers, stable sort and \<open>JSON.stringify\<close>.
  \<^item> \<open>Crdt_Spec\<close>: the contracts \<open>join_crdt\<close> and \<open>op_crdt\<close> as locales.
  \<^item> \<open>Dots\<close>, \<open>VersionVector\<close>, \<open>ORSet\<close>, \<open>EventIds\<close>: \<open>crdt/Dot.js\<close>, \<open>crdt/VersionVector.js\<close>,
    \<open>crdt/ORSet.js\<close>, \<open>utils/EventId.js\<close> with \<open>crdt/LWW.js\<close>; \<open>ORSetLaws\<close> their laws.
  \<^item> \<open>KeyCodec\<close>, \<open>Ops\<close>: \<open>services/KeyCodec.js\<close>; \<open>types/WarpTypesV2.js\<close> with \<open>services/OpNormalizer.js\<close>.
  \<^item> \<open>JoinReducer\<close>, \<open>TickReceipts\<close>, \<open>PatchDiffs\<close>, \<open>Reduction\<close>: \<open>services/JoinReducer.js\<close>,
    \<open>types/TickReceipt.js\<close> and \<open>types/PatchDiff.js\<close>; \<open>Convergence\<close>, \<open>Observation\<close>, \<open>ReductionLaws\<close>,
    \<open>Replicas\<close> what holds of them.
  \<^item> \<open>Visibility\<close>, \<open>StateDiffs\<close>, \<open>Compaction\<close>, \<open>Frontier\<close>: \<open>services/StateSerializerV5.js\<close>,
    \<open>services/StateDiff.js\<close>, \<open>services/GCMetrics.js\<close> with \<open>GCPolicy.js\<close>, \<open>services/Frontier.js\<close>.
  \<^item> \<open>RefLayout\<close>, \<open>Messages\<close>, \<open>GitStore\<close>: \<open>utils/RefLayout.js\<close>; the message codecs and the schema
    detector; \<open>infrastructure/adapters/InMemoryGraphAdapter.js\<close> with \<open>adapterValidation.js\<close>.
  \<^item> \<open>PatchBuilder\<close>: \<open>services/PatchBuilderV2.js\<close>; \<open>BuilderLaws\<close>, \<open>CommitLaws\<close>, \<open>BuiltPatches\<close> what holds
    of the builder, of its commit against the store, and of its patches against the reducer.
  \<^item> this theory: the properties that matter to a user of the program, most of them across parts.

  \<^bold>\<open>How state and operations correspond to the code.\<close> A definition carries the name of the function it
  translates (a clash with a constant of the library, or a helper loop, has a name of its own), takes
  its arguments and returns its result; a function that mutates an argument returns the new value. A
  throw is \<open>Inl\<close> of an error that names the check, a normal return is \<open>Inr\<close>. A JavaScript \<open>Map\<close> is an
  association list with one entry per key, a \<open>Set\<close> a list without duplicates, both in insertion
  order; iteration is a fold over that list. Methods of a builder are functions from the builder to
  the builder and a result, and a throw keeps what was mutated before it.

  \<^bold>\<open>What the lemmas show.\<close> Each component's invariant is preserved by each of its operations. \<open>abs\<close>
  functions (\<open>orset_abs\<close>, \<open>state_abs\<close>, the \<open>map_of\<close> of a vector) say what a reader observes; the
  CRDT locales are interpreted on the code's own joins, and convergence follows. The rest: exactness
  of receipts and diffs, freshness of dots, snapshot isolation and exactness of removals, the commit
  protocol and its race, canonical serialisation, injectivity of keys, refs and fingerprints.

  \<^bold>\<open>Bounds.\<close> Every loop of the modelled code ranges over a finite collection, and is a structural fold:
  no fuel is used. Counters and Lamport times are mathematical integers, which agrees with the
  code below \<open>2 ^ 53\<close>. A string is a list of code units below 256.

  \<^bold>\<open>Conventions and parameters.\<close> Values have no identity: a defensive copy is the identity. The CBOR
  codec, the trailer codec, the hash functions, the clock, the author and division on doubles are
  parameters of the definitions that use them; what the code relies on stands as a hypothesis of the
  theorem (a trailer codec returns the trailers it was given). \<open>writer\<close> and \<open>lamport\<close> of a patch
  are a string and an integer, as the typedef says. Properties of plain objects whose names
  look like array indices keep their insertion order here. The optional blob storages of the
  patch builder are absent, and its success callback only reports.

  \<^bold>\<open>Not modelled.\<close> The graph facade with its caching and subscriptions, synchronisation, checkpoints,
  provenance, traversal, queries, bitmap indexes, audit and trust services, whose core the manifest
  lists; adapters to Git, HTTP, WebSockets and the crypto libraries of the runtimes, the command line
  and the renderers, which are input and output.
\<close>

section \<open>Reduction and convergence\<close>

text \<open>
  C1. Strong convergence: two replicas that replay the same set of patches, in any order and with
  any repetition, succeed and reach the same observable state, provided that a patch is identified
  by its SHA and each patch applies on its own.
\<close>

theorem reduceV5_converges:
  assumes "sha_determines ps" "\<forall>x\<in>set ps. applicable x" "set ps = set qs"
  shows "\<exists>s t. reduceV5 ps None None = Inr (ReducedState s) \<and> reduceV5 qs None None = Inr (ReducedState t) \<and>
    state_abs s = state_abs t"
proof -
  obtain s t where "fold_r apply_entry createEmptyStateV5 ps = Inr s" "fold_r apply_entry createEmptyStateV5 qs = Inr t"
    and e: "state_abs s = state_abs t"
    by (rule replicas_agree [OF assms])
  then have "reduceV5 ps None None = Inr (ReducedState s)" "reduceV5 qs None None = Inr (ReducedState t)"
    by (simp_all add: reduceV5_plain)
  with e show ?thesis by blast
qed

theorem reduceV5_converges_witness:
  "\<exists>s t. reduceV5 [alice_patch, bob_patch] None None = Inr (ReducedState s) \<and>
     reduceV5 [bob_patch, alice_patch, bob_patch] None None = Inr (ReducedState t) \<and> state_abs s = state_abs t"
  by (rule reduceV5_converges) (simp_all add: patches_applicable patches_determined insert_commute)

text \<open>
  C2. Merging is replaying: the state of a replica that replayed both logs is the join of the states
  of two replicas that replayed one each.
\<close>

theorem reduceV5_merges:
  assumes "sha_determines (ps @ qs)" "\<forall>x\<in>set (ps @ qs). applicable x"
  shows "\<exists>s t u. reduceV5 ps None None = Inr (ReducedState s) \<and> reduceV5 qs None None = Inr (ReducedState t) \<and>
    reduceV5 (ps @ qs) None None = Inr (ReducedState u) \<and> state_abs u = state_abs (joinStates s t)"
proof -
  obtain s t u where "fold_r apply_entry createEmptyStateV5 ps = Inr s" "fold_r apply_entry createEmptyStateV5 qs = Inr t"
    "fold_r apply_entry createEmptyStateV5 (ps @ qs) = Inr u"
    and e: "state_abs u = state_abs (joinStates s t)"
    by (rule replicas_join [OF assms])
  then have "reduceV5 ps None None = Inr (ReducedState s)" "reduceV5 qs None None = Inr (ReducedState t)"
    "reduceV5 (ps @ qs) None None = Inr (ReducedState u)"
    by (simp_all only: reduceV5_plain bind_r.simps)
  with e show ?thesis by blast
qed

theorem reduceV5_merges_witness:
  "\<exists>s t u. reduceV5 [alice_patch] None None = Inr (ReducedState s) \<and>
     reduceV5 [bob_patch] None None = Inr (ReducedState t) \<and>
     reduceV5 ([alice_patch] @ [bob_patch]) None None = Inr (ReducedState u) \<and>
     state_abs u = state_abs (joinStates s t)"
  by (rule reduceV5_merges) (simp_all add: patches_applicable patches_determined)

lemma two_replayed:
  obtains s where "reduceV5 [alice_patch, bob_patch] None None = Inr (ReducedState s)"
proof -
  have "\<forall>x\<in>set [alice_patch, bob_patch]. applicable x" by (simp add: patches_applicable)
  then obtain s where "fold_r apply_entry createEmptyStateV5 [alice_patch, bob_patch] = Inr s"
    by (rule replicas_agree [OF patches_determined _ refl])
  then show ?thesis by (intro that [of s]) (simp add: reduceV5_plain)
qed

lemma reduceV5_state:
  "reduceV5 ps None None = Inr (ReducedState s) \<longleftrightarrow> fold_r apply_entry createEmptyStateV5 ps = Inr s"
  by (auto simp: reduceV5_plain bind_r_Inr_iff)

text \<open>
  C3. Membership of the reduced state: a node (an edge) is present exactly when some add of it in
  the replayed log carries a dot that no remove of the log observed.
\<close>

theorem reduceV5_alive:
  assumes "reduceV5 ps None None = Inr (ReducedState s)"
  shows "(orsetContains (nodeAlive s) n \<longleftrightarrow> \<not> added (full_log ps) n \<subseteq> removed (full_log ps)) \<and>
    (orsetContains (edgeAlive s) k \<longleftrightarrow> \<not> edge_added (full_log ps) k \<subseteq> edge_removed (full_log ps))"
  using replay_Inr [OF assms [unfolded reduceV5_state]] by (auto simp: run_all_contains)

theorem reduceV5_alive_witness:
  "\<exists>s. reduceV5 [alice_patch, bob_patch] None None = Inr (ReducedState s) \<and>
     (orsetContains (nodeAlive s) ''n'' \<longleftrightarrow>
        \<not> added (full_log [alice_patch, bob_patch]) ''n'' \<subseteq> removed (full_log [alice_patch, bob_patch]))"
proof -
  obtain s where s: "reduceV5 [alice_patch, bob_patch] None None = Inr (ReducedState s)" by (rule two_replayed)
  from reduceV5_alive [OF s, of "''n''" "[]"] s show ?thesis by blast
qed

text \<open>
  C4. Registers of the reduced state: a property holds one of the writes to its key, the one with
  the greatest event id; an edge was born at its latest add.
\<close>

theorem reduceV5_registers:
  assumes "reduceV5 ps None None = Inr (ReducedState s)"
  shows "winner (writes_to (full_log ps) k) (map_of (propMap s) k) \<and>
    latest (born (full_log ps) e) (map_of (edgeBirthEvent s) e)"
  using replay_Inr [OF assms [unfolded reduceV5_state]] run_all_winner [of "full_log ps" k]
    run_all_latest [of "full_log ps" e] by simp

theorem reduceV5_registers_witness:
  "\<exists>s. reduceV5 [alice_patch, bob_patch] None None = Inr (ReducedState s) \<and>
     winner (writes_to (full_log [alice_patch, bob_patch]) (encodePropKey ''n'' ''k''))
       (map_of (propMap s) (encodePropKey ''n'' ''k''))"
proof -
  obtain s where s: "reduceV5 [alice_patch, bob_patch] None None = Inr (ReducedState s)" by (rule two_replayed)
  from reduceV5_registers [OF s, of "encodePropKey ''n'' ''k''" "[]"] s show ?thesis by blast
qed

text \<open>
  C5. The frontier of the reduced state is the least vector above every causal context and every
  patch's own dot: its entry for a writer is at most \<open>c\<close> exactly when theirs are.
\<close>

theorem reduceV5_frontier:
  assumes "reduceV5 ps None None = Inr (ReducedState s)" "\<forall>x\<in>set ps. context_wf (fst x)"
  shows "vv_get (observedFrontier s) w \<le> c \<longleftrightarrow> 0 \<le> c \<and>
    (\<forall>x\<in>set ps. vv_get (entry_context (fst x)) w \<le> c \<and> (patch_writer (fst x) = w \<longrightarrow> patch_lamport (fst x) \<le> c))"
proof -
  have "observedFrontier s = observe_all createVersionVector ps"
    using replay_Inr [OF assms(1) [unfolded reduceV5_state]] by simp
  with observe_all_le_iff [OF createVersionVector_wf assms(2)] show ?thesis by simp
qed

theorem reduceV5_frontier_witness:
  "\<exists>s. reduceV5 [alice_patch, bob_patch] None None = Inr (ReducedState s) \<and> \<not> vv_get (observedFrontier s) ''bob'' \<le> 1"
proof -
  obtain s where s: "reduceV5 [alice_patch, bob_patch] None None = Inr (ReducedState s)" by (rule two_replayed)
  have "\<forall>x\<in>set [alice_patch, bob_patch]. context_wf (fst x)"
    using patches_applicable by (simp add: applicable_def)
  from reduceV5_frontier [OF s this, of "''bob''" 1] s show ?thesis
    by (auto simp: bob_patch_def)
qed

text \<open>
  Incremental reduction: reducing a log is reducing its first part and then the rest from the
  state reached, with the same result and the same error.
\<close>

theorem reduceV5_incremental:
  "reduceV5 (ps @ qs) st None = bind_r (reduceV5 ps st None) (\<lambda>r. reduceV5 qs (Some (reduced_state r)) None)"
  by (cases st) (auto simp: reduceV5_plain fold_r_append bind_r_assoc reduced_state_def)

text \<open>
  C6. Replicas that received the same patches of well-formed operations compute the same state hash,
  whatever the codec and the hash function.
\<close>

theorem replicas_same_hash:
  assumes "sha_determines ps" "\<forall>x\<in>set ps. applicable x" "set ps = set qs"
    and "\<forall>x\<in>set ps. \<forall>q\<in>set (patch_ops (fst x)). built_op q"
  shows "\<exists>s t. reduceV5 ps None None = Inr (ReducedState s) \<and> reduceV5 qs None None = Inr (ReducedState t) \<and>
    computeStateHashV5 sha256 encode s = computeStateHashV5 sha256 encode t"
proof -
  obtain s t where st: "fold_r apply_entry createEmptyStateV5 ps = Inr s" "fold_r apply_entry createEmptyStateV5 qs = Inr t"
    and e: "state_abs s = state_abs t" "state_wf s" "state_wf t"
    by (rule replicas_agree [OF assms(1-3)])
  have "computeStateHashV5 sha256 encode s = computeStateHashV5 sha256 encode t"
    by (rule projection_agrees [OF e(2,3,1) replay_wellkeyed [OF st(1) assms(4)]])
  with st show ?thesis unfolding reduceV5_state by blast
qed

theorem replicas_same_hash_witness:
  "\<exists>s t. reduceV5 [alice_patch, bob_patch] None None = Inr (ReducedState s) \<and>
     reduceV5 [bob_patch, alice_patch] None None = Inr (ReducedState t) \<and>
     computeStateHashV5 (\<lambda>bytes. bytes) (\<lambda>p. concat (proj_nodes p)) s =
     computeStateHashV5 (\<lambda>bytes. bytes) (\<lambda>p. concat (proj_nodes p)) t"
  by (rule replicas_same_hash [OF patches_determined _ _ patches_built])
    (simp_all add: patches_applicable insert_commute)

section \<open>Building and committing\<close>

text \<open>
  C7. A successful commit published the patch: the writer's ref held the expected parent and now
  holds the new commit, no other ref moved, the commit follows that parent, its message and its blob
  read back, its Lamport time is at least the builder's, and the builder is closed.
\<close>

theorem commit_publishes:
  assumes "commit env s b = (s', b', Inr sha)"
  shows "\<exists>ref l p blob ci. buildWriterRef (b_graphName b) (b_writerId b) = Inr ref \<and>
    ref_value s ref = b_expectedParentSha b \<and>
    (\<forall>r. ref_value s' r = (if r = ref then Some sha else ref_value s r)) \<and>
    getNodeInfo s' sha = Inr ci \<and>
    ci_parents ci = (case b_expectedParentSha b of None \<Rightarrow> [] | Some tip \<Rightarrow> [tip]) \<and>
    build_at l b = Inr p \<and> b_lamport b \<le> l \<and> readBlob s' blob = Inr (env_encode env p) \<and>
    encodePatchMessage (env_encodeMsg env)
      \<lparr>pm_graph = b_graphName b, pm_writer = b_writerId b, pm_lamport = l, pm_patchOid = blob,
       pm_schema = int (patch_schema p), pm_encrypted = False\<rparr> = Inr (ci_message ci) \<and>
    b_committed b' \<and> \<not> b_committed b"
proof -
  obtain plan p s2 where plan: "plan_commit (env_decodeMsg env) s b = Inr plan" and pub: "published env s' b plan p sha"
    and s': "ref_value s2 = ref_value s" "s' = set_ref s2 (plan_ref plan) sha" "oid_ok sha"
    and b: "\<not> b_committed b" "b' = b\<lparr>b_committed := True, b_committing := False\<rparr>"
    by (rule commit_okE [OF assms])
  note pl = plan_commit_ok [OF plan]
  have refs: "ref_value s' r = (if r = plan_ref plan then Some sha else ref_value s r)" for r
    using refs.read_write [OF oid_ok_nonempty [OF s'(3)]] refs.read_other [of r "plan_ref plan" s2 sha] s' by simp
  from pub s'(3) obtain blob ci where
    "build_at (plan_lamport plan) b = Inr p" "readBlob s' blob = Inr (env_encode env p)"
    "ci_parents ci = parents_of plan" "getNodeInfo s' sha = Inr ci"
    "encodePatchMessage (env_encodeMsg env) (message_of b plan p blob) = Inr (ci_message ci)"
    by (auto simp: published_def)
  with pl refs b show ?thesis
    by (intro exI [of _ "plan_ref plan"] exI [of _ "plan_lamport plan"] exI [of _ p] exI [of _ blob] exI [of _ ci])
      (simp add: parents_of_def message_of_def)
qed

theorem commit_publishes_witness:
  "\<exists>s b ref. commit demo_env empty_store (demo_builder one_call) = (s, b, Inr demo_oid) \<and> ref_value s ref = Some demo_oid"
proof -
  obtain s b where c: "commit demo_env empty_store (demo_builder one_call) = (s, b, Inr demo_oid)" by (rule demo_committed)
  from commit_publishes [OF c] c show ?thesis by metis
qed

text \<open>
  C8. A commit that fails moves no ref and leaves the builder as it was, so it can be tried again.
\<close>

theorem commit_failure_harmless:
  assumes "commit env s b = (s', b', Inl e)" "\<not> b_committed b" "\<not> b_committing b"
  shows "ref_value s' = ref_value s \<and> b' = b"
  using commit_failed [OF assms] by simp

theorem commit_failure_harmless_witness:
  "\<exists>s b e. commit demo_env empty_store (demo_builder []) = (s, b, Inl e) \<and> b = demo_builder []"
proof -
  have b: "\<not> b_committed (demo_builder [])" "\<not> b_committing (demo_builder [])"
    by (simp_all add: demo_builder_def run_calls_def createPatchBuilder_def)
  have c: "commit demo_env empty_store (demo_builder []) = (empty_store, demo_builder [], Inl (CommitErr (BuilderErr EmptyPatch)))"
    by (simp add: commit_def commit_begin_def plan_commit_def demo_builder_def run_calls_def createPatchBuilder_def)
  from commit_failure_harmless [OF c b] c show ?thesis by blast
qed

text \<open>
  C9. A builder whose expected parent is no longer the tip of its writer's ref is refused with a
  conflict that names both, and nothing is written.
\<close>

theorem commit_conflict:
  assumes "buildWriterRef (b_graphName b) (b_writerId b) = Inr r" "ref_ok r" "b_ops b \<noteq> []"
    "\<not> b_committed b" "\<not> b_committing b" "ref_value s r \<noteq> b_expectedParentSha b"
  shows "commit env s b = (s, b, Inl (CommitErr (BuilderErr (CasConflict (b_expectedParentSha b) (ref_value s r)))))"
  using assms by (rule commit_stale)

theorem commit_conflict_witness:
  "commit demo_env (set_ref empty_store demo_ref ''abcd'') (demo_builder one_call) =
     (set_ref empty_store demo_ref ''abcd'', demo_builder one_call,
      Inl (CommitErr (BuilderErr (CasConflict None (Some ''abcd'')))))"
proof -
  have v: "ref_value (set_ref empty_store demo_ref ''abcd'') demo_ref = Some ''abcd''"
    by (rule refs.read_write) simp
  show ?thesis
    using commit_conflict [of "demo_builder one_call" demo_ref "set_ref empty_store demo_ref ''abcd''" demo_env] v
    by (simp add: demo_builder_fields demo_ref_valid)
qed



section \<open>Built patches\<close>





text \<open>
  C12. The dots that a builder draws, over any sequence of calls, are distinct, are its writer's, are
  above everything that the version vector it started from had observed, and are covered by its own.
\<close>

theorem built_dots_fresh:
  "let b = run_calls cs (createPatchBuilder g w l vv par pol); ds = added_dots (b_ops b)
   in distinct ds \<and> list_all (\<lambda>d. dot_writerId d = b_writerId b \<and> \<not> vvContains vv d \<and> vvContains (b_vv b) d) ds"
proof -
  let ?b = "run_calls cs (createPatchBuilder g w l vv par pol)"
  have inv: "dots_inv vv ?b" by (rule run_calls_dots [OF createPatchBuilder_dots])
  then have s: "sorted_wrt (\<lambda>d e. dot_counter d < dot_counter e) (added_dots (b_ops ?b))"
    by (simp add: dots_inv_def Let_def)
  have "distinct ds" if "sorted_wrt (\<lambda>d e. dot_counter d < dot_counter e) ds" for ds
    using that by (induction ds) auto
  with s inv show ?thesis
    by (auto simp: Let_def dots_inv_def list_all_iff vvContains_def)
qed

text \<open>
  Snapshot isolation: whatever the materialised state becomes between the calls, all removals of
  one builder observe the dots of one and the same state.
\<close>

theorem removals_observe_one_snapshot:
  "\<exists>s. list_all (observes s) (b_ops (run_calls cs (createPatchBuilder g w l vv par pol)))"
proof -
  let ?b = "run_calls cs (createPatchBuilder g w l vv par pol)"
  have "snapshot_inv ?b"
    by (rule one_snapshot.every_sequence) (simp add: snapshot_inv_def createPatchBuilder_def)
  then show ?thesis
    by (auto simp: snapshot_inv_def intro: observes_others split: option.splits)
qed


definition demo_state :: warp_state where
  "demo_state = createEmptyStateV5
     \<lparr>nodeAlive := \<lparr>entries = [(''n'', [''alice:1'']), (''m'', [''bob:1''])], tombstones = []\<rparr>,
      edgeAlive := \<lparr>entries = [(encodeEdgeKey ''n'' ''m'' ''l'', [''bob:2''])], tombstones = []\<rparr>\<rparr>"

lemma demo_state_unique: "membership_unique demo_state"
  by (auto simp: membership_unique_def dots_unique_def demo_state_def orset_dots_def split: option.splits if_splits)

lemma demo_state_keys:
  "\<forall>k. orsetContains (edgeAlive demo_state) k \<longrightarrow> length (split_on FIELD_SEPARATOR k) = 3"
  by (auto simp: demo_state_def orsetContains_def encodeEdgeKey_def FIELD_SEPARATOR_def split: if_splits)




section \<open>Receipts and diffs\<close>

text \<open>
  C14. Reducing with receipts computes the state that reducing without them computes, and one valid
  receipt per patch, in order.
\<close>

theorem receipts_keep_the_state:
  assumes "reduceV5 ps st (Some \<lparr>opt_receipts = True, opt_trackDiff = d\<rparr>) = Inr r"
  shows "\<exists>s rs. r = ReducedReceipts s rs \<and> reduceV5 ps st None = Inr (ReducedState s) \<and> list_all2 receipt_for ps rs"
proof -
  let ?s0 = "case st of None \<Rightarrow> createEmptyStateV5 | Some s \<Rightarrow> cloneStateV5 s"
  obtain s rs where f: "fold_r reduce_receipt_step (?s0, []) ps = Inr (s, rs)" and r: "r = ReducedReceipts s rs"
    using assms by (auto simp: reduceV5_def Let_def bind_r_Inr_iff)
  have "reduceV5 ps st None = Inr (ReducedState s)"
    using reduce_receipts_state [OF f] by (cases st) (simp_all add: reduceV5_plain)
  with r reduce_receipts_for [OF f] show ?thesis by auto
qed

lemma receipts_run:
  "is_ok (reduceV5 [alice_patch] None (Some \<lparr>opt_receipts = True, opt_trackDiff = False\<rparr>))"
  by code_simp

theorem receipts_keep_the_state_witness:
  "\<exists>s rs. reduceV5 [alice_patch] None (Some \<lparr>opt_receipts = True, opt_trackDiff = False\<rparr>) = Inr (ReducedReceipts s rs) \<and>
     list_all2 receipt_for [alice_patch] rs"
proof -
  obtain r where r: "reduceV5 [alice_patch] None (Some \<lparr>opt_receipts = True, opt_trackDiff = False\<rparr>) = Inr r"
    using receipts_run by (auto simp: is_ok_iff)
  from receipts_keep_the_state [OF r] r show ?thesis by auto
qed


lemma demo_state_wf: "state_wf demo_state"
  by (auto simp: state_wf_def orset_wf_def demo_state_def split: if_splits)


text \<open>Reducing with diffs computes exactly the state that reducing without them computes.\<close>

theorem diffs_keep_the_state:
  "(\<exists>d. reduceV5 ps st (Some \<lparr>opt_receipts = False, opt_trackDiff = True\<rparr>) = Inr (ReducedDiff s d)) \<longleftrightarrow>
   reduceV5 ps st None = Inr (ReducedState s)"
proof -
  let ?s0 = "case st of None \<Rightarrow> createEmptyStateV5 | Some s \<Rightarrow> cloneStateV5 s"
  have "(\<exists>d. reduceV5 ps st (Some \<lparr>opt_receipts = False, opt_trackDiff = True\<rparr>) = Inr (ReducedDiff s d)) \<longleftrightarrow>
      (\<exists>d. fold_r reduce_diff_step (?s0, createEmptyDiff) ps = Inr (s, d))"
    by (auto simp: reduceV5_def Let_def bind_r_Inr_iff)
  also have "\<dots> \<longleftrightarrow> fold_r apply_entry ?s0 ps = Inr s" by (rule reduce_diff_iff)
  also have "\<dots> \<longleftrightarrow> reduceV5 ps st None = Inr (ReducedState s)"
    by (cases st) (auto simp: reduceV5_plain bind_r_Inr_iff)
  finally show ?thesis .
qed

text \<open>
  The diff of one patch accounts for every change of a node's membership: after the patch a
  node is present as often as before, plus its occurrences among the added, minus those among the
  removed ones.
\<close>

theorem patch_diff_accounts:
  assumes "applyWithDiff st p sha = Inr (st', d)" "state_wf st" "dots_unique (nodeAlive st')"
  shows "of_bool (orsetContains (nodeAlive st') n) =
    of_bool (orsetContains (nodeAlive st) n) + int (count_list (nodesAdded d) n) - int (count_list (nodesRemoved d) n)"
  using applyWithDiff_balanced [OF assms] unfolding balanced_def by blast

lemma empty_diff_run:
  "applyWithDiff demo_state (createPatchV2 2 ''bob'' 1 (CtxObj []) [createNodeRemoveV2 ''n'' [''alice:1'']] [] []) ''abcd'' =
     Inr (demo_state\<lparr>nodeAlive := orsetRemove (nodeAlive demo_state) [''alice:1''], observedFrontier := [(''bob'', 1)]\<rparr>,
          createEmptyDiff\<lparr>nodesRemoved := [''n'']\<rparr>)"
  by code_simp

theorem patch_diff_accounts_witness:
  "\<not> orsetContains (orsetRemove (nodeAlive demo_state) [''alice:1'']) ''n''"
proof -
  have "dots_unique (orsetRemove (nodeAlive demo_state) [''alice:1''])"
    using demo_state_unique by (simp add: membership_unique_def dots_unique_def)
  then have "dots_unique (nodeAlive (demo_state\<lparr>nodeAlive := orsetRemove (nodeAlive demo_state) [''alice:1''],
      observedFrontier := [(''bob'', 1)]\<rparr>))" by simp
  from patch_diff_accounts [OF empty_diff_run demo_state_wf this, of "''n''"] show ?thesis
    by (auto simp: createEmptyDiff_def of_bool_def split: if_splits)
qed

text \<open>
  Merging the net diffs of two consecutive steps gives the net diff of both.
\<close>

theorem merged_diffs_are_net:
  assumes "net A B (nodesAdded x) (nodesRemoved x)" "net B C (nodesAdded y) (nodesRemoved y)"
  shows "net A C (nodesAdded (mergeDiffs x y)) (nodesRemoved (mergeDiffs x y))"
  using assms by (rule mergeDiffs_net)

theorem merged_diffs_are_net_witness:
  "net {} {} (nodesAdded (mergeDiffs (createEmptyDiff\<lparr>nodesAdded := [''n'']\<rparr>) (createEmptyDiff\<lparr>nodesRemoved := [''n'']\<rparr>)))
     (nodesRemoved (mergeDiffs (createEmptyDiff\<lparr>nodesAdded := [''n'']\<rparr>) (createEmptyDiff\<lparr>nodesRemoved := [''n'']\<rparr>)))"
  by (rule merged_diffs_are_net [where B = "{''n''}"]) (simp_all add: net_def createEmptyDiff_def)

text \<open>
  A patch's own diff need not be net: it lists an element twice when the patch removes and
  re-adds it. The merge cancels by membership, so the reduction with diffs misses a node that was
  absent before, is present afterwards, and was added, removed and added again.
\<close>

theorem readded_node_is_lost:
  "case reduceV5 [alice_patch, carol_patch] None (Some \<lparr>opt_receipts = False, opt_trackDiff = True\<rparr>) of
     Inr (ReducedDiff s d) \<Rightarrow> orsetContains (nodeAlive s) ''n'' \<and> nodesAdded d = [] \<and> nodesRemoved d = []
   | _ \<Rightarrow> False"
  by code_simp

section \<open>The replicated types\<close>

text \<open>
  C16. Merging states is commutative, associative and idempotent on what can be observed, and keeps
  the invariant, for states whose registers agree on what each event wrote.
\<close>

theorem joinStates_semilattice:
  assumes "state_from wr a" "state_from wr b" "state_from wr c"
  shows "state_from wr (joinStates a b) \<and> state_abs (joinStates a b) = state_abs (joinStates b a) \<and>
    state_abs (joinStates (joinStates a b) c) = state_abs (joinStates a (joinStates b c)) \<and>
    state_abs (joinStates a a) = state_abs a"
  by (intro conjI states.inv_join [OF assms(1,2)] states.join_comm [OF assms(1,2)]
      states.join_assoc [OF assms] states.join_idem [OF assms(1)])

lemma demo_states_from:
  "state_from (\<lambda>k e. JNum (ev_lamport e)) (run_effect (EventId l w s i) createEmptyStateV5 (WriteProp k (JNum l)))"
  by (rule run_effect_from) (simp_all add: writes_as_def)

theorem joinStates_semilattice_witness:
  "state_abs (joinStates
       (run_effect (EventId 1 ''a'' ''abcd'' 0) createEmptyStateV5 (WriteProp ''k'' (JNum 1)))
       (run_effect (EventId 2 ''b'' ''abcd'' 0) createEmptyStateV5 (WriteProp ''k'' (JNum 2)))) =
   state_abs (joinStates
       (run_effect (EventId 2 ''b'' ''abcd'' 0) createEmptyStateV5 (WriteProp ''k'' (JNum 2)))
       (run_effect (EventId 1 ''a'' ''abcd'' 0) createEmptyStateV5 (WriteProp ''k'' (JNum 1))))"
  using joinStates_semilattice [OF demo_states_from demo_states_from demo_states_from] by blast

text \<open>
  C17. Adds win: an add whose dot no remove has observed keeps the element through a merge with a
  replica that concurrently removed the dots it knew.
\<close>

theorem concurrent_add_survives:
  assumes "orsetAdd a e dot = Inr a'" "dot_of_js dot = Some d" "orset_wf b"
    and "encodeDot d \<notin> orset_tombs a" "encodeDot d \<notin> orset_tombs b" "encodeDot d \<notin> set ds"
  shows "orsetContains (orsetJoin a' (orsetRemove b ds)) e"
proof -
  have "a' = orset_insert a e (encodeDot d)" using assms(1,2) by (auto simp: orsetAdd_ok)
  with rset.concurrent_add_wins [OF assms(3-6)] show ?thesis by simp
qed

theorem concurrent_add_survives_witness:
  "orsetContains (orsetJoin (orset_insert createORSet ''n'' (encodeDot (Dot ''a'' 2)))
     (orsetRemove (orset_insert createORSet ''n'' (encodeDot (Dot ''a'' 1))) [encodeDot (Dot ''a'' 1)])) ''n''"
proof (rule concurrent_add_survives [where d = "Dot ''a'' 2" and dot = "js_dot (Dot ''a'' 2)" and a = createORSet])
  show "encodeDot (Dot ''a'' 2) \<notin> set [encodeDot (Dot ''a'' 1)]" by code_simp
qed (simp_all add: orsetAdd_ok orset_insert_wf)

text \<open>
  A remove takes effect on an element exactly when it observed all its live dots; in particular
  the dots that \<open>orsetGetDots\<close> reads are enough.
\<close>

theorem remove_takes_observed_dots:
  "(orsetContains (orsetRemove s ds) e \<longleftrightarrow> \<not> orset_dots s e - orset_tombs s \<subseteq> set ds) \<and>
   \<not> orsetContains (orsetRemove s (orsetGetDots s e)) e"
  by (auto simp: orsetContains_iff orsetGetDots_set)

section \<open>Compaction\<close>

text \<open>
  C18. Compaction is invisible to readers: every node, edge and property that was visible still is
  and no other one becomes so; live dots are kept, and the reported number of tombstones removed is
  the number of entries removed from both sets.
\<close>

theorem gc_is_invisible:
  assumes "state_wf st" "executeGC st vv = Inr (st', r)"
  shows "nodeVisibleV5 st' = nodeVisibleV5 st \<and> edgeVisibleV5 st' = edgeVisibleV5 st \<and> propMap st' = propMap st \<and>
    countLiveDots (nodeAlive st') = countLiveDots (nodeAlive st) \<and>
    countLiveDots (edgeAlive st') = countLiveDots (edgeAlive st) \<and>
    tombstonesRemoved r = nodesCompacted r + edgesCompacted r"
proof -
  obtain nodes edges where n: "orsetCompact (nodeAlive st) vv = Inr nodes" and e: "orsetCompact (edgeAlive st) vv = Inr edges"
    and st': "st' = st\<lparr>nodeAlive := nodes, edgeAlive := edges\<rparr>"
    and r: "nodesCompacted r = int (countEntries (nodeAlive st)) - int (countEntries nodes)"
      "edgesCompacted r = int (countEntries (edgeAlive st)) - int (countEntries edges)"
      "tombstonesRemoved r = int (countTombstones (nodeAlive st)) + int (countTombstones (edgeAlive st))
         - int (countTombstones nodes) - int (countTombstones edges)"
    by (rule executeGC_cases [OF assms(2)])
  have wf: "orset_wf (nodeAlive st)" "orset_wf (edgeAlive st)" using assms(1) by (simp_all add: state_wf_def)
  have nv: "nodeVisibleV5 st' = nodeVisibleV5 st"
    by (simp add: fun_eq_iff nodeVisibleV5_def st' orsetCompact_contains [OF wf(1) n] split: option.split)
  have "edgeVisibleV5 st' = edgeVisibleV5 st"
    unfolding edgeVisibleV5_def nv by (simp add: fun_eq_iff st' orsetCompact_contains [OF wf(2) e])
  with nv compact_counts [OF wf(1) n] compact_counts [OF wf(2) e] r show ?thesis by (simp add: st')
qed

definition gc_state :: warp_state where
  "gc_state = createEmptyStateV5
     \<lparr>nodeAlive := \<lparr>entries = [(''n'', [''alice:1'']), (''m'', [''bob:1''])], tombstones = [''alice:1'']\<rparr>\<rparr>"

lemma gc_state_facts: "state_wf gc_state" "is_ok (executeGC gc_state [(''alice'', 1)])"
proof -
  show "state_wf gc_state"
    by (auto simp: state_wf_def orset_wf_def gc_state_def createORSet_def split: if_splits)
  show "is_ok (executeGC gc_state [(''alice'', 1)])" by code_simp
qed

theorem gc_is_invisible_witness:
  "\<exists>st' r. executeGC gc_state [(''alice'', 1)] = Inr (st', r) \<and> nodeVisibleV5 st' = nodeVisibleV5 gc_state"
proof -
  obtain st' r where x: "executeGC gc_state [(''alice'', 1)] = Inr (st', r)"
    using gc_state_facts(2) by (auto simp: is_ok_iff)
  from gc_is_invisible [OF gc_state_facts(1) x] x show ?thesis by blast
qed

text \<open>
  A compacted set merges like the original with every replica that holds no forgotten dot
  without its tombstone; with a replica that holds such a dot alive, the merge brings its element back.
\<close>

theorem gc_merge_condition:
  assumes "orset_wf s" "orset_wf b" "orsetCompact s vv = Inr s'"
  shows "((\<forall>d\<in>orset_forgotten s vv. \<forall>e. d \<in> orset_dots b e \<longrightarrow> d \<in> orset_tombs b) \<longrightarrow>
      (\<forall>e. orsetContains (orsetJoin s' b) e = orsetContains (orsetJoin s b) e)) \<and>
    (\<forall>d e. d \<in> orset_forgotten s vv \<and> d \<in> orset_dots b e \<and> d \<notin> orset_tombs b \<longrightarrow>
      orsetContains (orsetJoin s' b) e)"
  using orsetCompact_merge_safe [OF assms] orsetCompact_resurrects [OF assms] by blast

lemma gc_compacted:
  "orsetCompact (nodeAlive gc_state) [(''alice'', 1)] = Inr \<lparr>entries = [(''m'', [''bob:1''])], tombstones = []\<rparr>"
  "''alice:1'' \<in> orset_forgotten (nodeAlive gc_state) [(''alice'', 1)]"
proof -
  show "orsetCompact (nodeAlive gc_state) [(''alice'', 1)] = Inr \<lparr>entries = [(''m'', [''bob:1''])], tombstones = []\<rparr>"
    by code_simp
  have "compactable (nodeAlive gc_state) [(''alice'', 1)] ''alice:1''" by code_simp
  moreover have "''alice:1'' \<in> orset_dots (nodeAlive gc_state) ''n''" by code_simp
  ultimately show "''alice:1'' \<in> orset_forgotten (nodeAlive gc_state) [(''alice'', 1)]"
    by (auto simp: orset_forgotten_def)
qed

theorem gc_merge_condition_witness:
  "orsetContains (orsetJoin \<lparr>entries = [(''m'', [''bob:1''])], tombstones = []\<rparr>
     (orset_insert createORSet ''n'' ''alice:1'')) ''n''"
proof -
  have w: "orset_wf (nodeAlive gc_state)" using gc_state_facts(1) by (simp add: state_wf_def)
  have b: "orset_wf (orset_insert createORSet ''n'' ''alice:1'')" by (rule orset_insert_wf) simp
  from gc_merge_condition [OF w b gc_compacted(1)] gc_compacted(2) show ?thesis by auto
qed

section \<open>Codecs\<close>

text \<open>
  C19. Serialising a set is canonical and loses nothing: sets with the same elements, dots and
  tombstones have one serialisation, whatever order they were filled in, and it reads back.
\<close>

theorem orset_serialization_canonical:
  assumes "orset_wf a" "orset_wf b" "dots_encoded a" "dots_encoded b" "orset_abs a = orset_abs b"
  shows "\<exists>j. orsetSerialize a = Inr j \<and> orsetSerialize b = Inr j \<and> orset_wf (read_ser j) \<and>
    orset_abs (read_ser j) = orset_abs a"
proof -
  obtain j where j: "orsetSerialize a = Inr j" using orsetSerialize_eq [OF assms(1,3)] by blast
  with orset_roundtrip [OF assms(1,3) j] orsetSerialize_canonical [OF assms] show ?thesis by metis
qed

definition ab_set :: orset where
  "ab_set = orset_insert (orset_insert createORSet ''x'' (encodeDot (Dot ''a'' 1))) ''y'' (encodeDot (Dot ''b'' 2))"

definition ba_set :: orset where
  "ba_set = orset_insert (orset_insert createORSet ''y'' (encodeDot (Dot ''b'' 2))) ''x'' (encodeDot (Dot ''a'' 1))"

lemma encoded_dot: "dot_valid d \<Longrightarrow> dot_encoded (encodeDot d)"
  by (auto simp: dot_encoded_def)

theorem orset_serialization_canonical_witness: "orsetSerialize ab_set = orsetSerialize ba_set"
proof -
  have d: "dot_encoded (encodeDot (Dot ''a'' 1))" "dot_encoded (encodeDot (Dot ''b'' 2))"
    by (rule encoded_dot; simp add: dot_valid_def)+
  have e: "dots_encoded ab_set" "dots_encoded ba_set"
    by (auto simp: dots_encoded_def ab_set_def ba_set_def d)
  have eq: "orset_abs ab_set = orset_abs ba_set"
    by (auto simp: ab_set_def ba_set_def orset_insert_abs orset_abs_def orset_insert_entries_abs)
  have "orset_wf ab_set" "orset_wf ba_set"
    by (simp_all add: ab_set_def ba_set_def orset_insert_wf)
  from orset_serialization_canonical [OF this e eq] show ?thesis by auto
qed

text \<open>
  The merge of two causal contexts is their least upper bound, and contains exactly the dots
  that one of them contains.
\<close>

theorem vvMerge_is_lub:
  assumes "vv_wf a" "vv_wf b" "vv_wf c"
  shows "(vvDescends c (vvMerge a b) \<longleftrightarrow> vvDescends c a \<and> vvDescends c b) \<and>
    (vvContains (vvMerge a b) d \<longleftrightarrow> vvContains a d \<or> vvContains b d)"
  using vvDescends_iff [OF assms(3) vvMerge_wf [OF assms(1,2)]] vvDescends_iff [OF assms(3,1)]
    vvDescends_iff [OF assms(3,2)] vvContains_merge [OF assms(1,2)]
  by (auto simp: vvMerge_get [OF assms(1,2)])

theorem vvMerge_is_lub_witness:
  "vvDescends [(''a'', 2), (''b'', 1)] (vvMerge [(''a'', 2)] [(''b'', 1)]) \<longleftrightarrow>
     vvDescends [(''a'', 2), (''b'', 1)] [(''a'', 2)] \<and> vvDescends [(''a'', 2), (''b'', 1)] [(''b'', 1)]"
proof -
  have "vv_wf [(''a'', 2), (''b'', 1)]" "vv_wf [(''a'', 2)]" "vv_wf [(''b'', 1)]"
    by (auto simp: vv_wf_def split: if_splits)
  from vvMerge_is_lub [OF this(2,3,1)] show ?thesis by blast
qed

text \<open>
  C20. A version vector of positive counters survives serialisation, except for an entry under the
  id \<open>__proto__\<close>, which a plain object drops.
\<close>

theorem vv_survives_serialization:
  assumes "vv_positive vv"
  shows "\<exists>obj vv'. vvSerialize vv = Inr obj \<and> vvDeserialize (map (\<lambda>(k, c). (k, JNum c)) obj) = Inr vv' \<and>
    map_of vv' = (\<lambda>k. if k = ''__proto__'' then None else map_of vv k)"
  using vv_roundtrip [OF assms] by blast

theorem vv_survives_serialization_witness:
  "\<exists>obj vv'. vvSerialize [(''__proto__'', 1), (''b'', 2)] = Inr obj \<and>
     vvDeserialize (map (\<lambda>(k, c). (k, JNum c)) obj) = Inr vv' \<and> map_of vv' ''__proto__'' = None"
proof -
  have "vv_positive [(''__proto__'', 1), (''b'', 2)]" by (auto simp: vv_positive_def split: if_splits)
  from vv_survives_serialization [OF this] show ?thesis by auto
qed



section \<open>Projections, refs and messages\<close>


lemma filter_update: "\<not> P k \<Longrightarrow> filter (\<lambda>x. P (fst x)) (map_set m k v) = filter (\<lambda>x. P (fst x)) m"
  by (induction m) auto

text \<open>
  The state hash does not cover the properties of edges: writing one leaves the hash unchanged,
  so two replicas that differ in edge properties only have equal hashes.
\<close>

theorem edge_properties_are_not_hashed:
  assumes "wellkeyed st"
  shows "computeStateHashV5 sha256 encode (setProp st (encodeEdgePropKey f t l k) e v) =
    computeStateHashV5 sha256 encode st"
proof -
  let ?key = "encodeEdgePropKey f t l k" and ?st = "setProp st (encodeEdgePropKey f t l k) e v"
  have inv: "\<not> nodeVisibleV5 st (fst (decodePropKey ?key))"
  proof
    assume v: "nodeVisibleV5 st (fst (decodePropKey ?key))"
    have "propVisibleV5 (st\<lparr>propMap := [(?key, lwwSet e v)]\<rparr>) ?key"
      using v by (simp add: propVisibleV5_def nodeVisibleV5_def split: option.splits)
    moreover have "wellkeyed (st\<lparr>propMap := [(?key, lwwSet e v)]\<rparr>)"
      using assms by (simp add: wellkeyed_def)
    ultimately show False using edge_props_invisible by blast
  qed
  have same: "nodeAlive ?st = nodeAlive st" "edgeAlive ?st = edgeAlive st" by (simp_all add: setProp_eq)
  have nv: "nodeVisibleV5 ?st = nodeVisibleV5 st" by (simp add: fun_eq_iff nodeVisibleV5_def same split: option.split)
  have ev: "edgeVisibleV5 ?st = edgeVisibleV5 st" unfolding edgeVisibleV5_def nv same ..
  have "visible_props ?st = visible_props st"
    unfolding visible_props_eq nv
    by (simp add: setProp_eq filter_update [where P = "\<lambda>key. nodeVisibleV5 st (fst (decodePropKey key))", OF inv])
  then have "visible_projection ?st = visible_projection st"
    unfolding visible_projection_def same ev by simp
  then show ?thesis by (simp add: computeStateHashV5_def serializeStateV5_def)
qed

lemma demo_state_wellkeyed: "wellkeyed demo_state"
  using demo_state_keys
  by (auto simp: wellkeyed_def demo_state_def orsetContains_def no_prefix_def EDGE_PROP_PREFIX_def split: if_splits)

theorem edge_properties_are_not_hashed_witness:
  "computeStateHashV5 (\<lambda>p. concat (proj_nodes p)) (\<lambda>p. p)
     (setProp demo_state (encodeEdgePropKey ''n'' ''m'' ''l'' ''k'') (EventId 1 ''a'' ''abcd'' 0) (JNum 1)) =
   computeStateHashV5 (\<lambda>p. concat (proj_nodes p)) (\<lambda>p. p) demo_state"
  by (rule edge_properties_are_not_hashed [OF demo_state_wellkeyed])

text \<open>
  The layout of the refs is injective over all kinds of refs, graphs and names, and the writer
  of a writer ref is read back from it.
\<close>

theorem ref_layout_is_injective:
  assumes "build_ref k g = Inr r" "build_ref k' g' = Inr r'"
  shows "(r = r' \<longleftrightarrow> k = k' \<and> g = g') \<and> (k = WriterRef w \<longrightarrow> parseWriterIdFromRef (JStr r) = Some w)"
  using build_ref_inj [of k g r k' g'] parse_build_writer [of g w r] assms by (cases k) auto

theorem ref_layout_is_injective_witness:
  "parseWriterIdFromRef (JStr demo_ref) = Some ''alice'' \<and> demo_ref \<noteq> ''refs/warp/g/audit/alice''"
proof -
  have a: "build_ref (AuditRef ''alice'') ''g'' = Inr ''refs/warp/g/audit/alice''" by code_simp
  have "build_ref (WriterRef ''alice'') ''g'' = Inr demo_ref" by (simp add: demo_ref_valid)
  from ref_layout_is_injective [OF this a, of "''alice''"] show ?thesis by auto
qed




text \<open>
  The fingerprint of a frontier identifies it: two frontiers have the same one exactly when
  they map the same writers to the same commits, in whatever order they were filled in.
\<close>

theorem fingerprint_identifies_frontier:
  assumes "map_wf a" "map_wf b"
  shows "frontierFingerprint a = frontierFingerprint b \<longleftrightarrow> map_of a = map_of b"
  using assms by (rule frontierFingerprint_iff)

theorem fingerprint_identifies_frontier_witness:
  "frontierFingerprint [(''a'', ''1111''), (''b'', ''2222'')] = frontierFingerprint [(''b'', ''2222''), (''a'', ''1111'')] \<and>
   frontierFingerprint [(''a'', ''1111'')] \<noteq> frontierFingerprint [(''a'', ''2222'')]"
  using fingerprint_identifies_frontier [of "[(''a'', ''1111''), (''b'', ''2222'')]" "[(''b'', ''2222''), (''a'', ''1111'')]"]
    fingerprint_identifies_frontier [of "[(''a'', ''1111'')]" "[(''a'', ''2222'')]"]
  by (auto simp: fun_eq_iff)

end
